(* ===== verification/Towns_Prelude.thy ===== *)
theory Towns_Prelude
  imports Main "HOL-Library.Word"
begin

text \<open>
  Shared vocabulary of the development: the machine integer types of the C++ sources, the
  idioms the drivers use on them (testing a mask, extracting one bit, replacing one byte of a
  wider register), and the lemmas about them that the component theories share.
  The collection \<open>byte_simps\<close> holds the equations about byte lanes.
\<close>

unbundle bit_operations_syntax

type_synonym u8 = "8 word"
type_synonym u16 = "16 word"
type_synonym u32 = "32 word"
type_synonym u64 = "64 word"

named_theorems byte_simps

subsection \<open>Masks and single bits\<close>

text \<open>The C idiom \<open>if (x & m)\<close>.\<close>

abbreviation tst :: "'a::len word \<Rightarrow> 'a word \<Rightarrow> bool" where
  "tst x m \<equiv> x AND m \<noteq> 0"

text \<open>\<open>BIT(x, n)\<close> of the sources as a truth value, and \<open>1 << n\<close> in an 8-bit register.\<close>

definition sel_bit :: "'a::len word \<Rightarrow> nat \<Rightarrow> bool" where
  "sel_bit x n = tst x (push_bit n 1)"

definition irq_mask :: "nat \<Rightarrow> u8" where
  "irq_mask n = push_bit n 1"

lemma tst_exp [simp]: "(x AND 2 ^ n = 0) = (\<not> bit x n)" for x :: "'a::len word"
proof
  assume "x AND 2 ^ n = 0"
  then have "\<not> bit (x AND 2 ^ n) n" by simp
  then show "\<not> bit x n"
    using bit_imp_le_length [of x n] by (auto simp: bit_simps)
next
  assume "\<not> bit x n"
  then show "x AND 2 ^ n = 0"
    by (intro bit_word_eqI) (auto simp: bit_simps)
qed

lemma tst_irq_mask [simp]: "(x AND irq_mask n = 0) = (\<not> bit x n)"
  by (simp add: irq_mask_def)

lemma bit_irq_mask: "bit (irq_mask n) i \<longleftrightarrow> i = n \<and> n < 8"
  by (auto simp: irq_mask_def bit_simps)

lemma bit_or_irq_mask [simp]: "bit (x OR irq_mask n) i \<longleftrightarrow> bit x i \<or> (i = n \<and> n < 8)"
  by (simp add: bit_or_iff bit_irq_mask)

lemma bit_clear_irq_mask [simp]: "bit (x AND NOT (irq_mask n)) i \<longleftrightarrow> bit x i \<and> i \<noteq> n"
proof -
  have "bit x i \<Longrightarrow> i < 8" using bit_imp_le_length [of x i] by simp
  then show ?thesis by (auto simp: bit_simps bit_irq_mask)
qed

lemma sel_bit_iff: "sel_bit x n \<longleftrightarrow> bit x n" for x :: "'a::len word"
  by (simp add: sel_bit_def)

lemma bit8_less: "bit (x :: u8) i \<Longrightarrow> i < 8"
  using bit_imp_le_length [of x i] by simp

lemma not_bit8 [simp]: "8 \<le> i \<Longrightarrow> \<not> bit (x :: u8) i"
  using bit8_less [of x i] by auto

lemma u8_eqI: "(\<And>i. i < 8 \<Longrightarrow> bit x i = bit y i) \<Longrightarrow> x = y" for x y :: u8
  by (rule bit_word_eqI) simp

lemma less_8_cases:
  "n < 8 \<Longrightarrow> n = 0 \<or> n = 1 \<or> n = 2 \<or> n = 3 \<or> n = 4 \<or> n = 5 \<or> n = 6 \<or> n = (7::nat)"
  by arith

text \<open>An 8-bit register is determined by its eight bits, in the form the simplifier can evaluate.\<close>

lemma u8_eq_bits:
  "x = y \<longleftrightarrow> bit x 0 = bit y 0 \<and> bit x 1 = bit y 1 \<and> bit x 2 = bit y 2 \<and> bit x 3 = bit y 3 \<and>
     bit x 4 = bit y 4 \<and> bit x 5 = bit y 5 \<and> bit x 6 = bit y 6 \<and> bit x 7 = bit y 7" for x y :: u8
  using u8_eqI [of x y] less_8_cases by blast

lemma u8_low_bits: "x < 16 \<Longrightarrow> bit x n \<Longrightarrow> n < 4" for x :: u8
proof (rule ccontr)
  assume x: "x < 16" and b: "bit x n" and n: "\<not> n < 4"
  have "unat x < 16" using x by (simp add: word_less_nat_alt)
  also have "(16 :: nat) = 2 ^ 4" by simp
  also have "\<dots> \<le> 2 ^ n" using n by (intro power_increasing) auto
  finally have "unat x div 2 ^ n = 0" by simp
  moreover have "odd (unat x div 2 ^ n)"
    using b by (metis bit_iff_odd bit_unsigned_iff bit_imp_possible_bit possible_bit_nat)
  ultimately show False by simp
qed

lemma less_4_cases: "n < 4 \<Longrightarrow> n = 0 \<or> n = 1 \<or> n = 2 \<or> n = (3::nat)"
  by arith

lemma bit_low_nibble: "bit (0x0f :: u8) n \<longleftrightarrow> n < 4"
proof -
  have "(0x0f :: u8) = mask 4" by (simp add: mask_eq_exp_minus_1)
  then show ?thesis by (simp only: bit_mask_iff) auto
qed

lemma bit_and_0f: "bit (x AND 0x0f) n \<longleftrightarrow> bit x n \<and> n < 4" for x :: u8
  by (simp only: bit_and_iff bit_low_nibble)

lemma and_0f_id: "x < 16 \<Longrightarrow> x AND 0x0f = x" for x :: u8
  by (rule bit_word_eqI) (use u8_low_bits [of x] in \<open>auto simp: bit_and_0f\<close>)

subsection \<open>Byte lanes of wider registers\<close>

definition lo8 :: "u16 \<Rightarrow> u8" where "lo8 w = ucast w"
definition hi8 :: "u16 \<Rightarrow> u8" where "hi8 w = ucast (drop_bit 8 w)"

text \<open>\<open>(w & 0xff00) | d\<close> and \<open>(w & 0x00ff) | (d << 8)\<close> on a 16-bit register.\<close>

definition set_lo8 :: "u16 \<Rightarrow> u8 \<Rightarrow> u16" where
  "set_lo8 w d = (w AND 0xff00) OR ucast d"
definition set_hi8 :: "u16 \<Rightarrow> u8 \<Rightarrow> u16" where
  "set_hi8 w d = (w AND 0x00ff) OR push_bit 8 (ucast d)"

text \<open>Byte \<open>k\<close> of a 32-bit register, and the register with that byte replaced.\<close>

definition byte32 :: "nat \<Rightarrow> u32 \<Rightarrow> u8" where
  "byte32 k w = ucast (drop_bit (8 * k) w)"
definition set_byte32 :: "nat \<Rightarrow> u32 \<Rightarrow> u8 \<Rightarrow> u32" where
  "set_byte32 k w d = (w AND NOT (push_bit (8 * k) 0xff)) OR push_bit (8 * k) (ucast d)"

lemma bit_int_ff: "bit (0xff :: int) i \<longleftrightarrow> i < 8"
proof -
  have "bit (0xff :: int) i = bit (mask 8 :: int) i" by (simp add: mask_eq_exp_minus_1)
  also have "\<dots> = (i < 8)" by (simp only: bit_mask_iff) simp
  finally show ?thesis .
qed

lemma bit_int_ff00: "bit (0xff00 :: int) i \<longleftrightarrow> 8 \<le> i \<and> i < 16"
proof -
  have "bit (0xff00 :: int) i = bit (push_bit 8 0xff :: int) i" by (simp add: push_bit_eq_mult)
  also have "\<dots> = (8 \<le> i \<and> i < 16)" by (auto simp only: bit_push_bit_iff bit_int_ff) auto
  finally show ?thesis .
qed

lemmas bit_bytes = bit_simps bit_int_ff bit_int_ff00

lemma lo8_set_lo8 [byte_simps, simp]: "lo8 (set_lo8 w d) = d"
  by (rule u8_eqI) (simp add: lo8_def set_lo8_def bit_bytes)

lemma hi8_set_lo8 [byte_simps, simp]: "hi8 (set_lo8 w d) = hi8 w"
  by (rule u8_eqI) (auto simp: hi8_def set_lo8_def bit_bytes dest: bit8_less)

lemma hi8_set_hi8 [byte_simps, simp]: "hi8 (set_hi8 w d) = d"
  by (rule u8_eqI) (auto simp: hi8_def set_hi8_def bit_bytes)

lemma lo8_set_hi8 [byte_simps, simp]: "lo8 (set_hi8 w d) = lo8 w"
  by (rule u8_eqI) (auto simp: lo8_def set_hi8_def bit_bytes)

lemma u16_eqI: "lo8 v = lo8 w \<Longrightarrow> hi8 v = hi8 w \<Longrightarrow> v = w"
proof (rule bit_word_eqI)
  fix i assume e: "lo8 v = lo8 w" "hi8 v = hi8 w" and "i < LENGTH(16)"
  show "bit v i = bit w i"
  proof (cases "i < 8")
    case True
    then have "bit v i = bit (lo8 v) i" "bit w i = bit (lo8 w) i"
      by (simp_all add: lo8_def bit_simps)
    with e show ?thesis by simp
  next
    case False
    then have "bit v i = bit (hi8 v) (i - 8)" "bit w i = bit (hi8 w) (i - 8)"
      using \<open>i < LENGTH(16)\<close> by (auto simp: hi8_def bit_simps)
    with e show ?thesis by simp
  qed
qed

lemma byte32_set_byte32_same [byte_simps, simp]: "k < 4 \<Longrightarrow> byte32 k (set_byte32 k w d) = d"
  by (rule u8_eqI) (auto simp: byte32_def set_byte32_def bit_bytes)

lemma byte32_set_byte32_other [byte_simps, simp]:
  "j \<noteq> k \<Longrightarrow> j < 4 \<Longrightarrow> k < 4 \<Longrightarrow> byte32 j (set_byte32 k w d) = byte32 j w"
  by (rule u8_eqI) (auto simp: byte32_def set_byte32_def bit_bytes dest: bit8_less)

lemma bit_byte32: "i < 8 \<Longrightarrow> k < 4 \<Longrightarrow> bit (byte32 k w) i = bit w (8 * k + i)"
  by (auto simp: byte32_def bit_simps)

lemma u32_eqI:
  assumes "\<And>k. k < 4 \<Longrightarrow> byte32 k v = byte32 k w"
  shows "v = w"
proof (rule bit_word_eqI)
  fix i assume "i < LENGTH(32)"
  then have k: "i div 8 < 4" and r: "i mod 8 < 8" and i: "8 * (i div 8) + i mod 8 = i" by auto
  show "bit v i = bit w i"
    using assms [OF k] bit_byte32 [OF r k, of v] bit_byte32 [OF r k, of w] unfolding i by simp
qed

subsection \<open>Binary coded decimal\<close>

lemma unat_u8_less [simp]: "unat (x :: u8) < 256"
  using unsigned_less [of x] by simp

lemma unat_u16_less [simp]: "unat (x :: u16) < 65536"
  using unsigned_less [of x] by simp

end
