(* ===== verification/Byte_Store.thy ===== *)
theory Byte_Store
  imports Towns_Prelude
begin

text \<open>
  The interface of a byte-addressed memory, as the memory handlers of the drivers offer it to
  the CPU and to the DMA controllers: a read handler, a write handler, the number of bytes the
  handlers may be asked for, and the invariant of the state behind them.
  \<open>byte_store\<close> is plain RAM behaviour; \<open>masked_store\<close> is the weaker contract of video memory,
  whose write handler only replaces the bits selected by a mask register.
\<close>

unbundle bit_operations_syntax

subsection \<open>Blocks of bytes\<close>

text \<open>Reading and writing consecutive bytes through a pair of handlers.\<close>

definition peek :: "('m \<Rightarrow> nat \<Rightarrow> u8) \<Rightarrow> 'm \<Rightarrow> nat \<Rightarrow> nat \<Rightarrow> u8 list" where
  "peek rd m a n = map (rd m) [a..<a + n]"

fun poke :: "('m \<Rightarrow> nat \<Rightarrow> u8 \<Rightarrow> 'm) \<Rightarrow> 'm \<Rightarrow> nat \<Rightarrow> u8 list \<Rightarrow> 'm" where
  "poke wr m a [] = m"
| "poke wr m a (d # ds) = poke wr (wr m a d) (Suc a) ds"

lemma length_peek [simp]: "length (peek rd m a n) = n"
  by (simp add: peek_def)

lemma peek_Suc: "peek rd m a (Suc n) = rd m a # peek rd m (Suc a) n"
  by (simp add: peek_def upt_conv_Cons del: upt_Suc)

lemma nth_peek [simp]: "i < n \<Longrightarrow> peek rd m a n ! i = rd m (a + i)"
  by (simp add: peek_def)

subsection \<open>Plain memory\<close>

locale byte_store =
  fixes rd :: "'m \<Rightarrow> nat \<Rightarrow> u8"
    and wr :: "'m \<Rightarrow> nat \<Rightarrow> u8 \<Rightarrow> 'm"
    and bytes :: nat
    and ok :: "'m \<Rightarrow> bool"
  assumes ok_wr: "ok m \<Longrightarrow> a < bytes \<Longrightarrow> ok (wr m a d)"
    and rd_wr_same: "ok m \<Longrightarrow> a < bytes \<Longrightarrow> rd (wr m a d) a = d"
    and rd_wr_other: "ok m \<Longrightarrow> a < bytes \<Longrightarrow> b < bytes \<Longrightarrow> b \<noteq> a \<Longrightarrow> rd (wr m a d) b = rd m b"
begin

lemma ok_poke: "ok m \<Longrightarrow> a + length ds \<le> bytes \<Longrightarrow> ok (poke wr m a ds)"
  by (induction ds arbitrary: m a) (auto simp: ok_wr)

lemma rd_poke_outside:
  "ok m \<Longrightarrow> a + length ds \<le> bytes \<Longrightarrow> b < bytes \<Longrightarrow> b < a \<or> a + length ds \<le> b \<Longrightarrow>
     rd (poke wr m a ds) b = rd m b"
  by (induction ds arbitrary: m a) (auto simp: ok_wr rd_wr_other)

lemma peek_poke:
  "ok m \<Longrightarrow> a + length ds \<le> bytes \<Longrightarrow> peek rd (poke wr m a ds) a (length ds) = ds"
proof (induction ds arbitrary: m a)
  case Nil
  then show ?case by (simp add: peek_def)
next
  case (Cons d ds)
  have m': "ok (wr m a d)" using Cons.prems by (simp add: ok_wr)
  have "rd (poke wr (wr m a d) (Suc a) ds) a = rd (wr m a d) a"
    using Cons.prems m' by (intro rd_poke_outside) auto
  also have "\<dots> = d" using Cons.prems by (simp add: rd_wr_same)
  finally show ?case using Cons.IH [OF m'] Cons.prems by (simp add: peek_Suc)
qed

lemma wr_swap:
  assumes "ok m" "a < bytes" "b < bytes" "c < bytes" "a \<noteq> b"
  shows "rd (wr (wr m a x) b y) c = rd (wr (wr m b y) a x) c"
  using assms by (cases "c = a"; cases "c = b") (auto simp: ok_wr rd_wr_same rd_wr_other)

end

subsection \<open>Memory behind a write mask\<close>

locale masked_store =
  fixes rd :: "'m \<Rightarrow> nat \<Rightarrow> u8"
    and wr :: "'m \<Rightarrow> nat \<Rightarrow> u8 \<Rightarrow> 'm"
    and msk :: "'m \<Rightarrow> nat \<Rightarrow> u8"
    and bytes :: nat
  assumes msk_wr: "a < bytes \<Longrightarrow> msk (wr m a d) b = msk m b"
    and rd_wr_masked:
      "a < bytes \<Longrightarrow> rd (wr m a d) a = (rd m a AND NOT (msk m a)) OR (d AND msk m a)"
    and rd_wr_elsewhere: "a < bytes \<Longrightarrow> b < bytes \<Longrightarrow> b \<noteq> a \<Longrightarrow> rd (wr m a d) b = rd m b"
begin

lemma rd_wr_bit:
  "a < bytes \<Longrightarrow> bit (rd (wr m a d) a) i = (if bit (msk m a) i then bit d i else bit (rd m a) i)"
  by (cases "i < 8") (auto simp: rd_wr_masked bit_simps)

lemma rd_wr_wr: "a < bytes \<Longrightarrow> rd (wr (wr m a x) a y) a = rd (wr m a y) a"
  by (rule u8_eqI) (simp add: rd_wr_bit msk_wr)

lemma rd_wr_full: "a < bytes \<Longrightarrow> msk m a = NOT 0 \<Longrightarrow> rd (wr m a d) a = d"
  by (rule u8_eqI) (simp add: rd_wr_bit)

lemma masked_byte_store:
  "byte_store rd wr bytes (\<lambda>m. \<forall>a < bytes. msk m a = NOT 0)"
  by unfold_locales (auto simp: msk_wr rd_wr_full rd_wr_elsewhere)

end

text \<open>With the mask fully open a masked memory is plain memory.\<close>

locale open_store = masked_store +
  fixes full :: "'a \<Rightarrow> bool"
  assumes full_msk: "full m \<Longrightarrow> a < bytes \<Longrightarrow> msk m a = NOT 0"
    and full_wr: "full m \<Longrightarrow> a < bytes \<Longrightarrow> full (wr m a d)"

sublocale open_store \<subseteq> plain: byte_store rd wr bytes full
  by unfold_locales (auto simp: full_wr rd_wr_full full_msk rd_wr_elsewhere)

end
