(* ===== verification/Irq_Line.thy ===== *)
theory Irq_Line
  imports Towns_Prelude
begin

text \<open>
  The interface between a device and the interrupt controller: the callback \<open>irN_w(state)\<close> that
  a device calls to drive one request input, the level of that input as the controller sees it,
  and the controller's edge latch for it. The device theories use the callback as a parameter
  and prove their lemmas from these laws; the controller theory proves the laws for its inputs.
\<close>

text \<open>A device driving its line through a sequence of levels.\<close>

definition drive :: "(bool \<Rightarrow> 'c \<Rightarrow> 'c) \<Rightarrow> bool list \<Rightarrow> 'c \<Rightarrow> 'c" where
  "drive out ls c = foldl (\<lambda>c st. out st c) c ls"

lemma drive_Nil [simp]: "drive out [] c = c"
  by (simp add: drive_def)

lemma drive_Cons [simp]: "drive out (l # ls) c = drive out ls (out l c)"
  by (simp add: drive_def)

lemma drive_append [simp]: "drive out (ls @ ms) c = drive out ms (drive out ls c)"
  by (simp add: drive_def)

locale irq_input =
  fixes out :: "bool \<Rightarrow> 'c \<Rightarrow> 'c"
    and level :: "'c \<Rightarrow> bool"
    and latched :: "'c \<Rightarrow> bool"
    and ok :: "'c \<Rightarrow> bool"
  assumes ok_out: "ok c \<Longrightarrow> ok (out st c)"
    and level_out: "ok c \<Longrightarrow> level (out st c) = st"
    and latched_out: "ok c \<Longrightarrow> latched (out st c) \<longleftrightarrow> st \<and> (latched c \<or> \<not> level c)"
    and latched_level: "ok c \<Longrightarrow> latched c \<Longrightarrow> level c"
begin

lemmas line_laws = ok_out level_out latched_out

lemma ok_drive: "ok c \<Longrightarrow> ok (drive out ls c)"
  by (induction ls arbitrary: c) (auto simp: ok_out)

lemma level_drive: "ok c \<Longrightarrow> level (drive out ls c) = (if ls = [] then level c else last ls)"
  by (induction ls arbitrary: c) (auto simp: ok_out level_out)

lemma held_line_keeps_latch: "ok c \<Longrightarrow> level c \<Longrightarrow> latched (out True c) = latched c"
  by (simp add: latched_out)

lemma pulse_latches: "ok c \<Longrightarrow> latched (drive out [False, True] c)"
  by (simp add: line_laws)

text \<open>
  A line that ends high is latched exactly when it was latched before, or was low before, or
  went low on the way: the latch records rising edges and nothing else.
\<close>

lemma latched_drive_high:
  "ok c \<Longrightarrow> latched (drive out (ls @ [True]) c) \<longleftrightarrow> latched c \<or> \<not> level c \<or> False \<in> set ls"
proof (induction ls arbitrary: c)
  case Nil
  then show ?case by (simp add: latched_out)
next
  case (Cons l ls)
  then have "ok (out l c)" by (simp add: ok_out)
  from Cons.IH [OF this] show ?case
    using Cons.prems by (cases l) (auto simp: latched_out level_out)
qed

lemma latched_drive_low: "ok c \<Longrightarrow> \<not> latched (drive out (ls @ [False]) c)"
  by (simp add: latched_out ok_drive)

end

end
