(* ===== verification/Pic8259.thy ===== *)
theory Pic8259
  imports Irq_Line
begin

text \<open>
  The 8259 interrupt controller, \<open>src/devices/machine/pic8259.cpp\<close>: the request lines, the
  priority resolver run by the zero-length timer, the acknowledge cycles of both CPU families,
  the command words, and the abstract priority specification that the resolver implements.
  Fields that the source only sets to 0 or 1 are booleans; the current level keeps the source's
  \<open>-1\<close> for "none". The debugger's side-effect-free accesses are not modelled.
\<close>

unbundle bit_operations_syntax

subsection \<open>State\<close>

datatype pic_mode = ICW1 | ICW2 | ICW3 | ICW4 | READY

record pic =
  p_state :: pic_mode
  p_isr :: u8
  p_irr :: u8
  p_prio :: u8
  p_imr :: u8
  p_irq_lines :: u8
  p_input :: u8
  p_ocw3 :: u8
  p_master :: bool
  p_level_trig :: bool
  p_vector_size :: bool
  p_cascade :: bool
  p_icw4_needed :: bool
  p_vector_addr_low :: u32
  p_base :: u8
  p_vector_addr_high :: u8
  p_slave :: u8
  p_nested :: bool
  p_mode :: u8
  p_auto_eoi :: bool
  p_is_x86 :: bool
  p_current_level :: int
  p_inta_sequence :: nat
  p_irq_timer :: bool   \<comment> \<open>the resolver timer is armed\<close>
  p_int :: bool         \<comment> \<open>last level driven on the INT output\<close>

text \<open>\<open>device_reset\<close>: the state after power-up; \<open>sp\<close> is the master/slave strap.\<close>

definition pic_reset :: "bool \<Rightarrow> pic" where
  "pic_reset sp = \<lparr>
     p_state = READY, p_isr = 0, p_irr = 0, p_prio = 0, p_imr = 0, p_irq_lines = 0,
     p_input = 0, p_ocw3 = 2, p_master = sp, p_level_trig = False, p_vector_size = False,
     p_cascade = False, p_icw4_needed = False, p_vector_addr_low = 0, p_base = 0,
     p_vector_addr_high = 0, p_slave = 0, p_nested = False, p_mode = 0, p_auto_eoi = False,
     p_is_x86 = False, p_current_level = -1, p_inta_sequence = 0,
     p_irq_timer = False, p_int = False\<rparr>"

subsection \<open>The priority resolver\<close>

text \<open>The loop of \<open>irq_timer_tick\<close>; \<open>n\<close> counts the iterations left.\<close>

fun tick_scan :: "nat \<Rightarrow> pic \<Rightarrow> nat \<Rightarrow> int" where
  "tick_scan 0 p irq = -1"
| "tick_scan (Suc n) p irq =
     (let mask = irq_mask irq;
          sfnm = p_master p \<and> p_cascade p \<and> p_nested p \<and> tst (p_slave p) mask
      in if tst (p_isr p) mask \<and> \<not> sfnm then -1
         else if p_state p = READY \<and> tst (p_irr p) mask \<and> \<not> tst (p_imr p) mask then int irq
         else if tst (p_isr p) mask \<and> sfnm then -1
         else tick_scan n p ((irq + 1) mod 8))"

definition irq_timer_tick :: "pic \<Rightarrow> pic" where
  "irq_timer_tick p =
     (let level = tick_scan 8 p (unat (p_prio p))
      in p\<lparr>p_current_level := level, p_int := level \<noteq> -1, p_irq_timer := False\<rparr>)"

subsection \<open>Request lines\<close>

definition set_irq_line :: "nat \<Rightarrow> bool \<Rightarrow> pic \<Rightarrow> pic" where
  "set_irq_line irq state p =
     (let mask = irq_mask irq;
          p' = (if state \<and> \<not> tst (p_irq_lines p) mask
                then p\<lparr>p_irr := p_irr p OR mask, p_irq_lines := p_irq_lines p OR mask\<rparr>
                else if \<not> state \<and> tst (p_irq_lines p) mask
                then p\<lparr>p_irq_lines := p_irq_lines p AND NOT mask, p_irr := p_irr p AND NOT mask\<rparr>
                else p)
      in if p_inta_sequence p' = 0 then p'\<lparr>p_irq_timer := True\<rparr> else p')"

subsection \<open>Interrupt acknowledge\<close>

text \<open>
  \<open>slave_ack\<close> is the cascaded acknowledge callback, acting on whatever state \<open>'s\<close> lies behind
  it (in the Towns, the slave controller).
\<close>

definition ack_irr :: "nat \<Rightarrow> pic \<Rightarrow> pic" where
  "ack_irr lvl p =
     (if \<not> p_level_trig p \<and> (\<not> p_master p \<or> \<not> tst (p_slave p) (irq_mask lvl))
      then p\<lparr>p_irr := p_irr p AND NOT (irq_mask lvl)\<rparr> else p)"

definition set_isr :: "nat \<Rightarrow> pic \<Rightarrow> pic" where
  "set_isr lvl p = p\<lparr>p_isr := p_isr p OR irq_mask lvl\<rparr>"

definition acknowledge_x86 :: "(nat \<Rightarrow> 's \<Rightarrow> u8 \<times> 's) \<Rightarrow> pic \<Rightarrow> 's \<Rightarrow> u8 \<times> pic \<times> 's" where
  "acknowledge_x86 slave_ack p s =
     (if p_current_level p \<noteq> -1 then
        let lvl = nat (p_current_level p);
            p1 = ack_irr lvl p;
            p2 = (if \<not> p_auto_eoi p1 then set_isr lvl p1 else p1);
            p3 = p2\<lparr>p_irq_timer := True\<rparr>
        in if p_cascade p3 \<and> p_master p3 \<and> tst (irq_mask lvl) (p_slave p3)
           then (let (v, s') = slave_ack lvl s in (v, p3, s'))
           else (of_int (p_current_level p3) + p_base p3, p3, s)
      else (p_base p + 7, p, s))"

text \<open>The 8080/85 sequence: a CALL opcode, then the low and the high byte of the vector.\<close>

definition from_slave :: "pic \<Rightarrow> bool" where
  "from_slave p = (p_cascade p \<and> p_master p \<and> p_current_level p \<noteq> -1 \<and>
     sel_bit (p_slave p) (nat (p_current_level p)))"

definition acknowledge_8080 :: "(nat \<Rightarrow> 's \<Rightarrow> u8 \<times> 's) \<Rightarrow> pic \<Rightarrow> 's \<Rightarrow> u8 \<times> pic \<times> 's" where
  "acknowledge_8080 slave_ack p s =
     (if p_inta_sequence p = 0 then
        let p1 = (if p_current_level p \<noteq> -1
                  then set_isr (nat (p_current_level p)) (ack_irr (nat (p_current_level p)) p)
                  else p);
            p2 = p1\<lparr>p_inta_sequence := 1\<rparr>
        in if from_slave p2
           then (let (v, s') = slave_ack (nat (p_current_level p2)) s in (v, p2, s'))
           else (0xcd, p2, s)
      else if p_inta_sequence p = 1 then
        let p1 = p\<lparr>p_inta_sequence := 2\<rparr>
        in if from_slave p1
           then (let (v, s') = slave_ack (nat (p_current_level p1)) s in (v, p1, s'))
           else (ucast (p_vector_addr_low p1 +
                   push_bit (3 - (if p_vector_size p1 then 1 else 0)) (of_int (p_current_level p1 mod 8))),
                 p1, s)
      else
        let p1 = p\<lparr>p_inta_sequence := 0\<rparr>;
            p2 = (if p_auto_eoi p1 \<and> p_current_level p1 \<noteq> -1
                  then p1\<lparr>p_isr := p_isr p1 AND NOT (irq_mask (nat (p_current_level p1)))\<rparr>
                  else p1);
            p3 = p2\<lparr>p_irq_timer := True\<rparr>
        in if from_slave p3
           then (let (v, s') = slave_ack (nat (p_current_level p3)) s in (v, p3, s'))
           else (p_vector_addr_high p3, p3, s))"

definition acknowledge :: "(nat \<Rightarrow> 's \<Rightarrow> u8 \<times> 's) \<Rightarrow> pic \<Rightarrow> 's \<Rightarrow> u8 \<times> pic \<times> 's" where
  "acknowledge slave_ack p s =
     (if p_is_x86 p then acknowledge_x86 slave_ack p s else acknowledge_8080 slave_ack p s)"

subsection \<open>Register access\<close>

definition pic_read :: "nat \<Rightarrow> pic \<Rightarrow> u8 \<times> pic" where
  "pic_read offset p =
     (if offset = 0 then
        (if tst (p_ocw3 p) 0x04 then
           (if p_current_level p \<noteq> -1 then
              let lvl = nat (p_current_level p);
                  p1 = ack_irr lvl p;
                  p2 = (if \<not> p_auto_eoi p1 then set_isr lvl p1 else p1)
              in (0x80 OR of_int (p_current_level p), p2\<lparr>p_irq_timer := True\<rparr>)
            else (0, p))
         else if p_ocw3 p AND 0x03 = 2 then (p_irr p, p)
         else if p_ocw3 p AND 0x03 = 3 then (p_isr p AND NOT (p_imr p), p)
         else (0, p))
      else if offset = 1 then (p_imr p, p)
      else (0, p))"

text \<open>
  The loop of the two non-specific end-of-interrupt commands: the first in-service bit at or
  after \<open>m\<close>, rotating upwards.
\<close>

fun eoi_scan :: "nat \<Rightarrow> u8 \<Rightarrow> u8 \<Rightarrow> u8 option" where
  "eoi_scan 0 isr m = None"
| "eoi_scan (Suc n) isr m =
     (if tst isr m then Some m
      else eoi_scan n isr (push_bit 1 m OR drop_bit 7 m))"

definition nonspecific_eoi :: "pic \<Rightarrow> u8 option" where
  "nonspecific_eoi p = eoi_scan 8 (p_isr p) (irq_mask (unat (p_prio p)))"

definition write_icw1 :: "u8 \<Rightarrow> pic \<Rightarrow> pic" where
  "write_icw1 data p = p\<lparr>
     p_imr := 0, p_isr := 0, p_irr := 0, p_slave := 0,
     p_level_trig := tst data 0x08,
     p_vector_size := tst data 0x04,
     p_cascade := \<not> tst data 0x02,
     p_icw4_needed := tst data 0x01,
     p_vector_addr_low := ucast (data AND 0xe0),
     p_state := ICW2,
     p_current_level := -1,
     p_inta_sequence := 0,
     p_int := False\<rparr>"

definition write_ocw2 :: "u8 \<Rightarrow> pic \<Rightarrow> pic" where
  "write_ocw2 data p =
     (let n = unat (data AND 7); mask = irq_mask n; cmd = data AND 0xe0
      in if cmd = 0x00 then p\<lparr>p_prio := 0\<rparr>
         else if cmd = 0x20 then
           (case nonspecific_eoi p of None \<Rightarrow> p | Some m \<Rightarrow> p\<lparr>p_isr := p_isr p AND NOT m\<rparr>)
         else if cmd = 0x40 then p
         else if cmd = 0x60 then
           (if tst (p_isr p) mask then p\<lparr>p_isr := p_isr p AND NOT mask\<rparr> else p)
         else if cmd = 0x80 then p\<lparr>p_prio := (p_prio p + 1) AND 7\<rparr>
         else if cmd = 0xa0 then
           (case nonspecific_eoi p of None \<Rightarrow> p
            | Some m \<Rightarrow> p\<lparr>p_isr := p_isr p AND NOT m, p_prio := (p_prio p + 1) AND 7\<rparr>)
         else if cmd = 0xc0 then p\<lparr>p_prio := of_nat (n + 1) AND 7\<rparr>
         else
           (if tst (p_isr p) mask
            then p\<lparr>p_isr := p_isr p AND NOT mask, p_prio := of_nat (n + 1) AND 7\<rparr> else p))"

definition write_command :: "u8 \<Rightarrow> pic \<Rightarrow> pic" where
  "write_command data p =
     (if tst data 0x10 then write_icw1 data p
      else if p_state p = READY then
        (if data AND 0x98 = 0x08 then p\<lparr>p_ocw3 := data\<rparr>
         else if data AND 0x18 = 0 then write_ocw2 data p
         else p)
      else p)"

definition write_data :: "u8 \<Rightarrow> pic \<Rightarrow> pic" where
  "write_data data p =
     (case p_state p of
        ICW1 \<Rightarrow> p
      | ICW2 \<Rightarrow> p\<lparr>p_base := data AND 0xf8, p_vector_addr_high := data,
                 p_state := (if p_cascade p then ICW3
                             else if p_icw4_needed p then ICW4 else READY)\<rparr>
      | ICW3 \<Rightarrow> p\<lparr>p_slave := data, p_state := (if p_icw4_needed p then ICW4 else READY)\<rparr>
      | ICW4 \<Rightarrow> p\<lparr>p_nested := tst data 0x10, p_mode := drop_bit 2 data AND 3,
                 p_auto_eoi := tst data 0x02, p_is_x86 := tst data 0x01, p_state := READY\<rparr>
      | READY \<Rightarrow> p\<lparr>p_imr := data\<rparr>)"

definition pic_write :: "nat \<Rightarrow> u8 \<Rightarrow> pic \<Rightarrow> pic" where
  "pic_write offset data p =
     (let p' = (if offset = 0 then write_command data p
                else if offset = 1 then write_data data p else p)
      in p'\<lparr>p_irq_timer := True\<rparr>)"

subsection \<open>The abstract priority specification\<close>

text \<open>
  What the resolver promises, without its loop: the inputs in the current priority order, the
  inputs in service, the inputs requesting, and the special fully nested exception for the
  cascade inputs of a master.
\<close>

definition prio_order :: "pic \<Rightarrow> nat list" where
  "prio_order p = map (\<lambda>k. (unat (p_prio p) + k) mod 8) [0..<8]"

definition requested :: "pic \<Rightarrow> nat \<Rightarrow> bool" where
  "requested p i = (p_state p = READY \<and> bit (p_irr p) i \<and> \<not> bit (p_imr p) i)"

definition in_service :: "pic \<Rightarrow> nat \<Rightarrow> bool" where
  "in_service p i = bit (p_isr p) i"

definition renestable :: "pic \<Rightarrow> nat \<Rightarrow> bool" where
  "renestable p i = (p_master p \<and> p_cascade p \<and> p_nested p \<and> bit (p_slave p) i)"

definition resolve :: "pic \<Rightarrow> int" where
  "resolve p =
     (case find (\<lambda>i. in_service p i \<or> requested p i) (prio_order p) of
        None \<Rightarrow> -1
      | Some i \<Rightarrow> if requested p i \<and> (in_service p i \<longrightarrow> renestable p i) then int i else -1)"

text \<open>\<open>before p j i\<close>: input \<open>j\<close> has a strictly higher priority than input \<open>i\<close>.\<close>

definition before :: "pic \<Rightarrow> nat \<Rightarrow> nat \<Rightarrow> bool" where
  "before p j i = ((j + 8 - unat (p_prio p)) mod 8 < (i + 8 - unat (p_prio p)) mod 8)"

lemmas pic_spec_defs = requested_def in_service_def renestable_def

text \<open>The loop and the specification walk the same list.\<close>

definition resolve_list :: "pic \<Rightarrow> nat list \<Rightarrow> int" where
  "resolve_list p is =
     (case find (\<lambda>i. in_service p i \<or> requested p i) is of
        None \<Rightarrow> -1
      | Some i \<Rightarrow> if requested p i \<and> (in_service p i \<longrightarrow> renestable p i) then int i else -1)"

lemma tick_scan_resolve_list:
  "tick_scan n p irq = resolve_list p (map (\<lambda>k. (irq + k) mod 8) [0..<n])" if "irq < 8"
  using that
proof (induction n arbitrary: irq)
  case 0
  then show ?case by (simp add: resolve_list_def)
next
  case (Suc n)
  have "map (\<lambda>k. (irq + k) mod 8) [0..<Suc n]
      = irq # map (\<lambda>k. ((irq + 1) mod 8 + k) mod 8) [0..<n]"
    using Suc.prems by (auto simp: upt_conv_Cons map_Suc_upt [symmetric] mod_simps simp del: upt_Suc)
  moreover have "tick_scan n p ((irq + 1) mod 8)
      = resolve_list p (map (\<lambda>k. ((irq + 1) mod 8 + k) mod 8) [0..<n])"
    by (rule Suc.IH) simp
  ultimately show ?case
    by (auto simp: resolve_list_def pic_spec_defs Let_def)
qed

lemma resolve_eq: "resolve p = resolve_list p (prio_order p)"
  by (simp add: resolve_def resolve_list_def)

lemma tick_scan_resolve: "unat (p_prio p) < 8 \<Longrightarrow> tick_scan 8 p (unat (p_prio p)) = resolve p"
  by (simp add: tick_scan_resolve_list resolve_eq prio_order_def)

subsection \<open>The resolver picks the first request that nothing in service blocks\<close>

lemma rotate_rank: "q < 8 \<Longrightarrow> i < 8 \<Longrightarrow> (q + (i + 8 - q) mod 8) mod 8 = (i::nat)"
  by (simp add: mod_add_right_eq)

lemma rank_rotate: "q < 8 \<Longrightarrow> k < 8 \<Longrightarrow> ((q + k) mod 8 + 8 - q) mod 8 = (k::nat)"
  by (cases "q + k < 8") (simp_all add: mod_if [of "q + k"])

lemma nth_prio_order: "k < 8 \<Longrightarrow> prio_order p ! k = (unat (p_prio p) + k) mod 8"
  by (simp add: prio_order_def)

lemma find_prio_order:
  assumes q: "unat (p_prio p) < 8" and i: "i < 8"
  shows "find P (prio_order p) = Some i \<longleftrightarrow> P i \<and> (\<forall>j < 8. before p j i \<longrightarrow> \<not> P j)"
    (is "?L \<longleftrightarrow> ?R")
proof
  assume ?L
  then obtain k where k: "k < 8" and Pk: "P i" and ik: "i = (unat (p_prio p) + k) mod 8"
    and no: "\<forall>j < k. \<not> P (prio_order p ! j)"
    by (auto simp: find_Some_iff nth_prio_order prio_order_def)
  have rk: "(i + 8 - unat (p_prio p)) mod 8 = k" using rank_rotate [OF q k] ik by simp
  show ?R
  proof (intro conjI allI impI)
    fix j assume j: "j < 8" and b: "before p j i"
    let ?r = "(j + 8 - unat (p_prio p)) mod 8"
    have "?r < k" using b rk by (simp add: before_def)
    with no k have "\<not> P ((unat (p_prio p) + ?r) mod 8)" by (simp add: nth_prio_order)
    then show "\<not> P j" by (simp only: rotate_rank [OF q j] not_False_eq_True)
  qed (rule Pk)
next
  assume R: ?R
  let ?k = "(i + 8 - unat (p_prio p)) mod 8"
  have k: "?k < 8" by simp
  have ik: "prio_order p ! ?k = i" by (simp only: nth_prio_order [OF k] rotate_rank [OF q i])
  have "\<not> P (prio_order p ! j)" if "j < ?k" for j
  proof -
    have j: "j < 8" using that k by linarith
    have "before p ((unat (p_prio p) + j) mod 8) i"
      using that by (simp add: before_def rank_rotate [OF q j])
    with R show ?thesis by (simp add: nth_prio_order [OF j])
  qed
  with R ik k show ?L
    by (subst find_Some_iff, intro exI [of _ ?k]) (simp add: prio_order_def)
qed

lemma resolve_iff:
  assumes q: "unat (p_prio p) < 8" and i: "i < 8"
  shows "resolve p = int i \<longleftrightarrow>
    requested p i \<and> (in_service p i \<longrightarrow> renestable p i) \<and>
    (\<forall>j < 8. before p j i \<longrightarrow> \<not> in_service p j \<and> \<not> requested p j)"
proof -
  have "resolve p = int i \<longleftrightarrow>
      find (\<lambda>i. in_service p i \<or> requested p i) (prio_order p) = Some i \<and>
      requested p i \<and> (in_service p i \<longrightarrow> renestable p i)"
    by (auto simp: resolve_def split: option.splits if_splits)
  then show ?thesis by (auto simp: find_prio_order [OF q i])
qed

lemma resolve_range: "resolve p = -1 \<or> (\<exists>i < 8. resolve p = int i)"
proof (cases "find (\<lambda>i. in_service p i \<or> requested p i) (prio_order p)")
  case None
  then show ?thesis by (simp add: resolve_def)
next
  case (Some i)
  then have "i \<in> set (prio_order p)" by (auto simp: find_Some_iff)
  then have "i < 8" by (auto simp: prio_order_def)
  with Some show ?thesis by (auto simp: resolve_def)
qed

subsection \<open>Well-formed controllers\<close>

definition pic_wf :: "pic \<Rightarrow> bool" where
  "pic_wf p \<longleftrightarrow> unat (p_prio p) < 8 \<and> -1 \<le> p_current_level p \<and> p_current_level p \<le> 7 \<and>
     p_inta_sequence p \<le> 2 \<and> p_base p AND 7 = 0 \<and>
     (\<forall>i. bit (p_irr p) i \<longrightarrow> bit (p_irq_lines p) i)"

named_theorems pic_wf_intros

lemma unat_and_7: "unat (x AND 7 :: u8) < 8"
proof -
  have "x AND 7 \<le> 7" by (rule word_and_le1)
  then show ?thesis by (simp add: word_le_nat_alt)
qed

lemma and_f8_and_7: "(x AND 0xf8) AND (7 :: u8) = 0"
  by (simp add: and.assoc)

lemma pic_wf_reset [pic_wf_intros]: "pic_wf (pic_reset sp)"
  by (simp add: pic_wf_def pic_reset_def)

lemma pic_wf_tick [pic_wf_intros]: "pic_wf p \<Longrightarrow> pic_wf (irq_timer_tick p)"
  using resolve_range [of p]
  by (auto simp: pic_wf_def irq_timer_tick_def tick_scan_resolve Let_def)

lemma pic_wf_line [pic_wf_intros]: "pic_wf p \<Longrightarrow> pic_wf (set_irq_line i st p)"
  by (auto simp: pic_wf_def set_irq_line_def Let_def)

lemma pic_wf_frame [simp]:
  "pic_wf (p\<lparr>p_irq_timer := b\<rparr>) = pic_wf p"
  "pic_wf (p\<lparr>p_isr := x\<rparr>) = pic_wf p"
  "n \<le> 2 \<Longrightarrow> pic_wf p \<Longrightarrow> pic_wf (p\<lparr>p_inta_sequence := n\<rparr>)"
  by (auto simp: pic_wf_def)

lemma pic_wf_set_isr [simp]: "pic_wf (set_isr l p) = pic_wf p"
  by (simp add: set_isr_def)

lemma pic_wf_ack_irr: "pic_wf p \<Longrightarrow> pic_wf (ack_irr l p)"
  by (auto simp: pic_wf_def ack_irr_def)

lemma pic_wf_ack_x86:
  "pic_wf p \<Longrightarrow> acknowledge_x86 sa p s = (v, p', s') \<Longrightarrow> pic_wf p'"
  using pic_wf_ack_irr [of p "nat (p_current_level p)"]
  by (auto simp: acknowledge_x86_def Let_def split: if_splits prod.splits)

lemma pic_wf_ack_8080:
  "pic_wf p \<Longrightarrow> acknowledge_8080 sa p s = (v, p', s') \<Longrightarrow> pic_wf p'"
  using pic_wf_ack_irr [of p "nat (p_current_level p)"]
  by (auto simp: acknowledge_8080_def Let_def split: if_splits prod.splits)

lemma pic_wf_ack [pic_wf_intros]:
  "pic_wf p \<Longrightarrow> acknowledge sa p s = (v, p', s') \<Longrightarrow> pic_wf p'"
  by (auto simp: acknowledge_def intro: pic_wf_ack_x86 pic_wf_ack_8080 split: if_splits)

lemma pic_wf_read [pic_wf_intros]: "pic_wf p \<Longrightarrow> pic_read a p = (v, p') \<Longrightarrow> pic_wf p'"
  using pic_wf_ack_irr [of p "nat (p_current_level p)"]
  by (auto simp: pic_read_def Let_def split: if_splits)

lemma pic_wf_ocw2: "pic_wf p \<Longrightarrow> pic_wf (write_ocw2 d p)"
  by (auto simp: pic_wf_def write_ocw2_def unat_and_7 Let_def split: option.splits)

lemma pic_wf_icw1: "pic_wf p \<Longrightarrow> pic_wf (write_icw1 d p)"
  by (simp add: pic_wf_def write_icw1_def)

lemma pic_wf_command: "pic_wf p \<Longrightarrow> pic_wf (write_command d p)"
  using pic_wf_ocw2 [of p d] pic_wf_icw1 [of p d]
  by (simp add: write_command_def) (simp add: pic_wf_def)

lemma pic_wf_data: "pic_wf p \<Longrightarrow> pic_wf (write_data d p)"
  by (simp add: pic_wf_def write_data_def and_f8_and_7 split: pic_mode.split)

lemma pic_wf_write [pic_wf_intros]: "pic_wf p \<Longrightarrow> pic_wf (pic_write a d p)"
  using pic_wf_command [of p d] pic_wf_data [of p d]
  by (simp add: pic_write_def Let_def)

text \<open>Everything the bus and the interrupt sources can do to a controller.\<close>

inductive pic_step :: "pic \<Rightarrow> pic \<Rightarrow> bool" where
  step_line: "pic_step p (set_irq_line i st p)"
| step_tick: "p_irq_timer p \<Longrightarrow> pic_step p (irq_timer_tick p)"
| step_ack: "acknowledge (\<lambda>l _. (sa l, ())) p () = (v, p', ()) \<Longrightarrow> pic_step p p'"
| step_read: "pic_read a p = (v, p') \<Longrightarrow> pic_step p p'"
| step_write: "pic_step p (pic_write a d p)"

lemma pic_step_wf: "pic_step p q \<Longrightarrow> pic_wf p \<Longrightarrow> pic_wf q"
  by (induction rule: pic_step.induct) (auto intro: pic_wf_intros)

lemma pic_reachable_wf: "pic_step\<^sup>*\<^sup>* (pic_reset sp) p \<Longrightarrow> pic_wf p"
  by (induction rule: rtranclp_induct) (auto intro: pic_step_wf pic_wf_reset)

subsection \<open>End of interrupt\<close>

lemma rotate_irq_mask:
  "i < 8 \<Longrightarrow> push_bit 1 (irq_mask i) OR drop_bit 7 (irq_mask i) = irq_mask ((i + 1) mod 8)"
  by (drule less_8_cases) (auto simp: irq_mask_def)

lemma eoi_scan_find:
  "i < 8 \<Longrightarrow> eoi_scan n isr (irq_mask i) =
     map_option irq_mask (find (bit isr) (map (\<lambda>k. (i + k) mod 8) [0..<n]))"
proof (induction n arbitrary: i)
  case 0
  then show ?case by simp
next
  case (Suc n)
  have "map (\<lambda>k. (i + k) mod 8) [0..<Suc n]
      = i # map (\<lambda>k. ((i + 1) mod 8 + k) mod 8) [0..<n]"
    using Suc.prems by (auto simp: upt_conv_Cons map_Suc_upt [symmetric] mod_simps simp del: upt_Suc)
  moreover have "eoi_scan n isr (irq_mask ((i + 1) mod 8)) =
      map_option irq_mask (find (bit isr) (map (\<lambda>k. ((i + 1) mod 8 + k) mod 8) [0..<n]))"
    by (rule Suc.IH) simp
  ultimately show ?case using Suc.prems by (simp only: eoi_scan.simps rotate_irq_mask) simp
qed

lemma nonspecific_eoi_highest:
  assumes "unat (p_prio p) < 8" "i < 8" "in_service p i"
    and "\<forall>j < 8. before p j i \<longrightarrow> \<not> in_service p j"
  shows "nonspecific_eoi p = Some (irq_mask i)"
proof -
  have "find (in_service p) (prio_order p) = Some i"
    using assms by (simp add: find_prio_order)
  then show ?thesis
    using assms(1) by (simp add: nonspecific_eoi_def eoi_scan_find prio_order_def in_service_def [abs_def])
qed

lemma write_nonspecific_eoi:
  assumes "unat (p_prio p) < 8" "p_state p = READY" "i < 8" "in_service p i"
    and "\<forall>j < 8. before p j i \<longrightarrow> \<not> in_service p j"
  shows "pic_write 0 0x20 p = p\<lparr>p_isr := p_isr p AND NOT (irq_mask i), p_irq_timer := True\<rparr>"
  using assms nonspecific_eoi_highest [of p i]
  by (simp add: pic_write_def write_command_def write_ocw2_def Let_def)

subsection \<open>The life of one interrupt\<close>

text \<open>The mode the Towns programs: x86 vectors, edge-triggered requests, explicit EOI.\<close>

definition x86_edge :: "pic \<Rightarrow> bool" where
  "x86_edge p = (p_is_x86 p \<and> \<not> p_level_trig p \<and> \<not> p_auto_eoi p)"

lemma tick_level: "pic_wf p \<Longrightarrow> p_current_level (irq_timer_tick p) = resolve p"
  by (simp add: irq_timer_tick_def Let_def tick_scan_resolve pic_wf_def)

lemma tick_int: "pic_wf p \<Longrightarrow> p_int (irq_timer_tick p) = (resolve p \<noteq> -1)"
  by (simp add: irq_timer_tick_def Let_def tick_scan_resolve pic_wf_def)

lemma tick_frame [simp]:
  "p_isr (irq_timer_tick p) = p_isr p" "p_irr (irq_timer_tick p) = p_irr p"
  "p_imr (irq_timer_tick p) = p_imr p" "p_prio (irq_timer_tick p) = p_prio p"
  "p_state (irq_timer_tick p) = p_state p" "p_irq_lines (irq_timer_tick p) = p_irq_lines p"
  "p_slave (irq_timer_tick p) = p_slave p" "p_base (irq_timer_tick p) = p_base p"
  "p_master (irq_timer_tick p) = p_master p" "p_cascade (irq_timer_tick p) = p_cascade p"
  "p_is_x86 (irq_timer_tick p) = p_is_x86 p" "p_level_trig (irq_timer_tick p) = p_level_trig p"
  "p_auto_eoi (irq_timer_tick p) = p_auto_eoi p" "p_nested (irq_timer_tick p) = p_nested p"
  "p_inta_sequence (irq_timer_tick p) = p_inta_sequence p"
  by (simp_all add: irq_timer_tick_def Let_def)

lemma tick_x86_edge [simp]: "x86_edge (irq_timer_tick p) = x86_edge p"
  by (simp add: x86_edge_def)

lemma ack_x86_own:
  assumes "p_current_level p = int i" "i < 8" "x86_edge p" "\<not> bit (p_slave p) i"
  shows "acknowledge sa p s =
    (of_nat i + p_base p,
     p\<lparr>p_irr := p_irr p AND NOT (irq_mask i), p_isr := p_isr p OR irq_mask i, p_irq_timer := True\<rparr>, s)"
  using assms
  by (simp add: acknowledge_def acknowledge_x86_def x86_edge_def ack_irr_def set_isr_def Let_def and.commute)

lemma before_linear:
  assumes "unat (p_prio p) < 8" "i < 8" "j < 8" "i \<noteq> j"
  shows "before p i j \<or> before p j i"
proof (rule ccontr)
  assume "\<not> ?thesis"
  then have "(i + 8 - unat (p_prio p)) mod 8 = (j + 8 - unat (p_prio p)) mod 8"
    by (simp add: before_def)
  with rotate_rank [OF assms(1) assms(2)] rotate_rank [OF assms(1) assms(3)] assms(4)
  show False by simp
qed

text \<open>While \<open>i\<close> is in service and not renestable, only a higher priority can be signalled.\<close>

lemma resolve_nested:
  assumes q: "unat (p_prio p) < 8" and i: "i < 8" "in_service p i" "\<not> renestable p i"
    and j: "j < 8" "resolve p = int j"
  shows "before p j i"
proof -
  from j have R: "in_service p j \<longrightarrow> renestable p j" "\<forall>k < 8. before p k j \<longrightarrow> \<not> in_service p k"
    by (simp_all add: resolve_iff [OF q])
  have "i \<noteq> j" using R(1) i by auto
  moreover have "\<not> before p i j" using R(2) i by blast
  ultimately show ?thesis using before_linear [OF q i(1) j(1)] by blast
qed

text \<open>A request line from a device: what setting it does to the latch.\<close>

lemma irr_set_irq_line:
  assumes "\<forall>i. bit (p_irr p) i \<longrightarrow> bit (p_irq_lines p) i" "i < 8"
  shows "bit (p_irr (set_irq_line i st p)) j =
    (if j = i then st \<and> (bit (p_irr p) i \<or> \<not> bit (p_irq_lines p) i) else bit (p_irr p) j)"
  using assms by (auto simp: set_irq_line_def Let_def)

lemma lines_set_irq_line:
  "i < 8 \<Longrightarrow> bit (p_irq_lines (set_irq_line i st p)) j =
    (if j = i then st else bit (p_irq_lines p) j)"
  by (auto simp: set_irq_line_def Let_def)

lemma set_irq_line_frame [simp]:
  "p_isr (set_irq_line i st p) = p_isr p" "p_imr (set_irq_line i st p) = p_imr p"
  "p_prio (set_irq_line i st p) = p_prio p" "p_state (set_irq_line i st p) = p_state p"
  "p_slave (set_irq_line i st p) = p_slave p" "p_base (set_irq_line i st p) = p_base p"
  "p_master (set_irq_line i st p) = p_master p" "p_cascade (set_irq_line i st p) = p_cascade p"
  "p_is_x86 (set_irq_line i st p) = p_is_x86 p" "p_level_trig (set_irq_line i st p) = p_level_trig p"
  "p_auto_eoi (set_irq_line i st p) = p_auto_eoi p" "p_nested (set_irq_line i st p) = p_nested p"
  "p_current_level (set_irq_line i st p) = p_current_level p" "p_int (set_irq_line i st p) = p_int p"
  by (simp_all add: set_irq_line_def Let_def)

subsection \<open>The request inputs meet the interface of the devices\<close>

abbreviation irq_level :: "nat \<Rightarrow> pic \<Rightarrow> bool" where
  "irq_level i p \<equiv> bit (p_irq_lines p) i"

abbreviation irq_latched :: "nat \<Rightarrow> pic \<Rightarrow> bool" where
  "irq_latched i p \<equiv> bit (p_irr p) i"

lemma pic_irq_input:
  assumes i: "i < 8"
  shows "irq_input (set_irq_line i) (irq_level i) (irq_latched i) pic_wf"
proof unfold_locales
  fix p st assume wf: "pic_wf p"
  then have W: "\<forall>i. bit (p_irr p) i \<longrightarrow> bit (p_irq_lines p) i" by (simp add: pic_wf_def)
  show "pic_wf (set_irq_line i st p)" using wf by (rule pic_wf_line)
  show "irq_level i (set_irq_line i st p) = st" by (simp add: lines_set_irq_line i)
  show "irq_latched i (set_irq_line i st p) = (st \<and> (irq_latched i p \<or> \<not> irq_level i p))"
    by (simp add: irr_set_irq_line [OF W i])
  show "irq_latched i p \<Longrightarrow> irq_level i p" using W by blast
qed

lemma irq_level_reset [simp]: "\<not> irq_level i (pic_reset m)"
  by (simp add: pic_reset_def)

interpretation ir0: irq_input "set_irq_line 0" "irq_level 0" "irq_latched 0" pic_wf
  by (rule pic_irq_input) simp
interpretation ir1: irq_input "set_irq_line 1" "irq_level 1" "irq_latched 1" pic_wf
  by (rule pic_irq_input) simp
interpretation ir2: irq_input "set_irq_line 2" "irq_level 2" "irq_latched 2" pic_wf
  by (rule pic_irq_input) simp
interpretation ir3: irq_input "set_irq_line 3" "irq_level 3" "irq_latched 3" pic_wf
  by (rule pic_irq_input) simp
interpretation ir5: irq_input "set_irq_line 5" "irq_level 5" "irq_latched 5" pic_wf
  by (rule pic_irq_input) simp
interpretation ir6: irq_input "set_irq_line 6" "irq_level 6" "irq_latched 6" pic_wf
  by (rule pic_irq_input) simp
interpretation ir7: irq_input "set_irq_line 7" "irq_level 7" "irq_latched 7" pic_wf
  by (rule pic_irq_input) simp

subsection \<open>Properties of the controller\<close>

text \<open>
  C3: the resolver run by the controller's timer signals input i exactly when i is latched and
  unmasked on an initialised controller, i is not already in service (unless the special fully
  nested exception applies to it), and no input of higher rotating priority is latched and
  unmasked or in service; the INT output is high exactly when some input is signalled.
\<close>
theorem pic_resolver_correct:
  assumes "pic_wf p" "i < 8"
  shows "(p_current_level (irq_timer_tick p) = int i \<longleftrightarrow>
      requested p i \<and> (in_service p i \<longrightarrow> renestable p i) \<and>
      (\<forall>j < 8. before p j i \<longrightarrow> \<not> in_service p j \<and> \<not> requested p j))
    \<and> (p_int (irq_timer_tick p) \<longleftrightarrow> (\<exists>k < 8. p_current_level (irq_timer_tick p) = int k))"
  using assms resolve_range [of p]
  by (auto simp: tick_level tick_int resolve_iff pic_wf_def)

definition sample_pic :: pic where
  "sample_pic = set_irq_line 3 True (set_irq_line 1 True
     ((pic_reset True)\<lparr>p_base := 0x40, p_is_x86 := True, p_imr := 0x80\<rparr>))"

lemma sample_pic_wf: "pic_wf sample_pic"
  by (auto simp: sample_pic_def pic_wf_def pic_reset_def set_irq_line_def Let_def)

lemma sample_pic_resolve: "resolve sample_pic = int 1"
proof -
  have "irq_timer_tick sample_pic = sample_pic\<lparr>p_current_level := 1, p_int := True, p_irq_timer := False\<rparr>"
    by code_simp
  then have "p_current_level (irq_timer_tick sample_pic) = 1" by simp
  then show ?thesis using tick_level [OF sample_pic_wf] by simp
qed

lemma pic_resolver_correct_witness:
  "p_current_level (irq_timer_tick sample_pic) = 1 \<and> requested sample_pic 1"
proof -
  have "p_current_level (irq_timer_tick sample_pic) = int 1"
    using tick_level [OF sample_pic_wf] sample_pic_resolve by simp
  then show ?thesis using pic_resolver_correct [OF sample_pic_wf, of 1] by simp
qed

text \<open>Any sequence of line changes between two interrupt cycles.\<close>

definition line_events :: "(nat \<times> bool) list \<Rightarrow> pic \<Rightarrow> pic" where
  "line_events evs p = fold (\<lambda>(l, st). set_irq_line l st) evs p"

lemma line_events_wf: "pic_wf p \<Longrightarrow> pic_wf (line_events evs p)"
  unfolding line_events_def by (induction evs arbitrary: p) (auto intro: pic_wf_line)

lemma line_events_frame [simp]:
  "p_isr (line_events evs p) = p_isr p" "p_prio (line_events evs p) = p_prio p"
  "p_slave (line_events evs p) = p_slave p"
  unfolding line_events_def by (induction evs arbitrary: p; auto)+

lemma mask_or_clear: "\<not> bit x i \<Longrightarrow> (x OR irq_mask i) AND NOT (irq_mask i) = x" for x :: u8
  by (rule u8_eqI) auto

text \<open>
  C4: the life of one interrupt on a controller in the mode the Towns programs. When input i is
  the one the resolver picks and no slave sits on it, the acknowledge cycle returns the vector
  base + i, marks i in service and drops its latch; whatever the request lines do afterwards,
  until the end-of-interrupt only inputs of strictly higher priority can be signalled; and the
  non-specific end-of-interrupt command restores the in-service register of before.
\<close>
theorem pic_interrupt_cycle:
  assumes "pic_wf p" "x86_edge p" "p_state p = READY" "i < 8" "resolve p = int i" "\<not> bit (p_slave p) i"
  shows "\<exists>q. acknowledge sa (irq_timer_tick p) s = (of_nat i + p_base p, q, s)
    \<and> in_service q i \<and> \<not> bit (p_irr q) i
    \<and> (\<forall>evs. \<forall>j < 8. p_current_level (irq_timer_tick (line_events evs q)) = int j \<longrightarrow> before p j i)
    \<and> p_isr (pic_write 0 0x20 q) = p_isr p"
proof -
  let ?t = "irq_timer_tick p"
  let ?q = "?t\<lparr>p_irr := p_irr ?t AND NOT (irq_mask i), p_isr := p_isr ?t OR irq_mask i, p_irq_timer := True\<rparr>"
  have prio: "unat (p_prio p) < 8" using assms(1) by (simp add: pic_wf_def)
  have wf: "pic_wf ?q" using pic_wf_tick [OF assms(1)] by (auto simp: pic_wf_def)
  have new: "\<not> in_service p i" and top: "\<forall>j < 8. before p j i \<longrightarrow> \<not> in_service p j"
    using assms(5,6) resolve_iff [OF prio assms(4)] by (auto simp: renestable_def)
  have "acknowledge sa ?t s = (of_nat i + p_base ?t, ?q, s)"
    by (rule ack_x86_own) (simp_all add: assms tick_level)
  moreover have "before p j i"
    if j: "j < 8" "p_current_level (irq_timer_tick (line_events evs ?q)) = int j" for evs j
  proof -
    have r: "resolve (line_events evs ?q) = int j"
      using j(2) by (simp only: tick_level [OF line_events_wf [OF wf]])
    have "before (line_events evs ?q) j i"
      by (rule resolve_nested [OF _ assms(4) _ _ j(1) r])
        (use prio assms(4,6) in \<open>simp_all add: in_service_def renestable_def\<close>)
    then show ?thesis by (simp add: before_def)
  qed
  moreover have "p_isr (pic_write 0 0x20 ?q) = p_isr p"
  proof -
    have "pic_write 0 0x20 ?q = ?q\<lparr>p_isr := p_isr ?q AND NOT (irq_mask i), p_irq_timer := True\<rparr>"
      by (rule write_nonspecific_eoi)
        (use prio assms(3,4) top in \<open>auto simp: in_service_def before_def\<close>)
    then show ?thesis using new by (simp add: mask_or_clear in_service_def)
  qed
  ultimately show ?thesis
    using assms(4) by (intro exI [of _ ?q]) (auto simp: in_service_def)
qed

lemma pic_interrupt_cycle_witness:
  "\<exists>q. acknowledge (\<lambda>l s. (0, s)) (irq_timer_tick sample_pic) () = (0x41, q, ()) \<and>
     p_isr (pic_write 0 0x20 q) = 0"
proof -
  have "x86_edge sample_pic" "p_state sample_pic = READY" "\<not> bit (p_slave sample_pic) 1"
    "p_base sample_pic = 0x40" "p_isr sample_pic = 0"
    by code_simp+
  then show ?thesis
    using pic_interrupt_cycle [OF sample_pic_wf _ _ _ sample_pic_resolve, of "\<lambda>l s. (0, s)" "()"] by auto
qed

text \<open>
  C5: every state the controller can reach from reset through line changes, resolver ticks,
  acknowledges and register accesses is well formed: the rotating priority is a line number, the
  current level is a line number or none, the vector base is a multiple of eight, the 8080
  sequence counter is at most two, and no request stays latched once its line is low.
\<close>
theorem pic_reachable_invariant:
  assumes "pic_step\<^sup>*\<^sup>* (pic_reset sp) p"
  shows "unat (p_prio p) < 8 \<and> p_current_level p \<in> {-1..7} \<and> p_base p AND 7 = 0 \<and>
    p_inta_sequence p \<le> 2 \<and> (\<forall>i. bit (p_irr p) i \<longrightarrow> bit (p_irq_lines p) i)"
  using pic_reachable_wf [OF assms] by (simp add: pic_wf_def)

lemma pic_reachable_invariant_witness:
  "p_inta_sequence (irq_timer_tick (set_irq_line 4 True (pic_reset True))) \<le> 2"
proof -
  have "pic_step (pic_reset True) (set_irq_line 4 True (pic_reset True))" by (rule step_line)
  moreover have "pic_step (set_irq_line 4 True (pic_reset True))
      (irq_timer_tick (set_irq_line 4 True (pic_reset True)))"
    by (rule step_tick) code_simp
  ultimately have "pic_step\<^sup>*\<^sup>* (pic_reset True) (irq_timer_tick (set_irq_line 4 True (pic_reset True)))"
    by (meson rtranclp.rtrancl_refl rtranclp.rtrancl_into_rtrancl)
  from pic_reachable_invariant [OF this] show ?thesis by simp
qed

text \<open>The initialisation sequence: ICW1 on the command port, then the words it announces.\<close>

definition pic_init :: "u8 \<Rightarrow> u8 list \<Rightarrow> pic \<Rightarrow> pic" where
  "pic_init d ws p = fold (pic_write 1) ws (pic_write 0 d p)"

definition icw_words :: "u8 \<Rightarrow> nat" where
  "icw_words d = 1 + (if tst d 0x02 then 0 else 1) + (if tst d 0x01 then 1 else 0)"

text \<open>
  C6: after ICW1 the controller expects exactly the announced number of data words; it is not
  ready before the last of them, and ready after it, with the mask, service and request registers
  cleared, INT low, the vector base taken from ICW2 and, when announced, the slave map from ICW3
  and the modes from ICW4. The rotating priority and the levels of the request lines survive.
\<close>
theorem pic_init_sequence:
  assumes "tst d 0x10" "length ws = icw_words d"
  shows "p_state (pic_init d ws p) = READY
    \<and> (\<forall>k < length ws. p_state (pic_init d (take k ws) p) \<noteq> READY)
    \<and> p_imr (pic_init d ws p) = 0 \<and> p_isr (pic_init d ws p) = 0 \<and> p_irr (pic_init d ws p) = 0
    \<and> \<not> p_int (pic_init d ws p) \<and> p_current_level (pic_init d ws p) = -1
    \<and> p_base (pic_init d ws p) = hd ws AND 0xf8
    \<and> p_slave (pic_init d ws p) = (if tst d 0x02 then 0 else ws ! 1)
    \<and> (tst d 0x01 \<longrightarrow> p_is_x86 (pic_init d ws p) = tst (last ws) 0x01
         \<and> p_auto_eoi (pic_init d ws p) = tst (last ws) 0x02
         \<and> p_nested (pic_init d ws p) = tst (last ws) 0x10)
    \<and> p_prio (pic_init d ws p) = p_prio p \<and> p_irq_lines (pic_init d ws p) = p_irq_lines p"
  using assms
  by (cases "tst d 0x02"; cases "tst d 0x01")
    (auto simp: icw_words_def length_Suc_conv numeral_2_eq_2 numeral_3_eq_3 pic_init_def pic_write_def
       write_command_def write_icw1_def write_data_def less_Suc_eq)

lemma pic_init_sequence_witness:
  "p_state (pic_init 0x19 [0x40, 0x80, 0x1d] (pic_reset True)) = READY \<and>
   p_base (pic_init 0x19 [0x40, 0x80, 0x1d] (pic_reset True)) = 0x40"
  using pic_init_sequence [of "0x19" "[0x40, 0x80, 0x1d]" "pic_reset True"]
  by (simp add: icw_words_def)

text \<open>
  The request latch of input i records rising edges and nothing else. After any sequence of
  levels that ends high it is set exactly when it was set before, or the line was low before, or
  went low on the way; after any sequence that ends low it is clear.
\<close>
lemma pic_edge_latch:
  assumes "pic_wf p" "i < 8"
  shows "(bit (p_irr (drive (set_irq_line i) (ls @ [True]) p)) i \<longleftrightarrow>
      bit (p_irr p) i \<or> \<not> bit (p_irq_lines p) i \<or> False \<in> set ls)
    \<and> \<not> bit (p_irr (drive (set_irq_line i) (ls @ [False]) p)) i"
  using irq_input.latched_drive_high [OF pic_irq_input [OF assms(2)] assms(1)]
    irq_input.latched_drive_low [OF pic_irq_input [OF assms(2)] assms(1)] by blast

lemma pic_edge_latch_witness:
  "bit (p_irr (drive (set_irq_line 5) ([True, False] @ [True]) (pic_reset False))) 5"
  using pic_edge_latch [OF pic_wf_reset, of 5 "[True, False]"] by simp

end
