(* ===== verification/Cd_Image.thy ===== *)
theory Cd_Image
  imports Byte_Store
begin

text \<open>
  The disc in the drive: BCD and minute/second/frame arithmetic (\<open>fmtowns.cpp\<close> and
  \<open>src/lib/util/cdrom.h\<close>), the table of contents and the search for the track of a sector, the
  reading of sectors with its conversions between track types (\<open>src/lib/util/cdrom.cpp\<close>), and the
  drive that may be empty (\<open>src/devices/imagedev/cdromimg.cpp\<close>, CD images only). The parsers of the
  image formats and the CHD library are not modelled: an image is a reader function.
\<close>

unbundle bit_operations_syntax

subsection \<open>BCD and MSF arithmetic\<close>

definition byte_to_bcd :: "u8 \<Rightarrow> u8" where
  "byte_to_bcd val = push_bit 4 (val div 10) OR (val mod 10)"

definition bcd_to_byte :: "u8 \<Rightarrow> u8" where
  "bcd_to_byte val = drop_bit 4 (val AND 0xf0) * 10 + (val AND 0x0f)"

definition msf_to_lbafm :: "u32 \<Rightarrow> u32" where
  "msf_to_lbafm val =
     (let f = bcd_to_byte (byte32 0 val); s = bcd_to_byte (byte32 1 val); m = bcd_to_byte (byte32 2 val)
      in (ucast m * (60 * 75) + ucast s * 75 + ucast f) - 150)"

definition msf_to_lba :: "u32 \<Rightarrow> u32" where
  "msf_to_lba msf =
     drop_bit 16 (msf AND 0x00ff0000) * 60 * 75 + drop_bit 8 (msf AND 0x0000ff00) * 75 + (msf AND 0x000000ff)"

definition bcd_at :: "nat \<Rightarrow> u8 \<Rightarrow> u32" where
  "bcd_at k v = push_bit (k + 4) (ucast v div 10) OR push_bit k (ucast v mod 10)"

definition lba_to_msf :: "u32 \<Rightarrow> u32" where
  "lba_to_msf lba =
     (let m = ucast (lba div (60 * 75)) :: u8;
          lba' = lba - ucast m * (60 * 75);
          s = ucast (lba' div 75) :: u8;
          f = ucast (lba' mod 75) :: u8
      in bcd_at 16 m OR bcd_at 8 s OR bcd_at 0 f)"

definition lba_to_msf_alt :: "u32 \<Rightarrow> u32" where
  "lba_to_msf_alt lba =
     push_bit 16 ((lba div (60 * 75)) AND 0xff) OR push_bit 8 (((lba div 75) mod 60) AND 0xff) OR
     ((lba mod 75) AND 0xff)"

subsection \<open>The table of contents\<close>

datatype track_type = CD_TRACK_MODE1 | CD_TRACK_MODE1_RAW | CD_TRACK_MODE2 | CD_TRACK_MODE2_FORM1
  | CD_TRACK_MODE2_FORM2 | CD_TRACK_MODE2_FORM_MIX | CD_TRACK_MODE2_RAW | CD_TRACK_AUDIO
  | CD_TRACK_RAW_DONTCARE

record track_info =
  trktype :: track_type
  datasize :: u32
  subsize :: u32
  pregap :: u32
  pgdatasize :: u32
  control_flags :: u32
  logframeofs :: u32
  physframeofs :: u32
  chdframeofs :: u32

record toc =
  numtrks :: nat
  gdrom_le :: bool                \<comment> \<open>\<open>CD_FLAG_GDROMLE\<close> in \<open>flags\<close>\<close>
  tracks :: "track_info list"

text \<open>
  Where the sectors come from: the CHD library (\<open>read_bytes\<close> at a byte offset) or one plain file
  per track with its start offset and byte order. Both hand out the bytes they could read and
  whether the read succeeded; what they return is outside the program's own code.
\<close>

datatype image =
    Chd "u64 \<Rightarrow> nat \<Rightarrow> u8 list \<times> bool"
  | Files "(u64 \<times> bool) list" "nat \<Rightarrow> u64 \<Rightarrow> nat \<Rightarrow> u8 list \<times> bool"

record disc =
  toc_of :: toc
  image_of :: image

definition track_of :: "disc \<Rightarrow> nat \<Rightarrow> track_info" where
  "track_of d n = tracks (toc_of d) ! n"

definition get_last_track :: "disc \<Rightarrow> nat" where
  "get_last_track d = numtrks (toc_of d)"

definition get_track_start :: "disc \<Rightarrow> nat \<Rightarrow> u32" where
  "get_track_start d track = logframeofs (track_of d (if track = 0xaa then numtrks (toc_of d) else track))"

definition get_adr_control :: "disc \<Rightarrow> nat \<Rightarrow> u32" where
  "get_adr_control d track =
     (let t = track_of d (if track = 0xaa then get_last_track d - 1 else track);
          adrctl = push_bit 4 1 OR (control_flags t AND 0x0f)
      in if trktype t \<noteq> CD_TRACK_AUDIO then adrctl OR 4 else adrctl)"

text \<open>The search loop from track \<open>t\<close> on, with \<open>n\<close> tracks left; the result also names the track.\<close>

fun chd_lba_from :: "disc \<Rightarrow> u32 \<Rightarrow> nat \<Rightarrow> nat \<Rightarrow> u32 \<times> nat" where
  "chd_lba_from d loglba t 0 = (loglba, 0)"
| "chd_lba_from d loglba t (Suc n) =
     (if loglba < logframeofs (track_of d (t + 1)) then
        let physlba = physframeofs (track_of d t) + (loglba - logframeofs (track_of d t));
            chdlba = physlba - physframeofs (track_of d t) + chdframeofs (track_of d t)
        in (chdlba, t)
      else chd_lba_from d loglba (t + 1) n)"

definition logical_to_chd_lba :: "disc \<Rightarrow> u32 \<Rightarrow> u32 \<times> nat" where
  "logical_to_chd_lba d loglba = chd_lba_from d loglba 0 (numtrks (toc_of d))"

definition get_track :: "disc \<Rightarrow> u32 \<Rightarrow> nat" where
  "get_track d frame = snd (logical_to_chd_lba d frame)"

subsection \<open>Reading sectors\<close>

definition overlay :: "'a list \<Rightarrow> nat \<Rightarrow> 'a list \<Rightarrow> 'a list" where
  "overlay dst off bs = take off dst @ bs @ drop (off + length bs) dst"

text \<open>Swapping the bytes of \<open>n\<close> consecutive pairs.\<close>

fun swap_pairs :: "nat \<Rightarrow> u8 list \<Rightarrow> u8 list" where
  "swap_pairs (Suc n) (a # b # xs) = b # a # swap_pairs n xs"
| "swap_pairs n xs = xs"

definition read_partial_sector ::
    "disc \<Rightarrow> u32 \<Rightarrow> u32 \<Rightarrow> nat \<Rightarrow> nat \<Rightarrow> nat \<Rightarrow> u8 list \<times> bool" where
  "read_partial_sector d lbasector chdsector tracknum startoffs len =
     (let t = track_of d tracknum
      in if pgdatasize t = 0 \<and> lbasector < logframeofs t then (replicate len 0, True)
         else
           let chdsector' = (if pgdatasize t \<noteq> 0 then chdsector + pregap t else chdsector);
               (bs, ok, swp) = (case image_of d of
                 Chd rd \<Rightarrow>
                   (let (bs, ok) = rd (ucast chdsector' * 2448 + of_nat startoffs) len
                    in (bs, ok, gdrom_le (toc_of d) \<and> trktype t = CD_TRACK_AUDIO))
               | Files info rd \<Rightarrow>
                   (let bytespersector = datasize t + subsize t;
                        ofs = fst (info ! tracknum) + ucast (chdsector' * bytespersector + of_nat startoffs);
                        (bs, ok) = rd tracknum ofs len
                    in (bs, ok, snd (info ! tracknum))))
           in (if swp then swap_pairs ((2352 - startoffs) div 2) bs else bs, ok))"

definition syncbytes :: "u8 list" where
  "syncbytes = [0x00, 0xff, 0xff, 0xff, 0xff, 0xff, 0xff, 0xff, 0xff, 0xff, 0xff, 0x00]"

definition read_data :: "disc \<Rightarrow> u32 \<Rightarrow> track_type \<Rightarrow> u8 list \<Rightarrow> u8 list \<times> bool" where
  "read_data d lba datatype buffer =
     (let (chdsector, tracknum) = logical_to_chd_lba d lba;
          tracktype = trktype (track_of d tracknum);
          part = (\<lambda>ofs startoffs len.
            let (bs, ok) = read_partial_sector d lba chdsector tracknum startoffs len
            in (overlay buffer ofs bs, ok))
      in if datatype = tracktype \<or> datatype = CD_TRACK_RAW_DONTCARE then
           part 0 0 (unat (datasize (track_of d tracknum)))
         else if datatype = CD_TRACK_MODE1 \<and> tracktype = CD_TRACK_MODE1_RAW then part 0 16 2048
         else if datatype = CD_TRACK_MODE1_RAW \<and> tracktype = CD_TRACK_MODE1 then
           let msf = lba_to_msf lba;
               hdr = syncbytes @ [byte32 2 msf, byte32 1 msf, byte32 0 msf, 1];
               (bs, ok) = read_partial_sector d lba chdsector tracknum 0 2048
           in (overlay (overlay buffer 0 hdr) 16 bs, ok)
         else if datatype = CD_TRACK_MODE1 \<and> (tracktype = CD_TRACK_MODE2_FORM1 \<or> tracktype = CD_TRACK_MODE2_RAW)
           then part 0 24 2048
         else if datatype = CD_TRACK_MODE1 \<and> tracktype = CD_TRACK_MODE2_FORM_MIX then part 0 8 2048
         else if datatype = CD_TRACK_MODE2 \<and> (tracktype = CD_TRACK_MODE1_RAW \<or> tracktype = CD_TRACK_MODE2_RAW)
           then part 0 16 2336
         else (buffer, False))"

subsection \<open>The drive\<close>

text \<open>\<open>cdrom_image_device\<close>: every query answers 0 while no disc is loaded.\<close>

type_synonym drive = "disc option"

definition drive_exists :: "drive \<Rightarrow> bool" where
  "drive_exists dr = (dr \<noteq> None)"

definition drive_last_track :: "drive \<Rightarrow> nat" where
  "drive_last_track dr = (case dr of Some d \<Rightarrow> get_last_track d | None \<Rightarrow> 0)"

definition drive_track :: "drive \<Rightarrow> u32 \<Rightarrow> nat" where
  "drive_track dr frame = (case dr of Some d \<Rightarrow> get_track d frame | None \<Rightarrow> 0)"

definition drive_track_start :: "drive \<Rightarrow> nat \<Rightarrow> u32" where
  "drive_track_start dr track = (case dr of Some d \<Rightarrow> get_track_start d track | None \<Rightarrow> 0)"

definition drive_adr_control :: "drive \<Rightarrow> nat \<Rightarrow> u32" where
  "drive_adr_control dr track = (case dr of Some d \<Rightarrow> get_adr_control d track | None \<Rightarrow> 0)"

definition drive_read_data :: "drive \<Rightarrow> u32 \<Rightarrow> track_type \<Rightarrow> u8 list \<Rightarrow> u8 list \<times> bool" where
  "drive_read_data dr lba datatype buffer =
     (case dr of Some d \<Rightarrow> read_data d lba datatype buffer | None \<Rightarrow> (buffer, False))"

subsection \<open>Conversions are mutually inverse\<close>

lemma bcd_table:
  "list_all (\<lambda>n. bcd_to_byte (byte_to_bcd (of_nat n)) = of_nat n) [0..<100]"
  by code_simp

lemma bcd_byte_roundtrip:
  assumes "unat v < 100"
  shows "bcd_to_byte (byte_to_bcd v) = v"
proof -
  have "unat v \<in> set [0..<100]" using assms by simp
  with bcd_table show ?thesis by (auto simp: list_all_iff dest!: bspec [of _ _ "unat v"])
qed

lemma bit_digit: "unat (h :: u8) < 16 \<Longrightarrow> bit h j \<Longrightarrow> j < 4"
proof (rule ccontr)
  assume h: "unat h < 16" "bit h j" "\<not> j < 4"
  then have "take_bit 4 (unat h) = unat h" by (simp add: take_bit_nat_eq_self_iff)
  moreover have "bit (unat h) j" using h(2) by (simp add: bit_unsigned_iff)
  ultimately have "bit (take_bit 4 (unat h)) j" by simp
  then show False using h(3) by (simp add: bit_take_bit_iff)
qed

text \<open>The two digits placed at bit \<open>k\<close> are the BCD byte placed there.\<close>

lemma bcd_at_byte:
  assumes "unat v < 100" "k \<le> 24"
  shows "bcd_at k v = push_bit k (ucast (byte_to_bcd v))"
proof -
  have hi: "ucast v div (10 :: u32) = ucast (v div 10)" and lo: "ucast v mod (10 :: u32) = ucast (v mod 10)"
    using assms(1) by (simp_all add: word_unat_eq_iff unsigned_ucast_eq unat_div unat_mod take_bit_eq_mod)
  have "unat (v div 10) < 16" using assms(1) by (simp add: unat_div)
  then have B: "bit (v div 10) j \<Longrightarrow> j < 4" for j by (rule bit_digit)
  show ?thesis
    unfolding bcd_at_def hi lo byte_to_bcd_def
    using assms(2) by (intro bit_word_eqI) (auto simp: bit_simps dest: B)
qed

lemma byte32_pack:
  "byte32 2 (push_bit 16 (ucast a) OR push_bit 8 (ucast b) OR ucast c) = a"
  "byte32 1 (push_bit 16 (ucast a) OR push_bit 8 (ucast b) OR ucast c) = b"
  "byte32 0 (push_bit 16 (ucast a) OR push_bit 8 (ucast b) OR ucast c) = c"
  by (rule u8_eqI; auto simp: byte32_def bit_bytes)+

lemma ucast_u8_back: "unat (y :: u32) < 256 \<Longrightarrow> ucast (ucast y :: u8) = y"
  by (simp add: word_unat_eq_iff unsigned_ucast_eq take_bit_eq_mod unat_mod)

lemma lba_parts:
  assumes "unat x < 450000"
  shows "\<exists>m s f. x = ucast m * 4500 + ucast s * 75 + ucast f \<and> unat (m::u8) < 100 \<and> unat (s::u8) < 100 \<and> unat (f::u8) < 100
    \<and> lba_to_msf x = bcd_at 16 m OR bcd_at 8 s OR bcd_at 0 f"
proof -
  let ?m = "x div 4500" and ?r = "x mod 4500"
  have b: "unat ?m < 100" "unat (?r div 75) < 60" "unat (?r mod 75) < 75"
    using assms by (simp_all add: unat_div unat_mod less_mult_imp_div_less)
  have m: "ucast (ucast ?m :: u8) = ?m" and s: "ucast (ucast (?r div 75) :: u8) = ?r div 75"
    and f: "ucast (ucast (?r mod 75) :: u8) = ?r mod 75"
    by (rule ucast_u8_back, use b in simp)+
  have r: "x - ?m * 4500 = ?r" by (simp add: minus_div_mult_eq_mod)
  have "x = ?m * 4500 + ?r" by (simp add: div_mult_mod_eq)
  also have "?r = ?r div 75 * 75 + ?r mod 75" by (simp add: div_mult_mod_eq)
  finally have "x = ?m * 4500 + (?r div 75) * 75 + ?r mod 75" by (simp add: add.assoc)
  moreover have "lba_to_msf x = bcd_at 16 (ucast ?m) OR bcd_at 8 (ucast (?r div 75)) OR bcd_at 0 (ucast (?r mod 75))"
    by (simp add: lba_to_msf_def Let_def m r)
  ultimately show ?thesis
    using b m s f
    by (intro exI [of _ "ucast ?m :: u8"] exI [of _ "ucast (?r div 75) :: u8"] exI [of _ "ucast (?r mod 75) :: u8"])
      (simp add: unsigned_ucast_eq take_bit_eq_mod)
qed

text \<open>
  C14: the BCD minute/second/frame address the drive reports for a sector, put through the
  driver's own conversion of command parameters, is the sector again (the driver adds the
  150-frame lead-in when reporting and subtracts it when parsing), for every address below 100
  minutes; and each field of the reported address is a valid two-digit BCD byte.
\<close>
theorem msf_roundtrip:
  assumes "unat (lba + 150) < 450000"
  shows "msf_to_lbafm (lba_to_msf (lba + 150)) = lba
    \<and> (\<exists>m s f. unat m < 100 \<and> unat s < 100 \<and> unat f < 100 \<and>
        byte32 2 (lba_to_msf (lba + 150)) = byte_to_bcd m \<and>
        byte32 1 (lba_to_msf (lba + 150)) = byte_to_bcd s \<and>
        byte32 0 (lba_to_msf (lba + 150)) = byte_to_bcd f)"
proof -
  obtain m s f where x: "lba + 150 = ucast m * 4500 + ucast s * 75 + ucast f"
    and b: "unat (m::u8) < 100" "unat (s::u8) < 100" "unat (f::u8) < 100"
    and l: "lba_to_msf (lba + 150) = bcd_at 16 m OR bcd_at 8 s OR bcd_at 0 f"
    using lba_parts [OF assms] by blast
  have p: "lba_to_msf (lba + 150) = push_bit 16 (ucast (byte_to_bcd m)) OR push_bit 8 (ucast (byte_to_bcd s)) OR ucast (byte_to_bcd f)"
    using b by (simp add: l bcd_at_byte)
  have "msf_to_lbafm (lba_to_msf (lba + 150)) = lba"
    unfolding msf_to_lbafm_def Let_def p byte32_pack
    by (simp add: bcd_byte_roundtrip b flip: x)
  moreover have "byte32 2 (lba_to_msf (lba + 150)) = byte_to_bcd m"
    "byte32 1 (lba_to_msf (lba + 150)) = byte_to_bcd s" "byte32 0 (lba_to_msf (lba + 150)) = byte_to_bcd f"
    unfolding p by (rule byte32_pack)+
  ultimately show ?thesis using b by blast
qed

lemma msf_roundtrip_witness: "msf_to_lbafm (lba_to_msf (16 + 150)) = 16"
  using msf_roundtrip [of 16] by simp

subsection \<open>Track search\<close>

text \<open>A table of contents as the image parsers build it: the starts ascend up to the lead-out.\<close>

definition toc_wf :: "disc \<Rightarrow> bool" where
  "toc_wf d = (numtrks (toc_of d) \<le> 99 \<and> length (tracks (toc_of d)) = 100 \<and>
     (\<forall>i < numtrks (toc_of d). \<forall>j \<le> numtrks (toc_of d). i < j \<longrightarrow>
        logframeofs (track_of d i) < logframeofs (track_of d j)))"

lemma chd_lba_from_track:
  assumes "t \<le> k" "k < t + n"
    "\<forall>j. t < j \<and> j \<le> k \<longrightarrow> \<not> lba < logframeofs (track_of d j)" "lba < logframeofs (track_of d (k + 1))"
  shows "chd_lba_from d lba t n = (chdframeofs (track_of d k) + (lba - logframeofs (track_of d k)), k)"
  using assms
proof (induction n arbitrary: t)
  case 0
  then show ?case by simp
next
  case (Suc n)
  show ?case
  proof (cases "t = k")
    case True
    then show ?thesis using Suc.prems by (simp add: Let_def)
  next
    case False
    with Suc.prems have "\<not> lba < logframeofs (track_of d (t + 1))" "t + 1 \<le> k" by auto
    then show ?thesis using Suc.prems by (simp add: Suc.IH)
  qed
qed

text \<open>
  On a disc whose tracks start at ascending addresses, a sector that lies between the start of
  track k and the start of the next is found in track k, at the distance from the start of that
  track inside the image at which it lies on the disc; the search never leaves the table.
\<close>
lemma track_search_correct:
  assumes "toc_wf d" "k < numtrks (toc_of d)"
    "logframeofs (track_of d k) \<le> lba" "lba < logframeofs (track_of d (k + 1))"
  shows "logical_to_chd_lba d lba = (chdframeofs (track_of d k) + (lba - get_track_start d k), k)
    \<and> get_track d lba = k"
proof -
  have "\<not> lba < logframeofs (track_of d j)" if "j \<le> k" for j
  proof (cases "j = k")
    case False
    then have "logframeofs (track_of d j) < logframeofs (track_of d k)"
      using assms(1,2) that by (simp add: toc_wf_def)
    then show ?thesis using assms(3) by simp
  qed (use assms(3) in simp)
  then have "chd_lba_from d lba 0 (numtrks (toc_of d)) =
      (chdframeofs (track_of d k) + (lba - logframeofs (track_of d k)), k)"
    using assms by (intro chd_lba_from_track) auto
  moreover have "k \<noteq> 0xaa" using assms(1,2) by (simp add: toc_wf_def)
  ultimately show ?thesis by (simp add: logical_to_chd_lba_def get_track_def get_track_start_def)
qed

definition sample_track :: "track_type \<Rightarrow> u32 \<Rightarrow> track_info" where
  "sample_track ty start = \<lparr>trktype = ty, datasize = 2048, subsize = 0, pregap = 0, pgdatasize = 0,
     control_flags = 0, logframeofs = start, physframeofs = start, chdframeofs = start\<rparr>"

definition sample_disc :: disc where
  "sample_disc = \<lparr>toc_of = \<lparr>numtrks = 2, gdrom_le = False,
       tracks = [sample_track CD_TRACK_MODE1 0, sample_track CD_TRACK_AUDIO 400, sample_track CD_TRACK_AUDIO 700] @
         replicate 97 (sample_track CD_TRACK_MODE1 0)\<rparr>,
     image_of = Chd (\<lambda>ofs n. (map (\<lambda>i. of_nat i) [0..<n], True))\<rparr>"

lemma sample_starts:
  "logframeofs (track_of sample_disc 0) = 0" "logframeofs (track_of sample_disc 1) = 400"
  "logframeofs (track_of sample_disc 2) = 700" "numtrks (toc_of sample_disc) = 2"
  "length (tracks (toc_of sample_disc)) = 100"
  by (simp_all add: sample_disc_def track_of_def sample_track_def)

lemma sample_disc_wf: "toc_wf sample_disc"
proof -
  have "logframeofs (track_of sample_disc i) < logframeofs (track_of sample_disc j)"
    if "i < 2" "j \<le> 2" "i < j" for i j
  proof -
    have "i = 0 \<and> j = 1 \<or> i = 0 \<and> j = 2 \<or> i = 1 \<and> j = 2" using that by arith
    then show ?thesis using sample_starts by auto
  qed
  then show ?thesis by (simp add: toc_wf_def sample_starts(4,5))
qed

lemma track_search_correct_witness: "get_track sample_disc 500 = 1"
proof -
  have "(1::nat) + 1 = 2" by simp
  then have "500 < logframeofs (track_of sample_disc (1 + 1))" by (simp only: sample_starts) simp
  then show ?thesis
    using track_search_correct [OF sample_disc_wf, of 1 500] sample_starts(2)
    by (simp add: sample_starts(4))
qed

subsection \<open>Data sectors fit the sector buffer\<close>

lemma length_overlay: "off + length bs \<le> length dst \<Longrightarrow> length (overlay dst off bs) = length dst"
  by (simp add: overlay_def)

lemma length_swap_pairs [simp]: "length (swap_pairs n xs) = length xs"
  by (induction n xs rule: swap_pairs.induct) auto

text \<open>The documented behaviour of the readers: at most the requested number of bytes.\<close>

fun image_wf :: "image \<Rightarrow> bool" where
  "image_wf (Chd rd) = (\<forall>ofs n. length (fst (rd ofs n)) \<le> n)"
| "image_wf (Files info rd) = (\<forall>t ofs n. length (fst (rd t ofs n)) \<le> n)"

definition disc_wf :: "disc \<Rightarrow> bool" where
  "disc_wf d = (image_wf (image_of d) \<and> numtrks (toc_of d) \<le> 99 \<and>
     (\<forall>t < 100. trktype (track_of d t) = CD_TRACK_MODE1 \<longrightarrow> datasize (track_of d t) = 2048) \<and>
     (\<forall>t < 100. trktype (track_of d t) = CD_TRACK_AUDIO \<longrightarrow> datasize (track_of d t) = 2352))"

lemma chd_lba_from_range: "snd (chd_lba_from d lba t n) < t + n \<or> snd (chd_lba_from d lba t n) = 0"
proof (induction n arbitrary: t)
  case (Suc n)
  then show ?case using Suc.IH [of "t + 1"] by (auto simp: Let_def)
qed simp

lemma found_track: "disc_wf d \<Longrightarrow> logical_to_chd_lba d lba = (c, t) \<Longrightarrow> t < 100"
  using chd_lba_from_range [of d lba 0 "numtrks (toc_of d)"]
  by (auto simp: logical_to_chd_lba_def disc_wf_def)

lemma length_partial:
  "image_wf (image_of d) \<Longrightarrow> length (fst (read_partial_sector d lba c t s n)) \<le> n"
  by (cases "image_of d") (auto simp: read_partial_sector_def Let_def split_beta)

lemma length_mode1:
  assumes "disc_wf d" "length buf = 2048"
  shows "length (fst (read_data d lba CD_TRACK_MODE1 buf)) = 2048"
proof -
  obtain c t where ct: "logical_to_chd_lba d lba = (c, t)" by (cases "logical_to_chd_lba d lba")
  have L: "length (overlay buf 0 (fst (read_partial_sector d lba c t s 2048))) = 2048" for s
    using assms length_partial [of d lba c t s 2048] by (simp add: length_overlay disc_wf_def)
  show ?thesis
  proof (cases "trktype (track_of d t) = CD_TRACK_MODE1")
    case True
    then have "unat (datasize (track_of d t)) = 2048"
      using assms(1) found_track [OF assms(1) ct] by (simp add: disc_wf_def)
    then show ?thesis using True L [of 0] by (simp add: read_data_def ct Let_def split_beta)
  qed (use L assms(2) in \<open>auto simp: read_data_def ct Let_def split_beta\<close>)
qed

lemma length_drive_mode1:
  "(\<forall>d. dr = Some d \<longrightarrow> disc_wf d) \<Longrightarrow> length buf = 2048 \<Longrightarrow>
     length (fst (drive_read_data dr lba CD_TRACK_MODE1 buf)) = 2048"
  by (auto simp: drive_read_data_def length_mode1 split: option.splits)

end
