(* ===== verification/Cdda.thy ===== *)
theory Cdda
  imports Cd_Image
begin

text \<open>
  The CD audio player, \<open>src/devices/sound/cdda.cpp\<close>: its controls, the position it reports, the
  sector cache and the loop that feeds the sound stream from it. The source brings the stream up
  to date at the start of most operations; here that is the separate operation \<open>get_audio_data\<close>,
  run with the number of samples that have fallen due. The end-of-audio output, which the Towns
  leaves unconnected, is not modelled.
\<close>

unbundle bit_operations_syntax

subsection \<open>State and controls\<close>

text \<open>
  \<open>a_cache\<close> is \<open>m_audio_cache\<close>, four sectors of bytes; \<open>a_bptr\<close> counts 16-bit words in it and
  \<open>a_samples\<close> the stereo samples left in it.
\<close>

record cdda =
  a_playing :: bool
  a_pause :: bool
  a_ended :: bool
  a_lba :: u32
  a_length :: u32
  a_samples :: u32
  a_bptr :: u32
  a_scan :: bool
  a_scan_direction :: bool
  a_sequence :: u32
  a_cache :: "u8 list"

definition cdda_start :: cdda where
  "cdda_start = \<lparr>a_playing = False, a_pause = False, a_ended = False, a_lba = 0, a_length = 0,
     a_samples = 0, a_bptr = 0, a_scan = False, a_scan_direction = False, a_sequence = 0,
     a_cache = replicate 9408 0\<rparr>"

definition start_audio :: "u32 \<Rightarrow> u32 \<Rightarrow> cdda \<Rightarrow> cdda" where
  "start_audio startlba numblocks a = a\<lparr>a_playing := True, a_pause := False, a_ended := False,
     a_lba := startlba, a_length := numblocks, a_samples := 0\<rparr>"

definition stop_audio :: "cdda \<Rightarrow> cdda" where
  "stop_audio a = a\<lparr>a_playing := False, a_ended := True\<rparr>"

definition pause_audio :: "bool \<Rightarrow> cdda \<Rightarrow> cdda" where
  "pause_audio p a = a\<lparr>a_pause := p\<rparr>"

definition scan_forward :: "cdda \<Rightarrow> cdda" where
  "scan_forward a = a\<lparr>a_scan := True, a_scan_direction := True\<rparr>"

definition scan_reverse :: "cdda \<Rightarrow> cdda" where
  "scan_reverse a = a\<lparr>a_scan := True, a_scan_direction := False\<rparr>"

definition cancel_scan :: "cdda \<Rightarrow> cdda" where
  "cancel_scan a = a\<lparr>a_scan := False\<rparr>"

definition set_audio_lba :: "u32 \<Rightarrow> cdda \<Rightarrow> cdda" where
  "set_audio_lba lba a = a\<lparr>a_lba := lba\<rparr>"

definition get_audio_lba :: "cdda \<Rightarrow> u32" where
  "get_audio_lba a = a_lba a - (a_samples a + 588 - 1) div 588"

definition set_audio_length :: "u32 \<Rightarrow> cdda \<Rightarrow> cdda" where
  "set_audio_length n a = a\<lparr>a_length := n\<rparr>"

definition audio_active :: "cdda \<Rightarrow> bool" where "audio_active a = a_playing a"
definition audio_paused :: "cdda \<Rightarrow> bool" where "audio_paused a = a_pause a"
definition audio_ended :: "cdda \<Rightarrow> bool" where "audio_ended a = a_ended a"

subsection \<open>The sample stream\<close>

text \<open>
  \<open>n\<close> stereo samples from the cache, stored big-endian; reading past the end of the cache is an
  out-of-bounds access of the C++ program and is the value \<open>None\<close> here.
\<close>

definition cache_word :: "u8 list \<Rightarrow> nat \<Rightarrow> u16 option" where
  "cache_word c i =
     (if 2 * i + 1 < length c then Some (push_bit 8 (ucast (c ! (2 * i))) OR ucast (c ! (2 * i + 1)))
      else None)"

fun feed :: "u8 list \<Rightarrow> nat \<Rightarrow> nat \<Rightarrow> (u16 \<times> u16) list option" where
  "feed c b 0 = Some []"
| "feed c b (Suc n) =
     (case (cache_word c b, cache_word c (b + 1)) of
        (Some l, Some r) \<Rightarrow> (case feed c (b + 2) n of Some xs \<Rightarrow> Some ((l, r) # xs) | None \<Rightarrow> None)
      | _ \<Rightarrow> None)"

text \<open>One sector into slot \<open>i\<close> of the cache; data tracks play as silence.\<close>

definition load_slot :: "drive \<Rightarrow> nat \<Rightarrow> cdda \<Rightarrow> cdda" where
  "load_slot dr i a =
     (let ofs = 2352 * i;
          bs = (if bit (drive_adr_control dr (drive_track dr (a_lba a))) 2 then replicate 2352 0
                else fst (drive_read_data dr (a_lba a) CD_TRACK_AUDIO (take 2352 (drop ofs (a_cache a)))));
          lba' = (if \<not> a_scan a then a_lba a + 1
                  else if a_scan_direction a then a_lba a + 2 else a_lba a - 2)
      in a\<lparr>a_cache := overlay (a_cache a) ofs bs, a_lba := lba'\<rparr>)"

text \<open>\<open>int sectors\<close>: the 32-bit length read as a signed number, at most four.\<close>

definition refill_sectors :: "cdda \<Rightarrow> int" where
  "refill_sectors a = (if sint (a_length a) > 4 then 4 else sint (a_length a))"

definition refill :: "drive \<Rightarrow> cdda \<Rightarrow> cdda" where
  "refill dr a =
     (let sectors = refill_sectors a;
          a1 = fold (load_slot dr) [0..<nat sectors] a
      in a1\<lparr>a_samples := (2352 * of_int sectors) div 4, a_length := a_length a1 - of_int sectors,
            a_bptr := 0\<rparr>)"

text \<open>After feeding \<open>n\<close> samples: step the read position, and load more when the cache has run out.\<close>

definition consume :: "drive \<Rightarrow> nat \<Rightarrow> cdda \<Rightarrow> cdda" where
  "consume dr n a =
     (let a1 = a\<lparr>a_bptr := a_bptr a + of_nat (2 * n), a_samples := a_samples a - of_nat n\<rparr>
      in if a_samples a1 = 0 then refill dr a1 else a1)"

text \<open>
  \<open>get_audio_data\<close> for \<open>left\<close> samples: the samples it puts on the stream and the new state. \<open>seq\<close> is
  the sequence counter of the drive. Two iterations of the source's loop produce a sample or end
  it, so \<open>2 * left + 2\<close> iterations are enough.
\<close>

fun audio_loop :: "nat \<Rightarrow> drive \<Rightarrow> u32 \<Rightarrow> nat \<Rightarrow> cdda \<Rightarrow> ((u16 \<times> u16) list \<times> cdda) option" where
  "audio_loop 0 dr seq left a = None"
| "audio_loop (Suc fuel) dr seq left a =
     (if left = 0 then Some ([], a)
      else if seq \<noteq> a_sequence a \<or> \<not> drive_exists dr \<or> \<not> a_playing a \<or> a_pause a \<or>
              (a_length a = 0 \<and> a_samples a = 0) then
        Some ([], (if a_playing a \<and> \<not> a_pause a \<and> a_length a = 0
                   then a\<lparr>a_playing := False, a_ended := True\<rparr> else a)\<lparr>a_sequence := seq\<rparr>)
      else
        let n = (if left > unat (a_samples a) then unat (a_samples a) else left)
        in case feed (a_cache a) (unat (a_bptr a)) n of
             None \<Rightarrow> None
           | Some xs \<Rightarrow>
               case audio_loop fuel dr seq (left - n) (consume dr n a) of
                    None \<Rightarrow> None
                  | Some (ys, a') \<Rightarrow> Some (xs @ ys, a'))"

definition get_audio_data :: "drive \<Rightarrow> u32 \<Rightarrow> nat \<Rightarrow> cdda \<Rightarrow> ((u16 \<times> u16) list \<times> cdda) option" where
  "get_audio_data dr seq n a = audio_loop (2 * n + 2) dr seq n a"

subsection \<open>A play request delivers its blocks and ends\<close>

text \<open>The part of the cache that is still to be played lies inside it.\<close>

definition cdda_wf :: "cdda \<Rightarrow> bool" where
  "cdda_wf a = (length (a_cache a) = 9408 \<and> unat (a_length a) < 2 ^ 31 \<and>
     2 * unat (a_bptr a) + 4 * unat (a_samples a) \<le> 9408)"

definition remaining :: "cdda \<Rightarrow> nat" where
  "remaining a = unat (a_samples a) + 588 * unat (a_length a)"

lemma feed_within:
  "2 * b + 4 * n \<le> length c \<Longrightarrow> \<exists>xs. feed c b n = Some xs \<and> length xs = n"
proof (induction n arbitrary: b)
  case 0
  then show ?case by simp
next
  case (Suc n)
  then obtain xs where "feed c (b + 2) n = Some xs" "length xs = n" using Suc.IH [of "b + 2"] by fastforce
  then show ?case using Suc.prems by (simp add: cache_word_def)
qed

definition drive_wf :: "drive \<Rightarrow> bool" where
  "drive_wf dr = (\<forall>d. dr = Some d \<longrightarrow> disc_wf d)"

lemma length_audio:
  assumes "drive_wf dr" "length buf = 2352"
    "\<not> bit (drive_adr_control dr (drive_track dr lba)) 2"
  shows "length (fst (drive_read_data dr lba CD_TRACK_AUDIO buf)) = 2352"
proof (cases dr)
  case None
  then show ?thesis using assms(2) by (simp add: drive_read_data_def)
next
  case (Some d)
  obtain c t where ct: "logical_to_chd_lba d lba = (c, t)" by (cases "logical_to_chd_lba d lba")
  have wf: "disc_wf d" using assms(1) Some by (simp add: drive_wf_def)
  have t: "t < 100" by (rule found_track [OF wf ct])
  have "\<not> bit (get_adr_control d t) 2"
    using assms(3) Some ct by (simp add: drive_adr_control_def drive_track_def get_track_def)
  then have ty: "trktype (track_of d t) = CD_TRACK_AUDIO"
    using t by (auto simp: get_adr_control_def Let_def bit_or_iff split: if_splits)
  moreover have "unat (datasize (track_of d t)) = 2352" using ty wf t by (simp add: disc_wf_def)
  moreover have "length (overlay buf 0 (fst (read_partial_sector d lba c t 0 2352))) = 2352"
    using wf assms(2) length_partial [of d lba c t 0 2352] by (simp add: length_overlay disc_wf_def)
  ultimately show ?thesis using Some by (simp add: drive_read_data_def read_data_def ct Let_def split_beta)
qed

lemma load_slot_frame [simp]:
  "a_length (load_slot dr i a) = a_length a" "a_samples (load_slot dr i a) = a_samples a"
  "a_bptr (load_slot dr i a) = a_bptr a" "a_playing (load_slot dr i a) = a_playing a"
  "a_pause (load_slot dr i a) = a_pause a" "a_sequence (load_slot dr i a) = a_sequence a"
  "a_scan (load_slot dr i a) = a_scan a" "a_ended (load_slot dr i a) = a_ended a"
  by (simp_all add: load_slot_def Let_def)

lemma load_slot_lba: "\<not> a_scan a \<Longrightarrow> a_lba (load_slot dr i a) = a_lba a + 1"
  by (simp add: load_slot_def Let_def)

lemma load_slot_cache:
  assumes "drive_wf dr" "i < 4" "length (a_cache a) = 9408"
  shows "length (a_cache (load_slot dr i a)) = 9408"
proof -
  have "2352 * i + 2352 \<le> 9408" using assms(2) by simp
  then show ?thesis
    using assms(3) length_audio [OF assms(1), of "take 2352 (drop (2352 * i) (a_cache a))" "a_lba a"]
    by (simp add: load_slot_def Let_def length_overlay)
qed

lemma load_slots:
  assumes "drive_wf dr" "length (a_cache a) = 9408" "n \<le> 4"
  shows "a_length (fold (load_slot dr) [0..<n] a) = a_length a \<and>
    a_playing (fold (load_slot dr) [0..<n] a) = a_playing a \<and>
    a_pause (fold (load_slot dr) [0..<n] a) = a_pause a \<and>
    a_sequence (fold (load_slot dr) [0..<n] a) = a_sequence a \<and>
    a_ended (fold (load_slot dr) [0..<n] a) = a_ended a \<and>
    a_scan (fold (load_slot dr) [0..<n] a) = a_scan a \<and>
    (\<not> a_scan a \<longrightarrow> a_lba (fold (load_slot dr) [0..<n] a) = a_lba a + of_nat n) \<and>
    length (a_cache (fold (load_slot dr) [0..<n] a)) = 9408"
  using assms(3)
proof (induction n)
  case 0
  then show ?case using assms(2) by simp
next
  case (Suc n)
  then show ?case using load_slot_cache [OF assms(1)] by (auto simp: load_slot_lba)
qed

lemma refill_facts:
  assumes "drive_wf dr" "cdda_wf a" "a_samples a = 0"
  shows "cdda_wf (refill dr a) \<and> remaining (refill dr a) = remaining a \<and>
    (a_length a \<noteq> 0 \<longrightarrow> a_samples (refill dr a) \<noteq> 0) \<and>
    (\<not> a_scan a \<longrightarrow> a_lba (refill dr a) + a_length (refill dr a) = a_lba a + a_length a) \<and>
    a_playing (refill dr a) = a_playing a \<and> a_pause (refill dr a) = a_pause a \<and>
    a_sequence (refill dr a) = a_sequence a \<and> a_scan (refill dr a) = a_scan a \<and>
    a_ended (refill dr a) = a_ended a"
proof -
  define k where "k = min 4 (unat (a_length a))"
  have len: "unat (a_length a) < 2 ^ 31" and cache: "length (a_cache a) = 9408"
    using assms(2) by (simp_all add: cdda_wf_def)
  have "int (unat (a_length a)) < int (2 ^ 31)" using len by (simp only: of_nat_less_iff)
  then have "signed_take_bit 31 (int (unat (a_length a))) = int (unat (a_length a))"
    by (intro signed_take_bit_int_eq_self) (auto intro: order_trans [of _ 0])
  then have "sint (a_length a) = int (unat (a_length a))" by (simp add: sint_uint)
  moreover define u where "u = unat (a_length a)"
  ultimately have "refill_sectors a = (if int u > 4 then 4 else int u)" by (simp only: refill_sectors_def)
  then have sec: "refill_sectors a = int k" by (simp add: k_def flip: u_def)
  have k4: "k \<le> 4" and kl: "k \<le> unat (a_length a)" by (simp_all add: k_def)
  note L = load_slots [OF assms(1) cache k4]
  have s: "a_samples (refill dr a) = of_nat (588 * k)"
  proof -
    have "k \<in> {0, 1, 2, 3, 4}" using k4 by auto
    then show ?thesis by (auto simp: refill_def Let_def sec)
  qed
  have l: "a_length (refill dr a) = a_length a - of_nat k"
    using L by (simp add: refill_def Let_def sec)
  have ul: "unat (a_length a - of_nat k) = unat (a_length a) - k"
    using kl k4 by (subst unat_sub) (simp_all add: word_le_nat_alt unat_of_nat)
  have us: "unat (a_samples (refill dr a)) = 588 * k"
  proof -
    have "k \<in> {0, 1, 2, 3, 4}" using k4 by auto
    then show ?thesis unfolding s by auto
  qed
  have ul': "unat (a_length (refill dr a)) = unat (a_length a) - k" by (simp only: l ul)
  have f: "a_bptr (refill dr a) = 0" "length (a_cache (refill dr a)) = 9408"
    "a_playing (refill dr a) = a_playing a" "a_pause (refill dr a) = a_pause a"
    "a_sequence (refill dr a) = a_sequence a" "a_scan (refill dr a) = a_scan a"
    "a_ended (refill dr a) = a_ended a"
    using L by (simp_all add: refill_def Let_def sec)
  have "a_lba (refill dr a) = a_lba a + of_nat k" if "\<not> a_scan a"
    using L that by (simp add: refill_def Let_def sec)
  then have p: "\<not> a_scan a \<longrightarrow> a_lba (refill dr a) + a_length (refill dr a) = a_lba a + a_length a"
    by (simp add: l)
  have "cdda_wf (refill dr a)" using k4 len by (simp add: cdda_wf_def f us ul')
  moreover have "remaining (refill dr a) = remaining a"
    using kl by (simp add: remaining_def assms(3) us ul' algebra_simps)
  moreover have "a_length a \<noteq> 0 \<longrightarrow> a_samples (refill dr a) \<noteq> 0"
  proof
    assume "a_length a \<noteq> 0"
    then have "k \<noteq> 0" by (simp add: k_def unat_gt_0)
    then show "a_samples (refill dr a) \<noteq> 0" using us by auto
  qed
  ultimately show ?thesis using p f by simp
qed

lemma fuel_step:
  "(s \<noteq> 0 \<Longrightarrow> 1 \<le> n) \<Longrightarrow> (s = 0 \<Longrightarrow> z \<noteq> 0) \<Longrightarrow> 2 * left + (if s = 0 then 1 else 0) < Suc fuel \<Longrightarrow>
   n \<le> left \<Longrightarrow> left \<noteq> 0 \<Longrightarrow> 2 * (left - n) + (if z = 0 then 1 else 0) < fuel" for s z :: u32 and n left :: nat
  by (auto split: if_splits)

lemma audio_loop_progress:
  assumes "drive_wf dr" "dr \<noteq> None" "cdda_wf a" "a_sequence a = seq" "a_playing a" "\<not> a_pause a"
    "2 * left + (if a_samples a = 0 then 1 else 0) < fuel"
  shows "\<exists>xs a'. audio_loop fuel dr seq left a = Some (xs, a') \<and> length xs = min left (remaining a) \<and>
    cdda_wf a' \<and> remaining a' = remaining a - length xs \<and> a_scan a' = a_scan a \<and>
    (\<not> a_scan a \<longrightarrow> a_lba a' + a_length a' = a_lba a + a_length a) \<and>
    (a_playing a' \<longleftrightarrow> left \<le> remaining a) \<and> (a_ended a' \<longleftrightarrow> a_ended a \<or> remaining a < left)"
  using assms
proof (induction fuel arbitrary: left a)
  case 0
  then show ?case by simp
next
  case (Suc fuel)
  show ?case
  proof (cases "left = 0 \<or> a_length a = 0 \<and> a_samples a = 0")
    case True
    then show ?thesis using Suc.prems
      by (auto simp: remaining_def cdda_wf_def drive_exists_def)
  next
    case False
    define n where "n = (if left > unat (a_samples a) then unat (a_samples a) else left)"
    let ?a1 = "a\<lparr>a_bptr := a_bptr a + of_nat (2 * n), a_samples := a_samples a - of_nat n\<rparr>"
    let ?a2 = "consume dr n a"
    have a2: "?a2 = (if a_samples ?a1 = 0 then refill dr ?a1 else ?a1)" by (simp only: consume_def Let_def)
    have n: "n \<le> unat (a_samples a)" "n \<le> left" by (auto simp: n_def)
    have W: "length (a_cache a) = 9408" "2 * unat (a_bptr a) + 4 * unat (a_samples a) \<le> 9408"
      using Suc.prems(3) by (simp_all add: cdda_wf_def)
    obtain xs where xs: "feed (a_cache a) (unat (a_bptr a)) n = Some xs" "length xs = n"
      using feed_within [of "unat (a_bptr a)" n "a_cache a"] W n(1) by fastforce
    have us: "unat (a_samples ?a1) = unat (a_samples a) - n"
      using n(1) W(2) by (simp add: unat_sub word_le_nat_alt unat_of_nat)
    have ub: "unat (a_bptr ?a1) = unat (a_bptr a) + 2 * n"
      using n(1) W(2) by (simp add: unat_add_lem [THEN iffD1] unat_of_nat unat_word_ariths)
    have wf1: "cdda_wf ?a1" using Suc.prems(3) us ub n(1) by (auto simp: cdda_wf_def)
    have rem1: "remaining ?a1 = remaining a - n" using us n(1) by (simp add: remaining_def)
    have R: "cdda_wf ?a2 \<and> remaining ?a2 = remaining a - n \<and> a_playing ?a2 \<and> \<not> a_pause ?a2 \<and>
        a_sequence ?a2 = seq \<and> a_scan ?a2 = a_scan a \<and> a_ended ?a2 = a_ended a \<and>
        (\<not> a_scan a \<longrightarrow> a_lba ?a2 + a_length ?a2 = a_lba a + a_length a) \<and>
        (a_length a \<noteq> 0 \<longrightarrow> a_samples ?a2 \<noteq> 0)"
      unfolding a2 using refill_facts [OF Suc.prems(1) wf1] wf1 rem1 Suc.prems(4-6) by auto
    have "a_samples a \<noteq> 0 \<Longrightarrow> 1 \<le> n"
      using False by (auto simp: n_def Suc_le_eq unat_gt_0)
    moreover have "a_samples a = 0 \<Longrightarrow> a_samples ?a2 \<noteq> 0"
      using R False by blast
    ultimately have fuel: "2 * (left - n) + (if a_samples ?a2 = 0 then 1 else 0) < fuel"
      using fuel_step [OF _ _ Suc.prems(7) n(2)] False by blast
    have "\<exists>ys a'. audio_loop fuel dr seq (left - n) ?a2 = Some (ys, a') \<and>
      length ys = min (left - n) (remaining ?a2) \<and> cdda_wf a' \<and>
      remaining a' = remaining ?a2 - length ys \<and> a_scan a' = a_scan ?a2 \<and>
      (\<not> a_scan ?a2 \<longrightarrow> a_lba a' + a_length a' = a_lba ?a2 + a_length ?a2) \<and>
      (a_playing a' \<longleftrightarrow> left - n \<le> remaining ?a2) \<and>
      (a_ended a' \<longleftrightarrow> a_ended ?a2 \<or> remaining ?a2 < left - n)"
      by (rule Suc.IH [OF Suc.prems(1,2)]) (use R fuel in blast)+
    then obtain ys a' where ys: "audio_loop fuel dr seq (left - n) ?a2 = Some (ys, a')"
      "length ys = min (left - n) (remaining ?a2)" "cdda_wf a'" "remaining a' = remaining ?a2 - length ys"
      "a_scan a' = a_scan ?a2" "\<not> a_scan ?a2 \<longrightarrow> a_lba a' + a_length a' = a_lba ?a2 + a_length ?a2"
      "a_playing a' \<longleftrightarrow> left - n \<le> remaining ?a2"
      "a_ended a' \<longleftrightarrow> a_ended ?a2 \<or> remaining ?a2 < left - n"
      by blast
    have step: "audio_loop (Suc fuel) dr seq left a = Some (xs @ ys, a')"
      using False Suc.prems(2,4-6) xs ys(1) by (auto simp: drive_exists_def Let_def simp flip: n_def)
    have nr: "n \<le> remaining a" using n(1) by (simp add: remaining_def)
    have R2: "remaining ?a2 = remaining a - n" using R by blast
    have len: "length (xs @ ys) = min left (remaining a)"
      using ys(2) xs(2) n(2) nr unfolding R2 length_append by linarith
    have rem: "remaining a' = remaining a - length (xs @ ys)" using ys(4) xs(2) by (simp add: R2)
    have play: "a_playing a' \<longleftrightarrow> left \<le> remaining a" using ys(7) n(2) nr by (simp add: R2) arith
    have ended: "a_ended a' \<longleftrightarrow> a_ended a \<or> remaining a < left"
      using ys(8) n(2) nr R by (simp add: R2) arith
    have "\<not> a_scan a \<longrightarrow> a_lba a' + a_length a' = a_lba a + a_length a" "a_scan a' = a_scan a"
      using ys(5,6) R by simp_all
    with len rem play ended ys(3) show ?thesis unfolding step by blast
  qed
qed

lemma ceil_588:
  assumes "S + 588 * L + k = 588 * (N::nat)"
  shows "(S + 587) div 588 + L + k div 588 = N"
proof -
  define q r where "q = k div 588" and "r = k mod 588"
  have k: "k = 588 * q + r" and r: "r < 588" by (simp_all add: q_def r_def)
  have "588 * (L + q) \<le> 588 * N" using assms by (simp add: k)
  then have le: "L + q \<le> N" by simp
  then obtain m where m: "N = L + q + m" by (auto simp: le_iff_add)
  have S: "S + r = 588 * m" using assms by (simp add: k m)
  have "(S + 587) div 588 = m"
  proof (rule div_nat_eqI)
    show "588 * m \<le> S + 587" using S r by linarith
    show "S + 587 < 588 * Suc m" using S by simp
  qed
  then show ?thesis by (simp add: m q_def)
qed

lemma position_of_remaining:
  assumes "unat (a_samples a) \<le> 2352" "a_lba a + a_length a = s + n"
    "unat (a_samples a) + 588 * unat (a_length a) = 588 * unat n - k" "k \<le> 588 * unat n"
  shows "get_audio_lba a = s + of_nat (k div 588)"
proof -
  let ?c = "(unat (a_samples a) + 587) div 588"
  have u: "unat ((a_samples a + 588 - 1) div 588) = ?c"
  proof -
    have "a_samples a + 588 - 1 = a_samples a + 587" by simp
    moreover have "unat (a_samples a + 587) = unat (a_samples a) + 587"
      using assms(1) by (subst unat_add_lem [THEN iffD1]) simp_all
    ultimately show ?thesis by (simp only: unat_div) simp
  qed
  have "?c + unat (a_length a) + k div 588 = unat n" by (rule ceil_588) (use assms(3,4) in simp)
  then have "(of_nat (?c + unat (a_length a) + k div 588) :: u32) = n" by simp
  then have nn: "n = of_nat ?c + a_length a + of_nat (k div 588)" by simp
  have cc: "(a_samples a + 588 - 1) div 588 = of_nat ?c" by (simp only: u [symmetric]) simp
  have lba: "a_lba a = s + n - a_length a" using assms(2) by (simp add: algebra_simps)
  show ?thesis by (simp only: get_audio_lba_def cc lba nn) simp
qed

text \<open>
  C11: after a play request for n blocks from sector s, on a loaded disc that is not exchanged or
  paused, the sample stream delivers the 588 samples of each block, never reads outside its
  sector cache, and then ends: of k samples asked for it delivers all up to 588 n, the play
  position reported after k samples is sector s plus k div 588, and the end of the audio is
  reported exactly when more than 588 n samples have been asked for.
\<close>
theorem cdda_plays_blocks:
  assumes "drive_wf dr" "dr \<noteq> None" "cdda_wf a" "a_sequence a = seq" "\<not> a_scan a" "unat n < 2 ^ 31"
  shows "\<exists>xs a'. get_audio_data dr seq k (start_audio s n a) = Some (xs, a') \<and>
    length xs = min k (588 * unat n) \<and>
    (k \<le> 588 * unat n \<longrightarrow> get_audio_lba a' = s + of_nat (k div 588)) \<and>
    (audio_ended a' \<longleftrightarrow> 588 * unat n < k) \<and> (audio_active a' \<longleftrightarrow> k \<le> 588 * unat n)"
proof -
  let ?a = "start_audio s n a"
  have wf: "cdda_wf ?a" using assms(3,6) by (simp add: cdda_wf_def start_audio_def)
  have r: "remaining ?a = 588 * unat n" by (simp add: remaining_def start_audio_def)
  obtain xs a' where A: "audio_loop (2 * k + 2) dr seq k ?a = Some (xs, a')"
    "length xs = min k (588 * unat n)" "cdda_wf a'" "remaining a' = 588 * unat n - length xs"
    "a_lba a' + a_length a' = s + n" "a_playing a' \<longleftrightarrow> k \<le> 588 * unat n" "a_ended a' \<longleftrightarrow> 588 * unat n < k"
    using audio_loop_progress [of dr ?a seq k "2 * k + 2"] assms wf r by (auto simp: start_audio_def)
  have "get_audio_lba a' = s + of_nat (k div 588)" if "k \<le> 588 * unat n"
    by (rule position_of_remaining) (use A that in \<open>auto simp: cdda_wf_def remaining_def\<close>)
  with A show ?thesis by (auto simp: get_audio_data_def audio_ended_def audio_active_def)
qed

definition sample_audio_disc :: disc where
  "sample_audio_disc = \<lparr>toc_of = \<lparr>numtrks = 1, gdrom_le = False,
       tracks = replicate 100 ((sample_track CD_TRACK_AUDIO 0)\<lparr>datasize := 2352\<rparr>)\<rparr>,
     image_of = Chd (\<lambda>ofs n. (map (\<lambda>i. of_nat i) [0..<n], True))\<rparr>"

lemma sample_drive_wf: "drive_wf (Some sample_audio_disc)"
  by (simp add: drive_wf_def disc_wf_def sample_audio_disc_def track_of_def sample_track_def)

lemma cdda_plays_blocks_witness:
  "\<exists>xs a'. get_audio_data (Some sample_audio_disc) 0 600 (start_audio 400 1 cdda_start) = Some (xs, a') \<and>
     length xs = 588 \<and> audio_ended a'"
proof -
  have "cdda_wf cdda_start" "a_sequence cdda_start = 0" "\<not> a_scan cdda_start"
    by (simp_all add: cdda_start_def cdda_wf_def)
  then show ?thesis
    using cdda_plays_blocks [OF sample_drive_wf, of cdda_start 0 1 600 400] by auto
qed

lemma feed_outside: "length c < 2 * b + 4 * n \<Longrightarrow> even (length c) \<Longrightarrow> 2 * b \<le> length c \<Longrightarrow> feed c b n = None"
proof (induction n arbitrary: b)
  case (Suc n)
  show ?case
  proof (cases "2 * (b + 2) \<le> length c")
    case True
    then have "feed c (b + 2) n = None" using Suc by simp
    then show ?thesis by (simp split: option.split)
  next
    case False
    then have "cache_word c (b + 1) = None" using Suc.prems(2) by (auto simp: cache_word_def elim!: evenE)
    then show ?thesis by (simp split: option.split)
  qed
qed simp

text \<open>
  A play request whose end lies two sectors before its start has a negative length. The stream
  then takes a sample count close to two to the thirtieth without loading anything, and as soon
  as more samples are asked for than the cache holds it reads outside the cache.
\<close>
lemma negative_length_reads_outside:
  assumes "dr \<noteq> None" "length (a_cache a) = 9408" "a_sequence a = seq" "2352 < k" "k < 2 ^ 30 - 588"
  shows "get_audio_data dr seq k (start_audio s (- 1) a) = None"
proof -
  define A where "A = start_audio s (- 1) a"
  have A: "a_playing A" "\<not> a_pause A" "a_length A = - 1" "a_samples A = 0" "a_sequence A = seq"
    "length (a_cache A) = 9408"
    using assms by (simp_all add: A_def start_audio_def)
  have c: "consume dr 0 A = A\<lparr>a_bptr := 0, a_samples := 1073741236, a_length := 0\<rparr>"
    using A by (simp add: consume_def refill_def refill_sectors_def Let_def)
  have f: "feed (a_cache A) 0 k = None" using assms(4) A(6) by (intro feed_outside) auto
  have "audio_loop (Suc (2 * k)) dr seq k (consume dr 0 A) = None"
    using assms A f by (simp add: drive_exists_def c Let_def)
  then have "audio_loop (Suc (Suc (2 * k))) dr seq k A = None"
    using assms A by (subst audio_loop.simps) (simp add: drive_exists_def Let_def del: audio_loop.simps)
  then show ?thesis by (simp only: get_audio_data_def A_def add_2_eq_Suc')
qed

lemma negative_length_reads_outside_witness:
  "get_audio_data (Some sample_audio_disc) 0 2353 (start_audio 400 (- 1) cdda_start) = None"
  using negative_length_reads_outside [of "Some sample_audio_disc" cdda_start 0 2353 400]
  by (simp add: cdda_start_def)

end
