(* ===== verification/Upd71071.thy ===== *)
theory Upd71071
  imports Byte_Store
begin

text \<open>
  The uPD71071 DMA controller, \<open>src/devices/machine/upd71071.cpp\<close>: its register file with base and
  current address and count per channel, the request input, the one-shot transfer timer and the
  single transfer it performs in each direction, and the lemmas that a programmed channel moves
  exactly the bytes it was programmed for. \<open>m_out_eop_cb\<close> and \<open>m_out_hreq_cb\<close> are levels of the
  state: the Towns leaves both outputs unconnected.
\<close>

unbundle bit_operations_syntax

subsection \<open>State\<close>

text \<open>
  The per-channel arrays of \<open>m_reg\<close> are functions of the channel number, which every access of
  the source keeps below four. \<open>d_timer ch\<close> says that the one-shot transfer timer of a channel
  is armed.
\<close>

record dma =
  d_count_current :: "nat \<Rightarrow> u16"
  d_count_base :: "nat \<Rightarrow> u16"
  d_address_current :: "nat \<Rightarrow> u32"
  d_address_base :: "nat \<Rightarrow> u32"
  d_device_control :: u16
  d_mode_control :: "nat \<Rightarrow> u8"
  d_status :: u8
  d_temp_l :: u8
  d_temp_h :: u8
  d_request :: u8
  d_mask :: u8
  d_channel :: nat        \<comment> \<open>\<open>m_selected_channel\<close>\<close>
  d_buswidth :: bool
  d_dmarq :: "nat \<Rightarrow> bool"
  d_base :: bool
  d_timer :: "nat \<Rightarrow> bool"
  d_hreq :: bool
  d_eop :: bool

text \<open>\<open>device_start\<close> sets only these fields; the others keep what the allocation left.\<close>

definition dma_start :: "dma \<Rightarrow> dma" where
  "dma_start d = d\<lparr>d_timer := \<lambda>_. False, d_channel := 0, d_device_control := 0, d_mask := 0x0f,
     d_address_current := \<lambda>_. 0, d_count_current := \<lambda>_. 0, d_mode_control := \<lambda>_. 0\<rparr>"

text \<open>
  What the controller is wired to: the device callbacks of each channel (they run inside the
  transfer, and may call back into the controller, so they act on it too) and the address space
  of the CPU, absent when no CPU tag is set.
\<close>

record 'e dma_env =
  e_dev_read :: "nat \<Rightarrow> (dma \<Rightarrow> 'e \<Rightarrow> u16 \<times> dma \<times> 'e) option"
  e_dev_write :: "nat \<Rightarrow> u16 \<Rightarrow> dma \<Rightarrow> 'e \<Rightarrow> dma \<times> 'e"
  e_cpu :: bool
  e_mem_read :: "u32 \<Rightarrow> 'e \<Rightarrow> u8 \<times> 'e"
  e_mem_write :: "u32 \<Rightarrow> u8 \<Rightarrow> 'e \<Rightarrow> 'e"

subsection \<open>Output lines\<close>

definition set_hreq :: "bool \<Rightarrow> dma \<Rightarrow> dma" where
  "set_hreq state d = (if d_hreq d \<noteq> state then d\<lparr>d_hreq := state\<rparr> else d)"

definition set_eop :: "bool \<Rightarrow> dma \<Rightarrow> dma" where
  "set_eop state d = (if d_eop d \<noteq> state then d\<lparr>d_eop := state\<rparr> else d)"

subsection \<open>One transfer\<close>

definition chan_bit :: "u8 \<Rightarrow> nat \<Rightarrow> u8" where
  "chan_bit b ch = push_bit ch b"

text \<open>The part both directions share: step the address, count down, handle the terminal count.\<close>

definition dma_advance :: "nat \<Rightarrow> dma \<Rightarrow> dma" where
  "dma_advance ch d =
     (let a = d_address_current d ch;
          d1 = d\<lparr>d_address_current := (d_address_current d)(ch :=
                   (if tst (d_mode_control d ch) 0x20 then a - 1 else a + 1)),
                 d_count_current := (d_count_current d)(ch := d_count_current d ch - 1)\<rparr>
      in if d_count_current d1 ch = 0xffff then
           let d2 = (if tst (d_mode_control d1 ch) 0x10
                     then d1\<lparr>d_address_current := (d_address_current d1)(ch := d_address_base d1 ch),
                             d_count_current := (d_count_current d1)(ch := d_count_base d1 ch)\<rparr>
                     else d1\<lparr>d_timer := (d_timer d1)(ch := False),
                             d_mask := d_mask d1 OR chan_bit 0x01 ch\<rparr>);
               d3 = set_eop True d2
           in d3\<lparr>d_status := d_status d3 OR chan_bit 0x01 ch\<rparr>
         else d1)"

definition dma_transfer_timer :: "'e dma_env \<Rightarrow> nat \<Rightarrow> dma \<times> 'e \<Rightarrow> dma \<times> 'e" where
  "dma_transfer_timer env ch de =
     (let (d, e) = de; op = d_mode_control d ch AND 0x0c
      in if op = 0x04 then
           let (data, d1, e1) = (case e_dev_read env ch of Some f \<Rightarrow> f d e | None \<Rightarrow> (0, d, e));
               e2 = (if e_cpu env then e_mem_write env (d_address_current d1 ch) (lo8 data) e1 else e1)
           in (dma_advance ch d1, e2)
         else if op = 0x08 then
           let (data, e1) = (if e_cpu env then
                               (let (b, e') = e_mem_read env (d_address_current d ch) e in (ucast b, e'))
                             else (0, e));
               (d1, e2) = e_dev_write env ch data d e1
           in (dma_advance ch d1, e2)
         else (d, e))"

subsection \<open>Requests\<close>

definition soft_reset :: "dma \<Rightarrow> dma" where
  "soft_reset d = d\<lparr>d_channel := 0, d_base := False, d_mode_control := \<lambda>_. 0,
     d_device_control := 0, d_temp_h := 0, d_temp_l := 0, d_mask := 0x0f,
     d_status := d_status d AND NOT 0x0f, d_request := 0\<rparr>"

definition dmarq :: "bool \<Rightarrow> nat \<Rightarrow> dma \<Rightarrow> int \<times> dma" where
  "dmarq state ch d =
     (if state then
        if tst (d_device_control d) 0x0004 then (2, d)
        else if tst (d_mask d) (chan_bit 1 ch) then (1, d)
        else
          let d1 = d\<lparr>d_dmarq := (d_dmarq d)(ch := True), d_status := d_status d OR chan_bit 0x10 ch\<rparr>;
              m = d_mode_control d1 ch AND 0xc0
          in (0, if m = 0x00 then
                   let d2 = set_eop False d1 in d2\<lparr>d_timer := (d_timer d2)(ch := True)\<rparr>
                 else if m = 0x40 then d1\<lparr>d_timer := (d_timer d1)(ch := True)\<rparr>
                 else d1)
      else (0, d\<lparr>d_dmarq := (d_dmarq d)(ch := False),
                 d_status := d_status d AND NOT (chan_bit 0x10 ch),
                 d_timer := (d_timer d)(ch := False)\<rparr>))"

text \<open>
  The timer of a channel expiring: it is a one-shot, so the scheduler disarms it and then runs the
  callback. One request together with the transfer it starts is a cycle.
\<close>

definition dma_fire :: "'e dma_env \<Rightarrow> nat \<Rightarrow> dma \<times> 'e \<Rightarrow> dma \<times> 'e" where
  "dma_fire env ch de =
     (let (d, e) = de
      in if d_timer d ch
         then dma_transfer_timer env ch (d\<lparr>d_timer := (d_timer d)(ch := False)\<rparr>, e)
         else de)"

definition dma_cycle :: "'e dma_env \<Rightarrow> nat \<Rightarrow> dma \<times> 'e \<Rightarrow> dma \<times> 'e" where
  "dma_cycle env ch de = (let (d, e) = de in dma_fire env ch (snd (dmarq True ch d), e))"

text \<open>A device that raises its request, waits for the transfer and releases the request again.\<close>

definition dma_turn :: "'e dma_env \<Rightarrow> nat \<Rightarrow> dma \<times> 'e \<Rightarrow> dma \<times> 'e" where
  "dma_turn env ch de = (let (d, e) = dma_cycle env ch de in (snd (dmarq False ch d), e))"

subsection \<open>Registers\<close>

definition sel_count :: "dma \<Rightarrow> u16" where
  "sel_count d = (if d_base d then d_count_base d (d_channel d) else d_count_current d (d_channel d))"

definition sel_address :: "dma \<Rightarrow> u32" where
  "sel_address d =
     (if d_base d then d_address_base d (d_channel d) else d_address_current d (d_channel d))"

definition dma_read :: "nat \<Rightarrow> dma \<Rightarrow> u8 \<times> dma" where
  "dma_read offset d =
     (if offset = 0x01 then (chan_bit 1 (d_channel d) OR (if d_base d then 0x10 else 0), d)
      else if offset = 0x02 then (lo8 (sel_count d), d)
      else if offset = 0x03 then (hi8 (sel_count d), d)
      else if offset = 0x04 then (byte32 0 (sel_address d), d)
      else if offset = 0x05 then (byte32 1 (sel_address d), d)
      else if offset = 0x06 then (byte32 2 (sel_address d), d)
      else if offset = 0x07 then (byte32 3 (sel_address d), d)
      else if offset = 0x08 then (lo8 (d_device_control d), d)
      else if offset = 0x09 then (hi8 (d_device_control d), d)
      else if offset = 0x0a then (d_mode_control d (d_channel d), d)
      else if offset = 0x0b then (d_status d, d\<lparr>d_status := d_status d AND NOT 0x0f\<rparr>)
      else if offset = 0x0c then (d_temp_h d, d)
      else if offset = 0x0d then (d_temp_l d, d)
      else if offset = 0x0e then (d_request d, d)
      else if offset = 0x0f then (d_mask d, d)
      else (0, d))"

definition upd_count :: "(u16 \<Rightarrow> u16) \<Rightarrow> dma \<Rightarrow> dma" where
  "upd_count f d =
     (let ch = d_channel d
      in d\<lparr>d_count_base := (d_count_base d)(ch := f (d_count_base d ch)),
           d_count_current := (if d_base d then d_count_current d
                               else (d_count_current d)(ch := f (d_count_current d ch)))\<rparr>)"

definition upd_address :: "(u32 \<Rightarrow> u32) \<Rightarrow> dma \<Rightarrow> dma" where
  "upd_address f d =
     (let ch = d_channel d
      in d\<lparr>d_address_base := (d_address_base d)(ch := f (d_address_base d ch)),
           d_address_current := (if d_base d then d_address_current d
                                 else (d_address_current d)(ch := f (d_address_current d ch)))\<rparr>)"

definition dma_write :: "nat \<Rightarrow> u8 \<Rightarrow> dma \<Rightarrow> dma" where
  "dma_write offset data d =
     (if offset = 0x00 then
        let d1 = d\<lparr>d_buswidth := tst data 0x02\<rparr> in if tst data 0x01 then soft_reset d1 else d1
      else if offset = 0x01 then
        d\<lparr>d_channel := unat (data AND 0x03), d_base := tst data 0x04\<rparr>
      else if offset = 0x02 then upd_count (\<lambda>c. set_lo8 c data) d
      else if offset = 0x03 then upd_count (\<lambda>c. set_hi8 c data) d
      else if offset = 0x04 then upd_address (\<lambda>a. set_byte32 0 a data) d
      else if offset = 0x05 then upd_address (\<lambda>a. set_byte32 1 a data) d
      else if offset = 0x06 then upd_address (\<lambda>a. set_byte32 2 a data) d
      else if offset = 0x07 then upd_address (\<lambda>a. set_byte32 3 a data) d
      else if offset = 0x08 then d\<lparr>d_device_control := set_lo8 (d_device_control d) data\<rparr>
      else if offset = 0x09 then d\<lparr>d_device_control := set_hi8 (d_device_control d) data\<rparr>
      else if offset = 0x0a then
        d\<lparr>d_mode_control := (d_mode_control d)(d_channel d := data)\<rparr>
      else if offset = 0x0e then d\<lparr>d_request := data\<rparr>
      else if offset = 0x0f then d\<lparr>d_mask := data\<rparr>
      else d)"

subsection \<open>Lemmas on single transfers\<close>

text \<open>A channel that will answer a request with a transfer.\<close>

definition dma_ready :: "nat \<Rightarrow> dma \<Rightarrow> bool" where
  "dma_ready ch d = (\<not> tst (d_device_control d) 0x0004 \<and> \<not> tst (d_mask d) (chan_bit 1 ch) \<and>
     (d_mode_control d ch AND 0xc0 = 0x00 \<or> d_mode_control d ch AND 0xc0 = 0x40))"

text \<open>The controller at the moment the transfer callback starts.\<close>

definition dma_started :: "nat \<Rightarrow> dma \<Rightarrow> dma" where
  "dma_started ch d =
     (let d1 = snd (dmarq True ch d) in d1\<lparr>d_timer := (d_timer d1)(ch := False)\<rparr>)"

lemma set_eop_frame [simp]:
  "d_count_current (set_eop s d) = d_count_current d" "d_count_base (set_eop s d) = d_count_base d"
  "d_address_current (set_eop s d) = d_address_current d"
  "d_address_base (set_eop s d) = d_address_base d" "d_status (set_eop s d) = d_status d"
  "d_mode_control (set_eop s d) = d_mode_control d" "d_mask (set_eop s d) = d_mask d"
  "d_device_control (set_eop s d) = d_device_control d" "d_timer (set_eop s d) = d_timer d"
  "d_channel (set_eop s d) = d_channel d" "d_base (set_eop s d) = d_base d"
  "d_dmarq (set_eop s d) = d_dmarq d" "d_request (set_eop s d) = d_request d"
  "d_eop (set_eop s d) = s"
  by (simp_all add: set_eop_def)

lemma dma_started_frame [simp]:
  "d_count_current (dma_started ch d) = d_count_current d"
  "d_count_base (dma_started ch d) = d_count_base d"
  "d_address_current (dma_started ch d) = d_address_current d"
  "d_address_base (dma_started ch d) = d_address_base d"
  "d_mode_control (dma_started ch d) = d_mode_control d"
  "d_device_control (dma_started ch d) = d_device_control d"
  "d_mask (dma_started ch d) = d_mask d"
  by (simp_all add: dma_started_def dmarq_def Let_def)

lemma dma_started_timer: "d_timer (dma_started ch d) = (d_timer d)(ch := False)"
  by (simp add: dma_started_def dmarq_def Let_def)

lemma dma_cycle_ready:
  "dma_ready ch d \<Longrightarrow> dma_cycle env ch (d, e) = dma_transfer_timer env ch (dma_started ch d, e)"
  by (auto simp: dma_ready_def dma_cycle_def dma_fire_def dma_started_def dmarq_def Let_def)

abbreviation released :: "nat \<Rightarrow> dma \<Rightarrow> dma" where
  "released ch d \<equiv> snd (dmarq False ch d)"

lemma released_frame [simp]:
  "d_count_current (released ch d) = d_count_current d" "d_count_base (released ch d) = d_count_base d"
  "d_address_current (released ch d) = d_address_current d"
  "d_address_base (released ch d) = d_address_base d" "d_mode_control (released ch d) = d_mode_control d"
  "d_device_control (released ch d) = d_device_control d" "d_mask (released ch d) = d_mask d"
  "d_eop (released ch d) = d_eop d" "d_timer (released ch d) ch = False"
  "d_status (released ch d) = d_status d AND NOT (chan_bit 0x10 ch)"
  "released ch (released ch d) = released ch d"
  by (simp_all add: dmarq_def and.assoc)

lemma dma_cycle_refused:
  assumes "\<not> d_timer d ch" "tst (d_device_control d) 0x0004 \<or> tst (d_mask d) (chan_bit 1 ch)"
  shows "dma_cycle env ch (d, e) = (d, e)"
  using assms by (auto simp: dma_cycle_def dma_fire_def dmarq_def Let_def)

lemma count_wraps [simp]: "(c - 1 = (0xffff :: u16)) = (c = 0)"
proof
  assume "c - 1 = (0xffff :: u16)"
  then have "c - 1 + 1 = (0xffff :: u16) + 1" by simp
  then show "c = 0" by simp
qed simp

lemma dma_advance_more:
  "d_count_current d ch \<noteq> 0 \<Longrightarrow> \<not> tst (d_mode_control d ch) 0x20 \<Longrightarrow>
   dma_advance ch d = d\<lparr>d_address_current := (d_address_current d)(ch := d_address_current d ch + 1),
     d_count_current := (d_count_current d)(ch := d_count_current d ch - 1)\<rparr>"
  by (simp add: dma_advance_def)

lemma dma_advance_tc:
  assumes "d_count_current d ch = 0" "\<not> tst (d_mode_control d ch) 0x10"
  shows "\<not> d_timer (dma_advance ch d) ch" "d_mask (dma_advance ch d) = d_mask d OR chan_bit 1 ch"
    "d_eop (dma_advance ch d)" "d_status (dma_advance ch d) = d_status d OR chan_bit 1 ch"
    "d_count_current (dma_advance ch d) ch = 0xffff"
  using assms by (simp_all add: dma_advance_def Let_def)

lemma dma_advance_auto:
  assumes "d_count_current d ch = 0" "tst (d_mode_control d ch) 0x10"
  shows "d_mask (dma_advance ch d) = d_mask d"
    "d_address_current (dma_advance ch d) ch = d_address_base d ch"
    "d_count_current (dma_advance ch d) ch = d_count_base d ch"
    "d_eop (dma_advance ch d)" "d_status (dma_advance ch d) = d_status d OR chan_bit 1 ch"
  using assms by (simp_all add: dma_advance_def Let_def)

lemma chan_bit_set [simp]: "ch < 4 \<Longrightarrow> (m OR chan_bit 1 ch) AND chan_bit 1 ch \<noteq> 0"
  by (simp add: chan_bit_def bit_or_iff)

lemma bit_chan_10: "ch < 4 \<Longrightarrow> bit (chan_bit 0x10 ch) i = (i = 4 + ch)"
proof -
  assume "ch < 4"
  moreover have "push_bit ch (0x10 :: u8) = irq_mask (4 + ch)"
    by (simp add: irq_mask_def push_bit_eq_mult power_add)
  ultimately show ?thesis by (auto simp: chan_bit_def bit_irq_mask)
qed

lemma bit_chan_1: "ch < 4 \<Longrightarrow> bit (chan_bit 1 ch) i = (i = ch)"
  by (auto simp: chan_bit_def bit_simps)

lemma terminal_count_stays [simp]:
  assumes "ch < 4"
  shows "((x OR chan_bit 1 ch) AND NOT (chan_bit 0x10 ch)) AND chan_bit 1 ch \<noteq> 0"
proof -
  have "bit ((x OR chan_bit 1 ch) AND NOT (chan_bit 0x10 ch)) ch"
    using assms by (simp add: bit_simps bit_chan_1 bit_chan_10)
  moreover have "chan_bit 1 ch = irq_mask ch" by (simp add: chan_bit_def irq_mask_def)
  ultimately show ?thesis by (simp only: tst_irq_mask not_not)
qed

lemma chan_bit_nonzero [simp]: "ch < 4 \<Longrightarrow> chan_bit 1 ch \<noteq> 0"
  by (simp add: chan_bit_def)

lemma dma_ready_started [simp]: "dma_ready ch (dma_started ch d) = dma_ready ch d"
  by (simp add: dma_ready_def)

subsection \<open>A device feeding a channel\<close>

text \<open>The \<open>k\<close>-th byte of the stream that a source delivers.\<close>

definition datum :: "('e \<Rightarrow> u16 \<times> 'e) \<Rightarrow> 'e \<Rightarrow> nat \<Rightarrow> u8" where
  "datum pop e k = lo8 (fst (pop (((\<lambda>e. snd (pop e)) ^^ k) e)))"

text \<open>A ready channel programmed from I/O to ascending memory.\<close>

definition in_to_mem :: "nat \<Rightarrow> dma \<Rightarrow> bool" where
  "in_to_mem ch d = (dma_ready ch d \<and> d_mode_control d ch AND 0x0c = 0x04 \<and>
     \<not> tst (d_mode_control d ch) 0x20)"

text \<open>The address counts in all 32 bits: past the end of a 16M bank it carries into the external byte.\<close>

lemma dma_carries_into_top_byte:
  "d_address_current d ch = 0x00ffffff \<Longrightarrow> \<not> tst (d_mode_control d ch) 0x20 \<Longrightarrow> d_count_current d ch \<noteq> 0 \<Longrightarrow>
     d_address_current (dma_advance ch d) ch = 0x01000000"
  by (auto simp: dma_advance_def Let_def)

text \<open>The memory after \<open>k\<close> data have been stored from address \<open>a\<close> on.\<close>

definition stored :: "u32 \<Rightarrow> nat \<Rightarrow> (nat \<Rightarrow> u8) \<Rightarrow> (u32 \<Rightarrow> u8) \<Rightarrow> u32 \<Rightarrow> u8" where
  "stored a k f m x = (if unat (x - a) < k then f (unat (x - a)) else m x)"

lemma stored_0 [simp]: "stored a 0 f m = m"
  by (rule ext) (simp add: stored_def)

lemma stored_Suc:
  assumes "k < 2 ^ 32"
  shows "stored a (Suc k) f m = (stored a k f m)(a + of_nat k := f k)"
proof
  fix x
  have "unat (x - a) = k \<longleftrightarrow> x = a + of_nat k"
  proof
    assume "unat (x - a) = k"
    then have "x - a = of_nat k" by auto
    then show "x = a + of_nat k" by (simp add: algebra_simps)
  next
    assume "x = a + of_nat k"
    then show "unat (x - a) = k" using assms by (simp add: unat_of_nat)
  qed
  then show "stored a (Suc k) f m x = ((stored a k f m)(a + of_nat k := f k)) x"
    by (auto simp: stored_def less_Suc_eq)
qed

text \<open>
  What a device promises that is read by a channel into memory: its callback delivers the next
  datum of a stream and leaves the controller alone, and neither the callback nor the memory
  writes disturb the other's part of the environment.
\<close>

locale dma_source =
  fixes env :: "'e dma_env"
    and ch :: nat
    and pop :: "'e \<Rightarrow> u16 \<times> 'e"
    and mem :: "'e \<Rightarrow> u32 \<Rightarrow> u8"
  assumes chan: "ch < 4"
    and cpu: "e_cpu env"
    and dev_read: "e_dev_read env ch = Some (\<lambda>d e. (fst (pop e), d, snd (pop e)))"
    and mem_write: "mem (e_mem_write env a x e) = (mem e)(a := x)"
    and mem_pop: "mem (snd (pop e)) = mem e"
    and pop_write: "pop (e_mem_write env a x e) = (fst (pop e), e_mem_write env a x (snd (pop e)))"
begin

lemma datum_write: "datum pop (e_mem_write env a x e) k = datum pop e k"
proof -
  have "((\<lambda>e. snd (pop e)) ^^ k) (e_mem_write env a x e) = e_mem_write env a x (((\<lambda>e. snd (pop e)) ^^ k) e)"
    by (induction k) (simp_all add: pop_write)
  then show ?thesis by (simp add: datum_def pop_write)
qed

lemma datum_pop: "datum pop (snd (pop e)) k = datum pop e (Suc k)"
  by (simp only: datum_def funpow_Suc_right o_def)

lemma turn:
  assumes "in_to_mem ch d"
  shows "dma_turn env ch (d, e) = (released ch (dma_advance ch (dma_started ch d)),
    e_mem_write env (d_address_current d ch) (datum pop e 0) (snd (pop e)))"
  using assms
  by (simp add: in_to_mem_def dma_turn_def dma_cycle_ready dma_transfer_timer_def dev_read cpu datum_def Let_def)

lemma turn_more:
  assumes "in_to_mem ch d" "d_count_current d ch \<noteq> 0" "dma_turn env ch (d, e) = (d', e')"
  shows "in_to_mem ch d'" "d_address_current d' ch = d_address_current d ch + 1"
    "d_count_current d' ch = d_count_current d ch - 1" "d_mode_control d' = d_mode_control d"
    "d_address_base d' = d_address_base d" "d_count_base d' = d_count_base d"
    "mem e' = (mem e)(d_address_current d ch := datum pop e 0)" "datum pop e' k = datum pop e (Suc k)"
proof -
  have d': "d' = released ch (dma_advance ch (dma_started ch d))"
    and e': "e' = e_mem_write env (d_address_current d ch) (datum pop e 0) (snd (pop e))"
    using assms(3) by (simp_all add: turn [OF assms(1)])
  have "d' = released ch ((dma_started ch d)\<lparr>
     d_address_current := (d_address_current d)(ch := d_address_current d ch + 1),
     d_count_current := (d_count_current d)(ch := d_count_current d ch - 1)\<rparr>)"
    using assms(1,2) unfolding d' by (subst dma_advance_more) (simp_all add: in_to_mem_def)
  with assms(1) show "in_to_mem ch d'" "d_address_current d' ch = d_address_current d ch + 1"
    "d_count_current d' ch = d_count_current d ch - 1" "d_mode_control d' = d_mode_control d"
    "d_address_base d' = d_address_base d" "d_count_base d' = d_count_base d"
    by (simp_all add: in_to_mem_def dma_ready_def)
  show "mem e' = (mem e)(d_address_current d ch := datum pop e 0)" "datum pop e' k = datum pop e (Suc k)"
    by (simp_all add: e' mem_write mem_pop datum_write datum_pop)
qed

lemma turns_before_tc:
  assumes "in_to_mem ch d" "k \<le> unat (d_count_current d ch)" "(dma_turn env ch ^^ k) (d, e) = (d', e')"
  shows "in_to_mem ch d' \<and> d_address_current d' ch = d_address_current d ch + of_nat k \<and>
    d_count_current d' ch = d_count_current d ch - of_nat k \<and>
    d_mode_control d' = d_mode_control d \<and> d_address_base d' = d_address_base d \<and>
    d_count_base d' = d_count_base d \<and>
    mem e' = stored (d_address_current d ch) k (datum pop e) (mem e) \<and> (\<forall>j. datum pop e' j = datum pop e (k + j))"
  using assms
proof (induction k arbitrary: d' e')
  case 0
  then show ?case by simp
next
  case (Suc k)
  obtain d1 e1 where s: "(dma_turn env ch ^^ k) (d, e) = (d1, e1)" by (cases "(dma_turn env ch ^^ k) (d, e)")
  have k: "k < 2 ^ 16" using Suc.prems(2) unat_u16_less [of "d_count_current d ch"] by (simp del: unat_u16_less)
  note IH = Suc.IH [OF Suc.prems(1) _ s]
  have step: "dma_turn env ch (d1, e1) = (d', e')" using Suc.prems(3) s by simp
  have c1: "d_count_current d1 ch = d_count_current d ch - of_nat k" using IH Suc.prems(2) by simp
  have "of_nat k \<noteq> d_count_current d ch"
  proof
    assume "of_nat k = d_count_current d ch"
    then have "unat (of_nat k :: u16) = unat (d_count_current d ch)" by simp
    then show False using k Suc.prems(2) by (simp add: unat_of_nat)
  qed
  then have "d_count_current d1 ch \<noteq> 0" using c1 by auto
  note more = turn_more [OF _ this step]
  have "k < 2 ^ 32" using k by simp
  moreover have "d_count_current d1 ch - 1 = d_count_current d ch - of_nat (Suc k)" by (simp add: c1)
  ultimately show ?case
    using IH Suc.prems(2) more by (auto simp: stored_Suc add.commute add.left_commute)
qed

text \<open>The whole block, without auto-initialise: any number of requests moves exactly the block.\<close>

lemma block_done:
  assumes "in_to_mem ch d" "\<not> tst (d_mode_control d ch) 0x10"
    and "(dma_turn env ch ^^ Suc (unat (d_count_current d ch))) (d, e) = (d', e')"
  shows "mem e' = stored (d_address_current d ch) (Suc (unat (d_count_current d ch))) (datum pop e) (mem e)
    \<and> tst (d_status d') (chan_bit 1 ch) \<and> tst (d_mask d') (chan_bit 1 ch) \<and> d_eop d' \<and> \<not> d_timer d' ch
    \<and> released ch d' = d'"
proof -
  let ?n = "unat (d_count_current d ch)"
  obtain d1 e1 where s: "(dma_turn env ch ^^ ?n) (d, e) = (d1, e1)" by (cases "(dma_turn env ch ^^ ?n) (d, e)")
  note B = turns_before_tc [OF assms(1) le_refl s]
  then have i: "in_to_mem ch d1" and c: "d_count_current d1 ch = 0"
    and m: "\<not> tst (d_mode_control d1 ch) 0x10" using assms(2) by simp_all
  have "dma_turn env ch (d1, e1) = (d', e')" using assms(3) s by simp
  then have d': "d' = released ch (dma_advance ch (dma_started ch d1))"
    and e': "e' = e_mem_write env (d_address_current d1 ch) (datum pop e1 0) (snd (pop e1))"
    by (simp_all add: turn [OF i])
  have n: "?n < 2 ^ 32" by (rule less_trans [OF unat_u16_less]) simp
  have "mem e' = (stored (d_address_current d ch) ?n (datum pop e) (mem e))(d_address_current d ch + of_nat ?n := datum pop e ?n)"
    using B by (simp add: e' mem_write mem_pop)
  then have "mem e' = stored (d_address_current d ch) (Suc ?n) (datum pop e) (mem e)"
    by (simp only: stored_Suc [OF n])
  then show ?thesis
    using dma_advance_tc [of "dma_started ch d1" ch] c m chan by (simp add: d')
qed

lemma block_stays_done:
  assumes "in_to_mem ch d" "\<not> tst (d_mode_control d ch) 0x10"
    and "(dma_turn env ch ^^ Suc (unat (d_count_current d ch))) (d, e) = (d', e')"
  shows "(dma_turn env ch ^^ (Suc (unat (d_count_current d ch)) + k)) (d, e) = (d', e')"
proof (induction k)
  case 0
  show ?case using assms(3) by simp
next
  case (Suc k)
  have "dma_turn env ch (d', e') = (d', e')"
    using block_done [OF assms] by (simp add: dma_turn_def dma_cycle_refused)
  with Suc show ?case by simp
qed

text \<open>With auto-initialise the channel is back at its base registers and stays enabled.\<close>

lemma block_auto:
  assumes "in_to_mem ch d" "tst (d_mode_control d ch) 0x10"
    and "(dma_turn env ch ^^ Suc (unat (d_count_current d ch))) (d, e) = (d', e')"
  shows "mem e' = stored (d_address_current d ch) (Suc (unat (d_count_current d ch))) (datum pop e) (mem e)
    \<and> in_to_mem ch d' \<and> d_address_current d' ch = d_address_base d ch \<and>
    d_count_current d' ch = d_count_base d ch \<and> tst (d_status d') (chan_bit 1 ch)"
proof -
  let ?n = "unat (d_count_current d ch)"
  obtain d1 e1 where s: "(dma_turn env ch ^^ ?n) (d, e) = (d1, e1)" by (cases "(dma_turn env ch ^^ ?n) (d, e)")
  note B = turns_before_tc [OF assms(1) le_refl s]
  then have i: "in_to_mem ch d1" and c: "d_count_current d1 ch = 0"
    and m: "tst (d_mode_control d1 ch) 0x10" using assms(2) by simp_all
  have "dma_turn env ch (d1, e1) = (d', e')" using assms(3) s by simp
  then have d': "d' = released ch (dma_advance ch (dma_started ch d1))"
    and e': "e' = e_mem_write env (d_address_current d1 ch) (datum pop e1 0) (snd (pop e1))"
    by (simp_all add: turn [OF i])
  have n: "?n < 2 ^ 32" by (rule less_trans [OF unat_u16_less]) simp
  have "mem e' = (stored (d_address_current d ch) ?n (datum pop e) (mem e))(d_address_current d ch + of_nat ?n := datum pop e ?n)"
    using B by (simp add: e' mem_write mem_pop)
  then have "mem e' = stored (d_address_current d ch) (Suc ?n) (datum pop e) (mem e)"
    by (simp only: stored_Suc [OF n])
  moreover have "in_to_mem ch d'"
    using i m c by (simp add: d' in_to_mem_def dma_ready_def dma_advance_def Let_def)
  ultimately show ?thesis
    using dma_advance_auto [of "dma_started ch d1" ch] c m chan B by (simp add: d')
qed

end

subsection \<open>Properties of the controller\<close>

text \<open>Programming a channel the way the drivers do: select, mode, count, address.\<close>

definition dma_select :: "nat \<Rightarrow> bool \<Rightarrow> dma \<Rightarrow> dma" where
  "dma_select ch base d = dma_write 0x01 (of_nat ch OR (if base then 0x04 else 0)) d"

definition dma_program :: "nat \<Rightarrow> u8 \<Rightarrow> u16 \<Rightarrow> u32 \<Rightarrow> dma \<Rightarrow> dma" where
  "dma_program ch mode c a d =
     fold (\<lambda>(r, x). dma_write r x)
       [(0x0a, mode), (0x02, lo8 c), (0x03, hi8 c),
        (0x04, byte32 0 a), (0x05, byte32 1 a), (0x06, byte32 2 a), (0x07, byte32 3 a)]
       (dma_select ch False d)"

definition dma_regs :: "nat \<Rightarrow> bool \<Rightarrow> dma \<Rightarrow> u8 list" where
  "dma_regs ch base d = map (\<lambda>r. fst (dma_read r (dma_select ch base d))) [0x0a, 0x02, 0x03, 0x04, 0x05, 0x06, 0x07]"

lemma chan_code:
  assumes "ch < 4"
  shows "unat ((of_nat ch OR (if base then 0x04 else 0)) AND 0x03 :: u8) = ch"
    "tst (of_nat ch OR (if base then 0x04 else 0)) (0x04 :: u8) = base"
proof -
  have "ch = 0 \<or> ch = 1 \<or> ch = 2 \<or> ch = 3" using assms by arith
  then show "unat ((of_nat ch OR (if base then 0x04 else 0)) AND 0x03 :: u8) = ch"
    "tst (of_nat ch OR (if base then 0x04 else 0)) (0x04 :: u8) = base"
    by (elim disjE; cases base; simp)+
qed

lemma dma_select_eq: "ch < 4 \<Longrightarrow> dma_select ch base d = d\<lparr>d_channel := ch, d_base := base\<rparr>"
  by (simp add: dma_select_def dma_write_def chan_code del: tst_exp)

lemma set_lo_hi: "set_hi8 (set_lo8 w (lo8 c)) (hi8 c) = c"
  by (rule u16_eqI) simp_all

lemma set_bytes32:
  "set_byte32 3 (set_byte32 2 (set_byte32 (Suc 0) (set_byte32 0 w (byte32 0 a)) (byte32 (Suc 0) a)) (byte32 2 a)) (byte32 3 a) = a"
proof (rule u32_eqI)
  fix k :: nat assume "k < 4"
  then have "k = 0 \<or> k = Suc 0 \<or> k = 2 \<or> k = 3" by arith
  then show "byte32 k (set_byte32 3 (set_byte32 2 (set_byte32 (Suc 0) (set_byte32 0 w (byte32 0 a))
      (byte32 (Suc 0) a)) (byte32 2 a)) (byte32 3 a)) = byte32 k a"
    by (elim disjE) simp_all
qed

lemma dma_program_eq:
  assumes "ch < 4"
  shows "dma_program ch mode c a d = d\<lparr>d_channel := ch, d_base := False,
    d_mode_control := (d_mode_control d)(ch := mode),
    d_count_base := (d_count_base d)(ch := c), d_count_current := (d_count_current d)(ch :=
       set_hi8 (set_lo8 (d_count_current d ch) (lo8 c)) (hi8 c)),
    d_address_base := (d_address_base d)(ch := a), d_address_current := (d_address_current d)(ch := a)\<rparr>"
  using assms
  by (simp add: dma_program_def dma_select_eq dma_write_def upd_count_def upd_address_def Let_def
      set_lo_hi set_bytes32)

text \<open>
  C12: programming a channel through the byte-wide registers sets its mode, its base and current
  count and its base and current address, disturbs no other channel, and reads back the bytes
  written through either register bank.
\<close>
theorem dma_program_readback:
  assumes "ch < 4"
  shows "dma_regs ch base (dma_program ch mode c a d) =
      [mode, lo8 c, hi8 c, byte32 0 a, byte32 1 a, byte32 2 a, byte32 3 a]
    \<and> (\<forall>k < 4. k \<noteq> ch \<longrightarrow> dma_regs k b (dma_program ch mode c a d) = dma_regs k b d)
    \<and> d_mask (dma_program ch mode c a d) = d_mask d
    \<and> d_device_control (dma_program ch mode c a d) = d_device_control d"
  using assms
  by (auto simp: dma_program_eq dma_regs_def dma_select_eq dma_read_def sel_count_def sel_address_def set_lo_hi)

definition dma_zero :: dma where
  "dma_zero = \<lparr>d_count_current = \<lambda>_. 0, d_count_base = \<lambda>_. 0, d_address_current = \<lambda>_. 0,
     d_address_base = \<lambda>_. 0, d_device_control = 0, d_mode_control = \<lambda>_. 0, d_status = 0, d_temp_l = 0,
     d_temp_h = 0, d_request = 0, d_mask = 0x0f, d_channel = 0, d_buswidth = False, d_dmarq = \<lambda>_. False,
     d_base = False, d_timer = \<lambda>_. False, d_hreq = False, d_eop = False\<rparr>"

lemma dma_program_readback_witness:
  "dma_regs 3 True (dma_program 3 0x44 0x07ff 0x00123456 (dma_start dma_zero)) = [0x44, 0xff, 0x07, 0x56, 0x34, 0x12, 0x00]"
  using dma_program_readback [where ch = 3 and base = True and mode = "0x44" and c = "0x07ff" and a = "0x00123456" and d = "dma_start dma_zero"]
  by (simp add: lo8_def hi8_def byte32_def)

text \<open>The states the bus, the request lines and the scheduler can bring the controller into.\<close>

definition dma_wf :: "dma \<Rightarrow> bool" where
  "dma_wf d = (d_channel d < 4 \<and>
     (\<forall>ch < 4. d_dmarq d ch = bit (d_status d) (4 + ch)) \<and>
     (\<forall>ch < 4. d_timer d ch \<longrightarrow> d_dmarq d ch))"

inductive dma_step :: "'e dma_env \<Rightarrow> dma \<times> 'e \<Rightarrow> dma \<times> 'e \<Rightarrow> bool" for env where
  step_request: "ch < 4 \<Longrightarrow> dma_step env (d, e) (snd (dmarq st ch d), e)"
| step_transfer: "ch < 4 \<Longrightarrow> dma_step env (d, e) (dma_fire env ch (d, e))"
| step_reg_read: "dma_step env (d, e) (snd (dma_read r d), e)"
| step_reg_write: "dma_step env (d, e) (dma_write r x d, e)"

lemma dma_wf_dmarq: "dma_wf d \<Longrightarrow> ch < 4 \<Longrightarrow> dma_wf (snd (dmarq st ch d))"
  by (auto simp: dma_wf_def dmarq_def Let_def bit_or_iff bit_and_iff bit_not_iff bit_chan_10)

lemma dma_wf_advance: "dma_wf d \<Longrightarrow> ch < 4 \<Longrightarrow> dma_wf (dma_advance ch d)"
  by (auto simp: dma_wf_def dma_advance_def Let_def bit_or_iff bit_chan_1)

lemma bit_clear_low:
  assumes "ch < 4"
  shows "bit (x AND NOT (0x0f :: u8)) (4 + ch) = bit x (4 + ch)"
    "bit (x AND (- 16 :: u8)) (4 + ch) = bit x (4 + ch)"
proof -
  have "ch = 0 \<or> ch = 1 \<or> ch = 2 \<or> ch = 3" using assms by arith
  then show "bit (x AND NOT (0x0f :: u8)) (4 + ch) = bit x (4 + ch)"
    by (elim disjE) (simp_all add: bit_and_iff)
  then show "bit (x AND (- 16 :: u8)) (4 + ch) = bit x (4 + ch)" by simp
qed

lemma dma_wf_read: "dma_wf d \<Longrightarrow> dma_wf (snd (dma_read r d))"
  by (auto simp: dma_wf_def dma_read_def bit_clear_low)

lemma and_3_less: "unat (x AND 3 :: u8) < 4"
proof -
  have "x AND 3 \<le> 3" by (rule word_and_le1)
  then show ?thesis by (simp add: word_le_nat_alt)
qed

lemma dma_wf_write: "dma_wf d \<Longrightarrow> dma_wf (dma_write r x d)"
  by (auto simp: dma_wf_def dma_write_def soft_reset_def upd_count_def upd_address_def Let_def
      bit_clear_low and_3_less)

text \<open>Devices that call back only in ways that keep the controller well formed.\<close>

definition env_wf :: "'e dma_env \<Rightarrow> bool" where
  "env_wf env = (\<forall>ch < 4. \<forall>d e x. dma_wf d \<longrightarrow>
     (case e_dev_read env ch of None \<Rightarrow> True | Some f \<Rightarrow> dma_wf (fst (snd (f d e)))) \<and>
     dma_wf (fst (e_dev_write env ch x d e)))"

lemma dma_wf_transfer:
  assumes "env_wf env" "dma_wf d" "ch < 4"
  shows "dma_wf (fst (dma_transfer_timer env ch (d, e)))"
proof -
  have R: "dma_wf (fst (snd (case e_dev_read env ch of Some f \<Rightarrow> f d e | None \<Rightarrow> (0, d, e))))"
    using assms by (auto simp: env_wf_def split: option.splits)
  have W: "dma_wf (fst (e_dev_write env ch x d e'))" for x e'
    using assms by (simp add: env_wf_def)
  show ?thesis
    using R W assms(2) dma_wf_advance [OF _ assms(3)]
    by (auto simp: dma_transfer_timer_def Let_def split: prod.splits if_splits option.splits)
      (metis fst_conv)+
qed

lemma dma_wf_disarm: "dma_wf d \<Longrightarrow> dma_wf (d\<lparr>d_timer := (d_timer d)(ch := False)\<rparr>)"
  by (auto simp: dma_wf_def)

lemma dma_wf_fire: "env_wf env \<Longrightarrow> dma_wf d \<Longrightarrow> ch < 4 \<Longrightarrow> dma_wf (fst (dma_fire env ch (d, e)))"
  by (simp add: dma_fire_def dma_wf_transfer dma_wf_disarm)

lemma dma_step_wf:
  assumes "dma_step env de de'" "env_wf env" "dma_wf (fst de)"
  shows "dma_wf (fst de')"
  using assms
  by (induction rule: dma_step.induct) (simp_all add: dma_wf_dmarq dma_wf_fire dma_wf_read dma_wf_write)

text \<open>
  C13: whatever the bus, the devices and the scheduler do, bits 4 to 7 of the status register
  mirror the request lines, and a channel whose request line is low transfers nothing when the
  scheduler runs it.
\<close>
theorem dma_request_invariant:
  assumes "(dma_step env)\<^sup>*\<^sup>* (d0, e0) (d, e)" "dma_wf d0" "env_wf env" "ch < 4"
  shows "d_dmarq d ch = bit (d_status d) (4 + ch) \<and>
    (\<not> d_dmarq d ch \<longrightarrow> dma_fire env ch (d, e) = (d, e))"
proof -
  have "dma_wf (fst (d, e))"
    using assms(1,2) by (induction rule: rtranclp_induct) (auto intro: dma_step_wf [OF _ assms(3)])
  then show ?thesis using assms(4) by (auto simp: dma_wf_def dma_fire_def)
qed

definition echo_env :: "u8 dma_env" where
  "echo_env = \<lparr>e_dev_read = \<lambda>ch. Some (\<lambda>d e. (ucast e, snd (dmarq False ch d), e + 1)),
     e_dev_write = \<lambda>ch x d e. (snd (dmarq False ch d), lo8 x), e_cpu = True,
     e_mem_read = \<lambda>a e. (e, e), e_mem_write = \<lambda>a x e. e + x\<rparr>"

lemma dma_request_invariant_witness:
  "\<exists>d0. dma_fire echo_env 2 (snd (dmarq False 2 d0), 7) = (snd (dmarq False 2 d0), 7)"
proof -
  let ?d = "dma_program 2 0x44 9 0 dma_zero"
  have wf: "dma_wf ?d" by (simp add: dma_program_eq dma_wf_def dma_zero_def)
  have env: "env_wf echo_env" by (simp add: env_wf_def echo_env_def dma_wf_dmarq)
  have "dma_step echo_env (?d, 7) (snd (dmarq False 2 ?d), 7)" by (rule step_request) simp
  then have "(dma_step echo_env)\<^sup>*\<^sup>* (?d, 7) (snd (dmarq False 2 ?d), 7)" by (rule r_into_rtranclp)
  from dma_request_invariant [OF this wf env, of 2] show ?thesis
    by (intro exI [of _ ?d]) (simp add: dmarq_def)
qed

end
