(* ===== verification/Towns_Cd.thy ===== *)
theory Towns_Cd
  imports Cdda Upd71071 Pic8259
begin

text \<open>
  The CD-ROM controller of the Towns, \<open>src/mame/fujitsu/fmtowns.cpp\<close> (\<open>towns_cdrom_*\<close>): status and
  command ports, the parameter queue, the commands with their sequences of status bytes, sector
  transfers by software and through channel 3 of the DMA controller, and the interrupt line to the
  slave interrupt controller, which is a parameter of the handlers. Timers are flags that say a
  callback is due; the delays themselves are not modelled.
\<close>

unbundle bit_operations_syntax

subsection \<open>State\<close>

text \<open>
  \<open>towns_cdrom_controller\<close> with the three one-shot timers of the drive, the parameter of the byte
  timer (\<open>None\<close> when it is not armed), the loaded disc, the audio player, and the interrupt
  controller behind the \<open>ir1_w\<close> callback, of whatever type \<open>'c\<close>.
\<close>

record 'c cd =
  cd_command :: u8
  cd_status :: u8
  cd_cmd_status :: "u8 list"
  cd_cmd_status_ptr :: nat
  cd_extra_status :: u8
  cd_parameter :: "u8 list"
  cd_mpu_irq_enable :: bool
  cd_dma_irq_enable :: bool
  cd_buffer :: "u8 list"
  cd_buffer_ptr :: int
  cd_lba_current :: u32
  cd_lba_last :: u32
  cd_cdda_current :: u32
  cd_cdda_length :: u32
  cd_software_tx :: bool
  cd_read_timer :: "bool option"
  cd_status_timer :: bool
  cd_seek_timer :: bool
  cd_cdda_timer :: bool
  cd_drive :: drive
  cd_audio :: cdda
  cd_pic :: 'c

datatype cd_irq = TOWNS_CD_IRQ_MPU | TOWNS_CD_IRQ_DMA

fun irq_flag :: "cd_irq \<Rightarrow> u8" where
  "irq_flag TOWNS_CD_IRQ_MPU = 0x80"
| "irq_flag TOWNS_CD_IRQ_DMA = 0x40"

definition set_status_bits :: "u8 \<Rightarrow> 'c cd \<Rightarrow> 'c cd" where
  "set_status_bits m s = s\<lparr>cd_status := cd_status s OR m\<rparr>"

definition clear_status_bits :: "u8 \<Rightarrow> 'c cd \<Rightarrow> 'c cd" where
  "clear_status_bits m s = s\<lparr>cd_status := cd_status s AND NOT m\<rparr>"

text \<open>Announcing a software transfer, and a DMA transfer.\<close>

definition cd_mode_software :: "'c cd \<Rightarrow> 'c cd" where
  "cd_mode_software s = set_status_bits 0x20 (clear_status_bits 0x10 s)"

definition cd_mode_dma :: "'c cd \<Rightarrow> 'c cd" where
  "cd_mode_dma s = clear_status_bits 0x20 (set_status_bits 0x10 s)"

subsection \<open>Interrupts and status bytes\<close>

definition towns_cdrom_set_irq ::
    "(bool \<Rightarrow> 'c \<Rightarrow> 'c) \<Rightarrow> cd_irq \<Rightarrow> bool \<Rightarrow> 'c cd \<Rightarrow> 'c cd" where
  "towns_cdrom_set_irq ir1 line state s =
     (if state then
        if tst (cd_command s) 0x40
        then (set_status_bits (irq_flag line) s)\<lparr>cd_pic := ir1 True (cd_pic s)\<rparr>
        else set_status_bits (irq_flag line) s
      else (clear_status_bits (irq_flag line) s)\<lparr>cd_pic := ir1 False (cd_pic s)\<rparr>)"

definition towns_cd_status_ready :: "(bool \<Rightarrow> 'c \<Rightarrow> 'c) \<Rightarrow> 'c cd \<Rightarrow> 'c cd" where
  "towns_cd_status_ready ir1 s =
     towns_cdrom_set_irq ir1 TOWNS_CD_IRQ_MPU True
       ((set_status_bits 0x01 (set_status_bits 0x02 s))\<lparr>cd_cmd_status_ptr := 0\<rparr>)"

definition towns_cd_set_status :: "u8 \<Rightarrow> u8 \<Rightarrow> u8 \<Rightarrow> u8 \<Rightarrow> 'c cd \<Rightarrow> 'c cd" where
  "towns_cd_set_status st0 st1 st2 st3 s =
     s\<lparr>cd_cmd_status := [st0, st1, st2, st3], cd_status_timer := True\<rparr>"

definition towns_cd_get_track :: "'c cd \<Rightarrow> u8" where
  "towns_cd_get_track s =
     (case find (\<lambda>track. drive_track_start (cd_drive s) track > get_audio_lba (cd_audio s)) [1..<99] of
        Some track \<Rightarrow> of_nat track | None \<Rightarrow> 99)"

subsection \<open>Sector transfers\<close>

text \<open>The end of a sector, as both transfer routines handle it when it was the last one.\<close>

definition cd_load_sector :: "u32 \<Rightarrow> 'c cd \<Rightarrow> 'c cd" where
  "cd_load_sector lba s =
     s\<lparr>cd_buffer := fst (drive_read_data (cd_drive s) lba CD_TRACK_MODE1 (cd_buffer s))\<rparr>"

definition cd_transfer_done :: "(bool \<Rightarrow> 'c \<Rightarrow> 'c) \<Rightarrow> 'c cd \<Rightarrow> 'c cd" where
  "cd_transfer_done ir1 s =
     set_status_bits 0x01
       ((towns_cdrom_set_irq ir1 TOWNS_CD_IRQ_DMA True
          (towns_cd_set_status 0x06 0x00 0x00 0x00 (s\<lparr>cd_extra_status := 0\<rparr>)))\<lparr>cd_buffer_ptr := -1\<rparr>)"

text \<open>The end of a sector in each transfer routine: the transfer is over, or the next sector is loaded.\<close>

definition cd_dma_sector_end :: "(bool \<Rightarrow> 'c \<Rightarrow> 'c) \<Rightarrow> 'c cd \<Rightarrow> 'c cd" where
  "cd_dma_sector_end ir1 s =
     (let s1 = clear_status_bits 0x20 (clear_status_bits 0x10 s)
      in if cd_lba_current s1 \<ge> cd_lba_last s1 then cd_transfer_done ir1 s1
         else
           let s2 = towns_cdrom_set_irq ir1 TOWNS_CD_IRQ_DMA True
                      (towns_cd_set_status 0x22 0x00 0x00 0x00 (s1\<lparr>cd_extra_status := 0\<rparr>));
               lba = cd_lba_current s2 + 1;
               s3 = cd_load_sector lba (s2\<lparr>cd_lba_current := lba\<rparr>)
           in s3\<lparr>cd_read_timer := Some True, cd_buffer_ptr := -1\<rparr>)"

definition cd_software_sector_end :: "(bool \<Rightarrow> 'c \<Rightarrow> 'c) \<Rightarrow> 'c cd \<Rightarrow> 'c cd" where
  "cd_software_sector_end ir1 s =
     (let s1 = clear_status_bits 0x20 (clear_status_bits 0x10 s)
      in if cd_lba_current s1 \<ge> cd_lba_last s1 then cd_transfer_done ir1 s1
         else
           let lba = cd_lba_current s1 + 1;
               s2 = cd_load_sector lba (s1\<lparr>cd_lba_current := lba\<rparr>);
               s3 = towns_cdrom_set_irq ir1 TOWNS_CD_IRQ_DMA True
                      (towns_cd_set_status 0x21 0x00 0x00 0x00 (s2\<lparr>cd_extra_status := 0\<rparr>))
           in (cd_mode_software s3)\<lparr>cd_buffer_ptr := -1\<rparr>)"

text \<open>The byte timer of a DMA transfer, with the request to channel 3 of the DMA controller.\<close>

definition towns_cdrom_read_byte ::
    "(bool \<Rightarrow> 'c \<Rightarrow> 'c) \<Rightarrow> bool \<Rightarrow> 'c cd \<times> dma \<Rightarrow> 'c cd \<times> dma" where
  "towns_cdrom_read_byte ir1 param sd =
     (let (s, d) = sd
      in if cd_buffer_ptr s < 0 then (s, d)
         else
           let (masked, d1) = dmarq param 3 d
           in if param then (s\<lparr>cd_read_timer := Some False\<rparr>, d1)
              else if masked \<noteq> 0 then (s\<lparr>cd_read_timer := Some True\<rparr>, d1)
              else if cd_buffer_ptr s < 2048 then (s\<lparr>cd_read_timer := Some True\<rparr>, d1)
              else (cd_dma_sector_end ir1 s, d1))"

text \<open>
  Reading the sector buffer. The source checks one end of the buffer only; \<open>wild i\<close> is whatever
  the program finds at index \<open>i\<close> outside it.
\<close>

definition cd_buffer_at :: "(int \<Rightarrow> u8) \<Rightarrow> int \<Rightarrow> 'c cd \<Rightarrow> u8" where
  "cd_buffer_at wild i s =
     (if 0 \<le> i \<and> nat i < length (cd_buffer s) then cd_buffer s ! nat i else wild i)"

definition towns_cdrom_dma_r :: "(int \<Rightarrow> u8) \<Rightarrow> 'c cd \<Rightarrow> u16 \<times> 'c cd" where
  "towns_cdrom_dma_r wild s =
     (if cd_buffer_ptr s \<ge> 2048 then (0, s)
      else (ucast (cd_buffer_at wild (cd_buffer_ptr s) s), s\<lparr>cd_buffer_ptr := cd_buffer_ptr s + 1\<rparr>))"

definition towns_cdrom_read_byte_software ::
    "(bool \<Rightarrow> 'c \<Rightarrow> 'c) \<Rightarrow> (int \<Rightarrow> u8) \<Rightarrow> 'c cd \<Rightarrow> u8 \<times> 'c cd" where
  "towns_cdrom_read_byte_software ir1 wild s =
     (if cd_buffer_ptr s < 0 then (0x00, s)
      else
        let ret = cd_buffer_at wild (cd_buffer_ptr s) s;
            s0 = s\<lparr>cd_buffer_ptr := cd_buffer_ptr s + 1\<rparr>
        in (ret, if cd_buffer_ptr s0 \<ge> 2048 then cd_software_sector_end ir1 s0 else s0))"

subsection \<open>Commands\<close>

text \<open>The two three-byte addresses in the parameter queue.\<close>

definition cd_param_lba1 :: "'c cd \<Rightarrow> u32" where
  "cd_param_lba1 s = msf_to_lbafm (push_bit 16 (ucast (cd_parameter s ! 7)) +
     push_bit 8 (ucast (cd_parameter s ! 6)) + ucast (cd_parameter s ! 5))"

definition cd_param_lba2 :: "'c cd \<Rightarrow> u32" where
  "cd_param_lba2 s = msf_to_lbafm (push_bit 16 (ucast (cd_parameter s ! 4)) +
     push_bit 8 (ucast (cd_parameter s ! 3)) + ucast (cd_parameter s ! 2))"

definition towns_cdrom_read :: "'c cd \<Rightarrow> 'c cd" where
  "towns_cdrom_read s =
     (let s1 = s\<lparr>cd_lba_current := cd_param_lba1 s, cd_lba_last := cd_param_lba2 s\<rparr>
      in if cd_lba_current s1 > cd_lba_last s1 then
           towns_cd_set_status 0x01 0x00 0x00 0x00 (s1\<lparr>cd_extra_status := 0\<rparr>)
         else
           let s2 = cd_load_sector (cd_lba_current s1) s1;
               s3 = (if cd_software_tx s2 then cd_mode_software s2 else cd_mode_dma s2)
           in if tst (cd_command s3) 0x20 then
                towns_cd_set_status 0x00 0x00 0x00 0x00 (s3\<lparr>cd_extra_status := 2\<rparr>)
              else if cd_software_tx s3 then
                towns_cd_set_status 0x21 0x00 0x00 0x00 (s3\<lparr>cd_extra_status := 0\<rparr>)
              else towns_cd_set_status 0x22 0x00 0x00 0x00 (s3\<lparr>cd_extra_status := 0\<rparr>))"

definition towns_cdrom_play_cdda :: "'c cd \<Rightarrow> 'c cd" where
  "towns_cdrom_play_cdda s =
     (let cur = cd_param_lba1 s; len = cd_param_lba2 s - cur + 1;
          s1 = s\<lparr>cd_cdda_current := cur, cd_cdda_length := len,
                 cd_audio := start_audio cur len (cd_audio s)\<rparr>
      in if tst (cd_command s1) 0x20
         then towns_cd_set_status 0x00 0x03 0x00 0x00 (s1\<lparr>cd_extra_status := 1\<rparr>) else s1)"

text \<open>The two delayed actions; \<open>towns_delay_cdda\<close> starts the playback.\<close>

definition towns_delay_cdda :: "'c cd \<Rightarrow> 'c cd" where
  "towns_delay_cdda s = towns_cdrom_play_cdda s"

definition towns_delay_seek :: "'c cd \<Rightarrow> 'c cd" where
  "towns_delay_seek s = towns_cd_set_status 0x04 0x00 0x00 0x00 (s\<lparr>cd_extra_status := 0\<rparr>)"

text \<open>A reply that is only sent when the status bit of the command is set.\<close>

definition cd_reply_if_asked :: "u8 \<Rightarrow> u8 \<Rightarrow> u8 \<Rightarrow> u8 \<Rightarrow> u8 \<Rightarrow> 'c cd \<Rightarrow> 'c cd" where
  "cd_reply_if_asked extra st0 st1 st2 st3 s =
     (if tst (cd_command s) 0x20
      then towns_cd_set_status st0 st1 st2 st3 (s\<lparr>cd_extra_status := extra\<rparr>) else s)"

definition towns_cdrom_execute_command :: "(bool \<Rightarrow> 'c \<Rightarrow> 'c) \<Rightarrow> 'c cd \<Rightarrow> 'c cd" where
  "towns_cdrom_execute_command ir1 s =
     (let s1 = (towns_cdrom_set_irq ir1 TOWNS_CD_IRQ_MPU False s)\<lparr>cd_seek_timer := False\<rparr>
      in if \<not> drive_exists (cd_drive s1) \<and> cd_command s1 \<noteq> 0xa0 then
           cd_reply_if_asked 0 0x10 0x00 0x00 0x00 s1
         else
           let s2 = clear_status_bits 0x02 s1; cmd = cd_command s2 AND 0x9f
           in if cmd = 0x00 then
                (if tst (cd_command s2) 0x20
                 then (cd_reply_if_asked 0 0x00 0x00 0x00 0x00 s2)\<lparr>cd_seek_timer := True\<rparr> else s2)
              else if cmd = 0x01 then cd_reply_if_asked 0 0x00 0xff 0xff 0xff s2
              else if cmd = 0x02 then towns_cdrom_read s2
              else if cmd = 0x04 then s2\<lparr>cd_cdda_timer := True\<rparr>
              else if cmd = 0x05 then
                (if tst (cd_command s2) 0x20
                 then towns_cd_set_status 0x00 0x00 0x00 0x00 (s2\<lparr>cd_extra_status := 1\<rparr>)
                 else towns_cd_set_status 0x16 0x00 0xa0 0x00 (s2\<lparr>cd_extra_status := 2\<rparr>))
              else if cmd = 0x06 then towns_cd_set_status 0x00 0x00 0x00 0x00 (s2\<lparr>cd_extra_status := 1\<rparr>)
              else if cmd = 0x1f then towns_cd_set_status 0x00 0x00 0x00 0x00 (s2\<lparr>cd_extra_status := 0\<rparr>)
              else if cmd = 0x80 then
                cd_reply_if_asked 0 0x00
                  (if audio_active (cd_audio s2) \<and> \<not> audio_paused (cd_audio s2) then 0x03 else 0x01)
                  0x00 0x00 s2
              else if cmd = 0x81 then cd_reply_if_asked 0 0x00 0x00 0x00 0x00 s2
              else if cmd = 0x84 \<or> cmd = 0x85 then
                (let s3 = cd_reply_if_asked 1 0x00 0x00 0x00 0x00 s2
                 in s3\<lparr>cd_audio := pause_audio True (cd_audio s3)\<rparr>)
              else if cmd = 0x87 then
                (let s3 = cd_reply_if_asked 1 0x00 0x03 0x00 0x00 s2
                 in s3\<lparr>cd_audio := pause_audio False (cd_audio s3)\<rparr>)
              else towns_cd_set_status 0x10 0x00 0x00 0x00 (s2\<lparr>cd_extra_status := 0\<rparr>))"

subsection \<open>The status sequences\<close>

definition bump_extra :: "'c cd \<Rightarrow> 'c cd" where
  "bump_extra s = s\<lparr>cd_extra_status := cd_extra_status s + 1\<rparr>"

definition cd_set_msf :: "u8 \<Rightarrow> u32 \<Rightarrow> 'c cd \<Rightarrow> 'c cd" where
  "cd_set_msf st0 addr s = towns_cd_set_status st0 (byte32 2 addr) (byte32 1 addr) (byte32 0 addr) s"

text \<open>The reply to a table-of-contents request, one step per status block read.\<close>

definition cd_toc_status :: "'c cd \<Rightarrow> 'c cd" where
  "cd_toc_status s =
     (let x = unat (cd_extra_status s); dr = cd_drive s
      in if x = 1 then bump_extra (towns_cd_set_status 0x16 0x00 0xa0 0x00 s)
         else if x = 2 then bump_extra (towns_cd_set_status 0x17 0x01 0x00 0x00 s)
         else if x = 3 then bump_extra (towns_cd_set_status 0x16 0x00 0xa1 0x00 s)
         else if x = 4 then
           bump_extra (towns_cd_set_status 0x17 (byte_to_bcd (of_nat (drive_last_track dr))) 0x00 0x00 s)
         else if x = 5 then bump_extra (towns_cd_set_status 0x16 0x00 0xa2 0x00 s)
         else if x = 6 then
           bump_extra (cd_set_msf 0x17 (lba_to_msf (drive_track_start dr 0xaa + 150)) s)
         else if odd x then
           let adr = drive_adr_control dr (x div 2 - 3)
           in bump_extra (towns_cd_set_status 0x16
                (ucast (push_bit 4 (adr AND 0x0f) OR drop_bit 4 (adr AND 0xf0)))
                (byte_to_bcd (of_nat (x div 2 - 2))) 0x00 s)
         else
           let track = x div 2 - 4;
               s1 = cd_set_msf 0x17 (lba_to_msf (drive_track_start dr track + 150)) s
           in if track \<ge> drive_last_track dr then s1\<lparr>cd_extra_status := 0\<rparr> else bump_extra s1)"

definition cd_audio_status :: "'c cd \<Rightarrow> 'c cd" where
  "cd_audio_status s =
     (let x = cd_extra_status s; lba = get_audio_lba (cd_audio s)
      in if x = 1 then bump_extra (towns_cd_set_status 0x18 0x00 (towns_cd_get_track s) 0x00 s)
         else if x = 2 then bump_extra (cd_set_msf 0x19 (lba_to_msf (lba - cd_cdda_current s)) s)
         else if x = 3 then
           bump_extra (towns_cd_set_status 0x19 0x00 (byte32 2 (lba_to_msf lba)) (byte32 1 (lba_to_msf lba)) s)
         else if x = 4 then
           (towns_cd_set_status 0x20 (byte32 0 (lba_to_msf lba)) 0x00 0x00 s)\<lparr>cd_extra_status := 0\<rparr>
         else s)"

text \<open>What the drive queues once the fourth status byte is read and more is to come.\<close>

definition cd_more_status :: "'c cd \<Rightarrow> 'c cd" where
  "cd_more_status s =
     (let cmd = cd_command s AND 0x9f
      in if cmd = 0x02 then
           (if cd_extra_status s = 2 then towns_cd_set_status 0x22 0x00 0x00 0x00 s else s)
             \<lparr>cd_extra_status := 0\<rparr>
         else if cmd = 0x04 then
           (clear_status_bits 0x02
             (if audio_ended (cd_audio s) then towns_cd_set_status 0x07 0x00 0x00 0x00 s
              else towns_cd_set_status 0x00 0x00 0x03 0x00 s))\<lparr>cd_extra_status := 0\<rparr>
         else if cmd = 0x05 then cd_toc_status s
         else if cmd = 0x06 then cd_audio_status s
         else if cmd = 0x84 then (towns_cd_set_status 0x11 0x00 0x00 0x00 s)\<lparr>cd_extra_status := 0\<rparr>
         else if cmd = 0x85 then (towns_cd_set_status 0x12 0x00 0x00 0x00 s)\<lparr>cd_extra_status := 0\<rparr>
         else s)"

subsection \<open>Ports\<close>

definition towns_cdrom_r ::
    "(bool \<Rightarrow> 'c \<Rightarrow> 'c) \<Rightarrow> (int \<Rightarrow> u8) \<Rightarrow> nat \<Rightarrow> 'c cd \<Rightarrow> u8 \<times> 'c cd" where
  "towns_cdrom_r ir1 wild offset s =
     (if offset = 0x00 then (cd_status s, s)
      else if offset = 0x01 then
        let ret = cd_cmd_status s ! cd_cmd_status_ptr s;
            s1 = (if cd_cmd_status_ptr s \<ge> 3 then
                    let s' = clear_status_bits 2 s
                    in if cd_extra_status s' \<noteq> 0 then cd_more_status s' else s'
                  else s);
            p = cd_cmd_status_ptr s1 + 1
        in (ret, s1\<lparr>cd_cmd_status_ptr := (if p > 3 then 0 else p)\<rparr>)
      else if offset = 0x02 \<and> cd_software_tx s then towns_cdrom_read_byte_software ir1 wild s
      else (0x00, s))"

definition towns_cdrom_w :: "(bool \<Rightarrow> 'c \<Rightarrow> 'c) \<Rightarrow> nat \<Rightarrow> u8 \<Rightarrow> 'c cd \<Rightarrow> 'c cd" where
  "towns_cdrom_w ir1 offset data s =
     (if offset = 0x00 then
        let s1 = (if tst data 0x80 then towns_cdrom_set_irq ir1 TOWNS_CD_IRQ_MPU False s else s);
            s2 = (if tst data 0x40 then towns_cdrom_set_irq ir1 TOWNS_CD_IRQ_DMA False s1 else s1)
        in s2\<lparr>cd_mpu_irq_enable := tst data 0x02, cd_dma_irq_enable := tst data 0x01\<rparr>
      else if offset = 0x01 then towns_cdrom_execute_command ir1 (s\<lparr>cd_command := data\<rparr>)
      else if offset = 0x02 then s\<lparr>cd_parameter := data # butlast (cd_parameter s)\<rparr>
      else if offset = 0x03 then
        let s1 = (if tst data 0x08
                  then (cd_mode_software s)\<lparr>cd_software_tx := True, cd_buffer_ptr := 0\<rparr>
                  else s)
        in if tst data 0x10 then
             let s2 = (cd_mode_dma s1)\<lparr>cd_software_tx := False\<rparr>
             in if cd_buffer_ptr s2 < 0
                then s2\<lparr>cd_buffer_ptr := 0, cd_read_timer := Some True\<rparr> else s2
           else s1
      else s)"

subsection \<open>Well-formed drives\<close>

text \<open>
  What every handler keeps: the fixed array sizes, the status pointer inside the four status bytes,
  the buffer pointer between "no transfer" and the end of the sector, and the two transfer-mode
  bits of the status register never both set.
\<close>

definition cd_wf :: "'c cd \<Rightarrow> bool" where
  "cd_wf s = (length (cd_cmd_status s) = 4 \<and> cd_cmd_status_ptr s \<le> 3 \<and> length (cd_parameter s) = 8 \<and>
     length (cd_buffer s) = 2048 \<and> -1 \<le> cd_buffer_ptr s \<and> cd_buffer_ptr s \<le> 2048 \<and>
     \<not> (bit (cd_status s) 4 \<and> bit (cd_status s) 5) \<and> drive_wf (cd_drive s))"

named_theorems cd_wf_intros

lemma cd_wf_field [simp]:
  "cd_wf (s\<lparr>cd_extra_status := e\<rparr>) = cd_wf s" "cd_wf (s\<lparr>cd_pic := c\<rparr>) = cd_wf s"
  "cd_wf (s\<lparr>cd_command := x\<rparr>) = cd_wf s" "cd_wf (s\<lparr>cd_read_timer := t\<rparr>) = cd_wf s"
  "cd_wf (s\<lparr>cd_seek_timer := b\<rparr>) = cd_wf s" "cd_wf (s\<lparr>cd_cdda_timer := b\<rparr>) = cd_wf s"
  "cd_wf (s\<lparr>cd_status_timer := b\<rparr>) = cd_wf s" "cd_wf (s\<lparr>cd_software_tx := b\<rparr>) = cd_wf s"
  "cd_wf (s\<lparr>cd_lba_current := l\<rparr>) = cd_wf s" "cd_wf (s\<lparr>cd_lba_last := l\<rparr>) = cd_wf s"
  "cd_wf (s\<lparr>cd_cdda_current := l\<rparr>) = cd_wf s" "cd_wf (s\<lparr>cd_cdda_length := l\<rparr>) = cd_wf s"
  "cd_wf (s\<lparr>cd_audio := a\<rparr>) = cd_wf s" "cd_wf (s\<lparr>cd_mpu_irq_enable := b\<rparr>) = cd_wf s"
  "cd_wf (s\<lparr>cd_dma_irq_enable := b\<rparr>) = cd_wf s"
  by (simp_all add: cd_wf_def)

lemma cd_wf_ptr [cd_wf_intros]:
  "cd_wf s \<Longrightarrow> -1 \<le> i \<Longrightarrow> i \<le> 2048 \<Longrightarrow> cd_wf (s\<lparr>cd_buffer_ptr := i\<rparr>)"
  "cd_wf s \<Longrightarrow> p \<le> 3 \<Longrightarrow> cd_wf (s\<lparr>cd_cmd_status_ptr := p\<rparr>)"
  by (simp_all add: cd_wf_def)

lemma cd_wf_set_bits [cd_wf_intros]:
  "cd_wf s \<Longrightarrow> \<not> bit m 4 \<Longrightarrow> \<not> bit m 5 \<Longrightarrow> cd_wf (set_status_bits m s)"
  "cd_wf s \<Longrightarrow> cd_wf (clear_status_bits m s)"
  "cd_wf s \<Longrightarrow> cd_wf (cd_mode_software s)" "cd_wf s \<Longrightarrow> cd_wf (cd_mode_dma s)"
  by (auto simp: cd_wf_def set_status_bits_def clear_status_bits_def cd_mode_software_def cd_mode_dma_def
      bit_or_iff bit_and_iff bit_not_iff)

lemma irq_flag_bits [simp]: "\<not> bit (irq_flag l) 4" "\<not> bit (irq_flag l) 5"
  by (cases l; simp)+

lemma cd_wf_irq [cd_wf_intros]: "cd_wf s \<Longrightarrow> cd_wf (towns_cdrom_set_irq ir1 l st s)"
  by (auto simp: towns_cdrom_set_irq_def intro!: cd_wf_intros)

lemma cd_wf_set_status [cd_wf_intros]: "cd_wf s \<Longrightarrow> cd_wf (towns_cd_set_status a b c d s)"
  by (simp add: cd_wf_def towns_cd_set_status_def)

lemma cd_wf_ready [cd_wf_intros]: "cd_wf s \<Longrightarrow> cd_wf (towns_cd_status_ready ir1 s)"
  by (auto simp: towns_cd_status_ready_def intro!: cd_wf_intros)

lemma cd_wf_load [cd_wf_intros]: "cd_wf s \<Longrightarrow> cd_wf (cd_load_sector lba s)"
  using length_drive_mode1 [of "cd_drive s" "cd_buffer s" lba]
  by (simp add: cd_wf_def cd_load_sector_def drive_wf_def)

lemma cd_wf_done [cd_wf_intros]: "cd_wf s \<Longrightarrow> cd_wf (cd_transfer_done ir1 s)"
  by (auto simp: cd_transfer_done_def intro!: cd_wf_intros)

lemma cd_wf_sector_end [cd_wf_intros]:
  "cd_wf s \<Longrightarrow> cd_wf (cd_dma_sector_end ir1 s)" "cd_wf s \<Longrightarrow> cd_wf (cd_software_sector_end ir1 s)"
  by (auto simp: cd_dma_sector_end_def cd_software_sector_end_def Let_def intro!: cd_wf_intros)

text \<open>The end of a sector resets the buffer pointer, wherever it was.\<close>

lemma software_end_ptr:
  "cd_software_sector_end ir1 (s\<lparr>cd_buffer_ptr := i\<rparr>) = cd_software_sector_end ir1 s"
  by (simp add: cd_software_sector_end_def cd_transfer_done_def cd_load_sector_def cd_mode_software_def
      towns_cdrom_set_irq_def towns_cd_set_status_def set_status_bits_def clear_status_bits_def Let_def)

lemma cd_wf_read_byte [cd_wf_intros]: "cd_wf s \<Longrightarrow> cd_wf (fst (towns_cdrom_read_byte ir1 p (s, d)))"
  by (auto simp: towns_cdrom_read_byte_def Let_def split: prod.split intro!: cd_wf_intros)

lemma ptr_bounds: "cd_wf s \<Longrightarrow> -1 \<le> cd_buffer_ptr s \<and> cd_buffer_ptr s \<le> 2048"
  by (simp add: cd_wf_def)

lemma cd_wf_dma_r [cd_wf_intros]: "cd_wf s \<Longrightarrow> cd_wf (snd (towns_cdrom_dma_r wild s))"
  using ptr_bounds [of s] by (auto simp: towns_cdrom_dma_r_def intro!: cd_wf_intros)

lemma cd_wf_software [cd_wf_intros]:
  "cd_wf s \<Longrightarrow> cd_wf (snd (towns_cdrom_read_byte_software ir1 wild s))"
  using ptr_bounds [of s]
  by (auto simp: towns_cdrom_read_byte_software_def Let_def software_end_ptr intro!: cd_wf_intros)

lemma cd_wf_commands [cd_wf_intros]:
  "cd_wf s \<Longrightarrow> cd_wf (towns_cdrom_read s)" "cd_wf s \<Longrightarrow> cd_wf (towns_cdrom_play_cdda s)"
  "cd_wf s \<Longrightarrow> cd_wf (towns_delay_cdda s)" "cd_wf s \<Longrightarrow> cd_wf (towns_delay_seek s)"
  "cd_wf s \<Longrightarrow> cd_wf (cd_reply_if_asked e a b c d s)"
  by (auto simp: towns_cdrom_read_def towns_cdrom_play_cdda_def towns_delay_cdda_def towns_delay_seek_def
      cd_reply_if_asked_def Let_def intro!: cd_wf_intros)

lemma cd_wf_execute [cd_wf_intros]: "cd_wf s \<Longrightarrow> cd_wf (towns_cdrom_execute_command ir1 s)"
  by (auto simp: towns_cdrom_execute_command_def Let_def intro!: cd_wf_intros)

lemma cd_wf_more [cd_wf_intros]: "cd_wf s \<Longrightarrow> cd_wf (cd_more_status s)"
  by (auto simp: cd_more_status_def cd_toc_status_def cd_audio_status_def cd_set_msf_def bump_extra_def
      Let_def intro!: cd_wf_intros)

lemma cd_wf_port_r [cd_wf_intros]:
  "cd_wf s \<Longrightarrow> cd_wf (snd (towns_cdrom_r ir1 wild a s))"
  by (auto simp: towns_cdrom_r_def Let_def intro!: cd_wf_intros)

lemma cd_wf_port_w [cd_wf_intros]: "cd_wf s \<Longrightarrow> cd_wf (towns_cdrom_w ir1 a x s)"
proof -
  assume wf: "cd_wf s"
  then have "cd_wf (s\<lparr>cd_parameter := x # butlast (cd_parameter s)\<rparr>)" by (simp add: cd_wf_def)
  with wf show ?thesis by (auto simp: towns_cdrom_w_def Let_def intro!: cd_wf_intros)
qed

subsection \<open>Reachable drive states\<close>

text \<open>The three one-shot timers firing: the scheduler disarms a timer and runs its callback.\<close>

definition cd_fire_status :: "(bool \<Rightarrow> 'c \<Rightarrow> 'c) \<Rightarrow> 'c cd \<Rightarrow> 'c cd" where
  "cd_fire_status ir1 s =
     (if cd_status_timer s then towns_cd_status_ready ir1 (s\<lparr>cd_status_timer := False\<rparr>) else s)"

definition cd_fire_seek :: "'c cd \<Rightarrow> 'c cd" where
  "cd_fire_seek s = (if cd_seek_timer s then towns_delay_seek (s\<lparr>cd_seek_timer := False\<rparr>) else s)"

definition cd_fire_cdda :: "'c cd \<Rightarrow> 'c cd" where
  "cd_fire_cdda s = (if cd_cdda_timer s then towns_delay_cdda (s\<lparr>cd_cdda_timer := False\<rparr>) else s)"

definition cd_fire_read ::
    "(bool \<Rightarrow> 'c \<Rightarrow> 'c) \<Rightarrow> 'c cd \<times> dma \<Rightarrow> 'c cd \<times> dma" where
  "cd_fire_read ir1 sd =
     (let (s, d) = sd
      in case cd_read_timer s of
           None \<Rightarrow> (s, d)
         | Some p \<Rightarrow> towns_cdrom_read_byte ir1 p (s\<lparr>cd_read_timer := None\<rparr>, d))"

inductive cd_step :: "(bool \<Rightarrow> 'c \<Rightarrow> 'c) \<Rightarrow> (int \<Rightarrow> u8) \<Rightarrow> 'c cd \<Rightarrow> 'c cd \<Rightarrow> bool" for ir1 wild where
  step_port_r: "cd_step ir1 wild s (snd (towns_cdrom_r ir1 wild a s))"
| step_port_w: "cd_step ir1 wild s (towns_cdrom_w ir1 a x s)"
| step_status: "cd_step ir1 wild s (cd_fire_status ir1 s)"
| step_seek: "cd_step ir1 wild s (cd_fire_seek s)"
| step_cdda: "cd_step ir1 wild s (cd_fire_cdda s)"
| step_byte: "cd_step ir1 wild s (fst (cd_fire_read ir1 (s, d)))"
| step_dma: "cd_step ir1 wild s (snd (towns_cdrom_dma_r wild s))"
| step_disc: "drive_wf dr \<Longrightarrow> cd_step ir1 wild s (s\<lparr>cd_drive := dr\<rparr>)"
| step_audio: "get_audio_data (cd_drive s) seq n (cd_audio s) = Some (xs, a) \<Longrightarrow>
    cd_step ir1 wild s (s\<lparr>cd_audio := a\<rparr>)"

lemma cd_wf_step: "cd_step ir1 wild s s' \<Longrightarrow> cd_wf s \<Longrightarrow> cd_wf s'"
proof (induction rule: cd_step.induct)
  case (step_disc dr s)
  then show ?case by (simp add: cd_wf_def)
qed (auto simp: cd_fire_status_def cd_fire_seek_def cd_fire_cdda_def cd_fire_read_def
    split: option.split intro!: cd_wf_intros)

text \<open>
  C9: whatever the program does to the ports, whenever the timers and the DMA controller run, and
  whatever disc is put in, the status pointer stays inside the four status bytes, the sector
  buffer and the parameter queue keep their sizes, the buffer pointer stays between -1 and 2048,
  and the status register never announces a software and a DMA transfer together.
\<close>
theorem cd_reachable_invariant:
  assumes "(cd_step ir1 wild)\<^sup>*\<^sup>* s0 s" "cd_wf s0"
  shows "cd_cmd_status_ptr s < length (cd_cmd_status s) \<and> length (cd_buffer s) = 2048 \<and>
    length (cd_parameter s) = 8 \<and> cd_buffer_ptr s \<in> {-1..2048} \<and>
    \<not> (tst (cd_status s) 0x10 \<and> tst (cd_status s) 0x20)"
proof -
  have "cd_wf s" using assms by (induction rule: rtranclp_induct) (auto intro: cd_wf_step)
  moreover have "tst (cd_status s) 0x10 = bit (cd_status s) 4" "tst (cd_status s) 0x20 = bit (cd_status s) 5"
    using tst_exp [of "cd_status s" 4] tst_exp [of "cd_status s" 5] by simp_all
  ultimately show ?thesis by (simp add: cd_wf_def)
qed

definition cd_init :: "drive \<Rightarrow> 'c \<Rightarrow> 'c cd" where
  "cd_init dr c = \<lparr>cd_command = 0, cd_status = 0x01, cd_cmd_status = replicate 4 0, cd_cmd_status_ptr = 0,
     cd_extra_status = 0, cd_parameter = replicate 8 0, cd_mpu_irq_enable = False,
     cd_dma_irq_enable = False, cd_buffer = replicate 2048 0, cd_buffer_ptr = -1, cd_lba_current = 0,
     cd_lba_last = 0, cd_cdda_current = 0, cd_cdda_length = 0, cd_software_tx = False,
     cd_read_timer = None, cd_status_timer = False, cd_seek_timer = False, cd_cdda_timer = False,
     cd_drive = dr, cd_audio = cdda_start, cd_pic = c\<rparr>"

lemma cd_wf_init: "drive_wf dr \<Longrightarrow> cd_wf (cd_init dr c)"
  by (simp add: cd_wf_def cd_init_def)

lemma cd_reachable_invariant_witness:
  "cd_buffer_ptr (towns_cdrom_w (set_irq_line 1) 3 0x08 (cd_init None (pic_reset False))) \<in> {-1..2048}"
proof -
  let ?s = "cd_init None (pic_reset False)"
  have "cd_wf ?s" by (rule cd_wf_init) (simp add: drive_wf_def)
  moreover have "(cd_step (set_irq_line 1) (\<lambda>_. 0))\<^sup>*\<^sup>* ?s (towns_cdrom_w (set_irq_line 1) 3 0x08 ?s)"
    by (rule r_into_rtranclp) (rule step_port_w)
  ultimately show ?thesis using cd_reachable_invariant by blast
qed

subsection \<open>The interrupt line\<close>

lemma cd_pic_set_irq:
  "cd_pic (towns_cdrom_set_irq ir1 line st s) =
     (if st \<and> \<not> tst (cd_command s) 0x40 then cd_pic s else ir1 st (cd_pic s))"
  by (simp add: towns_cdrom_set_irq_def set_status_bits_def clear_status_bits_def)

lemma reply_pic [simp]:
  "cd_pic (cd_reply_if_asked e a b c d s) = cd_pic s" "cd_pic (towns_cd_set_status a b c d s) = cd_pic s"
  "cd_pic (towns_cdrom_read s) = cd_pic s" "cd_pic (clear_status_bits m s) = cd_pic s"
  "cd_pic (set_status_bits m s) = cd_pic s"
  by (simp_all add: cd_reply_if_asked_def towns_cd_set_status_def towns_cdrom_read_def cd_load_sector_def
      cd_mode_software_def cd_mode_dma_def set_status_bits_def clear_status_bits_def Let_def)

lemma reply_command [simp]:
  "cd_command (cd_reply_if_asked e a b c d s) = cd_command s"
  "cd_command (towns_cd_set_status a b c d s) = cd_command s"
  "cd_command (towns_cdrom_read s) = cd_command s" "cd_command (clear_status_bits m s) = cd_command s"
  "cd_command (set_status_bits m s) = cd_command s"
  "cd_command (towns_cdrom_set_irq ir1 l st s) = cd_command s"
  by (simp_all add: cd_reply_if_asked_def towns_cd_set_status_def towns_cdrom_read_def cd_load_sector_def
      cd_mode_software_def cd_mode_dma_def set_status_bits_def clear_status_bits_def
      towns_cdrom_set_irq_def Let_def)

lemma execute_pic: "cd_pic (towns_cdrom_execute_command ir1 s) = ir1 False (cd_pic s)"
  by (auto simp: towns_cdrom_execute_command_def Let_def cd_pic_set_irq)

lemma execute_command_word: "cd_command (towns_cdrom_execute_command ir1 s) = cd_command s"
  by (auto simp: towns_cdrom_execute_command_def Let_def)

lemma set_status_timer [simp]: "cd_status_timer (towns_cd_set_status a b c d s)"
  by (simp add: towns_cd_set_status_def)

text \<open>
  Which commands set the timer of a reply: with a disc, every command but PLAY AUDIO (which starts its own delay) that asks for
  status, and those that reply unasked; without one, the commands that ask, as a state request (0xa0) always does.
\<close>

definition cd_answers :: "bool \<Rightarrow> u8 \<Rightarrow> bool" where
  "cd_answers present c \<longleftrightarrow>
     (if present \<or> c = 0xa0
      then c AND 0x9f \<noteq> 0x04 \<and> (tst c 0x20 \<or> c AND 0x9f \<notin> {0x00, 0x01, 0x80, 0x81, 0x84, 0x85, 0x87})
      else tst c 0x20)"

lemma timer_reply [simp]:
  "cd_status_timer (cd_reply_if_asked e a b c d s) = (cd_status_timer s \<or> tst (cd_command s) 0x20)"
  "cd_status_timer (towns_cdrom_set_irq ir1 l st s) = cd_status_timer s"
  "cd_status_timer (clear_status_bits m s) = cd_status_timer s"
  by (auto simp: cd_reply_if_asked_def towns_cdrom_set_irq_def set_status_bits_def clear_status_bits_def)

lemma drive_kept [simp]:
  "cd_drive (towns_cdrom_set_irq ir1 l st s) = cd_drive s" "cd_drive (clear_status_bits m s) = cd_drive s"
  by (simp_all add: towns_cdrom_set_irq_def set_status_bits_def clear_status_bits_def)

lemma read_timer_set [simp]: "cd_status_timer (towns_cdrom_read s)"
  by (simp add: towns_cdrom_read_def Let_def)

lemma execute_replies:
  "cd_status_timer (towns_cdrom_execute_command ir1 s) =
     (cd_status_timer s \<or> cd_answers (drive_exists (cd_drive s)) (cd_command s))"
proof (cases "drive_exists (cd_drive s) \<or> cd_command s = 0xa0")
  case True
  then show ?thesis by (auto simp: towns_cdrom_execute_command_def cd_answers_def Let_def)
next
  case False
  then show ?thesis by (simp add: towns_cdrom_execute_command_def cd_answers_def)
qed

context irq_input
begin

lemma command_reply_latches:
  assumes "ok (cd_pic s)" "tst c 0x40" "cd_status_timer (towns_cdrom_w out 1 c s)"
  shows "level (cd_pic (cd_fire_status out (towns_cdrom_w out 1 c s)))
    \<and> latched (cd_pic (cd_fire_status out (towns_cdrom_w out 1 c s)))"
  using assms
  by (simp add: towns_cdrom_w_def cd_fire_status_def towns_cd_status_ready_def cd_pic_set_irq
      execute_command_word execute_pic line_laws)

lemma command_reply_silent:
  assumes "ok (cd_pic s)" "\<not> tst c 0x40"
  shows "\<not> level (cd_pic (cd_fire_status out (towns_cdrom_w out 1 c s)))"
  using assms
  by (simp add: towns_cdrom_w_def cd_fire_status_def towns_cd_status_ready_def cd_pic_set_irq
      execute_command_word execute_pic line_laws)

end

text \<open>
  C10: with the slave interrupt controller of the model on the line, a command written to the command port leaves a reply due
  exactly when one was due before or the command answers (\<open>cd_answers\<close>: PLAY AUDIO does not, and some commands only when they ask for
  status); and when a reply is due and its timer fires, the input is high and latched as a new edge exactly when the command asks for
  interrupts (bit 6), and low otherwise. The status register shows the reply, ready, and the sub-MPU flag (bit 7) in both cases: the
  code sets the flag whatever bit 6 of the command is, where the comment on the port says only when it is clear.
\<close>
theorem cd_command_reply_irq:
  assumes "pic_wf (cd_pic s)"
  shows "cd_status_timer (towns_cdrom_w (set_irq_line 1) 1 c s) =
      (cd_status_timer s \<or> cd_answers (drive_exists (cd_drive s)) c)
    \<and> (cd_status_timer (towns_cdrom_w (set_irq_line 1) 1 c s) \<longrightarrow>
        irq_level 1 (cd_pic (cd_fire_status (set_irq_line 1) (towns_cdrom_w (set_irq_line 1) 1 c s))) = tst c 0x40
      \<and> irq_latched 1 (cd_pic (cd_fire_status (set_irq_line 1) (towns_cdrom_w (set_irq_line 1) 1 c s))) = tst c 0x40
      \<and> cd_status (cd_fire_status (set_irq_line 1) (towns_cdrom_w (set_irq_line 1) 1 c s)) AND 0x83 = 0x83)"
proof -
  let ?w = "towns_cdrom_w (set_irq_line 1) 1 c s"
  let ?s = "cd_fire_status (set_irq_line 1) ?w"
  have wf: "pic_wf (cd_pic ?s)"
    using assms
    by (auto simp: towns_cdrom_w_def cd_fire_status_def towns_cd_status_ready_def cd_pic_set_irq
        execute_pic intro!: pic_wf_line)
  have "cd_status_timer ?w \<Longrightarrow> irq_level 1 (cd_pic ?s) = tst c 0x40 \<and> irq_latched 1 (cd_pic ?s) = tst c 0x40"
    using ir1.command_reply_latches [OF assms] ir1.command_reply_silent [OF assms]
      ir1.latched_level [OF wf] by auto
  moreover have "cd_status_timer ?w \<Longrightarrow> cd_status ?s AND 0x83 = 0x83"
    by (simp add: cd_fire_status_def towns_cd_status_ready_def towns_cdrom_set_irq_def
        set_status_bits_def u8_eq_bits bit_simps)
  moreover have "cd_status_timer ?w = (cd_status_timer s \<or> cd_answers (drive_exists (cd_drive s)) c)"
    using execute_replies [of "set_irq_line 1" "s\<lparr>cd_command := c\<rparr>"] by (simp add: towns_cdrom_w_def)
  ultimately show ?thesis by blast
qed

lemma cd_command_reply_irq_witness:
  "irq_latched 1 (cd_pic (cd_fire_status (set_irq_line 1)
     (towns_cdrom_w (set_irq_line 1) 1 0xe0 (cd_init None (pic_reset False)))))"
  using cd_command_reply_irq [where s = "cd_init None (pic_reset False)" and c = "0xe0"] pic_wf_reset [of False]
  by (simp add: cd_init_def cd_answers_def)

subsection \<open>Software transfers deliver the sectors\<close>

text \<open>\<open>n\<close> reads of the data port, and one sector as the driver software fetches it.\<close>

fun cd_data_reads ::
    "(bool \<Rightarrow> 'c \<Rightarrow> 'c) \<Rightarrow> (int \<Rightarrow> u8) \<Rightarrow> nat \<Rightarrow> 'c cd \<Rightarrow> u8 list \<times> 'c cd" where
  "cd_data_reads ir1 wild 0 s = ([], s)"
| "cd_data_reads ir1 wild (Suc n) s =
     (let (x, s1) = towns_cdrom_r ir1 wild 2 s; (xs, s2) = cd_data_reads ir1 wild n s1 in (x # xs, s2))"

fun cd_fetch :: "(bool \<Rightarrow> 'c \<Rightarrow> 'c) \<Rightarrow> (int \<Rightarrow> u8) \<Rightarrow> nat \<Rightarrow> 'c cd \<Rightarrow> u8 list \<times> 'c cd" where
  "cd_fetch ir1 wild 0 s = ([], s)"
| "cd_fetch ir1 wild (Suc n) s =
     (let (xs, s1) = cd_data_reads ir1 wild 2048 (towns_cdrom_w ir1 3 0x08 s);
          (ys, s2) = cd_fetch ir1 wild n s1
      in (xs @ ys, s2))"

text \<open>The drive returns whole sectors; \<open>data lba\<close> is the contents of a sector.\<close>

definition sectors_readable :: "drive \<Rightarrow> (u32 \<Rightarrow> u8 list) \<Rightarrow> bool" where
  "sectors_readable dr data = (\<forall>lba buf. length buf = 2048 \<longrightarrow>
     fst (drive_read_data dr lba CD_TRACK_MODE1 buf) = data lba \<and> length (data lba) = 2048)"

lemma cd_data_reads_within:
  assumes "cd_software_tx s" "length (cd_buffer s) = 2048" "cd_buffer_ptr s = int p" "p + n < 2048"
  shows "cd_data_reads ir1 wild n s =
    (take n (drop p (cd_buffer s)), s\<lparr>cd_buffer_ptr := int (p + n)\<rparr>)"
  using assms
proof (induction n arbitrary: s p)
  case 0
  then show ?case by simp
next
  case (Suc n)
  have "towns_cdrom_r ir1 wild 2 s = (cd_buffer s ! p, s\<lparr>cd_buffer_ptr := int (Suc p)\<rparr>)"
    using Suc.prems
    by (simp add: towns_cdrom_r_def towns_cdrom_read_byte_software_def cd_buffer_at_def Let_def)
  moreover have "cd_data_reads ir1 wild n (s\<lparr>cd_buffer_ptr := int (Suc p)\<rparr>) =
      (take n (drop (Suc p) (cd_buffer s)), s\<lparr>cd_buffer_ptr := int (Suc p + n)\<rparr>)"
    by (subst Suc.IH [where p = "Suc p"]) (use Suc.prems in simp_all)
  ultimately show ?case
    using Suc.prems(2,4) by (simp add: Cons_nth_drop_Suc [symmetric])
qed

lemma cd_data_reads_append:
  "cd_data_reads ir1 wild (m + n) s =
     (let (xs, s1) = cd_data_reads ir1 wild m s; (ys, s2) = cd_data_reads ir1 wild n s1 in (xs @ ys, s2))"
  by (induction m arbitrary: s) (auto simp: Let_def split: prod.splits)

lemma cd_data_reads_sector:
  assumes "cd_software_tx s" "length (cd_buffer s) = 2048" "cd_buffer_ptr s = 0"
  shows "cd_data_reads ir1 wild 2048 s = (cd_buffer s, cd_software_sector_end ir1 s)"
proof -
  let ?s = "s\<lparr>cd_buffer_ptr := 2047\<rparr>"
  have a: "cd_data_reads ir1 wild 2047 s = (take 2047 (cd_buffer s), ?s)"
    using cd_data_reads_within [of s 0 2047 ir1 wild] assms by simp
  have "towns_cdrom_r ir1 wild 2 ?s = (cd_buffer s ! 2047, cd_software_sector_end ir1 s)"
    using assms
    by (simp add: towns_cdrom_r_def towns_cdrom_read_byte_software_def cd_buffer_at_def Let_def software_end_ptr)
  then have b: "cd_data_reads ir1 wild 1 ?s = ([cd_buffer s ! 2047], cd_software_sector_end ir1 s)"
    by simp
  have "cd_data_reads ir1 wild (2047 + 1) s =
      (take 2047 (cd_buffer s) @ [cd_buffer s ! 2047], cd_software_sector_end ir1 s)"
    by (simp only: cd_data_reads_append a b Let_def prod.case)
  moreover have "take 2047 (cd_buffer s) @ [cd_buffer s ! 2047] = cd_buffer s"
    using assms(2) take_Suc_conv_app_nth [of 2047 "cd_buffer s"] by simp
  ultimately show ?thesis by simp
qed

lemma start_software:
  "towns_cdrom_w ir1 3 0x08 s = (cd_mode_software s)\<lparr>cd_software_tx := True, cd_buffer_ptr := 0\<rparr>"
  by (simp add: towns_cdrom_w_def)

lemma mode_software_frame [simp]:
  "cd_buffer (cd_mode_software s) = cd_buffer s" "cd_drive (cd_mode_software s) = cd_drive s"
  "cd_lba_current (cd_mode_software s) = cd_lba_current s" "cd_lba_last (cd_mode_software s) = cd_lba_last s"
  "cd_software_tx (cd_mode_software s) = cd_software_tx s"
  by (simp_all add: cd_mode_software_def set_status_bits_def clear_status_bits_def)

lemma status_bits_fields [simp]:
  "cd_buffer (set_status_bits m s) = cd_buffer s" "cd_drive (set_status_bits m s) = cd_drive s"
  "cd_lba_current (set_status_bits m s) = cd_lba_current s" "cd_lba_last (set_status_bits m s) = cd_lba_last s"
  "cd_software_tx (set_status_bits m s) = cd_software_tx s"
  "cd_buffer (clear_status_bits m s) = cd_buffer s" "cd_drive (clear_status_bits m s) = cd_drive s"
  "cd_lba_current (clear_status_bits m s) = cd_lba_current s" "cd_lba_last (clear_status_bits m s) = cd_lba_last s"
  "cd_software_tx (clear_status_bits m s) = cd_software_tx s"
  by (simp_all add: set_status_bits_def clear_status_bits_def)

lemma set_irq_fields [simp]:
  "cd_buffer (towns_cdrom_set_irq ir1 l st s) = cd_buffer s"
  "cd_drive (towns_cdrom_set_irq ir1 l st s) = cd_drive s"
  "cd_lba_current (towns_cdrom_set_irq ir1 l st s) = cd_lba_current s"
  "cd_lba_last (towns_cdrom_set_irq ir1 l st s) = cd_lba_last s"
  "cd_software_tx (towns_cdrom_set_irq ir1 l st s) = cd_software_tx s"
  "cd_buffer (towns_cd_set_status a b c d s) = cd_buffer s"
  "cd_drive (towns_cd_set_status a b c d s) = cd_drive s"
  "cd_lba_current (towns_cd_set_status a b c d s) = cd_lba_current s"
  "cd_lba_last (towns_cd_set_status a b c d s) = cd_lba_last s"
  "cd_software_tx (towns_cd_set_status a b c d s) = cd_software_tx s"
  by (simp_all add: towns_cdrom_set_irq_def towns_cd_set_status_def)

lemma load_fields [simp]:
  "cd_drive (cd_load_sector lba s) = cd_drive s" "cd_lba_current (cd_load_sector lba s) = cd_lba_current s"
  "cd_lba_last (cd_load_sector lba s) = cd_lba_last s" "cd_software_tx (cd_load_sector lba s) = cd_software_tx s"
  by (simp_all add: cd_load_sector_def)

lemma unat_Suc_less:
  fixes x y :: u32
  assumes "x < y"
  shows "unat (x + 1) = Suc (unat x)"
proof -
  have "unat x < unat y" using assms by (simp add: word_less_nat_alt)
  moreover have "unat y < 2 ^ 32" using unsigned_less [of y] by simp
  ultimately have "unat x + 1 < 2 ^ 32" by linarith
  then show ?thesis by (simp add: unat_word_ariths)
qed

lemma load_buffer:
  "sectors_readable (cd_drive s) data \<Longrightarrow> length (cd_buffer s) = 2048 \<Longrightarrow>
     cd_buffer (cd_load_sector lba s) = data lba"
  by (simp add: cd_load_sector_def sectors_readable_def)

lemma software_end_more:
  assumes "cd_lba_current s < cd_lba_last s" "sectors_readable (cd_drive s) data" "length (cd_buffer s) = 2048"
  shows "cd_buffer (cd_software_sector_end ir1 s) = data (cd_lba_current s + 1)"
    "cd_lba_current (cd_software_sector_end ir1 s) = cd_lba_current s + 1"
    "cd_lba_last (cd_software_sector_end ir1 s) = cd_lba_last s"
    "cd_drive (cd_software_sector_end ir1 s) = cd_drive s"
  using assms by (simp_all add: cd_software_sector_end_def Let_def load_buffer not_le [symmetric])

lemma software_end_last:
  assumes "\<not> cd_lba_current s < cd_lba_last s"
  shows "cd_status (cd_software_sector_end ir1 s) AND 0x71 = 0x41"
    "cd_cmd_status (cd_software_sector_end ir1 s) = [0x06, 0, 0, 0]"
    "cd_buffer_ptr (cd_software_sector_end ir1 s) = -1"
    "cd_pic (cd_software_sector_end ir1 s) = (if tst (cd_command s) 0x40 then ir1 True (cd_pic s) else cd_pic s)"
  using assms
  by (simp_all add: not_less cd_software_sector_end_def Let_def cd_transfer_done_def towns_cdrom_set_irq_def
      towns_cd_set_status_def set_status_bits_def clear_status_bits_def u8_eq_bits bit_simps)

lemma cd_fetch_delivers:
  assumes "sectors_readable (cd_drive s) data" "cd_buffer s = data (cd_lba_current s)"
    "n \<le> Suc (unat (cd_lba_last s) - unat (cd_lba_current s))" "cd_lba_current s \<le> cd_lba_last s"
  shows "fst (cd_fetch ir1 wild n s) = concat (map (\<lambda>k. data (cd_lba_current s + of_nat k)) [0..<n])
    \<and> (n = Suc (unat (cd_lba_last s) - unat (cd_lba_current s)) \<longrightarrow>
        cd_status (snd (cd_fetch ir1 wild n s)) AND 0x71 = 0x41 \<and>
        cd_cmd_status (snd (cd_fetch ir1 wild n s)) = [0x06, 0, 0, 0])"
  using assms
proof (induction n arbitrary: s)
  case 0
  then show ?case by simp
next
  case (Suc n)
  let ?s1 = "towns_cdrom_w ir1 3 0x08 s"
  have len: "length (cd_buffer s) = 2048"
    using Suc.prems(1,2) by (metis length_replicate sectors_readable_def)
  have b: "cd_buffer ?s1 = cd_buffer s" "cd_drive ?s1 = cd_drive s" "cd_lba_current ?s1 = cd_lba_current s"
    "cd_lba_last ?s1 = cd_lba_last s" "cd_software_tx ?s1" "cd_buffer_ptr ?s1 = 0"
    by (simp_all add: start_software)
  let ?s2 = "cd_software_sector_end ir1 ?s1"
  have R: "cd_data_reads ir1 wild 2048 ?s1 = (cd_buffer s, ?s2)"
    using cd_data_reads_sector [of ?s1 ir1 wild] b len by simp
  have up: "[0..<Suc n] = 0 # map Suc [0..<n]" by (simp add: upt_conv_Cons map_Suc_upt del: upt_Suc)
  have F: "cd_fetch ir1 wild (Suc n) s =
      (cd_buffer s @ fst (cd_fetch ir1 wild n ?s2), snd (cd_fetch ir1 wild n ?s2))"
    by (simp only: cd_fetch.simps R Let_def prod.case split_beta fst_conv snd_conv)
  show ?case
  proof (cases "cd_lba_current s < cd_lba_last s")
    case True
    note M = software_end_more [of ?s1 data ir1, unfolded b, OF True Suc.prems(1) len]
    have inc: "unat (cd_lba_current s + 1) = Suc (unat (cd_lba_current s))"
      using True by (rule unat_Suc_less)
    have lt: "unat (cd_lba_current s) < unat (cd_lba_last s)" using True by (simp add: word_less_nat_alt)
    have "fst (cd_fetch ir1 wild n ?s2) = concat (map (\<lambda>k. data (cd_lba_current ?s2 + of_nat k)) [0..<n])
      \<and> (n = Suc (unat (cd_lba_last ?s2) - unat (cd_lba_current ?s2)) \<longrightarrow>
        cd_status (snd (cd_fetch ir1 wild n ?s2)) AND 0x71 = 0x41 \<and>
        cd_cmd_status (snd (cd_fetch ir1 wild n ?s2)) = [0x06, 0, 0, 0])"
      by (rule Suc.IH) (use M Suc.prems inc lt in \<open>simp_all add: word_le_nat_alt\<close>)
    then show ?thesis
      unfolding F up using M Suc.prems(2) inc lt
      by (auto simp: o_def algebra_simps Suc_diff_Suc simp del: cd_fetch.simps)
  next
    case False
    then have "cd_lba_current s = cd_lba_last s" using Suc.prems(4) by simp
    then have "n = 0" using Suc.prems(3) by simp
    then show ?thesis
      unfolding F up using software_end_last [of ?s1 ir1] b False Suc.prems(2) by simp
  qed
qed

lemma read_command_fields:
  assumes "cd_command s AND 0x9f = 0x02" "drive_exists (cd_drive s)" "cd_param_lba1 s \<le> cd_param_lba2 s"
    "sectors_readable (cd_drive s) data" "length (cd_buffer s) = 2048"
  shows "cd_lba_current (towns_cdrom_execute_command ir1 s) = cd_param_lba1 s"
    "cd_lba_last (towns_cdrom_execute_command ir1 s) = cd_param_lba2 s"
    "cd_buffer (towns_cdrom_execute_command ir1 s) = data (cd_param_lba1 s)"
    "cd_drive (towns_cdrom_execute_command ir1 s) = cd_drive s"
proof -
  let ?s2 = "clear_status_bits 0x02 ((towns_cdrom_set_irq ir1 TOWNS_CD_IRQ_MPU False s)\<lparr>cd_seek_timer := False\<rparr>)"
  have p: "cd_parameter ?s2 = cd_parameter s"
    by (simp add: clear_status_bits_def towns_cdrom_set_irq_def)
  have x: "towns_cdrom_execute_command ir1 s = towns_cdrom_read ?s2"
    using assms(1,2) by (simp add: towns_cdrom_execute_command_def Let_def)
  have q: "cd_param_lba1 ?s2 = cd_param_lba1 s" "cd_param_lba2 ?s2 = cd_param_lba2 s"
    by (simp_all add: cd_param_lba1_def cd_param_lba2_def p)
  show "cd_lba_current (towns_cdrom_execute_command ir1 s) = cd_param_lba1 s"
    "cd_lba_last (towns_cdrom_execute_command ir1 s) = cd_param_lba2 s"
    "cd_buffer (towns_cdrom_execute_command ir1 s) = data (cd_param_lba1 s)"
    "cd_drive (towns_cdrom_execute_command ir1 s) = cd_drive s"
    using assms(3-5)
    by (simp_all add: x towns_cdrom_read_def q Let_def cd_mode_dma_def load_buffer not_less [symmetric])
qed

text \<open>
  C8: a read command for sectors a to b (given as BCD minute/second/frame parameters) followed by
  fetching sectors through the data port, with the software transfer started afresh for each,
  returns exactly the contents of sectors a, a + 1, ... in order, for every number of sectors up to
  b; and after the last one the controller reports the end of the transfer: ready, transfer-end
  flag, no transfer mode, and the final status block 06. The transfer-end flag (bit 6) is set whatever the interrupt bit of the
  command is, as the code does and its comment on the port denies.
\<close>
theorem cd_software_read_delivers:
  assumes "sectors_readable (cd_drive s) data" "drive_exists (cd_drive s)" "length (cd_buffer s) = 2048"
    "c AND 0x9f = 0x02" "cd_param_lba1 s \<le> cd_param_lba2 s"
    "n \<le> Suc (unat (cd_param_lba2 s) - unat (cd_param_lba1 s))"
  shows "fst (cd_fetch ir1 wild n (towns_cdrom_w ir1 1 c s)) =
      concat (map (\<lambda>k. data (cd_param_lba1 s + of_nat k)) [0..<n])
    \<and> (n = Suc (unat (cd_param_lba2 s) - unat (cd_param_lba1 s)) \<longrightarrow>
        cd_status (snd (cd_fetch ir1 wild n (towns_cdrom_w ir1 1 c s))) AND 0x71 = 0x41 \<and>
        cd_cmd_status (snd (cd_fetch ir1 wild n (towns_cdrom_w ir1 1 c s))) = [0x06, 0, 0, 0])"
proof -
  have w: "towns_cdrom_w ir1 1 c s = towns_cdrom_execute_command ir1 (s\<lparr>cd_command := c\<rparr>)"
    by (simp add: towns_cdrom_w_def)
  have q: "cd_param_lba1 (s\<lparr>cd_command := c\<rparr>) = cd_param_lba1 s" "cd_param_lba2 (s\<lparr>cd_command := c\<rparr>) = cd_param_lba2 s"
    by (simp_all add: cd_param_lba1_def cd_param_lba2_def)
  note R = read_command_fields [of "s\<lparr>cd_command := c\<rparr>" data ir1, folded w, unfolded q]
  show ?thesis
    using cd_fetch_delivers [of "towns_cdrom_w ir1 1 c s" data n ir1 wild] R assms by simp
qed

definition data_disc :: disc where
  "data_disc = \<lparr>toc_of = \<lparr>numtrks = 1, gdrom_le = False, tracks = replicate 100 (sample_track CD_TRACK_MODE1 0)\<rparr>,
     image_of = Chd (\<lambda>ofs n. (replicate n 0x5a, True))\<rparr>"

lemma data_disc_readable: "sectors_readable (Some data_disc) (\<lambda>_. replicate 2048 0x5a)"
  by (simp add: sectors_readable_def drive_read_data_def read_data_def logical_to_chd_lba_def data_disc_def
      track_of_def sample_track_def read_partial_sector_def overlay_def)

lemma cd_software_read_delivers_witness:
  "fst (cd_fetch (set_irq_line 1) (\<lambda>_. 0) 2 (towns_cdrom_w (set_irq_line 1) 1 0x22
     ((cd_init (Some data_disc) (pic_reset False))\<lparr>cd_parameter := [0, 0, 0x01, 0x02, 0x00, 0x00, 0x02, 0x00]\<rparr>))) =
   replicate 4096 0x5a"
proof -
  let ?s = "(cd_init (Some data_disc) (pic_reset False))\<lparr>cd_parameter := [0, 0, 0x01, 0x02, 0x00, 0x00, 0x02, 0x00]\<rparr>"
  have "cd_parameter ?s = [0, 0, 0x01, 0x02, 0x00, 0x00, 0x02, 0x00]" by simp
  then have "cd_param_lba1 ?s = 0" "cd_param_lba2 ?s = 1"
    by (simp_all add: cd_param_lba1_def cd_param_lba2_def msf_to_lbafm_def byte32_def bcd_to_byte_def Let_def)
  then have "fst (cd_fetch (set_irq_line 1) (\<lambda>_. 0) 2 (towns_cdrom_w (set_irq_line 1) 1 0x22 ?s)) =
      concat (map (\<lambda>k. replicate 2048 0x5a) [0..<2])"
    using cd_software_read_delivers [where s = ?s and data = "\<lambda>_. replicate 2048 0x5a" and c = "0x22" and n = 2
        and ?ir1.0 = "set_irq_line 1" and wild = "\<lambda>_. 0"] data_disc_readable
    by (simp add: cd_init_def drive_exists_def)
  moreover have "concat (map (\<lambda>k. replicate 2048 (0x5a :: u8)) [0..<2]) = replicate 4096 0x5a"
    by (simp add: numeral_2_eq_2 flip: replicate_add)
  ultimately show ?thesis by (simp only:)
qed

subsection \<open>DMA transfers deliver the sector to memory\<close>

text \<open>
  The wiring of channel 3: the device side is the sector buffer, the memory side main memory as
  the DMA controller sees it. The other channels have no device here.
\<close>

definition cd_dma_env :: "(int \<Rightarrow> u8) \<Rightarrow> ('c cd \<times> (u32 \<Rightarrow> u8)) dma_env" where
  "cd_dma_env wild = \<lparr>
     e_dev_read = \<lambda>ch. if ch = 3 then
       Some (\<lambda>d (s, m). let (x, s') = towns_cdrom_dma_r wild s in (x, d, (s', m))) else None,
     e_dev_write = \<lambda>ch x d e. (d, e), e_cpu = True,
     e_mem_read = \<lambda>a (s, m). (m a, (s, m)),
     e_mem_write = \<lambda>a x (s, m). (s, m(a := x))\<rparr>"

definition cd_pop :: "(int \<Rightarrow> u8) \<Rightarrow> 'c cd \<times> (u32 \<Rightarrow> u8) \<Rightarrow> u16 \<times> 'c cd \<times> (u32 \<Rightarrow> u8)" where
  "cd_pop wild e = (let (s, m) = e; (x, s') = towns_cdrom_dma_r wild s in (x, (s', m)))"

interpretation cd_dma: dma_source "cd_dma_env wild" 3 "cd_pop wild" snd for wild
  by unfold_locales (auto simp: cd_dma_env_def cd_pop_def fun_eq_iff Let_def split: prod.splits)

text \<open>
  One byte of a transfer as the machine runs it: the byte timer raises the request, the DMA
  controller's own timer, which is an order of magnitude faster, moves the byte, and the next byte
  timer event drops the request and looks at the buffer pointer.
\<close>

definition cd_byte_period ::
    "(bool \<Rightarrow> 'c \<Rightarrow> 'c) \<Rightarrow> (int \<Rightarrow> u8) \<Rightarrow> dma \<times> 'c cd \<times> (u32 \<Rightarrow> u8) \<Rightarrow> dma \<times> 'c cd \<times> (u32 \<Rightarrow> u8)" where
  "cd_byte_period ir1 wild x =
     (let (d, s, m) = x;
          (s1, d1) = towns_cdrom_read_byte ir1 True (s, d);
          (d2, s2, m2) = dma_fire (cd_dma_env wild) 3 (d1, (s1, m));
          (s3, d3) = towns_cdrom_read_byte ir1 False (s2, d2)
      in (d3, s3, m2))"

text \<open>The transfer itself does not look at the byte timer.\<close>

lemma dma_fire_timer:
  "dma_fire (cd_dma_env wild) 3 (d, (s\<lparr>cd_read_timer := t\<rparr>, m)) =
     (let (d', s', m') = dma_fire (cd_dma_env wild) 3 (d, (s, m)) in (d', (s'\<lparr>cd_read_timer := t\<rparr>, m')))"
  by (simp add: dma_fire_def dma_transfer_timer_def cd_dma_env_def towns_cdrom_dma_r_def cd_buffer_at_def Let_def)

lemma cd_byte_period_turn:
  assumes "0 \<le> cd_buffer_ptr s"
    and "dma_turn (cd_dma_env wild) 3 (d, (s, m)) = (d', s', m')"
    and "0 \<le> cd_buffer_ptr s'"
  shows "cd_byte_period ir1 wild (d, s, m) =
    (d', if cd_buffer_ptr s' < 2048 then s'\<lparr>cd_read_timer := Some True\<rparr>
         else cd_dma_sector_end ir1 (s'\<lparr>cd_read_timer := Some False\<rparr>), m')"
proof -
  obtain d2 where f: "dma_fire (cd_dma_env wild) 3 (snd (dmarq True 3 d), (s, m)) = (d2, s', m')"
    and d': "d' = released 3 d2"
    using assms(2) by (auto simp: dma_turn_def dma_cycle_def Let_def split: prod.splits)
  have "towns_cdrom_read_byte ir1 True (s, d) = (s\<lparr>cd_read_timer := Some False\<rparr>, snd (dmarq True 3 d))"
    using assms(1) by (simp add: towns_cdrom_read_byte_def Let_def split: prod.split)
  moreover have "dma_fire (cd_dma_env wild) 3 (snd (dmarq True 3 d), (s\<lparr>cd_read_timer := Some False\<rparr>, m)) =
      (d2, s'\<lparr>cd_read_timer := Some False\<rparr>, m')"
    by (simp add: dma_fire_timer f)
  moreover have "towns_cdrom_read_byte ir1 False (s'\<lparr>cd_read_timer := Some False\<rparr>, d2) =
      (if cd_buffer_ptr s' < 2048 then s'\<lparr>cd_read_timer := Some True\<rparr>
       else cd_dma_sector_end ir1 (s'\<lparr>cd_read_timer := Some False\<rparr>), d')"
    using assms(3) by (simp add: towns_cdrom_read_byte_def d' dmarq_def)
  ultimately show ?thesis by (simp add: cd_byte_period_def Let_def)
qed

lemma turn_ptr:
  assumes "in_to_mem 3 d" "0 \<le> cd_buffer_ptr s" "cd_buffer_ptr s < 2048"
    "dma_turn (cd_dma_env wild) 3 (d, (s, m)) = (d', s', m')"
  shows "s' = s\<lparr>cd_buffer_ptr := cd_buffer_ptr s + 1\<rparr>"
proof -
  have "snd (dma_turn (cd_dma_env wild) 3 (d, (s, m))) =
      e_mem_write (cd_dma_env wild) (d_address_current d 3) (datum (cd_pop wild) (s, m) 0) (snd (cd_pop wild (s, m)))"
    by (simp only: cd_dma.turn [OF assms(1)] snd_conv)
  then show ?thesis
    using assms(2-4) by (simp add: cd_dma_env_def cd_pop_def towns_cdrom_dma_r_def)
qed

lemma lo8_ucast: "lo8 (ucast x) = x"
  by (rule u8_eqI) (simp add: lo8_def bit_simps)

lemma periods_are_turns:
  assumes "in_to_mem 3 d" "k \<le> unat (d_count_current d 3)" "k \<le> 2047"
    "cd_buffer_ptr s = 0" "cd_read_timer s = Some True"
  shows "(cd_byte_period ir1 wild ^^ k) (d, s, m) = (dma_turn (cd_dma_env wild) 3 ^^ k) (d, (s, m)) \<and>
    fst (snd ((dma_turn (cd_dma_env wild) 3 ^^ k) (d, (s, m)))) = s\<lparr>cd_buffer_ptr := int k\<rparr>"
  using assms(2,3)
proof (induction k)
  case 0
  then show ?case using assms(4) by simp
next
  case (Suc k)
  obtain d1 s1 m1 where t: "(dma_turn (cd_dma_env wild) 3 ^^ k) (d, (s, m)) = (d1, s1, m1)"
    by (metis prod_cases3)
  obtain d2 s2 m2 where u: "dma_turn (cd_dma_env wild) 3 (d1, (s1, m1)) = (d2, s2, m2)"
    by (metis prod_cases3)
  have s1: "s1 = s\<lparr>cd_buffer_ptr := int k\<rparr>" using Suc t by simp
  have "in_to_mem 3 d1" using cd_dma.turns_before_tc [OF assms(1) _ t] Suc.prems by simp
  then have s2: "s2 = s1\<lparr>cd_buffer_ptr := cd_buffer_ptr s1 + 1\<rparr>"
    by (rule turn_ptr [OF _ _ _ u]) (use s1 Suc.prems in simp_all)
  have "cd_byte_period ir1 wild (d1, s1, m1) = (d2, s2, m2)"
    using cd_byte_period_turn [OF _ u] s1 s2 Suc.prems assms(5) by simp
  then show ?case using Suc t u s1 s2 by simp
qed

lemma cd_datum:
  assumes "cd_buffer_ptr s = 0" "length (cd_buffer s) = 2048" "k < 2048"
  shows "datum (cd_pop wild) (s, m) k = cd_buffer s ! k"
proof -
  have "((\<lambda>e. snd (cd_pop wild e)) ^^ j) (s, m) = (s\<lparr>cd_buffer_ptr := int j\<rparr>, m)" if "j \<le> 2048" for j
    using that
  proof (induction j)
    case 0
    then show ?case using assms(1) by simp
  next
    case (Suc j)
    then show ?case by (simp add: cd_pop_def towns_cdrom_dma_r_def)
  qed
  from this [of k] show ?thesis
    using assms(2,3) unfolding datum_def
    by (simp add: cd_pop_def towns_cdrom_dma_r_def cd_buffer_at_def lo8_ucast)
qed

lemma sector_end_status:
  assumes "cd_lba_last s \<le> cd_lba_current s"
  shows "cd_status (cd_dma_sector_end ir1 s) AND 0x71 = 0x41"
    "cd_cmd_status (cd_dma_sector_end ir1 s) = [0x06, 0, 0, 0]" "cd_buffer_ptr (cd_dma_sector_end ir1 s) = -1"
  using assms
  by (simp_all add: cd_dma_sector_end_def Let_def cd_transfer_done_def towns_cdrom_set_irq_def
      towns_cd_set_status_def set_status_bits_def clear_status_bits_def u8_eq_bits bit_simps)

lemma sector_end_more:
  assumes "cd_lba_current s < cd_lba_last s"
  shows "cd_lba_current (cd_dma_sector_end ir1 s) = cd_lba_current s + 1"
    "cd_buffer (cd_dma_sector_end ir1 s) =
       fst (drive_read_data (cd_drive s) (cd_lba_current s + 1) CD_TRACK_MODE1 (cd_buffer s))"
    "cd_buffer_ptr (cd_dma_sector_end ir1 s) = -1" "cd_status (cd_dma_sector_end ir1 s) AND 0x70 = 0x40"
  using assms
  by (simp_all add: cd_dma_sector_end_def Let_def not_le [symmetric] cd_load_sector_def
      towns_cdrom_set_irq_def towns_cd_set_status_def set_status_bits_def clear_status_bits_def
      u8_eq_bits bit_simps)

text \<open>
  C7: with channel 3 of the DMA controller programmed for the 2048 bytes of a sector from address
  a upwards, without auto-initialise, the 2048 byte periods of a transfer store exactly the
  sector buffer at a, a + 1, ... and nothing else, and leave the channel masked with its terminal
  count flag set. The drive then either reports the end of the transfer (last sector) or has the
  next sector in its buffer and waits, with the buffer pointer parked, for the channel to be
  programmed again. As in C8 the transfer-end flag is set whatever the interrupt bit of the command is; and the address counts in
  all 32 bits (\<open>dma_carries_into_top_byte\<close>), where the notes on the controller say that nothing is carried into the top eight.
\<close>
theorem cd_dma_sector_transfer:
  assumes "in_to_mem 3 d" "\<not> tst (d_mode_control d 3) 0x10" "d_count_current d 3 = 2047"
    "cd_buffer_ptr s = 0" "cd_read_timer s = Some True" "length (cd_buffer s) = 2048"
  shows "\<exists>d' s' m'. (cd_byte_period ir1 wild ^^ 2048) (d, s, m) = (d', s', m')
    \<and> (\<forall>x. m' x = (if unat (x - d_address_current d 3) < 2048
                   then cd_buffer s ! unat (x - d_address_current d 3) else m x))
    \<and> tst (d_status d') (chan_bit 1 3) \<and> tst (d_mask d') (chan_bit 1 3)
    \<and> cd_buffer_ptr s' = -1
    \<and> (if cd_lba_current s < cd_lba_last s
       then cd_lba_current s' = cd_lba_current s + 1 \<and> cd_status s' AND 0x70 = 0x40 \<and>
         cd_buffer s' = fst (drive_read_data (cd_drive s) (cd_lba_current s + 1) CD_TRACK_MODE1 (cd_buffer s))
       else cd_status s' AND 0x71 = 0x41 \<and> cd_cmd_status s' = [0x06, 0, 0, 0])"
proof -
  let ?T = "dma_turn (cd_dma_env wild) 3" and ?P = "cd_byte_period ir1 wild"
  have c: "unat (d_count_current d 3) = 2047" by (simp add: assms(3))
  obtain d1 s1 m1 where t: "(?T ^^ 2047) (d, (s, m)) = (d1, s1, m1)" by (metis prod_cases3)
  obtain d2 s2 m2 where u: "?T (d1, (s1, m1)) = (d2, s2, m2)" by (metis prod_cases3)
  have "in_to_mem 3 d1" using cd_dma.turns_before_tc [OF assms(1) _ t] c by simp
  have K: "(?P ^^ 2047) (d, s, m) = (d1, s1, m1)" "s1 = s\<lparr>cd_buffer_ptr := 2047\<rparr>"
    using periods_are_turns [OF assms(1), of 2047 s ir1 wild m] assms(4,5) c t by simp_all
  have s2: "s2 = s\<lparr>cd_buffer_ptr := 2048\<rparr>"
    using turn_ptr [OF \<open>in_to_mem 3 d1\<close> _ _ u] K(2) by simp
  let ?e = "cd_dma_sector_end ir1 (s2\<lparr>cd_read_timer := Some False\<rparr>)"
  have "?P (d1, s1, m1) = (d2, ?e, m2)"
    using cd_byte_period_turn [OF _ u] K(2) s2 by simp
  then have P: "(?P ^^ Suc 2047) (d, s, m) = (d2, ?e, m2)" by (simp only: funpow.simps o_apply K(1))
  have U: "(?T ^^ Suc 2047) (d, (s, m)) = (d2, s2, m2)" by (simp only: funpow.simps o_apply t u)
  have n: "(2048 :: nat) = Suc 2047" by simp
  have B: "m2 = stored (d_address_current d 3) 2048 (datum (cd_pop wild) (s, m)) m
      \<and> tst (d_status d2) (chan_bit 1 3) \<and> tst (d_mask d2) (chan_bit 1 3)"
    using cd_dma.block_done [OF assms(1,2), of wild "(s, m)" d2 "(s2, m2)", unfolded c, OF U]
    by (simp add: n [symmetric] del: funpow.simps)
  have M: "m2 x = (if unat (x - d_address_current d 3) < 2048
      then cd_buffer s ! unat (x - d_address_current d 3) else m x)" for x
    using B cd_datum [OF assms(4,6)] by (simp add: stored_def)
  have E: "cd_buffer_ptr ?e = -1 \<and> (if cd_lba_current s < cd_lba_last s
       then cd_lba_current ?e = cd_lba_current s + 1 \<and> cd_status ?e AND 0x70 = 0x40 \<and>
         cd_buffer ?e = fst (drive_read_data (cd_drive s) (cd_lba_current s + 1) CD_TRACK_MODE1 (cd_buffer s))
       else cd_status ?e AND 0x71 = 0x41 \<and> cd_cmd_status ?e = [0x06, 0, 0, 0])"
    using sector_end_status [of "s2\<lparr>cd_read_timer := Some False\<rparr>" ir1]
      sector_end_more [of "s2\<lparr>cd_read_timer := Some False\<rparr>" ir1]
    by (simp add: s2 not_less)
  show ?thesis
    using P [folded n] B M E by blast
qed

lemma cd_dma_sector_transfer_witness:
  "\<exists>d' s' m'. (cd_byte_period (set_irq_line 1) (\<lambda>_. 0) ^^ 2048)
     (dma_write 0x0f 0x07 (dma_program 3 0x44 0x07ff 0x1000 (dma_start dma_zero)),
      (cd_init None (pic_reset False))\<lparr>cd_buffer_ptr := 0, cd_read_timer := Some True, cd_buffer := replicate 2048 0x5a\<rparr>,
      (\<lambda>_. 0)) = (d', s', m') \<and> m' 0x1003 = 0x5a \<and> m' 0x1800 = 0 \<and> tst (d_mask d') (chan_bit 1 3)"
proof -
  let ?d = "dma_write 0x0f 0x07 (dma_program 3 0x44 0x07ff 0x1000 (dma_start dma_zero))"
  let ?s = "(cd_init None (pic_reset False))\<lparr>cd_buffer_ptr := 0, cd_read_timer := Some True, cd_buffer := replicate 2048 0x5a\<rparr>"
  have D: "in_to_mem 3 ?d" "\<not> tst (d_mode_control ?d 3) 0x10" "d_count_current ?d 3 = 2047"
    "d_address_current ?d 3 = 0x1000"
    by (simp_all add: dma_program_eq dma_write_def in_to_mem_def dma_ready_def dma_start_def chan_bit_def set_lo_hi)
  obtain d' s' m' where R: "(cd_byte_period (set_irq_line 1) (\<lambda>_. 0) ^^ 2048) (?d, ?s, (\<lambda>_. 0)) = (d', s', m')"
    "\<forall>x. m' x = (if unat (x - 0x1000) < 2048 then cd_buffer ?s ! unat (x - 0x1000) else 0)"
    "tst (d_mask d') (chan_bit 1 3)"
    using cd_dma_sector_transfer [OF D(1-3), of ?s "set_irq_line 1" "\<lambda>_. 0" "\<lambda>_. 0"] by (auto simp: D(4))
  have "m' 0x1003 = 0x5a" "m' 0x1800 = 0" using R(2) [rule_format, of "0x1003"] R(2) [rule_format, of "0x1800"] by simp_all
  with R(1,3) show ?thesis by blast
qed

subsection \<open>The table-of-contents reply\<close>

text \<open>One status block read through the command port, and the reading of all blocks that come.\<close>

definition cd_read_block :: "(bool \<Rightarrow> 'c \<Rightarrow> 'c) \<Rightarrow> (int \<Rightarrow> u8) \<Rightarrow> 'c cd \<Rightarrow> u8 list \<times> 'c cd" where
  "cd_read_block ir1 wild s =
     (let (a, s1) = towns_cdrom_r ir1 wild 1 s; (b, s2) = towns_cdrom_r ir1 wild 1 s1;
          (c, s3) = towns_cdrom_r ir1 wild 1 s2; (d, s4) = towns_cdrom_r ir1 wild 1 s3
      in ([a, b, c, d], s4))"

fun cd_read_blocks ::
    "(bool \<Rightarrow> 'c \<Rightarrow> 'c) \<Rightarrow> (int \<Rightarrow> u8) \<Rightarrow> nat \<Rightarrow> 'c cd \<Rightarrow> u8 list list \<times> 'c cd" where
  "cd_read_blocks ir1 wild 0 s = ([], s)"
| "cd_read_blocks ir1 wild (Suc n) s =
     (if cd_status_timer s then
        let (b, s1) = cd_read_block ir1 wild (cd_fire_status ir1 s);
            (bs, s2) = cd_read_blocks ir1 wild n s1
        in (b # bs, s2)
      else ([], s))"

text \<open>What the reply should consist of.\<close>

definition msf_block :: "drive \<Rightarrow> nat \<Rightarrow> u8 list" where
  "msf_block dr track =
     (let a = lba_to_msf (drive_track_start dr track + 150) in [0x17, byte32 2 a, byte32 1 a, byte32 0 a])"

definition adr_block :: "drive \<Rightarrow> nat \<Rightarrow> u8 list" where
  "adr_block dr track =
     (let adr = drive_adr_control dr track
      in [0x16, ucast (push_bit 4 (adr AND 0x0f) OR drop_bit 4 (adr AND 0xf0)),
          byte_to_bcd (of_nat (track + 1)), 0x00])"

definition toc_reply :: "drive \<Rightarrow> u8 list list" where
  "toc_reply dr =
     [[0x16, 0x00, 0xa0, 0x00], [0x17, 0x01, 0x00, 0x00], [0x16, 0x00, 0xa1, 0x00],
      [0x17, byte_to_bcd (of_nat (drive_last_track dr)), 0x00, 0x00], [0x16, 0x00, 0xa2, 0x00],
      msf_block dr 0xaa] @
     concat (map (\<lambda>t. [adr_block dr t, msf_block dr t]) [0..<Suc (drive_last_track dr)])"

text \<open>The block that \<open>cd_toc_status\<close> queues at step \<open>x\<close>.\<close>

definition toc_block :: "drive \<Rightarrow> nat \<Rightarrow> u8 list" where
  "toc_block dr x =
     (if x = 1 then [0x16, 0x00, 0xa0, 0x00] else if x = 2 then [0x17, 0x01, 0x00, 0x00]
      else if x = 3 then [0x16, 0x00, 0xa1, 0x00]
      else if x = 4 then [0x17, byte_to_bcd (of_nat (drive_last_track dr)), 0x00, 0x00]
      else if x = 5 then [0x16, 0x00, 0xa2, 0x00] else if x = 6 then msf_block dr 0xaa
      else if odd x then adr_block dr (x div 2 - 3) else msf_block dr (x div 2 - 4))"

lemma length_toc_block: "length (toc_block dr x) = 4"
  by (simp add: toc_block_def msf_block_def adr_block_def Let_def)

lemma more_status_ptr [simp]: "cd_cmd_status_ptr (cd_more_status s) = cd_cmd_status_ptr s"
  by (simp add: cd_more_status_def cd_toc_status_def cd_audio_status_def cd_set_msf_def bump_extra_def
      towns_cd_set_status_def clear_status_bits_def Let_def)

lemma cd_read_block_eq:
  assumes "cd_cmd_status_ptr s = 0" "length (cd_cmd_status s) = 4"
  shows "cd_read_block ir1 wild s = (cd_cmd_status s,
    (let s' = clear_status_bits 2 (s\<lparr>cd_cmd_status_ptr := 3\<rparr>)
     in if cd_extra_status s \<noteq> 0 then cd_more_status s' else s')\<lparr>cd_cmd_status_ptr := 0\<rparr>)"
proof -
  obtain a b c d where l: "cd_cmd_status s = [a, b, c, d]"
    using assms(2) by (auto simp: length_Suc_conv numeral_eq_Suc)
  show ?thesis
    using assms(1) by (simp add: cd_read_block_def towns_cdrom_r_def l Let_def clear_status_bits_def numeral_3_eq_3)
qed

lemma toc_status_step:
  assumes "cd_extra_status s = of_nat x" "1 \<le> x" "x < 256" "x \<le> 2 * drive_last_track (cd_drive s) + 8"
    "drive_last_track (cd_drive s) \<le> 99"
  shows "cd_cmd_status (cd_toc_status s) = toc_block (cd_drive s) x" "cd_status_timer (cd_toc_status s)"
    "cd_command (cd_toc_status s) = cd_command s" "cd_drive (cd_toc_status s) = cd_drive s"
    "cd_extra_status (cd_toc_status s) =
      (if x = 2 * drive_last_track (cd_drive s) + 8 then 0 else of_nat (Suc x))"
proof -
  let ?n = "drive_last_track (cd_drive s)"
  have u: "unat (cd_extra_status s) = x" using assms(1,3) by (simp add: unat_of_nat)
  have last: "even x \<Longrightarrow> 7 \<le> x \<Longrightarrow> x div 2 - 4 \<ge> ?n \<longleftrightarrow> x = 2 * ?n + 8"
    using assms(4) by (auto elim!: evenE)
  have inc: "cd_extra_status s + 1 = of_nat (Suc x)" by (simp add: assms(1))
  have odd_last: "odd x \<Longrightarrow> x \<noteq> 2 * ?n + 8" by auto
  consider "x = 1" | "x = 2" | "x = 3" | "x = 4" | "x = 5" | "x = 6" | "7 \<le> x" using assms(2) by linarith
  then show "cd_cmd_status (cd_toc_status s) = toc_block (cd_drive s) x" "cd_status_timer (cd_toc_status s)"
    "cd_command (cd_toc_status s) = cd_command s" "cd_drive (cd_toc_status s) = cd_drive s"
    "cd_extra_status (cd_toc_status s) = (if x = 2 * ?n + 8 then 0 else of_nat (Suc x))"
    using u last inc odd_last
    by (cases; simp add: cd_toc_status_def toc_block_def cd_set_msf_def bump_extra_def towns_cd_set_status_def
        msf_block_def adr_block_def Let_def)+
qed

lemma fire_status_fields:
  assumes "cd_status_timer s"
  shows "cd_cmd_status (cd_fire_status ir1 s) = cd_cmd_status s" "cd_cmd_status_ptr (cd_fire_status ir1 s) = 0"
    "cd_extra_status (cd_fire_status ir1 s) = cd_extra_status s"
    "cd_command (cd_fire_status ir1 s) = cd_command s" "cd_drive (cd_fire_status ir1 s) = cd_drive s"
    "\<not> cd_status_timer (cd_fire_status ir1 s)"
  using assms
  by (simp_all add: cd_fire_status_def towns_cd_status_ready_def towns_cdrom_set_irq_def
      set_status_bits_def)

lemma read_blocks_last:
  assumes "cd_status_timer s" "cd_extra_status s = 0" "length (cd_cmd_status s) = 4"
  shows "\<exists>s'. cd_read_blocks ir1 wild (Suc k) s = ([cd_cmd_status s], s') \<and>
    \<not> cd_status_timer s' \<and> cd_extra_status s' = 0"
proof -
  note F = fire_status_fields [OF assms(1), of ir1]
  have "\<exists>s1. cd_read_block ir1 wild (cd_fire_status ir1 s) = (cd_cmd_status s, s1) \<and>
      \<not> cd_status_timer s1 \<and> cd_extra_status s1 = 0"
    using F assms(2,3) by (simp add: cd_read_block_eq clear_status_bits_def)
  then obtain s1 where s1: "cd_read_block ir1 wild (cd_fire_status ir1 s) = (cd_cmd_status s, s1)"
    "\<not> cd_status_timer s1" "cd_extra_status s1 = 0" by blast
  have "cd_read_blocks ir1 wild k s1 = ([], s1)" using s1(2) by (cases k) simp_all
  with s1 assms(1) show ?thesis by simp
qed

lemma read_blocks_toc:
  assumes "cd_status_timer s" "cd_extra_status s = of_nat x" "1 \<le> x"
    "x + m = 2 * drive_last_track (cd_drive s) + 8" "drive_last_track (cd_drive s) \<le> 99"
    "cd_command s AND 0x9f = 0x05" "length (cd_cmd_status s) = 4"
  shows "\<exists>s'. cd_read_blocks ir1 wild (m + 2 + k) s =
      (cd_cmd_status s # map (toc_block (cd_drive s)) [x..<2 * drive_last_track (cd_drive s) + 9], s') \<and>
    \<not> cd_status_timer s' \<and> cd_extra_status s' = 0"
  using assms
proof (induction m arbitrary: s x)
  case (0 s x)
  note F = fire_status_fields [OF 0(1), of ir1]
  let ?f = "clear_status_bits 2 ((cd_fire_status ir1 s)\<lparr>cd_cmd_status_ptr := 3\<rparr>)"
  let ?s1 = "(cd_toc_status ?f)\<lparr>cd_cmd_status_ptr := 0\<rparr>"
  have f: "cd_extra_status ?f = of_nat x" "cd_drive ?f = cd_drive s" "cd_command ?f = cd_command s"
    using F 0(2) by (simp_all add: clear_status_bits_def)
  note T = toc_status_step [of ?f x, unfolded f]
  have nz: "cd_extra_status s \<noteq> 0"
  proof
    assume "cd_extra_status s = 0"
    then have "unat (of_nat x :: u8) = 0" using 0(2) by simp
    then show False using 0(3,4,5) by (simp add: unat_of_nat)
  qed
  have b: "cd_read_block ir1 wild (cd_fire_status ir1 s) = (cd_cmd_status s, ?s1)"
    using F 0(6,7) nz by (simp add: cd_read_block_eq cd_more_status_def f Let_def)
  have "\<exists>s'. cd_read_blocks ir1 wild (Suc k) ?s1 = ([toc_block (cd_drive s) x], s') \<and>
      \<not> cd_status_timer s' \<and> cd_extra_status s' = 0"
    using read_blocks_last [of ?s1 ir1 wild k] T 0(3-5) by (simp add: length_toc_block)
  then obtain s' where s': "cd_read_blocks ir1 wild (Suc k) ?s1 = ([toc_block (cd_drive s) x], s')"
    "\<not> cd_status_timer s'" "cd_extra_status s' = 0" by blast
  have "cd_read_blocks ir1 wild (Suc (Suc k)) s = ([cd_cmd_status s, toc_block (cd_drive s) x], s')"
    by (subst cd_read_blocks.simps(2)) (simp add: b s' 0(1) del: cd_read_blocks.simps)
  moreover have "[x..<2 * drive_last_track (cd_drive s) + 9] = [x]" using 0(4) by (simp add: upt_rec)
  ultimately show ?case using s'(2,3) by simp
next
  case (Suc m s x)
  note F = fire_status_fields [OF Suc(2), of ir1]
  let ?f = "clear_status_bits 2 ((cd_fire_status ir1 s)\<lparr>cd_cmd_status_ptr := 3\<rparr>)"
  let ?s1 = "(cd_toc_status ?f)\<lparr>cd_cmd_status_ptr := 0\<rparr>"
  have f: "cd_extra_status ?f = of_nat x" "cd_drive ?f = cd_drive s" "cd_command ?f = cd_command s"
    using F Suc(3) by (simp_all add: clear_status_bits_def)
  note T = toc_status_step [of ?f x, unfolded f]
  have nz: "cd_extra_status s \<noteq> 0"
  proof
    assume "cd_extra_status s = 0"
    then have "unat (of_nat x :: u8) = 0" using Suc(3) by simp
    then show False using Suc(4-6) by (simp add: unat_of_nat)
  qed
  have b: "cd_read_block ir1 wild (cd_fire_status ir1 s) = (cd_cmd_status s, ?s1)"
    using F Suc(7,8) nz by (simp add: cd_read_block_eq cd_more_status_def f Let_def)
  have "\<exists>s'. cd_read_blocks ir1 wild (m + 2 + k) ?s1 =
      (cd_cmd_status ?s1 # map (toc_block (cd_drive ?s1)) [Suc x..<2 * drive_last_track (cd_drive ?s1) + 9], s') \<and>
      \<not> cd_status_timer s' \<and> cd_extra_status s' = 0"
    by (rule Suc.IH) (use T Suc(4-7) in \<open>simp_all add: length_toc_block\<close>)
  then obtain s' where s': "cd_read_blocks ir1 wild (m + 2 + k) ?s1 =
      (toc_block (cd_drive s) x # map (toc_block (cd_drive s)) [Suc x..<2 * drive_last_track (cd_drive s) + 9], s')"
    "\<not> cd_status_timer s'" "cd_extra_status s' = 0"
    using T Suc(4-6) by auto
  have "[x..<2 * drive_last_track (cd_drive s) + 9] = x # [Suc x..<2 * drive_last_track (cd_drive s) + 9]"
    using Suc(5) by (intro upt_conv_Cons) simp
  moreover have "cd_read_blocks ir1 wild (Suc (m + 2 + k)) s =
      (cd_cmd_status s # toc_block (cd_drive s) x # map (toc_block (cd_drive s)) [Suc x..<2 * drive_last_track (cd_drive s) + 9], s')"
    by (subst cd_read_blocks.simps(2)) (simp only: b s' Suc(2) if_True Let_def prod.case)
  ultimately show ?case using s'(2,3) by simp
qed

lemma toc_blocks_tracks:
  "map (toc_block dr) [7..<7 + 2 * m] = concat (map (\<lambda>t. [adr_block dr t, msf_block dr t]) [0..<m])"
proof (induction m)
  case (Suc m)
  have "7 + 2 * Suc m = Suc (Suc (7 + 2 * m))" by simp
  then have "[7..<7 + 2 * Suc m] = [7..<7 + 2 * m] @ [7 + 2 * m, 8 + 2 * m]"
    by (simp only: upt_Suc) simp
  moreover have "(7 + 2 * m) div 2 = m + 3" "(8 + 2 * m) div 2 = m + 4" by presburger+
  then have "toc_block dr (7 + 2 * m) = adr_block dr m" "toc_block dr (8 + 2 * m) = msf_block dr m"
    by (simp_all add: toc_block_def)
  ultimately show ?case using Suc by simp
qed simp

lemma toc_blocks_reply: "map (toc_block dr) [1..<2 * drive_last_track dr + 9] = toc_reply dr"
proof -
  have "[1..<2 * drive_last_track dr + 9] = [1..<7] @ [7..<7 + 2 * Suc (drive_last_track dr)]"
    using upt_add_eq_append [of 1 7 "2 * drive_last_track dr + 2"] by (simp add: add.commute)
  moreover have "map (toc_block dr) [1..<7] = take 6 (toc_reply dr)"
    by (simp add: upt_rec toc_block_def toc_reply_def)
  ultimately show ?thesis by (simp only: map_append toc_blocks_tracks) (simp add: toc_reply_def)
qed

lemma toc_sequence:
  assumes "drive_exists (cd_drive s)" "drive_last_track (cd_drive s) \<le> 99"
    "c AND 0x9f = 0x05" "tst c 0x20" "2 * drive_last_track (cd_drive s) + 10 \<le> n"
  shows "\<exists>s'. cd_read_blocks ir1 wild n (towns_cdrom_w ir1 1 c s) =
      ([0, 0, 0, 0] # toc_reply (cd_drive s), s') \<and> \<not> cd_status_timer s' \<and> cd_extra_status s' = 0"
proof -
  let ?s = "towns_cdrom_w ir1 1 c s" and ?n = "drive_last_track (cd_drive s)"
  have f: "cd_status_timer ?s" "cd_extra_status ?s = of_nat 1" "cd_drive ?s = cd_drive s"
    "cd_command ?s AND 0x9f = 0x05" "cd_cmd_status ?s = [0, 0, 0, 0]"
    using assms(1,3,4)
    by (simp_all add: towns_cdrom_w_def towns_cdrom_execute_command_def towns_cdrom_set_irq_def
        clear_status_bits_def towns_cd_set_status_def Let_def)
  obtain k where n: "n = (2 * ?n + 7) + 2 + k + 1" using assms(5) by (auto simp: le_iff_add)
  show ?thesis
    using read_blocks_toc [of ?s 1 "2 * ?n + 7" ir1 wild "k + 1", unfolded f(3,5)] f assms(2)
    by (simp add: n flip: toc_blocks_reply)
qed

text \<open>
  A table-of-contents command that asks for status is answered by an acknowledging block and
  then, block by block as the four status bytes are read, by the whole reply: first track, last
  track, lead-out address, and the control and address blocks of tracks 1 to n + 1; after the last
  block nothing more is queued.
\<close>
lemma cd_toc_sequence:
  assumes "drive_exists (cd_drive s)" "drive_last_track (cd_drive s) \<le> 99"
    "c AND 0x9f = 0x05" "tst c 0x20" "2 * drive_last_track (cd_drive s) + 10 \<le> n"
  shows "\<exists>s'. cd_read_blocks ir1 wild n (towns_cdrom_w ir1 1 c s) =
      ([0, 0, 0, 0] # toc_reply (cd_drive s), s') \<and> \<not> cd_status_timer s' \<and> cd_extra_status s' = 0"
  using assms by (rule toc_sequence)

lemma cd_toc_sequence_witness:
  "\<exists>s'. cd_read_blocks (set_irq_line 1) (\<lambda>_. 0) 14
     (towns_cdrom_w (set_irq_line 1) 1 0x25 (cd_init (Some sample_disc) (pic_reset False))) =
     ([0, 0, 0, 0] # toc_reply (Some sample_disc), s')"
proof -
  let ?s = "cd_init (Some sample_disc) (pic_reset False)"
  have "drive_exists (cd_drive ?s)" "drive_last_track (cd_drive ?s) = 2" "cd_drive ?s = Some sample_disc"
    by (simp_all add: cd_init_def drive_exists_def drive_last_track_def get_last_track_def sample_starts(4))
  then show ?thesis using cd_toc_sequence [of ?s "0x25" 14 "set_irq_line 1" "\<lambda>_. 0"] by auto
qed

text \<open>
  The loop that builds the reply runs one track too far: on any loaded disc with n tracks the
  table-of-contents command is answered by the blocks of n + 1 tracks, and the address given for
  the last of them is the lead-out.
\<close>
lemma toc_reply_counts_leadout:
  assumes "cd_drive s = Some d" "get_last_track d \<le> 99" "c AND 0x9f = 0x05" "tst c 0x20"
  shows "length (fst (cd_read_blocks ir1 wild 208 (towns_cdrom_w ir1 1 c s))) = 7 + 2 * (get_last_track d + 1)
    \<and> last (fst (cd_read_blocks ir1 wild 208 (towns_cdrom_w ir1 1 c s))) = msf_block (Some d) 0xaa"
proof -
  have n: "drive_last_track (Some d) = get_last_track d" by (simp add: drive_last_track_def)
  obtain s' where "cd_read_blocks ir1 wild 208 (towns_cdrom_w ir1 1 c s) = ([0, 0, 0, 0] # toc_reply (Some d), s')"
    using toc_sequence [of s c 208 ir1 wild] assms by (auto simp: drive_exists_def n)
  moreover have "length (toc_reply (Some d)) = 6 + 2 * (get_last_track d + 1)"
    by (simp add: toc_reply_def n length_concat o_def sum_list_triv)
  moreover have "last (toc_reply (Some d)) = msf_block (Some d) 0xaa" "toc_reply (Some d) \<noteq> []"
    using assms(2)
    by (simp_all add: toc_reply_def n msf_block_def drive_track_start_def get_track_start_def get_last_track_def)
  ultimately show ?thesis by simp
qed

lemma toc_reply_counts_leadout_witness:
  "length (fst (cd_read_blocks (set_irq_line 1) (\<lambda>_. 0) 208
     (towns_cdrom_w (set_irq_line 1) 1 0x25 (cd_init (Some sample_disc) (pic_reset False))))) = 13"
  using toc_reply_counts_leadout [of "cd_init (Some sample_disc) (pic_reset False)" sample_disc "0x25"]
  by (simp add: cd_init_def get_last_track_def sample_starts(4))

end
