(* ===== verification/Towns_Keyboard.thy ===== *)
theory Towns_Keyboard
  imports Pic8259
begin

text \<open>
  The keyboard controller, \<open>src/mame/fujitsu/fmtowns.cpp\<close> (\<open>kb_sendcode\<close>, \<open>poll_keyboard\<close>,
  \<open>towns_keyboard_r/w\<close>): the two-byte key codes, the output-full flag and the interrupt on IR1 of the
  master controller, whose callback is a parameter. \<open>ports\<close> are the four 32-key columns as they read
  at the moment of the call.
\<close>

unbundle bit_operations_syntax

record 'c kbd =
  k_status :: u8
  k_irq1_enable :: bool
  k_output :: u8
  k_extend :: u8
  k_prev :: "nat \<Rightarrow> u32"
  k_pic :: 'c

text \<open>The parts of \<open>machine_reset\<close> that concern the keyboard.\<close>

definition kb_reset :: "'c kbd \<Rightarrow> 'c kbd" where
  "kb_reset k = k\<lparr>k_status := 0x18, k_irq1_enable := False\<rparr>"

datatype kb_event = Key_press | Key_release | Extended_byte

definition kb_modifiers :: "(nat \<Rightarrow> u32) \<Rightarrow> u8" where
  "kb_modifiers ports =
     (if tst (ports 2) 0x00080000 then 0x04 else 0) OR (if tst (ports 2) 0x00040000 then 0x08 else 0)"

definition kb_sendcode ::
    "(bool \<Rightarrow> 'c \<Rightarrow> 'c) \<Rightarrow> (nat \<Rightarrow> u32) \<Rightarrow> u8 \<Rightarrow> kb_event \<Rightarrow> 'c kbd \<Rightarrow> 'c kbd" where
  "kb_sendcode ir1 ports scancode ev k =
     (let k1 = (case ev of
                  Key_press \<Rightarrow> k\<lparr>k_output := 0xc0 OR kb_modifiers ports, k_extend := scancode AND 0x7f\<rparr>
                | Key_release \<Rightarrow> k\<lparr>k_output := 0xd0 OR kb_modifiers ports, k_extend := scancode AND 0x7f\<rparr>
                | Extended_byte \<Rightarrow> k\<lparr>k_output := scancode, k_extend := 0xff\<rparr>);
          k2 = k1\<lparr>k_status := k_status k1 OR 0x01\<rparr>
      in if k_irq1_enable k2 then k2\<lparr>k_pic := ir1 True (k_pic k2)\<rparr> else k2)"

text \<open>One key of a column, a column, and the whole scan; \<open>scan\<close> counts keys from 0 to 127.\<close>

definition poll_key :: "(bool \<Rightarrow> 'c \<Rightarrow> 'c) \<Rightarrow> (nat \<Rightarrow> u32) \<Rightarrow> nat \<Rightarrow> nat \<Rightarrow> 'c kbd \<Rightarrow> 'c kbd" where
  "poll_key ir1 ports port b k =
     (if bit (ports port) b \<noteq> bit (k_prev k port) b then
        kb_sendcode ir1 ports (of_nat (32 * port + b))
          (if \<not> bit (ports port) b then Key_release else Key_press) k
      else k)"

definition poll_port :: "(bool \<Rightarrow> 'c \<Rightarrow> 'c) \<Rightarrow> (nat \<Rightarrow> u32) \<Rightarrow> nat \<Rightarrow> 'c kbd \<Rightarrow> 'c kbd" where
  "poll_port ir1 ports port k =
     (let k1 = fold (poll_key ir1 ports port) [0..<32] k
      in k1\<lparr>k_prev := (k_prev k1)(port := ports port)\<rparr>)"

definition poll_keyboard :: "(bool \<Rightarrow> 'c \<Rightarrow> 'c) \<Rightarrow> (nat \<Rightarrow> u32) \<Rightarrow> 'c kbd \<Rightarrow> 'c kbd" where
  "poll_keyboard ir1 ports k = fold (poll_port ir1 ports) [0..<4] k"

definition towns_keyboard_r ::
    "(bool \<Rightarrow> 'c \<Rightarrow> 'c) \<Rightarrow> (nat \<Rightarrow> u32) \<Rightarrow> nat \<Rightarrow> 'c kbd \<Rightarrow> u8 \<times> 'c kbd" where
  "towns_keyboard_r ir1 ports offset k =
     (if offset = 0 then
        let ret = k_output k;
            k1 = k\<lparr>k_pic := ir1 False (k_pic k)\<rparr>
        in (ret, if k_extend k1 \<noteq> 0xff then kb_sendcode ir1 ports (k_extend k1) Extended_byte k1
                 else k1\<lparr>k_status := k_status k1 AND NOT 0x01\<rparr>)
      else if offset = 1 then (k_status k, k)
      else (0x00, k))"

definition towns_keyboard_w :: "nat \<Rightarrow> u8 \<Rightarrow> 'c kbd \<Rightarrow> 'c kbd" where
  "towns_keyboard_w offset data k =
     (if offset = 0 then k\<lparr>k_status := (k_status k AND NOT 0x08) OR 0x01\<rparr>
      else if offset = 1 then k\<lparr>k_status := k_status k OR 0x08\<rparr>
      else if offset = 2 then k\<lparr>k_irq1_enable := tst data 0x01\<rparr>
      else k)"

subsection \<open>The scan as a list of changed keys\<close>

definition changed_keys :: "(nat \<Rightarrow> u32) \<Rightarrow> (nat \<Rightarrow> u32) \<Rightarrow> (nat \<times> nat) list" where
  "changed_keys prev ports =
     filter (\<lambda>(p, b). bit (ports p) b \<noteq> bit (prev p) b) (concat (map (\<lambda>p. map (Pair p) [0..<32]) [0..<4]))"

definition send_key :: "(bool \<Rightarrow> 'c \<Rightarrow> 'c) \<Rightarrow> (nat \<Rightarrow> u32) \<Rightarrow> nat \<times> nat \<Rightarrow> 'c kbd \<Rightarrow> 'c kbd" where
  "send_key ir1 ports pb k =
     kb_sendcode ir1 ports (of_nat (32 * fst pb + snd pb))
       (if \<not> bit (ports (fst pb)) (snd pb) then Key_release else Key_press) k"

lemma sendcode_prev [simp]: "k_prev (kb_sendcode ir1 ports c ev k) = k_prev k"
  by (simp add: kb_sendcode_def Let_def split: kb_event.split)

lemma send_keys_prev [simp]: "k_prev (fold (send_key ir1 ports) ks k) = k_prev k"
  by (induction ks arbitrary: k) (simp_all add: send_key_def)

lemma sendcode_set_prev:
  "kb_sendcode ir1 ports c ev (k\<lparr>k_prev := f\<rparr>) = (kb_sendcode ir1 ports c ev k)\<lparr>k_prev := f\<rparr>"
  by (simp add: kb_sendcode_def Let_def split: kb_event.split)

lemma send_keys_set_prev:
  "fold (send_key ir1 ports) ks (k\<lparr>k_prev := f\<rparr>) = (fold (send_key ir1 ports) ks k)\<lparr>k_prev := f\<rparr>"
  by (induction ks arbitrary: k) (simp_all add: send_key_def sendcode_set_prev)

lemma poll_keys_fold:
  "fold (poll_key ir1 ports p) bs k =
     fold (send_key ir1 ports) (filter (\<lambda>(p, b). bit (ports p) b \<noteq> bit (k_prev k p) b) (map (Pair p) bs)) k"
proof (induction bs arbitrary: k)
  case (Cons b bs)
  then show ?case by (simp add: poll_key_def send_key_def)
qed simp

lemma poll_port_fold:
  "poll_port ir1 ports p k =
     (fold (send_key ir1 ports)
        (filter (\<lambda>(p, b). bit (ports p) b \<noteq> bit (k_prev k p) b) (map (Pair p) [0..<32])) k)
     \<lparr>k_prev := (k_prev k)(p := ports p)\<rparr>"
  by (simp add: poll_port_def Let_def poll_keys_fold)

lemma poll_ports_fold:
  assumes "distinct ps"
  shows "fold (poll_port ir1 ports) ps k =
    (fold (send_key ir1 ports) (filter (\<lambda>(p, b). bit (ports p) b \<noteq> bit (k_prev k p) b)
        (concat (map (\<lambda>p. map (Pair p) [0..<32]) ps))) k)
    \<lparr>k_prev := \<lambda>p. if p \<in> set ps then ports p else k_prev k p\<rparr>"
  using assms
proof (induction ps arbitrary: k)
  case Nil
  then show ?case by simp
next
  case (Cons p ps)
  let ?F = "\<lambda>k'. filter (\<lambda>(p, b). bit (ports p) b \<noteq> bit (k_prev k' p) b)"
  let ?k1 = "poll_port ir1 ports p k"
  have prev: "k_prev ?k1 = (k_prev k)(p := ports p)" by (simp add: poll_port_fold)
  have same: "?F ?k1 (concat (map (\<lambda>p. map (Pair p) [0..<32]) ps)) = ?F k (concat (map (\<lambda>p. map (Pair p) [0..<32]) ps))"
    using Cons.prems by (intro filter_cong refl) (auto simp: prev split: if_splits)
  have upd: "(\<lambda>q. if q \<in> set ps then ports q else ((k_prev k)(p := ports p)) q) =
      (\<lambda>q. if q \<in> set (p # ps) then ports q else k_prev k q)"
    by (rule ext) simp
  have IH: "fold (poll_port ir1 ports) ps ?k1 =
      (fold (send_key ir1 ports) (?F ?k1 (concat (map (\<lambda>p. map (Pair p) [0..<32]) ps))) ?k1)
      \<lparr>k_prev := \<lambda>q. if q \<in> set ps then ports q else k_prev ?k1 q\<rparr>"
    by (rule Cons.IH) (use Cons.prems in simp)
  have "fold (poll_port ir1 ports) (p # ps) k =
      (fold (send_key ir1 ports) (?F k (concat (map (\<lambda>p. map (Pair p) [0..<32]) ps))) ?k1)
      \<lparr>k_prev := \<lambda>q. if q \<in> set ps then ports q else k_prev ?k1 q\<rparr>"
    by (simp only: fold_Cons o_apply IH same)
  also have "\<dots> = (fold (send_key ir1 ports) (?F k (concat (map (\<lambda>p. map (Pair p) [0..<32]) (p # ps)))) k)
      \<lparr>k_prev := \<lambda>q. if q \<in> set (p # ps) then ports q else k_prev k q\<rparr>"
    unfolding prev upd by (simp add: poll_port_fold send_keys_set_prev)
  finally show ?case .
qed

text \<open>A scan sends the changed keys in order and remembers the new state of the four columns.\<close>

lemma poll_keyboard_changed:
  "poll_keyboard ir1 ports k =
     (fold (send_key ir1 ports) (changed_keys (k_prev k) ports) k)
     \<lparr>k_prev := \<lambda>p. if p < 4 then ports p else k_prev k p\<rparr>"
  unfolding poll_keyboard_def changed_keys_def by (subst poll_ports_fold) simp_all

subsection \<open>The interrupt follows the output buffer\<close>

definition kb_full :: "'c kbd \<Rightarrow> bool" where
  "kb_full k = bit (k_status k) 0"

context irq_input
begin

lemma sendcode_line:
  assumes "ok (k_pic k)"
  shows "ok (k_pic (kb_sendcode out ports c ev k))" "kb_full (kb_sendcode out ports c ev k)"
    "k_irq1_enable (kb_sendcode out ports c ev k) = k_irq1_enable k"
    "k_irq1_enable k \<Longrightarrow> level (k_pic (kb_sendcode out ports c ev k))"
    "k_irq1_enable k \<Longrightarrow> latched (k_pic (kb_sendcode out ports c ev k)) = (latched (k_pic k) \<or> \<not> level (k_pic k))"
  using assms
  by (auto simp: kb_sendcode_def kb_full_def Let_def line_laws bit_or_iff split: kb_event.split)

lemma send_keys_line:
  assumes "ok (k_pic k)" "k_irq1_enable k" "latched (k_pic k) \<or> \<not> level (k_pic k)"
  shows "ok (k_pic (fold (send_key out ports) ks k)) \<and> k_irq1_enable (fold (send_key out ports) ks k) \<and>
    (latched (k_pic (fold (send_key out ports) ks k)) \<or> \<not> level (k_pic (fold (send_key out ports) ks k)))"
  using assms
proof (induction ks arbitrary: k)
  case (Cons x ks)
  note S = sendcode_line [OF Cons.prems(1), of ports]
  have "ok (k_pic (send_key out ports x k))" "k_irq1_enable (send_key out ports x k)"
    "latched (k_pic (send_key out ports x k)) \<or> \<not> level (k_pic (send_key out ports x k))"
    using S Cons.prems(2,3) by (simp_all add: send_key_def)
  from Cons.IH [OF this] show ?case by simp
qed simp

end

text \<open>A key code as the protocol defines it.\<close>

definition key_code :: "(nat \<Rightarrow> u32) \<Rightarrow> nat \<Rightarrow> nat \<Rightarrow> u8 \<times> u8" where
  "key_code ports p b =
     ((if bit (ports p) b then 0xc0 else 0xd0) OR kb_modifiers ports, of_nat (32 * p + b))"

lemma changed_key_range:
  "changed_keys prev ports = ks @ [(p, b)] \<Longrightarrow> p < 4 \<and> b < 32"
proof -
  assume "changed_keys prev ports = ks @ [(p, b)]"
  then have "(p, b) \<in> set (changed_keys prev ports)" by simp
  then show ?thesis by (auto simp: changed_keys_def)
qed

lemma scancode_7bit: "n < 128 \<Longrightarrow> (of_nat n :: u8) AND 0x7f = of_nat n"
proof -
  assume n: "n < 128"
  have "(of_nat n :: u8) AND 0x7f = take_bit 7 (of_nat n)" by (simp add: take_bit_eq_mask mask_eq_exp_minus_1)
  also have "\<dots> = of_nat n" using n by (simp add: word_unat_eq_iff unsigned_take_bit_eq unat_of_nat unat_mod take_bit_eq_mod)
  finally show ?thesis .
qed

lemma scancode_not_ff: "n < 128 \<Longrightarrow> (of_nat n :: u8) \<noteq> 0xff"
  by (simp add: word_unat_eq_iff unat_of_nat)

text \<open>
  C19: after a scan of the keyboard with interrupts enabled, in which the last key found changed
  is key b of column p, the output-full flag is set and the interrupt input of the master
  controller is high and latched. The first read returns the status byte of that key with its
  top bit set and makes a new edge on the input for the second byte; the second read returns the
  scan code, below 128, and leaves the flag clear and the input low. Codes of keys that changed
  earlier in the same scan are overwritten.
\<close>
theorem kb_two_byte_protocol:
  assumes "pic_wf (k_pic k)" "k_irq1_enable k" "\<not> irq_level 1 (k_pic k)"
    "changed_keys (k_prev k) ports = ks @ [(p, b)]"
  shows "\<exists>k1 k2 k3. poll_keyboard (set_irq_line 1) ports k = k1
    \<and> kb_full k1 \<and> irq_level 1 (k_pic k1) \<and> irq_latched 1 (k_pic k1)
    \<and> towns_keyboard_r (set_irq_line 1) ports 0 k1 = (fst (key_code ports p b), k2)
    \<and> bit (fst (key_code ports p b)) 7
    \<and> kb_full k2 \<and> irq_level 1 (k_pic k2) \<and> irq_latched 1 (k_pic k2)
    \<and> towns_keyboard_r (set_irq_line 1) ports 0 k2 = (snd (key_code ports p b), k3)
    \<and> unat (snd (key_code ports p b)) = 32 * p + b \<and> 32 * p + b < 128
    \<and> \<not> kb_full k3 \<and> \<not> irq_level 1 (k_pic k3)"
proof -
  let ?f = "fold (send_key (set_irq_line 1) ports) ks k"
  let ?k1 = "poll_keyboard (set_irq_line 1) ports k"
  have pb: "32 * p + b < 128" using changed_key_range [OF assms(4)] by simp
  have k1: "?k1 = (send_key (set_irq_line 1) ports (p, b) ?f)\<lparr>k_prev := \<lambda>p. if p < 4 then ports p else k_prev k p\<rparr>"
    by (simp add: poll_keyboard_changed assms(4))
  have F: "pic_wf (k_pic ?f)" "k_irq1_enable ?f" "irq_latched 1 (k_pic ?f) \<or> \<not> irq_level 1 (k_pic ?f)"
    using ir1.send_keys_line [OF assms(1,2), of ports ks] assms(3) by blast+
  note S = ir1.sendcode_line [OF F(1), of ports "of_nat (32 * p + b)"
      "if \<not> bit (ports p) b then Key_release else Key_press"]
  have out: "k_output ?k1 = fst (key_code ports p b)" "k_extend ?k1 = of_nat (32 * p + b)"
    unfolding k1 using pb by (simp_all add: send_key_def kb_sendcode_def key_code_def Let_def scancode_7bit
        del: of_nat_add of_nat_mult)
  have P: "pic_wf (k_pic ?k1)" "k_irq1_enable ?k1" "kb_full ?k1" "irq_level 1 (k_pic ?k1)" "irq_latched 1 (k_pic ?k1)"
    unfolding k1 using S F by (simp_all add: send_key_def kb_full_def)
  let ?m = "?k1\<lparr>k_pic := set_irq_line 1 False (k_pic ?k1)\<rparr>"
  let ?k2 = "kb_sendcode (set_irq_line 1) ports (k_extend ?k1) Extended_byte ?m"
  have r1: "towns_keyboard_r (set_irq_line 1) ports 0 ?k1 = (fst (key_code ports p b), ?k2)"
    using out scancode_not_ff [OF pb] by (simp add: towns_keyboard_r_def Let_def del: of_nat_add of_nat_mult)
  have mp: "pic_wf (k_pic ?m)" using P(1) by (simp add: pic_wf_line)
  note S2 = ir1.sendcode_line [OF mp, of ports "k_extend ?k1" Extended_byte]
  have Q: "pic_wf (k_pic ?k2)" "kb_full ?k2" "irq_level 1 (k_pic ?k2)" "irq_latched 1 (k_pic ?k2)"
    using S2 P(1,2) ir1.level_out [OF P(1), of False] by simp_all
  have o2: "k_output ?k2 = snd (key_code ports p b)" "k_extend ?k2 = 0xff"
    by (simp_all add: kb_sendcode_def Let_def out key_code_def del: of_nat_add of_nat_mult One_nat_def)
  let ?k3 = "?k2\<lparr>k_pic := set_irq_line 1 False (k_pic ?k2), k_status := k_status ?k2 AND NOT 0x01\<rparr>"
  have r2: "towns_keyboard_r (set_irq_line 1) ports 0 ?k2 = (snd (key_code ports p b), ?k3)"
    by (simp add: towns_keyboard_r_def Let_def o2 del: One_nat_def)
  have "bit (fst (key_code ports p b)) 7" by (simp add: key_code_def bit_or_iff)
  moreover have "unat (snd (key_code ports p b)) = 32 * p + b"
    using pb by (simp add: key_code_def unat_of_nat del: of_nat_add of_nat_mult)
  moreover have "\<not> kb_full ?k3" "\<not> irq_level 1 (k_pic ?k3)"
    using ir1.level_out [OF Q(1), of False] by (simp_all add: kb_full_def bit_and_iff)
  ultimately show ?thesis using P Q r1 r2 pb by blast
qed

definition sample_kbd :: "pic kbd" where
  "sample_kbd = \<lparr>k_status = 0x18, k_irq1_enable = True, k_output = 0, k_extend = 0xff, k_prev = \<lambda>_. 0,
     k_pic = pic_reset True\<rparr>"

lemma kb_two_byte_protocol_witness:
  "\<exists>k2. towns_keyboard_r (set_irq_line 1) ((\<lambda>_. 0)(1 := 2)) 0
      (poll_keyboard (set_irq_line 1) ((\<lambda>_. 0)(1 := 2)) sample_kbd) = (0xc0, k2)"
proof -
  have c: "changed_keys (k_prev sample_kbd) ((\<lambda>_. 0)(1 := 2)) = [] @ [(1, 1)]"
    by (simp add: changed_keys_def sample_kbd_def upt_rec)
  have "pic_wf (k_pic sample_kbd)" "k_irq1_enable sample_kbd" "\<not> irq_level 1 (k_pic sample_kbd)"
    by (simp_all add: sample_kbd_def pic_wf_reset pic_reset_def pic_wf_def)
  from kb_two_byte_protocol [OF this c] show ?thesis
    by (auto simp: key_code_def kb_modifiers_def)
qed

end
