(* ===== verification/Towns_Lines.thy ===== *)
theory Towns_Lines
  imports Pic8259
begin

text \<open>
  The interrupt glue of \<open>src/mame/fujitsu/fmtowns.cpp\<close> between the sound chips, the interval timer, the
  serial interface, the SCSI and floppy controllers and the two interrupt controllers: IRQ13 shared by
  FM and PCM, IRQ0 shared by timer channels 0 and 1 together with the speaker gate, IRQ2 of the serial
  interface and IRQ6 of the floppy controller. Every part takes the callback of its interrupt input
  as a parameter; the lemmas hold for any input with the laws of \<open>irq_input\<close>.
\<close>

unbundle bit_operations_syntax

subsection \<open>Sound: IRQ13 is shared by the FM and the PCM chip\<close>

record 'c snd_irq =
  s_fm_flag :: bool
  s_pcm_flag :: bool
  s_channel_flag :: u8
  s_channel_mask :: u8
  s_pic :: 'c

definition snd_reset :: "'c snd_irq \<Rightarrow> 'c snd_irq" where
  "snd_reset s = s\<lparr>s_channel_flag := 0, s_channel_mask := 0xff, s_pcm_flag := False, s_fm_flag := False\<rparr>"

definition towns_fm_irq :: "(bool \<Rightarrow> 'c \<Rightarrow> 'c) \<Rightarrow> bool \<Rightarrow> 'c snd_irq \<Rightarrow> 'c snd_irq" where
  "towns_fm_irq ir5 state s =
     (if state then s\<lparr>s_fm_flag := True, s_pic := ir5 True (s_pic s)\<rparr>
      else let s1 = s\<lparr>s_fm_flag := False\<rparr>
           in if \<not> s_pcm_flag s1 then s1\<lparr>s_pic := ir5 False (s_pic s1)\<rparr> else s1)"

definition towns_pcm_irq :: "(bool \<Rightarrow> 'c \<Rightarrow> 'c) \<Rightarrow> nat \<Rightarrow> 'c snd_irq \<Rightarrow> 'c snd_irq" where
  "towns_pcm_irq ir5 channel s =
     (if tst (s_channel_mask s) (irq_mask channel) then
        s\<lparr>s_pcm_flag := True, s_channel_flag := s_channel_flag s OR irq_mask channel,
          s_pic := ir5 True (s_pic s)\<rparr>
      else s)"

definition towns_sound_ctrl_r :: "(bool \<Rightarrow> 'c \<Rightarrow> 'c) \<Rightarrow> nat \<Rightarrow> 'c snd_irq \<Rightarrow> u8 \<times> 'c snd_irq" where
  "towns_sound_ctrl_r ir5 offset s =
     (if offset = 0 then (1, s)
      else if offset = 1 then ((if s_fm_flag s then 0x01 else 0) OR (if s_pcm_flag s then 0x08 else 0), s)
      else if offset = 2 then (s_channel_mask s, s)
      else if offset = 3 then
        (let ret = s_channel_flag s; s1 = s\<lparr>s_channel_flag := 0, s_pcm_flag := False\<rparr>
         in (ret, if \<not> s_fm_flag s1 then s1\<lparr>s_pic := ir5 False (s_pic s1)\<rparr> else s1))
      else (0, s))"

definition towns_sound_ctrl_w :: "nat \<Rightarrow> u8 \<Rightarrow> 'c snd_irq \<Rightarrow> 'c snd_irq" where
  "towns_sound_ctrl_w offset data s = (if offset = 2 then s\<lparr>s_channel_mask := data\<rparr> else s)"

text \<open>The events the sound glue sees, and the states they lead to.\<close>

inductive snd_step :: "(bool \<Rightarrow> 'c \<Rightarrow> 'c) \<Rightarrow> 'c snd_irq \<Rightarrow> 'c snd_irq \<Rightarrow> bool" for ir5 where
  snd_fm: "snd_step ir5 s (towns_fm_irq ir5 state s)"
| snd_pcm: "snd_step ir5 s (towns_pcm_irq ir5 channel s)"
| snd_read: "snd_step ir5 s (snd (towns_sound_ctrl_r ir5 offset s))"
| snd_write: "snd_step ir5 s (towns_sound_ctrl_w offset data s)"

inductive_cases snd_stepE: "snd_step ir5 s s'"

definition snd_pending :: "'c snd_irq \<Rightarrow> bool" where
  "snd_pending s = (s_channel_flag s \<noteq> 0)"

lemma or_irq_mask_pending: "tst m (irq_mask ch) \<Longrightarrow> f OR irq_mask ch \<noteq> 0"
proof -
  assume "tst m (irq_mask ch)"
  then have "bit (f OR irq_mask ch) ch" using bit8_less by auto
  then show ?thesis by (metis bit_0_eq bot_apply bot_bool_def)
qed

context irq_input
begin

definition snd_inv :: "'c snd_irq \<Rightarrow> bool" where
  "snd_inv s \<longleftrightarrow> ok (s_pic s) \<and> (level (s_pic s) \<longleftrightarrow> s_fm_flag s \<or> s_pcm_flag s) \<and>
     (s_pcm_flag s \<longleftrightarrow> snd_pending s)"

lemma snd_inv_step: "snd_step out s s' \<Longrightarrow> snd_inv s \<Longrightarrow> snd_inv s'"
  by (erule snd_stepE)
    (auto simp: snd_inv_def snd_pending_def towns_fm_irq_def towns_pcm_irq_def towns_sound_ctrl_r_def
        towns_sound_ctrl_w_def Let_def line_laws or_irq_mask_pending)

lemma snd_inv_reach: "(snd_step out)\<^sup>*\<^sup>* s s' \<Longrightarrow> snd_inv s \<Longrightarrow> snd_inv s'"
  by (induction rule: rtranclp_induct) (auto intro: snd_inv_step)

end

subsection \<open>Timer channels 0 and 1 on IRQ0, channel 2 and the speaker\<close>

record 'c pit_glue =
  g_out0 :: bool
  g_out1 :: bool
  g_out2 :: bool
  g_timer0 :: bool
  g_timer1 :: bool
  g_timer_mask :: u8
  g_spkrdata :: bool
  g_speaker :: bool
  g_pic :: 'c

definition speaker_get_spk :: "'c pit_glue \<Rightarrow> bool" where
  "speaker_get_spk g = (g_spkrdata g \<and> g_out2 g)"

definition speaker_set_spkrdata :: "bool \<Rightarrow> 'c pit_glue \<Rightarrow> 'c pit_glue" where
  "speaker_set_spkrdata data g =
     (let g1 = g\<lparr>g_spkrdata := data\<rparr> in g1\<lparr>g_speaker := speaker_get_spk g1\<rparr>)"

definition towns_port60_r :: "'c pit_glue \<Rightarrow> u8" where
  "towns_port60_r g =
     ((if g_out0 g then 0x01 else 0) OR (if g_out1 g then 0x02 else 0)) OR push_bit 2 (g_timer_mask g AND 0x07)"

definition towns_port60_w :: "(bool \<Rightarrow> 'c \<Rightarrow> 'c) \<Rightarrow> u8 \<Rightarrow> 'c pit_glue \<Rightarrow> 'c pit_glue" where
  "towns_port60_w ir0 data g =
     (let g1 = (if tst data 0x80 then
                  let g' = g\<lparr>g_timer0 := False\<rparr>
                  in g'\<lparr>g_pic := ir0 (g_timer0 g' \<or> g_timer1 g') (g_pic g')\<rparr>
                else g);
          g2 = g1\<lparr>g_timer_mask := data AND 0x07\<rparr>
      in speaker_set_spkrdata (tst data 0x04) g2)"

definition towns_pit_out0_changed :: "(bool \<Rightarrow> 'c \<Rightarrow> 'c) \<Rightarrow> bool \<Rightarrow> 'c pit_glue \<Rightarrow> 'c pit_glue" where
  "towns_pit_out0_changed ir0 state g =
     (let g1 = g\<lparr>g_out0 := state\<rparr>;
          g2 = (if tst (g_timer_mask g1) 0x01 then g1\<lparr>g_timer0 := state\<rparr> else g1\<lparr>g_timer0 := False\<rparr>)
      in g2\<lparr>g_pic := ir0 (g_timer0 g2 \<or> g_timer1 g2) (g_pic g2)\<rparr>)"

definition towns_pit_out1_changed :: "(bool \<Rightarrow> 'c \<Rightarrow> 'c) \<Rightarrow> bool \<Rightarrow> 'c pit_glue \<Rightarrow> 'c pit_glue" where
  "towns_pit_out1_changed ir0 state g =
     (let g1 = g\<lparr>g_out1 := state\<rparr>;
          g2 = (if tst (g_timer_mask g1) 0x02 then g1\<lparr>g_timer1 := state\<rparr> else g1\<lparr>g_timer1 := False\<rparr>)
      in g2\<lparr>g_pic := ir0 (g_timer0 g2 \<or> g_timer1 g2) (g_pic g2)\<rparr>)"

definition pit_out2_changed :: "bool \<Rightarrow> 'c pit_glue \<Rightarrow> 'c pit_glue" where
  "pit_out2_changed state g =
     (let g1 = g\<lparr>g_out2 := state\<rparr> in g1\<lparr>g_speaker := speaker_get_spk g1\<rparr>)"

inductive glue_step :: "(bool \<Rightarrow> 'c \<Rightarrow> 'c) \<Rightarrow> 'c pit_glue \<Rightarrow> 'c pit_glue \<Rightarrow> bool" for ir0 where
  glue_port60: "glue_step ir0 g (towns_port60_w ir0 data g)"
| glue_out0: "glue_step ir0 g (towns_pit_out0_changed ir0 state g)"
| glue_out1: "glue_step ir0 g (towns_pit_out1_changed ir0 state g)"
| glue_out2: "glue_step ir0 g (pit_out2_changed state g)"

inductive_cases glue_stepE: "glue_step ir0 g g'"

lemmas glue_defs = towns_port60_w_def towns_pit_out0_changed_def towns_pit_out1_changed_def
  pit_out2_changed_def speaker_set_spkrdata_def speaker_get_spk_def Let_def

lemma and_7_bit2: "tst (d AND 0x07) 0x04 = tst d (0x04 :: u8)"
  by (simp add: and.assoc)

context irq_input
begin

definition glue_inv :: "'c pit_glue \<Rightarrow> bool" where
  "glue_inv g \<longleftrightarrow> ok (g_pic g) \<and> (level (g_pic g) \<longleftrightarrow> g_timer0 g \<or> g_timer1 g) \<and>
     (g_timer0 g \<longrightarrow> g_out0 g) \<and> (g_timer1 g \<longrightarrow> g_out1 g) \<and>
     (g_speaker g \<longleftrightarrow> tst (g_timer_mask g) 0x04 \<and> g_out2 g) \<and> (g_spkrdata g \<longleftrightarrow> tst (g_timer_mask g) 0x04)"

lemma glue_inv_step: "glue_step out g g' \<Longrightarrow> glue_inv g \<Longrightarrow> glue_inv g'"
  by (erule glue_stepE) (auto simp: glue_inv_def glue_defs line_laws and_7_bit2)

lemma glue_inv_reach: "(glue_step out)\<^sup>*\<^sup>* g g' \<Longrightarrow> glue_inv g \<Longrightarrow> glue_inv g'"
  by (induction rule: rtranclp_induct) (auto intro: glue_inv_step)

end

subsection \<open>The serial interface on IRQ2\<close>

text \<open>
  \<open>r_usart\<close> is the state of the 8251 behind ports 0 and 1, whose register accesses \<open>uw\<close> and \<open>ur\<close> are
  parameters. The three handlers differ in the bit they own.
\<close>

record ('u, 'c) serial =
  r_irq_source :: u8
  r_irq_enable :: u8
  r_irq_state :: u8
  r_usart :: 'u
  r_pic :: 'c

definition RXRDY_IRQ_ENABLE :: u8 where "RXRDY_IRQ_ENABLE = 0x02"
definition TXRDY_IRQ_ENABLE :: u8 where "TXRDY_IRQ_ENABLE = 0x01"
definition SYNDET_IRQ_ENABLE :: u8 where "SYNDET_IRQ_ENABLE = 0x04"

definition serial_start :: "('u, 'c) serial \<Rightarrow> ('u, 'c) serial" where
  "serial_start r = r\<lparr>r_irq_source := 0, r_irq_enable := 0, r_irq_state := 0\<rparr>"

definition towns_serial_irq :: "(bool \<Rightarrow> 'c \<Rightarrow> 'c) \<Rightarrow> bool \<Rightarrow> ('u, 'c) serial \<Rightarrow> ('u, 'c) serial" where
  "towns_serial_irq ir2 state r =
     (if (if state then 0x01 else 0x00) \<noteq> r_irq_source r then
        r\<lparr>r_irq_source := (if state then 0x01 else 0x00), r_pic := ir2 state (r_pic r)\<rparr>
      else r)"

definition towns_rxrdy_irq :: "(bool \<Rightarrow> 'c \<Rightarrow> 'c) \<Rightarrow> bool \<Rightarrow> ('u, 'c) serial \<Rightarrow> ('u, 'c) serial" where
  "towns_rxrdy_irq ir2 state r =
     (let r1 = (if state then r\<lparr>r_irq_state := r_irq_state r OR RXRDY_IRQ_ENABLE\<rparr>
                else r\<lparr>r_irq_enable := r_irq_enable r AND NOT RXRDY_IRQ_ENABLE\<rparr>)
      in if tst (r_irq_enable r1) RXRDY_IRQ_ENABLE
         then towns_serial_irq ir2 (tst (r_irq_enable r1) (r_irq_state r1)) r1 else r1)"

definition towns_txrdy_irq :: "(bool \<Rightarrow> 'c \<Rightarrow> 'c) \<Rightarrow> bool \<Rightarrow> ('u, 'c) serial \<Rightarrow> ('u, 'c) serial" where
  "towns_txrdy_irq ir2 state r =
     (let r1 = (if state then r\<lparr>r_irq_state := r_irq_state r OR TXRDY_IRQ_ENABLE\<rparr>
                else r\<lparr>r_irq_enable := r_irq_enable r AND NOT TXRDY_IRQ_ENABLE\<rparr>)
      in if tst (r_irq_enable r1) TXRDY_IRQ_ENABLE
         then towns_serial_irq ir2 (tst (r_irq_enable r1) (r_irq_state r1)) r1 else r1)"

definition towns_syndet_irq :: "(bool \<Rightarrow> 'c \<Rightarrow> 'c) \<Rightarrow> bool \<Rightarrow> ('u, 'c) serial \<Rightarrow> ('u, 'c) serial" where
  "towns_syndet_irq ir2 state r =
     (let r1 = (if state then r\<lparr>r_irq_state := r_irq_state r OR SYNDET_IRQ_ENABLE\<rparr>
                else r\<lparr>r_irq_enable := r_irq_enable r AND NOT SYNDET_IRQ_ENABLE\<rparr>)
      in if tst (r_irq_enable r1) SYNDET_IRQ_ENABLE
         then towns_serial_irq ir2 (tst (r_irq_enable r1) (r_irq_state r1)) r1 else r1)"

definition towns_serial_w ::
    "(nat \<Rightarrow> u8 \<Rightarrow> 'u \<Rightarrow> 'u) \<Rightarrow> nat \<Rightarrow> u8 \<Rightarrow> ('u, 'c) serial \<Rightarrow> ('u, 'c) serial" where
  "towns_serial_w uw offset data r =
     (if offset = 0 \<or> offset = 1 then r\<lparr>r_usart := uw offset data (r_usart r)\<rparr>
      else if offset = 4 then r\<lparr>r_irq_enable := data\<rparr>
      else r)"

definition towns_serial_r ::
    "(nat \<Rightarrow> 'u \<Rightarrow> u8 \<times> 'u) \<Rightarrow> nat \<Rightarrow> ('u, 'c) serial \<Rightarrow> u8 \<times> ('u, 'c) serial" where
  "towns_serial_r ur offset r =
     (if offset = 0 \<or> offset = 1 then (fst (ur offset (r_usart r)), r\<lparr>r_usart := snd (ur offset (r_usart r))\<rparr>)
      else if offset = 3 then (r_irq_source r, r)
      else (0xff, r))"

text \<open>The 8251's outputs as they change, and an access of the processor to the enable register.\<close>

datatype serial_input = Rxrdy bool | Txrdy bool | Syndet bool | Enable u8

fun serial_event :: "(bool \<Rightarrow> 'c \<Rightarrow> 'c) \<Rightarrow> serial_input \<Rightarrow> ('u, 'c) serial \<Rightarrow> ('u, 'c) serial" where
  "serial_event ir2 (Rxrdy st) r = towns_rxrdy_irq ir2 st r"
| "serial_event ir2 (Txrdy st) r = towns_txrdy_irq ir2 st r"
| "serial_event ir2 (Syndet st) r = towns_syndet_irq ir2 st r"
| "serial_event ir2 (Enable d) r = towns_serial_w (\<lambda>_ _ u. u) 4 d r"

lemmas serial_defs = towns_rxrdy_irq_def towns_txrdy_irq_def towns_syndet_irq_def towns_serial_w_def
  towns_serial_irq_def RXRDY_IRQ_ENABLE_def TXRDY_IRQ_ENABLE_def SYNDET_IRQ_ENABLE_def Let_def

fun enables :: "serial_input \<Rightarrow> bool" where
  "enables (Enable _) = True"
| "enables _ = False"

lemma serial_enable_shrinks:
  "\<not> enables e \<Longrightarrow> r_irq_enable r = 0 \<Longrightarrow> r_irq_enable (serial_event ir2 e r) = 0"
  by (cases e) (auto simp: serial_defs)

lemma serial_disabled_silent:
  "\<not> enables e \<Longrightarrow> r_irq_enable r = 0 \<Longrightarrow>
     r_irq_source (serial_event ir2 e r) = r_irq_source r \<and> r_pic (serial_event ir2 e r) = r_pic r"
  by (cases e) (auto simp: serial_defs)

lemma serial_disabled_stays:
  "\<forall>e \<in> set es. \<not> enables e \<Longrightarrow> r_irq_enable r = 0 \<Longrightarrow>
     r_irq_enable (fold (serial_event ir2) es r) = 0 \<and>
     r_irq_source (fold (serial_event ir2) es r) = r_irq_source r \<and>
     r_pic (fold (serial_event ir2) es r) = r_pic r"
proof (induction es arbitrary: r)
  case (Cons e es)
  then show ?case using serial_enable_shrinks [of e r ir2] serial_disabled_silent [of e r ir2] by simp
qed simp

context irq_input
begin

definition serial_inv :: "('u, 'c) serial \<Rightarrow> bool" where
  "serial_inv r \<longleftrightarrow> ok (r_pic r) \<and> r_irq_source r = (if level (r_pic r) then 1 else 0)"

lemma serial_inv_irq: "serial_inv r \<Longrightarrow> serial_inv (towns_serial_irq out state r)"
  by (auto simp: serial_inv_def towns_serial_irq_def line_laws)

lemma serial_inv_update:
  "serial_inv r \<Longrightarrow> serial_inv (r\<lparr>r_irq_state := x\<rparr>)" "serial_inv r \<Longrightarrow> serial_inv (r\<lparr>r_irq_enable := x\<rparr>)"
  by (simp_all add: serial_inv_def)

lemma serial_inv_event: "serial_inv r \<Longrightarrow> serial_inv (serial_event out e r)"
  by (cases e)
    (auto simp: towns_rxrdy_irq_def towns_txrdy_irq_def towns_syndet_irq_def towns_serial_w_def Let_def
      intro!: serial_inv_irq serial_inv_update)

lemma serial_inv_events: "serial_inv r \<Longrightarrow> serial_inv (fold (serial_event out) es r)"
  by (induction es arbitrary: r) (auto simp: serial_inv_event)

text \<open>A ready receiver raises the line when its interrupt is enabled.\<close>

lemma rxrdy_raises:
  "serial_inv r \<Longrightarrow> bit (r_irq_enable r) 1 \<Longrightarrow> level (r_pic (towns_rxrdy_irq out True r))"
proof -
  assume inv: "serial_inv r" and e: "bit (r_irq_enable r) 1"
  have "bit (r_irq_enable r AND (r_irq_state r OR 2)) 1" using e by (simp add: bit_simps)
  then have "tst (r_irq_enable r) (r_irq_state r OR 2)" by (metis bit_0_eq bot_apply bot_bool_def)
  moreover have "tst (r_irq_enable r) 2" using e tst_exp [of "r_irq_enable r" 1] by simp
  ultimately show ?thesis using inv
    by (auto simp: towns_rxrdy_irq_def RXRDY_IRQ_ENABLE_def Let_def towns_serial_irq_def serial_inv_def line_laws)
qed

end

subsection \<open>Properties of the shared lines\<close>

text \<open>
  C17: from a reset with the input low, in every state the sound glue can reach, input 5 of the slave
  controller is high exactly when the FM or the PCM flag is set, and the PCM flag is set exactly when
  some channel is pending. Reading port 0x4eb returns the pending channels, clears them, and leaves
  the line high only for the FM chip.
\<close>
theorem irq13_shared_line:
  assumes "pic_wf (s_pic s0)" "\<not> irq_level 5 (s_pic s0)"
    "(snd_step (set_irq_line 5))\<^sup>*\<^sup>* (snd_reset s0) s" "towns_sound_ctrl_r (set_irq_line 5) 3 s = (v, s')"
  shows "irq_level 5 (s_pic s) = (s_fm_flag s \<or> s_pcm_flag s) \<and> s_pcm_flag s = (s_channel_flag s \<noteq> 0)
    \<and> v = s_channel_flag s \<and> s_channel_flag s' = 0 \<and> \<not> s_pcm_flag s'
    \<and> s_fm_flag s' = s_fm_flag s \<and> irq_level 5 (s_pic s') = s_fm_flag s"
proof -
  have "ir5.snd_inv (snd_reset s0)"
    using assms(1,2) by (simp add: ir5.snd_inv_def snd_reset_def snd_pending_def)
  then have inv: "ir5.snd_inv s" using ir5.snd_inv_reach [OF assms(3)] by simp
  have "s' = snd (towns_sound_ctrl_r (set_irq_line 5) 3 s)" using assms(4) by simp
  then have "ir5.snd_inv s'" using ir5.snd_inv_step [OF snd_read inv] by simp
  then show ?thesis using inv assms(4)
    by (auto simp: ir5.snd_inv_def snd_pending_def towns_sound_ctrl_r_def Let_def split: if_splits)
qed

definition sample_snd :: "pic snd_irq" where
  "sample_snd = \<lparr>s_fm_flag = False, s_pcm_flag = False, s_channel_flag = 0, s_channel_mask = 0,
     s_pic = pic_reset False\<rparr>"

lemma irq13_shared_line_witness:
  "irq_level 5 (s_pic (towns_pcm_irq (set_irq_line 5) 2 (towns_fm_irq (set_irq_line 5) True (snd_reset sample_snd))))
   \<and> irq_level 5 (s_pic (snd (towns_sound_ctrl_r (set_irq_line 5) 3
        (towns_pcm_irq (set_irq_line 5) 2 (towns_fm_irq (set_irq_line 5) True (snd_reset sample_snd))))))"
proof -
  let ?s1 = "towns_fm_irq (set_irq_line 5) True (snd_reset sample_snd)"
  let ?s = "towns_pcm_irq (set_irq_line 5) 2 ?s1"
  have r: "(snd_step (set_irq_line 5))\<^sup>*\<^sup>* (snd_reset sample_snd) ?s"
    by (rule rtranclp.rtrancl_into_rtrancl [OF r_into_rtranclp]) (rule snd_fm, rule snd_pcm)
  have w: "pic_wf (s_pic sample_snd)" "\<not> irq_level 5 (s_pic sample_snd)"
    by (simp_all add: sample_snd_def pic_wf_reset)
  have f: "s_fm_flag ?s" by (simp add: towns_pcm_irq_def towns_fm_irq_def)
  from irq13_shared_line [OF w r prod.collapse [symmetric]] f show ?thesis by blast
qed

text \<open>
  C18: from a start with the input low, in every state the timer glue can reach, input 0 of the
  master controller is high exactly when a timer interrupt is latched, a latched interrupt belongs to
  a channel whose output is high, and the speaker follows channel 2 gated by bit 2 of port 0x60.
  Writing port 0x60 with bit 7 set acknowledges channel 0 only: the line then follows channel 1.
  Reading the port returns the two outputs and the mask last written.
\<close>
theorem irq0_shared_line:
  assumes "pic_wf (g_pic g0)" "\<not> irq_level 0 (g_pic g0)" "\<not> g_timer0 g0" "\<not> g_timer1 g0"
    "g_timer_mask g0 = 0" "\<not> g_spkrdata g0" "\<not> g_speaker g0"
    "(glue_step (set_irq_line 0))\<^sup>*\<^sup>* g0 g" "bit d 7" "towns_port60_w (set_irq_line 0) d g = g'"
  shows "irq_level 0 (g_pic g) = (g_timer0 g \<or> g_timer1 g)
    \<and> (g_timer0 g \<longrightarrow> g_out0 g) \<and> (g_timer1 g \<longrightarrow> g_out1 g)
    \<and> g_speaker g = (tst (g_timer_mask g) 0x04 \<and> g_out2 g)
    \<and> \<not> g_timer0 g' \<and> irq_level 0 (g_pic g') = g_timer1 g
    \<and> towns_port60_r g' = ((if g_out0 g then 1 else 0) OR (if g_out1 g then 2 else 0)) OR push_bit 2 (d AND 0x07)"
proof -
  have "ir0.glue_inv g0" using assms(1-7) by (simp add: ir0.glue_inv_def)
  then have inv: "ir0.glue_inv g" using ir0.glue_inv_reach [OF assms(8)] by simp
  have inv': "ir0.glue_inv g'" using ir0.glue_inv_step [OF glue_port60 inv] assms(10) by blast
  have t: "tst d 0x80" using assms(9) tst_exp [of d 7] by simp
  have g': "\<not> g_timer0 g'" "g_timer1 g' = g_timer1 g" "g_out0 g' = g_out0 g" "g_out1 g' = g_out1 g"
      "g_timer_mask g' = d AND 7"
    using t by (simp_all add: glue_defs flip: assms(10))
  have "towns_port60_r g' = ((if g_out0 g then 1 else 0) OR (if g_out1 g then 2 else 0)) OR push_bit 2 (d AND 7)"
    unfolding towns_port60_r_def g' by (simp only: and.assoc and.idem)
  then show ?thesis using inv inv' g'(1,2) unfolding ir0.glue_inv_def by blast
qed

definition sample_glue :: "pic pit_glue" where
  "sample_glue = \<lparr>g_out0 = False, g_out1 = False, g_out2 = False, g_timer0 = False, g_timer1 = False,
     g_timer_mask = 0, g_spkrdata = False, g_speaker = False, g_pic = pic_reset True\<rparr>"

lemma irq0_shared_line_witness:
  "irq_level 0 (g_pic (towns_port60_w (set_irq_line 0) 0x83
     (towns_pit_out1_changed (set_irq_line 0) True (towns_port60_w (set_irq_line 0) 0x03 sample_glue))))"
proof -
  let ?g1 = "towns_port60_w (set_irq_line 0) 0x03 sample_glue"
  let ?g = "towns_pit_out1_changed (set_irq_line 0) True ?g1"
  have r: "(glue_step (set_irq_line 0))\<^sup>*\<^sup>* sample_glue ?g"
    by (rule rtranclp.rtrancl_into_rtrancl [OF r_into_rtranclp]) (rule glue_port60, rule glue_out1)
  have w: "pic_wf (g_pic sample_glue)" "\<not> irq_level 0 (g_pic sample_glue)" "\<not> g_timer0 sample_glue"
    "\<not> g_timer1 sample_glue" "g_timer_mask sample_glue = 0" "\<not> g_spkrdata sample_glue" "\<not> g_speaker sample_glue"
    by (simp_all add: sample_glue_def pic_wf_reset)
  have t: "g_timer1 ?g" by (simp add: glue_defs sample_glue_def)
  have b: "bit (0x83 :: u8) 7" by simp
  from irq0_shared_line [OF w r b refl] t show ?thesis by blast
qed

text \<open>
  A receiver interrupt, once enabled, raises input 2 of the master controller; when the receiver
  becomes idle again the handler clears the enable bit instead of the state bit, so the line stays
  high and, until the processor writes the enable register again, no event of the 8251 lowers it,
  raises it again or changes what the status port shows.
\<close>
lemma serial_irq_stuck:
  assumes "pic_wf (r_pic r)" "\<not> irq_level 2 (r_pic r)" "r_irq_source r = 0"
    "\<forall>e \<in> set es. \<not> enables e"
  shows "\<exists>r1 r2 r3. towns_rxrdy_irq (set_irq_line 2) True (towns_serial_w uw 4 0x02 r) = r1
    \<and> irq_level 2 (r_pic r1) \<and> irq_latched 2 (r_pic r1)
    \<and> towns_rxrdy_irq (set_irq_line 2) False r1 = r2 \<and> r_irq_enable r2 = 0 \<and> bit (r_irq_state r2) 1
    \<and> fold (serial_event (set_irq_line 2)) es r2 = r3
    \<and> r_irq_enable r3 = 0 \<and> r_pic r3 = r_pic r1 \<and> towns_serial_r ur 3 r3 = (1, r3)"
proof -
  let ?r1 = "towns_rxrdy_irq (set_irq_line 2) True (towns_serial_w uw 4 0x02 r)"
  let ?r2 = "towns_rxrdy_irq (set_irq_line 2) False ?r1"
  let ?r3 = "fold (serial_event (set_irq_line 2)) es ?r2"
  have nz: "(2 AND (r_irq_state r OR 2) :: u8) = 2"
    by (rule u8_eqI) (auto simp: bit_simps)
  have r1: "r_irq_enable ?r1 = 2" "r_irq_source ?r1 = 1" "r_irq_state ?r1 = r_irq_state r OR 2"
      "r_pic ?r1 = set_irq_line 2 True (r_pic r)"
    using nz assms(3) by (simp_all add: serial_defs)
  have l: "irq_level 2 (r_pic ?r1)" "irq_latched 2 (r_pic ?r1)"
    using assms(1,2) by (simp_all add: r1 ir2.line_laws)
  have r2: "r_irq_enable ?r2 = 0" "r_irq_source ?r2 = 1" "r_irq_state ?r2 = r_irq_state r OR 2" "r_pic ?r2 = r_pic ?r1"
    using r1 by (simp_all add: towns_rxrdy_irq_def [of _ False] RXRDY_IRQ_ENABLE_def)
  have b: "bit (r_irq_state ?r2) 1" unfolding r2 by (simp add: bit_simps)
  have r3: "r_irq_enable ?r3 = 0" "r_irq_source ?r3 = 1" "r_pic ?r3 = r_pic ?r1"
    using serial_disabled_stays [OF assms(4) r2(1), of "set_irq_line 2"] r2(2,4) by simp_all
  have "towns_serial_r ur 3 ?r3 = (1, ?r3)" by (simp add: towns_serial_r_def r3)
  with l r2(1) b r3 show ?thesis by blast
qed

definition sample_serial :: "(unit, pic) serial" where
  "sample_serial = \<lparr>r_irq_source = 0, r_irq_enable = 0, r_irq_state = 0, r_usart = (), r_pic = pic_reset True\<rparr>"

lemma serial_irq_stuck_witness:
  "\<exists>r3. fold (serial_event (set_irq_line 2)) [Rxrdy True, Txrdy False, Rxrdy False]
     (towns_rxrdy_irq (set_irq_line 2) False
       (towns_rxrdy_irq (set_irq_line 2) True (towns_serial_w (\<lambda>_ _ u. u) 4 0x02 sample_serial))) = r3
   \<and> towns_serial_r (\<lambda>_ u. (0, u)) 3 r3 = (1, r3)"
proof -
  have w: "pic_wf (r_pic sample_serial)" "\<not> irq_level 2 (r_pic sample_serial)" "r_irq_source sample_serial = 0"
    "\<forall>e \<in> set [Rxrdy True, Txrdy False, Rxrdy False]. \<not> enables e"
    by (simp_all add: sample_serial_def pic_wf_reset)
  from serial_irq_stuck [OF w, of "\<lambda>_ _ u. u" "\<lambda>_ u. (0, u)"] show ?thesis by blast
qed

end
