(* ===== verification/Msm58321.thy ===== *)
theory Msm58321
  imports Towns_Prelude "HOL-Library.Signed_Division"
begin

text \<open>
  The real-time clock: the calendar of \<open>src/emu/dirtc.cpp\<close>, the MSM58321 with its nibble bus
  (\<open>src/devices/machine/msm58321.cpp\<close>), and the two ports of \<open>src/mame/fujitsu/fmtowns.cpp\<close> through
  which the processor reaches it. The output pins call back into \<open>'o\<close>, the state of whoever listens.
\<close>

unbundle bit_operations_syntax

subsection \<open>The calendar of the RTC interface\<close>

text \<open>\<open>m_register\<close>, one field per index.\<close>

record rtc_clock =
  c_year :: int
  c_month :: int
  c_day :: int
  c_day_of_week :: int
  c_hour :: int
  c_minute :: int
  c_second :: int

text \<open>The month table; \<open>beyond\<close> is whatever an index behind its end reads.\<close>

definition DAYS_PER_MONTH :: "(int \<Rightarrow> int) \<Rightarrow> int \<Rightarrow> int" where
  "DAYS_PER_MONTH beyond i =
     (if 0 \<le> i \<and> i < 12 then [31, 28, 31, 30, 31, 30, 31, 31, 30, 31, 30, 31] ! nat i else beyond i)"

definition set_time ::
    "bool \<Rightarrow> int \<Rightarrow> int \<Rightarrow> int \<Rightarrow> int \<Rightarrow> int \<Rightarrow> int \<Rightarrow> int \<Rightarrow> rtc_clock" where
  "set_time y2k year month day day_of_week hour minute second =
     \<lparr>c_year = (if \<not> y2k then year smod 100 else year), c_month = month, c_day = day,
      c_day_of_week = day_of_week, c_hour = hour, c_minute = minute, c_second = second\<rparr>"

text \<open>
  The three advance functions end, on every path, in one call of \<open>clock_updated\<close>, which the device
  overrides: it is the continuation \<open>upd\<close>.
\<close>

definition advance_days ::
    "(int \<Rightarrow> int) \<Rightarrow> bool \<Rightarrow> bool \<Rightarrow> (rtc_clock \<Rightarrow> 'r) \<Rightarrow> rtc_clock \<Rightarrow> 'r" where
  "advance_days beyond y2k leap upd c =
     (let c1 = c\<lparr>c_day := c_day c + 1, c_day_of_week := c_day_of_week c + 1\<rparr>;
          c2 = (if c_day_of_week c1 = 8 then c1\<lparr>c_day_of_week := 1\<rparr> else c1);
          c3 = (if c_month c2 > 0 \<and> c_day c2 > DAYS_PER_MONTH beyond (c_month c2 - 1) then
                  (if c_month c2 \<noteq> 2 \<or> c_day c2 \<noteq> 29 \<or> \<not> leap \<or> c_year c2 smod 4 = 0
                   then c2\<lparr>c_day := 1, c_month := c_month c2 + 1\<rparr> else c2)
                else c2);
          c4 = (if c_month c3 = 13 then
                  let c' = c3\<lparr>c_month := 1, c_year := c_year c3 + 1\<rparr>
                  in if \<not> y2k \<and> c_year c' = 100 then c'\<lparr>c_year := 0\<rparr> else c'
                else c3)
      in upd c4)"

definition advance_minutes ::
    "(int \<Rightarrow> int) \<Rightarrow> bool \<Rightarrow> bool \<Rightarrow> (rtc_clock \<Rightarrow> 'r) \<Rightarrow> rtc_clock \<Rightarrow> 'r" where
  "advance_minutes beyond y2k leap upd c =
     (let c1 = c\<lparr>c_minute := c_minute c + 1\<rparr>;
          c2 = (if c_minute c1 = 60 then c1\<lparr>c_minute := 0, c_hour := c_hour c1 + 1\<rparr> else c1)
      in if c_hour c2 = 24 then advance_days beyond y2k leap upd (c2\<lparr>c_hour := 0\<rparr>) else upd c2)"

definition advance_seconds ::
    "(int \<Rightarrow> int) \<Rightarrow> bool \<Rightarrow> bool \<Rightarrow> (rtc_clock \<Rightarrow> 'r) \<Rightarrow> rtc_clock \<Rightarrow> 'r" where
  "advance_seconds beyond y2k leap upd c =
     (let c1 = c\<lparr>c_second := c_second c + 1\<rparr>
      in if c_second c1 = 60 then advance_minutes beyond y2k leap upd (c1\<lparr>c_second := 0\<rparr>) else upd c1)"

definition adjust_seconds ::
    "(int \<Rightarrow> int) \<Rightarrow> bool \<Rightarrow> bool \<Rightarrow> (rtc_clock \<Rightarrow> 'r) \<Rightarrow> rtc_clock \<Rightarrow> 'r" where
  "adjust_seconds beyond y2k leap upd c =
     (let seconds = c_second c; c1 = c\<lparr>c_second := 0\<rparr>
      in if 30 \<le> seconds then advance_minutes beyond y2k leap upd c1 else upd c1)"

lemma advance_continuation:
  "advance_days beyond y l upd c = upd (advance_days beyond y l (\<lambda>c. c) c)"
  "advance_minutes beyond y l upd c = upd (advance_minutes beyond y l (\<lambda>c. c) c)"
  "advance_seconds beyond y l upd c = upd (advance_seconds beyond y l (\<lambda>c. c) c)"
  by (simp_all add: advance_days_def advance_minutes_def advance_seconds_def Let_def)

subsection \<open>The chip\<close>

definition REGISTER_S1 :: nat where "REGISTER_S1 = 0"
definition REGISTER_S10 :: nat where "REGISTER_S10 = 1"
definition REGISTER_MI1 :: nat where "REGISTER_MI1 = 2"
definition REGISTER_MI10 :: nat where "REGISTER_MI10 = 3"
definition REGISTER_H1 :: nat where "REGISTER_H1 = 4"
definition REGISTER_H10 :: nat where "REGISTER_H10 = 5"
definition REGISTER_W :: nat where "REGISTER_W = 6"
definition REGISTER_D1 :: nat where "REGISTER_D1 = 7"
definition REGISTER_D10 :: nat where "REGISTER_D10 = 8"
definition REGISTER_MO1 :: nat where "REGISTER_MO1 = 9"
definition REGISTER_MO10 :: nat where "REGISTER_MO10 = 10"
definition REGISTER_Y1 :: nat where "REGISTER_Y1 = 11"
definition REGISTER_RESET :: nat where "REGISTER_RESET = 13"
definition REGISTER_REF0 :: nat where "REGISTER_REF0 = 14"
definition REGISTER_REF1 :: nat where "REGISTER_REF1 = 15"

lemmas register_defs = REGISTER_S1_def REGISTER_S10_def REGISTER_MI1_def REGISTER_MI10_def REGISTER_H1_def
  REGISTER_H10_def REGISTER_W_def REGISTER_D1_def REGISTER_D10_def REGISTER_MO1_def REGISTER_MO10_def
  REGISTER_Y1_def REGISTER_RESET_def REGISTER_REF0_def REGISTER_REF1_def

definition H10_PM :: u8 where "H10_PM = 4"
definition H10_24 :: u8 where "H10_24 = 8"

text \<open>The four \<open>m_dN_in\<close> and the four \<open>m_dN_out\<close> are functions of N.\<close>

record 'o msm =
  m_year0 :: int
  m_cs1 :: bool
  m_cs2 :: bool
  m_write :: bool
  m_read :: bool
  m_d_in :: "nat \<Rightarrow> bool"
  m_d_out :: "nat \<Rightarrow> bool"
  m_address_write :: bool
  m_busy :: bool
  m_stop :: bool
  m_test :: bool
  m_address :: nat
  m_reg :: "nat \<Rightarrow> u8"
  m_khz_ctr :: int
  m_register :: rtc_clock
  m_out :: 'o

definition rtc_feature_y2k :: "'o msm \<Rightarrow> bool" where
  "rtc_feature_y2k m = (m_year0 m \<noteq> 0)"

definition read_counter :: "nat \<Rightarrow> 'o msm \<Rightarrow> int" where
  "read_counter counter m =
     (let data = uint (m_reg m counter)
      in if counter = REGISTER_H1 then
           (let h10 = m_reg m REGISTER_H10
            in if tst h10 H10_24 then data + uint (h10 AND 3) * 10
               else if tst h10 H10_PM then data + 12 + uint (h10 AND 1) * 10
               else data + uint (h10 AND 1) * 10)
         else data + uint (m_reg m (counter + 1)) * 10)"

definition write_counter :: "nat \<Rightarrow> int \<Rightarrow> 'o msm \<Rightarrow> 'o msm" where
  "write_counter address data m =
     (let (data', flag) =
        (if address = REGISTER_H1 then
           (let flag = m_reg m REGISTER_H10 AND H10_24
            in if flag = 0 then
                 (let (d1, f1) = (if 12 \<le> data then (data - 12, H10_PM) else (data, flag));
                      d2 = (if tst (m_reg m REGISTER_H10) H10_PM \<and> d1 = 0 then 12 else d1)
                  in (d2, f1))
               else (data, flag))
         else if address = REGISTER_D1 then (data, m_reg m REGISTER_D10 AND NOT 3)
         else (data, 0))
      in m\<lparr>m_reg := (m_reg m)(address := word_of_int (data' smod 10),
                              address + 1 := word_of_int (data' sdiv 10) OR flag)\<rparr>)"

definition update_standard :: "'o msm \<Rightarrow> 'o msm" where
  "update_standard m =
     (let reg = ((if m_reg m REGISTER_S1 = 0 then 2 else 0) OR (if m_reg m REGISTER_MI1 = 0 then 4 else 0))
                OR (if m_reg m REGISTER_H1 = 0 then 8 else 0);
          v = (reg XOR 0x0e) OR (if odd (m_khz_ctr m) then 1 else 0)
      in m\<lparr>m_reg := (m_reg m)(REGISTER_REF0 := v, REGISTER_REF1 := v)\<rparr>)"

text \<open>The output pins: a handler \<open>dh n\<close> per data pin, called when the pin changes.\<close>

definition output_pin :: "(nat \<Rightarrow> bool \<Rightarrow> 'o \<Rightarrow> 'o) \<Rightarrow> u8 \<Rightarrow> nat \<Rightarrow> 'o msm \<Rightarrow> 'o msm" where
  "output_pin dh data n m =
     (if m_d_out m n \<noteq> bit data n
      then m\<lparr>m_d_out := (m_d_out m)(n := bit data n), m_out := dh n (bit data n) (m_out m)\<rparr> else m)"

definition output_data :: "'o msm \<Rightarrow> u8" where
  "output_data m =
     (if m_cs1 m \<and> m_cs2 m \<and> m_read m then
        if m_address m = REGISTER_RESET then 0
        else if m_address m = REGISTER_W then m_reg m (m_address m) - 1
        else m_reg m (m_address m)
      else 0x0f)"

definition update_output :: "(nat \<Rightarrow> bool \<Rightarrow> 'o \<Rightarrow> 'o) \<Rightarrow> 'o msm \<Rightarrow> 'o msm" where
  "update_output dh m = fold (output_pin dh (output_data m)) [0, 1, 2, 3] m"

definition rtc_clock_updated :: "(nat \<Rightarrow> bool \<Rightarrow> 'o \<Rightarrow> 'o) \<Rightarrow> rtc_clock \<Rightarrow> 'o msm \<Rightarrow> 'o msm" where
  "rtc_clock_updated dh c m =
     (let m1 = write_counter REGISTER_Y1 ((c_year c - m_year0 m) smod 100) m;
          m2 = write_counter REGISTER_MO1 (c_month c) m1;
          m3 = write_counter REGISTER_D1 (c_day c) m2;
          m4 = m3\<lparr>m_reg := (m_reg m3)(REGISTER_W := word_of_int (c_day_of_week c))\<rparr>;
          m5 = write_counter REGISTER_H1 (c_hour c) m4;
          m6 = write_counter REGISTER_MI1 (c_minute c) m5;
          m7 = write_counter REGISTER_S1 (c_second c) m6
      in update_output dh (update_standard m7))"

text \<open>\<open>clock_updated\<close> stores the interface's registers; the override shows them.\<close>

definition clock_updated :: "(nat \<Rightarrow> bool \<Rightarrow> 'o \<Rightarrow> 'o) \<Rightarrow> 'o msm \<Rightarrow> rtc_clock \<Rightarrow> 'o msm" where
  "clock_updated dh m c = rtc_clock_updated dh c (m\<lparr>m_register := c\<rparr>)"

text \<open>\<open>set_time\<close> with \<open>update\<close> set, as \<open>set_current_time\<close> calls it: the override is told as well.\<close>

definition set_current_time ::
    "(nat \<Rightarrow> bool \<Rightarrow> 'o \<Rightarrow> 'o) \<Rightarrow> int \<Rightarrow> int \<Rightarrow> int \<Rightarrow> int \<Rightarrow> int \<Rightarrow> int \<Rightarrow> int \<Rightarrow> 'o msm \<Rightarrow> 'o msm" where
  "set_current_time dh year month mday weekday hour minute second m =
     clock_updated dh m (set_time (rtc_feature_y2k m) year (month + 1) mday (weekday + 1) hour minute second)"

definition raise_busy :: "(bool \<Rightarrow> 'o \<Rightarrow> 'o) \<Rightarrow> 'o msm \<Rightarrow> 'o msm" where
  "raise_busy bh m = (if \<not> m_busy m then m\<lparr>m_busy := True, m_out := bh True (m_out m)\<rparr> else m)"

definition clock_tick ::
    "(int \<Rightarrow> int) \<Rightarrow> (nat \<Rightarrow> bool \<Rightarrow> 'o \<Rightarrow> 'o) \<Rightarrow> (bool \<Rightarrow> 'o \<Rightarrow> 'o) \<Rightarrow> 'o msm \<Rightarrow> 'o msm" where
  "clock_tick beyond dh bh m =
     (let m1 = (if odd (m_khz_ctr m)
                then m\<lparr>m_reg := (m_reg m)(REGISTER_REF0 := m_reg m REGISTER_REF0 OR 1,
                                          REGISTER_REF1 := m_reg m REGISTER_REF1 OR 1)\<rparr>
                else m\<lparr>m_reg := (m_reg m)(REGISTER_REF0 := m_reg m REGISTER_REF0 AND NOT 1,
                                          REGISTER_REF1 := m_reg m REGISTER_REF1 AND NOT 1)\<rparr>);
          m2 = m1\<lparr>m_khz_ctr := m_khz_ctr m1 + 1\<rparr>
      in if 1024 \<le> m_khz_ctr m2 then
           (let m3 = m2\<lparr>m_khz_ctr := 0\<rparr>;
                m4 = (if \<not> m_stop m3
                      then advance_seconds beyond (rtc_feature_y2k m3) True (clock_updated dh m3) (m_register m3)
                      else m3)
            in raise_busy bh m4)
         else m2)"

definition release_busy :: "(bool \<Rightarrow> 'o \<Rightarrow> 'o) \<Rightarrow> 'o msm \<Rightarrow> 'o msm" where
  "release_busy bh m =
     (if \<not> m_cs1 m \<or> \<not> m_cs2 m \<or> \<not> m_write m \<or> m_address m \<noteq> REGISTER_RESET
      then m\<lparr>m_busy := False, m_out := bh False (m_out m)\<rparr> else m)"

definition assert_standard :: "'o msm \<Rightarrow> 'o msm" where
  "assert_standard m = m\<lparr>m_reg := (m_reg m)(REGISTER_REF0 := 0x0e, REGISTER_REF1 := 0x0e)\<rparr>"

definition nvram_default :: "(nat \<Rightarrow> bool \<Rightarrow> 'o \<Rightarrow> 'o) \<Rightarrow> bool \<Rightarrow> 'o msm \<Rightarrow> 'o msm" where
  "nvram_default dh default_24h m =
     (let m1 = m\<lparr>m_reg := \<lambda>_. 0\<rparr>;
          m2 = (if default_24h then m1\<lparr>m_reg := (m_reg m1)(REGISTER_H10 := H10_24)\<rparr> else m1)
      in clock_updated dh m2 (m_register m2))"

subsection \<open>The input pins\<close>

definition nibble :: "(nat \<Rightarrow> bool) \<Rightarrow> u8" where
  "nibble d = (((if d 0 then 1 else 0) OR (if d 1 then 2 else 0)) OR (if d 2 then 4 else 0))
     OR (if d 3 then 8 else 0)"

definition rtc_store :: "nat \<Rightarrow> u8 \<Rightarrow> 'o msm \<Rightarrow> 'o msm" where
  "rtc_store a data m =
     m\<lparr>m_reg := (m_reg m)(a :=
        (if a = REGISTER_S10 \<or> a = REGISTER_MI10 then data AND 7
         else if a = REGISTER_W then (data AND 7) + 1
         else if a = REGISTER_H10 then (if tst data H10_24 then data AND NOT H10_PM else data)
         else if a = REGISTER_MO10 then data AND 1
         else data))\<rparr>"

definition set_time_from_registers :: "'o msm \<Rightarrow> 'o msm" where
  "set_time_from_registers m =
     m\<lparr>m_register := set_time (rtc_feature_y2k m) (read_counter REGISTER_Y1 m + m_year0 m)
        (read_counter REGISTER_MO1 m) (read_counter REGISTER_D1 m) (uint (m_reg m REGISTER_W))
        (read_counter REGISTER_H1 m) (read_counter REGISTER_MI1 m) (read_counter REGISTER_S1 m)\<rparr>"

definition update_input :: "(bool \<Rightarrow> 'o \<Rightarrow> 'o) \<Rightarrow> 'o msm \<Rightarrow> 'o msm" where
  "update_input bh m =
     (if m_cs1 m \<and> m_cs2 m then
        (let data = nibble (m_d_in m);
             m1 = (if m_address_write m then m\<lparr>m_address := unat data\<rparr> else m)
         in if m_write m1 then
              (if m_address m1 = REGISTER_RESET then raise_busy bh m1
               else if m_address m1 = REGISTER_REF0 \<or> m_address m1 = REGISTER_REF1 then m1
               else set_time_from_registers (rtc_store (m_address m1) data (m1\<lparr>m_khz_ctr := 0\<rparr>)))
            else m1)
      else m)"

definition cs2_w :: "(bool \<Rightarrow> 'o \<Rightarrow> 'o) \<Rightarrow> bool \<Rightarrow> 'o msm \<Rightarrow> 'o msm" where
  "cs2_w bh state m = (if m_cs2 m \<noteq> state then update_input bh (m\<lparr>m_cs2 := state\<rparr>) else m)"

definition write_w :: "(bool \<Rightarrow> 'o \<Rightarrow> 'o) \<Rightarrow> bool \<Rightarrow> 'o msm \<Rightarrow> 'o msm" where
  "write_w bh state m = (if m_write m \<noteq> state then update_input bh (m\<lparr>m_write := state\<rparr>) else m)"

definition read_w :: "(nat \<Rightarrow> bool \<Rightarrow> 'o \<Rightarrow> 'o) \<Rightarrow> bool \<Rightarrow> 'o msm \<Rightarrow> 'o msm" where
  "read_w dh state m = (if m_read m \<noteq> state then update_output dh (m\<lparr>m_read := state\<rparr>) else m)"

definition d_w :: "(bool \<Rightarrow> 'o \<Rightarrow> 'o) \<Rightarrow> nat \<Rightarrow> bool \<Rightarrow> 'o msm \<Rightarrow> 'o msm" where
  "d_w bh n state m =
     (if m_d_in m n \<noteq> state then update_input bh (m\<lparr>m_d_in := (m_d_in m)(n := state)\<rparr>) else m)"

definition address_write_w :: "(bool \<Rightarrow> 'o \<Rightarrow> 'o) \<Rightarrow> bool \<Rightarrow> 'o msm \<Rightarrow> 'o msm" where
  "address_write_w bh state m =
     (if m_address_write m \<noteq> state then update_input bh (m\<lparr>m_address_write := state\<rparr>) else m)"

definition stop_w :: "bool \<Rightarrow> 'o msm \<Rightarrow> 'o msm" where
  "stop_w state m = (if m_stop m \<noteq> state then m\<lparr>m_stop := state\<rparr> else m)"

definition test_w :: "bool \<Rightarrow> 'o msm \<Rightarrow> 'o msm" where
  "test_w state m = (if m_test m \<noteq> state then m\<lparr>m_test := state\<rparr> else m)"

definition cs1_w :: "(bool \<Rightarrow> 'o \<Rightarrow> 'o) \<Rightarrow> bool \<Rightarrow> 'o msm \<Rightarrow> 'o msm" where
  "cs1_w bh state m = (if m_cs1 m \<noteq> state then update_input bh (m\<lparr>m_cs1 := state\<rparr>) else m)"

subsection \<open>The ports 0x70 and 0x80\<close>

record rtc_port =
  t_d :: u8
  t_busy :: bool

definition rtc_port_reset :: "rtc_port \<Rightarrow> rtc_port" where
  "rtc_port_reset t = t\<lparr>t_d := 0, t_busy := False\<rparr>"

text \<open>\<open>rtc_dN_w\<close>: the mask of bit N is \<open>1 << N\<close>.\<close>

definition rtc_d_w :: "nat \<Rightarrow> bool \<Rightarrow> rtc_port \<Rightarrow> rtc_port" where
  "rtc_d_w n state t = t\<lparr>t_d := (t_d t AND NOT (irq_mask n)) OR (if state then irq_mask n else 0)\<rparr>"

definition rtc_busy_w :: "bool \<Rightarrow> rtc_port \<Rightarrow> rtc_port" where
  "rtc_busy_w state t = t\<lparr>t_busy := \<not> state\<rparr>"

definition towns_rtc_r :: "rtc_port msm \<Rightarrow> u8" where
  "towns_rtc_r m = (if t_busy (m_out m) then 0 else 0x80) OR t_d (m_out m)"

definition towns_rtc_w :: "u8 \<Rightarrow> rtc_port msm \<Rightarrow> rtc_port msm" where
  "towns_rtc_w data m =
     d_w rtc_busy_w 3 (sel_bit data 3) (d_w rtc_busy_w 2 (sel_bit data 2)
       (d_w rtc_busy_w 1 (sel_bit data 1) (d_w rtc_busy_w 0 (sel_bit data 0) m)))"

definition towns_rtc_select_w :: "u8 \<Rightarrow> rtc_port msm \<Rightarrow> rtc_port msm" where
  "towns_rtc_select_w data m =
     address_write_w rtc_busy_w (sel_bit data 0) (write_w rtc_busy_w (sel_bit data 1)
       (read_w rtc_d_w (sel_bit data 2) (cs2_w rtc_busy_w (sel_bit data 7) (cs1_w rtc_busy_w (sel_bit data 7) m))))"

subsection \<open>The calendar as a specification\<close>

text \<open>
  What the code takes for the length of a month, and the successor of a date. The chip counts full years when a year is set for
  its year 0 (\<open>y2k\<close>), as on the Towns, whose year 0 is 2000; otherwise it counts the years of a century.
\<close>

definition towns_year0 :: int where "towns_year0 = 2000"

definition code_month_days :: "int \<Rightarrow> int \<Rightarrow> int" where
  "code_month_days year month =
     (if month = 2 then (if year mod 4 = 0 then 28 else 29)
      else if month = 4 \<or> month = 6 \<or> month = 9 \<or> month = 11 then 30 else 31)"

definition next_date :: "bool \<Rightarrow> int \<times> int \<times> int \<Rightarrow> int \<times> int \<times> int" where
  "next_date y2k ymd = (case ymd of (y, m, d) \<Rightarrow>
     if d < code_month_days y m then (y, m, d + 1)
     else if m < 12 then (y, m + 1, 1) else (if y2k then y + 1 else (y + 1) mod 100, 1, 1))"

definition date_of :: "rtc_clock \<Rightarrow> int \<times> int \<times> int" where
  "date_of c = (c_year c, c_month c, c_day c)"

definition second_of_day :: "rtc_clock \<Rightarrow> int" where
  "second_of_day c = (c_hour c * 60 + c_minute c) * 60 + c_second c"

text \<open>A date from the chip's year 0 on, and a time of day.\<close>

definition valid_clock :: "int \<Rightarrow> rtc_clock \<Rightarrow> bool" where
  "valid_clock year0 c \<longleftrightarrow> 0 \<le> year0 \<and> year0 \<le> c_year c \<and> (year0 = 0 \<longrightarrow> c_year c < 100) \<and> 1 \<le> c_month c \<and> c_month c \<le> 12 \<and>
     1 \<le> c_day c \<and> c_day c \<le> code_month_days (c_year c) (c_month c) \<and>
     1 \<le> c_day_of_week c \<and> c_day_of_week c \<le> 7 \<and> 0 \<le> c_hour c \<and> c_hour c < 24 \<and>
     0 \<le> c_minute c \<and> c_minute c < 60 \<and> 0 \<le> c_second c \<and> c_second c < 60"

lemma smod_nonneg: "0 \<le> a \<Longrightarrow> 0 < b \<Longrightarrow> a smod b = a mod (b :: int)"
  by (auto simp: signed_modulo_int_def sgn_if)

lemma sdiv_nonneg: "0 \<le> a \<Longrightarrow> 0 < b \<Longrightarrow> a sdiv b = a div (b :: int)"
  by (simp add: signed_divide_int_def sgn_if)

lemma month_cases:
  "1 \<le> m \<Longrightarrow> m \<le> (12 :: int) \<Longrightarrow> m = 1 \<or> m = 2 \<or> m = 3 \<or> m = 4 \<or> m = 5 \<or> m = 6 \<or> m = 7 \<or> m = 8 \<or>
     m = 9 \<or> m = 10 \<or> m = 11 \<or> m = 12"
  by arith

text \<open>The table of the code, for the months that exist.\<close>

lemma month_table:
  "1 \<le> m \<Longrightarrow> m \<le> 12 \<Longrightarrow> DAYS_PER_MONTH beyond (m - 1) =
     (if m = 2 then 28 else if m = 4 \<or> m = 6 \<or> m = 9 \<or> m = 11 then 30 else 31)"
  by (drule (1) month_cases) (elim disjE, simp_all add: DAYS_PER_MONTH_def)

definition rolls_over :: "(int \<Rightarrow> int) \<Rightarrow> rtc_clock \<Rightarrow> bool" where
  "rolls_over beyond c \<longleftrightarrow> c_month c > 0 \<and> c_day c + 1 > DAYS_PER_MONTH beyond (c_month c - 1) \<and>
     (c_month c \<noteq> 2 \<or> c_day c + 1 \<noteq> 29 \<or> c_year c smod 4 = 0)"

lemma advance_days_fields:
  fixes beyond y0 c
  assumes "c_month c \<le> 12"
  defines "c' \<equiv> advance_days beyond (y0 \<noteq> 0) True (\<lambda>c. c) c"
  shows "c_day c' = (if rolls_over beyond c then 1 else c_day c + 1)"
    "c_month c' = (if rolls_over beyond c then if c_month c = 12 then 1 else c_month c + 1 else c_month c)"
    "c_year c' = (if rolls_over beyond c \<and> c_month c = 12 then if y0 = 0 \<and> c_year c + 1 = 100 then 0 else c_year c + 1
       else c_year c)"
    "c_day_of_week c' = (if c_day_of_week c + 1 = 8 then 1 else c_day_of_week c + 1)"
    "c_hour c' = c_hour c" "c_minute c' = c_minute c" "c_second c' = c_second c"
proof -
  define t where "t = DAYS_PER_MONTH beyond (c_month c - 1)"
  have roll: "rolls_over beyond c \<longleftrightarrow> c_month c > 0 \<and> c_day c + 1 > t \<and>
      (c_month c \<noteq> 2 \<or> c_day c + 1 \<noteq> 29 \<or> c_year c smod 4 = 0)"
    by (simp add: rolls_over_def t_def)
  let ?w = "if c_day_of_week c + 1 = 8 then 1 else c_day_of_week c + 1"
  have "c' = (if rolls_over beyond c then
      if c_month c = 12 then c\<lparr>c_day := 1, c_day_of_week := ?w, c_month := 1,
        c_year := (if y0 = 0 \<and> c_year c + 1 = 100 then 0 else c_year c + 1)\<rparr>
      else c\<lparr>c_day := 1, c_day_of_week := ?w, c_month := c_month c + 1\<rparr>
    else c\<lparr>c_day := c_day c + 1, c_day_of_week := ?w\<rparr>)"
    using assms(1) unfolding c'_def advance_days_def Let_def roll
    by (auto simp: t_def [symmetric])
  then show "c_day c' = (if rolls_over beyond c then 1 else c_day c + 1)"
    "c_month c' = (if rolls_over beyond c then if c_month c = 12 then 1 else c_month c + 1 else c_month c)"
    "c_year c' = (if rolls_over beyond c \<and> c_month c = 12 then if y0 = 0 \<and> c_year c + 1 = 100 then 0 else c_year c + 1
       else c_year c)"
    "c_day_of_week c' = (if c_day_of_week c + 1 = 8 then 1 else c_day_of_week c + 1)"
    "c_hour c' = c_hour c" "c_minute c' = c_minute c" "c_second c' = c_second c"
    by simp_all
qed

lemma rolls_over_valid:
  assumes "valid_clock y0 c"
  shows "rolls_over beyond c \<longleftrightarrow> \<not> c_day c < code_month_days (c_year c) (c_month c)"
proof -
  have r: "1 \<le> c_month c" "c_month c \<le> 12" "0 \<le> c_year c" "c_day c \<le> code_month_days (c_year c) (c_month c)"
    using assms by (simp_all add: valid_clock_def)
  have y: "c_year c smod 4 = c_year c mod 4" using r(3) by (simp add: smod_nonneg)
  show ?thesis
  proof (cases "c_month c = 2")
    case True
    then have "DAYS_PER_MONTH beyond (c_month c - 1) = 28" by (simp add: DAYS_PER_MONTH_def)
    then show ?thesis using True r(4) by (auto simp: rolls_over_def code_month_days_def y)
  next
    case False
    then have "DAYS_PER_MONTH beyond (c_month c - 1) = code_month_days (c_year c) (c_month c)"
      using r(1,2) by (simp add: month_table code_month_days_def)
    then show ?thesis using False r(1) by (auto simp: rolls_over_def)
  qed
qed

lemma advance_days_date:
  assumes "valid_clock y0 c"
  shows "date_of (advance_days beyond (y0 \<noteq> 0) True (\<lambda>c. c) c) = next_date (y0 \<noteq> 0) (date_of c)"
proof -
  have m: "c_month c \<le> 12" and y: "0 \<le> c_year c" "y0 = 0 \<Longrightarrow> c_year c < 100" using assms by (simp_all add: valid_clock_def)
  have mod100: "(if y0 \<noteq> 0 then c_year c + 1 else (c_year c + 1) mod 100) = (if y0 = 0 \<and> c_year c + 1 = 100 then 0 else c_year c + 1)"
  proof (cases "y0 = 0")
    case True
    then have "c_year c < 100" by (rule y(2))
    then show ?thesis using True y(1) by simp
  qed simp
  note F = advance_days_fields [OF m, of beyond y0, unfolded rolls_over_valid [OF assms]]
  show ?thesis using m unfolding date_of_def F next_date_def prod.case mod100 by auto
qed

lemma code_month_days_ge: "1 \<le> code_month_days y m" "28 \<le> code_month_days y m"
  by (simp_all add: code_month_days_def)

lemma next_date_valid:
  assumes "next_date (y0 \<noteq> 0) (y, m, d) = (y', m', d')" "0 \<le> y0" "y0 \<le> y" "y0 = 0 \<Longrightarrow> y < 100" "1 \<le> m" "m \<le> 12" "1 \<le> d"
  shows "y0 \<le> y'" "y0 = 0 \<longrightarrow> y' < 100" "1 \<le> m'" "m' \<le> 12" "1 \<le> d'" "d' \<le> code_month_days y' m'"
  using assms code_month_days_ge by (auto simp: next_date_def split: if_splits)

lemma advance_days_valid:
  assumes "valid_clock y0 c"
  shows "valid_clock y0 (advance_days beyond (y0 \<noteq> 0) True (\<lambda>c. c) c)"
proof -
  let ?c = "advance_days beyond (y0 \<noteq> 0) True (\<lambda>c. c) c"
  have m: "c_month c \<le> 12" using assms by (simp add: valid_clock_def)
  note F = advance_days_fields(4-7) [OF m, of beyond y0]
  have n: "next_date (y0 \<noteq> 0) (c_year c, c_month c, c_day c) = (c_year ?c, c_month ?c, c_day ?c)"
    using advance_days_date [OF assms, of beyond] by (simp add: date_of_def)
  have N: "0 \<le> y0" "y0 \<le> c_year ?c" "y0 = 0 \<longrightarrow> c_year ?c < 100" "1 \<le> c_month ?c" "c_month ?c \<le> 12" "1 \<le> c_day ?c"
      "c_day ?c \<le> code_month_days (c_year ?c) (c_month ?c)"
    using assms next_date_valid [OF n] by (simp_all add: valid_clock_def)
  have "1 \<le> c_day_of_week ?c" "c_day_of_week ?c \<le> 7" "0 \<le> c_hour ?c" "c_hour ?c < 24"
      "0 \<le> c_minute ?c" "c_minute ?c < 60" "0 \<le> c_second ?c" "c_second ?c < 60"
    using assms unfolding F valid_clock_def by auto
  then show ?thesis unfolding valid_clock_def using N by blast
qed

text \<open>One second of a valid clock: within the day the date stays, at midnight it moves on.\<close>

lemma advance_seconds_cases:
  assumes "valid_clock y0 c"
  shows "second_of_day c < 86399 \<and> (\<exists>s m h. advance_seconds beyond (y0 \<noteq> 0) True (\<lambda>c. c) c =
        c\<lparr>c_hour := h, c_minute := m, c_second := s\<rparr> \<and> (h * 60 + m) * 60 + s = second_of_day c + 1 \<and>
        0 \<le> h \<and> h < 24 \<and> 0 \<le> m \<and> m < 60 \<and> 0 \<le> s \<and> s < 60)
     \<or> second_of_day c = 86399 \<and> advance_seconds beyond (y0 \<noteq> 0) True (\<lambda>c. c) c =
        advance_days beyond (y0 \<noteq> 0) True (\<lambda>c. c) (c\<lparr>c_second := 0, c_minute := 0, c_hour := 0\<rparr>)"
proof -
  have r: "0 \<le> c_hour c" "c_hour c < 24" "0 \<le> c_minute c" "c_minute c < 60" "0 \<le> c_second c" "c_second c < 60"
    using assms by (simp_all add: valid_clock_def)
  consider "c_second c < 59" | "c_second c = 59" "c_minute c < 59" | "c_second c = 59" "c_minute c = 59" "c_hour c < 23"
    | "c_second c = 59" "c_minute c = 59" "c_hour c = 23"
    using r by linarith
  then show ?thesis
  proof cases
    case 1
    then have "advance_seconds beyond (y0 \<noteq> 0) True (\<lambda>c. c) c =
        c\<lparr>c_hour := c_hour c, c_minute := c_minute c, c_second := c_second c + 1\<rparr>"
      by (simp add: advance_seconds_def)
    moreover have "second_of_day c < 86399" using r 1 by (simp add: second_of_day_def)
    moreover have "(c_hour c * 60 + c_minute c) * 60 + (c_second c + 1) = second_of_day c + 1"
      by (simp add: second_of_day_def)
    ultimately show ?thesis using r 1 by (intro disjI1 conjI exI) (assumption | simp)+
  next
    case 2
    then have "advance_seconds beyond (y0 \<noteq> 0) True (\<lambda>c. c) c =
        c\<lparr>c_hour := c_hour c, c_minute := c_minute c + 1, c_second := 0\<rparr>"
      using r by (simp add: advance_seconds_def advance_minutes_def Let_def)
    moreover have "second_of_day c < 86399" using r 2 by (simp add: second_of_day_def)
    moreover have "(c_hour c * 60 + (c_minute c + 1)) * 60 + 0 = second_of_day c + 1"
      using 2 by (simp add: second_of_day_def)
    ultimately show ?thesis using r 2 by (intro disjI1 conjI exI) (assumption | simp)+
  next
    case 3
    then have "advance_seconds beyond (y0 \<noteq> 0) True (\<lambda>c. c) c =
        c\<lparr>c_hour := c_hour c + 1, c_minute := 0, c_second := 0\<rparr>"
      by (simp add: advance_seconds_def advance_minutes_def Let_def)
    moreover have "second_of_day c < 86399" using r 3 by (simp add: second_of_day_def)
    moreover have "((c_hour c + 1) * 60 + 0) * 60 + 0 = second_of_day c + 1"
      using 3 by (simp add: second_of_day_def)
    ultimately show ?thesis using r 3 by (intro disjI1 conjI exI) (assumption | simp)+
  next
    case 4
    then show ?thesis
      by (simp add: advance_seconds_def advance_minutes_def Let_def second_of_day_def)
  qed
qed

subsection \<open>What the registers show\<close>

lemma read_counter_cong:
  "m_reg m c = m_reg m' c \<Longrightarrow> m_reg m (c + 1) = m_reg m' (c + 1) \<Longrightarrow> read_counter c m = read_counter c m'"
  by (cases "c = REGISTER_H1") (simp_all add: read_counter_def register_defs)

lemma write_counter_frame:
  "r \<noteq> a \<Longrightarrow> r \<noteq> a + 1 \<Longrightarrow> m_reg (write_counter a d m) r = m_reg m r"
  by (simp add: write_counter_def Let_def split: prod.split)

lemma write_counter_rest:
  "m_register (write_counter a d m) = m_register m" "m_khz_ctr (write_counter a d m) = m_khz_ctr m"
  "m_year0 (write_counter a d m) = m_year0 m" "m_stop (write_counter a d m) = m_stop m"
  "m_busy (write_counter a d m) = m_busy m"
  by (simp_all add: write_counter_def Let_def split: prod.split)

lemma uint_small: "0 \<le> d \<Longrightarrow> d < 256 \<Longrightarrow> uint (word_of_int d :: u8) = d"
  by (simp add: word_of_int_inverse)

lemma digits: "0 \<le> d \<Longrightarrow> d < 100 \<Longrightarrow> uint (word_of_int (d smod 10) :: u8) = d mod 10"
  "0 \<le> d \<Longrightarrow> d < 100 \<Longrightarrow> uint (word_of_int (d sdiv 10) :: u8) = d div 10"
  by (simp_all add: smod_nonneg sdiv_nonneg uint_small)

lemma write_read_counter:
  assumes "0 \<le> d" "d < 100" "a \<noteq> REGISTER_H1" "a = REGISTER_D1 \<Longrightarrow> m_reg m REGISTER_D10 AND NOT 3 = 0"
  shows "read_counter a (write_counter a d m) = d"
proof -
  have "write_counter a d m = m\<lparr>m_reg := (m_reg m)(a := word_of_int (d smod 10), a + 1 := word_of_int (d sdiv 10))\<rparr>"
    using assms(3,4) by (simp add: write_counter_def)
  then have "read_counter a (write_counter a d m) = uint (word_of_int (d smod 10) :: u8) + uint (word_of_int (d sdiv 10) :: u8) * 10"
    using assms(3) by (simp add: read_counter_def)
  then show ?thesis using assms(1,2) by (simp add: digits)
qed

lemma tens_word: "0 \<le> d \<Longrightarrow> d < 40 \<Longrightarrow> word_of_int (d sdiv 10) \<in> {0, 1, 2, 3 :: u8}"
proof -
  assume "0 \<le> d" "d < 40"
  then have "d sdiv 10 = 0 \<or> d sdiv 10 = 1 \<or> d sdiv 10 = 2 \<or> d sdiv 10 = 3" by (simp add: sdiv_nonneg) linarith
  then show ?thesis by auto
qed

lemma write_counter_hours:
  assumes "0 \<le> d" "d < 24" "tst (m_reg m REGISTER_H10) H10_24"
  shows "read_counter REGISTER_H1 (write_counter REGISTER_H1 d m) = d"
    "tst (m_reg (write_counter REGISTER_H1 d m) REGISTER_H10) H10_24"
proof -
  have f: "m_reg m REGISTER_H10 AND H10_24 = 8"
    using assms(3) tst_exp [of "m_reg m REGISTER_H10" 3] unfolding u8_eq_bits
    by (simp add: H10_24_def bit_simps)
  have w: "write_counter REGISTER_H1 d m = m\<lparr>m_reg := (m_reg m)(REGISTER_H1 := word_of_int (d smod 10),
      REGISTER_H10 := word_of_int (d sdiv 10) OR 8)\<rparr>"
    by (simp add: write_counter_def f) (simp add: register_defs)
  have l: "m_reg (write_counter REGISTER_H1 d m) REGISTER_H1 = word_of_int (d smod 10)"
    unfolding w by (simp add: register_defs)
  have v: "m_reg (write_counter REGISTER_H1 d m) REGISTER_H10 = word_of_int (d sdiv 10) OR 8"
    by (simp add: w)
  have s: "word_of_int (d sdiv 10) \<in> {0, 1, 2, 3 :: u8}" using assms(1,2) by (intro tens_word) auto
  show t: "tst (m_reg (write_counter REGISTER_H1 d m) REGISTER_H10) H10_24"
    unfolding v using s by (auto simp: H10_24_def)
  have a: "(word_of_int (d sdiv 10) OR 8) AND 3 = (word_of_int (d sdiv 10) :: u8)"
    using s by auto
  have "read_counter REGISTER_H1 (write_counter REGISTER_H1 d m) =
      uint (word_of_int (d smod 10) :: u8) + uint (word_of_int (d sdiv 10) :: u8) * 10"
    using t l unfolding read_counter_def Let_def by (simp add: v a)
  then show "read_counter REGISTER_H1 (write_counter REGISTER_H1 d m) = d" using assms(1,2) by (simp add: digits)
qed

text \<open>The display has two digits for the year, counted from the year 0 of the chip.\<close>

definition shows_clock :: "'o msm \<Rightarrow> rtc_clock \<Rightarrow> bool" where
  "shows_clock m c \<longleftrightarrow> read_counter REGISTER_Y1 m = (c_year c - m_year0 m) mod 100 \<and> read_counter REGISTER_MO1 m = c_month c \<and>
     read_counter REGISTER_D1 m = c_day c \<and> uint (m_reg m REGISTER_W) = c_day_of_week c \<and>
     read_counter REGISTER_H1 m = c_hour c \<and> read_counter REGISTER_MI1 m = c_minute c \<and>
     read_counter REGISTER_S1 m = c_second c"

text \<open>The modes in which the display is exact: 24 hours, and no other bits in the tens of the day.\<close>

definition plain_mode :: "'o msm \<Rightarrow> bool" where
  "plain_mode m \<longleftrightarrow> tst (m_reg m REGISTER_H10) H10_24 \<and> m_reg m REGISTER_D10 AND NOT 3 = 0"

lemma update_output_rest:
  "m_reg (update_output dh m) = m_reg m" "m_register (update_output dh m) = m_register m"
  "m_khz_ctr (update_output dh m) = m_khz_ctr m" "m_year0 (update_output dh m) = m_year0 m"
  "m_stop (update_output dh m) = m_stop m" "m_busy (update_output dh m) = m_busy m"
  by (simp_all add: update_output_def output_pin_def)

lemma update_standard_frame:
  "r < 14 \<Longrightarrow> m_reg (update_standard m) r = m_reg m r" "m_register (update_standard m) = m_register m"
  "m_khz_ctr (update_standard m) = m_khz_ctr m" "m_year0 (update_standard m) = m_year0 m"
  "m_stop (update_standard m) = m_stop m" "m_busy (update_standard m) = m_busy m"
  by (simp_all add: update_standard_def register_defs)

lemma shows_clock_cong:
  assumes "\<And>r. r < 14 \<Longrightarrow> m_reg m r = m_reg m' r"
  shows "m_year0 m = m_year0 m' \<Longrightarrow> shows_clock m c = shows_clock m' c" "plain_mode m = plain_mode m'"
proof -
  have "read_counter r m = read_counter r m'" if "r < 13" for r
    using that by (intro read_counter_cong assms) auto
  then show "m_year0 m = m_year0 m' \<Longrightarrow> shows_clock m c = shows_clock m' c" by (simp add: shows_clock_def register_defs assms)
  show "plain_mode m = plain_mode m'" by (simp add: plain_mode_def register_defs assms)
qed

text \<open>The counters are written from the year down; each later write leaves the earlier registers alone.\<close>

definition write_date :: "rtc_clock \<Rightarrow> 'o msm \<Rightarrow> 'o msm" where
  "write_date c m = write_counter REGISTER_D1 (c_day c)
     (write_counter REGISTER_MO1 (c_month c) (write_counter REGISTER_Y1 ((c_year c - m_year0 m) smod 100) m))"

definition write_time :: "rtc_clock \<Rightarrow> 'o msm \<Rightarrow> 'o msm" where
  "write_time c m = write_counter REGISTER_S1 (c_second c)
     (write_counter REGISTER_MI1 (c_minute c) (write_counter REGISTER_H1 (c_hour c) m))"

lemma valid_clock_bounds:
  assumes "valid_clock y0 c"
  shows "(c_year c - y0) smod 100 = (c_year c - y0) mod 100" "0 \<le> c_month c" "c_month c < 100" "0 \<le> c_day c" "c_day c < 40"
    "c_day c < 100" "0 \<le> c_day_of_week c" "c_day_of_week c < 256" "0 \<le> c_hour c" "c_hour c < 24"
    "0 \<le> c_minute c" "c_minute c < 100" "0 \<le> c_second c" "c_second c < 100"
  using assms by (auto simp: valid_clock_def code_month_days_def smod_nonneg split: if_splits)

lemma write_date_shows:
  assumes "valid_clock (m_year0 m) c" "plain_mode m"
  shows "read_counter REGISTER_Y1 (write_date c m) = (c_year c - m_year0 m) mod 100" "read_counter REGISTER_MO1 (write_date c m) = c_month c"
    "read_counter REGISTER_D1 (write_date c m) = c_day c" "plain_mode (write_date c m)"
proof -
  note b = valid_clock_bounds [OF assms(1)]
  define m1 where "m1 = write_counter REGISTER_Y1 ((c_year c - m_year0 m) smod 100) m"
  define m2 where "m2 = write_counter REGISTER_MO1 (c_month c) m1"
  have w: "write_date c m = write_counter REGISTER_D1 (c_day c) m2"
    by (simp add: write_date_def m1_def m2_def)
  have d10: "m_reg m2 REGISTER_D10 AND NOT 3 = 0" and h10: "m_reg m2 REGISTER_H10 = m_reg m REGISTER_H10"
    using assms(2) by (simp_all add: plain_mode_def m2_def m1_def write_counter_frame register_defs)
  have fr: "m_reg (write_date c m) r = m_reg m2 r" if "9 \<le> r" for r
    using that by (simp add: w write_counter_frame register_defs)
  have fr2: "m_reg (write_date c m) r = m_reg m1 r" if "11 \<le> r" for r
    using that fr by (simp add: m2_def write_counter_frame register_defs)
  have "read_counter REGISTER_Y1 (write_date c m) = read_counter REGISTER_Y1 m1"
    by (intro read_counter_cong fr2) (simp_all add: register_defs)
  also have "\<dots> = (c_year c - m_year0 m) mod 100" unfolding m1_def b(1) by (intro write_read_counter) (simp_all add: register_defs)
  finally show "read_counter REGISTER_Y1 (write_date c m) = (c_year c - m_year0 m) mod 100" .
  have "read_counter REGISTER_MO1 (write_date c m) = read_counter REGISTER_MO1 m2"
    by (intro read_counter_cong fr) (simp_all add: register_defs)
  also have "\<dots> = c_month c" unfolding m2_def using b by (intro write_read_counter) (simp_all add: register_defs)
  finally show "read_counter REGISTER_MO1 (write_date c m) = c_month c" .
  show "read_counter REGISTER_D1 (write_date c m) = c_day c"
    unfolding w using b d10 by (intro write_read_counter) (simp_all add: register_defs)
  have "m_reg (write_date c m) REGISTER_D10 = word_of_int (c_day c sdiv 10)"
    using d10 by (simp add: w write_counter_def) (simp add: register_defs)
  then have "m_reg (write_date c m) REGISTER_D10 AND NOT 3 = 0" using tens_word [OF b(4,5)] by auto
  then show "plain_mode (write_date c m)" using assms(2) h10
    by (simp add: plain_mode_def w write_counter_frame register_defs)
qed

lemma write_time_shows:
  assumes "valid_clock y0 c" "plain_mode m"
  shows "read_counter REGISTER_H1 (write_time c m) = c_hour c" "read_counter REGISTER_MI1 (write_time c m) = c_minute c"
    "read_counter REGISTER_S1 (write_time c m) = c_second c" "plain_mode (write_time c m)"
    "6 \<le> r \<Longrightarrow> m_reg (write_time c m) r = m_reg m r"
proof -
  note b = valid_clock_bounds [OF assms(1)]
  define m1 where "m1 = write_counter REGISTER_H1 (c_hour c) m"
  define m2 where "m2 = write_counter REGISTER_MI1 (c_minute c) m1"
  have w: "write_time c m = write_counter REGISTER_S1 (c_second c) m2"
    by (simp add: write_time_def m1_def m2_def)
  have fr: "m_reg (write_time c m) r = m_reg m2 r" if "2 \<le> r" for r
    using that by (simp add: w write_counter_frame register_defs)
  have fr1: "m_reg (write_time c m) r = m_reg m1 r" if "4 \<le> r" for r
    using that fr by (simp add: m2_def write_counter_frame register_defs)
  show fr0: "m_reg (write_time c m) r = m_reg m r" if "6 \<le> r" for r
    using that fr1 by (simp add: m1_def write_counter_frame register_defs)
  have h24: "tst (m_reg m REGISTER_H10) H10_24" using assms(2) by (simp add: plain_mode_def)
  note HH = write_counter_hours [OF b(9,10) h24, folded m1_def]
  have "read_counter REGISTER_H1 (write_time c m) = read_counter REGISTER_H1 m1"
    by (intro read_counter_cong fr1) (simp_all add: register_defs)
  then show "read_counter REGISTER_H1 (write_time c m) = c_hour c" using HH(1) by simp
  have "read_counter REGISTER_MI1 (write_time c m) = read_counter REGISTER_MI1 m2"
    by (intro read_counter_cong fr) (simp_all add: register_defs)
  also have "\<dots> = c_minute c" unfolding m2_def using b by (intro write_read_counter) (simp_all add: register_defs)
  finally show "read_counter REGISTER_MI1 (write_time c m) = c_minute c" .
  show "read_counter REGISTER_S1 (write_time c m) = c_second c"
    unfolding w using b by (intro write_read_counter) (simp_all add: register_defs)
  show "plain_mode (write_time c m)"
    using HH(2) fr1 [of REGISTER_H10] fr0 [of REGISTER_D10] assms(2) by (simp add: plain_mode_def register_defs)
qed

lemma clock_updated_shows:
  assumes "valid_clock (m_year0 m) c" "plain_mode m"
  shows "shows_clock (rtc_clock_updated dh c m) c" "plain_mode (rtc_clock_updated dh c m)"
proof -
  note b = valid_clock_bounds [OF assms(1)]
  let ?m3 = "write_date c m"
  let ?m4 = "?m3\<lparr>m_reg := (m_reg ?m3)(REGISTER_W := word_of_int (c_day_of_week c))\<rparr>"
  let ?m7 = "write_time c ?m4"
  have r: "rtc_clock_updated dh c m = update_output dh (update_standard ?m7)"
    by (simp add: rtc_clock_updated_def write_date_def write_time_def Let_def)
  note D = write_date_shows [OF assms]
  have p4: "plain_mode ?m4" using D(4) by (simp add: plain_mode_def register_defs)
  note T = write_time_shows [OF assms(1) p4]
  have fr: "m_reg ?m7 r = m_reg ?m3 r" if "7 \<le> r" for r using that T(5) [of r] by (simp add: register_defs)
  have "read_counter r ?m7 = read_counter r ?m3" if "7 \<le> r" for r
    using that by (intro read_counter_cong fr) auto
  moreover have "uint (m_reg ?m7 REGISTER_W) = c_day_of_week c"
    using b T(5) [of REGISTER_W] by (simp add: uint_small register_defs)
  moreover have y: "m_year0 ?m7 = m_year0 m" by (simp add: write_time_def write_date_def write_counter_rest)
  ultimately have s7: "shows_clock ?m7 c" using D T(1-3) by (simp add: shows_clock_def register_defs)
  have eq: "m_reg (rtc_clock_updated dh c m) r = m_reg ?m7 r" if "r < 14" for r
    using that by (simp add: r update_output_rest update_standard_frame)
  show "shows_clock (rtc_clock_updated dh c m) c" "plain_mode (rtc_clock_updated dh c m)"
    using s7 T(4) shows_clock_cong [OF eq] y by (auto simp: r update_output_rest update_standard_frame)
qed

subsection \<open>A second of the oscillator\<close>

lemma write_counter_out: "m_out (write_counter a d m) = m_out m" "m_d_out (write_counter a d m) = m_d_out m"
  by (simp_all add: write_counter_def Let_def split: prod.split)

lemma clock_updated_rest:
  "m_register (clock_updated dh m c) = c" "m_khz_ctr (clock_updated dh m c) = m_khz_ctr m"
  "m_year0 (clock_updated dh m c) = m_year0 m" "m_stop (clock_updated dh m c) = m_stop m"
  "m_busy (clock_updated dh m c) = m_busy m"
  by (simp_all add: clock_updated_def rtc_clock_updated_def Let_def update_output_rest update_standard_frame
      write_counter_rest)

lemma raise_busy_rest:
  "m_reg (raise_busy bh m) = m_reg m" "m_register (raise_busy bh m) = m_register m" "m_busy (raise_busy bh m)"
  "m_khz_ctr (raise_busy bh m) = m_khz_ctr m" "m_year0 (raise_busy bh m) = m_year0 m"
  "m_stop (raise_busy bh m) = m_stop m" "m_d_in (raise_busy bh m) = m_d_in m" "m_d_out (raise_busy bh m) = m_d_out m"
  by (simp_all add: raise_busy_def)

text \<open>The machine's default, 24 hours, is such a mode.\<close>

lemma towns_rtc_plain:
  assumes "valid_clock (m_year0 m) (m_register m)"
  shows "plain_mode (nvram_default dh True m)" "shows_clock (nvram_default dh True m) (m_register m)"
proof -
  let ?m = "m\<lparr>m_reg := (\<lambda>_. 0)(REGISTER_H10 := H10_24)\<rparr>"
  have "nvram_default dh True m = rtc_clock_updated dh (m_register m) ?m"
    by (simp add: nvram_default_def clock_updated_def)
  moreover have "plain_mode ?m" by (simp add: plain_mode_def register_defs H10_24_def)
  ultimately show "plain_mode (nvram_default dh True m)" "shows_clock (nvram_default dh True m) (m_register m)"
    using clock_updated_shows [of ?m "m_register m" dh] assms by simp_all
qed

text \<open>What a quiet tick leaves as it was.\<close>

definition same_time :: "'o msm \<Rightarrow> 'o msm \<Rightarrow> bool" where
  "same_time m m' \<longleftrightarrow> m_register m' = m_register m \<and> m_year0 m' = m_year0 m \<and> m_stop m' = m_stop m \<and>
     (\<forall>r < 14. m_reg m' r = m_reg m r)"

lemma tick_quiet:
  "m_khz_ctr m < 1023 \<Longrightarrow>
     same_time m (clock_tick beyond dh bh m) \<and> m_khz_ctr (clock_tick beyond dh bh m) = m_khz_ctr m + 1"
  by (simp add: clock_tick_def same_time_def register_defs)

lemma ticks_quiet:
  "m_khz_ctr m + int n \<le> 1023 \<Longrightarrow>
     same_time m ((clock_tick beyond dh bh ^^ n) m) \<and>
     m_khz_ctr ((clock_tick beyond dh bh ^^ n) m) = m_khz_ctr m + int n"
proof (induction n)
  case 0
  then show ?case by (simp add: same_time_def)
next
  case (Suc n)
  let ?m = "(clock_tick beyond dh bh ^^ n) m"
  have IH: "same_time m ?m" "m_khz_ctr ?m = m_khz_ctr m + int n" using Suc by simp_all
  then have "m_khz_ctr ?m < 1023" using Suc.prems by simp
  then show ?case using tick_quiet [of ?m beyond dh bh] IH by (simp add: same_time_def)
qed

lemma tick_full:
  assumes "m_khz_ctr m = 1023" "\<not> m_stop m"
    "valid_clock (m_year0 m) (advance_seconds beyond (m_year0 m \<noteq> 0) True (\<lambda>c. c) (m_register m))"
  shows "m_register (clock_tick beyond dh bh m) = advance_seconds beyond (m_year0 m \<noteq> 0) True (\<lambda>c. c) (m_register m)"
    "plain_mode m \<Longrightarrow> shows_clock (clock_tick beyond dh bh m) (m_register (clock_tick beyond dh bh m))"
    "plain_mode m \<Longrightarrow> plain_mode (clock_tick beyond dh bh m)" "m_khz_ctr (clock_tick beyond dh bh m) = 0"
    "m_busy (clock_tick beyond dh bh m)" "m_year0 (clock_tick beyond dh bh m) = m_year0 m"
    "\<not> m_stop (clock_tick beyond dh bh m)"
proof -
  let ?c = "advance_seconds beyond (m_year0 m \<noteq> 0) True (\<lambda>c. c) (m_register m)"
  define m3 where "m3 = m\<lparr>m_reg := (m_reg m)(REGISTER_REF0 := m_reg m REGISTER_REF0 OR 1,
                                          REGISTER_REF1 := m_reg m REGISTER_REF1 OR 1), m_khz_ctr := 0\<rparr>"
  have m3: "m_year0 m3 = m_year0 m" "m_register m3 = m_register m" "m_khz_ctr m3 = 0" "\<not> m_stop m3" and p3: "plain_mode m \<Longrightarrow> plain_mode (m3\<lparr>m_register := c\<rparr>)" for c
    using assms by (simp_all add: m3_def plain_mode_def register_defs)
  have eq: "clock_tick beyond dh bh m = raise_busy bh (clock_updated dh m3 ?c)"
    using assms(1,2) advance_continuation(3) [of beyond "m_year0 m \<noteq> 0" True "clock_updated dh m3" "m_register m"]
    by (simp add: clock_tick_def Let_def rtc_feature_y2k_def m3_def)
  have v: "valid_clock (m_year0 (m3\<lparr>m_register := ?c\<rparr>)) ?c" using assms(3) m3(1) by simp
  note S = clock_updated_shows [OF v p3, where dh = dh]
  show r: "m_register (clock_tick beyond dh bh m) = ?c"
    unfolding eq by (simp add: raise_busy_rest clock_updated_rest)
  have g: "m_reg (clock_tick beyond dh bh m) = m_reg (clock_updated dh m3 ?c)" "m_year0 (clock_tick beyond dh bh m) = m_year0 (clock_updated dh m3 ?c)"
    unfolding eq by (simp_all add: raise_busy_rest)
  show "plain_mode m \<Longrightarrow> shows_clock (clock_tick beyond dh bh m) (m_register (clock_tick beyond dh bh m))"
    "plain_mode m \<Longrightarrow> plain_mode (clock_tick beyond dh bh m)"
    using S shows_clock_cong [of "clock_tick beyond dh bh m" "clock_updated dh m3 ?c"] g unfolding r by (simp_all add: clock_updated_def)
  show "m_khz_ctr (clock_tick beyond dh bh m) = 0" "m_busy (clock_tick beyond dh bh m)"
    "m_year0 (clock_tick beyond dh bh m) = m_year0 m" "\<not> m_stop (clock_tick beyond dh bh m)"
    unfolding eq using m3 by (simp_all add: raise_busy_rest clock_updated_rest)
qed

lemma valid_time_only:
  "valid_clock y0 c \<Longrightarrow> 0 \<le> h \<Longrightarrow> h < 24 \<Longrightarrow> 0 \<le> mi \<Longrightarrow> mi < 60 \<Longrightarrow> 0 \<le> s \<Longrightarrow> s < 60 \<Longrightarrow>
     valid_clock y0 (c\<lparr>c_second := s, c_minute := mi, c_hour := h\<rparr>)"
  by (simp add: valid_clock_def)

lemma advance_seconds_spec:
  fixes beyond y0 c
  assumes "valid_clock y0 c"
  defines "c' \<equiv> advance_seconds beyond (y0 \<noteq> 0) True (\<lambda>c. c) c"
  shows "valid_clock y0 c'" "second_of_day c' = (second_of_day c + 1) mod 86400"
    "date_of c' = (if second_of_day c = 86399 then next_date (y0 \<noteq> 0) (date_of c) else date_of c)"
proof -
  let ?z = "c\<lparr>c_second := 0, c_minute := 0, c_hour := 0\<rparr>"
  have m: "c_month c \<le> 12" using assms(1) by (simp add: valid_clock_def)
  have z: "valid_clock y0 ?z" by (rule valid_time_only [OF assms(1)]) simp_all
  have nn: "0 \<le> second_of_day c" using assms(1) by (simp add: valid_clock_def second_of_day_def)
  note C = advance_seconds_cases [OF assms(1), of beyond, folded c'_def]
  have "valid_clock y0 c' \<and> second_of_day c' = (second_of_day c + 1) mod 86400 \<and>
    date_of c' = (if second_of_day c = 86399 then next_date (y0 \<noteq> 0) (date_of c) else date_of c)"
  proof (rule disjE [OF C])
    assume "second_of_day c < 86399 \<and> (\<exists>s m h. c' = c\<lparr>c_hour := h, c_minute := m, c_second := s\<rparr> \<and>
        (h * 60 + m) * 60 + s = second_of_day c + 1 \<and>
        0 \<le> h \<and> h < 24 \<and> 0 \<le> m \<and> m < 60 \<and> 0 \<le> s \<and> s < 60)"
    then obtain s mi h where "second_of_day c < 86399" "c' = c\<lparr>c_hour := h, c_minute := mi, c_second := s\<rparr>"
        "(h * 60 + mi) * 60 + s = second_of_day c + 1" "0 \<le> h" "h < 24" "0 \<le> mi" "mi < 60" "0 \<le> s" "s < 60" by blast
    then show ?thesis using assms(1) nn by (simp add: valid_clock_def second_of_day_def date_of_def)
  next
    assume a: "second_of_day c = 86399 \<and> c' = advance_days beyond (y0 \<noteq> 0) True (\<lambda>c. c) ?z"
    have "valid_clock y0 c'" using advance_days_valid [OF z] a by simp
    moreover have "second_of_day c' = 0"
      using advance_days_fields(5-7) [of ?z beyond y0] m a by (simp add: second_of_day_def)
    moreover have "date_of c' = next_date (y0 \<noteq> 0) (date_of c)"
      using advance_days_date [OF z, of beyond] a by (simp add: date_of_def)
    ultimately show ?thesis using a by simp
  qed
  then show "valid_clock y0 c'" "second_of_day c' = (second_of_day c + 1) mod 86400"
    "date_of c' = (if second_of_day c = 86399 then next_date (y0 \<noteq> 0) (date_of c) else date_of c)" by simp_all
qed

text \<open>
  C15: from a valid time on, with the clock running, 1024 ticks of the oscillator advance the time of day by exactly one second
  and the date only at midnight, then to the next date of the code's calendar, and leave a valid time and the divider at its
  start. This holds for every year 0 of the chip, the 2000 of the Towns included, and in 12-hour mode as well. In 24-hour mode, which is
  what the Towns sets up, with no stray bits in the tens of the day, the registers then show the time digit by digit, the year
  by its last two digits counted from year 0.
\<close>
theorem rtc_one_second:
  assumes "valid_clock (m_year0 m) (m_register m)" "m_khz_ctr m = 0" "\<not> m_stop m"
    "m' = (clock_tick beyond dh bh ^^ 1024) m"
  shows "valid_clock (m_year0 m) (m_register m')
    \<and> second_of_day (m_register m') = (second_of_day (m_register m) + 1) mod 86400
    \<and> date_of (m_register m') = (if second_of_day (m_register m) = 86399 then next_date (m_year0 m \<noteq> 0) (date_of (m_register m))
        else date_of (m_register m))
    \<and> (plain_mode m \<longrightarrow> shows_clock m' (m_register m') \<and> plain_mode m')
    \<and> m_khz_ctr m' = 0 \<and> m_busy m' \<and> m_year0 m' = m_year0 m \<and> \<not> m_stop m'"
proof -
  let ?q = "(clock_tick beyond dh bh ^^ 1023) m"
  have "Suc 1023 = (1024 :: nat)" by simp
  then have m': "m' = clock_tick beyond dh bh ?q"
    using assms(4) funpow_Suc_right [of 1023 "clock_tick beyond dh bh"] funpow.simps(2) [of 1023 "clock_tick beyond dh bh"]
    by (metis comp_apply)
  have q: "same_time m ?q" "m_khz_ctr ?q = 1023"
    using ticks_quiet [of m 1023 beyond dh bh] assms(2) by simp_all
  then have Q: "m_register ?q = m_register m" "m_year0 ?q = m_year0 m" "\<not> m_stop ?q" "plain_mode ?q = plain_mode m"
    using assms shows_clock_cong(2) [of ?q m] by (simp_all add: same_time_def)
  note A = advance_seconds_spec [OF assms(1), of beyond]
  have "valid_clock (m_year0 ?q) (advance_seconds beyond (m_year0 ?q \<noteq> 0) True (\<lambda>c. c) (m_register ?q))" using A(1) Q(1,2) by simp
  note F = tick_full [OF q(2) Q(3) this, of dh bh, folded m', unfolded Q]
  show ?thesis using F A unfolding F(1) by blast
qed

text \<open>The chip as the Towns has it, in the last second of its display's century.\<close>

definition sample_rtc :: "unit msm" where
  "sample_rtc = \<lparr>m_year0 = towns_year0, m_cs1 = False, m_cs2 = False, m_write = False, m_read = False,
     m_d_in = \<lambda>_. False, m_d_out = \<lambda>_. False, m_address_write = False, m_busy = False, m_stop = False,
     m_test = False, m_address = 15, m_reg = (\<lambda>_. 0)(REGISTER_H10 := H10_24), m_khz_ctr = 0,
     m_register = \<lparr>c_year = 2099, c_month = 12, c_day = 31, c_day_of_week = 5, c_hour = 23, c_minute = 59,
       c_second = 59\<rparr>, m_out = ()\<rparr>"

lemma rtc_one_second_witness:
  "date_of (m_register ((clock_tick (\<lambda>_. 0) (\<lambda>_ _ p. p) (\<lambda>_ p. p) ^^ 1024) sample_rtc)) = (2100, 1, 1) \<and>
   read_counter REGISTER_Y1 ((clock_tick (\<lambda>_. 0) (\<lambda>_ _ p. p) (\<lambda>_ p. p) ^^ 1024) sample_rtc) = 0"
proof -
  let ?m = "(clock_tick (\<lambda>_. 0) (\<lambda>_ _ p. p) (\<lambda>_ p. p) ^^ 1024) sample_rtc"
  have h: "valid_clock (m_year0 sample_rtc) (m_register sample_rtc)" "m_khz_ctr sample_rtc = 0" "\<not> m_stop sample_rtc"
    and p: "plain_mode sample_rtc" "m_year0 sample_rtc = 2000"
    and d: "second_of_day (m_register sample_rtc) = 86399" "next_date True (date_of (m_register sample_rtc)) = (2100, 1, 1)"
    by (simp_all add: sample_rtc_def valid_clock_def code_month_days_def plain_mode_def register_defs H10_24_def towns_year0_def
        second_of_day_def date_of_def next_date_def)
  have "date_of (m_register ?m) = (2100, 1, 1)" "shows_clock ?m (m_register ?m)" "m_year0 ?m = 2000"
    using rtc_one_second [OF h refl, of "\<lambda>_. 0" "\<lambda>_ _ p. p" "\<lambda>_ p. p"] p d by simp_all
  then show ?thesis by (simp add: shows_clock_def date_of_def)
qed

text \<open>
  C16: the leap-year test of the calendar is inverted: at the end of 28 February a year divisible
  by four goes on to 1 March, and every other year to 29 February, whether the chip counts full years, as on the Towns, or
  the years of a century.
\<close>
theorem rtc_leap_year_inverted:
  assumes "valid_clock y0 c" "date_of c = (y, 2, 28)" "second_of_day c = 86399"
  shows "date_of (advance_seconds beyond (y0 \<noteq> 0) True (\<lambda>c. c) c) = (if y mod 4 = 0 then (y, 3, 1) else (y, 2, 29))"
  using advance_seconds_spec(3) [OF assms(1), of beyond] assms(2,3)
  by (simp add: next_date_def code_month_days_def)

lemma rtc_leap_year_inverted_witness:
  "date_of (advance_seconds (\<lambda>_. 0) (towns_year0 \<noteq> 0) True (\<lambda>c. c)
     \<lparr>c_year = 2024, c_month = 2, c_day = 28, c_day_of_week = 4, c_hour = 23, c_minute = 59, c_second = 59\<rparr>)
   = (2024, 3, 1)"
proof -
  let ?c = "\<lparr>c_year = 2024, c_month = 2, c_day = 28, c_day_of_week = 4, c_hour = 23, c_minute = 59, c_second = 59\<rparr>"
  have "valid_clock towns_year0 ?c" "date_of ?c = (2024, 2, 28)" "second_of_day ?c = 86399"
    by (simp_all add: valid_clock_def code_month_days_def date_of_def second_of_day_def towns_year0_def)
  from rtc_leap_year_inverted [OF this, of "\<lambda>_. 0"] show ?thesis by simp
qed

subsection \<open>The bus protocol of the two ports\<close>

text \<open>Between accesses the software leaves every control line low; \<open>t_d\<close> mirrors the output pins.\<close>

definition rtc_idle :: "rtc_port msm \<Rightarrow> bool" where
  "rtc_idle m \<longleftrightarrow> \<not> m_cs1 m \<and> \<not> m_cs2 m \<and> \<not> m_write m \<and> \<not> m_read m \<and> \<not> m_address_write m"

definition rtc_mirror :: "rtc_port msm \<Rightarrow> bool" where
  "rtc_mirror m \<longleftrightarrow> (\<forall>n. bit (t_d (m_out m)) n = (n < 4 \<and> m_d_out m n))"

lemma nibble_bits: "bit (nibble d) n \<longleftrightarrow> n < 4 \<and> d n"
proof (cases "n < 4")
  case True
  then have "n = 0 \<or> n = 1 \<or> n = 2 \<or> n = 3" by auto
  then show ?thesis by (auto simp: nibble_def bit_simps)
next
  case False
  then have "n \<ge> 8 \<or> n = 4 \<or> n = 5 \<or> n = 6 \<or> n = 7" by auto
  then show ?thesis using False by (auto simp: nibble_def bit_simps)
qed

lemma rtc_d_w_bit: "n < 8 \<Longrightarrow> bit (t_d (rtc_d_w n st t)) k = (if k = n then st else bit (t_d t) k)"
  by (simp add: rtc_d_w_def)

lemma output_pin_mirror:
  assumes "rtc_mirror m" "n < 4"
  shows "rtc_mirror (output_pin rtc_d_w data n m)" "m_d_out (output_pin rtc_d_w data n m) n = bit data n"
    "k \<noteq> n \<Longrightarrow> m_d_out (output_pin rtc_d_w data n m) k = m_d_out m k"
    "t_busy (m_out (output_pin rtc_d_w data n m)) = t_busy (m_out m)"
proof -
  show "rtc_mirror (output_pin rtc_d_w data n m)"
    using assms by (simp add: output_pin_def rtc_mirror_def rtc_d_w_bit)
qed (simp_all add: output_pin_def rtc_d_w_def)

lemma update_output_mirror:
  assumes "rtc_mirror m"
  shows "rtc_mirror (update_output rtc_d_w m)"
    "n < 4 \<Longrightarrow> m_d_out (update_output rtc_d_w m) n = bit (output_data m) n"
    "t_busy (m_out (update_output rtc_d_w m)) = t_busy (m_out m)"
proof -
  let ?p = "output_pin rtc_d_w (output_data m)"
  have u: "update_output rtc_d_w m = ?p 3 (?p 2 (?p 1 (?p 0 m)))" by (simp add: update_output_def)
  note m0 = output_pin_mirror [OF assms, where n = 0 and data = "output_data m", simplified]
  note m1 = output_pin_mirror [OF m0(1), where n = 1 and data = "output_data m", simplified]
  note m2 = output_pin_mirror [OF m1(1), where n = 2 and data = "output_data m", simplified]
  note m3 = output_pin_mirror [OF m2(1), where n = 3 and data = "output_data m", simplified]
  show "rtc_mirror (update_output rtc_d_w m)" using m3(1) u by simp
  show "t_busy (m_out (update_output rtc_d_w m)) = t_busy (m_out m)"
    using m0(4) m1(4) m2(4) m3(4) u by simp
  show "m_d_out (update_output rtc_d_w m) n = bit (output_data m) n" if "n < 4"
  proof -
    have "n = 0 \<or> n = 1 \<or> n = 2 \<or> n = 3" using that by auto
    then show ?thesis unfolding u
      using m0(2,3) m1(2,3) m2(2,3) m3(2,3) by auto
  qed
qed

lemma d_in_same: "m_d_in m n = st \<Longrightarrow> m\<lparr>m_d_in := (m_d_in m)(n := st)\<rparr> = m"
  by (cases m) auto

lemma d_w_quiet: "\<not> m_cs1 m \<or> \<not> m_write m \<and> \<not> m_address_write m \<Longrightarrow>
    d_w bh n st m = m\<lparr>m_d_in := (m_d_in m)(n := st)\<rparr>"
  by (cases "m_d_in m n = st") (auto simp: d_w_def update_input_def d_in_same Let_def)

lemma d_in_nibble: "(((((f :: nat \<Rightarrow> bool)(0 := bit d 0))(1 := bit d 1))(2 := bit d 2))(3 := bit d 3)) =
    (\<lambda>n. if n < 4 then bit d n else f n)" for d :: u8
proof (rule ext)
  fix n
  show "(((((f(0 := bit d 0))(1 := bit d 1))(2 := bit d 2))(3 := bit d 3)) n) = (if n < 4 then bit d n else f n)"
    by (cases "n < 4") (auto dest!: less_4_cases)
qed

lemma towns_rtc_w_idle:
  assumes "rtc_idle m"
  shows "towns_rtc_w data m = m\<lparr>m_d_in := \<lambda>n. if n < 4 then bit data n else m_d_in m n\<rparr>"
proof -
  have "\<not> m_cs1 m" using assms by (simp add: rtc_idle_def)
  then show ?thesis using d_in_nibble [of "m_d_in m" data]
    unfolding towns_rtc_w_def sel_bit_iff by (simp add: d_w_quiet)
qed

text \<open>The strobes one after the other.\<close>

lemma select_address:
  assumes "rtc_idle m"
  shows "towns_rtc_select_w 0x81 m =
    m\<lparr>m_cs1 := True, m_cs2 := True, m_address_write := True, m_address := unat (nibble (m_d_in m))\<rparr>"
  using assms
  by (simp add: rtc_idle_def towns_rtc_select_w_def sel_bit_iff cs1_w_def cs2_w_def read_w_def write_w_def
      address_write_w_def update_input_def Let_def)

lemma select_release:
  assumes "m_cs1 m" "m_cs2 m" "\<not> m_write m" "\<not> m_read m"
  shows "towns_rtc_select_w 0x80 m = m\<lparr>m_address_write := False\<rparr>"
  using assms
  by (cases "m_address_write m") (simp_all add: towns_rtc_select_w_def sel_bit_iff cs1_w_def cs2_w_def read_w_def write_w_def
      address_write_w_def update_input_def Let_def)

lemma select_read:
  assumes "m_cs1 m" "m_cs2 m" "\<not> m_write m" "\<not> m_read m" "\<not> m_address_write m"
  shows "towns_rtc_select_w 0x84 m = update_output rtc_d_w (m\<lparr>m_read := True\<rparr>)"
proof -
  have "\<not> m_write (update_output rtc_d_w m')" "\<not> m_address_write (update_output rtc_d_w m')"
    if "\<not> m_write m'" "\<not> m_address_write m'" for m' :: "rtc_port msm"
    using that by (simp_all add: update_output_def output_pin_def)
  then show ?thesis using assms
    by (simp add: towns_rtc_select_w_def sel_bit_iff cs1_w_def cs2_w_def read_w_def write_w_def address_write_w_def)
qed

lemma select_write:
  assumes "m_cs1 m" "m_cs2 m" "\<not> m_write m" "\<not> m_read m" "\<not> m_address_write m"
    "m_address m \<noteq> REGISTER_RESET" "m_address m \<noteq> REGISTER_REF0" "m_address m \<noteq> REGISTER_REF1"
  shows "towns_rtc_select_w 0x82 m =
    set_time_from_registers (rtc_store (m_address m) (nibble (m_d_in m)) (m\<lparr>m_write := True, m_khz_ctr := 0\<rparr>))"
  using assms
  by (simp add: towns_rtc_select_w_def sel_bit_iff cs1_w_def cs2_w_def read_w_def write_w_def
      address_write_w_def update_input_def Let_def set_time_from_registers_def rtc_store_def)

definition rtc_address :: "u8 \<Rightarrow> rtc_port msm \<Rightarrow> rtc_port msm" where
  "rtc_address a m = towns_rtc_select_w 0x80 (towns_rtc_select_w 0x81 (towns_rtc_w a m))"

lemma rtc_address_state:
  assumes "rtc_idle m" "a < 16"
  shows "rtc_address a m = m\<lparr>m_d_in := \<lambda>n. if n < 4 then bit a n else m_d_in m n, m_cs1 := True, m_cs2 := True,
      m_address_write := False, m_address := unat a\<rparr>"
proof -
  let ?m = "m\<lparr>m_d_in := \<lambda>n. if n < 4 then bit a n else m_d_in m n\<rparr>"
  have id: "rtc_idle ?m" using assms(1) by (simp add: rtc_idle_def)
  have "nibble (m_d_in ?m) = a"
    using u8_low_bits [OF assms(2)] by (intro bit_word_eqI) (auto simp: nibble_bits)
  then show ?thesis using assms(1) id
    by (simp add: rtc_address_def towns_rtc_w_idle select_address select_release rtc_idle_def)
qed

text \<open>
  Reading a register of the clock through the two ports: with the control lines low, write
  the register number to the data port, strobe it with 0x81 and 0x80, and select reading with 0x84;
  the low nibble of the data port is then the register's (the day of the week counted from zero, the
  reset register as zero), and neither the registers nor the time have changed.
\<close>
lemma rtc_read_protocol:
  assumes "rtc_idle m" "rtc_mirror m" "a < 16" "towns_rtc_select_w 0x84 (rtc_address a m) = m'"
  shows "towns_rtc_r m' AND 0x0f = (if unat a = REGISTER_RESET then 0
      else if unat a = REGISTER_W then m_reg m (unat a) - 1 else m_reg m (unat a)) AND 0x0f
    \<and> bit (towns_rtc_r m') 7 = (\<not> t_busy (m_out m))
    \<and> m_reg m' = m_reg m \<and> m_register m' = m_register m \<and> rtc_mirror m'"
proof -
  let ?m = "(rtc_address a m)\<lparr>m_read := True\<rparr>"
  note A = rtc_address_state [OF assms(1,3)]
  have m': "m' = update_output rtc_d_w ?m"
    using assms(1,4) select_read [of "rtc_address a m"] by (simp add: A rtc_idle_def)
  have mir: "rtc_mirror ?m" using assms(2) by (simp add: A rtc_mirror_def)
  note U = update_output_mirror [OF mir, folded m']
  have od: "output_data ?m = (if unat a = REGISTER_RESET then 0
      else if unat a = REGISTER_W then m_reg m (unat a) - 1 else m_reg m (unat a))"
    by (simp add: A output_data_def)
  have b: "bit (t_d (m_out m')) n = (n < 4 \<and> bit (output_data ?m) n)" for n
    using U(1,2) by (auto simp: rtc_mirror_def)
  have "towns_rtc_r m' AND 0x0f = output_data ?m AND 0x0f"
  proof (rule u8_eqI)
    fix n
    have "\<not> bit (0x80 :: u8) n" if "n < 4" using less_4_cases [OF that] by auto
    then have "bit (towns_rtc_r m') n = bit (output_data ?m) n" if "n < 4"
      using that by (simp add: towns_rtc_r_def bit_or_iff b)
    then show "bit (towns_rtc_r m' AND 0x0f) n = bit (output_data ?m AND 0x0f) n"
      unfolding bit_and_0f by blast
  qed
  moreover have "bit (towns_rtc_r m') 7 = (\<not> t_busy (m_out m))"
    using U(3) by (simp add: towns_rtc_r_def bit_or_iff b A)
  moreover have "m_reg m' = m_reg m" "m_register m' = m_register m"
    unfolding m' update_output_rest by (simp_all add: A)
  ultimately show ?thesis using U(1) unfolding od by blast
qed

text \<open>
  Writing a register: after the address, put the digit on the data port and strobe it with
  0x82. The register holds the digit (tens of seconds and minutes without bit 3, the day of the week
  counted from one, the tens of the hour without the afternoon bit in 24-hour mode, the tens of the
  month one bit), the divider restarts, and the running clock takes the time the registers now show.
\<close>
lemma rtc_write_protocol:
  assumes "rtc_idle m" "a < 13" "d < 16"
    "towns_rtc_select_w 0x82 (towns_rtc_w d (rtc_address a m)) = m'"
  shows "m_reg m' = m_reg (rtc_store (unat a) d m) \<and> m_khz_ctr m' = 0
    \<and> m_register m' = set_time (rtc_feature_y2k m) (read_counter REGISTER_Y1 m' + m_year0 m)
        (read_counter REGISTER_MO1 m') (read_counter REGISTER_D1 m') (uint (m_reg m' REGISTER_W))
        (read_counter REGISTER_H1 m') (read_counter REGISTER_MI1 m') (read_counter REGISTER_S1 m')"
proof -
  have a16: "a < 16" using assms(2) by (simp add: word_less_def)
  have a13: "unat a < 13" using assms(2) by (simp add: word_less_nat_alt)
  note A = rtc_address_state [OF assms(1) a16]
  have id: "\<not> m_write m" "\<not> m_read m" "\<not> m_address_write m" using assms(1) by (simp_all add: rtc_idle_def)
  define q where "q = towns_rtc_w d (rtc_address a m)"
  have q: "q = (rtc_address a m)\<lparr>m_d_in := \<lambda>n. if n < 4 then bit d n else m_d_in (rtc_address a m) n\<rparr>"
    unfolding q_def towns_rtc_w_def sel_bit_iff
    using id d_in_nibble [of "m_d_in (rtc_address a m)" d] by (simp add: d_w_quiet A)
  have nb: "nibble (m_d_in q) = d"
    using u8_low_bits [OF assms(3)] by (intro bit_word_eqI) (auto simp: nibble_bits q)
  have adr: "m_address q = unat a" by (simp add: q A)
  have qf: "m_cs1 q" "m_cs2 q" "\<not> m_write q" "\<not> m_read q" "\<not> m_address_write q"
      "m_reg q = m_reg m" "m_year0 q = m_year0 m"
    unfolding q using id by (simp_all add: A)
  have "m_address q \<noteq> REGISTER_RESET" "m_address q \<noteq> REGISTER_REF0" "m_address q \<noteq> REGISTER_REF1"
    using a13 by (simp_all add: adr register_defs)
  from select_write [OF qf(1-5) this]
  have m': "m' = set_time_from_registers (rtc_store (unat a) d (q\<lparr>m_write := True, m_khz_ctr := 0\<rparr>))"
    using assms(4) by (simp only: q_def [symmetric] nb adr)
  have r: "m_reg m' = m_reg (rtc_store (unat a) d m)" "m_khz_ctr m' = 0"
    unfolding m' using qf(6) by (simp_all add: set_time_from_registers_def rtc_store_def)
  have c: "read_counter k (rtc_store (unat a) d (q\<lparr>m_write := True, m_khz_ctr := 0\<rparr>)) = read_counter k m'" for k
    unfolding m' by (intro read_counter_cong) (simp_all add: set_time_from_registers_def)
  have "m_register m' = set_time (rtc_feature_y2k m) (read_counter REGISTER_Y1 m' + m_year0 m)
        (read_counter REGISTER_MO1 m') (read_counter REGISTER_D1 m') (uint (m_reg m' REGISTER_W))
        (read_counter REGISTER_H1 m') (read_counter REGISTER_MI1 m') (read_counter REGISTER_S1 m')"
    unfolding c [symmetric] using qf(7)
    by (simp add: m' set_time_from_registers_def rtc_feature_y2k_def rtc_store_def)
  with r show ?thesis by blast
qed

definition sample_rtc_port :: "rtc_port msm" where
  "sample_rtc_port = \<lparr>m_year0 = 0, m_cs1 = False, m_cs2 = False, m_write = False, m_read = False,
     m_d_in = \<lambda>_. False, m_d_out = \<lambda>_. False, m_address_write = False, m_busy = False, m_stop = False,
     m_test = False, m_address = 15, m_reg = (\<lambda>_. 0)(REGISTER_H10 := 0x0a), m_khz_ctr = 0,
     m_register = \<lparr>c_year = 99, c_month = 12, c_day = 31, c_day_of_week = 7, c_hour = 20, c_minute = 0,
       c_second = 0\<rparr>, m_out = \<lparr>t_d = 0, t_busy = False\<rparr>\<rparr>"

lemma sample_rtc_port_idle: "rtc_idle sample_rtc_port" "rtc_mirror sample_rtc_port"
  by (simp_all add: sample_rtc_port_def rtc_idle_def rtc_mirror_def)

lemma rtc_read_protocol_witness:
  "towns_rtc_r (towns_rtc_select_w 0x84 (rtc_address 5 sample_rtc_port)) AND 0x0f = 0x0a"
proof -
  have "(5 :: u8) < 16" by simp
  from rtc_read_protocol [OF sample_rtc_port_idle this refl] show ?thesis
    by (simp add: sample_rtc_port_def register_defs)
qed

lemma rtc_write_protocol_witness:
  "c_minute (m_register (towns_rtc_select_w 0x82 (towns_rtc_w 0x0d (rtc_address 3 sample_rtc_port)))) = 50"
proof -
  obtain m' where m': "towns_rtc_select_w 0x82 (towns_rtc_w 0x0d (rtc_address 3 sample_rtc_port)) = m'" by simp
  have "(3 :: u8) < 13" "(0x0d :: u8) < 16" by simp_all
  note P = rtc_write_protocol [OF sample_rtc_port_idle(1) this m']
  note T = P [THEN conjunct1] P [THEN conjunct2, THEN conjunct2]
  have "c_minute (m_register m') = read_counter REGISTER_MI1 m'" unfolding T(2) by (simp add: set_time_def)
  also have "\<dots> = 50" unfolding read_counter_def T(1)
    by (simp add: rtc_store_def sample_rtc_port_def register_defs)
  finally show ?thesis unfolding m' .
qed

lemma twelve_hour_words:
  "0 \<le> d \<Longrightarrow> d < 13 \<Longrightarrow> word_of_int (d sdiv 10) \<in> {0, 1 :: u8}"
proof -
  assume "0 \<le> d" "d < 13"
  then have "d sdiv 10 = 0 \<or> d sdiv 10 = 1" by (simp add: sdiv_nonneg) linarith
  then show ?thesis by auto
qed

lemma write_counter_12h:
  fixes m :: "'o msm" and h :: int
  assumes "m_reg m REGISTER_H10 AND H10_24 = 0"
  defines "d \<equiv> if 12 \<le> h then h - 12 else h"
  defines "e \<equiv> if tst (m_reg m REGISTER_H10) H10_PM \<and> d = 0 then 12 else d"
  shows "write_counter REGISTER_H1 h m = m\<lparr>m_reg := (m_reg m)(REGISTER_H1 := word_of_int (e smod 10),
      REGISTER_H10 := word_of_int (e sdiv 10) OR (if 12 \<le> h then H10_PM else 0))\<rparr>"
proof -
  have s: "REGISTER_H1 + 1 = REGISTER_H10" by (simp add: register_defs)
  show ?thesis unfolding write_counter_def Let_def assms(1) s d_def e_def
    by (cases "12 \<le> h"; cases "tst (m_reg m REGISTER_H10) H10_PM") (simp_all only: prod.case if_True if_False refl simp_thms split: if_split)
qed

text \<open>
  In 12-hour mode the display decides whether noon and midnight are shown as 12 from the
  afternoon bit it showed before. With that bit set, hour 12 is stored so that it reads back as 24,
  and hour 0 so that it reads back as 12; every other hour, and every hour when the bit was clear,
  reads back as written.
\<close>
lemma rtc_twelve_hour_display:
  assumes "0 \<le> h" "h < 24" "m_reg m REGISTER_H10 AND H10_24 = 0"
  shows "read_counter REGISTER_H1 (write_counter REGISTER_H1 h m) =
    (if tst (m_reg m REGISTER_H10) H10_PM \<and> (h = 0 \<or> h = 12) then h + 12 else h)"
proof -
  define f where "f = (if 12 \<le> h then H10_PM else 0)"
  define d where "d = (if 12 \<le> h then h - 12 else h)"
  define e where "e = (if tst (m_reg m REGISTER_H10) H10_PM \<and> d = 0 then 12 else d)"
  have w: "write_counter REGISTER_H1 h m = m\<lparr>m_reg := (m_reg m)(REGISTER_H1 := word_of_int (e smod 10),
      REGISTER_H10 := word_of_int (e sdiv 10) OR f)\<rparr>"
    unfolding f_def d_def e_def by (rule write_counter_12h [OF assms(3)])
  have e: "0 \<le> e" "e < 13" "d < 12" "0 \<le> d" using assms(1,2) by (auto simp: e_def d_def)
  have s: "word_of_int (e sdiv 10) \<in> {0, 1 :: u8}" using e by (intro twelve_hour_words)
  let ?h10 = "word_of_int (e sdiv 10) OR f"
  have b: "?h10 AND H10_24 = 0" "(?h10 AND H10_PM = 0) = (f = 0)" "?h10 AND 1 = word_of_int (e sdiv 10)"
    using s by (auto simp: f_def H10_24_def H10_PM_def)
  have r: "m_reg (write_counter REGISTER_H1 h m) REGISTER_H1 = word_of_int (e smod 10)"
    "m_reg (write_counter REGISTER_H1 h m) REGISTER_H10 = ?h10"
    unfolding w by (simp_all add: register_defs)
  have "read_counter REGISTER_H1 (write_counter REGISTER_H1 h m) = e mod 10 + (if f = 0 then 0 else 12) + (e div 10) * 10"
    unfolding read_counter_def Let_def r b using e by (simp add: b digits)
  also have "\<dots> = e + (if f = 0 then 0 else 12)" by simp
  also have "\<dots> = (if tst (m_reg m REGISTER_H10) H10_PM \<and> (h = 0 \<or> h = 12) then h + 12 else h)"
    by (auto simp: e_def d_def f_def H10_PM_def)
  finally show ?thesis .
qed

lemma rtc_twelve_hour_display_witness:
  "read_counter REGISTER_H1 (write_counter REGISTER_H1 12 (sample_rtc\<lparr>m_reg := (\<lambda>_. 0)(REGISTER_H10 := H10_PM)\<rparr>)) = 24"
  using rtc_twelve_hour_display [of 12 "sample_rtc\<lparr>m_reg := (\<lambda>_. 0)(REGISTER_H10 := H10_PM)\<rparr>"]
  by (simp add: H10_PM_def H10_24_def)

end
