(* ===== verification/Towns_Memory.thy ===== *)
theory Towns_Memory
  imports Byte_Store
begin

text \<open>
  The memories of the driver and the windows the processor sees them through
  (\<open>src/mame/fujitsu/fmtowns.cpp\<close>, \<open>src/mame/fujitsu/fmtowns_v.cpp\<close>): battery-backed CMOS RAM in its
  32-bit and 16-bit layouts, the banks of the first megabyte, the planar, linear and packed views of
  the graphics VRAM with the write mask, and the text/sprite RAM window. The video controller's
  registers are the record \<open>vid\<close> of \<open>fmtowns.h\<close>.
\<close>

unbundle bit_operations_syntax

record rect =
  min_x :: int
  max_x :: int
  min_y :: int
  max_y :: int

record vid =
  v_wplane :: u8
  v_rplane :: u8
  v_page_sel :: u8
  v_palette_select :: u8
  v_palette_r :: "nat \<Rightarrow> u8"
  v_palette_g :: "nat \<Rightarrow> u8"
  v_palette_b :: "nat \<Rightarrow> u8"
  v_degipal :: "nat \<Rightarrow> u8"
  v_dpmd_flag :: bool
  v_crtc_mix :: u8
  v_crtc_sel :: u8
  v_crtc_reg :: "nat \<Rightarrow> u16"
  v_video_sel :: u8
  v_video_reg :: "nat \<Rightarrow> u8"
  v_sprite_sel :: u8
  v_sprite_reg :: "nat \<Rightarrow> u8"
  v_sprite_flag :: bool
  v_sprite_page :: u8
  v_tvram_enable :: bool
  v_kanji_offset :: u16
  v_kanji_code_h :: u8
  v_kanji_code_l :: u8
  v_layerscr :: "nat \<Rightarrow> rect"
  v_display_plane :: u8
  v_display_page_sel :: u8
  v_vblank_flag :: bool
  v_layer_ctrl :: u8

text \<open>The CMOS RAM is shared memory of 32-bit or of 16-bit units, depending on the processor's bus.\<close>

datatype cmos = Nvram32 "nat \<Rightarrow> u32" | Nvram16 "nat \<Rightarrow> u16"

text \<open>Where a memory bank points: into the main RAM or into the system ROM.\<close>

datatype bank = Ram_at nat | Rom_at nat

record tmem =
  t_ram :: "nat \<Rightarrow> u8"
  t_rom :: "nat \<Rightarrow> u8"
  t_cmos :: cmos
  t_gfxvram :: "nat \<Rightarrow> u8"
  t_txtvram :: "nat \<Rightarrow> u8"
  t_mainmem_enable :: bool
  t_ankcg_enable :: bool
  t_ram_enable :: bool
  t_system_port :: u8
  t_bank_cb000_r :: bank
  t_bank_cb000_w :: bank
  t_bank_f8000_r :: bank
  t_bank_f8000_w :: bank
  t_vram_mask :: "nat \<Rightarrow> u8"
  t_vram_mask_addr :: u8
  t_video :: vid

subsection \<open>CMOS RAM\<close>

definition lane_get :: "nat \<Rightarrow> 'a::len word \<Rightarrow> u8" where
  "lane_get shift w = ucast (drop_bit shift w)"

definition lane_put :: "nat \<Rightarrow> u8 \<Rightarrow> 'a::len word \<Rightarrow> 'a word" where
  "lane_put shift data w = (w AND NOT (push_bit shift 0xff)) OR push_bit shift (ucast data)"

definition towns_cmos_r :: "tmem \<Rightarrow> nat \<Rightarrow> u8" where
  "towns_cmos_r m offset =
     (case t_cmos m of
        Nvram32 n \<Rightarrow> lane_get ((offset mod 4) * 8) (n (offset div 4))
      | Nvram16 n \<Rightarrow> lane_get ((offset mod 2) * 8) (n (offset div 2)))"

definition towns_cmos_w :: "tmem \<Rightarrow> nat \<Rightarrow> u8 \<Rightarrow> tmem" where
  "towns_cmos_w m offset data =
     (case t_cmos m of
        Nvram32 n \<Rightarrow> m\<lparr>t_cmos := Nvram32 (n(offset div 4 := lane_put ((offset mod 4) * 8) data (n (offset div 4))))\<rparr>
      | Nvram16 n \<Rightarrow> m\<lparr>t_cmos := Nvram16 (n(offset div 2 := lane_put ((offset mod 2) * 8) data (n (offset div 2))))\<rparr>)"

definition towns_cmos_low_r :: "tmem \<Rightarrow> nat \<Rightarrow> u8" where
  "towns_cmos_low_r m offset =
     (if t_mainmem_enable m then t_ram m (offset + 0xd8000) else towns_cmos_r m offset)"

definition towns_cmos_low_w :: "tmem \<Rightarrow> nat \<Rightarrow> u8 \<Rightarrow> tmem" where
  "towns_cmos_low_w m offset data =
     (if t_mainmem_enable m then m\<lparr>t_ram := (t_ram m)(offset + 0xd8000 := data)\<rparr> else towns_cmos_w m offset data)"

subsection \<open>Banks of the first megabyte\<close>

definition towns_update_video_banks :: "tmem \<Rightarrow> tmem" where
  "towns_update_video_banks m =
     (if t_mainmem_enable m then
        m\<lparr>t_bank_cb000_r := Ram_at 0xcb000, t_bank_cb000_w := Ram_at 0xcb000,
          t_bank_f8000_r := (if tst (t_system_port m) 0x02 then Ram_at 0xf8000 else Rom_at 0x238000),
          t_bank_f8000_w := Ram_at 0xf8000\<rparr>
      else
        m\<lparr>t_bank_cb000_r := (if t_ankcg_enable m then Rom_at (0x180000 + 0x3d800) else Ram_at 0xcb000),
          t_bank_cb000_w := Ram_at 0xcb000,
          t_bank_f8000_r := (if tst (t_system_port m) 0x02 then Ram_at 0xf8000 else Rom_at 0x238000),
          t_bank_f8000_w := Ram_at 0xf8000\<rparr>)"

definition towns_sys480_r :: "tmem \<Rightarrow> u8" where
  "towns_sys480_r m = (if tst (t_system_port m) 0x02 then 0x02 else 0x00)"

definition towns_sys480_w :: "u8 \<Rightarrow> tmem \<Rightarrow> tmem" where
  "towns_sys480_w data m =
     towns_update_video_banks (m\<lparr>t_system_port := data, t_ram_enable := tst data 0x02\<rparr>)"

definition towns_video_404_w :: "u8 \<Rightarrow> tmem \<Rightarrow> tmem" where
  "towns_video_404_w data m = towns_update_video_banks (m\<lparr>t_mainmem_enable := tst data 0x80\<rparr>)"

definition towns_video_404_r :: "tmem \<Rightarrow> u8" where
  "towns_video_404_r m = (if t_mainmem_enable m then 0x80 else 0x00)"

subsection \<open>Graphics VRAM\<close>

definition towns_gfx_high_r :: "tmem \<Rightarrow> nat \<Rightarrow> u8" where
  "towns_gfx_high_r m offset = t_gfxvram m offset"

definition towns_gfx_high_w :: "tmem \<Rightarrow> nat \<Rightarrow> u8 \<Rightarrow> tmem" where
  "towns_gfx_high_w m offset data =
     (let mask = t_vram_mask m (offset mod 4); mem = t_gfxvram m offset
      in m\<lparr>t_gfxvram := (t_gfxvram m)(offset := (mem AND NOT mask) OR (data AND mask))\<rparr>)"

text \<open>\<open>bitswap<n>(v, b1, \<dots>, bn)\<close>: the listed bits of v, the first one on top.\<close>

definition bitswap :: "nat list \<Rightarrow> nat \<Rightarrow> nat" where
  "bitswap bs v = foldl (\<lambda>acc b. 2 * acc + v div 2 ^ b mod 2) 0 bs"

definition packed_bits :: "nat list" where
  "packed_bits = [2,18,17,16,15,14,13,12,11,10,9,8,7,6,5,4,3,1,0]"

definition towns_gfx_packed_r :: "tmem \<Rightarrow> nat \<Rightarrow> u8" where
  "towns_gfx_packed_r m offset = t_gfxvram m (bitswap packed_bits offset)"

definition towns_gfx_packed_w :: "tmem \<Rightarrow> nat \<Rightarrow> u8 \<Rightarrow> tmem" where
  "towns_gfx_packed_w m offset data =
     (let mask = t_vram_mask m (offset mod 4); offset' = bitswap packed_bits offset; mem = t_gfxvram m offset'
      in m\<lparr>t_gfxvram := (t_gfxvram m)(offset' := (mem AND NOT mask) OR (data AND mask))\<rparr>)"

definition gfx_base :: "tmem \<Rightarrow> nat \<Rightarrow> nat" where
  "gfx_base m offset = offset * 4 + (if v_page_sel (t_video m) \<noteq> 0 then 0x20000 else 0)"

definition towns_gfx_r :: "tmem \<Rightarrow> nat \<Rightarrow> u8" where
  "towns_gfx_r m offset =
     (if t_mainmem_enable m then t_ram m (offset + 0xc0000)
      else
        let p = unat (v_rplane (t_video m)); o0 = gfx_base m offset; g = t_gfxvram m;
            g0 = drop_bit p (g o0); g1 = drop_bit p (g (o0 + 1)); g2 = drop_bit p (g (o0 + 2)); g3 = drop_bit p (g (o0 + 3))
        in (((((((push_bit 7 g0 AND 0x80) OR (push_bit 2 g0 AND 0x40)) OR (push_bit 5 g1 AND 0x20)) OR (g1 AND 0x10))
           OR (push_bit 3 g2 AND 0x08)) OR (drop_bit 2 g2 AND 0x04)) OR (push_bit 1 g3 AND 0x02)) OR (drop_bit 4 g3 AND 0x01))"

definition put_plane :: "nat \<Rightarrow> u8 \<Rightarrow> u8 \<Rightarrow> (nat \<Rightarrow> u8) \<Rightarrow> nat \<Rightarrow> u8" where
  "put_plane a msk v g = g(a := (g a AND NOT msk) OR v)"

definition towns_gfx_w :: "tmem \<Rightarrow> nat \<Rightarrow> u8 \<Rightarrow> tmem" where
  "towns_gfx_w m offset data =
     (if t_mainmem_enable m then m\<lparr>t_ram := (t_ram m)(offset + 0xc0000 := data)\<rparr>
      else
        let wp = v_wplane (t_video m); a = gfx_base m offset; g = t_gfxvram m;
          g = (if tst wp 0x08 then
                 put_plane (a + 3) 0x88 (push_bit 2 (data AND 0x02) OR push_bit 7 (data AND 0x01))
                (put_plane (a + 2) 0x88 ((data AND 0x08) OR push_bit 5 (data AND 0x04))
                (put_plane (a + 1) 0x88 (drop_bit 2 (data AND 0x20) OR push_bit 3 (data AND 0x10))
                (put_plane a 0x88 (drop_bit 4 (data AND 0x80) OR push_bit 1 (data AND 0x40)) g))) else g);
          g = (if tst wp 0x04 then
                 put_plane (a + 3) 0x44 (push_bit 1 (data AND 0x02) OR push_bit 6 (data AND 0x01))
                (put_plane (a + 2) 0x44 (drop_bit 1 (data AND 0x08) OR push_bit 4 (data AND 0x04))
                (put_plane (a + 1) 0x44 (drop_bit 3 (data AND 0x20) OR push_bit 2 (data AND 0x10))
                (put_plane a 0x44 (drop_bit 5 (data AND 0x80) OR (data AND 0x40)) g))) else g);
          g = (if tst wp 0x02 then
                 put_plane (a + 3) 0x22 ((data AND 0x02) OR push_bit 5 (data AND 0x01))
                (put_plane (a + 2) 0x22 (drop_bit 2 (data AND 0x08) OR push_bit 3 (data AND 0x04))
                (put_plane (a + 1) 0x22 (drop_bit 4 (data AND 0x20) OR push_bit 1 (data AND 0x10))
                (put_plane a 0x22 (drop_bit 6 (data AND 0x80) OR drop_bit 1 (data AND 0x40)) g))) else g);
          g = (if tst wp 0x01 then
                 put_plane (a + 3) 0x11 (drop_bit 1 (data AND 0x02) OR push_bit 4 (data AND 0x01))
                (put_plane (a + 2) 0x11 (drop_bit 3 (data AND 0x08) OR push_bit 2 (data AND 0x04))
                (put_plane (a + 1) 0x11 (drop_bit 5 (data AND 0x20) OR (data AND 0x10))
                (put_plane a 0x11 (drop_bit 7 (data AND 0x80) OR drop_bit 2 (data AND 0x40)) g))) else g)
        in m\<lparr>t_gfxvram := g\<rparr>)"

subsection \<open>Text and sprite RAM\<close>

definition towns_spriteram_low_r :: "tmem \<Rightarrow> nat \<Rightarrow> u8" where
  "towns_spriteram_low_r m offset =
     (if offset < 0x1000 then
        (if \<not> t_mainmem_enable m then t_txtvram m offset else t_ram m (offset + 0xc8000))
      else if 0x1000 \<le> offset \<and> offset < 0x2000 then t_ram m (offset + 0xc9000)
      else if 0x2000 \<le> offset \<and> offset < 0x3000 then
        (if \<not> t_mainmem_enable m then
           (if t_ankcg_enable m \<and> offset < 0x2800 then t_rom m (0x180000 + 0x3d000 + (offset - 0x2000))
            else t_txtvram m offset)
         else t_ram m (offset + 0xca000))
      else 0x00)"

definition towns_spriteram_low_w :: "tmem \<Rightarrow> nat \<Rightarrow> u8 \<Rightarrow> tmem" where
  "towns_spriteram_low_w m offset data =
     (let m1 = (if offset < 0x1000 then
                  let m' = m\<lparr>t_video := (t_video m)\<lparr>v_tvram_enable := True\<rparr>\<rparr>
                  in if \<not> t_mainmem_enable m' then m'\<lparr>t_txtvram := (t_txtvram m')(offset := data)\<rparr>
                     else m'\<lparr>t_ram := (t_ram m')(offset + 0xc8000 := data)\<rparr>
                else m);
          m2 = (if 0x1000 \<le> offset \<and> offset < 0x2000
                then m1\<lparr>t_ram := (t_ram m1)(offset + 0xc9000 := data)\<rparr> else m1)
      in if 0x2000 \<le> offset \<and> offset < 0x3000 then
           let m' = m2\<lparr>t_video := (t_video m2)\<lparr>v_tvram_enable := True\<rparr>\<rparr>
           in if \<not> t_mainmem_enable m' then m'\<lparr>t_txtvram := (t_txtvram m')(offset := data)\<rparr>
              else m'\<lparr>t_ram := (t_ram m')(offset + 0xca000 := data)\<rparr>
         else m2)"

definition towns_spriteram_r :: "tmem \<Rightarrow> nat \<Rightarrow> u8" where
  "towns_spriteram_r m offset = t_txtvram m offset"

definition towns_spriteram_w :: "tmem \<Rightarrow> nat \<Rightarrow> u8 \<Rightarrow> tmem" where
  "towns_spriteram_w m offset data = m\<lparr>t_txtvram := (t_txtvram m)(offset := data)\<rparr>"

subsection \<open>CMOS RAM is byte-addressed memory\<close>

lemma lane_get_put: "shift + 8 \<le> LENGTH('a) \<Longrightarrow> lane_get shift (lane_put shift d (w :: 'a::len word)) = d"
  by (rule u8_eqI) (auto simp: lane_get_def lane_put_def bit_bytes)

lemma lane_get_put_other:
  "shift + 8 \<le> LENGTH('a) \<Longrightarrow> k + 8 \<le> LENGTH('a) \<Longrightarrow> shift + 8 \<le> k \<or> k + 8 \<le> shift \<Longrightarrow>
     lane_get k (lane_put shift d (w :: 'a::len word)) = lane_get k w"
  by (rule u8_eqI) (auto simp: lane_get_def lane_put_def bit_bytes dest: bit8_less)

text \<open>An array of n-byte units, accessed bytewise, for both widths of the bus.\<close>

lemma lane_array:
  fixes f :: "nat \<Rightarrow> 'a::len word" and a b u :: nat and d :: u8
  assumes "LENGTH('a) = u * 8" "0 < u"
  defines "f' \<equiv> f(a div u := lane_put (a mod u * 8) d (f (a div u)))"
  shows "lane_get (a mod u * 8) (f' (a div u)) = d"
    "b \<noteq> a \<Longrightarrow> lane_get (b mod u * 8) (f' (b div u)) = lane_get (b mod u * 8) (f (b div u))"
proof -
  have l: "x mod u * 8 + 8 \<le> LENGTH('a)" for x :: nat
    using mod_less_divisor [of u x] assms(1,2) by linarith
  show "lane_get (a mod u * 8) (f' (a div u)) = d" unfolding f'_def fun_upd_same using l by (rule lane_get_put)
  assume "b \<noteq> a"
  show "lane_get (b mod u * 8) (f' (b div u)) = lane_get (b mod u * 8) (f (b div u))"
  proof (cases "b div u = a div u")
    case True
    then have "b mod u \<noteq> a mod u" using \<open>b \<noteq> a\<close> div_mult_mod_eq [of b u] div_mult_mod_eq [of a u] by auto
    then have "a mod u * 8 + 8 \<le> b mod u * 8 \<or> b mod u * 8 + 8 \<le> a mod u * 8" by linarith
    then have "lane_get (b mod u * 8) (lane_put (a mod u * 8) d (f (a div u))) = lane_get (b mod u * 8) (f (a div u))"
      using l by (intro lane_get_put_other)
    then show ?thesis by (simp add: f'_def True)
  qed (simp add: f'_def)
qed

lemma cmos_rw:
  "towns_cmos_r (towns_cmos_w m a d) a = d"
  "b \<noteq> a \<Longrightarrow> towns_cmos_r (towns_cmos_w m a d) b = towns_cmos_r m b"
proof -
  note L = lane_array [where u = 4 and 'a = 32, simplified] lane_array [where u = 2 and 'a = 16, simplified]
  show "towns_cmos_r (towns_cmos_w m a d) a = d"
    using L by (cases "t_cmos m") (simp_all add: towns_cmos_r_def towns_cmos_w_def)
  show "b \<noteq> a \<Longrightarrow> towns_cmos_r (towns_cmos_w m a d) b = towns_cmos_r m b"
    using L by (cases "t_cmos m") (simp_all add: towns_cmos_r_def towns_cmos_w_def)
qed

interpretation cmos: byte_store towns_cmos_r towns_cmos_w "0x2000" "\<lambda>_. True"
  by unfold_locales (simp_all add: cmos_rw)

lemma cmos_w_rest [simp]:
  "t_mainmem_enable (towns_cmos_w m a d) = t_mainmem_enable m" "t_ram (towns_cmos_w m a d) = t_ram m"
  by (simp_all add: towns_cmos_w_def split: cmos.split)

lemma cmos_low_w_rest [simp]: "t_mainmem_enable (towns_cmos_low_w m a d) = t_mainmem_enable m"
  by (simp add: towns_cmos_low_w_def)

interpretation cmos_low: byte_store towns_cmos_low_r towns_cmos_low_w "0x2000" "\<lambda>_. True"
  by unfold_locales (auto simp: towns_cmos_low_r_def towns_cmos_low_w_def cmos_rw)

lemma poke_low_cmos:
  "\<not> t_mainmem_enable m \<Longrightarrow> poke towns_cmos_low_w m a ds = poke towns_cmos_w m a ds"
proof (induction ds arbitrary: m a)
  case (Cons d ds)
  then show ?case using Cons.IH [of "towns_cmos_w m a d" "Suc a"] by (simp add: towns_cmos_low_w_def)
qed simp

lemma poke_cmos_ram: "t_ram (poke towns_cmos_w m a ds) = t_ram m"
  by (induction ds arbitrary: m a) simp_all

lemma poke_low_ram:
  "t_mainmem_enable m \<Longrightarrow> t_cmos (poke towns_cmos_low_w m a ds) = t_cmos m"
proof (induction ds arbitrary: m a)
  case (Cons d ds)
  then show ?case using Cons.IH [of "towns_cmos_low_w m a d" "Suc a"] by (simp add: towns_cmos_low_w_def)
qed simp

subsection \<open>The linear and the packed view of VRAM\<close>

lemma bitswap_run:
  "foldl (\<lambda>acc b. 2 * acc + v div 2 ^ b mod 2) acc (rev [a..<a + n]) = acc * 2 ^ n + v div 2 ^ a mod 2 ^ n"
  for v :: nat
proof (induction n arbitrary: acc)
  case (Suc n)
  have "v div 2 ^ a mod 2 ^ Suc n = 2 ^ n * (v div 2 ^ (a + n) mod 2) + v div 2 ^ a mod 2 ^ n"
    by (simp only: power_Suc2 mod_mult2_eq power_add div_mult2_eq)
  with Suc [of "2 * acc + v div 2 ^ (a + n) mod 2"] show ?case by (simp add: algebra_simps)
qed simp

lemma packed_bits_runs: "packed_bits = [2] @ rev [3..<3 + 16] @ rev [0..<0 + 2]"
  by (simp add: packed_bits_def upt_rec)

lemma bitswap_packed:
  assumes "v < 0x80000"
  shows "bitswap packed_bits v = v div 4 mod 2 * 0x40000 + v div 8 * 4 + v mod 4"
proof -
  have "v div 8 < 0x10000" using assms by (simp add: less_mult_imp_div_less)
  then have m: "v div 2 ^ 3 mod 2 ^ 16 = v div 8" by simp
  show ?thesis unfolding bitswap_def packed_bits_runs foldl_append bitswap_run m by simp
qed

lemma packed_parts:
  assumes "v < 0x80000"
  obtains p q r where "v = p * 8 + q * 4 + r" "p < 0x10000" "q < 2" "r < 4"
    "bitswap packed_bits v = q * 0x40000 + p * 4 + r"
proof (rule that)
  have "v div 8 = v div 4 div 2" using div_mult2_eq [of v 4 2] by simp
  then have "v div 4 = v div 8 * 2 + v div 4 mod 2" by simp
  moreover have "v = v div 4 * 4 + v mod 4" by simp
  ultimately show "v = v div 8 * 8 + v div 4 mod 2 * 4 + v mod 4" by linarith
  show "v div 8 < 0x10000" using assms by (simp add: less_mult_imp_div_less)
qed (simp_all add: bitswap_packed [OF assms])

lemma packed_inj:
  assumes "a < 0x80000" "b < 0x80000" "bitswap packed_bits a = bitswap packed_bits b"
  shows "a = b"
proof -
  obtain p q r where a: "a = p * 8 + q * 4 + r" "p < 0x10000" "q < 2" "r < 4"
      "bitswap packed_bits a = q * 0x40000 + p * 4 + r" by (rule packed_parts [OF assms(1)])
  obtain p' q' r' where b: "b = p' * 8 + q' * 4 + r'" "p' < 0x10000" "q' < 2" "r' < 4"
      "bitswap packed_bits b = q' * 0x40000 + p' * 4 + r'" by (rule packed_parts [OF assms(2)])
  have e: "q * 0x40000 + p * 4 + r = q' * 0x40000 + p' * 4 + r'" using a(5) b(5) assms(3) by simp
  have q: "q = q'" using e a(2,4) b(2,4) by linarith
  have "p = p'" using e q a(4) b(4) by linarith
  then show ?thesis using e q a(1) b(1) by simp
qed

definition masks_open :: "tmem \<Rightarrow> bool" where
  "masks_open m \<longleftrightarrow> (\<forall>i < 4. t_vram_mask m i = NOT 0)"

interpretation linear: open_store towns_gfx_high_r towns_gfx_high_w "\<lambda>m a. t_vram_mask m (a mod 4)" "0x80000" masks_open
  by unfold_locales (auto simp: towns_gfx_high_r_def towns_gfx_high_w_def masks_open_def Let_def)

interpretation packed: open_store towns_gfx_packed_r towns_gfx_packed_w "\<lambda>m a. t_vram_mask m (a mod 4)" "0x80000" masks_open
proof unfold_locales
  show "towns_gfx_packed_r (towns_gfx_packed_w m a d) b = towns_gfx_packed_r m b"
    if "a < 0x80000" "b < 0x80000" "b \<noteq> a" for a b m d
    using packed_inj [OF that(2,1)] that(3) by (auto simp: towns_gfx_packed_r_def towns_gfx_packed_w_def Let_def)
qed (auto simp: towns_gfx_packed_r_def towns_gfx_packed_w_def masks_open_def Let_def)

subsection \<open>The planar view of VRAM\<close>

lemma tst_bit_masks:
  "tst w 0x01 = bit w 0" "tst w 0x02 = bit w 1" "tst w 0x04 = bit w 2" "tst w 0x08 = bit w 3" for w :: u8
  using tst_exp [of w 0] tst_exp [of w 1] tst_exp [of w 2] tst_exp [of w 3] by simp_all

text \<open>One write-plane block: plane p of the eight pixels, two pixels to a byte.\<close>

definition plane_block :: "nat \<Rightarrow> u8 \<Rightarrow> u8 \<Rightarrow> u8 \<Rightarrow> u8 \<Rightarrow> u8 \<Rightarrow> (nat \<Rightarrow> u8) \<Rightarrow> nat \<Rightarrow> u8" where
  "plane_block a msk v0 v1 v2 v3 g =
     put_plane (a + 3) msk v3 (put_plane (a + 2) msk v2 (put_plane (a + 1) msk v1 (put_plane a msk v0 g)))"

lemma plane_block_apply:
  "plane_block a msk v0 v1 v2 v3 g (a + 0) = (g (a + 0) AND NOT msk) OR v0"
  "plane_block a msk v0 v1 v2 v3 g (a + 1) = (g (a + 1) AND NOT msk) OR v1"
  "plane_block a msk v0 v1 v2 v3 g (a + 2) = (g (a + 2) AND NOT msk) OR v2"
  "plane_block a msk v0 v1 v2 v3 g (a + 3) = (g (a + 3) AND NOT msk) OR v3"
  "x < a \<or> a + 4 \<le> x \<Longrightarrow> plane_block a msk v0 v1 v2 v3 g x = g x"
  by (auto simp: plane_block_def put_plane_def)

text \<open>The byte with pixels 2k and 2k + 1 of the eight, and the data bit behind each of its bits.\<close>

definition pixel_bit :: "u8 \<Rightarrow> nat \<Rightarrow> nat \<Rightarrow> bool" where
  "pixel_bit data k i = bit data (7 - 2 * k - i div 4)"

lemma bit_times_2: "bit (d * 2) i \<longleftrightarrow> i < 8 \<and> i \<noteq> 0 \<and> bit d (i - 1)" for d :: u8
  by (simp add: mult.commute [of d] bit_double_iff)

lemma suc_counts: "Suc (Suc 0) = 2" "Suc (Suc (Suc 0)) = 3" "Suc (Suc (Suc (Suc n))) = n + 4"
  by simp_all

lemmas pixel_simps = suc_counts pixel_bit_def bit_times_2 bit_simps

lemma plane_3_bytes:
  assumes "i < 8"
  shows
    "bit ((x AND NOT 0x88) OR (drop_bit 4 (d AND 0x80) OR push_bit 1 (d AND 0x40))) i = (if i mod 4 = 3 then pixel_bit d 0 i else bit x i)"
    "bit ((x AND NOT 0x88) OR (drop_bit 2 (d AND 0x20) OR push_bit 3 (d AND 0x10))) i = (if i mod 4 = 3 then pixel_bit d 1 i else bit x i)"
    "bit ((x AND NOT 0x88) OR ((d AND 0x08) OR push_bit 5 (d AND 0x04))) i = (if i mod 4 = 3 then pixel_bit d 2 i else bit x i)"
    "bit ((x AND NOT 0x88) OR (push_bit 2 (d AND 0x02) OR push_bit 7 (d AND 0x01))) i = (if i mod 4 = 3 then pixel_bit d 3 i else bit x i)"
  by (rule disjE [OF less_8_cases [OF assms]], simp add: pixel_simps, (elim disjE; simp add: pixel_simps))+

lemma plane_2_bytes:
  assumes "i < 8"
  shows
    "bit ((x AND NOT 0x44) OR (drop_bit 5 (d AND 0x80) OR (d AND 0x40))) i = (if i mod 4 = 2 then pixel_bit d 0 i else bit x i)"
    "bit ((x AND NOT 0x44) OR (drop_bit 3 (d AND 0x20) OR push_bit 2 (d AND 0x10))) i = (if i mod 4 = 2 then pixel_bit d 1 i else bit x i)"
    "bit ((x AND NOT 0x44) OR (drop_bit 1 (d AND 0x08) OR push_bit 4 (d AND 0x04))) i = (if i mod 4 = 2 then pixel_bit d 2 i else bit x i)"
    "bit ((x AND NOT 0x44) OR (push_bit 1 (d AND 0x02) OR push_bit 6 (d AND 0x01))) i = (if i mod 4 = 2 then pixel_bit d 3 i else bit x i)"
  by (rule disjE [OF less_8_cases [OF assms]], simp add: pixel_simps, (elim disjE; simp add: pixel_simps))+

lemma plane_1_bytes:
  assumes "i < 8"
  shows
    "bit ((x AND NOT 0x22) OR (drop_bit 6 (d AND 0x80) OR drop_bit 1 (d AND 0x40))) i = (if i mod 4 = 1 then pixel_bit d 0 i else bit x i)"
    "bit ((x AND NOT 0x22) OR (drop_bit 4 (d AND 0x20) OR push_bit 1 (d AND 0x10))) i = (if i mod 4 = 1 then pixel_bit d 1 i else bit x i)"
    "bit ((x AND NOT 0x22) OR (drop_bit 2 (d AND 0x08) OR push_bit 3 (d AND 0x04))) i = (if i mod 4 = 1 then pixel_bit d 2 i else bit x i)"
    "bit ((x AND NOT 0x22) OR ((d AND 0x02) OR push_bit 5 (d AND 0x01))) i = (if i mod 4 = 1 then pixel_bit d 3 i else bit x i)"
  by (rule disjE [OF less_8_cases [OF assms]], simp add: pixel_simps, (elim disjE; simp add: pixel_simps))+

lemma plane_0_bytes:
  assumes "i < 8"
  shows
    "bit ((x AND NOT 0x11) OR (drop_bit 7 (d AND 0x80) OR drop_bit 2 (d AND 0x40))) i = (if i mod 4 = 0 then pixel_bit d 0 i else bit x i)"
    "bit ((x AND NOT 0x11) OR (drop_bit 5 (d AND 0x20) OR (d AND 0x10))) i = (if i mod 4 = 0 then pixel_bit d 1 i else bit x i)"
    "bit ((x AND NOT 0x11) OR (drop_bit 3 (d AND 0x08) OR push_bit 2 (d AND 0x04))) i = (if i mod 4 = 0 then pixel_bit d 2 i else bit x i)"
    "bit ((x AND NOT 0x11) OR (drop_bit 1 (d AND 0x02) OR push_bit 4 (d AND 0x01))) i = (if i mod 4 = 0 then pixel_bit d 3 i else bit x i)"
  by (rule disjE [OF less_8_cases [OF assms]], simp add: pixel_simps, (elim disjE; simp add: pixel_simps))+

lemma plane_block_pixels:
  assumes "k < 4" "i < 8"
  shows
    "bit (plane_block a 0x88 (drop_bit 4 (d AND 0x80) OR push_bit 1 (d AND 0x40))
        (drop_bit 2 (d AND 0x20) OR push_bit 3 (d AND 0x10)) ((d AND 0x08) OR push_bit 5 (d AND 0x04))
        (push_bit 2 (d AND 0x02) OR push_bit 7 (d AND 0x01)) g (a + k)) i =
      (if i mod 4 = 3 then pixel_bit d k i else bit (g (a + k)) i)"
    "bit (plane_block a 0x44 (drop_bit 5 (d AND 0x80) OR (d AND 0x40))
        (drop_bit 3 (d AND 0x20) OR push_bit 2 (d AND 0x10)) (drop_bit 1 (d AND 0x08) OR push_bit 4 (d AND 0x04))
        (push_bit 1 (d AND 0x02) OR push_bit 6 (d AND 0x01)) g (a + k)) i =
      (if i mod 4 = 2 then pixel_bit d k i else bit (g (a + k)) i)"
    "bit (plane_block a 0x22 (drop_bit 6 (d AND 0x80) OR drop_bit 1 (d AND 0x40))
        (drop_bit 4 (d AND 0x20) OR push_bit 1 (d AND 0x10)) (drop_bit 2 (d AND 0x08) OR push_bit 3 (d AND 0x04))
        ((d AND 0x02) OR push_bit 5 (d AND 0x01)) g (a + k)) i =
      (if i mod 4 = 1 then pixel_bit d k i else bit (g (a + k)) i)"
    "bit (plane_block a 0x11 (drop_bit 7 (d AND 0x80) OR drop_bit 2 (d AND 0x40))
        (drop_bit 5 (d AND 0x20) OR (d AND 0x10)) (drop_bit 3 (d AND 0x08) OR push_bit 2 (d AND 0x04))
        (drop_bit 1 (d AND 0x02) OR push_bit 4 (d AND 0x01)) g (a + k)) i =
      (if i mod 4 = 0 then pixel_bit d k i else bit (g (a + k)) i)"
proof -
  note B = plane_block_apply(1-4) plane_3_bytes [OF assms(2)] plane_2_bytes [OF assms(2)]
    plane_1_bytes [OF assms(2)] plane_0_bytes [OF assms(2)]
  show "bit (plane_block a 0x88 (drop_bit 4 (d AND 0x80) OR push_bit 1 (d AND 0x40))
        (drop_bit 2 (d AND 0x20) OR push_bit 3 (d AND 0x10)) ((d AND 0x08) OR push_bit 5 (d AND 0x04))
        (push_bit 2 (d AND 0x02) OR push_bit 7 (d AND 0x01)) g (a + k)) i =
      (if i mod 4 = 3 then pixel_bit d k i else bit (g (a + k)) i)"
    using less_4_cases [OF assms(1)] by (elim disjE; hypsubst; simp only: B)
  show "bit (plane_block a 0x44 (drop_bit 5 (d AND 0x80) OR (d AND 0x40))
        (drop_bit 3 (d AND 0x20) OR push_bit 2 (d AND 0x10)) (drop_bit 1 (d AND 0x08) OR push_bit 4 (d AND 0x04))
        (push_bit 1 (d AND 0x02) OR push_bit 6 (d AND 0x01)) g (a + k)) i =
      (if i mod 4 = 2 then pixel_bit d k i else bit (g (a + k)) i)"
    using less_4_cases [OF assms(1)] by (elim disjE; hypsubst; simp only: B)
  show "bit (plane_block a 0x22 (drop_bit 6 (d AND 0x80) OR drop_bit 1 (d AND 0x40))
        (drop_bit 4 (d AND 0x20) OR push_bit 1 (d AND 0x10)) (drop_bit 2 (d AND 0x08) OR push_bit 3 (d AND 0x04))
        ((d AND 0x02) OR push_bit 5 (d AND 0x01)) g (a + k)) i =
      (if i mod 4 = 1 then pixel_bit d k i else bit (g (a + k)) i)"
    using less_4_cases [OF assms(1)] by (elim disjE; hypsubst; simp only: B)
  show "bit (plane_block a 0x11 (drop_bit 7 (d AND 0x80) OR drop_bit 2 (d AND 0x40))
        (drop_bit 5 (d AND 0x20) OR (d AND 0x10)) (drop_bit 3 (d AND 0x08) OR push_bit 2 (d AND 0x04))
        (drop_bit 1 (d AND 0x02) OR push_bit 4 (d AND 0x01)) g (a + k)) i =
      (if i mod 4 = 0 then pixel_bit d k i else bit (g (a + k)) i)"
    using less_4_cases [OF assms(1)] by (elim disjE; hypsubst; simp only: B)
qed

lemma gfx_w_pixels:
  assumes "\<not> t_mainmem_enable m" "k < 4" "i < 8"
  shows "bit (t_gfxvram (towns_gfx_w m off data) (gfx_base m off + k)) i =
    (if bit (v_wplane (t_video m)) (i mod 4) then pixel_bit data k i else bit (t_gfxvram m (gfx_base m off + k)) i)"
proof -
  have "i mod 4 < 4" by simp
  then have c: "i mod 4 = 0 \<or> i mod 4 = 1 \<or> i mod 4 = 2 \<or> i mod 4 = 3" by (rule less_4_cases)
  have block: "bit ((if b then f else g) x) i = (if b then bit (f x) i else bit (g x) i)"
    for b and f g :: "nat \<Rightarrow> u8" and x by simp
  have sel: "t_gfxvram (m\<lparr>t_gfxvram := g\<rparr>) = g" for g by simp
  have num: "(0 :: nat) \<noteq> 1" "(0 :: nat) \<noteq> 2" "(0 :: nat) \<noteq> 3" "(1 :: nat) \<noteq> 0" "(1 :: nat) \<noteq> 2" "(1 :: nat) \<noteq> 3"
    "(2 :: nat) \<noteq> 0" "(2 :: nat) \<noteq> 1" "(2 :: nat) \<noteq> 3" "(3 :: nat) \<noteq> 0" "(3 :: nat) \<noteq> 1" "(3 :: nat) \<noteq> 2" by simp_all
  show ?thesis using c unfolding towns_gfx_w_def Let_def tst_bit_masks plane_block_def [symmetric]
    by (elim disjE) (simp_all only: assms(1) not_False_eq_True if_False sel block plane_block_pixels [OF assms(2,3)] num
        if_True refl if_cancel)
qed

lemma gfx_w_outside:
  assumes "\<not> t_mainmem_enable m" "x < gfx_base m off \<or> gfx_base m off + 4 \<le> x"
  shows "t_gfxvram (towns_gfx_w m off data) x = t_gfxvram m x"
  using assms unfolding towns_gfx_w_def Let_def plane_block_def [symmetric] by (simp add: plane_block_apply(5))

lemma gfx_w_rest [simp]:
  "t_video (towns_gfx_w m off data) = t_video m" "t_mainmem_enable (towns_gfx_w m off data) = t_mainmem_enable m"
  "t_vram_mask (towns_gfx_w m off data) = t_vram_mask m"
  by (simp_all add: towns_gfx_w_def Let_def)

lemma gfx_base_w [simp]: "gfx_base (towns_gfx_w m off data) x = gfx_base m x"
  by (simp add: gfx_base_def)

lemma gfx_r_pixels:
  assumes "\<not> t_mainmem_enable m" "unat (v_rplane (t_video m)) = p" "p < 4" "j < 8"
  shows "bit (towns_gfx_r m off) j = bit (t_gfxvram m (gfx_base m off + (7 - j) div 2)) (p + 4 * ((7 - j) mod 2))"
  using assms(1,2,3) less_8_cases [OF assms(4)]
  by (elim disjE; simp add: towns_gfx_r_def Let_def bit_times_2 suc_counts bit_simps add.commute)

subsection \<open>Text and sprite RAM\<close>

interpretation sprite_ram: byte_store towns_spriteram_r towns_spriteram_w "0x20000" "\<lambda>_. True"
  by unfold_locales (simp_all add: towns_spriteram_r_def towns_spriteram_w_def)

lemma spriteram_low_rest [simp]:
  "t_mainmem_enable (towns_spriteram_low_w m a d) = t_mainmem_enable m"
  "t_ankcg_enable (towns_spriteram_low_w m a d) = t_ankcg_enable m" "t_rom (towns_spriteram_low_w m a d) = t_rom m"
  by (simp_all add: towns_spriteram_low_w_def Let_def)

lemma spriteram_low_ram:
  "t_ram (towns_spriteram_low_w m a d) =
     (if 0x1000 \<le> a \<and> a < 0x2000 then (t_ram m)(a + 0xc9000 := d)
      else if t_mainmem_enable m \<and> a < 0x1000 then (t_ram m)(a + 0xc8000 := d)
      else if t_mainmem_enable m \<and> a < 0x3000 then (t_ram m)(a + 0xca000 := d) else t_ram m)"
  "t_txtvram (towns_spriteram_low_w m a d) =
     (if \<not> t_mainmem_enable m \<and> (a < 0x1000 \<or> 0x2000 \<le> a \<and> a < 0x3000) then (t_txtvram m)(a := d) else t_txtvram m)"
  "v_tvram_enable (t_video (towns_spriteram_low_w m a d)) =
     (v_tvram_enable (t_video m) \<or> a < 0x1000 \<or> 0x2000 \<le> a \<and> a < 0x3000)"
  by (auto simp: towns_spriteram_low_w_def Let_def)

lemma spriteram_low_read:
  assumes "t_mainmem_enable m \<or> \<not> t_ankcg_enable m" "a < 0x3000"
  shows "towns_spriteram_low_r m a =
    (if 0x1000 \<le> a \<and> a < 0x2000 then t_ram m (a + 0xc9000)
     else if \<not> t_mainmem_enable m then t_txtvram m a
     else if a < 0x1000 then t_ram m (a + 0xc8000) else t_ram m (a + 0xca000))"
  using assms by (auto simp: towns_spriteram_low_r_def)

interpretation text_window: byte_store towns_spriteram_low_r towns_spriteram_low_w "0x3000"
  "\<lambda>m. t_mainmem_enable m \<or> \<not> t_ankcg_enable m"
proof unfold_locales
  fix m :: tmem and a b :: nat and d
  assume ok: "t_mainmem_enable m \<or> \<not> t_ankcg_enable m" and a: "a < 0x3000"
  have ok': "t_mainmem_enable (towns_spriteram_low_w m a d) \<or> \<not> t_ankcg_enable (towns_spriteram_low_w m a d)"
    using ok by simp
  show "t_mainmem_enable (towns_spriteram_low_w m a d) \<or> \<not> t_ankcg_enable (towns_spriteram_low_w m a d)" by (rule ok')
  show "towns_spriteram_low_r (towns_spriteram_low_w m a d) a = d"
    using a by (simp add: spriteram_low_read [OF ok' a] spriteram_low_ram)
  assume b: "b < 0x3000" and ne: "b \<noteq> a"
  show "towns_spriteram_low_r (towns_spriteram_low_w m a d) b = towns_spriteram_low_r m b"
    using a b ne unfolding spriteram_low_read [OF ok' b] spriteram_low_read [OF ok b]
    by (simp add: spriteram_low_ram)
qed

lemma poke_text_window:
  "\<not> t_mainmem_enable m \<Longrightarrow> a + length ds \<le> 0x1000 \<Longrightarrow>
     t_txtvram (poke towns_spriteram_low_w m a ds) = t_txtvram (poke towns_spriteram_w m a ds) \<and>
     v_tvram_enable (t_video (poke towns_spriteram_low_w m a ds)) = (v_tvram_enable (t_video m) \<or> ds \<noteq> [])"
proof (induction ds arbitrary: m a)
  case (Cons d ds)
  have same: "t_txtvram (poke towns_spriteram_w m1 b es) = t_txtvram (poke towns_spriteram_w m2 b es)"
    if "t_txtvram m1 = t_txtvram m2" for m1 m2 b es
    using that by (induction es arbitrary: m1 m2 b) (simp_all add: towns_spriteram_w_def)
  have "t_txtvram (towns_spriteram_low_w m a d) = t_txtvram (towns_spriteram_w m a d)"
    using Cons.prems by (simp add: spriteram_low_ram towns_spriteram_w_def)
  from same [OF this] show ?case
    using Cons.IH [of "towns_spriteram_low_w m a d" "Suc a"] Cons.prems by (simp add: spriteram_low_ram)
qed simp

subsection \<open>Properties of the memories\<close>

text \<open>
  Bytes written through the CMOS window of the first megabyte read back there, whatever the
  width of the shared memory behind it; while the window shows CMOS they also read back through the
  dedicated CMOS port and leave main memory alone, and while it shows main memory they leave the
  CMOS alone.
\<close>
lemma cmos_block_roundtrip:
  assumes "a + length ds \<le> 0x2000" "poke towns_cmos_low_w m a ds = m'"
  shows "peek towns_cmos_low_r m' a (length ds) = ds
    \<and> (\<forall>b < 0x2000. b < a \<or> a + length ds \<le> b \<longrightarrow> towns_cmos_low_r m' b = towns_cmos_low_r m b)
    \<and> (\<not> t_mainmem_enable m \<longrightarrow> peek towns_cmos_r m' a (length ds) = ds \<and> t_ram m' = t_ram m)
    \<and> (t_mainmem_enable m \<longrightarrow> t_cmos m' = t_cmos m)"
  using cmos_low.peek_poke [OF TrueI assms(1), of m] cmos_low.rd_poke_outside [OF TrueI assms(1), of _ m]
    cmos.peek_poke [OF TrueI assms(1), of m] poke_low_cmos [of m a ds] poke_cmos_ram [of m a ds]
    poke_low_ram [of m a ds] assms(2) by auto

text \<open>
  C22: a write through the planar window stores one bit of each of the eight pixels in exactly the
  planes the write register selects: reading the group back through plane p returns the written byte
  if p is selected and what it held before if not, and every other group is unchanged, whatever plane
  it is read through.
\<close>
theorem vram_plane_roundtrip:
  assumes "\<not> t_mainmem_enable m" "unat (v_rplane (t_video m)) = p" "p < 4" "towns_gfx_w m off d = m'"
  shows "towns_gfx_r m' off = (if bit (v_wplane (t_video m)) p then d else towns_gfx_r m off)
    \<and> (\<forall>x. x \<noteq> off \<longrightarrow> towns_gfx_r m' x = towns_gfx_r m x)"
proof -
  have m': "\<not> t_mainmem_enable m'" "unat (v_rplane (t_video m')) = p" "\<And>x. gfx_base m' x = gfx_base m x"
    using assms by auto
  note R' = gfx_r_pixels [OF m'(1,2) assms(3), unfolded m'(3)] and R = gfx_r_pixels [OF assms(1-3)]
  have "towns_gfx_r m' off = (if bit (v_wplane (t_video m)) p then d else towns_gfx_r m off)"
  proof (rule u8_eqI)
    fix j :: nat assume j: "j < 8"
    define k where "k = (7 - j) div 2"
    define i where "i = p + 4 * ((7 - j) mod 2)"
    have ki: "k < 4" "i < 8" "i mod 4 = p" "7 - 2 * k - i div 4 = j"
      using less_8_cases [OF j] assms(3) by (auto simp: k_def i_def)
    have "bit (t_gfxvram m' (gfx_base m off + k)) i =
        (if bit (v_wplane (t_video m)) p then bit d j else bit (t_gfxvram m (gfx_base m off + k)) i)"
      using gfx_w_pixels [OF assms(1) ki(1,2), of off d] unfolding assms(4) ki(3) pixel_bit_def ki(4) .
    then show "bit (towns_gfx_r m' off) j = bit (if bit (v_wplane (t_video m)) p then d else towns_gfx_r m off) j"
      using R' [OF j, of off] R [OF j, of off] by (simp add: k_def [symmetric] i_def [symmetric])
  qed
  moreover have "towns_gfx_r m' x = towns_gfx_r m x" if "x \<noteq> off" for x
  proof (rule u8_eqI)
    fix j :: nat assume j: "j < 8"
    have "(7 - j) div 2 < 4" using j by auto
    then have "t_gfxvram m' (gfx_base m x + (7 - j) div 2) = t_gfxvram m (gfx_base m x + (7 - j) div 2)"
      using that unfolding assms(4) [symmetric] by (intro gfx_w_outside [OF assms(1)]) (auto simp: gfx_base_def)
    then show "bit (towns_gfx_r m' x) j = bit (towns_gfx_r m x) j" using R' [OF j] R [OF j] by simp
  qed
  ultimately show ?thesis by blast
qed

text \<open>
  C23: the packed window is a permutation of the linear one: offset v shows the byte at v/8*4 + v mod 4
  of the half chosen by bit 2 of v, distinct offsets show distinct bytes, and a write through it
  replaces exactly the bits the mask register of the offset's lane opens and nothing elsewhere in
  the window.
\<close>
theorem vram_packed_window:
  assumes "v < 0x80000" "towns_gfx_packed_w m v d = m'"
  shows "towns_gfx_packed_r m v = towns_gfx_high_r m (v div 4 mod 2 * 0x40000 + v div 8 * 4 + v mod 4)
    \<and> (\<forall>i. bit (towns_gfx_packed_r m' v) i =
         (if bit (t_vram_mask m (v mod 4)) i then bit d i else bit (towns_gfx_packed_r m v) i))
    \<and> (\<forall>w < 0x80000. w \<noteq> v \<longrightarrow> towns_gfx_packed_r m' w = towns_gfx_packed_r m w
         \<and> bitswap packed_bits w \<noteq> bitswap packed_bits v)"
  using packed.rd_wr_bit [OF assms(1), of m d] packed.rd_wr_elsewhere [OF assms(1), of _ m d]
    packed_inj [OF _ assms(1)] assms
  by (auto simp: towns_gfx_packed_r_def towns_gfx_high_r_def bitswap_packed)

text \<open>
  With all mask bits open, a block written through the linear window reads back there; a block
  written to the text window of the first megabyte while it shows the text RAM reads back through
  it, is the same block in sprite RAM, and switches the text layer on.
\<close>
lemma vram_block_roundtrip:
  assumes "masks_open m" "a + length ds \<le> 0x80000" "\<not> t_mainmem_enable m" "\<not> t_ankcg_enable m"
    "b + length es \<le> 0x1000" "es \<noteq> []"
  shows "peek towns_gfx_high_r (poke towns_gfx_high_w m a ds) a (length ds) = ds
    \<and> peek towns_spriteram_low_r (poke towns_spriteram_low_w m b es) b (length es) = es
    \<and> peek towns_spriteram_r (poke towns_spriteram_low_w m b es) b (length es) = es
    \<and> v_tvram_enable (t_video (poke towns_spriteram_low_w m b es))"
proof -
  note P = poke_text_window [OF assms(3,5)]
  have "peek towns_spriteram_r (poke towns_spriteram_low_w m b es) b (length es) =
      peek towns_spriteram_r (poke towns_spriteram_w m b es) b (length es)"
    using P by (simp add: peek_def towns_spriteram_r_def)
  then have "peek towns_spriteram_r (poke towns_spriteram_low_w m b es) b (length es) = es"
    using sprite_ram.peek_poke [where m = m and a = b and ds = es] assms(5) by simp
  then show ?thesis using P linear.plain.peek_poke [OF assms(1,2)] text_window.peek_poke [where m = m and a = b and ds = es] assms(3-6) by simp
qed

definition sample_vid :: vid where
  "sample_vid = \<lparr>v_wplane = 4, v_rplane = 2, v_page_sel = 0, v_palette_select = 0, v_palette_r = \<lambda>_. 0,
     v_palette_g = \<lambda>_. 0, v_palette_b = \<lambda>_. 0, v_degipal = \<lambda>_. 0, v_dpmd_flag = False, v_crtc_mix = 0,
     v_crtc_sel = 0, v_crtc_reg = \<lambda>_. 0, v_video_sel = 0, v_video_reg = \<lambda>_. 0, v_sprite_sel = 0,
     v_sprite_reg = \<lambda>_. 0, v_sprite_flag = False, v_sprite_page = 0, v_tvram_enable = False,
     v_kanji_offset = 0, v_kanji_code_h = 0, v_kanji_code_l = 0,
     v_layerscr = \<lambda>_. \<lparr>min_x = 0, max_x = 0, min_y = 0, max_y = 0\<rparr>, v_display_plane = 0,
     v_display_page_sel = 0, v_vblank_flag = False, v_layer_ctrl = 0\<rparr>"

definition sample_tmem :: tmem where
  "sample_tmem = \<lparr>t_ram = \<lambda>_. 0, t_rom = \<lambda>_. 0xff, t_cmos = Nvram32 (\<lambda>_. 0), t_gfxvram = \<lambda>_. 0,
     t_txtvram = \<lambda>_. 0, t_mainmem_enable = False, t_ankcg_enable = False, t_ram_enable = False,
     t_system_port = 0, t_bank_cb000_r = Ram_at 0xcb000, t_bank_cb000_w = Ram_at 0xcb000,
     t_bank_f8000_r = Rom_at 0x238000, t_bank_f8000_w = Ram_at 0xf8000,
     t_vram_mask = \<lambda>_. NOT 0, t_vram_mask_addr = 0, t_video = sample_vid\<rparr>"

lemma cmos_block_roundtrip_witness:
  "peek towns_cmos_r (poke towns_cmos_low_w sample_tmem 0x1ffd [1, 2, 3]) 0x1ffd 3 = [1, 2, 3]"
  using cmos_block_roundtrip [where a = "0x1ffd" and ds = "[1, 2, 3]" and m = sample_tmem, OF _ refl]
  by (simp add: sample_tmem_def numeral_3_eq_3)

lemma vram_plane_roundtrip_witness:
  "towns_gfx_r (towns_gfx_w sample_tmem 7 0xa5) 7 = 0xa5"
  using vram_plane_roundtrip [where m = sample_tmem and p = 2 and off = 7 and d = "0xa5", OF _ _ _ refl]
  by (simp add: sample_tmem_def sample_vid_def)

lemma vram_packed_window_witness:
  "towns_gfx_packed_r sample_tmem 4 = towns_gfx_high_r sample_tmem 0x40000"
  using vram_packed_window [where v = 4 and m = sample_tmem and d = 0, OF _ refl] by simp

lemma vram_block_roundtrip_witness:
  "peek towns_gfx_high_r (poke towns_gfx_high_w sample_tmem 0x7fffe [7, 8]) 0x7fffe (length [7, 8 :: u8]) = [7, 8]"
  using vram_block_roundtrip [where m = sample_tmem and a = "0x7fffe" and ds = "[7, 8]" and b = 0 and es = "[1]"]
  by (simp add: sample_tmem_def masks_open_def)

end
