(* ===== verification/Towns_Video.thy ===== *)
theory Towns_Video
  imports Towns_Memory Pic8259 "HOL-Library.Signed_Division"
begin

text \<open>
  The registers of the video hardware, \<open>src/mame/fujitsu/fmtowns_v.cpp\<close>: the memory-mapped ports at
  0xcff80, the CRTC, shifter, sprite and mask registers at 0x440, the palette at 0xfd90, and the
  vertical blank with its interrupt on input 3 of the slave controller, whose callback is a parameter.
  The beam position the screen device reports is a parameter of the reads that use it. An access
  outside a register array, which C++ leaves undefined, is \<open>None\<close>.
\<close>

unbundle bit_operations_syntax

type_synonym rgb = "u8 \<times> u8 \<times> u8"

text \<open>
  \<open>x_mem\<close> holds the memories and \<open>m_video\<close>; the palettes map a pen to red, green and blue;
  \<open>x_screen\<close> is the size of the last call of \<open>screen->configure\<close>; the two timers are due-flags.
\<close>

record 'c tvs =
  x_mem :: tmem
  x_palette :: "nat \<Rightarrow> rgb"
  x_palette16 :: "nat \<Rightarrow> nat \<Rightarrow> rgb"
  x_screen :: "(int \<times> int) option"
  x_sprite_due :: bool
  x_vblank_due :: bool
  x_pic :: 'c

abbreviation vid_of :: "'c tvs \<Rightarrow> vid" where
  "vid_of s \<equiv> t_video (x_mem s)"

definition set_vid :: "(vid \<Rightarrow> vid) \<Rightarrow> 'c tvs \<Rightarrow> 'c tvs" where
  "set_vid f s = s\<lparr>x_mem := (x_mem s)\<lparr>t_video := f (vid_of s)\<rparr>\<rparr>"

subsection \<open>Screen geometry\<close>

definition layer_rect :: "vid \<Rightarrow> nat \<Rightarrow> nat \<Rightarrow> nat \<Rightarrow> nat \<Rightarrow> rect" where
  "layer_rect v x0 x1 y0 y1 =
     (let r = \<lambda>n. uint (v_crtc_reg v n)
      in \<lparr>min_x = r x0 - r 0, max_x = r x1 - r 0, min_y = (r y0 - r 6) sdiv 2, max_y = (r y1 - r 6) sdiv 2 - 1\<rparr>)"

definition towns_crtc_refresh_mode :: "'c tvs \<Rightarrow> 'c tvs" where
  "towns_crtc_refresh_mode s =
     (let v = vid_of s;
          scr_max_x = uint (v_crtc_reg v 4) - uint (v_crtc_reg v 0);
          scr_max_y = uint (v_crtc_reg v 8) sdiv 2;
          s1 = set_vid (\<lambda>v. v\<lparr>v_layerscr := (v_layerscr v)(0 := layer_rect v 9 10 13 14, 1 := layer_rect v 11 12 15 16)\<rparr>) s
      in if scr_max_x = 0 \<or> scr_max_y = 0 then s1
         else if scr_max_x \<le> 0 \<or> scr_max_y \<le> 0 then s1
         else s1\<lparr>x_screen := Some (scr_max_x + 1, scr_max_y + 1)\<rparr>)"

definition inside_x :: "u16 \<Rightarrow> rect \<Rightarrow> bool" where
  "inside_x pos r \<longleftrightarrow> uint pos < max_x r \<and> uint pos > min_x r"

definition inside_y :: "u16 \<Rightarrow> rect \<Rightarrow> bool" where
  "inside_y pos r \<longleftrightarrow> uint pos < max_y r \<and> uint pos > min_y r"

subsection \<open>Kanji character ROM\<close>

text \<open>The offset is computed in \<open>int\<close> and stored in a \<open>uint16_t\<close>; 32-bit words are \<open>int\<close> modulo \<open>2^32\<close>.\<close>

definition kanji_code :: "u8 \<Rightarrow> u8 \<Rightarrow> u32" where
  "kanji_code code_h code_l =
     (let h = ucast code_h; l = ucast code_l;
          low = (push_bit 4 (l AND 0x1f) OR push_bit 8 ((l - 0x20) AND 0x20)) OR push_bit 6 ((l - 0x20) AND 0x40)
      in if code_h < 0x30 then low OR push_bit 9 (h AND 0x07)
         else if code_h < 0x70 then
           drop_bit 1 (push_bit 5 (l AND 0x1f) + push_bit 9 ((l - 0x20) AND 0x60) + push_bit 10 (h AND 0x0f)
             + ((h - 0x30) AND 0x70) * 0xc00 + 0x8000)
         else (low OR push_bit 9 (h AND 0x07)) OR 0x38000)"

definition towns_update_kanji_offset :: "vid \<Rightarrow> vid" where
  "towns_update_kanji_offset v = v\<lparr>v_kanji_offset := ucast (kanji_code (v_kanji_code_h v) (v_kanji_code_l v))\<rparr>"

subsection \<open>The memory-mapped ports at 0xcff80\<close>

definition towns_video_cff80_r :: "u16 \<Rightarrow> nat \<Rightarrow> 'c tvs \<Rightarrow> u8 \<times> 'c tvs" where
  "towns_video_cff80_r hpos offset s =
     (let v = vid_of s in
      if offset = 0x00 then (v_crtc_mix v, s)
      else if offset = 0x01 then ((push_bit 6 (v_rplane v) AND 0xc0) OR v_wplane v, s)
      else if offset = 0x02 then (v_display_plane v OR v_display_page_sel v, s)
      else if offset = 0x03 then (if v_page_sel v \<noteq> 0 then 0x10 else 0x00, s)
      else if offset = 0x06 then
        ((0x10 OR (if inside_x hpos (v_layerscr v 0) then 0x80 else 0)) OR (if v_vblank_flag v then 0x04 else 0), s)
      else if offset = 0x16 then (t_rom (x_mem s) (unat (v_kanji_offset v) * 2 + 0x180000), s)
      else if offset = 0x17 then
        (t_rom (x_mem s) (unat (v_kanji_offset v) * 2 + 0x180001),
         set_vid (\<lambda>v. v\<lparr>v_kanji_offset := v_kanji_offset v + 1\<rparr>) s)
      else if offset = 0x19 then (if t_ankcg_enable (x_mem s) then 0x01 else 0x00, s)
      else (0, s))"

definition towns_video_cff80_w :: "nat \<Rightarrow> u8 \<Rightarrow> 'c tvs \<Rightarrow> 'c tvs" where
  "towns_video_cff80_w offset data s =
     (if offset = 0x00 then set_vid (\<lambda>v. v\<lparr>v_crtc_mix := data\<rparr>) s
      else if offset = 0x01 then
        (let s1 = set_vid (\<lambda>v. v\<lparr>v_wplane := data AND 0x0f, v_rplane := drop_bit 6 (data AND 0xc0)\<rparr>) s
         in s1\<lparr>x_mem := towns_update_video_banks (x_mem s1)\<rparr>)
      else if offset = 0x02 then set_vid (\<lambda>v. v\<lparr>v_display_plane := data AND 0x27, v_display_page_sel := data AND 0x10\<rparr>) s
      else if offset = 0x03 then set_vid (\<lambda>v. v\<lparr>v_page_sel := data AND 0x10\<rparr>) s
      else if offset = 0x14 then set_vid (\<lambda>v. towns_update_kanji_offset (v\<lparr>v_kanji_code_h := data AND 0x7f\<rparr>)) s
      else if offset = 0x15 then set_vid (\<lambda>v. towns_update_kanji_offset (v\<lparr>v_kanji_code_l := data AND 0x7f\<rparr>)) s
      else if offset = 0x19 then
        s\<lparr>x_mem := towns_update_video_banks ((x_mem s)\<lparr>t_ankcg_enable := tst data 0x01\<rparr>)\<rparr>
      else s)"

definition towns_video_cff80_mem_r :: "u16 \<Rightarrow> nat \<Rightarrow> 'c tvs \<Rightarrow> u8 \<times> 'c tvs" where
  "towns_video_cff80_mem_r hpos offset s =
     (if t_mainmem_enable (x_mem s) then (t_ram (x_mem s) (offset + 0xcff80), s)
      else towns_video_cff80_r hpos offset s)"

definition towns_video_cff80_mem_w :: "nat \<Rightarrow> u8 \<Rightarrow> 'c tvs \<Rightarrow> 'c tvs" where
  "towns_video_cff80_mem_w offset data s =
     (if t_mainmem_enable (x_mem s)
      then s\<lparr>x_mem := (x_mem s)\<lparr>t_ram := (t_ram (x_mem s))(offset + 0xcff80 := data)\<rparr>\<rparr>
      else towns_video_cff80_w offset data s)"

definition towns_video_ff81_r :: "'c tvs \<Rightarrow> u8" where
  "towns_video_ff81_r s = (push_bit 6 (v_rplane (vid_of s)) AND 0xc0) OR v_wplane (vid_of s)"

definition towns_video_ff81_w :: "u8 \<Rightarrow> 'c tvs \<Rightarrow> 'c tvs" where
  "towns_video_ff81_w data s =
     (let s1 = set_vid (\<lambda>v. v\<lparr>v_wplane := data AND 0x0f, v_rplane := drop_bit 6 (data AND 0xc0)\<rparr>) s
      in s1\<lparr>x_mem := towns_update_video_banks (x_mem s1)\<rparr>)"

subsection \<open>CRTC, shifter, sprite and mask registers at 0x440\<close>

definition crtc_index :: "vid \<Rightarrow> nat option" where
  "crtc_index v = (if unat (v_crtc_sel v) < 32 then Some (unat (v_crtc_sel v)) else None)"

definition mask_index :: "nat \<Rightarrow> tmem \<Rightarrow> nat option" where
  "mask_index offset m =
     (let idx = unat (t_vram_mask_addr m) * 2 + (offset - 0x1a) in if idx < 4 then Some idx else None)"

definition crtc_position :: "u16 \<Rightarrow> u16 \<Rightarrow> vid \<Rightarrow> u8" where
  "crtc_position xpos ypos v =
     (((((if xpos < v_crtc_reg v 0 AND 0xfe then 0x02 else 0)
     OR (if ypos < v_crtc_reg v 6 AND 0x1f then 0x04 else 0))
     OR (if inside_x xpos (v_layerscr v 0) then 0x10 else 0))
     OR (if inside_x xpos (v_layerscr v 1) then 0x20 else 0))
     OR (if inside_y ypos (v_layerscr v 0) then 0x40 else 0))
     OR (if inside_y ypos (v_layerscr v 1) then 0x80 else 0)"

definition towns_video_440_r :: "u16 \<Rightarrow> u16 \<Rightarrow> nat \<Rightarrow> 'c tvs \<Rightarrow> (u8 \<times> 'c tvs) option" where
  "towns_video_440_r hpos vpos offset s =
     (let v = vid_of s in
      if offset = 0x00 then Some (v_crtc_sel v, s)
      else if offset = 0x02 then
        (if v_crtc_sel v = 30 then Some (0x00, s)
         else case crtc_index v of None \<Rightarrow> None | Some n \<Rightarrow> Some (lo8 (v_crtc_reg v n), s))
      else if offset = 0x03 then
        (if v_crtc_sel v = 30 then Some (crtc_position hpos vpos v, s)
         else case crtc_index v of None \<Rightarrow> None | Some n \<Rightarrow> Some (hi8 (v_crtc_reg v n), s))
      else if offset = 0x08 then Some (v_video_sel v, s)
      else if offset = 0x0a then Some (v_video_reg v (unat (v_video_sel v)), s)
      else if offset = 0x0c then
        (let s1 = (if v_dpmd_flag v then set_vid (\<lambda>v. v\<lparr>v_dpmd_flag := False\<rparr>) s else s)
         in Some (((if v_dpmd_flag v then 0x80 else 0) OR (if v_sprite_flag v then 0x02 else 0x00))
                  OR (v_sprite_page v AND 0x01), s1))
      else if offset = 0x10 then Some (v_sprite_sel v, s)
      else if offset = 0x12 then
        Some (if v_sprite_sel v = 6 then if tst (v_sprite_page v) 0x01 then 0x10 else 0
              else v_sprite_reg v (unat (v_sprite_sel v)), s)
      else if offset = 0x18 then Some (t_vram_mask_addr (x_mem s), s)
      else if offset = 0x1a \<or> offset = 0x1b then
        (case mask_index offset (x_mem s) of None \<Rightarrow> None | Some i \<Rightarrow> Some (t_vram_mask (x_mem s) i, s))
      else Some (0x00, s))"

definition towns_video_440_w :: "nat \<Rightarrow> u8 \<Rightarrow> 'c tvs \<Rightarrow> 'c tvs option" where
  "towns_video_440_w offset data s =
     (let v = vid_of s in
      if offset = 0x00 then Some (set_vid (\<lambda>v. v\<lparr>v_crtc_sel := data\<rparr>) s)
      else if offset = 0x02 then
        (case crtc_index v of None \<Rightarrow> None
         | Some n \<Rightarrow> Some (towns_crtc_refresh_mode
             (set_vid (\<lambda>v. v\<lparr>v_crtc_reg := (v_crtc_reg v)(n := set_lo8 (v_crtc_reg v n) data)\<rparr>) s)))
      else if offset = 0x03 then
        (if v_crtc_sel v = 21 \<and> tst (v_sprite_reg v 1) 0x80 then
           Some (set_vid (\<lambda>v. v\<lparr>v_crtc_reg := (v_crtc_reg v)(21 :=
             (v_crtc_reg v 21 AND 0x80ff) OR push_bit 8 (ucast (data AND 0x7f)))\<rparr>) s)
         else case crtc_index v of None \<Rightarrow> None
         | Some n \<Rightarrow> Some (towns_crtc_refresh_mode
             (set_vid (\<lambda>v. v\<lparr>v_crtc_reg := (v_crtc_reg v)(n := set_hi8 (v_crtc_reg v n) data)\<rparr>) s)))
      else if offset = 0x08 then Some (set_vid (\<lambda>v. v\<lparr>v_video_sel := data AND 0x01\<rparr>) s)
      else if offset = 0x0a then
        Some (set_vid (\<lambda>v. v\<lparr>v_video_reg := (v_video_reg v)(unat (v_video_sel v) := data)\<rparr>) s)
      else if offset = 0x10 then Some (set_vid (\<lambda>v. v\<lparr>v_sprite_sel := data AND 0x07\<rparr>) s)
      else if offset = 0x12 then
        Some (if v_sprite_sel v = 6 then set_vid (\<lambda>v. v\<lparr>v_sprite_page := (if tst data 0x80 then 1 else 0)\<rparr>) s
              else set_vid (\<lambda>v. v\<lparr>v_sprite_reg := (v_sprite_reg v)(unat (v_sprite_sel v) := data)\<rparr>) s)
      else if offset = 0x18 then Some (s\<lparr>x_mem := (x_mem s)\<lparr>t_vram_mask_addr := data AND 1\<rparr>\<rparr>)
      else if offset = 0x1a \<or> offset = 0x1b then
        (case mask_index offset (x_mem s) of None \<Rightarrow> None
         | Some i \<Rightarrow> Some (s\<lparr>x_mem := (x_mem s)\<lparr>t_vram_mask := (t_vram_mask (x_mem s))(i := data)\<rparr>\<rparr>))
      else Some s)"

subsection \<open>Text layer enable, vertical sync acknowledge\<close>

definition towns_video_5c8_r :: "nat \<Rightarrow> 'c tvs \<Rightarrow> u8 \<times> 'c tvs" where
  "towns_video_5c8_r offset s =
     (if offset = 0x00 then
        (if v_tvram_enable (vid_of s) then (0x80, set_vid (\<lambda>v. v\<lparr>v_tvram_enable := False\<rparr>) s) else (0x00, s))
      else (0x00, s))"

definition towns_video_5c8_w :: "(bool \<Rightarrow> 'c \<Rightarrow> 'c) \<Rightarrow> nat \<Rightarrow> u8 \<Rightarrow> 'c tvs \<Rightarrow> 'c tvs" where
  "towns_video_5c8_w ir3 offset data s = (if offset = 0x02 then s\<lparr>x_pic := ir3 False (x_pic s)\<rparr> else s)"

subsection \<open>Palettes\<close>

text \<open>A palette device with n entries: a pen outside is black.\<close>

definition pen_color :: "nat \<Rightarrow> (nat \<Rightarrow> rgb) \<Rightarrow> nat \<Rightarrow> rgb" where
  "pen_color n pal index = (if index < n then pal index else (0, 0, 0))"

definition towns_update_palette :: "'c tvs \<Rightarrow> 'c tvs" where
  "towns_update_palette s =
     (let v = vid_of s; entry = unat (v_palette_select v);
          c = (v_palette_r v entry, v_palette_g v entry, v_palette_b v entry);
          sel = v_video_reg v 1 AND 0x30
      in if sel = 0x00 \<or> sel = 0x20 then
           (let i = unat (drop_bit 5 (v_video_reg v 1 AND 0x20))
            in s\<lparr>x_palette16 := (x_palette16 s)(i := (x_palette16 s i)(unat (v_palette_select v AND 0x0f) := c))\<rparr>)
         else s\<lparr>x_palette := (x_palette s)(entry := c)\<rparr>)"

definition current_pen :: "'c tvs \<Rightarrow> rgb" where
  "current_pen s =
     (let v = vid_of s
      in if tst (v_video_reg v 1) 0x10 then pen_color 256 (x_palette s) (unat (v_palette_select v))
         else pen_color 16 (x_palette16 s (unat (drop_bit 5 (v_video_reg v 1 AND 0x20)))) (unat (v_palette_select v)))"

definition towns_video_fd90_r :: "u16 \<Rightarrow> nat \<Rightarrow> 'c tvs \<Rightarrow> u8" where
  "towns_video_fd90_r hpos offset s =
     (let v = vid_of s; (r, g, b) = current_pen s in
      if offset = 0x00 then v_palette_select v
      else if offset = 0x02 then b
      else if offset = 0x04 then r
      else if offset = 0x06 then g
      else if 0x08 \<le> offset \<and> offset \<le> 0x0f then v_degipal v (offset - 0x08)
      else if offset = 0x10 then
        (if inside_x hpos (v_layerscr v 0) then 0x02 else 0) OR (if v_vblank_flag v then 0x01 else 0)
      else 0x00)"

definition towns_video_fd90_w :: "nat \<Rightarrow> u8 \<Rightarrow> 'c tvs \<Rightarrow> 'c tvs" where
  "towns_video_fd90_w offset data s =
     (if offset = 0x00 then set_vid (\<lambda>v. v\<lparr>v_palette_select := data\<rparr>) s
      else if offset = 0x02 then
        towns_update_palette (set_vid (\<lambda>v. v\<lparr>v_palette_b := (v_palette_b v)(unat (v_palette_select v) := data)\<rparr>) s)
      else if offset = 0x04 then
        towns_update_palette (set_vid (\<lambda>v. v\<lparr>v_palette_r := (v_palette_r v)(unat (v_palette_select v) := data)\<rparr>) s)
      else if offset = 0x06 then
        towns_update_palette (set_vid (\<lambda>v. v\<lparr>v_palette_g := (v_palette_g v)(unat (v_palette_select v) := data)\<rparr>) s)
      else if 0x08 \<le> offset \<and> offset \<le> 0x0f then
        set_vid (\<lambda>v. v\<lparr>v_degipal := (v_degipal v)(offset - 0x08 := data), v_dpmd_flag := True\<rparr>) s
      else if offset = 0x10 then set_vid (\<lambda>v. v\<lparr>v_layer_ctrl := data\<rparr>) s
      else s)"

subsection \<open>Vertical blank\<close>

definition sprite_limit :: "vid \<Rightarrow> nat" where
  "sprite_limit v = unat ((ucast (v_sprite_reg v 0) OR push_bit 8 (ucast (v_sprite_reg v 1)) :: u16) AND 0x3ff)"

text \<open>
  The drawing time depends on the number of sprites; only that the timer runs is kept.
  \<open>draw_text_layer\<close>, which the vertical sync calls while the text layer is on, changes nothing: the
  body of \<open>render_text_char\<close> is compiled out by \<open>#if 0\<close>.
\<close>

definition towns_sprite_start :: "'c tvs \<Rightarrow> 'c tvs" where
  "towns_sprite_start s = (set_vid (\<lambda>v. v\<lparr>v_sprite_flag := True\<rparr>) s)\<lparr>x_sprite_due := True\<rparr>"

definition towns_vsync_irq :: "(bool \<Rightarrow> 'c \<Rightarrow> 'c) \<Rightarrow> 'c tvs \<Rightarrow> 'c tvs" where
  "towns_vsync_irq ir3 s =
     (let s1 = (set_vid (\<lambda>v. v\<lparr>v_vblank_flag := True\<rparr>) (s\<lparr>x_pic := ir3 True (x_pic s)\<rparr>))\<lparr>x_vblank_due := True\<rparr>;
          v = vid_of s1
      in if tst (v_sprite_reg v 1) 0x80 \<and> \<not> v_sprite_flag v then
           towns_sprite_start
             (if v_sprite_page v = 0
              then set_vid (\<lambda>v. v\<lparr>v_sprite_page := 1, v_crtc_reg := (v_crtc_reg v)(21 := v_crtc_reg v 21 AND NOT 0x8000)\<rparr>) s1
              else set_vid (\<lambda>v. v\<lparr>v_sprite_page := 0, v_crtc_reg := (v_crtc_reg v)(21 := v_crtc_reg v 21 OR 0x8000)\<rparr>) s1)
         else s1)"

definition towns_vblank_end :: "(bool \<Rightarrow> 'c \<Rightarrow> 'c) \<Rightarrow> 'c tvs \<Rightarrow> 'c tvs" where
  "towns_vblank_end ir3 s =
     (set_vid (\<lambda>v. v\<lparr>v_vblank_flag := False\<rparr>) (s\<lparr>x_pic := ir3 False (x_pic s)\<rparr>))\<lparr>x_vblank_due := False\<rparr>"

definition video_start :: "'c tvs \<Rightarrow> 'c tvs" where
  "video_start s = (set_vid (\<lambda>v. v\<lparr>v_wplane := 0, v_sprite_page := 0\<rparr>) s)\<lparr>x_sprite_due := False, x_vblank_due := False\<rparr>"

subsection \<open>Properties of the video registers\<close>

lemma set_vid_simps [simp]:
  "vid_of (set_vid f s) = f (vid_of s)" "x_pic (set_vid f s) = x_pic s" "x_palette (set_vid f s) = x_palette s"
  "x_palette16 (set_vid f s) = x_palette16 s" "t_ram (x_mem (set_vid f s)) = t_ram (x_mem s)"
  "t_rom (x_mem (set_vid f s)) = t_rom (x_mem s)"
  by (simp_all add: set_vid_def)

lemma refresh_simps [simp]:
  "vid_of (towns_crtc_refresh_mode s) = (vid_of s)\<lparr>v_layerscr := (v_layerscr (vid_of s))
     (0 := layer_rect (vid_of s) 9 10 13 14, 1 := layer_rect (vid_of s) 11 12 15 16)\<rparr>"
  "x_pic (towns_crtc_refresh_mode s) = x_pic s"
  by (simp_all add: towns_crtc_refresh_mode_def Let_def)

definition crtc_write :: "u8 \<Rightarrow> u8 \<Rightarrow> u8 \<Rightarrow> 'c tvs \<Rightarrow> 'c tvs option" where
  "crtc_write n lo hi s =
     Option.bind (towns_video_440_w 0x00 n s) (\<lambda>s1. Option.bind (towns_video_440_w 0x02 lo s1) (towns_video_440_w 0x03 hi))"

lemma u16_lanes_eq: "set_hi8 (set_lo8 w lo) hi = set_hi8 (set_lo8 w' lo) hi"
  by (rule u16_eqI) simp_all

text \<open>
  Selecting a CRTC register below 32 other than the position register and writing its two bytes
  stores the 16-bit value there and nowhere else, both bytes read back, and both layer rectangles are
  recomputed from the new registers; the one exception is register 21 while sprites are displayed,
  whose bit 15 belongs to the sprite page and is kept.
\<close>
lemma crtc_register_roundtrip:
  assumes "n < 32" "n \<noteq> 30" "n \<noteq> 21 \<or> \<not> tst (v_sprite_reg (vid_of s) 1) 0x80"
  shows "\<exists>s'. crtc_write n lo hi s = Some s'
    \<and> towns_video_440_r x y 0x02 s' = Some (lo, s') \<and> towns_video_440_r x y 0x03 s' = Some (hi, s')
    \<and> (\<forall>k. k \<noteq> unat n \<longrightarrow> v_crtc_reg (vid_of s') k = v_crtc_reg (vid_of s) k)
    \<and> v_layerscr (vid_of s') 0 = layer_rect (vid_of s') 9 10 13 14
    \<and> v_layerscr (vid_of s') 1 = layer_rect (vid_of s') 11 12 15 16"
proof -
  have n: "unat n < 32" using assms(1) by (simp add: word_less_nat_alt)
  have n21: "n = 21 \<longrightarrow> \<not> tst (v_sprite_reg (vid_of s) 1) 0x80" using assms(3) by blast
  let ?s1 = "set_vid (\<lambda>v. v\<lparr>v_crtc_sel := n\<rparr>) s"
  let ?s2 = "towns_crtc_refresh_mode (set_vid (\<lambda>v. v\<lparr>v_crtc_reg := (v_crtc_reg v)(unat n := set_lo8 (v_crtc_reg v (unat n)) lo)\<rparr>) ?s1)"
  let ?s3 = "towns_crtc_refresh_mode (set_vid (\<lambda>v. v\<lparr>v_crtc_reg := (v_crtc_reg v)(unat n := set_hi8 (v_crtc_reg v (unat n)) hi)\<rparr>) ?s2)"
  have 1: "towns_video_440_w 0x00 n s = Some ?s1" by (simp add: towns_video_440_w_def)
  have 2: "towns_video_440_w 0x02 lo ?s1 = Some ?s2" using n by (simp add: towns_video_440_w_def crtc_index_def)
  have 3: "towns_video_440_w 0x03 hi ?s2 = Some ?s3"
    using n n21 by (cases "n = 21") (simp_all add: towns_video_440_w_def crtc_index_def)
  have w: "crtc_write n lo hi s = Some ?s3" unfolding crtc_write_def 1 bind.bind_lunit 2 3 ..
  have reg: "v_crtc_reg (vid_of ?s3) = (v_crtc_reg (vid_of s))(unat n := set_hi8 (set_lo8 (v_crtc_reg (vid_of s) (unat n)) lo) hi)"
    and sel: "v_crtc_sel (vid_of ?s3) = n" by simp_all
  have "towns_video_440_r x y 0x02 ?s3 = Some (lo, ?s3)" "towns_video_440_r x y 0x03 ?s3 = Some (hi, ?s3)"
    using n assms(2) unfolding towns_video_440_r_def Let_def crtc_index_def sel reg by simp_all
  moreover have "v_layerscr (vid_of ?s3) 0 = layer_rect (vid_of ?s3) 9 10 13 14"
    "v_layerscr (vid_of ?s3) 1 = layer_rect (vid_of ?s3) 11 12 15 16"
    by (simp_all add: layer_rect_def)
  ultimately show ?thesis using w reg by (intro exI [of _ ?s3]) simp
qed

text \<open>
  The register number written to port 0x440 is not checked: the data ports then access the
  array of 32 registers outside its bounds exactly when the number is 32 or more.
\<close>
lemma crtc_select_unchecked:
  "\<exists>s1. towns_video_440_w 0x00 n s = Some s1
    \<and> (towns_video_440_w 0x02 d s1 = None \<longleftrightarrow> 32 \<le> unat n)
    \<and> (towns_video_440_w 0x03 d s1 = None \<longleftrightarrow> 32 \<le> unat n)
    \<and> (towns_video_440_r x y 0x02 s1 = None \<longleftrightarrow> 32 \<le> unat n)"
proof -
  have "unat n < 32" if "n = 30 \<or> n = 21" using that by auto
  then show ?thesis
    by (auto simp: towns_video_440_w_def towns_video_440_r_def crtc_index_def Let_def)
qed

lemma drop5_index: "unat (drop_bit 5 (w AND 0x20 :: u8)) = (if bit w 5 then 1 else 0)"
proof -
  have "drop_bit 5 (w AND 0x20) = (if bit w 5 then 1 else 0)"
    unfolding u8_eq_bits by (simp add: bit_simps)
  then show ?thesis by simp
qed

definition palette_write :: "u8 \<Rightarrow> rgb \<Rightarrow> 'c tvs \<Rightarrow> 'c tvs" where
  "palette_write e c s =
     (case c of (r, g, b) \<Rightarrow> towns_video_fd90_w 0x06 g (towns_video_fd90_w 0x04 r (towns_video_fd90_w 0x02 b
        (towns_video_fd90_w 0x00 e s))))"

lemma update_palette_simps [simp]:
  "x_mem (towns_update_palette s) = x_mem s" "x_pic (towns_update_palette s) = x_pic s"
  by (simp_all add: towns_update_palette_def Let_def)

lemma palette_bit4: "(w AND 0x30 = 0x00 \<or> w AND 0x30 = 0x20) \<longleftrightarrow> \<not> tst w 0x10" for w :: u8
proof -
  have "(w AND 0x30 = 0x00 \<or> w AND 0x30 = 0x20) \<longleftrightarrow> \<not> bit w 4"
    unfolding u8_eq_bits by (auto simp: bit_simps)
  then show ?thesis using tst_exp [of w 4] by simp
qed

lemma update_palette_256:
  "tst (v_video_reg (vid_of s) 1) 0x10 \<Longrightarrow> towns_update_palette s =
     s\<lparr>x_palette := (x_palette s)(unat (v_palette_select (vid_of s)) :=
       (v_palette_r (vid_of s) (unat (v_palette_select (vid_of s))), v_palette_g (vid_of s) (unat (v_palette_select (vid_of s))),
        v_palette_b (vid_of s) (unat (v_palette_select (vid_of s)))))\<rparr>"
  unfolding towns_update_palette_def Let_def palette_bit4 by simp

lemma update_palette_16:
  "\<not> tst (v_video_reg (vid_of s) 1) 0x10 \<Longrightarrow> towns_update_palette s =
     (let i = (if bit (v_video_reg (vid_of s) 1) 5 then 1 else 0)
      in s\<lparr>x_palette16 := (x_palette16 s)(i := (x_palette16 s i)(unat (v_palette_select (vid_of s) AND 0x0f) :=
       (v_palette_r (vid_of s) (unat (v_palette_select (vid_of s))), v_palette_g (vid_of s) (unat (v_palette_select (vid_of s))),
        v_palette_b (vid_of s) (unat (v_palette_select (vid_of s))))))\<rparr>)"
  unfolding towns_update_palette_def Let_def palette_bit4 drop5_index by simp

lemma palette_write_steps:
  fixes s :: "'c tvs"
  defines "u \<equiv> \<lambda>f s. towns_update_palette (set_vid f s) :: 'c tvs"
  shows "palette_write e (r, g, b) s =
    u (\<lambda>v. v\<lparr>v_palette_g := (v_palette_g v)(unat (v_palette_select v) := g)\<rparr>)
      (u (\<lambda>v. v\<lparr>v_palette_r := (v_palette_r v)(unat (v_palette_select v) := r)\<rparr>)
        (u (\<lambda>v. v\<lparr>v_palette_b := (v_palette_b v)(unat (v_palette_select v) := b)\<rparr>)
          (set_vid (\<lambda>v. v\<lparr>v_palette_select := e\<rparr>) s)))"
  by (simp add: palette_write_def towns_video_fd90_w_def u_def)

lemma palette_write_result:
  fixes s :: "'c tvs" and e r g b :: u8
  defines "s' \<equiv> palette_write e (r, g, b) s"
  shows "v_palette_select (vid_of s') = e" "v_video_reg (vid_of s') = v_video_reg (vid_of s)"
    "tst (v_video_reg (vid_of s) 1) 0x10 \<Longrightarrow> x_palette s' = (x_palette s)(unat e := (r, g, b))"
    "tst (v_video_reg (vid_of s) 1) 0x10 \<Longrightarrow> x_palette16 s' = x_palette16 s"
    "\<not> tst (v_video_reg (vid_of s) 1) 0x10 \<Longrightarrow> x_palette s' = x_palette s"
    "\<not> tst (v_video_reg (vid_of s) 1) 0x10 \<Longrightarrow> x_palette16 s' =
       (let i = (if bit (v_video_reg (vid_of s) 1) 5 then 1 else 0)
        in (x_palette16 s)(i := (x_palette16 s i)(unat (e AND 0x0f) := (r, g, b))))"
  unfolding s'_def palette_write_steps
  by (simp_all add: update_palette_256 update_palette_16 Let_def del: One_nat_def)

lemma palette_write_reads:
  fixes s :: "'c tvs" and e r g b :: u8
  defines "s' \<equiv> palette_write e (r, g, b) s"
  shows "if tst (v_video_reg (vid_of s) 1) 0x10
    then x_palette s' = (x_palette s)(unat e := (r, g, b)) \<and> x_palette16 s' = x_palette16 s
      \<and> towns_video_fd90_r x 0x02 s' = b \<and> towns_video_fd90_r x 0x04 s' = r \<and> towns_video_fd90_r x 0x06 s' = g
    else x_palette s' = x_palette s
      \<and> x_palette16 s' (if bit (v_video_reg (vid_of s) 1) 5 then 1 else 0) (unat (e AND 0x0f)) = (r, g, b)
      \<and> towns_video_fd90_r x 0x02 s' = (if e < 16 then b else 0)
      \<and> towns_video_fd90_r x 0x04 s' = (if e < 16 then r else 0)
      \<and> towns_video_fd90_r x 0x06 s' = (if e < 16 then g else 0)"
proof (cases "tst (v_video_reg (vid_of s) 1) 0x10")
  case True
  then have "current_pen s' = (r, g, b)"
    unfolding current_pen_def s'_def palette_write_result(1,2) Let_def
    by (simp add: palette_write_result(3) pen_color_def)
  then show ?thesis
    using True palette_write_result(3,4) [OF True, of e r g b, folded s'_def]
    by (simp add: towns_video_fd90_r_def)
next
  case False
  let ?i = "if bit (v_video_reg (vid_of s) 1) 5 then 1 else 0 :: nat"
  note P = palette_write_result(6) [OF False, of e r g b, folded s'_def, unfolded Let_def]
  note e = and_0f_id [of e]
  have "current_pen s' = pen_color 16 (x_palette16 s' ?i) (unat e)"
    using False unfolding current_pen_def s'_def palette_write_result(1,2) Let_def drop5_index by simp
  also have "\<dots> = (if e < 16 then (r, g, b) else (0, 0, 0))"
    using e by (simp add: pen_color_def P word_less_nat_alt)
  finally have c: "current_pen s' = (if e < 16 then (r, g, b) else (0, 0, 0))" .
  have "x_palette16 s' ?i (unat (e AND 0x0f)) = (r, g, b)" unfolding P by simp
  then show ?thesis using False palette_write_result(5) [OF False, of e r g b] c
    by (simp add: towns_video_fd90_r_def s'_def [symmetric])
qed

text \<open>
  Writing the three components of palette entry e. In 256-colour mode the pen becomes that
  colour, reads back component by component, and no other pen changes. In 16-colour mode the entry
  of the selected layer's palette is e mod 16, but the read-back uses e itself, so an entry of 16 or more
  reads as black.
\<close>
lemma palette_roundtrip:
  "let s' = palette_write e (r, g, b) s in
    if tst (v_video_reg (vid_of s) 1) 0x10
    then x_palette s' = (x_palette s)(unat e := (r, g, b)) \<and> x_palette16 s' = x_palette16 s
      \<and> towns_video_fd90_r x 0x02 s' = b \<and> towns_video_fd90_r x 0x04 s' = r \<and> towns_video_fd90_r x 0x06 s' = g
    else x_palette s' = x_palette s
      \<and> x_palette16 s' (if bit (v_video_reg (vid_of s) 1) 5 then 1 else 0) (unat (e AND 0x0f)) = (r, g, b)
      \<and> towns_video_fd90_r x 0x02 s' = (if e < 16 then b else 0)
      \<and> towns_video_fd90_r x 0x04 s' = (if e < 16 then r else 0)
      \<and> towns_video_fd90_r x 0x06 s' = (if e < 16 then g else 0)"
  unfolding Let_def by (rule palette_write_reads)

text \<open>
  The offset of a kanji is kept in 16 bits, so the bits of 0x38000 above them are lost: the codes
  of rows 0x70 and up show glyphs of rows below 0x70. The code 0x7021 and the code 0x3061 have
  different offsets as computed and the same one as stored.
\<close>
lemma kanji_high_rows_alias:
  "kanji_code 0x70 0x21 \<noteq> kanji_code 0x30 0x61
    \<and> v_kanji_offset (towns_update_kanji_offset (v\<lparr>v_kanji_code_h := 0x70, v_kanji_code_l := 0x21\<rparr>))
      = v_kanji_offset (towns_update_kanji_offset (v\<lparr>v_kanji_code_h := 0x30, v_kanji_code_l := 0x61\<rparr>))"
  by (simp add: towns_update_kanji_offset_def kanji_code_def Let_def)

text \<open>The port sequence that fetches n rows of a 16-by-16 glyph, left and right half.\<close>

fun kanji_rows :: "u16 \<Rightarrow> nat \<Rightarrow> 'c tvs \<Rightarrow> (u8 \<times> u8) list \<times> 'c tvs" where
  "kanji_rows x 0 s = ([], s)"
| "kanji_rows x (Suc n) s =
     (let (left, s1) = towns_video_cff80_r x 0x16 s; (right, s2) = towns_video_cff80_r x 0x17 s1;
          (rows, s3) = kanji_rows x n s2
      in ((left, right) # rows, s3))"

text \<open>
  Reading the two character ports alternately delivers the glyph bytes in order from the ROM
  half behind 0x180000, two per row, advancing the 16-bit offset once per row.
\<close>
lemma kanji_rows_in_order:
  "kanji_rows x n s =
    (map (\<lambda>i. let a = 0x180000 + 2 * unat (v_kanji_offset (vid_of s) + of_nat i)
              in (t_rom (x_mem s) a, t_rom (x_mem s) (a + 1))) [0..<n],
     set_vid (\<lambda>v. v\<lparr>v_kanji_offset := v_kanji_offset v + of_nat n\<rparr>) s)"
proof (induction n arbitrary: s)
  case 0
  then show ?case by (simp add: set_vid_def)
next
  case (Suc n)
  let ?s1 = "set_vid (\<lambda>v. v\<lparr>v_kanji_offset := v_kanji_offset v + 1\<rparr>) s"
  have step: "kanji_rows x (Suc n) s = (let (rows, s3) = kanji_rows x n ?s1; a = 0x180000 + 2 * unat (v_kanji_offset (vid_of s))
      in ((t_rom (x_mem s) a, t_rom (x_mem s) (a + 1)) # rows, s3))"
    by (simp add: towns_video_cff80_r_def add.commute mult.commute Let_def)
  have twice: "set_vid (\<lambda>v. v\<lparr>v_kanji_offset := v_kanji_offset v + of_nat n\<rparr>) ?s1 =
      set_vid (\<lambda>v. v\<lparr>v_kanji_offset := v_kanji_offset v + of_nat (Suc n)\<rparr>) s"
    by (simp add: set_vid_def add.assoc)
  have shift: "map f [0..<Suc n] = f 0 # map (\<lambda>i. f (Suc i)) [0..<n]" for f :: "nat \<Rightarrow> u8 \<times> u8"
    by (simp add: upt_conv_Cons map_Suc_upt [symmetric] comp_def del: upt_Suc)
  show ?case unfolding step Suc.IH twice shift by (simp add: Let_def add.assoc)
qed

text \<open>
  Two flags tell the processor that a compatibility register was used, and reading clears them:
  after a write to the digital palette the status port shows bit 7 once, and after the text layer was
  switched on port 0x5c8 shows bit 7 once and switches it off.
\<close>
lemma flags_clear_on_read:
  assumes "8 \<le> k" "k \<le> 15" "v_tvram_enable (vid_of s)"
  shows "\<exists>s1 v1 s2 v2. towns_video_fd90_w k d s = s1 \<and> towns_video_fd90_r x k s1 = d
    \<and> towns_video_440_r x y 0x0c s1 = Some (v1, s2) \<and> bit v1 7
    \<and> towns_video_440_r x y 0x0c s2 = Some (v2, s2) \<and> \<not> bit v2 7
    \<and> (\<exists>s3. towns_video_5c8_r 0 s2 = (0x80, s3) \<and> \<not> v_tvram_enable (vid_of s3) \<and> towns_video_5c8_r 0 s3 = (0, s3))"
proof -
  let ?s1 = "towns_video_fd90_w k d s"
  let ?s2 = "set_vid (\<lambda>v. v\<lparr>v_dpmd_flag := False\<rparr>) ?s1"
  let ?s3 = "set_vid (\<lambda>v. v\<lparr>v_tvram_enable := False\<rparr>) ?s2"
  have w: "?s1 = set_vid (\<lambda>v. v\<lparr>v_degipal := (v_degipal v)(k - 8 := d), v_dpmd_flag := True\<rparr>) s"
    using assms(1,2) by (simp add: towns_video_fd90_w_def)
  have r: "towns_video_fd90_r x k ?s1 = d"
    using assms(1,2) by (simp add: w towns_video_fd90_r_def split: prod.split)
  have b: "\<not> bit (p AND 1 :: u8) 7" "\<not> bit (2 OR p AND 1 :: u8) 7" for p by (simp_all add: bit_simps)
  have 1: "\<exists>v1. towns_video_440_r x y 0x0c ?s1 = Some (v1, ?s2) \<and> bit v1 7"
    unfolding w by (simp add: towns_video_440_r_def Let_def bit_or_iff)
  have 2: "\<exists>v2. towns_video_440_r x y 0x0c ?s2 = Some (v2, ?s2) \<and> \<not> bit v2 7"
    unfolding w by (simp add: towns_video_440_r_def Let_def b)
  have 3: "towns_video_5c8_r 0 ?s2 = (0x80, ?s3)" "\<not> v_tvram_enable (vid_of ?s3)" "towns_video_5c8_r 0 ?s3 = (0, ?s3)"
    using assms(3) unfolding w by (simp_all add: towns_video_5c8_r_def)
  show ?thesis using r 1 2 3 by blast
qed

text \<open>
  C24: with sprites displayed and no drawing under way, a vertical sync raises IRQ11, switches the
  sprite page, makes bit 15 of register 21 show the page the picture comes from, the opposite of the
  one drawn to, and starts drawing; a sync during drawing switches nothing. The line falls again at the
  end of the blank or on a write to 0x5ca, whichever comes first.
\<close>
theorem vsync_flips_sprite_page:
  assumes "pic_wf (x_pic s)" "bit (v_sprite_reg (vid_of s) 1) 7" "v_sprite_page (vid_of s) \<in> {0, 1}"
    "towns_vsync_irq (set_irq_line 3) s = s'"
  shows "irq_level 3 (x_pic s') \<and> v_vblank_flag (vid_of s') \<and> v_sprite_flag (vid_of s')
    \<and> (if v_sprite_flag (vid_of s)
       then v_sprite_page (vid_of s') = v_sprite_page (vid_of s) \<and> v_crtc_reg (vid_of s') = v_crtc_reg (vid_of s)
       else v_sprite_page (vid_of s') = 1 - v_sprite_page (vid_of s) \<and> x_sprite_due s'
         \<and> bit (v_crtc_reg (vid_of s') 21) 15 = (v_sprite_page (vid_of s') = 0))
    \<and> \<not> irq_level 3 (x_pic (towns_vblank_end (set_irq_line 3) s'))
    \<and> \<not> v_vblank_flag (vid_of (towns_vblank_end (set_irq_line 3) s'))
    \<and> \<not> irq_level 3 (x_pic (towns_video_5c8_w (set_irq_line 3) 2 d s'))"
proof -
  have e: "tst (v_sprite_reg (vid_of s) 1) 0x80" using assms(2) tst_exp [of "v_sprite_reg (vid_of s) 1" 7] by simp
  have b: "\<not> bit (w AND NOT 0x8000) 15" "bit (w OR 0x8000) 15" for w :: u16
    by (simp_all add: bit_simps)
  have v: "vid_of (s\<lparr>x_pic := p\<rparr>) = vid_of s" "vid_of (s\<lparr>x_vblank_due := q\<rparr>) = vid_of s" for p q and s :: "pic tvs" by simp_all
  have pic: "x_pic s' = set_irq_line 3 True (x_pic s)"
    unfolding assms(4) [symmetric] towns_vsync_irq_def towns_sprite_start_def Let_def by (simp add: set_vid_def)
  have wf: "pic_wf (x_pic s')" unfolding pic by (rule ir3.ok_out [OF assms(1)])
  have lines: "irq_level 3 (x_pic s')" "\<not> irq_level 3 (x_pic (towns_vblank_end (set_irq_line 3) s'))"
      "\<not> irq_level 3 (x_pic (towns_video_5c8_w (set_irq_line 3) 2 d s'))"
    using ir3.level_out [OF assms(1), of True] ir3.level_out [OF wf, of False]
    by (simp_all add: pic towns_vblank_end_def towns_video_5c8_w_def)
  have rest: "v_vblank_flag (vid_of s') \<and> v_sprite_flag (vid_of s')
    \<and> (if v_sprite_flag (vid_of s)
       then v_sprite_page (vid_of s') = v_sprite_page (vid_of s) \<and> v_crtc_reg (vid_of s') = v_crtc_reg (vid_of s)
       else v_sprite_page (vid_of s') = 1 - v_sprite_page (vid_of s) \<and> x_sprite_due s'
         \<and> bit (v_crtc_reg (vid_of s') 21) 15 = (v_sprite_page (vid_of s') = 0))"
    using e assms(3) b unfolding assms(4) [symmetric] towns_vsync_irq_def towns_sprite_start_def Let_def
    by (cases "v_sprite_flag (vid_of s)"; cases "v_sprite_page (vid_of s) = 0")
      (simp_all add: set_vid_def del: bit_numeral_word_iff One_nat_def)
  have "\<not> v_vblank_flag (vid_of (towns_vblank_end (set_irq_line 3) s'))"
    by (simp add: towns_vblank_end_def)
  then show ?thesis using lines rest by blast
qed

definition sample_tvs :: "pic tvs" where
  "sample_tvs = \<lparr>x_mem = sample_tmem, x_palette = \<lambda>_. (0, 0, 0), x_palette16 = \<lambda>_ _. (0, 0, 0), x_screen = None,
     x_sprite_due = False, x_vblank_due = False, x_pic = pic_reset False\<rparr>"

lemma crtc_register_roundtrip_witness:
  "\<exists>s'. crtc_write 4 0x21 0x03 sample_tvs = Some s' \<and> towns_video_440_r 0 0 0x02 s' = Some (0x21, s')
    \<and> towns_video_440_r 0 0 0x03 s' = Some (0x03, s')"
proof -
  have "(4 :: u8) < 32" "(4 :: u8) \<noteq> 30" "(4 :: u8) \<noteq> 21 \<or> \<not> tst (v_sprite_reg (vid_of sample_tvs) 1) 0x80" by simp_all
  from crtc_register_roundtrip [OF this, of "0x21" "0x03" 0 0] show ?thesis by blast
qed

lemma vsync_flips_sprite_page_witness:
  "v_sprite_page (vid_of (towns_vsync_irq (set_irq_line 3)
      (set_vid (\<lambda>v. v\<lparr>v_sprite_reg := (\<lambda>_. 0x80)\<rparr>) sample_tvs))) = 1"
proof -
  let ?s = "set_vid (\<lambda>v. v\<lparr>v_sprite_reg := (\<lambda>_. 0x80)\<rparr>) sample_tvs"
  have w: "pic_wf (x_pic ?s)" "bit (v_sprite_reg (vid_of ?s) 1) 7" "v_sprite_page (vid_of ?s) \<in> {0, 1}"
    by (simp_all add: sample_tvs_def sample_tmem_def sample_vid_def pic_wf_reset)
  from vsync_flips_sprite_page [OF w refl] show ?thesis
    by (simp add: sample_tvs_def sample_tmem_def sample_vid_def)
qed

end
