(* ===== verification/Towns_Sprite.thy ===== *)
theory Towns_Sprite
  imports Towns_Memory
begin

text \<open>
  The sprite engine, \<open>render_sprite_4\<close>, \<open>render_sprite_16\<close> and \<open>draw_sprites\<close> of
  \<open>src/mame/fujitsu/fmtowns_v.cpp\<close>. The drawing loops run until a 9-bit position meets its end, the
  clearing loop until its index passes the page: both are partial functions, so that not ending is
  \<open>None\<close>, and the theorems say when they end.
\<close>

unbundle bit_operations_syntax

subsection \<open>The loops\<close>

text \<open>\<open>for (pos = start; pos != fin; pos += dir, pos &= 0x1ff)\<close> with a body that may itself not return.\<close>

partial_function (option) axis_loop ::
    "u16 \<Rightarrow> u16 \<Rightarrow> u16 \<Rightarrow> (u16 \<Rightarrow> 's \<Rightarrow> 's option) \<Rightarrow> 's \<Rightarrow> 's option" where
  "axis_loop pos fin dir body s =
     (if pos = fin then Some s
      else Option.bind (body pos s) (axis_loop ((pos + dir) AND 0x1ff) fin dir body))"

text \<open>\<open>for (int i = linesize; i < 0x20000; i += linesize) memcpy(vram + i, vram, linesize)\<close>.\<close>

definition copy_line :: "nat \<Rightarrow> nat \<Rightarrow> nat \<Rightarrow> (nat \<Rightarrow> u8) \<Rightarrow> nat \<Rightarrow> u8" where
  "copy_line vram i linesize g = (\<lambda>a. if vram + i \<le> a \<and> a < vram + i + linesize then g (a - i) else g a)"

partial_function (option) clear_page :: "nat \<Rightarrow> nat \<Rightarrow> nat \<Rightarrow> (nat \<Rightarrow> u8) \<Rightarrow> (nat \<Rightarrow> u8) option" where
  "clear_page vram linesize i g =
     (if i < 0x20000 then clear_page vram linesize (i + linesize) (copy_line vram i linesize g) else Some g)"

subsection \<open>One pixel\<close>

text \<open>
  What a sprite is drawn with: the pattern memory, the length of a line, the page base, and the mode
  bits after the exchange of the axes.
\<close>

record brush =
  b_txt :: "nat \<Rightarrow> u8"
  b_linesize :: u32
  b_vbase :: u32
  b_xflip :: bool
  b_xhalfsize :: bool
  b_rotation :: bool

definition pixel_offset :: "brush \<Rightarrow> u16 \<Rightarrow> u16 \<Rightarrow> u32" where
  "pixel_offset b xpos ypos =
     (if b_rotation b then b_linesize b * ucast (xpos AND 0x1ff) + ucast (ypos AND 0x1ff) * 2
      else b_linesize b * ucast (ypos AND 0x1ff) + ucast (xpos AND 0x1ff) * 2)"

definition visible :: "brush \<Rightarrow> u16 \<Rightarrow> u16 \<Rightarrow> u32 \<Rightarrow> bool" where
  "visible b xpos ypos voffset \<longleftrightarrow> voffset < 0x20000 \<and> xpos < 256 \<and> ypos < 256 \<and> voffset > b_linesize b"

definition plot :: "brush \<Rightarrow> u32 \<Rightarrow> u16 \<Rightarrow> (nat \<Rightarrow> u8) \<Rightarrow> nat \<Rightarrow> u8" where
  "plot b voffset col g =
     (let a = unat (0x40000 + voffset + b_vbase b) in g(a + 1 := hi8 col, a := lo8 col))"

definition spot :: "brush \<Rightarrow> u16 \<Rightarrow> u16 \<Rightarrow> u32 \<Rightarrow> bool \<Rightarrow> u16 \<Rightarrow> (nat \<Rightarrow> u8) \<Rightarrow> nat \<Rightarrow> u8" where
  "spot b xpos ypos voffset opaque col g =
     (if visible b xpos ypos voffset \<and> opaque then plot b voffset col g else g)"

definition txt_word :: "brush \<Rightarrow> nat \<Rightarrow> u16" where
  "txt_word b a = ucast (b_txt b a) OR push_bit 8 (ucast (b_txt b (a + 1)))"

definition palette_colour :: "brush \<Rightarrow> u32 \<Rightarrow> u8 \<Rightarrow> u16" where
  "palette_colour b coffset pixel = txt_word b (unat coffset + unat pixel * 2) AND 0x7fff"

definition sprite4_pixel ::
    "brush \<Rightarrow> u32 \<Rightarrow> u16 \<Rightarrow> u16 \<Rightarrow> (nat \<Rightarrow> u8) \<times> u32 \<Rightarrow> (nat \<Rightarrow> u8) \<times> u32" where
  "sprite4_pixel b coffset ypos xpos s =
     (let (g, poffset) = s;
          pair = b_txt b (unat poffset);
          pixel = drop_bit 4 (pair AND 0xf0);
          voffset = pixel_offset b xpos ypos;
          g1 = spot b xpos ypos voffset (pixel \<noteq> 0) (palette_colour b coffset pixel) g;
          g2 = (if \<not> b_xhalfsize b then
                  let step = (if b_rotation b then b_linesize b else 2);
                      voffset' = (if b_xflip b then voffset + step else voffset - step);
                      pixel' = pair AND 0x0f
                  in spot b xpos ypos voffset' (pixel' \<noteq> 0) (palette_colour b coffset pixel') g1
                else g1)
      in (g2, (poffset + 1) AND 0x1ffff))"

definition sprite16_pixel :: "brush \<Rightarrow> u16 \<Rightarrow> u16 \<Rightarrow> (nat \<Rightarrow> u8) \<times> u32 \<Rightarrow> (nat \<Rightarrow> u8) \<times> u32" where
  "sprite16_pixel b ypos xpos s =
     (let (g, poffset) = s;
          col = txt_word b (unat poffset);
          voffset = pixel_offset b xpos ypos;
          g1 = spot b xpos ypos voffset (col < 0x8000) col g
      in (g1, (poffset + (if b_xhalfsize b then 4 else 2)) AND 0x1ffff))"

subsection \<open>One sprite\<close>

record sprite =
  s_x :: u16
  s_y :: u16
  s_xflip :: bool
  s_yflip :: bool
  s_xhalfsize :: bool
  s_yhalfsize :: bool
  s_rotation :: bool

definition rotate_axes :: "sprite \<Rightarrow> sprite" where
  "rotate_axes sp =
     (if s_rotation sp then sp\<lparr>s_x := s_y sp, s_y := s_x sp, s_xflip := s_yflip sp, s_yflip := s_xflip sp\<rparr> else sp)"

definition line_bytes :: "vid \<Rightarrow> nat" where
  "line_bytes v = unat (v_crtc_reg v 24) * 4"

definition brush_of :: "tmem \<Rightarrow> sprite \<Rightarrow> brush" where
  "brush_of m sp = \<lparr>b_txt = t_txtvram m, b_linesize = of_nat (line_bytes (t_video m)),
     b_vbase = (if v_sprite_page (t_video m) \<noteq> 0 then 0x20000 else 0),
     b_xflip = s_xflip sp, b_xhalfsize = s_xhalfsize sp, b_rotation = s_rotation sp\<rparr>"

text \<open>Start, end and step of the two axes, before masking.\<close>

definition x_axis_4 :: "sprite \<Rightarrow> u16 \<times> u16 \<times> u16" where
  "x_axis_4 sp =
     (if s_xflip sp then (if s_xhalfsize sp then s_x sp + 6 else s_x sp + 14, s_x sp - 2, if s_xhalfsize sp then - 1 else - 2)
      else (s_x sp + 1, if s_xhalfsize sp then s_x sp + 9 else s_x sp + 17, if s_xhalfsize sp then 1 else 2))"

definition x_axis_16 :: "sprite \<Rightarrow> u16 \<times> u16 \<times> u16" where
  "x_axis_16 sp =
     (if s_xflip sp then (if s_xhalfsize sp then s_x sp + 7 else s_x sp + 15, s_x sp - 1, - 1)
      else (s_x sp, if s_xhalfsize sp then s_x sp + 8 else s_x sp + 16, 1))"

definition y_axis :: "sprite \<Rightarrow> u16 \<times> u16 \<times> u16" where
  "y_axis sp =
     (if s_yflip sp then (if s_yhalfsize sp then s_y sp + 7 else s_y sp + 15, s_y sp - 1, - 1)
      else (s_y sp, if s_yhalfsize sp then s_y sp + 8 else s_y sp + 16, 1))"

definition walk :: "u16 \<times> u16 \<times> u16 \<Rightarrow> (u16 \<Rightarrow> 's \<Rightarrow> 's option) \<Rightarrow> 's \<Rightarrow> 's option" where
  "walk ax body s = (case ax of (start, fin, dir) \<Rightarrow> axis_loop (start AND 0x1ff) (fin AND 0x1ff) dir body s)"

definition render_sprite_4 :: "tmem \<Rightarrow> u32 \<Rightarrow> u32 \<Rightarrow> sprite \<Rightarrow> (nat \<Rightarrow> u8) \<Rightarrow> (nat \<Rightarrow> u8) option" where
  "render_sprite_4 m poffset coffset sp0 g =
     (let sp = rotate_axes sp0; b = brush_of m sp
      in map_option fst
           (walk (y_axis sp)
             (\<lambda>ypos s. map_option (\<lambda>(g, p). (g, if s_yhalfsize sp then p + 8 else p))
                 (walk (x_axis_4 sp) (\<lambda>xpos s. Some (sprite4_pixel b coffset ypos xpos s)) s))
             (g, poffset AND 0x1ffff)))"

definition render_sprite_16 :: "tmem \<Rightarrow> u32 \<Rightarrow> sprite \<Rightarrow> (nat \<Rightarrow> u8) \<Rightarrow> (nat \<Rightarrow> u8) option" where
  "render_sprite_16 m poffset sp0 g =
     (let sp = rotate_axes sp0; b = brush_of m sp
      in map_option fst
           (walk (y_axis sp)
             (\<lambda>ypos s. map_option (\<lambda>(g, p). (g, if s_yhalfsize sp then p + 16 else p))
                 (walk (x_axis_16 sp) (\<lambda>xpos s. Some (sprite16_pixel b ypos xpos s)) s))
             (g, poffset AND 0x1ffff)))"

subsection \<open>All sprites\<close>

definition sprite_reg_word :: "vid \<Rightarrow> nat \<Rightarrow> u16" where
  "sprite_reg_word v n = ucast (v_sprite_reg v n) OR push_bit 8 (ucast (v_sprite_reg v (n + 1)))"

definition table_word :: "tmem \<Rightarrow> nat \<Rightarrow> nat \<Rightarrow> u16" where
  "table_word m n k = ucast (t_txtvram m (8 * n + k)) OR push_bit 8 (ucast (t_txtvram m (8 * n + k + 1)))"

definition table_sprite :: "tmem \<Rightarrow> nat \<Rightarrow> sprite" where
  "table_sprite m n =
     (let xoff = sprite_reg_word (t_video m) 2 AND 0x1ff; yoff = sprite_reg_word (t_video m) 4 AND 0x1ff;
          attr = table_word m n 4;
          x = table_word m n 0 + (if tst attr 0x8000 then xoff else 0);
          y = table_word m n 2 + (if tst attr 0x8000 then yoff else 0)
      in \<lparr>s_x = x AND 0x1ff, s_y = y AND 0x1ff, s_xflip = tst attr 0x2000, s_yflip = tst attr 0x1000,
          s_xhalfsize = tst attr 0x400, s_yhalfsize = tst attr 0x800, s_rotation = tst attr 0x4000\<rparr>)"

definition draw_sprite :: "tmem \<Rightarrow> nat \<Rightarrow> (nat \<Rightarrow> u8) \<Rightarrow> (nat \<Rightarrow> u8) option" where
  "draw_sprite m n g =
     (let attr = table_word m n 4; colour = table_word m n 6;
          poffset = push_bit 7 (ucast (attr AND 0x3ff))
      in if tst colour 0x8000 then
           (if \<not> tst colour 0x2000
            then render_sprite_4 m (poffset AND 0x1ffff) (push_bit 5 (ucast (colour AND 0xfff))) (table_sprite m n) g
            else Some g)
         else (if \<not> tst colour 0x2000 then render_sprite_16 m (poffset AND 0x1ffff) (table_sprite m n) g else Some g))"

fun draw_list :: "tmem \<Rightarrow> nat list \<Rightarrow> (nat \<Rightarrow> u8) \<Rightarrow> (nat \<Rightarrow> u8) option" where
  "draw_list m [] g = Some g"
| "draw_list m (n # ns) g = Option.bind (draw_sprite m n g) (draw_list m ns)"

definition page_start :: "vid \<Rightarrow> nat" where
  "page_start v = (if v_sprite_page v = 0 then 0x40000 else 0x60000)"

definition draw_sprites :: "tmem \<Rightarrow> tmem option" where
  "draw_sprites m =
     (let limit = unat (sprite_reg_word (t_video m) 0 AND 0x3ff);
          linesize = line_bytes (t_video m)
      in Option.bind (clear_page (page_start (t_video m)) linesize linesize (t_gfxvram m)) (\<lambda>g.
         Option.bind (draw_list m [limit..<1024] g) (\<lambda>g'.
           Some (m\<lparr>t_gfxvram := g', t_video := (t_video m)\<lparr>v_sprite_flag := False\<rparr>\<rparr>))))"

subsection \<open>The drawing loops as bounded folds\<close>

fun mfold :: "('p \<Rightarrow> 's \<Rightarrow> 's option) \<Rightarrow> 'p list \<Rightarrow> 's \<Rightarrow> 's option" where
  "mfold body [] s = Some s"
| "mfold body (p # ps) s = Option.bind (body p s) (mfold body ps)"

lemma mfold_invariant:
  "(\<And>p s. p \<in> set ps \<Longrightarrow> P s \<Longrightarrow> \<exists>s'. body p s = Some s' \<and> P s') \<Longrightarrow> P s \<Longrightarrow> \<exists>s'. mfold body ps s = Some s' \<and> P s'"
proof (induction ps arbitrary: s)
  case (Cons p ps)
  obtain s' where "body p s = Some s'" "P s'" using Cons.prems by force
  then show ?case using Cons.IH [of s'] Cons.prems(1) by auto
qed simp

lemma and_1ff: "w AND 0x1ff = take_bit 9 w" for w :: u16
  by (simp add: take_bit_eq_mask mask_eq_exp_minus_1)

lemma take_bit_sum: "take_bit n (take_bit n a + take_bit n b) = take_bit n (a + b)" for a b :: "'w::len word"
proof -
  have e: "take_bit n (x + y) = take_bit n (take_bit n x + take_bit n y)" for x y :: int and n by (simp add: take_bit_add)
  show ?thesis by (transfer, simp only: take_bit_take_bit min.left_idem min.idem, rule e [symmetric])
qed

lemma pos_step: "((p AND 0x1ff) + d) AND 0x1ff = (p + d) AND 0x1ff" for p d :: u16
  using take_bit_sum [of 9 "take_bit 9 p" d] take_bit_sum [of 9 p d] by (simp add: and_1ff)

lemma pos_differs: "d AND 0x1ff \<noteq> 0 \<Longrightarrow> p AND 0x1ff \<noteq> (p + d) AND 0x1ff" for p d :: u16
proof
  assume d: "d AND 0x1ff \<noteq> 0" and e: "p AND 0x1ff = (p + d) AND 0x1ff"
  have "take_bit 9 d = take_bit 9 (take_bit 9 (p + d) + take_bit 9 (- p))"
    using take_bit_sum [of 9 "p + d" "- p"] by simp
  then have "take_bit 9 d = take_bit 9 (take_bit 9 p + take_bit 9 (- p))" using e by (simp only: and_1ff)
  then show False using d take_bit_sum [of 9 p "- p"] by (simp add: and_1ff)
qed

definition positions :: "u16 \<Rightarrow> u16 \<Rightarrow> nat \<Rightarrow> u16 list" where
  "positions start dir n = map (\<lambda>i. (start + of_nat i * dir) AND 0x1ff) [0..<n]"

lemma positions_Suc: "positions p d (Suc n) = (p AND 0x1ff) # positions (p + d) d n"
  by (simp add: positions_def upt_conv_Cons map_Suc_upt [symmetric] algebra_simps del: upt_Suc)

lemma axis_loop_positions:
  "(\<And>i. 0 < i \<Longrightarrow> i \<le> n \<Longrightarrow> (of_nat i * d) AND 0x1ff \<noteq> 0) \<Longrightarrow>
     axis_loop (p AND 0x1ff) ((p + of_nat n * d) AND 0x1ff) d body s = mfold body (positions p d n) s"
proof (induction n arbitrary: p s)
  case 0
  then show ?case by (simp add: axis_loop.simps positions_def)
next
  case (Suc n)
  have ne: "p AND 0x1ff \<noteq> (p + of_nat (Suc n) * d) AND 0x1ff"
    using Suc.prems [of "Suc n"] by (intro pos_differs) simp
  have fin: "p + of_nat (Suc n) * d = (p + d) + of_nat n * d" by (simp add: algebra_simps)
  have IH: "axis_loop ((p + d) AND 0x1ff) (((p + d) + of_nat n * d) AND 0x1ff) d body =
      mfold body (positions (p + d) d n)"
    by (rule ext, rule Suc.IH) (use Suc.prems in auto)
  have "axis_loop (p AND 0x1ff) ((p + of_nat (Suc n) * d) AND 0x1ff) d body s =
      Option.bind (body (p AND 0x1ff) s) (axis_loop ((p + d) AND 0x1ff) ((p + of_nat (Suc n) * d) AND 0x1ff) d body)"
    by (subst axis_loop.simps) (simp only: ne if_False pos_step)
  also have "\<dots> = Option.bind (body (p AND 0x1ff) s) (mfold body (positions (p + d) d n))"
    unfolding fin by (simp only: IH)
  finally show ?case unfolding positions_Suc mfold.simps .
qed

lemma few_steps: "\<forall>i\<in>set [1..<17]. \<forall>d\<in>{1, 2, - 1, - 2 :: u16}. (of_nat i * d) AND 0x1ff \<noteq> 0"
  by code_simp

lemma steps_differ: "0 < i \<Longrightarrow> i \<le> 16 \<Longrightarrow> d \<in> {1, 2, - 1, - 2 :: u16} \<Longrightarrow> (of_nat i * d) AND 0x1ff \<noteq> 0"
  by (rule bspec [OF bspec [OF few_steps]]) auto

definition axis_length :: "u16 \<times> u16 \<times> u16 \<Rightarrow> nat \<Rightarrow> bool" where
  "axis_length ax n \<longleftrightarrow> (case ax of (start, fin, dir) \<Rightarrow> n \<le> 16 \<and> dir \<in> {1, 2, - 1, - 2} \<and> fin = start + of_nat n * dir)"

lemma walk_positions:
  "axis_length ax n \<Longrightarrow> walk ax body s = mfold body (positions (fst ax) (snd (snd ax)) n) s"
  using axis_loop_positions [of n "snd (snd ax)" "fst ax" body s] steps_differ [of _ "snd (snd ax)"]
  by (auto simp: walk_def axis_length_def split: prod.splits)

lemma sprite_axes:
  "axis_length (x_axis_4 sp) 8" "axis_length (x_axis_16 sp) (if s_xhalfsize sp then 8 else 16)"
  "axis_length (y_axis sp) (if s_yhalfsize sp then 8 else 16)"
  by (simp_all add: axis_length_def x_axis_4_def x_axis_16_def y_axis_def)

subsection \<open>What drawing may touch\<close>

definition only_page :: "vid \<Rightarrow> (nat \<Rightarrow> u8) \<Rightarrow> (nat \<Rightarrow> u8) \<Rightarrow> bool" where
  "only_page v g g' \<longleftrightarrow> (\<forall>a. a < page_start v \<or> page_start v + 0x20000 \<le> a \<longrightarrow> g' a = g a)"

lemma only_page_trans: "only_page v g g' \<Longrightarrow> only_page v g' g'' \<Longrightarrow> only_page v g g''"
  by (simp add: only_page_def)

lemma only_page_refl: "only_page v g g"
  by (simp add: only_page_def)

lemma even_unat: "2 dvd w \<Longrightarrow> 2 dvd unat w" for w :: u32
  by (metis bit_0 bit_unsigned_iff)

lemma plot_page:
  assumes "v < 0x20000" "2 dvd v" "b_vbase b = (if v_sprite_page vd \<noteq> 0 then 0x20000 else 0)"
  shows "only_page vd g (plot b v col g)"
proof -
  have v: "unat v < 0x20000" using assms(1) by (simp add: word_less_nat_alt)
  have "unat v + 1 < 0x20000" using v even_unat [OF assms(2)] by presburger
  moreover have "unat (0x40000 + v + b_vbase b) = page_start vd + unat v"
  proof -
    have "unat (0x40000 + v + b_vbase b) = (0x40000 + unat v + unat (b_vbase b)) mod 2 ^ 32"
      by (simp add: unat_word_ariths mod_simps)
    then show ?thesis using v by (simp add: assms(3) page_start_def)
  qed
  ultimately show ?thesis by (simp add: only_page_def plot_def Let_def)
qed

definition page_brush :: "vid \<Rightarrow> brush \<Rightarrow> bool" where
  "page_brush v b \<longleftrightarrow> 2 dvd b_linesize b \<and> b_vbase b = (if v_sprite_page v \<noteq> 0 then 0x20000 else 0)"

lemma brush_of_page: "page_brush (t_video m) (brush_of m sp)"
proof -
  have "(2 :: u32) dvd 4 * x" for x by (rule dvdI [of _ _ "2 * x"]) simp
  then show ?thesis by (simp add: page_brush_def brush_of_def line_bytes_def mult.commute)
qed

lemma pixel_offset_even: "page_brush v b \<Longrightarrow> 2 dvd pixel_offset b x y"
  by (simp add: page_brush_def pixel_offset_def)

lemma spot_page: "page_brush v b \<Longrightarrow> 2 dvd w \<Longrightarrow> only_page v g (spot b x y w q col g)"
  using plot_page [of w b v g col] by (simp add: spot_def visible_def page_brush_def only_page_refl)

lemma sprite4_pixel_page:
  assumes "page_brush v b"
  shows "only_page v g (fst (sprite4_pixel b c y x (g, p)))"
proof -
  let ?w = "pixel_offset b x y"
  let ?st = "if b_rotation b then b_linesize b else 2"
  have e: "2 dvd ?w" by (rule pixel_offset_even [OF assms])
  have st: "2 dvd ?st" using assms by (simp add: page_brush_def)
  have e': "2 dvd (if b_xflip b then ?w + ?st else ?w - ?st)"
    by (rule if_split [THEN iffD2]) (use dvd_add [OF e st] dvd_diff [OF e st] in blast)
  note two = only_page_trans [OF spot_page [OF assms e] spot_page [OF assms e']]
  show ?thesis
    unfolding sprite4_pixel_def Let_def prod.case fst_conv
    by (cases "b_xhalfsize b") (simp_all only: simp_thms if_True if_False two spot_page [OF assms e])
qed

lemma sprite16_pixel_page:
  "page_brush v b \<Longrightarrow> only_page v g (fst (sprite16_pixel b y x (g, p)))"
  by (simp add: sprite16_pixel_def Let_def spot_page pixel_offset_even)

subsection \<open>Sprites against a reference drawing\<close>

text \<open>
  The reference: row \<open>j\<close>, column \<open>i\<close> of the pattern is read at \<open>base + j * stride + i * step\<close> in the
  128K pattern memory and drawn at the \<open>j\<close>-th row and the \<open>i\<close>-th column position.
\<close>

definition pattern_draw ::
    "(u16 \<Rightarrow> u16 \<Rightarrow> nat \<Rightarrow> 'g \<Rightarrow> 'g) \<Rightarrow> nat \<Rightarrow> nat \<Rightarrow> nat \<Rightarrow> u16 list \<Rightarrow> u16 list \<Rightarrow> 'g \<Rightarrow> 'g" where
  "pattern_draw f base stride step rows columns =
     fold (\<lambda>(j, y). fold (\<lambda>(i, x). f y x ((base + j * stride + i * step) mod 0x20000)) (enumerate 0 columns))
       (enumerate 0 rows)"

definition step_pixel :: "(u16 \<Rightarrow> u16 \<Rightarrow> nat \<Rightarrow> 'g \<Rightarrow> 'g) \<Rightarrow> u32 \<Rightarrow> u16 \<Rightarrow> u16 \<Rightarrow> 'g \<times> u32 \<Rightarrow> 'g \<times> u32" where
  "step_pixel f st y x s = (case s of (g, p) \<Rightarrow> (f y x (unat p) g, (p + st) AND 0x1ffff))"

lemma and_1ffff: "unat (w AND 0x1ffff) = unat w mod 0x20000" for w :: u32
proof -
  have "w AND 0x1ffff = take_bit 17 w" by (simp add: take_bit_eq_mask mask_eq_exp_minus_1)
  then have "unat (w AND 0x1ffff) = take_bit 17 (unat w)" by (simp only: unsigned_take_bit_eq)
  then show ?thesis by (simp add: take_bit_eq_mod)
qed

lemma step_pointer: "unat p < 0x20010 \<Longrightarrow> st < 64 \<Longrightarrow> unat ((p + st) AND 0x1ffff) = (unat p + unat st) mod 0x20000"
  for p st :: u32
  by (simp add: and_1ffff unat_word_ariths word_less_nat_alt)

lemma row_columns:
  "unat p = k mod 0x20000 \<Longrightarrow> st < 64 \<Longrightarrow>
     \<exists>p'. mfold (\<lambda>x s. Some (step_pixel f st y x s)) xs (g, p) =
         Some (fold (\<lambda>(i, x). f y x ((k + i * unat st) mod 0x20000)) (enumerate 0 xs) g, p') \<and>
       unat p' = (k + length xs * unat st) mod 0x20000"
proof (induction xs arbitrary: g p k)
  case (Cons x xs)
  have u: "unat ((p + st) AND 0x1ffff) = (k + unat st) mod 0x20000"
    using Cons.prems step_pointer [of p st] by (simp add: mod_simps)
  have sh: "fold (\<lambda>(i, x). f y x ((k + unat st + i * unat st) mod 0x20000)) (enumerate 0 xs) =
      fold (\<lambda>(i, x). f y x ((k + i * unat st) mod 0x20000)) (enumerate (Suc 0) xs)"
    by (simp add: enumerate_Suc_eq fold_map comp_def case_prod_unfold algebra_simps)
  show ?case
    using Cons.IH [OF u Cons.prems(2), of "f y x (unat p) g"] Cons.prems(1)
    by (auto simp: step_pixel_def sh algebra_simps simp flip: sh)
qed simp

lemma add_within_block: "q mod 128 + e < 128 \<Longrightarrow> q mod 0x20000 + e = (q + e) mod 0x20000" for q e :: nat
proof -
  assume h: "q mod 128 + e < 128"
  have m: "x mod 0x20000 = 128 * (x div 128 mod 1024) + x mod 128" for x :: nat
    using mod_mult2_eq [of x 128 1024] by simp
  have "(q + e) mod 128 = q mod 128 + e" using h by (metis mod_add_left_eq mod_less)
  moreover have "(q + e) div 128 = q div 128"
  proof -
    have "q + e = 128 * (q div 128) + (q mod 128 + e)" by simp
    then show ?thesis using h by (metis div_mult_self4 div_less add_0_right zero_neq_numeral)
  qed
  ultimately show ?thesis by (simp only: m [of q] m [of "q + e"])
qed

lemma few_rows: "\<forall>j\<in>set [0..<7]. (j * 16 + 8) mod 128 + 8 < (128 :: nat) \<and> (j * 48 + 32) mod 128 + 16 < (128 :: nat)"
  by code_simp

definition row_shape :: "nat \<Rightarrow> nat \<Rightarrow> nat \<Rightarrow> bool" where
  "row_shape r e n \<longleftrightarrow> e = 0 \<or> (n \<le> 8 \<and> ((r = 8 \<and> e = 8) \<or> (r = 32 \<and> e = 16)))"

lemma row_end_unwrapped:
  assumes "row_shape r e n" "Suc j < n"
  shows "(128 * t + j * (r + e) + r) mod 0x20000 + e = (128 * t + Suc j * (r + e)) mod 0x20000"
proof (cases "e = 0")
  case False
  then have j: "j < 7" and re: "(r = 8 \<and> e = 8) \<or> (r = 32 \<and> e = 16)" using assms by (auto simp: row_shape_def)
  have "(128 * t + (j * (r + e) + r)) mod 128 = (j * (r + e) + r) mod 128" by simp
  moreover have "(j * (r + e) + r) mod 128 + e < 128" using few_rows j re by auto
  ultimately show ?thesis using add_within_block [of "128 * t + (j * (r + e) + r)" e] by (simp add: algebra_simps)
qed (simp add: algebra_simps)

abbreviation drawn_row where
  "drawn_row f st h e' xs y s \<equiv> map_option (\<lambda>(g, p). (g, if h then p + e' else p)) (mfold (\<lambda>x s. Some (step_pixel f st y x s)) xs s)"

lemma rows_drawn:
  assumes "row_shape (length xs * unat st) (if h then unat e' else 0) n" "st < 64" "e' < 64"
  shows "unat p = (128 * t + j * (length xs * unat st + (if h then unat e' else 0))) mod 0x20000 \<Longrightarrow> j + length ys \<le> n \<Longrightarrow>
    \<exists>p'. mfold (drawn_row f st h e' xs) ys (g, p) =
      Some (fold (\<lambda>(j, y). fold (\<lambda>(i, x). f y x
          ((128 * t + j * (length xs * unat st + (if h then unat e' else 0)) + i * unat st) mod 0x20000)) (enumerate 0 xs))
        (enumerate j ys) g, p')"
proof (induction ys arbitrary: g p j)
  case (Cons y ys)
  let ?e = "if h then unat e' else 0"
  let ?k = "128 * t + j * (length xs * unat st + ?e)"
  obtain q where q: "mfold (\<lambda>x s. Some (step_pixel f st y x s)) xs (g, p) =
        Some (fold (\<lambda>(i, x). f y x ((?k + i * unat st) mod 0x20000)) (enumerate 0 xs) g, q)"
      and uq: "unat q = (?k + length xs * unat st) mod 0x20000"
    using row_columns [OF Cons.prems(1) assms(2), of f y xs g] by blast
  let ?q = "if h then q + e' else q"
  have bound: "unat q < 0x20000" unfolding uq by simp
  have uq': "unat ?q = unat q + ?e"
    using bound assms(3) by (auto simp: unat_word_ariths word_less_nat_alt)
  show ?case
  proof (cases ys)
    case Nil
    then show ?thesis using q by simp
  next
    case (Cons y' ys')
    then have "Suc j < n" using Cons.prems(2) by simp
    have "unat ?q = (128 * t + Suc j * (length xs * unat st + ?e)) mod 0x20000"
      unfolding uq' uq by (rule row_end_unwrapped [OF assms(1) \<open>Suc j < n\<close>])
    from Cons.IH [OF this] Cons.prems(2) q show ?thesis by auto
  qed
qed simp

definition screen_span :: "u16 \<Rightarrow> bool \<Rightarrow> nat \<Rightarrow> u16 list" where
  "screen_span origin flip n = map (\<lambda>i. (origin + of_nat (if flip then n - 1 - i else i)) AND 0x1ff) [0..<n]"

definition pair_span :: "u16 \<Rightarrow> bool \<Rightarrow> bool \<Rightarrow> u16 list" where
  "pair_span origin flip half =
     map (\<lambda>i. (origin + (if half then (if flip then 6 - of_nat i else of_nat i + 1) else of_nat (if flip then 14 - 2 * i else 2 * i + 1)))
        AND 0x1ff) [0..<8]"

definition sprite16_spot :: "brush \<Rightarrow> u16 \<Rightarrow> u16 \<Rightarrow> nat \<Rightarrow> (nat \<Rightarrow> u8) \<Rightarrow> nat \<Rightarrow> u8" where
  "sprite16_spot b y x a g = spot b x y (pixel_offset b x y) (txt_word b a < 0x8000) (txt_word b a) g"

definition sprite4_spots :: "brush \<Rightarrow> u32 \<Rightarrow> u16 \<Rightarrow> u16 \<Rightarrow> nat \<Rightarrow> (nat \<Rightarrow> u8) \<Rightarrow> nat \<Rightarrow> u8" where
  "sprite4_spots b coffset y x a g =
     (let left = drop_bit 4 (b_txt b a AND 0xf0); right = b_txt b a AND 0x0f;
          at = pixel_offset b x y; pitch = (if b_rotation b then b_linesize b else 2);
          g1 = spot b x y at (left \<noteq> 0) (palette_colour b coffset left) g
      in if b_xhalfsize b then g1
         else spot b x y (if b_xflip b then at + pitch else at - pitch) (right \<noteq> 0) (palette_colour b coffset right) g1)"

lemma sprite16_step: "sprite16_pixel b y x = step_pixel (sprite16_spot b) (if b_xhalfsize b then 4 else 2) y x"
  by (rule ext) (simp add: sprite16_pixel_def step_pixel_def sprite16_spot_def Let_def split: prod.splits)

lemma sprite4_step: "sprite4_pixel b c y x = step_pixel (sprite4_spots b c) 1 y x"
  by (rule ext) (simp add: sprite4_pixel_def step_pixel_def sprite4_spots_def Let_def split: prod.splits)

lemma down_word: "i \<le> n \<Longrightarrow> (of_nat (n - i) :: u16) = of_nat n - of_nat i"
  by (rule of_nat_diff)

lemma span_positions:
  "positions s 1 n = screen_span s False n"
  "positions (s + 7) (- 1) 8 = screen_span s True 8"
  "positions (s + 15) (- 1) 16 = screen_span s True 16"
  by (simp_all add: positions_def screen_span_def down_word algebra_simps)

lemma pair_positions:
  "positions (s + 1) 1 8 = pair_span s False True" "positions (s + 6) (- 1) 8 = pair_span s True True"
  "positions (s + 1) 2 8 = pair_span s False False" "positions (s + 14) (- 2) 8 = pair_span s True False"
  by (simp_all add: positions_def pair_span_def down_word algebra_simps)

lemma walk_x16: "walk (x_axis_16 sp) body s = mfold body (screen_span (s_x sp) (s_xflip sp) (if s_xhalfsize sp then 8 else 16)) s"
  by (subst walk_positions [OF sprite_axes(2)]) (simp add: x_axis_16_def span_positions)

lemma walk_y: "walk (y_axis sp) body s = mfold body (screen_span (s_y sp) (s_yflip sp) (if s_yhalfsize sp then 8 else 16)) s"
  by (subst walk_positions [OF sprite_axes(3)]) (simp add: y_axis_def span_positions)

lemma walk_x4: "walk (x_axis_4 sp) body s = mfold body (pair_span (s_x sp) (s_xflip sp) (s_xhalfsize sp)) s"
  by (subst walk_positions [OF sprite_axes(1)]) (simp add: x_axis_4_def pair_positions)

lemma span_lengths: "length (screen_span s f n) = n" "length (pair_span s f h) = 8"
  by (simp_all add: screen_span_def pair_span_def)

lemma pattern_pointer: "t < 1024 \<Longrightarrow> unat ((of_nat (128 * t) :: u32) AND 0x1ffff) = 128 * t"
  by (simp only: and_1ffff unat_of_nat) simp

text \<open>
  C20: for every pattern number, a 16-bit sprite is drawn exactly as the reference drawing with the rows of
  the screen taken upwards or downwards, whatever the wrap of the screen positions at 512 and of the
  pattern memory at 128K: 16 rows of 32 bytes at full height; at half height 8 rows that are 48 bytes
  apart, so that they start in the middle of a pattern row every second time.
\<close>

theorem sprite16_reference:
  "t < 1024 \<Longrightarrow> render_sprite_16 m (of_nat (128 * t)) sp0 g =
     (let sp = rotate_axes sp0; b = brush_of m sp in
      Some (pattern_draw (sprite16_spot b) (128 * t) (if s_yhalfsize sp then 48 else 32) (if s_xhalfsize sp then 4 else 2)
        (screen_span (s_y sp) (s_yflip sp) (if s_yhalfsize sp then 8 else 16))
        (screen_span (s_x sp) (s_xflip sp) (if s_xhalfsize sp then 8 else 16)) g))"
proof -
  assume t: "t < 1024"
  define sp where "sp = rotate_axes sp0"
  define b where "b = brush_of m sp"
  let ?xs = "screen_span (s_x sp) (s_xflip sp) (if s_xhalfsize sp then 8 else 16)"
  let ?ys = "screen_span (s_y sp) (s_yflip sp) (if s_yhalfsize sp then 8 else 16)"
  let ?st = "(if s_xhalfsize sp then 4 else 2) :: u32"
  have h: "b_xhalfsize b = s_xhalfsize sp" by (simp add: b_def brush_of_def)
  have shape: "row_shape (length ?xs * unat ?st) (if s_yhalfsize sp then unat (16 :: u32) else 0) (length ?ys)"
    by (simp add: row_shape_def span_lengths)
  have p0: "unat ((of_nat (128 * t) :: u32) AND 0x1ffff) =
      (128 * t + 0 * (length ?xs * unat ?st + (if s_yhalfsize sp then unat (16 :: u32) else 0))) mod 0x20000"
    using t by (simp only: pattern_pointer [OF t]) simp
  have stride: "length ?xs * unat ?st + (if s_yhalfsize sp then unat (16 :: u32) else 0) = (if s_yhalfsize sp then 48 else 32)"
    by (simp add: span_lengths)
  have st: "?st < 64" and le: "0 + length ?ys \<le> length ?ys" by simp_all
  obtain q where "mfold (drawn_row (sprite16_spot b) ?st (s_yhalfsize sp) 16 ?xs) ?ys (g, of_nat (128 * t) AND 0x1ffff) =
      Some (pattern_draw (sprite16_spot b) (128 * t) (if s_yhalfsize sp then 48 else 32) (unat ?st) ?ys ?xs g, q)"
    using rows_drawn [OF shape st _ p0 le, where f = "sprite16_spot b" and g = g] unfolding pattern_draw_def stride by auto
  then show ?thesis
    unfolding render_sprite_16_def Let_def sp_def [symmetric] b_def [symmetric] walk_x16 walk_y sprite16_step h
    by (simp add: if_distrib [of unat])
qed

definition sample_sprite :: sprite where
  "sample_sprite = \<lparr>s_x = 508, s_y = 20, s_xflip = True, s_yflip = False, s_xhalfsize = False, s_yhalfsize = True, s_rotation = False\<rparr>"

theorem sprite16_reference_witness:
  "render_sprite_16 sample_tmem 0x1ff80 sample_sprite (\<lambda>_. 0) =
     Some (pattern_draw (sprite16_spot (brush_of sample_tmem sample_sprite)) 0x1ff80 48 2
       (screen_span 20 False 8) (screen_span 508 True 16) (\<lambda>_. 0))"
  using sprite16_reference [of 1023 sample_tmem sample_sprite "\<lambda>_. 0"]
  by (simp add: rotate_axes_def sample_sprite_def Let_def)

text \<open>
  The same for a sprite of 16 colours: 8 pairs of pixels a row, in rows of 8 bytes, of which the half
  height takes every second one. Each pair is drawn from its right pixel to its left one, except that at
  half width only the left pixel is drawn, at the positions 1 to 8 of the sprite, or 6 down to -1 when it
  is flipped.
\<close>

lemma sprite4_reference:
  "t < 1024 \<Longrightarrow> render_sprite_4 m (of_nat (128 * t)) coffset sp0 g =
     (let sp = rotate_axes sp0; b = brush_of m sp in
      Some (pattern_draw (sprite4_spots b coffset) (128 * t) (if s_yhalfsize sp then 16 else 8) 1
        (screen_span (s_y sp) (s_yflip sp) (if s_yhalfsize sp then 8 else 16))
        (pair_span (s_x sp) (s_xflip sp) (s_xhalfsize sp)) g))"
proof -
  assume t: "t < 1024"
  define sp where "sp = rotate_axes sp0"
  define b where "b = brush_of m sp"
  let ?xs = "pair_span (s_x sp) (s_xflip sp) (s_xhalfsize sp)"
  let ?ys = "screen_span (s_y sp) (s_yflip sp) (if s_yhalfsize sp then 8 else 16)"
  have shape: "row_shape (length ?xs * unat (1 :: u32)) (if s_yhalfsize sp then unat (8 :: u32) else 0) (length ?ys)"
    by (simp add: row_shape_def span_lengths)
  have p0: "unat ((of_nat (128 * t) :: u32) AND 0x1ffff) =
      (128 * t + 0 * (length ?xs * unat (1 :: u32) + (if s_yhalfsize sp then unat (8 :: u32) else 0))) mod 0x20000"
    using t by (simp only: pattern_pointer [OF t]) simp
  have stride: "length ?xs * unat (1 :: u32) + (if s_yhalfsize sp then unat (8 :: u32) else 0) = (if s_yhalfsize sp then 16 else 8)"
    by (simp add: span_lengths)
  have st: "1 < (64 :: u32)" and le: "0 + length ?ys \<le> length ?ys" by simp_all
  obtain q where "mfold (drawn_row (sprite4_spots b coffset) 1 (s_yhalfsize sp) 8 ?xs) ?ys (g, of_nat (128 * t) AND 0x1ffff) =
      Some (pattern_draw (sprite4_spots b coffset) (128 * t) (if s_yhalfsize sp then 16 else 8) (unat (1 :: u32)) ?ys ?xs g, q)"
    using rows_drawn [OF shape st _ p0 le, where f = "sprite4_spots b coffset" and g = g] unfolding pattern_draw_def stride by auto
  then show ?thesis
    unfolding render_sprite_4_def Let_def sp_def [symmetric] b_def [symmetric] walk_x4 walk_y sprite4_step
    by simp
qed

theorem sprite4_reference_witness:
  "render_sprite_4 sample_tmem 0x1ff80 0x400 sample_sprite (\<lambda>_. 0) =
     Some (pattern_draw (sprite4_spots (brush_of sample_tmem sample_sprite) 0x400) 0x1ff80 16 1
       (screen_span 20 False 8) (pair_span 508 True False) (\<lambda>_. 0))"
  using sprite4_reference [of 1023 sample_tmem "0x400" sample_sprite "\<lambda>_. 0"]
  by (simp add: rotate_axes_def sample_sprite_def Let_def)

subsection \<open>The clearing of the page\<close>

text \<open>Where the clearing loop stops: the first multiple of the line size at or past 128K.\<close>

definition clear_end :: "nat \<Rightarrow> nat" where
  "clear_end linesize = (0x1ffff + linesize) div linesize * linesize"

definition first_line_filled :: "nat \<Rightarrow> nat \<Rightarrow> nat \<Rightarrow> (nat \<Rightarrow> u8) \<Rightarrow> nat \<Rightarrow> u8" where
  "first_line_filled vram linesize e g = (\<lambda>a. if vram \<le> a \<and> a < vram + e then g (vram + (a - vram) mod linesize) else g a)"

lemma copy_line_filled:
  assumes "0 < L" "0 < k"
  shows "copy_line v (k * L) L (first_line_filled v L (k * L) g) = first_line_filled v L (Suc k * L) g"
proof
  fix a
  show "copy_line v (k * L) L (first_line_filled v L (k * L) g) a = first_line_filled v L (Suc k * L) g a"
  proof (cases "v + k * L \<le> a \<and> a < v + k * L + L")
    case True
    then obtain d where a: "a = v + k * L + d" and d: "d < L" by (metis le_iff_add nat_add_left_cancel_less)
    have "L \<le> k * L" using assms(2) by simp
    then show ?thesis using d by (simp add: copy_line_def first_line_filled_def a)
  next
    case False
    then show ?thesis by (auto simp: copy_line_def first_line_filled_def)
  qed
qed

lemma clear_end_stop: "0 < L \<Longrightarrow> 0x20000 \<le> k * L \<Longrightarrow> (k - 1) * L < 0x20000 \<Longrightarrow> 0 < k \<Longrightarrow> k * L = clear_end L"
proof -
  assume L: "0 < L" and k: "0x20000 \<le> k * L" "(k - 1) * L < 0x20000" "0 < k"
  obtain j where j: "k = Suc j" using k(3) gr0_conv_Suc by blast
  have "(0x1ffff + L) div L = k"
    by (rule div_nat_eqI) (use k j in \<open>auto simp: algebra_simps\<close>)
  then show ?thesis by (simp add: clear_end_def)
qed

lemma clear_page_from:
  "0 < L \<Longrightarrow> 0 < k \<Longrightarrow> (k - 1) * L < 0x20000 \<Longrightarrow>
     clear_page v L (k * L) (first_line_filled v L (k * L) g) = Some (first_line_filled v L (clear_end L) g)"
proof (induction "0x20000 - k * L" arbitrary: k rule: less_induct)
  case less
  show ?case
  proof (cases "k * L < 0x20000")
    case True
    have "clear_page v L (k * L) (first_line_filled v L (k * L) g) =
        clear_page v L (Suc k * L) (first_line_filled v L (Suc k * L) g)"
      using True by (subst clear_page.simps) (simp add: copy_line_filled less.prems add.commute)
    also have "\<dots> = Some (first_line_filled v L (clear_end L) g)"
      using True less.prems by (intro less.hyps) auto
    finally show ?thesis .
  next
    case False
    then have "k * L = clear_end L" using clear_end_stop less.prems by simp
    then show ?thesis using False by (subst clear_page.simps) simp
  qed
qed

lemma clear_page_stuck: "clear_page v L i g = Some r \<Longrightarrow> L = 0 \<longrightarrow> \<not> i < 0x20000"
  by (erule clear_page.raw_induct [where P = "\<lambda>v L i g r. L = 0 \<longrightarrow> \<not> i < 0x20000", rotated])
    (fastforce split: if_splits)

lemma clear_page_result:
  "clear_page v L L g = (if L = 0 then None else Some (first_line_filled v L (clear_end L) g))"
proof (cases "L = 0")
  case True
  then show ?thesis using clear_page_stuck [of v L 0 g] by (cases "clear_page v L L g") auto
next
  case False
  have "first_line_filled v L (1 * L) g = g"
    by (intro ext) (simp add: first_line_filled_def less_diff_conv2 add.commute [of L v])
  then show ?thesis using clear_page_from [of L 1 v g] False by simp
qed

subsection \<open>Drawing all the sprites\<close>

lemma row_page:
  assumes "\<And>y x s. only_page v (fst s) (fst (pix y x s))" "only_page v g0 g"
  shows "\<exists>r. map_option fst (mfold (\<lambda>y s. map_option (\<lambda>(g, p). (g, q p)) (mfold (\<lambda>x s. Some (pix y x s)) xs s)) ys (g, p)) = Some r
     \<and> only_page v g0 r"
proof -
  have row: "\<exists>s'. mfold (\<lambda>x s. Some (pix y x s)) xs s = Some s' \<and> only_page v g0 (fst s')" if "only_page v g0 (fst s)" for y s
    using that assms(1) by (intro mfold_invariant) (auto intro: only_page_trans)
  have "\<exists>s'. mfold (\<lambda>y s. map_option (\<lambda>(g, p). (g, q p)) (mfold (\<lambda>x s. Some (pix y x s)) xs s)) ys (g, p) = Some s'
      \<and> only_page v g0 (fst s')"
    by (rule mfold_invariant) (use row assms(2) in \<open>fastforce+\<close>)
  then show ?thesis by auto
qed

lemma render_page_4: "only_page (t_video m) g0 g \<Longrightarrow> \<exists>r. render_sprite_4 m p c sp g = Some r \<and> only_page (t_video m) g0 r"
  unfolding render_sprite_4_def Let_def walk_positions [OF sprite_axes(1)] walk_positions [OF sprite_axes(3)]
  by (rule row_page) (auto simp: sprite4_pixel_page [OF brush_of_page] split: prod.splits)

lemma render_page_16: "only_page (t_video m) g0 g \<Longrightarrow> \<exists>r. render_sprite_16 m p sp g = Some r \<and> only_page (t_video m) g0 r"
  unfolding render_sprite_16_def Let_def walk_positions [OF sprite_axes(2)] walk_positions [OF sprite_axes(3)]
  by (rule row_page) (auto simp: sprite16_pixel_page [OF brush_of_page] split: prod.splits)

lemma draw_sprite_page: "only_page (t_video m) g0 g \<Longrightarrow> \<exists>r. draw_sprite m n g = Some r \<and> only_page (t_video m) g0 r"
  unfolding draw_sprite_def Let_def by (auto intro: render_page_4 render_page_16)

lemma draw_list_page: "only_page (t_video m) g0 g \<Longrightarrow> \<exists>r. draw_list m ns g = Some r \<and> only_page (t_video m) g0 r"
proof (induction ns arbitrary: g)
  case (Cons n ns)
  obtain r where "draw_sprite m n g = Some r" "only_page (t_video m) g0 r" using draw_sprite_page [OF Cons.prems] by blast
  then show ?case using Cons.IH by simp
qed simp

lemma clear_end_covers: "0 < L \<Longrightarrow> 0x20000 \<le> clear_end L"
  using div_mult_mod_eq [of "0x1ffff + L" L] mod_less_divisor [of L "0x1ffff + L"] unfolding clear_end_def by linarith

text \<open>
  C21: drawing ends for every table of sprites as long as the line size register is not 0, and never ends
  when it is 0. It changes nothing but the sprite page and the flag that says the engine is busy: not
  the pattern memory, no register, and of the video memory only the page from its start up to the first
  multiple of the line size at or past 128K, which is the end of the page exactly for the line sizes
  that divide it.
\<close>

theorem draw_sprites_confined:
  "if v_crtc_reg (t_video m) 24 = 0 then draw_sprites m = None
   else \<exists>g'. draw_sprites m = Some (m\<lparr>t_gfxvram := g', t_video := (t_video m)\<lparr>v_sprite_flag := False\<rparr>\<rparr>) \<and>
     {a. g' a \<noteq> t_gfxvram m a} \<subseteq>
       {page_start (t_video m) ..< page_start (t_video m) + clear_end (line_bytes (t_video m))}"
proof (cases "v_crtc_reg (t_video m) 24 = 0")
  case True
  then show ?thesis by (simp add: draw_sprites_def line_bytes_def clear_page_result)
next
  case False
  let ?v = "t_video m"
  let ?L = "line_bytes ?v"
  have L: "0 < ?L" using False by (simp add: line_bytes_def unat_gt_0)
  let ?g = "first_line_filled (page_start ?v) ?L (clear_end ?L) (t_gfxvram m)"
  obtain r where r: "draw_list m [unat (sprite_reg_word ?v 0 AND 0x3ff)..<1024] ?g = Some r" "only_page ?v ?g r"
    using draw_list_page [OF only_page_refl] by blast
  have "{a. r a \<noteq> t_gfxvram m a} \<subseteq> {page_start ?v ..< page_start ?v + clear_end ?L}"
  proof
    fix a assume "a \<in> {a. r a \<noteq> t_gfxvram m a}"
    then show "a \<in> {page_start ?v ..< page_start ?v + clear_end ?L}"
      using r(2) [unfolded only_page_def, rule_format, of a] clear_end_covers [OF L]
      by (cases "a < page_start ?v"; cases "page_start ?v + clear_end ?L \<le> a") (auto simp: first_line_filled_def)
  qed
  moreover have "draw_sprites m = Some (m\<lparr>t_gfxvram := r, t_video := ?v\<lparr>v_sprite_flag := False\<rparr>\<rparr>)"
    using L r(1) by (simp add: draw_sprites_def clear_page_result Let_def)
  ultimately show ?thesis using False by auto
qed

end
