(* ===== verification/Towns_Irq.thy ===== *)
theory Towns_Irq
  imports Pic8259
begin

text \<open>
  The two interrupt controllers as \<open>src/mame/fujitsu/fmtowns.cpp\<close> wires them: the INT output of the slave
  drives input 7 of the master, the INT output of the master the processor, and the processor's
  acknowledge cycle goes to the master, which asks the slave through \<open>get_slave_ack\<close>.
\<close>

subsection \<open>The wiring\<close>

record chain =
  i_master :: pic
  i_slave :: pic

definition chain_start :: chain where
  "chain_start = \<lparr>i_master = pic_reset True, i_slave = pic_reset False\<rparr>"

text \<open>The slave's output callback: each call of \<open>m_out_int_func\<close> drives the master's input.\<close>

definition slave_int :: "bool \<Rightarrow> chain \<Rightarrow> chain" where
  "slave_int st c = c\<lparr>i_master := set_irq_line 7 st (i_master c)\<rparr>"

definition slave_tick :: "chain \<Rightarrow> chain" where
  "slave_tick c = (let s = irq_timer_tick (i_slave c) in slave_int (p_int s) (c\<lparr>i_slave := s\<rparr>))"

definition master_tick :: "chain \<Rightarrow> chain" where
  "master_tick c = c\<lparr>i_master := irq_timer_tick (i_master c)\<rparr>"

definition slave_line :: "nat \<Rightarrow> bool \<Rightarrow> chain \<Rightarrow> chain" where
  "slave_line i st c = c\<lparr>i_slave := set_irq_line i st (i_slave c)\<rparr>"

definition master_line :: "nat \<Rightarrow> bool \<Rightarrow> chain \<Rightarrow> chain" where
  "master_line i st c = c\<lparr>i_master := set_irq_line i st (i_master c)\<rparr>"

text \<open>Only the first initialisation word calls the output callback.\<close>

definition slave_write :: "nat \<Rightarrow> u8 \<Rightarrow> chain \<Rightarrow> chain" where
  "slave_write a d c =
     (let c1 = c\<lparr>i_slave := pic_write a d (i_slave c)\<rparr>
      in if a = 0 \<and> tst d 0x10 then slave_int False c1 else c1)"

definition master_write :: "nat \<Rightarrow> u8 \<Rightarrow> chain \<Rightarrow> chain" where
  "master_write a d c = c\<lparr>i_master := pic_write a d (i_master c)\<rparr>"

definition slave_read :: "nat \<Rightarrow> chain \<Rightarrow> u8 \<times> chain" where
  "slave_read a c = (case pic_read a (i_slave c) of (v, s) \<Rightarrow> (v, c\<lparr>i_slave := s\<rparr>))"

definition master_read :: "nat \<Rightarrow> chain \<Rightarrow> u8 \<times> chain" where
  "master_read a c = (case pic_read a (i_master c) of (v, p) \<Rightarrow> (v, c\<lparr>i_master := p\<rparr>))"

text \<open>The slave has no slaves of its own: its callback is never set and reads as 0.\<close>

definition get_slave_ack :: "nat \<Rightarrow> pic \<Rightarrow> u8 \<times> pic" where
  "get_slave_ack offset s =
     (if offset = 7 then case acknowledge (\<lambda>_ u. (0, u)) s () of (v, s', _) \<Rightarrow> (v, s') else (0x00, s))"

definition inta :: "chain \<Rightarrow> u8 \<times> chain" where
  "inta c = (case acknowledge get_slave_ack (i_master c) (i_slave c) of
     (v, p, s) \<Rightarrow> (v, \<lparr>i_master = p, i_slave = s\<rparr>))"

subsection \<open>The cascade line\<close>

text \<open>Everything the processor, the devices and the zero-length timers can do to the pair.\<close>

inductive chain_step :: "chain \<Rightarrow> chain \<Rightarrow> bool" where
  step_slave_tick: "chain_step c (slave_tick c)"
| step_master_tick: "chain_step c (master_tick c)"
| step_slave_line: "chain_step c (slave_line i st c)"
| step_master_line: "i < 7 \<Longrightarrow> chain_step c (master_line i st c)"
| step_slave_write: "chain_step c (slave_write a d c)"
| step_master_write: "chain_step c (master_write a d c)"
| step_slave_read: "slave_read a c = (v, c') \<Longrightarrow> chain_step c c'"
| step_master_read: "master_read a c = (v, c') \<Longrightarrow> chain_step c c'"
| step_inta: "inta c = (v, c') \<Longrightarrow> chain_step c c'"

definition chain_ok :: "chain \<Rightarrow> bool" where
  "chain_ok c \<longleftrightarrow> pic_wf (i_master c) \<and> pic_wf (i_slave c) \<and> irq_level 7 (i_master c) = p_int (i_slave c)"

lemma pic_frames:
  "p_irq_lines (set_isr l p) = p_irq_lines p" "p_irq_lines (ack_irr l p) = p_irq_lines p"
  "p_int (set_isr l p) = p_int p" "p_int (ack_irr l p) = p_int p"
  by (simp_all add: set_isr_def ack_irr_def)

lemma read_frame: "pic_read a p = (v, q) \<Longrightarrow> p_irq_lines q = p_irq_lines p \<and> p_int q = p_int p"
  by (auto simp: pic_read_def pic_frames Let_def split: if_splits)

lemma ack_frame: "acknowledge sa p s = (v, q, s') \<Longrightarrow> p_irq_lines q = p_irq_lines p \<and> p_int q = p_int p"
  by (auto simp: acknowledge_def acknowledge_x86_def acknowledge_8080_def pic_frames Let_def
      split: if_splits prod.splits)

lemma ocw2_frame: "p_irq_lines (write_ocw2 d p) = p_irq_lines p" "p_int (write_ocw2 d p) = p_int p"
  by (auto simp: write_ocw2_def Let_def split: option.splits)

lemma write_frame:
  "p_irq_lines (pic_write a d p) = p_irq_lines p"
  "p_int (pic_write a d p) = (p_int p \<and> \<not> (a = 0 \<and> tst d 0x10))"
  by (simp_all add: pic_write_def write_command_def write_icw1_def write_data_def ocw2_frame Let_def split: pic_mode.split)

lemma lines_7: "i < 7 \<Longrightarrow> irq_level 7 (set_irq_line i st p) = irq_level 7 p" "irq_level 7 (set_irq_line 7 st p) = st"
  by (simp_all add: lines_set_irq_line)

lemma slave_ack_ok: "get_slave_ack l s = (v, s') \<Longrightarrow> pic_wf s \<Longrightarrow> pic_wf s' \<and> p_int s' = p_int s"
  using ack_frame [of _ s "()"] pic_wf_ack [of s _ "()"]
  by (auto simp: get_slave_ack_def split: if_splits prod.splits)

lemma ack_slave_state:
  "acknowledge get_slave_ack p s = (v, q, s') \<Longrightarrow> s' = s \<or> (\<exists>l w. get_slave_ack l s = (w, s'))"
  by (auto simp: acknowledge_def acknowledge_x86_def acknowledge_8080_def Let_def split: if_splits prod.splits)

lemma inta_ok: "inta c = (v, c') \<Longrightarrow> chain_ok c \<Longrightarrow> chain_ok c'"
proof -
  assume "inta c = (v, c')" and ok: "chain_ok c"
  then have a: "acknowledge get_slave_ack (i_master c) (i_slave c) = (v, i_master c', i_slave c')"
    by (auto simp: inta_def split: prod.splits)
  have "pic_wf (i_slave c') \<and> p_int (i_slave c') = p_int (i_slave c)"
    using ack_slave_state [OF a] slave_ack_ok ok by (auto simp: chain_ok_def)
  then show ?thesis using ack_frame [OF a] pic_wf_ack [OF _ a] ok by (simp add: chain_ok_def)
qed

lemma chain_step_ok: "chain_step c c' \<Longrightarrow> chain_ok c \<Longrightarrow> chain_ok c'"
proof (induction rule: chain_step.induct)
  case (step_slave_read a c v c')
  then show ?case using read_frame [of a "i_slave c"] pic_wf_read [of "i_slave c" a]
    by (auto simp: slave_read_def chain_ok_def split: prod.splits)
next
  case (step_master_read a c v c')
  then show ?case using read_frame [of a "i_master c"] pic_wf_read [of "i_master c" a]
    by (auto simp: master_read_def chain_ok_def split: prod.splits)
next
  case (step_inta c v c')
  then show ?case by (rule inta_ok)
next
  case (step_slave_write c a d)
  then show ?case
    by (auto simp: slave_write_def slave_int_def chain_ok_def Let_def write_frame lines_set_irq_line intro: pic_wf_intros)
qed (auto simp: chain_ok_def slave_tick_def slave_int_def master_tick_def slave_line_def master_line_def master_write_def
    Let_def lines_set_irq_line write_frame intro: pic_wf_intros)

text \<open>
  C2: in every state the pair can reach, input 7 of the master has the level of the slave's INT output,
  and both controllers are well formed. The driver reaches the master's input through the slave only.
\<close>

theorem cascade_line_mirrors_int:
  assumes "chain_step\<^sup>*\<^sup>* chain_start c"
  shows "irq_level 7 (i_master c) = p_int (i_slave c) \<and> pic_wf (i_master c) \<and> pic_wf (i_slave c)"
proof -
  have "chain_ok chain_start" by (simp add: chain_ok_def chain_start_def pic_wf_reset) (simp add: pic_reset_def)
  with assms have "chain_ok c" by (induction rule: rtranclp_induct) (auto intro: chain_step_ok)
  then show ?thesis by (simp add: chain_ok_def)
qed

lemma cascade_line_mirrors_int_witness:
  "irq_level 7 (i_master (slave_tick (slave_line 3 True chain_start))) =
     p_int (i_slave (slave_tick (slave_line 3 True chain_start)))"
proof -
  have "chain_step chain_start (slave_line 3 True chain_start)" by (rule step_slave_line)
  moreover have "chain_step (slave_line 3 True chain_start) (slave_tick (slave_line 3 True chain_start))"
    by (rule step_slave_tick)
  ultimately have "chain_step\<^sup>*\<^sup>* chain_start (slave_tick (slave_line 3 True chain_start))"
    by (meson rtranclp.rtrancl_refl rtranclp.rtrancl_into_rtrancl)
  from cascade_line_mirrors_int [OF this] show ?thesis by simp
qed

subsection \<open>Serving every request\<close>

text \<open>A controller between two interrupts in the mode the Towns programs.\<close>

definition idle :: "pic \<Rightarrow> bool" where
  "idle p \<longleftrightarrow> pic_wf p \<and> x86_edge p \<and> p_state p = READY \<and> p_isr p = 0"

definition requests :: "pic \<Rightarrow> nat list" where
  "requests p = filter (requested p) (prio_order p)"

lemma find_filter: "find P xs = (case filter P xs of [] \<Rightarrow> None | x # _ \<Rightarrow> Some x)"
  by (induction xs) auto

lemma idle_resolve:
  assumes "idle p"
  shows "resolve p = (case requests p of [] \<Rightarrow> -1 | i # _ \<Rightarrow> int i)"
proof -
  have n: "\<not> in_service p i" for i using assms by (simp add: idle_def in_service_def)
  then have f: "find (\<lambda>i. in_service p i \<or> requested p i) (prio_order p) =
      (case requests p of [] \<Rightarrow> None | x # _ \<Rightarrow> Some x)"
    by (simp add: find_filter requests_def)
  show ?thesis
  proof (cases "requests p")
    case (Cons i ks)
    then have "requested p i" unfolding requests_def filter_eq_Cons_iff by blast
    then show ?thesis unfolding resolve_def f Cons by (simp add: n)
  next
    case Nil
    show ?thesis unfolding resolve_def f Nil by simp
  qed
qed

lemma distinct_prio_order: "unat (p_prio p) < 8 \<Longrightarrow> distinct (prio_order p)"
  unfolding prio_order_def distinct_map
  by (auto intro!: inj_on_inverseI [where g = "\<lambda>i. (i + 8 - unat (p_prio p)) mod 8"] simp: rank_rotate)

lemma requests_below: "i \<in> set (requests p) \<Longrightarrow> i < 8"
  by (auto simp: requests_def prio_order_def)

text \<open>Acknowledge and end-of-interrupt of the first request: on the controller's own input, and on the cascade input.\<close>

definition same_setup :: "pic \<Rightarrow> pic \<Rightarrow> bool" where
  "same_setup p q \<longleftrightarrow> p_base q = p_base p \<and> p_slave q = p_slave p \<and> p_master q = p_master p \<and> p_cascade q = p_cascade p
     \<and> p_imr q = p_imr p \<and> p_prio q = p_prio p \<and> p_irq_lines q = p_irq_lines p"

lemma serve_request:
  assumes p: "idle p" "requests p = i # ks"
    and q: "q = p\<lparr>p_irr := irr, p_isr := irq_mask i, p_irq_timer := b, p_current_level := l, p_int := n\<rparr>"
      "\<forall>j. bit irr j \<longrightarrow> bit (p_irr p) j" "-1 \<le> l" "l \<le> 7"
  shows "pic_write 0 0x20 q = q\<lparr>p_isr := 0, p_irq_timer := True\<rparr>" "idle (pic_write 0 0x20 q)"
    "same_setup p (pic_write 0 0x20 q)"
proof -
  have i: "i < 8" using requests_below [of i p] p(2) by simp
  have prio: "unat (p_prio p) < 8" using p(1) by (simp add: idle_def pic_wf_def)
  have e: "pic_write 0 0x20 q = q\<lparr>p_isr := p_isr q AND NOT (irq_mask i), p_irq_timer := True\<rparr>"
    by (rule write_nonspecific_eoi)
      (use prio i p(1) in \<open>auto simp: q(1) in_service_def before_def idle_def bit_irq_mask\<close>)
  then show eq: "pic_write 0 0x20 q = q\<lparr>p_isr := 0, p_irq_timer := True\<rparr>" by (simp add: q(1))
  show "idle (pic_write 0 0x20 q)" unfolding eq using p(1) q(2-4)
    by (auto simp: q(1) idle_def pic_wf_def x86_edge_def)
  show "same_setup p (pic_write 0 0x20 q)" unfolding eq by (simp add: q(1) same_setup_def)
qed

lemma requests_after:
  assumes "idle p" "requests p = i # ks" "same_setup p q" "p_state q = READY" "p_irr q = p_irr p AND NOT (irq_mask i)"
  shows "requests q = ks"
proof -
  have prio: "unat (p_prio p) < 8" using assms(1) by (simp add: idle_def pic_wf_def)
  have o: "prio_order q = prio_order p" using assms(3) by (simp add: prio_order_def same_setup_def)
  have r: "requested q = (\<lambda>j. requested p j \<and> j \<noteq> i)"
    using assms(1,3,4,5) by (auto simp: requested_def same_setup_def idle_def)
  have "requests q = filter (\<lambda>j. j \<noteq> i) (requests p)"
    unfolding requests_def o r filter_filter ..
  moreover have "distinct (requests p)" using distinct_prio_order [OF prio] by (simp add: requests_def)
  ultimately show ?thesis using assms(2) by (auto simp: filter_id_conv)
qed

lemma requests_unchanged:
  "idle p \<Longrightarrow> same_setup p q \<Longrightarrow> p_state q = READY \<Longrightarrow> p_irr q = p_irr p \<Longrightarrow> requests q = requests p"
proof -
  assume a: "idle p" "same_setup p q" "p_state q = READY" "p_irr q = p_irr p"
  then have o: "prio_order q = prio_order p" and r: "requested q = requested p"
    by (auto simp: prio_order_def requested_def same_setup_def idle_def)
  show ?thesis by (simp add: requests_def o r)
qed

lemma tick_state:
  "pic_wf p \<Longrightarrow> irq_timer_tick p = p\<lparr>p_current_level := resolve p, p_int := resolve p \<noteq> -1, p_irq_timer := False\<rparr>"
  by (simp add: irq_timer_tick_def tick_scan_resolve pic_wf_def Let_def)

lemma serve_own:
  assumes p: "idle p" "requests p = i # ks" "\<not> (p_master p \<and> bit (p_slave p) i)"
  obtains q where "acknowledge sa (irq_timer_tick p) s = (of_nat i + p_base p, q, s)"
    "idle (pic_write 0 0x20 q)" "requests (pic_write 0 0x20 q) = ks" "same_setup p (pic_write 0 0x20 q)" "p_int q"
    "p_irr (pic_write 0 0x20 q) = p_irr p AND NOT (irq_mask i)"
proof -
  have i: "i < 8" using requests_below [of i p] p(2) by simp
  have wf: "pic_wf p" using p(1) by (simp add: idle_def)
  have r: "resolve p = int i" using idle_resolve [OF p(1)] p(2) by simp
  let ?q = "p\<lparr>p_irr := p_irr p AND NOT (irq_mask i), p_isr := irq_mask i, p_irq_timer := True, p_current_level := int i, p_int := True\<rparr>"
  have "acknowledge sa (irq_timer_tick p) s = (of_nat i + p_base p, ?q, s)"
    using p(1,3) unfolding tick_state [OF wf] r
    by (auto simp: acknowledge_def acknowledge_x86_def ack_irr_def set_isr_def idle_def x86_edge_def Let_def and.commute)
  moreover note e = serve_request [OF p(1,2) refl, of "p_irr p AND NOT (irq_mask i)" "int i" True True]
  have b: "\<forall>j. bit (p_irr p AND NOT (irq_mask i)) j \<longrightarrow> bit (p_irr p) j" by simp
  have l: "- 1 \<le> int i" "int i \<le> 7" using i by simp_all
  note e = e [OF b l]
  have "p_irr (pic_write 0 0x20 ?q) = p_irr p AND NOT (irq_mask i)" unfolding e(1) by simp
  moreover have "requests (pic_write 0 0x20 ?q) = ks"
    by (rule requests_after [OF p(1,2) e(3)], unfold e(1)) (use p(1) in \<open>simp_all add: idle_def\<close>)
  ultimately show thesis using that [of ?q] e(2,3) by simp
qed

lemma serve_cascade:
  assumes p: "idle p" "requests p = 7 # ks" "p_master p" "p_cascade p" "bit (p_slave p) 7" and s: "get_slave_ack 7 s = (v, s')"
  obtains q where "acknowledge get_slave_ack (irq_timer_tick p) s = (v, q, s')"
    "idle (pic_write 0 0x20 q)" "requests (pic_write 0 0x20 q) = requests p" "same_setup p (pic_write 0 0x20 q)"
    "p_irr (pic_write 0 0x20 q) = p_irr p"
proof -
  have wf: "pic_wf p" using p(1) by (simp add: idle_def)
  have r: "resolve p = 7" using idle_resolve [OF p(1)] p(2) by simp
  let ?q = "p\<lparr>p_irr := p_irr p, p_isr := irq_mask 7, p_irq_timer := True, p_current_level := 7, p_int := True\<rparr>"
  have "acknowledge get_slave_ack (irq_timer_tick p) s = (v, ?q, s')"
    using p s unfolding tick_state [OF wf] r
    by (simp add: acknowledge_def acknowledge_x86_def ack_irr_def set_isr_def idle_def x86_edge_def Let_def and.commute [of "irq_mask 7"])
  moreover have b: "\<forall>j. bit (p_irr p) j \<longrightarrow> bit (p_irr p) j" and l: "- 1 \<le> (7 :: int)" "7 \<le> (7 :: int)" by simp_all
  note e = serve_request [OF p(1,2) refl b l, of True True]
  have irr: "p_irr (pic_write 0 0x20 ?q) = p_irr p" unfolding e(1) by simp
  have "requests (pic_write 0 0x20 ?q) = requests p"
    by (rule requests_unchanged [OF p(1) e(3) _ irr], unfold e(1)) (use p(1) in \<open>simp add: idle_def\<close>)
  ultimately show thesis using that [of ?q] e(2,3) irr by simp
qed

definition chain_idle :: "chain \<Rightarrow> bool" where
  "chain_idle c \<longleftrightarrow> chain_ok c \<and> idle (i_master c) \<and> idle (i_slave c)
     \<and> p_master (i_master c) \<and> p_cascade (i_master c) \<and> p_slave (i_master c) = 0x80 \<and> \<not> bit (p_imr (i_master c)) 7
     \<and> \<not> p_master (i_slave c) \<and> irq_latched 7 (i_master c) = irq_level 7 (i_master c)
     \<and> p_base (i_master c) \<noteq> p_base (i_slave c)"

text \<open>
  What the processor does about interrupts: once the resolvers have run and INT is high, it fetches
  the vector and ends the interrupt on the slave, when the vector is one of the slave's, and on the master.
\<close>

definition serve :: "chain \<Rightarrow> (u8 \<times> chain) option" where
  "serve c =
     (let c1 = master_tick (slave_tick c)
      in if p_int (i_master c1) then
           case inta c1 of (v, c2) \<Rightarrow>
             Some (v, master_write 0 0x20 (if v AND 0xf8 = p_base (i_slave c2) then slave_write 0 0x20 c2 else c2))
         else None)"

fun drain :: "nat \<Rightarrow> chain \<Rightarrow> u8 list \<times> chain" where
  "drain 0 c = ([], c)"
| "drain (Suc n) c =
     (case serve c of None \<Rightarrow> ([], c) | Some (v, c') \<Rightarrow> case drain n c' of (vs, d) \<Rightarrow> (v # vs, d))"

definition vector :: "pic \<Rightarrow> nat \<Rightarrow> u8" where
  "vector p i = of_nat i + p_base p"

definition vectors_at :: "chain \<Rightarrow> nat \<Rightarrow> u8 list" where
  "vectors_at c i = (if i = 7 then map (vector (i_slave c)) (requests (i_slave c)) else [vector (i_master c) i])"

text \<open>The vectors of all requests: the master's in its order of priority, the slave's in place of input 7.\<close>

definition pending :: "chain \<Rightarrow> u8 list" where
  "pending c = concat (map (vectors_at c) (filter (\<lambda>i. i = 7 \<or> requested (i_master c) i) (prio_order (i_master c))))"

definition master_seen :: "chain \<Rightarrow> pic" where
  "master_seen c = set_irq_line 7 (requests (i_slave c) \<noteq> []) (i_master c)"

lemma ticked: "chain_idle c \<Longrightarrow> master_tick (slave_tick c) =
    \<lparr>i_master = irq_timer_tick (master_seen c), i_slave = irq_timer_tick (i_slave c)\<rparr>"
proof -
  assume "chain_idle c"
  then have s: "idle (i_slave c)" by (simp add: chain_idle_def)
  then have "p_int (irq_timer_tick (i_slave c)) = (requests (i_slave c) \<noteq> [])"
    using idle_resolve [OF s] by (auto simp: tick_int idle_def split: list.split)
  then show ?thesis by (simp add: slave_tick_def slave_int_def master_tick_def master_seen_def Let_def)
qed

lemma line_idle: "idle p \<Longrightarrow> idle (set_irq_line i st p)"
  by (simp add: idle_def pic_wf_line x86_edge_def)

lemma seen_requested:
  assumes "chain_idle c"
  shows "requested (master_seen c) j = (if j = 7 then requests (i_slave c) \<noteq> [] else requested (i_master c) j)"
proof -
  have w: "\<forall>i. bit (p_irr (i_master c)) i \<longrightarrow> bit (p_irq_lines (i_master c)) i"
    using assms by (simp add: chain_idle_def idle_def pic_wf_def)
  show ?thesis using assms
    by (auto simp: requested_def master_seen_def irr_set_irq_line [OF w] chain_idle_def idle_def)
qed

lemma seen_idle: "chain_idle c \<Longrightarrow> idle (master_seen c)"
  by (simp add: master_seen_def line_idle chain_idle_def)

lemma seen_order: "prio_order (master_seen c) = prio_order (i_master c)"
  by (simp add: prio_order_def master_seen_def)

lemma concat_map_filter: "(\<And>x. x \<in> set xs \<Longrightarrow> \<not> P x \<Longrightarrow> f x = []) \<Longrightarrow> concat (map f (filter P xs)) = concat (map f xs)"
  by (induction xs) auto

lemma pending_seen: "chain_idle c \<Longrightarrow> pending c = concat (map (vectors_at c) (requests (master_seen c)))"
proof -
  assume c: "chain_idle c"
  let ?xs = "filter (\<lambda>i. i = 7 \<or> requested (i_master c) i) (prio_order (i_master c))"
  have "requests (master_seen c) = filter (\<lambda>i. i = 7 \<longrightarrow> requests (i_slave c) \<noteq> []) ?xs"
    unfolding requests_def [of "master_seen c"] seen_order filter_filter
    by (rule filter_cong [OF refl]) (auto simp: seen_requested [OF c])
  then show ?thesis unfolding pending_def by (simp only:) (rule concat_map_filter [symmetric], auto simp: vectors_at_def)
qed

lemma vector_base:
  assumes "j < 8" "b AND 7 = (0 :: u8)"
  shows "(of_nat j + b) AND 0xf8 = b"
proof -
  have j: "of_nat j AND 7 = (of_nat j :: u8)" "of_nat j AND 0xf8 = (0 :: u8)"
    using less_8_cases [OF assms(1)] by auto
  have "(7 OR 0xf8 :: u8) = - 1" by code_simp
  then have "b = b AND (7 OR 0xf8)" by (simp only: and.right_neutral)
  then have b: "b AND 0xf8 = b" using assms(2) by (simp only: bit.conj_disj_distrib) simp
  have "of_nat j AND b = (of_nat j AND 7) AND b" by (simp only: j(1))
  also have "\<dots> = of_nat j AND (b AND 7)" by (simp only: and.assoc and.commute [of 7 b])
  finally have "of_nat j AND b = 0" using assms(2) by simp
  then have "of_nat j + b = of_nat j OR b" by (rule disjunctive_add_eq_or)
  then show ?thesis using j(2) b by (simp add: bit.conj_disj_distrib2)
qed

lemma idle_base: "idle p \<Longrightarrow> p_base p AND 7 = 0"
  by (simp add: idle_def pic_wf_def)

lemma vector_of: "idle p \<Longrightarrow> i < 8 \<Longrightarrow> vector p i AND 0xf8 = p_base p"
  by (simp add: vector_def vector_base idle_base)

lemma after_serve:
  assumes c: "chain_idle c" and m: "idle m" "same_setup (master_seen c) m" "irq_latched 7 m = irq_level 7 m"
    and s: "idle s" "same_setup (i_slave c) s" "p_int s = (requests (i_slave c) \<noteq> [])"
  shows "chain_idle \<lparr>i_master = m, i_slave = s\<rparr>"
    "requests (master_seen \<lparr>i_master = m, i_slave = s\<rparr>) =
       filter (\<lambda>i. if i = 7 then requests s \<noteq> [] else requested m i) (prio_order (i_master c))"
    "i \<noteq> 7 \<Longrightarrow> vectors_at \<lparr>i_master = m, i_slave = s\<rparr> i = vectors_at c i"
    "vectors_at \<lparr>i_master = m, i_slave = s\<rparr> 7 = map (vector (i_slave c)) (requests s)"
proof -
  have l: "irq_level 7 m = (requests (i_slave c) \<noteq> [])"
    using m(2) by (simp add: same_setup_def master_seen_def lines_set_irq_line)
  show k: "chain_idle \<lparr>i_master = m, i_slave = s\<rparr>"
    using c m s l by (simp add: chain_idle_def chain_ok_def same_setup_def master_seen_def idle_def)
  have o: "prio_order m = prio_order (i_master c)"
    using m(2) by (simp add: same_setup_def prio_order_def master_seen_def)
  show "requests (master_seen \<lparr>i_master = m, i_slave = s\<rparr>) =
       filter (\<lambda>i. if i = 7 then requests s \<noteq> [] else requested m i) (prio_order (i_master c))"
    unfolding requests_def [of "master_seen _"] seen_order
    by (simp only: chain.select_convs o) (rule filter_cong [OF refl], simp add: seen_requested [OF k])
  show "i \<noteq> 7 \<Longrightarrow> vectors_at \<lparr>i_master = m, i_slave = s\<rparr> i = vectors_at c i"
    using m(2) by (simp add: vectors_at_def vector_def same_setup_def master_seen_def)
  have "vector s = vector (i_slave c)" using s(2) by (simp add: fun_eq_iff vector_def same_setup_def)
  then show "vectors_at \<lparr>i_master = m, i_slave = s\<rparr> 7 = map (vector (i_slave c)) (requests s)"
    by (simp add: vectors_at_def)
qed

lemma requests_as_filter: "idle p \<Longrightarrow> requests p = i # ks \<Longrightarrow> requested p i \<and> i \<notin> set ks"
proof -
  assume "idle p" and r: "requests p = i # ks"
  then have "distinct (requests p)" unfolding requests_def
    by (intro distinct_filter distinct_prio_order) (simp add: idle_def pic_wf_def)
  moreover have "i \<in> set (requests p)" using r by simp
  ultimately show ?thesis using r by (auto simp: requests_def)
qed

lemma chain_write_0x20:
  "slave_write 0 0x20 c = c\<lparr>i_slave := pic_write 0 0x20 (i_slave c)\<rparr>"
  "master_write 0 0x20 c = c\<lparr>i_master := pic_write 0 0x20 (i_master c)\<rparr>"
  by (simp_all add: slave_write_def master_write_def Let_def)

lemma tick_idle: "idle p \<Longrightarrow> idle (irq_timer_tick p) \<and> same_setup p (irq_timer_tick p) \<and> requests (irq_timer_tick p) = requests p
    \<and> p_int (irq_timer_tick p) = (requests p \<noteq> [])"
proof -
  assume p: "idle p"
  then have i: "idle (irq_timer_tick p)" by (simp add: idle_def pic_wf_tick)
  have s: "same_setup p (irq_timer_tick p)" by (simp add: same_setup_def)
  have "requests (irq_timer_tick p) = requests p"
    by (rule requests_unchanged [OF p s]) (use p in \<open>simp_all add: idle_def\<close>)
  moreover have "p_int (irq_timer_tick p) = (requests p \<noteq> [])"
    using p idle_resolve [OF p] by (auto simp: tick_int idle_def split: list.split)
  ultimately show ?thesis using i s by blast
qed

lemma serve_nothing: "chain_idle c \<Longrightarrow> requests (master_seen c) = [] \<Longrightarrow> serve c = None"
  using tick_idle [OF seen_idle] by (simp add: serve_def ticked)

lemma seen_latch: "chain_idle c \<Longrightarrow> irq_latched 7 (master_seen c) = irq_level 7 (master_seen c)"
proof -
  assume c: "chain_idle c"
  then have w: "\<forall>i. bit (p_irr (i_master c)) i \<longrightarrow> bit (p_irq_lines (i_master c)) i"
    by (simp add: chain_idle_def idle_def pic_wf_def)
  show ?thesis using c
    by (simp add: master_seen_def irr_set_irq_line [OF w] lines_set_irq_line chain_idle_def)
qed

lemma bit_80: "bit (0x80 :: u8) i = (i = 7)"
proof -
  have "(0x80 :: u8) = irq_mask 7" by (simp add: irq_mask_def)
  then show ?thesis by (simp only: bit_irq_mask) auto
qed

lemma filter_ks:
  assumes "requests p = i # ks" "idle p" "prio_order p = os"
    "\<And>j. j \<noteq> i \<Longrightarrow> Q j = requested p j"
  shows "filter Q os = (if Q i then i # ks else ks)"
proof -
  have f: "filter (requested p) os = i # ks" using assms(1,3) by (simp add: requests_def)
  have i: "requested p i" "i \<notin> set ks" using requests_as_filter [OF assms(2,1)] by simp_all
  show ?thesis
  proof (cases "Q i")
    case True
    then have "Q = requested p" using assms(4) i(1) by (intro ext) metis
    then show ?thesis using f True by simp
  next
    case False
    then have "Q = (\<lambda>j. requested p j \<and> j \<noteq> i)" using assms(4) by (intro ext) metis
    then have "filter Q os = filter (\<lambda>j. j \<noteq> i) (filter (requested p) os)" by (simp add: filter_filter)
    then show ?thesis using f i(2) False by (auto simp: filter_id_conv)
  qed
qed

lemma requests_of_order: "requests p = filter (requested p) (prio_order p)"
  by (rule requests_def)

lemma serve_master:
  assumes c: "chain_idle c" and r: "requests (master_seen c) = i # ks" "i \<noteq> 7"
  shows "\<exists>c'. serve c = Some (vector (i_master c) i, c') \<and> chain_idle c' \<and>
    pending c' = concat (map (vectors_at c) ks)"
proof -
  let ?m = "master_seen c" and ?s = "irq_timer_tick (i_slave c)"
  have cfg: "p_master (i_master c)" "p_slave (i_master c) = 0x80" and si: "idle (i_slave c)"
    and bases: "p_base (i_master c) \<noteq> p_base (i_slave c)" and mi: "idle (i_master c)" using c by (simp_all add: chain_idle_def)
  have mi': "idle ?m" by (rule seen_idle [OF c])
  have i: "i < 8" using requests_below [of i ?m] r by simp
  have p: "p_slave ?m = 0x80" using cfg by (simp add: master_seen_def)
  have no: "\<not> bit (p_slave ?m) i" unfolding p bit_80 by (rule r(2))
  obtain q where q: "acknowledge get_slave_ack (irq_timer_tick ?m) ?s = (of_nat i + p_base ?m, q, ?s)"
    "idle (pic_write 0 0x20 q)" "requests (pic_write 0 0x20 q) = ks" "same_setup ?m (pic_write 0 0x20 q)" "p_int q"
    "p_irr (pic_write 0 0x20 q) = p_irr ?m AND NOT (irq_mask i)"
    by (rule serve_own [OF mi' r(1)]) (use no in auto)
  let ?c' = "\<lparr>i_master = pic_write 0 0x20 q, i_slave = ?s\<rparr>"
  have v: "of_nat i + p_base ?m = vector (i_master c) i" by (simp add: vector_def master_seen_def)
  have other: "vector (i_master c) i AND 0xf8 \<noteq> p_base ?s" using vector_of [OF mi i] bases by simp
  have high: "p_int (irq_timer_tick ?m)" using tick_idle [OF mi'] r(1) by simp
  have "serve c = Some (vector (i_master c) i, ?c')"
    using q(1) high other by (simp add: serve_def ticked [OF c] inta_def v chain_write_0x20)
  moreover have l: "irq_latched 7 (pic_write 0 0x20 q) = irq_level 7 (pic_write 0 0x20 q)"
    using q(4) r(2) seen_latch [OF c] by (simp add: q(6) same_setup_def)
  have ts: "idle ?s" "same_setup (i_slave c) ?s" "p_int ?s = (requests (i_slave c) \<noteq> [])"
    and same: "requests ?s = requests (i_slave c)" using tick_idle [OF si] by simp_all
  note after = after_serve [OF c q(2,4) l ts]
  note k = after(1)
  have rq: "requested (pic_write 0 0x20 q) j = (j \<noteq> i \<and> requested ?m j)" for j
    using q(4) mi' q(2) by (auto simp: requested_def q(6) same_setup_def idle_def)
  have a: "requests (master_seen ?c') = ks"
    unfolding after(2) same
    by (subst filter_ks [OF r(1) mi' seen_order]) (use r(2) in \<open>auto simp: rq seen_requested [OF c]\<close>)
  have b: "map (vectors_at ?c') ks = map (vectors_at c) ks"
  proof (rule map_cong [OF refl])
    fix j show "vectors_at ?c' j = vectors_at c j"
      using after(3,4) same by (cases "j = 7") (simp_all add: vectors_at_def)
  qed
  have "pending ?c' = concat (map (vectors_at c) ks)" unfolding pending_seen [OF k] a b ..
  ultimately show ?thesis using k by blast
qed

lemma eoi_base: "p_base (pic_write 0 0x20 t) = p_base t"
  by (simp add: pic_write_def write_command_def write_ocw2_def Let_def split: option.split)

lemma serve_slave:
  assumes c: "chain_idle c" and r: "requests (master_seen c) = 7 # ks"
  shows "\<exists>j js c'. requests (i_slave c) = j # js \<and> serve c = Some (vector (i_slave c) j, c') \<and> chain_idle c' \<and>
    pending c' = map (vector (i_slave c)) js @ concat (map (vectors_at c) ks)"
proof -
  let ?m = "master_seen c"
  have cfg: "p_master ?m" "p_cascade ?m" "p_slave ?m = 0x80" and si: "idle (i_slave c)" and sm: "\<not> p_master (i_slave c)"
    using c by (simp_all add: chain_idle_def master_seen_def)
  have mi: "idle ?m" by (rule seen_idle [OF c])
  have b7: "bit (p_slave ?m) 7" unfolding cfg(3) bit_80 ..
  have "requested ?m 7" and n7: "7 \<notin> set ks" using requests_as_filter [OF mi r] by simp_all
  then obtain j js where rs: "requests (i_slave c) = j # js"
    using seen_requested [OF c, of 7] by (cases "requests (i_slave c)") auto
  have j: "j < 8" using requests_below [of j "i_slave c"] rs by simp
  obtain t where t: "acknowledge (\<lambda>_ u. (0, u)) (irq_timer_tick (i_slave c)) () = (of_nat j + p_base (i_slave c), t, ())"
    "idle (pic_write 0 0x20 t)" "requests (pic_write 0 0x20 t) = js" "same_setup (i_slave c) (pic_write 0 0x20 t)" "p_int t"
    by (rule serve_own [OF si rs]) (use sm in auto)
  have g: "get_slave_ack 7 (irq_timer_tick (i_slave c)) = (vector (i_slave c) j, t)"
    using t(1) by (simp add: get_slave_ack_def vector_def)
  obtain q where q: "acknowledge get_slave_ack (irq_timer_tick ?m) (irq_timer_tick (i_slave c)) = (vector (i_slave c) j, q, t)"
    "idle (pic_write 0 0x20 q)" "requests (pic_write 0 0x20 q) = requests ?m" "same_setup ?m (pic_write 0 0x20 q)"
    "p_irr (pic_write 0 0x20 q) = p_irr ?m"
    by (rule serve_cascade [OF mi r cfg(1,2) b7 g]) auto
  let ?s = "pic_write 0 0x20 t"
  let ?c' = "\<lparr>i_master = pic_write 0 0x20 q, i_slave = ?s\<rparr>"
  have base: "vector (i_slave c) j AND 0xf8 = p_base t"
    using vector_of [OF si j] t(4) by (simp add: same_setup_def eoi_base)
  have high: "p_int (irq_timer_tick ?m)" using tick_idle [OF mi] r by simp
  have "serve c = Some (vector (i_slave c) j, ?c')"
    using q(1) high base by (simp add: serve_def ticked [OF c] inta_def chain_write_0x20)
  moreover have l: "irq_latched 7 (pic_write 0 0x20 q) = irq_level 7 (pic_write 0 0x20 q)"
    using q(4) seen_latch [OF c] by (simp add: q(5) same_setup_def)
  have ts: "p_int ?s = (requests (i_slave c) \<noteq> [])" using t(5) rs by (simp add: write_frame)
  note after = after_serve [OF c q(2,4) l t(2,4) ts]
  note k = after(1)
  have rq: "requested (pic_write 0 0x20 q) j = requested ?m j" for j
    using q(4) mi q(2) by (auto simp: requested_def q(5) same_setup_def idle_def)
  have a: "requests (master_seen ?c') = (if js \<noteq> [] then 7 # ks else ks)"
    unfolding after(2) t(3)
    by (subst filter_ks [OF r mi seen_order]) (auto simp: rq)
  have b: "map (vectors_at ?c') ks = map (vectors_at c) ks"
    using after(3) n7 by (intro map_cong refl) metis
  have "pending ?c' = map (vector (i_slave c)) js @ concat (map (vectors_at c) ks)"
    unfolding pending_seen [OF k] a by (simp add: b after(4) t(3) del: map_eq_conv)
  ultimately show ?thesis using rs k by blast
qed

lemma serve_step:
  assumes c: "chain_idle c"
  shows "case pending c of [] \<Rightarrow> serve c = None | v # vs \<Rightarrow> \<exists>c'. serve c = Some (v, c') \<and> chain_idle c' \<and> pending c' = vs"
proof (cases "requests (master_seen c)")
  case Nil
  then show ?thesis using serve_nothing [OF c Nil] by (simp add: pending_seen [OF c])
next
  case (Cons i ks)
  show ?thesis
  proof (cases "i = 7")
    case True
    then show ?thesis using serve_slave [OF c] Cons by (auto simp: pending_seen [OF c] vectors_at_def)
  next
    case False
    then show ?thesis using serve_master [OF c Cons False] Cons by (auto simp: pending_seen [OF c] vectors_at_def)
  qed
qed

text \<open>
  C1: with both controllers set up as the Towns firmware does (x86 vectors, edge triggered, the slave on
  input 7, different vector bases) and no interrupt in service, a processor that answers each interrupt
  with an acknowledge cycle and the end-of-interrupt commands receives every latched and unmasked
  request exactly once, in the order of the priorities with the slave's eight inputs in place of input 7
  of the master; after that INT is low.
\<close>

theorem all_requests_delivered:
  assumes "chain_idle c" "length (pending c) \<le> n"
  shows "fst (drain n c) = pending c \<and> serve (snd (drain n c)) = None"
  using assms
proof (induction n arbitrary: c)
  case 0
  then show ?case using serve_step [of c] by simp
next
  case (Suc n)
  show ?case
  proof (cases "pending c")
    case Nil
    then show ?thesis using serve_step [OF Suc.prems(1)] by simp
  next
    case (Cons v vs)
    then obtain c' where c': "serve c = Some (v, c')" "chain_idle c'" "pending c' = vs"
      using serve_step [OF Suc.prems(1)] by auto
    have "length (pending c') \<le> n" using Suc.prems(2) Cons c'(3) by simp
    from Suc.IH [OF c'(2) this] show ?thesis using Cons c' by (auto split: prod.splits)
  qed
qed

definition sample_chain :: chain where
  "sample_chain = slave_line 5 True (slave_line 2 True (master_line 3 True (master_line 1 True
     \<lparr>i_master = pic_init 0x11 [0x40, 0x80, 0x01] (pic_reset True),
      i_slave = pic_init 0x11 [0x48, 0x07, 0x01] (pic_reset False)\<rparr>)))"

lemma pic_init_wf: "pic_wf p \<Longrightarrow> pic_wf (pic_init d ws p)"
proof -
  have "pic_wf p \<Longrightarrow> pic_wf (fold (pic_write 1) ws p)" for p
    by (induction ws arbitrary: p) (auto intro: pic_wf_write)
  then show "pic_wf p \<Longrightarrow> pic_wf (pic_init d ws p)" by (simp add: pic_init_def pic_wf_write)
qed

lemma sample_chain_idle: "chain_idle sample_chain"
proof -
  have "pic_wf (i_master sample_chain)" "pic_wf (i_slave sample_chain)"
    by (simp_all add: sample_chain_def slave_line_def master_line_def pic_init_wf pic_wf_line pic_wf_reset)
  moreover have "x86_edge (i_master sample_chain)" "p_state (i_master sample_chain) = READY" "p_isr (i_master sample_chain) = 0"
    "x86_edge (i_slave sample_chain)" "p_state (i_slave sample_chain) = READY" "p_isr (i_slave sample_chain) = 0"
    by code_simp+
  moreover have "p_master (i_master sample_chain)" "p_cascade (i_master sample_chain)" "p_slave (i_master sample_chain) = 0x80"
    "\<not> bit (p_imr (i_master sample_chain)) 7" "\<not> p_master (i_slave sample_chain)"
    "irq_latched 7 (i_master sample_chain) = irq_level 7 (i_master sample_chain)"
    "irq_level 7 (i_master sample_chain) = p_int (i_slave sample_chain)"
    "p_base (i_master sample_chain) \<noteq> p_base (i_slave sample_chain)"
    by code_simp+
  ultimately show ?thesis by (simp add: chain_idle_def chain_ok_def idle_def)
qed

lemma all_requests_delivered_witness: "fst (drain 4 sample_chain) = [0x41, 0x43, 0x4a, 0x4d]"
proof -
  have p: "pending sample_chain = [0x41, 0x43, 0x4a, 0x4d]" by code_simp
  show ?thesis using all_requests_delivered [OF sample_chain_idle, of 4] by (simp add: p)
qed

end
