(* ===== verification/Towns_Ports.thy ===== *)
theory Towns_Ports
  imports Pic8259 Upd71071
begin

text \<open>
  The small ports of \<open>src/mame/fujitsu/fmtowns.cpp\<close>: the system ports with the serial ROM, the free
  running counter and interval timer 2, the wait port, the mode port, the volume and pad ports, and
  the glue between the processor, the floppy controller and its drives. The floppy controller and
  the drives are devices of other files: their operations are the parameter \<open>fdc_env\<close>.
\<close>

unbundle bit_operations_syntax

subsection \<open>System ports\<close>

text \<open>
  \<open>y_halted\<close> is the processor's halt line and \<open>y_wait_due\<close> the timer that releases it;
  the position in the serial ROM is an \<open>int\<close> that only ever grows until it is reset.
\<close>

record sysports =
  y_freerun :: u16
  y_it2_period :: u16
  y_it2_irqmask :: u8
  y_it2_timeout :: bool
  y_nmi_mask :: u8
  y_compat :: u8
  y_machine_id :: u16
  y_srom :: "nat \<Rightarrow> u8"
  y_srom_position :: nat
  y_srom_clk :: u8
  y_srom_reset :: u8
  y_halted :: bool
  y_wait_due :: bool
  y_ram_size :: nat

text \<open>\<open>rom\<close> is the region of the serial ROM, when the machine has one.\<close>

definition init_serial_rom :: "(nat \<Rightarrow> u8) option \<Rightarrow> sysports \<Rightarrow> sysports" where
  "init_serial_rom rom y =
     (case rom of
        Some r \<Rightarrow>
          let m = (\<lambda>n. if n < 32 then r n else y_srom y n)
          in y\<lparr>y_srom := m, y_machine_id := push_bit 8 (ucast (m 0x18)) OR ucast (m 0x17)\<rparr>
      | None \<Rightarrow>
          let code = [0x04, 0x65, 0x54, 0xA4, 0x95, 0x45, 0x35, 0x5F];
              m = (\<lambda>n. if n < 8 then code ! n else if n \<le> 21 then 0xff else if n < 32 then 0 else y_srom y n)
          in y\<lparr>y_srom := m(0x17 := 0x01, 0x18 := 0x01, 29 := 0x10, 28 := 0x6e, 27 := 0x54, 26 := 0x32, 25 := 0x10),
               y_machine_id := 0x0101\<rparr>)"

definition marty_start :: "(nat \<Rightarrow> u8) option \<Rightarrow> sysports \<Rightarrow> sysports" where
  "marty_start rom y =
     (let y1 = init_serial_rom rom y in if y_machine_id y1 = 0x0101 then y1\<lparr>y_machine_id := 0x034a\<rparr> else y1)"

text \<open>The ROM array has 32 bytes; a read behind it is undefined.\<close>

definition srom_bit :: "sysports \<Rightarrow> u8 option" where
  "srom_bit y =
     (let p = y_srom_position y
      in if p div 8 < 32 then Some (if tst (y_srom y (p div 8)) (push_bit (p mod 8) 1) then 1 else 0) else None)"

definition towns_system_r :: "nat \<Rightarrow> sysports \<Rightarrow> u8 option" where
  "towns_system_r offset y =
     (if offset = 0x06 then Some (ucast (y_freerun y))
      else if offset = 0x07 then Some (ucast (drop_bit 8 (y_freerun y)))
      else if offset = 0x08 then Some (y_nmi_mask y AND 0x01)
      else if offset = 0x10 then Some (ucast (drop_bit 8 (y_machine_id y) AND 0xff))
      else if offset = 0x11 then Some (ucast (y_machine_id y AND 0xff))
      else if offset = 0x12 then map_option (\<lambda>b. (b OR y_srom_clk y) OR y_srom_reset y) (srom_bit y)
      else Some 0x00)"

definition towns_system_w :: "nat \<Rightarrow> u8 \<Rightarrow> sysports \<Rightarrow> sysports" where
  "towns_system_w offset data y =
     (if offset = 0x08 then y\<lparr>y_nmi_mask := data AND 0x01\<rparr>
      else if offset = 0x12 then
        let y1 = (if tst data 0x40 \<and> y_srom_clk y = 0 then y\<lparr>y_srom_position := y_srom_position y + 1\<rparr> else y);
            y2 = (if tst data 0x80 \<and> y_srom_reset y1 = 0 then y1\<lparr>y_srom_position := 0\<rparr> else y1)
        in y2\<lparr>y_srom_clk := data AND 0x40, y_srom_reset := data AND 0x80\<rparr>
      else y)"

definition towns_intervaltimer2_w :: "nat \<Rightarrow> u8 \<Rightarrow> sysports \<Rightarrow> sysports" where
  "towns_intervaltimer2_w offset data y =
     (if offset = 0x00 then y\<lparr>y_it2_irqmask := data AND 0x80\<rparr>
      else if offset = 0x02 then y\<lparr>y_it2_period := set_lo8 (y_it2_period y) data\<rparr>
      else if offset = 0x03 then y\<lparr>y_it2_period := set_hi8 (y_it2_period y) data\<rparr>
      else y)"

definition towns_intervaltimer2_r :: "nat \<Rightarrow> sysports \<Rightarrow> u8 \<times> sysports" where
  "towns_intervaltimer2_r offset y =
     (if offset = 0x00 then
        ((if y_it2_timeout y then 0x40 else 0) OR (if y_it2_irqmask y \<noteq> 0 then 0x80 else 0), y\<lparr>y_it2_timeout := False\<rparr>)
      else if offset = 0x02 then (lo8 (y_it2_period y), y)
      else if offset = 0x03 then (hi8 (y_it2_period y), y)
      else (0xff, y))"

definition freerun_inc :: "sysports \<Rightarrow> sysports" where
  "freerun_inc y = y\<lparr>y_freerun := y_freerun y + 1\<rparr>"

definition intervaltimer2_timeout :: "sysports \<Rightarrow> sysports" where
  "intervaltimer2_timeout y = y\<lparr>y_it2_timeout := True\<rparr>"

definition wait_end :: "sysports \<Rightarrow> sysports" where
  "wait_end y = y\<lparr>y_halted := False, y_wait_due := False\<rparr>"

definition towns_sys6c_r :: "sysports \<Rightarrow> u8" where
  "towns_sys6c_r y = 0x00"

definition towns_sys6c_w :: "u8 \<Rightarrow> sysports \<Rightarrow> sysports" where
  "towns_sys6c_w data y = y\<lparr>y_halted := True, y_wait_due := True\<rparr>"

definition towns_sys5e8_r :: "nat \<Rightarrow> sysports \<Rightarrow> u8" where
  "towns_sys5e8_r offset y =
     (if offset = 0x00 then of_nat (y_ram_size y div 1048576)
      else if offset = 0x02 then y_compat y AND 0x01 else 0x00)"

definition towns_sys5e8_w :: "nat \<Rightarrow> u8 \<Rightarrow> sysports \<Rightarrow> sysports" where
  "towns_sys5e8_w offset data y = (if offset = 0x02 then y\<lparr>y_compat := data AND 0x01\<rparr> else y)"

definition sysports_reset :: "sysports \<Rightarrow> sysports" where
  "sysports_reset y = y\<lparr>y_freerun := 0, y_nmi_mask := 0, y_compat := 0, y_it2_period := 0, y_it2_timeout := False, y_it2_irqmask := 1\<rparr>"

subsection \<open>Volume\<close>

text \<open>The gain of a CD audio channel: muted, or an attenuation in half decibels.\<close>

datatype gain = Mute | Half_db int

record volume =
  z_volume :: "nat \<Rightarrow> u8"
  z_select :: u8
  z_gain :: "nat \<Rightarrow> gain"

definition towns_volume_r :: "nat \<Rightarrow> volume \<Rightarrow> u8" where
  "towns_volume_r offset z =
     (if offset = 2 then z_volume z (unat (z_select z AND 3)) else if offset = 3 then z_select z else 0)"

text \<open>\<open>db\<close> counts half decibels; above 0 means mute.\<close>

definition cdda_db_to_gain :: "int \<Rightarrow> volume \<Rightarrow> volume" where
  "cdda_db_to_gain db z =
     (let port = unat (z_select z AND 3)
      in if port > 1 then z
         else z\<lparr>z_gain := (z_gain z)(port := if db > 0 then Mute else Half_db db)\<rparr>)"

definition towns_volume_w :: "nat \<Rightarrow> u8 \<Rightarrow> volume \<Rightarrow> volume" where
  "towns_volume_w offset data z =
     (if offset = 2 then
        let z1 = z\<lparr>z_volume := (z_volume z)(unat (z_select z AND 3) := data)\<rparr>
        in if \<not> tst (z_select z1) 4 \<or> tst (z_select z1) 0x18 then z1
           else cdda_db_to_gain (- uint (NOT data AND 0x3f)) z1
      else if offset = 3 then
        let z1 = z\<lparr>z_select := data\<rparr>
        in if \<not> tst data 4 then cdda_db_to_gain 2 z1
           else if tst data 8 then cdda_db_to_gain 0 z1
           else if tst data 0x10 then cdda_db_to_gain (-64) z1
           else z1
      else z)"

subsection \<open>Pads\<close>

text \<open>\<open>pins\<close> of the two connectors; \<open>read\<close> is what the connected device answers.\<close>

record pads =
  d_mask :: u8
  d_pin6 :: "nat \<Rightarrow> bool"
  d_pin7 :: "nat \<Rightarrow> bool"
  d_pin8 :: "nat \<Rightarrow> bool"

definition towns_padport_r :: "(nat \<Rightarrow> u8) \<Rightarrow> nat \<Rightarrow> pads \<Rightarrow> u8" where
  "towns_padport_r read offset d =
     (let pad = (offset div 2) mod 2;
          fire = ((if bit (d_mask d) (pad + 4) then 0x40 else 0) OR (if bit (d_mask d) (pad * 2 + 1) then 0x20 else 0))
            OR (if bit (d_mask d) (pad * 2) then 0x10 else 0)
      in read pad AND (0x0f OR fire))"

definition towns_pad_mask_w :: "u8 \<Rightarrow> pads \<Rightarrow> pads" where
  "towns_pad_mask_w data d =
     d\<lparr>d_mask := data,
       d_pin6 := (d_pin6 d)(0 := bit data 0, 1 := bit data 2),
       d_pin7 := (d_pin7 d)(0 := bit data 1, 1 := bit data 3),
       d_pin8 := (d_pin8 d)(0 := bit data 4, 1 := bit data 5)\<rparr>"

subsection \<open>Floppy controller glue\<close>

text \<open>
  The MB8877A and the drives: register reads may change the controller's state. \<open>f_drive\<close> says
  whether the drive exists on its connector, \<open>f_disk\<close> whether a disk is in it.
\<close>

record 'f fdc_env =
  f_status_r :: "'f \<Rightarrow> u8 \<times> 'f"
  f_track_r :: "'f \<Rightarrow> u8 \<times> 'f"
  f_sector_r :: "'f \<Rightarrow> u8 \<times> 'f"
  f_data_r :: "'f \<Rightarrow> u8 \<times> 'f"
  f_cmd_w :: "u8 \<Rightarrow> 'f \<Rightarrow> 'f"
  f_track_w :: "u8 \<Rightarrow> 'f \<Rightarrow> 'f"
  f_sector_w :: "u8 \<Rightarrow> 'f \<Rightarrow> 'f"
  f_data_w :: "u8 \<Rightarrow> 'f \<Rightarrow> 'f"
  f_dden_w :: "bool \<Rightarrow> 'f \<Rightarrow> 'f"
  f_set_floppy :: "nat \<Rightarrow> 'f \<Rightarrow> 'f"
  f_mon_w :: "nat \<Rightarrow> bool \<Rightarrow> 'f \<Rightarrow> 'f"
  f_ss_w :: "nat \<Rightarrow> bool \<Rightarrow> 'f \<Rightarrow> 'f"
  f_dskchg :: "nat \<Rightarrow> 'f \<Rightarrow> u8"
  f_drive :: "nat \<Rightarrow> bool"
  f_disk :: "nat \<Rightarrow> 'f \<Rightarrow> bool"

record ('f, 'c) floppy =
  l_selected :: nat
  l_irq6mask :: u8
  l_fdc :: 'f
  l_pic :: 'c

definition mb8877a_irq_w :: "(bool \<Rightarrow> 'c \<Rightarrow> 'c) \<Rightarrow> bool \<Rightarrow> ('f, 'c) floppy \<Rightarrow> ('f, 'c) floppy" where
  "mb8877a_irq_w ir6 state l = l\<lparr>l_pic := ir6 (if l_irq6mask l = 0 then False else state) (l_pic l)\<rparr>"

definition fdc_read :: "('f \<Rightarrow> u8 \<times> 'f) \<Rightarrow> ('f, 'c) floppy \<Rightarrow> u8 \<times> ('f, 'c) floppy" where
  "fdc_read r l = (case r (l_fdc l) of (v, f) \<Rightarrow> (v, l\<lparr>l_fdc := f\<rparr>))"

definition fdc_write :: "('f \<Rightarrow> 'f) \<Rightarrow> ('f, 'c) floppy \<Rightarrow> ('f, 'c) floppy" where
  "fdc_write w l = l\<lparr>l_fdc := w (l_fdc l)\<rparr>"

definition towns_floppy_r :: "'f fdc_env \<Rightarrow> nat \<Rightarrow> ('f, 'c) floppy \<Rightarrow> u8 \<times> ('f, 'c) floppy" where
  "towns_floppy_r e offset l =
     (if offset = 0x00 then fdc_read (f_status_r e) l
      else if offset = 0x02 then fdc_read (f_track_r e) l
      else if offset = 0x04 then fdc_read (f_sector_r e) l
      else if offset = 0x06 then fdc_read (f_data_r e) l
      else if offset = 0x08 then
        (if l_selected l = 1 \<or> l_selected l = 2 then
           (let d = l_selected l - 1
            in (0x80 OR 0x0c OR (if f_drive e d \<and> f_disk e d (l_fdc l) then 0x03 else 0), l))
         else (0x80, l))
      else if offset = 0x0e then
        (if l_selected l = 1 \<and> f_drive e 0 then (f_dskchg e 0 (l_fdc l), l)
         else if l_selected l = 2 \<and> f_drive e 1 then (f_dskchg e 1 (l_fdc l), l)
         else (0x00, l))
      else (0xff, l))"

definition drive_control :: "'f fdc_env \<Rightarrow> u8 \<Rightarrow> nat \<Rightarrow> 'f \<Rightarrow> 'f" where
  "drive_control e data i f = (if f_drive e i then f_ss_w e i (bit data 2) (f_mon_w e i (\<not> bit data 4) f) else f)"

definition select_drive :: "'f fdc_env \<Rightarrow> nat \<Rightarrow> ('f, 'c) floppy \<Rightarrow> ('f, 'c) floppy" where
  "select_drive e n l =
     (let l1 = l\<lparr>l_selected := n\<rparr>
      in if (n = 1 \<or> n = 2) \<and> f_drive e (n - 1) then fdc_write (f_set_floppy e (n - 1)) l1 else l1)"

definition towns_floppy_w :: "'f fdc_env \<Rightarrow> nat \<Rightarrow> u8 \<Rightarrow> ('f, 'c) floppy \<Rightarrow> ('f, 'c) floppy" where
  "towns_floppy_w e offset data l =
     (if offset = 0x00 then (if data = 0xd0 \<or> data = 0xfe then l else fdc_write (f_cmd_w e data) l)
      else if offset = 0x02 then fdc_write (f_track_w e data) l
      else if offset = 0x04 then fdc_write (f_sector_w e data) l
      else if offset = 0x06 then fdc_write (f_data_w e data) l
      else if offset = 0x08 then
        (fdc_write (\<lambda>f. f_dden_w e (\<not> bit data 1) (drive_control e data 1 (drive_control e data 0 f))) l)
          \<lparr>l_irq6mask := data AND 0x01\<rparr>
      else if offset = 0x0c then
        (if data AND 0x0f = 0x00 then select_drive e 0 l
         else if data AND 0x0f = 0x01 then select_drive e 1 l
         else if data AND 0x0f = 0x02 then select_drive e 2 l
         else if data AND 0x0f = 0x04 then select_drive e 3 l
         else if data AND 0x0f = 0x08 then select_drive e 4 l
         else l)
      else l)"

definition towns_fdc_dma_r :: "'f fdc_env \<Rightarrow> ('f, 'c) floppy \<Rightarrow> u16 \<times> ('f, 'c) floppy" where
  "towns_fdc_dma_r e l = (case fdc_read (f_data_r e) l of (v, l') \<Rightarrow> (ucast v, l'))"

definition towns_fdc_dma_w :: "'f fdc_env \<Rightarrow> u16 \<Rightarrow> ('f, 'c) floppy \<Rightarrow> ('f, 'c) floppy" where
  "towns_fdc_dma_w e data l = fdc_write (f_data_w e (ucast data)) l"

subsection \<open>Requests of the floppy and the hard disk controller\<close>

definition mb8877a_drq_w :: "bool \<Rightarrow> dma \<Rightarrow> dma" where
  "mb8877a_drq_w state d = snd (dmarq state 0 d)"

definition towns_scsi_irq :: "(bool \<Rightarrow> 'c \<Rightarrow> 'c) \<Rightarrow> bool \<Rightarrow> 'c \<Rightarrow> 'c" where
  "towns_scsi_irq ir0 state c = ir0 state c"

definition towns_scsi_drq :: "bool \<Rightarrow> dma \<Rightarrow> dma" where
  "towns_scsi_drq state d = snd (dmarq state 1 d)"

subsection \<open>The serial ROM\<close>

definition srom_clock :: "sysports \<Rightarrow> sysports" where
  "srom_clock y = towns_system_w 0x12 0 (towns_system_w 0x12 0x40 y)"

definition srom_start :: "sysports \<Rightarrow> sysports" where
  "srom_start y = towns_system_w 0x12 0 (towns_system_w 0x12 0x80 (towns_system_w 0x12 0 y))"

fun srom_reads :: "nat \<Rightarrow> sysports \<Rightarrow> u8 option list" where
  "srom_reads 0 y = []"
| "srom_reads (Suc n) y = towns_system_r 0x12 y # srom_reads n (srom_clock y)"

lemma srom_start_state:
  "srom_start y = y\<lparr>y_srom_position := 0, y_srom_clk := 0, y_srom_reset := 0\<rparr>"
  by (simp add: srom_start_def towns_system_w_def Let_def)

lemma srom_clock_state:
  "y_srom_clk y = 0 \<Longrightarrow> y_srom_reset y = 0 \<Longrightarrow> srom_clock y = y\<lparr>y_srom_position := y_srom_position y + 1\<rparr>"
  by (simp add: srom_clock_def towns_system_w_def Let_def)

lemma tst_single: "tst x (push_bit n 1) = bit x n" for x :: u8
  by (simp add: push_bit_eq_mult)

lemma srom_reads_from:
  "y_srom_clk y = 0 \<Longrightarrow> y_srom_reset y = 0 \<Longrightarrow> srom_reads n y =
     map (\<lambda>i. if i < 256 then Some (if bit (y_srom y (i div 8)) (i mod 8) then 1 else 0) else None)
       [y_srom_position y ..< y_srom_position y + n]"
proof (induction n arbitrary: y)
  case (Suc n)
  have r: "towns_system_r 0x12 y = (let i = y_srom_position y in
      if i < 256 then Some (if bit (y_srom y (i div 8)) (i mod 8) then 1 else 0) else None)"
    using Suc.prems by (auto simp: towns_system_r_def srom_bit_def Let_def tst_single)
  show ?case
    using Suc.prems Suc.IH [of "y\<lparr>y_srom_position := y_srom_position y + 1\<rparr>"]
    by (simp add: srom_clock_state r upt_conv_Cons Let_def del: upt_Suc)
qed simp

text \<open>
  After a reset pulse the serial ROM port delivers the 256 bits of the ROM in order, byte by byte from
  the lowest bit, one per clock pulse; nothing stops the position at the end of the ROM, and the read after
  256 pulses is outside the array.
\<close>

lemma srom_bits_in_order:
  "srom_reads n (srom_start y) =
     map (\<lambda>i. if i < 256 then Some (if bit (y_srom y (i div 8)) (i mod 8) then 1 else 0) else None) [0..<n]"
  using srom_reads_from [of "srom_start y" n] by (simp add: srom_start_state)

lemma machine_id_port:
  "towns_system_r 0x10 (init_serial_rom None y) = Some 0x01 \<and> towns_system_r 0x11 (init_serial_rom None y) = Some 0x01
   \<and> towns_system_r 0x10 (marty_start None y) = Some 0x03 \<and> towns_system_r 0x11 (marty_start None y) = Some 0x4a"
  by (simp add: towns_system_r_def init_serial_rom_def marty_start_def Let_def)

subsection \<open>Interval timer, wait, volume and floppy\<close>

lemma it2_period_roundtrip:
  "let y' = towns_intervaltimer2_w 3 hi (towns_intervaltimer2_w 2 lo y)
   in towns_intervaltimer2_r 2 y' = (lo, y') \<and> towns_intervaltimer2_r 3 y' = (hi, y')"
  by (simp add: towns_intervaltimer2_w_def towns_intervaltimer2_r_def Let_def byte_simps)

lemma it2_flag_read_once:
  "let (v, y') = towns_intervaltimer2_r 0 (intervaltimer2_timeout y); (w, _) = towns_intervaltimer2_r 0 y'
   in bit v 6 \<and> \<not> bit w 6"
  by (simp add: towns_intervaltimer2_r_def intervaltimer2_timeout_def bit_or_iff)

lemma wait_releases: "y_halted (towns_sys6c_w d y) \<and> \<not> y_halted (wait_end (towns_sys6c_w d y))"
  by (simp add: towns_sys6c_w_def wait_end_def)

text \<open>Level and channel registers of the volume port, and the gain they give CD audio.\<close>

lemma volume_level:
  "ch < 2 \<Longrightarrow> z_gain (towns_volume_w 2 d (towns_volume_w 3 (of_nat ch + 4) z)) ch = Half_db (- uint (NOT d AND 0x3f))"
  by (auto simp: less_2_cases_iff towns_volume_w_def cdda_db_to_gain_def Let_def)

lemma volume_mute: "ch < 2 \<Longrightarrow> z_gain (towns_volume_w 3 (of_nat ch) z) ch = Mute"
  by (auto simp: less_2_cases_iff towns_volume_w_def cdda_db_to_gain_def Let_def)

text \<open>The floppy interrupt follows the controller's output through the mask of the moment it changes.\<close>

lemma floppy_irq_masked:
  assumes "pic_wf (l_pic l)"
  shows "irq_level 6 (l_pic (mb8877a_irq_w (set_irq_line 6) st l)) \<longleftrightarrow> st \<and> l_irq6mask l \<noteq> 0"
  using ir6.level_out [OF assms] by (simp add: mb8877a_irq_w_def)

lemma floppy_mask_not_reevaluated:
  "l_pic (towns_floppy_w e 0x08 d l) = l_pic l \<and> l_irq6mask (towns_floppy_w e 0x08 d l) = d AND 1"
  by (simp add: towns_floppy_w_def fdc_write_def)

end
