(* ===== verification/Rf5c68.thy ===== *)
theory Rf5c68
  imports Towns_Lines
begin

text \<open>
  The PCM sound chip, \<open>src/devices/sound/rf5c68.cpp\<close>: eight channels that read samples of 7 bits and sign
  from 64K of wave memory at a 5.11 fixed point step, with 0xff as the end marker that jumps to the loop
  start. Streams are run by the number of samples asked for; the wave memory is the chip's address space,
  plain RAM in the Towns.
\<close>

unbundle bit_operations_syntax

subsection \<open>State\<close>

record pcm_channel =
  c_enable :: bool
  c_env :: u8
  c_pan :: u8
  c_start :: u8
  c_addr :: u32
  c_step :: u16
  c_loopst :: u16

record rf5c68 =
  m_chan :: "nat \<Rightarrow> pcm_channel"
  m_cbank :: u8
  m_wbank :: u16
  m_enable :: bool
  m_wave :: "nat \<Rightarrow> u8"

definition rf5c68_start :: "(nat \<Rightarrow> u8) \<Rightarrow> rf5c68" where
  "rf5c68_start wave =
     \<lparr>m_chan = (\<lambda>_. \<lparr>c_enable = False, c_env = 0, c_pan = 0, c_start = 0, c_addr = 0, c_step = 0, c_loopst = 0\<rparr>),
      m_cbank = 0, m_wbank = 0, m_enable = False, m_wave = wave\<rparr>"

subsection \<open>One channel\<close>

text \<open>The byte at the channel's position, and the marker for the end of a sample.\<close>

definition wave_byte :: "(nat \<Rightarrow> u8) \<Rightarrow> u32 \<Rightarrow> u8" where
  "wave_byte wave addr = wave (unat (drop_bit 11 addr AND 0xffff))"

definition loop_addr :: "pcm_channel \<Rightarrow> u32" where
  "loop_addr ch = push_bit 11 (ucast (c_loopst ch))"

text \<open>
  One turn of the sample loop: the callback for the end of a bank, the fetch with its jump to the loop
  start, the step. \<open>None\<close> is the \<open>break\<close> of a channel whose loop starts at a marker.
\<close>

definition end_callback :: "(nat \<Rightarrow> 's \<Rightarrow> 's) \<Rightarrow> u32 \<Rightarrow> 's \<Rightarrow> 's" where
  "end_callback cb addr s = (if drop_bit 11 addr AND 0xfff = 0xfff then cb (unat (drop_bit 11 addr) div 0x2000) s else s)"

definition fetch_sample :: "(nat \<Rightarrow> u8) \<Rightarrow> pcm_channel \<Rightarrow> u8 option \<times> pcm_channel" where
  "fetch_sample wave ch =
     (let sample = wave_byte wave (c_addr ch)
      in if sample = 0xff then
           let ch1 = ch\<lparr>c_addr := loop_addr ch\<rparr>; sample1 = wave_byte wave (c_addr ch1)
           in if sample1 = 0xff then (None, ch1) else (Some sample1, ch1)
         else (Some sample, ch))"

definition level :: "pcm_channel \<Rightarrow> int \<times> int" where
  "level ch = (uint (c_pan ch AND 0x0f) * uint (c_env ch), uint (drop_bit 4 (c_pan ch) AND 0x0f) * uint (c_env ch))"

definition mix_term :: "u8 \<Rightarrow> int \<Rightarrow> int" where
  "mix_term sample v =
     (if tst sample 0x80 then uint (sample AND 0x7f) * v div 32 else - (uint sample * v div 32))"

fun channel_run ::
    "(nat \<Rightarrow> 's \<Rightarrow> 's) \<Rightarrow> (nat \<Rightarrow> u8) \<Rightarrow> nat \<Rightarrow> pcm_channel \<Rightarrow> 's \<Rightarrow> (int \<times> int) list \<times> pcm_channel \<times> 's" where
  "channel_run cb wave 0 ch s = ([], ch, s)"
| "channel_run cb wave (Suc n) ch s =
     (let s1 = end_callback cb (c_addr ch) s
      in case fetch_sample wave ch of
           (None, ch1) \<Rightarrow> (replicate (Suc n) (0, 0), ch1, s1)
         | (Some sample, ch1) \<Rightarrow>
             (let (rest, ch2, s2) = channel_run cb wave n (ch1\<lparr>c_addr := c_addr ch1 + ucast (c_step ch1)\<rparr>) s1;
                  (lv, rv) = level ch
              in ((mix_term sample lv, mix_term sample rv) # rest, ch2, s2)))"

subsection \<open>The stream\<close>

definition add_mix :: "(int \<times> int) list \<Rightarrow> (int \<times> int) list \<Rightarrow> (int \<times> int) list" where
  "add_mix xs ys = map2 (\<lambda>(a, b) (c, d). (a + c, b + d)) xs ys"

fun mix_channels ::
    "(nat \<Rightarrow> 's \<Rightarrow> 's) \<Rightarrow> nat \<Rightarrow> nat list \<Rightarrow> rf5c68 \<Rightarrow> (int \<times> int) list \<Rightarrow> 's \<Rightarrow> (int \<times> int) list \<times> rf5c68 \<times> 's" where
  "mix_channels cb n [] p acc s = (acc, p, s)"
| "mix_channels cb n (i # is) p acc s =
     (if c_enable (m_chan p i) then
        case channel_run cb (m_wave p) n (m_chan p i) s of
          (out, ch, s1) \<Rightarrow> mix_channels cb n is (p\<lparr>m_chan := (m_chan p)(i := ch)\<rparr>) (add_mix acc out) s1
      else mix_channels cb n is p acc s)"

text \<open>The output keeps the upper bits only (10 for the RF5C68) and is clamped to 16 bits.\<close>

definition output_value :: "nat \<Rightarrow> int \<Rightarrow> int" where
  "output_value bits x =
     (let shift = (if bits > 16 then 0 else 16 - bits); y = x AND NOT (2 ^ shift - 1)
      in max (-32768) (min 32767 y))"

text \<open>\<open>None\<close>: the chip is off and puts nothing on the stream.\<close>

definition sound_stream_update ::
    "(nat \<Rightarrow> 's \<Rightarrow> 's) \<Rightarrow> nat \<Rightarrow> nat \<Rightarrow> rf5c68 \<Rightarrow> 's \<Rightarrow> (int \<times> int) list option \<times> rf5c68 \<times> 's" where
  "sound_stream_update cb bits n p s =
     (if \<not> m_enable p then (None, p, s)
      else case mix_channels cb n [0..<8] p (replicate n (0, 0)) s of
             (acc, p1, s1) \<Rightarrow> (Some (map (\<lambda>(l, r). (output_value bits l, output_value bits r)) acc), p1, s1))"

subsection \<open>Registers and wave memory\<close>

text \<open>The stream is brought up to date before each of these; that is the caller's step here.\<close>

definition set_chan :: "nat \<Rightarrow> (pcm_channel \<Rightarrow> pcm_channel) \<Rightarrow> rf5c68 \<Rightarrow> rf5c68" where
  "set_chan i f p = p\<lparr>m_chan := (m_chan p)(i := f (m_chan p i))\<rparr>"

definition rf5c68_r :: "nat \<Rightarrow> rf5c68 \<Rightarrow> u8" where
  "rf5c68_r offset p =
     ucast (drop_bit (if odd offset then 19 else 11) (c_addr (m_chan p ((offset div 2) mod 8))))"

definition key_channel :: "u8 \<Rightarrow> nat \<Rightarrow> pcm_channel \<Rightarrow> pcm_channel" where
  "key_channel data i ch =
     (let ch1 = ch\<lparr>c_enable := \<not> bit data i\<rparr>
      in if \<not> c_enable ch1 then ch1\<lparr>c_addr := push_bit 19 (ucast (c_start ch1))\<rparr> else ch1)"

definition rf5c68_w :: "nat \<Rightarrow> u8 \<Rightarrow> rf5c68 \<Rightarrow> rf5c68" where
  "rf5c68_w offset data p =
     (let i = unat (m_cbank p) in
      if offset = 0x00 then set_chan i (\<lambda>c. c\<lparr>c_env := data\<rparr>) p
      else if offset = 0x01 then set_chan i (\<lambda>c. c\<lparr>c_pan := data\<rparr>) p
      else if offset = 0x02 then set_chan i (\<lambda>c. c\<lparr>c_step := set_lo8 (c_step c) data\<rparr>) p
      else if offset = 0x03 then set_chan i (\<lambda>c. c\<lparr>c_step := set_hi8 (c_step c) data\<rparr>) p
      else if offset = 0x04 then set_chan i (\<lambda>c. c\<lparr>c_loopst := set_lo8 (c_loopst c) data\<rparr>) p
      else if offset = 0x05 then set_chan i (\<lambda>c. c\<lparr>c_loopst := set_hi8 (c_loopst c) data\<rparr>) p
      else if offset = 0x06 then
        set_chan i (\<lambda>c. let c1 = c\<lparr>c_start := data\<rparr>
                        in if \<not> c_enable c1 then c1\<lparr>c_addr := push_bit 19 (ucast (c_start c1))\<rparr> else c1) p
      else if offset = 0x07 then
        (let p1 = p\<lparr>m_enable := bit data 7\<rparr>
         in if tst data 0x40 then p1\<lparr>m_cbank := data AND 7\<rparr> else p1\<lparr>m_wbank := push_bit 12 (ucast (data AND 0xf))\<rparr>)
      else if offset = 0x08 then
        p\<lparr>m_chan := (\<lambda>i. if i < 8 then key_channel data i (m_chan p i) else m_chan p i)\<rparr>
      else p)"

definition rf5c68_mem_r :: "nat \<Rightarrow> rf5c68 \<Rightarrow> u8" where
  "rf5c68_mem_r offset p = m_wave p (unat (m_wbank p OR of_nat offset))"

definition rf5c68_mem_w :: "nat \<Rightarrow> u8 \<Rightarrow> rf5c68 \<Rightarrow> rf5c68" where
  "rf5c68_mem_w offset data p = p\<lparr>m_wave := (m_wave p)(unat (m_wbank p OR of_nat offset) := data)\<rparr>"

subsection \<open>The mix stays within its 32-bit accumulators\<close>

definition within :: "int \<Rightarrow> int \<times> int \<Rightarrow> bool" where
  "within b x \<longleftrightarrow> \<bar>fst x\<bar> \<le> b \<and> \<bar>snd x\<bar> \<le> b"

lemma uint_and_low: "uint (x AND m) \<le> uint m" for x m :: u8
  using word_and_le1 [of x m] by (simp add: word_le_def)

lemma level_bounds: "0 \<le> fst (level ch) \<and> fst (level ch) \<le> 3825 \<and> 0 \<le> snd (level ch) \<and> snd (level ch) \<le> 3825"
proof -
  have f: "uint (x AND 0x0f) \<le> 15" for x :: u8 using uint_and_low [of x "0x0f"] by simp
  have e: "uint (c_env ch) \<le> 255" using uint_bounded [of "c_env ch"] by simp
  have "a * uint (c_env ch) \<le> 15 * 255" if "a \<le> 15" "0 \<le> a" for a using that e by (intro mult_mono) simp_all
  from this [OF f] show ?thesis by (simp add: level_def)
qed

lemma term_bounds: "0 \<le> v \<Longrightarrow> v \<le> 3825 \<Longrightarrow> \<bar>mix_term sample v\<bar> \<le> 15180"
proof -
  assume v: "0 \<le> v" "v \<le> 3825"
  have p: "x * v div 32 \<le> 15180" "0 \<le> x * v div 32" if "0 \<le> x" "x \<le> 127" for x
  proof -
    have "x * v \<le> 127 * 3825" using that v by (intro mult_mono) simp_all
    then show "x * v div 32 \<le> 15180" by linarith
    have "0 \<le> x * v" using that v by simp
    then show "0 \<le> x * v div 32" by linarith
  qed
  show ?thesis
  proof (cases "tst sample 0x80")
    case True
    have "uint (sample AND 0x7f) \<le> 127" using uint_and_low [of sample "0x7f"] by simp
    then show ?thesis using True p [of "uint (sample AND 0x7f)"] by (simp add: mix_term_def)
  next
    case False
    have "sample = (sample AND 0x7f) OR (sample AND 0x80)"
    proof -
      have "(0x7f OR 0x80 :: u8) = - 1" by code_simp
      then have "sample = sample AND (0x7f OR 0x80)" by (simp only: and.right_neutral)
      then show ?thesis by (simp only: bit.conj_disj_distrib)
    qed
    then have "uint sample \<le> 127" using False uint_and_low [of sample "0x7f"] by simp
    then show ?thesis using False p [of "uint sample"] by (simp add: mix_term_def)
  qed
qed

lemma channel_run_within:
  "length (fst (channel_run cb wave n ch s)) = n \<and> list_all (within 15180) (fst (channel_run cb wave n ch s))"
proof (induction n arbitrary: ch s)
  case (Suc n)
  have t: "within 15180 (mix_term x (fst (level c)), mix_term x (snd (level c)))" for x c
    using level_bounds [of c] term_bounds by (simp add: within_def)
  have z: "within 15180 (0, 0)" by (simp add: within_def)
  show ?case
    using Suc.IH t z by (auto simp: Let_def list_all_iff case_prod_unfold split: prod.split option.split)
qed simp

lemma add_mix_within:
  "length xs = n \<Longrightarrow> length ys = n \<Longrightarrow> list_all (within a) xs \<Longrightarrow> list_all (within b) ys \<Longrightarrow>
     length (add_mix xs ys) = n \<and> list_all (within (a + b)) (add_mix xs ys)"
proof -
  assume l: "length xs = n" "length ys = n" and w: "list_all (within a) xs" "list_all (within b) ys"
  have "within (a + b) (add_mix xs ys ! k)" if "k < n" for k
  proof -
    have "within a (xs ! k)" "within b (ys ! k)" using w l that by (simp_all add: list_all_length)
    then have "within (a + b) (fst (xs ! k) + fst (ys ! k), snd (xs ! k) + snd (ys ! k))" by (auto simp: within_def)
    then show ?thesis using that l by (simp add: add_mix_def case_prod_unfold)
  qed
  then show ?thesis using l by (simp add: list_all_length add_mix_def)
qed

lemma mix_channels_within:
  "length acc = n \<Longrightarrow> list_all (within a) acc \<Longrightarrow> 0 \<le> a \<Longrightarrow> 
     length (fst (mix_channels cb n is p acc s)) = n \<and>
     list_all (within (a + 15180 * int (length is))) (fst (mix_channels cb n is p acc s))"
proof (induction "is" arbitrary: p acc s a)
  case (Cons i ks)
  have grow: "list_all (within b) xs \<Longrightarrow> b \<le> c \<Longrightarrow> list_all (within c) xs" for b c xs
    by (auto simp: list_all_iff within_def)
  show ?case
  proof (cases "c_enable (m_chan p i)")
    case True
    obtain out ch s1 where r: "channel_run cb (m_wave p) n (m_chan p i) s = (out, ch, s1)" by (metis prod_cases3)
    have "length out = n" "list_all (within 15180) out" using channel_run_within [of cb "m_wave p" n "m_chan p i" s] r by simp_all
    then have "length (add_mix acc out) = n" "list_all (within (a + 15180)) (add_mix acc out)"
      using add_mix_within [of acc n out] Cons.prems by simp_all
    from Cons.IH [OF this] show ?thesis using True r Cons.prems by (simp add: algebra_simps)
  next
    case False
    then show ?thesis using Cons.IH [OF Cons.prems, of p s] grow [of "a + 15180 * int (length ks)"] by auto
  qed
qed simp

text \<open>
  C26: whatever the registers and the wave memory hold, mixing the eight channels gives one value per
  requested sample and side, and none of them leaves -121440 to 121440: the 32-bit accumulators of the mix
  never overflow, so that the clamp of the output sees the true sum.
\<close>

theorem pcm_mix_fits:
  "let (acc, p', s') = mix_channels cb n [0..<8] p (replicate n (0, 0)) s
   in length acc = n \<and> list_all (\<lambda>(l, r). \<bar>l\<bar> \<le> 121440 \<and> \<bar>r\<bar> \<le> 121440) acc"
proof -
  have "list_all (within 0) (replicate n (0, 0))" by (simp add: list_all_iff within_def)
  moreover have "within 121440 = (\<lambda>(l, r). \<bar>l\<bar> \<le> 121440 \<and> \<bar>r\<bar> \<le> 121440)" by (auto simp: within_def)
  ultimately show ?thesis using mix_channels_within [of "replicate n (0, 0)" n 0 cb "[0..<8]" p s]
    by (simp add: case_prod_unfold Let_def)
qed

subsection \<open>Playing and looping\<close>

definition sound_of :: "pcm_channel \<Rightarrow> u8 \<Rightarrow> int \<times> int" where
  "sound_of ch sample = (mix_term sample (fst (level ch)), mix_term sample (snd (level ch)))"

text \<open>The byte that a channel reads \<open>k\<close> steps after position \<open>a\<close>.\<close>

definition step_byte :: "(nat \<Rightarrow> u8) \<Rightarrow> pcm_channel \<Rightarrow> u32 \<Rightarrow> nat \<Rightarrow> u8" where
  "step_byte wave ch a k = wave_byte wave (a + of_nat k * ucast (c_step ch))"

lemma level_addr [simp]: "level (ch\<lparr>c_addr := a\<rparr>) = level ch" "loop_addr (ch\<lparr>c_addr := a\<rparr>) = loop_addr ch"
  "sound_of (ch\<lparr>c_addr := a\<rparr>) x = sound_of ch x" "step_byte wave (ch\<lparr>c_addr := a\<rparr>) = step_byte wave ch"
  by (simp_all add: level_def loop_addr_def sound_of_def step_byte_def fun_eq_iff)

lemma run_sample:
  "wave_byte wave (c_addr ch) \<noteq> 0xff \<Longrightarrow>
     fst (channel_run cb wave (Suc n) ch s) = sound_of ch (wave_byte wave (c_addr ch)) #
       fst (channel_run cb wave n (ch\<lparr>c_addr := c_addr ch + ucast (c_step ch)\<rparr>) (end_callback cb (c_addr ch) s))"
  by (simp add: fetch_sample_def sound_of_def case_prod_unfold Let_def split: prod.split)

lemma run_output_state: "fst (channel_run cb wave n ch s) = fst (channel_run cb wave n ch s')"
proof (induction n arbitrary: ch s s')
  case (Suc n)
  show ?case
    using Suc.IH [of "snd (fetch_sample wave ch)\<lparr>c_addr := c_addr (snd (fetch_sample wave ch)) + ucast (c_step (snd (fetch_sample wave ch)))\<rparr>"
        "end_callback cb (c_addr ch) s" "end_callback cb (c_addr ch) s'"]
    by (simp add: case_prod_unfold Let_def split: option.split)
qed simp

lemma run_marker:
  assumes "wave_byte wave (c_addr ch) = 0xff" "wave_byte wave (loop_addr ch) \<noteq> 0xff"
  shows "fst (channel_run cb wave n ch s) = fst (channel_run cb wave n (ch\<lparr>c_addr := loop_addr ch\<rparr>) s)"
proof (cases n)
  case (Suc m)
  have "fetch_sample wave ch = fetch_sample wave (ch\<lparr>c_addr := loop_addr ch\<rparr>)"
    using assms by (simp add: fetch_sample_def)
  then show ?thesis unfolding Suc
    using run_output_state [of cb wave m]
    by (simp add: case_prod_unfold Let_def split: option.split)
qed simp

lemma run_segment:
  "\<forall>k<n. step_byte wave ch (c_addr ch) k \<noteq> 0xff \<Longrightarrow>
     fst (channel_run cb wave (n + m) ch s) = map (\<lambda>k. sound_of ch (step_byte wave ch (c_addr ch) k)) [0..<n] @
       fst (channel_run cb wave m (ch\<lparr>c_addr := c_addr ch + of_nat n * ucast (c_step ch)\<rparr>) s)"
proof (induction n arbitrary: ch)
  case (Suc n)
  let ?ch = "ch\<lparr>c_addr := c_addr ch + ucast (c_step ch)\<rparr>"
  have sb: "step_byte wave ch (c_addr ch) (Suc k) = step_byte wave ?ch (c_addr ?ch) k" for k
    by (simp add: step_byte_def algebra_simps)
  have b0: "wave_byte wave (c_addr ch) = step_byte wave ch (c_addr ch) 0" by (simp add: step_byte_def)
  have "step_byte wave ch (c_addr ch) 0 \<noteq> 0xff" using Suc.prems by blast
  then have "fst (channel_run cb wave (Suc n + m) ch s) = sound_of ch (step_byte wave ch (c_addr ch) 0) #
      fst (channel_run cb wave (n + m) ?ch (end_callback cb (c_addr ch) s))"
    using run_sample [of wave ch cb "n + m" s] by (simp add: b0)
  also have "fst (channel_run cb wave (n + m) ?ch (end_callback cb (c_addr ch) s)) = fst (channel_run cb wave (n + m) ?ch s)"
    by (rule run_output_state)
  also have "\<dots> = map (\<lambda>k. sound_of ?ch (step_byte wave ?ch (c_addr ?ch) k)) [0..<n] @
      fst (channel_run cb wave m (?ch\<lparr>c_addr := c_addr ?ch + of_nat n * ucast (c_step ?ch)\<rparr>) s)"
    by (rule Suc.IH) (use Suc.prems sb in \<open>metis Suc_less_eq\<close>)
  finally show ?case
    by (simp add: upt_conv_Cons map_Suc_upt [symmetric] comp_def sb algebra_simps del: upt_Suc)
qed simp

lemma run_loop:
  assumes "wave_byte wave (loop_addr ch) \<noteq> 0xff" "\<forall>k<q. step_byte wave ch (loop_addr ch) k \<noteq> 0xff"
    "step_byte wave ch (loop_addr ch) q = 0xff"
  shows "wave_byte wave a = 0xff \<Longrightarrow> fst (channel_run cb wave (j * q) (ch\<lparr>c_addr := a\<rparr>) s) =
    concat (replicate j (map (\<lambda>k. sound_of ch (step_byte wave ch (loop_addr ch) k)) [0..<q]))"
proof (induction j arbitrary: a)
  case (Suc j)
  let ?l = "ch\<lparr>c_addr := loop_addr ch\<rparr>"
  have "fst (channel_run cb wave (Suc j * q) (ch\<lparr>c_addr := a\<rparr>) s) = fst (channel_run cb wave (q + j * q) ?l s)"
    using run_marker [of wave "ch\<lparr>c_addr := a\<rparr>" cb "q + j * q" s] Suc.prems assms(1) by simp
  also have "\<dots> = map (\<lambda>k. sound_of ch (step_byte wave ch (loop_addr ch) k)) [0..<q] @
      fst (channel_run cb wave (j * q) (ch\<lparr>c_addr := loop_addr ch + of_nat q * ucast (c_step ch)\<rparr>) s)"
    using run_segment [of q wave ?l cb "j * q" s] assms(2) by simp
  also have "fst (channel_run cb wave (j * q) (ch\<lparr>c_addr := loop_addr ch + of_nat q * ucast (c_step ch)\<rparr>) s) =
      concat (replicate j (map (\<lambda>k. sound_of ch (step_byte wave ch (loop_addr ch) k)) [0..<q]))"
    by (rule Suc.IH) (use assms(3) in \<open>simp add: step_byte_def\<close>)
  finally show ?case by simp
qed simp

text \<open>
  C25: a channel plays its sample from where it stands, one byte per step of its 5.11 fixed point pitch, up to
  the end marker, and then the section from its loop start up to the marker behind it again and again, for
  as long as it is asked; each byte gives the left and the right value of its envelope and pan.
\<close>

theorem pcm_plays_and_loops:
  assumes "\<forall>k<n. step_byte wave ch (c_addr ch) k \<noteq> 0xff" "step_byte wave ch (c_addr ch) n = 0xff"
    "0 < q" "\<forall>k<q. step_byte wave ch (loop_addr ch) k \<noteq> 0xff" "step_byte wave ch (loop_addr ch) q = 0xff"
  shows "fst (channel_run cb wave (n + j * q) ch s) =
    map (\<lambda>k. sound_of ch (step_byte wave ch (c_addr ch) k)) [0..<n] @
    concat (replicate j (map (\<lambda>k. sound_of ch (step_byte wave ch (loop_addr ch) k)) [0..<q]))"
proof -
  have "wave_byte wave (loop_addr ch) = step_byte wave ch (loop_addr ch) 0" by (simp add: step_byte_def)
  then have l: "wave_byte wave (loop_addr ch) \<noteq> 0xff" using assms(3,4) by simp
  have m: "wave_byte wave (c_addr ch + of_nat n * ucast (c_step ch)) = 0xff" using assms(2) by (simp add: step_byte_def)
  show ?thesis unfolding run_segment [OF assms(1)] run_loop [OF l assms(4,5) m] ..
qed

definition sample_channel :: pcm_channel where
  "sample_channel = \<lparr>c_enable = True, c_env = 255, c_pan = 0xff, c_start = 1, c_addr = push_bit 19 1, c_step = 2048, c_loopst = 0x101\<rparr>"

definition sample_wave :: "nat \<Rightarrow> u8" where
  "sample_wave a = (if a = 0x100 then 0x90 else if a = 0x101 then 0x10 else if a = 0x102 then 0x20 else 0xff)"

lemma three_steps: "k < 3 \<Longrightarrow> k = 0 \<or> k = 1 \<or> k = (2 :: nat)"
  by arith

lemma pcm_plays_and_loops_witness:
  "fst (channel_run (\<lambda>_ s. s) sample_wave 7 sample_channel ()) =
     [(1912, 1912), (-1912, -1912), (-3825, -3825), (-1912, -1912), (-3825, -3825), (-1912, -1912), (-3825, -3825)]"
proof -
  have n: "\<forall>k<3. step_byte sample_wave sample_channel (c_addr sample_channel) k \<noteq> 0xff"
    "step_byte sample_wave sample_channel (c_addr sample_channel) 3 = 0xff"
    "\<forall>k<2. step_byte sample_wave sample_channel (loop_addr sample_channel) k \<noteq> 0xff"
    "step_byte sample_wave sample_channel (loop_addr sample_channel) 2 = 0xff"
    by (auto simp: step_byte_def wave_byte_def sample_wave_def sample_channel_def loop_addr_def less_2_cases_iff dest!: three_steps)
  have b: "map (\<lambda>k. sound_of sample_channel (step_byte sample_wave sample_channel (c_addr sample_channel) k)) [0..<3] =
      [(1912, 1912), (-1912, -1912), (-3825, -3825)]"
    "map (\<lambda>k. sound_of sample_channel (step_byte sample_wave sample_channel (loop_addr sample_channel) k)) [0..<2] =
      [(-1912, -1912), (-3825, -3825)]"
    by code_simp+
  have seven: "3 + 2 * 2 = (7 :: nat)" by simp
  show ?thesis
    using pcm_plays_and_loops [OF n(1,2) _ n(3,4), where j = 2 and cb = "\<lambda>_ s. s" and s = "()"] unfolding b seven by (simp add: numeral_2_eq_2)
qed

subsection \<open>The end-of-bank interrupt\<close>

text \<open>
  The position is never cut to the 16 bits of the wave memory: once a sample has run past the end of the memory,
  the bank numbers it reports are 8 and up, which no mask of the driver selects.
\<close>

lemma bank_number: "unat (drop_bit 11 a) div 0x2000 = unat a div 0x1000000" for a :: u32
  by (simp add: drop_bit_eq_div unat_div flip: div_mult2_eq)

lemma irq_mask_high: "8 \<le> n \<Longrightarrow> irq_mask n = 0"
  by (rule u8_eqI) (simp add: bit_irq_mask)

lemma pcm_wrapped_position_silent:
  assumes "0x8000000 \<le> unat addr"
  shows "end_callback (towns_pcm_irq ir5) addr s = s"
proof -
  have "8 \<le> unat (drop_bit 11 addr) div 0x2000" unfolding bank_number using assms by simp
  then show ?thesis by (simp add: end_callback_def towns_pcm_irq_def irq_mask_high)
qed

end
