(* ===== verification/Fmt_Icmem.thy ===== *)
theory Fmt_Icmem
  imports Byte_Store
begin

text \<open>
  The IC memory card, \<open>src/mame/fujitsu/fmt_icmem.cpp\<close>: a 16M buffer filled from an image file, seen through
  a fixed and a banked window, with the status and bank ports. The image file is the list of its bytes; an
  access outside the buffer, which C++ leaves undefined, is \<open>None\<close>.
\<close>

unbundle bit_operations_syntax

record icmem =
  k_ram :: "nat \<Rightarrow> u8"
  k_change :: bool
  k_attr_select :: bool
  k_detect :: bool
  k_bank :: u8

definition card_bytes :: nat where
  "card_bytes = 0x1000000"

definition icmem_start :: "icmem \<Rightarrow> icmem" where
  "icmem_start k = k\<lparr>k_ram := \<lambda>_. 0, k_bank := 0, k_detect := False, k_change := False\<rparr>"

text \<open>
  \<open>fread\<close> delivers at most the size of the buffer; \<open>len\<close> is what \<open>length()\<close> says of the image, and an
  error leaves the buffer overwritten.
\<close>

definition call_load :: "u8 list \<Rightarrow> nat \<Rightarrow> icmem \<Rightarrow> bool \<times> icmem" where
  "call_load file len k =
     (let ret = min (length file) card_bytes;
          k1 = k\<lparr>k_ram := \<lambda>a. if a < card_bytes then if a < ret then file ! a else 0xff else k_ram k a\<rparr>
      in if ret \<noteq> len then (False, k1) else (True, k1\<lparr>k_change := True, k_detect := True\<rparr>))"

text \<open>\<open>fwrite\<close> at the start of the file.\<close>

definition fwrite_at_start :: "u8 list \<Rightarrow> u8 list \<Rightarrow> u8 list" where
  "fwrite_at_start bytes file = bytes @ drop (length bytes) file"

definition card_image :: "icmem \<Rightarrow> u8 list" where
  "card_image k = map (k_ram k) [0..<card_bytes]"

definition call_unload :: "bool \<Rightarrow> u8 list \<Rightarrow> icmem \<Rightarrow> u8 list \<times> icmem" where
  "call_unload protect file k =
     (if \<not> protect then fwrite_at_start (card_image k) file else file, k\<lparr>k_change := True, k_detect := False\<rparr>)"

text \<open>\<open>written\<close> is the number of bytes the file system took.\<close>

definition call_create :: "nat \<Rightarrow> icmem \<Rightarrow> bool \<times> icmem" where
  "call_create written k =
     (let k1 = k\<lparr>k_ram := \<lambda>a. if a < card_bytes then 0xff else k_ram k a\<rparr>
      in if written \<noteq> card_bytes then (False, k1) else (True, k1\<lparr>k_change := True, k_detect := True\<rparr>))"

definition card_address :: "icmem \<Rightarrow> nat \<Rightarrow> nat" where
  "card_address k offset = unat (k_bank k) * 0x100000 + offset"

definition card_get :: "icmem \<Rightarrow> nat \<Rightarrow> u8 option" where
  "card_get k a = (if a < card_bytes then Some (k_ram k a) else None)"

definition card_put :: "nat \<Rightarrow> u8 \<Rightarrow> icmem \<Rightarrow> icmem option" where
  "card_put a data k = (if a < card_bytes then Some (k\<lparr>k_ram := (k_ram k)(a := data)\<rparr>) else None)"

definition static_mem_read :: "nat \<Rightarrow> icmem \<Rightarrow> u8 option" where
  "static_mem_read offset k = card_get k offset"

definition static_mem_write :: "nat \<Rightarrow> u8 \<Rightarrow> icmem \<Rightarrow> icmem option" where
  "static_mem_write offset data k = card_put offset data k"

definition mem_read :: "nat \<Rightarrow> icmem \<Rightarrow> u8 option" where
  "mem_read offset k = card_get k (card_address k offset)"

definition mem_write :: "nat \<Rightarrow> u8 \<Rightarrow> icmem \<Rightarrow> icmem option" where
  "mem_write offset data k = card_put (card_address k offset) data k"

text \<open>\<open>protect\<close> is the configured write protection, \<open>readonly\<close> the state of the image file.\<close>

definition status_r :: "bool \<Rightarrow> bool \<Rightarrow> icmem \<Rightarrow> u8 \<times> icmem" where
  "status_r protect readonly k =
     (((if protect \<or> readonly then 0x01 else 0) OR (if \<not> k_detect k then 0x06 else 0)) OR (if k_change k then 0x80 else 0),
      k\<lparr>k_change := False\<rparr>)"

definition bank_r :: "nat \<Rightarrow> icmem \<Rightarrow> u8" where
  "bank_r offset k =
     (if offset = 0 then k_bank k AND 0x0f else if offset = 1 then (if k_attr_select k then 1 else 0) else 0xff)"

definition bank_w :: "nat \<Rightarrow> u8 \<Rightarrow> icmem \<Rightarrow> icmem" where
  "bank_w offset data k =
     (if offset = 0 then k\<lparr>k_bank := data AND 0x0f\<rparr>
      else if offset = 1 then k\<lparr>k_attr_select := bit data 0\<rparr> else k)"

subsection \<open>Properties\<close>

lemma bank_bound: "unat (k_bank (bank_w 0 b k)) < 16"
proof -
  have "b AND 0x0f \<le> 0x0f" by (rule word_and_le1)
  then show ?thesis by (simp add: bank_w_def word_le_nat_alt)
qed

text \<open>The two windows as the processor uses them, inside the buffer.\<close>

abbreviation banked_r :: "icmem \<Rightarrow> nat \<Rightarrow> u8" where
  "banked_r k a \<equiv> the (mem_read a k)"

abbreviation banked_w :: "icmem \<Rightarrow> nat \<Rightarrow> u8 \<Rightarrow> icmem" where
  "banked_w k a d \<equiv> the (mem_write a d k)"

abbreviation fixed_r :: "icmem \<Rightarrow> nat \<Rightarrow> u8" where
  "fixed_r k a \<equiv> the (static_mem_read a k)"

abbreviation fixed_w :: "icmem \<Rightarrow> nat \<Rightarrow> u8 \<Rightarrow> icmem" where
  "fixed_w k a d \<equiv> the (static_mem_write a d k)"

lemmas card_defs = mem_write_def mem_read_def static_mem_read_def static_mem_write_def card_put_def card_get_def card_address_def

lemma bank_inside: "unat (k_bank k) < 16 \<Longrightarrow> a < 0x100000 \<Longrightarrow> unat (k_bank k) * 0x100000 + a < card_bytes"
  by (simp add: card_bytes_def)

interpretation banked: byte_store banked_r banked_w "0x100000" "\<lambda>k. unat (k_bank k) < 16"
  by unfold_locales (simp_all add: card_defs bank_inside)

interpretation fixed: byte_store fixed_r fixed_w card_bytes "\<lambda>_. True"
  by unfold_locales (simp_all add: card_defs)

lemma poke_banked:
  "unat (k_bank k) < 16 \<Longrightarrow> a + length ds \<le> 0x100000 \<Longrightarrow>
     poke banked_w k a ds = k\<lparr>k_ram := (\<lambda>n. let i = n - (unat (k_bank k) * 0x100000 + a) in
       if unat (k_bank k) * 0x100000 + a \<le> n \<and> i < length ds then ds ! i else k_ram k n)\<rparr>"
proof (induction ds arbitrary: k a)
  case Nil
  then show ?case by simp
next
  case (Cons d ds)
  let ?p = "unat (k_bank k) * 0x100000 + a"
  have w: "banked_w k a d = k\<lparr>k_ram := (k_ram k)(?p := d)\<rparr>"
    using Cons.prems bank_inside [of k a] by (simp add: card_defs)
  have "k_ram (poke banked_w k a (d # ds)) n = (let i = n - ?p in if ?p \<le> n \<and> i < length (d # ds) then (d # ds) ! i else k_ram k n)" for n
    using Cons.IH [of "banked_w k a d" "Suc a"] Cons.prems unfolding poke.simps w
    by (cases "n = ?p"; cases "?p < n") (auto simp: Let_def nth_Cons' Suc_diff_le)
  moreover have "poke banked_w k a (d # ds) = k\<lparr>k_ram := k_ram (poke banked_w k a (d # ds))\<rparr>"
    using Cons.IH [of "banked_w k a d" "Suc a"] Cons.prems unfolding poke.simps w by simp
  ultimately show ?case by presburger
qed

text \<open>What the card holds after loading an image file: the file, and 0xff behind it.\<close>

definition padded :: "u8 list \<Rightarrow> u8 list" where
  "padded file = file @ replicate (card_bytes - length file) 0xff"

text \<open>
  C27: after a card image of at most 16M was inserted, a block written through the banked window reads back there; and
  removing an unprotected card writes the image back with exactly that block replaced at bank times 1M plus
  the offset. The file comes back with the full 16M of the buffer, however short the card was. The bank is the low four bits of
  what was written to the bank register, the 16M that the buffer holds; the comment on the register gives it six bits (0 to 5).
\<close>

theorem card_block_saved:
  assumes "length file \<le> card_bytes" "a + length ds \<le> 0x100000"
  shows "let k1 = bank_w 0 b (snd (call_load file (length file) k)); k2 = poke banked_w k1 a ds;
             p = unat (b AND 0x0f) * 0x100000 + a
    in fst (call_load file (length file) k) \<and> peek banked_r k2 a (length ds) = ds \<and>
       fst (call_unload False file k2) = take p (padded file) @ ds @ drop (p + length ds) (padded file)"
proof -
  define k1 where "k1 = bank_w 0 b (snd (call_load file (length file) k))"
  define p where "p = unat (b AND 0x0f) * 0x100000 + a"
  have b: "unat (k_bank k1) < 16" unfolding k1_def by (rule bank_bound)
  have bank: "unat (k_bank k1) * 0x100000 + a = p" by (simp add: k1_def bank_w_def p_def)
  have end_in: "p + length ds \<le> card_bytes" using b assms(2) unfolding bank [symmetric] by (simp add: card_bytes_def)
  have len: "length (padded file) = card_bytes" using assms(1) by (simp add: padded_def)
  have ram: "k_ram k1 n = padded file ! n" if "n < card_bytes" for n
    using that assms(1) by (simp add: k1_def bank_w_def call_load_def padded_def nth_append Let_def)
  have image: "card_image (poke banked_w k1 a ds) = take p (padded file) @ ds @ drop (p + length ds) (padded file)"
  proof (rule nth_equalityI)
    fix n assume "n < length (card_image (poke banked_w k1 a ds))"
    then have n: "n < card_bytes" by (simp add: card_image_def)
    then show "card_image (poke banked_w k1 a ds) ! n = (take p (padded file) @ ds @ drop (p + length ds) (padded file)) ! n"
      unfolding poke_banked [OF b assms(2)] bank using end_in len
      by (auto simp: card_image_def Let_def nth_append ram)
  qed (use end_in len in \<open>simp add: card_image_def\<close>)
  have "fst (call_unload False file (poke banked_w k1 a ds)) = card_image (poke banked_w k1 a ds)"
    using assms(1) by (simp add: call_unload_def fwrite_at_start_def card_image_def)
  then show ?thesis
    using banked.peek_poke [OF b assms(2)] image assms(1) unfolding Let_def k1_def [symmetric] p_def [symmetric]
    by (simp add: call_load_def Let_def)
qed

definition empty_slot :: icmem where
  "empty_slot = \<lparr>k_ram = \<lambda>_. 0, k_change = False, k_attr_select = False, k_detect = False, k_bank = 0\<rparr>"

lemma card_block_saved_witness:
  "length (fst (call_unload False [1, 2] (poke banked_w (bank_w 0 3 (snd (call_load [1, 2] 2 (icmem_start empty_slot)))) 5 [7, 8]))) = card_bytes"
proof -
  have two: "length [1, 2 :: u8] = 2" by simp
  have l: "length [1, 2 :: u8] \<le> card_bytes" "5 + length [7, 8 :: u8] \<le> 0x100000" by (simp_all add: card_bytes_def)
  have p: "length (padded [1, 2]) = card_bytes" by (simp add: padded_def card_bytes_def)
  show ?thesis
    using card_block_saved [OF l, of 3 "icmem_start empty_slot"] p unfolding Let_def two by (simp add: card_bytes_def)
qed

text \<open>
  The window of the 386 machines is 16M wide, so the offset adds to the bank without a mask: with bank 15 selected
  every offset of 1M and up is outside the buffer.
\<close>

lemma bank_overrun:
  "b AND 0x0f = 0x0f \<Longrightarrow> 0x100000 \<le> off \<Longrightarrow> mem_write off d (bank_w 0 b k) = None \<and> mem_read off (bank_w 0 b k) = None"
  by (simp add: card_defs bank_w_def card_bytes_def)

text \<open>Status: detection and write protection as levels, the change flag once.\<close>

lemma status_change_once:
  "bit (fst (status_r w r k)) 7 = k_change k \<and> \<not> bit (fst (status_r w r (snd (status_r w r k)))) 7
    \<and> bit (fst (status_r w r k)) 0 = (w \<or> r) \<and> bit (fst (status_r w r k)) 1 = (\<not> k_detect k)"
  by (simp add: status_r_def bit_or_iff)

end
