(* ===== verification/Pit8253.thy ===== *)
theory Pit8253
  imports Towns_Prelude "HOL-Library.Monad_Syntax"
begin

text \<open>
  The 8253 interval timer, \<open>src/devices/machine/pit8253.cpp\<close>: a counter is brought up to date lazily, by
  simulating the clock cycles that passed since the last update in one go. Time is a whole number of
  attoseconds. The loops of modes 2 and 3 are partial functions, so that not ending is \<open>None\<close>;
  \<open>t_calls\<close> records the calls of the output handler, the latest last.
\<close>

unbundle bit_operations_syntax

subsection \<open>State\<close>

datatype pit_type = I8254 | I8253 | FE2010

text \<open>
  \<open>t_clocked\<close> says that the counter has a clock frequency (\<open>m_clockin != 0\<close>), \<open>t_period\<close> is its period.
  An output is 0, 1 or, after a reset, the undetermined 2.
\<close>

record counter =
  t_type :: pit_type
  t_clocked :: bool
  t_period :: int
  t_clock_signal :: bool
  t_last_updated :: int
  t_next_update :: "int option"
  t_value :: u16
  t_latch :: u16
  t_count :: u16
  t_control :: u8
  t_status :: u8
  t_lowcount :: u8
  t_rmsb :: bool
  t_wmsb :: bool
  t_output :: nat
  t_output_pin :: nat
  t_gate :: bool
  t_gate_input :: bool
  t_gate_rose :: bool
  t_latched_count :: nat
  t_latched_status :: bool
  t_null_count :: bool
  t_phase :: nat
  t_calls :: "nat list"

definition CTRL_ACCESS :: "u8 \<Rightarrow> u8" where
  "CTRL_ACCESS control = drop_bit 4 control AND 0x03"

definition CTRL_MODE :: "u8 \<Rightarrow> u8" where
  "CTRL_MODE control = drop_bit 1 control AND (if tst control 0x04 then 0x03 else 0x07)"

definition CTRL_BCD :: "u8 \<Rightarrow> bool" where
  "CTRL_BCD control \<longleftrightarrow> bit control 0"

definition mode_of :: "counter \<Rightarrow> u8" where
  "mode_of c = CTRL_MODE (t_control c)"

subsection \<open>The counting element\<close>

definition digit :: "nat \<Rightarrow> u16 \<Rightarrow> nat" where
  "digit k v = unat v div 16 ^ k mod 16"

definition adjusted_count :: "counter \<Rightarrow> nat" where
  "adjusted_count c =
     (let v = t_value c
      in if \<not> CTRL_BCD (t_control c) then (if v = 0 then 0x10000 else unat v)
         else if v = 0 then 10000
         else digit 3 v * 1000 + digit 2 v * 100 + digit 1 v * 10 + digit 0 v)"

text \<open>Decrements of a number with up to four digits, written as the source carries from digit to digit.\<close>

definition borrow :: "nat \<Rightarrow> nat \<Rightarrow> nat \<times> nat" where
  "borrow cycles d = ((10 - (cycles - d) mod 10) mod 10, (cycles - d + 9) div 10)"

definition bcd_decrease :: "nat \<Rightarrow> nat \<times> nat \<times> nat \<times> nat \<Rightarrow> nat \<times> nat \<times> nat \<times> nat" where
  "bcd_decrease cycles ds =
     (case ds of (thousands, hundreds, tens, units) \<Rightarrow>
        if cycles \<le> units then (thousands, hundreds, tens, units - cycles)
        else let (units', c1) = borrow cycles units in
        if c1 \<le> tens then (thousands, hundreds, tens - c1, units')
        else let (tens', c2) = borrow c1 tens in
        if c2 \<le> hundreds then (thousands, hundreds - c2, tens', units')
        else let (hundreds', c3) = borrow c2 hundreds in
        ((10 + thousands - c3 mod 10) mod 10, hundreds', tens', units'))"

definition decrease_counter_value :: "nat \<Rightarrow> counter \<Rightarrow> counter" where
  "decrease_counter_value cycles c =
     (if \<not> CTRL_BCD (t_control c) then c\<lparr>t_value := t_value c - of_nat (cycles mod 0x10000)\<rparr>
      else let v = t_value c;
               (a, b, d, e) = bcd_decrease cycles (digit 3 v, digit 2 v, digit 1 v, digit 0 v)
           in c\<lparr>t_value := of_nat (a * 4096 + b * 256 + d * 16 + e)\<rparr>)"

definition load_counter_value :: "counter \<Rightarrow> counter" where
  "load_counter_value c = c\<lparr>t_value := t_count c, t_null_count := False\<rparr>"

subsection \<open>The output\<close>

definition flush_output :: "counter \<Rightarrow> counter" where
  "flush_output c =
     (let new_output = (if \<not> t_clocked c \<and> (mode_of c = 2 \<or> mode_of c = 3) \<and> \<not> t_gate_input c then 1 else t_output c)
      in if new_output \<noteq> t_output_pin c
         then c\<lparr>t_output_pin := new_output, t_calls := t_calls c @ [new_output]\<rparr> else c)"

definition set_output :: "nat \<Rightarrow> counter \<Rightarrow> counter" where
  "set_output out c = (if out \<noteq> t_output c then flush_output (c\<lparr>t_output := out\<rparr>) else c)"

subsection \<open>Simulation\<close>

text \<open>
  Each mode gives the counter and \<open>cycles_to_output\<close>, with \<open>None\<close> for \<open>CYCLES_NEVER\<close>. The cycle that
  loads the counter is the same code in the modes 0, 2, 3, 4 and 5.
\<close>

definition load_cycle :: "nat \<Rightarrow> counter \<Rightarrow> nat \<times> counter" where
  "load_cycle n c =
     (if t_phase c = 1 then
        (if n > 0 then (n - 1, load_counter_value (c\<lparr>t_phase := 2\<rparr>)) else (n, load_counter_value c))
      else (n, c))"

definition simulate_0 :: "nat \<Rightarrow> counter \<Rightarrow> counter \<times> nat option" where
  "simulate_0 n c =
     (if t_phase c = 0 then (c, None)
      else let (n1, c1) = load_cycle n c in
      if \<not> t_gate c1 then (c1, None)
      else let (n2, c2) =
             (if t_phase c1 = 2 \<and> n1 \<ge> adjusted_count c1
              then (n1 - adjusted_count c1, set_output 1 (c1\<lparr>t_phase := 3, t_value := 0\<rparr>)) else (n1, c1));
             c3 = decrease_counter_value n2 c2
           in (c3, Some (if t_phase c3 = 1 then 1 else if t_phase c3 = 2 \<or> t_phase c3 = 3 then adjusted_count c3 else 0)))"

definition simulate_1 :: "nat \<Rightarrow> counter \<Rightarrow> counter \<times> nat option" where
  "simulate_1 n c =
     (let (n1, c1) = (if t_phase c = 1 then (case load_cycle n c of (n', c') \<Rightarrow> (n', set_output 0 c')) else (n, c));
          c2 = (if t_phase c1 = 2 \<and> n1 \<ge> adjusted_count c1 then set_output 1 (c1\<lparr>t_phase := 3\<rparr>) else c1);
          c3 = decrease_counter_value n1 c2
      in (c3, if t_phase c3 = 1 then Some 1 else if t_phase c3 = 2 then Some (adjusted_count c3) else None))"

definition rate_turn :: "nat \<Rightarrow> counter \<Rightarrow> nat \<times> counter" where
  "rate_turn n c =
     (let c1 = (if t_phase c = 2 \<and> n + 1 \<ge> adjusted_count c then set_output 0 (c\<lparr>t_phase := 3\<rparr>) else c)
      in if n \<ge> adjusted_count c1 \<and> t_phase c1 = 3
         then (n - adjusted_count c1, set_output 1 (load_counter_value (c1\<lparr>t_phase := 2\<rparr>))) else (n, c1))"

partial_function (option) rate_loop :: "nat \<Rightarrow> counter \<Rightarrow> (nat \<times> counter) option" where
  "rate_loop n c =
     (case rate_turn n c of (n', c') \<Rightarrow> if n' \<ge> adjusted_count c' then rate_loop n' c' else Some (n', c'))"

definition simulate_2 :: "nat \<Rightarrow> counter \<Rightarrow> (counter \<times> nat option) option" where
  "simulate_2 n c =
     (if \<not> t_gate c \<or> t_phase c = 0 then Some (set_output 1 c, None)
      else let (n1, c1) = load_cycle n c in
      do { (n2, c2) \<leftarrow> rate_loop n1 c1;
           let c3 = decrease_counter_value n2 c2;
           Some (c3, Some (if t_phase c3 = 1 then 1 else if t_value c3 = 1 then 1 else adjusted_count c3 - 1)) })"

definition high_length :: "counter \<Rightarrow> nat" where
  "high_length c = (adjusted_count c + 1) div 2"

definition low_length :: "counter \<Rightarrow> nat" where
  "low_length c = adjusted_count c div 2"

definition square_turn :: "nat \<Rightarrow> counter \<Rightarrow> nat \<times> counter" where
  "square_turn n c =
     (let (n1, c1) = (if t_phase c = 2 \<and> n \<ge> high_length c
                      then (n - high_length c, set_output 0 (load_counter_value (c\<lparr>t_phase := 3\<rparr>))) else (n, c))
      in if t_phase c1 = 3 \<and> n1 \<ge> low_length c1
         then (n1 - low_length c1, set_output 1 (load_counter_value (c1\<lparr>t_phase := 2\<rparr>))) else (n1, c1))"

partial_function (option) square_loop :: "nat \<Rightarrow> counter \<Rightarrow> (nat \<times> counter) option" where
  "square_loop n c =
     (case square_turn n c of (n', c') \<Rightarrow>
        if (t_phase c' = 2 \<and> n' \<ge> high_length c') \<or> (t_phase c' = 3 \<and> n' \<ge> low_length c')
        then square_loop n' c' else Some (n', c'))"

definition simulate_3 :: "nat \<Rightarrow> counter \<Rightarrow> (counter \<times> nat option) option" where
  "simulate_3 n c =
     (if \<not> t_gate c \<or> t_phase c = 0 then
        (let c1 = set_output 1 c in Some (if t_type c = FE2010 then load_counter_value c1 else c1, None))
      else let (n1, c1) = load_cycle n c in
      if n1 > 0 then
        do { (n2, c2) \<leftarrow> square_loop n1 c1;
             let c3 = decrease_counter_value (n2 * 2) c2;
             Some (c3, Some (if t_phase c3 = 1 then 1 else if t_phase c3 = 2 then high_length c3
                             else if t_phase c3 = 3 then low_length c3 else 0)) }
      else Some (c1, Some 0))"

definition simulate_45 :: "nat \<Rightarrow> counter \<Rightarrow> counter \<times> nat option" where
  "simulate_45 n c =
     (if \<not> t_gate c \<and> mode_of c = 4 then (c, None)
      else let (n1, c1) = load_cycle n c;
               adj = (if t_value c1 = 0 \<and> t_phase c1 = 2 then 0 else adjusted_count c1);
               (n2, c2) = (if t_phase c1 = 2 \<and> n1 \<ge> adj
                           then (n1 - adj, set_output 0 (c1\<lparr>t_phase := 3, t_value := 0\<rparr>)) else (n1, c1));
               (n3, c3) = (if n2 > 0 \<and> t_phase c2 = 3
                           then (n2 - 1, set_output 1 (decrease_counter_value 1 (c2\<lparr>t_phase := 0\<rparr>))) else (n2, c2));
               c4 = decrease_counter_value n3 c3
           in (c4, Some (if t_phase c4 = 1 then 1 else if t_phase c4 = 2 then adjusted_count c4
                         else if t_phase c4 = 3 then 1 else 0)))"

definition simulate :: "nat \<Rightarrow> counter \<Rightarrow> counter option" where
  "simulate n c =
     do { (c1, cycles_to_output) \<leftarrow>
            (if mode_of c = 0 then Some (simulate_0 n c)
             else if mode_of c = 1 then Some (simulate_1 n c)
             else if mode_of c = 2 then simulate_2 n c
             else if mode_of c = 3 then simulate_3 n c
             else Some (simulate_45 n c));
          Some (c1\<lparr>t_next_update :=
            (case cycles_to_output of None \<Rightarrow> None
             | Some k \<Rightarrow> if t_clocked c1 then Some (t_last_updated c1 + int k * t_period c1) else None)\<rparr>) }"

subsection \<open>Updates\<close>

definition ATTOSECONDS_PER_SECOND :: int where
  "ATTOSECONDS_PER_SECOND = 10 ^ 18"

text \<open>The cycles in an elapsed time, in the steps of the source; below 1 Hz it counts in a loop. The source computes in 64 bits; a
  product that does not fit is an overflow of signed integers, undefined in C++, which \<open>gap_fits\<close> excludes below.\<close>

definition elapsed_cycles :: "int \<Rightarrow> int \<Rightarrow> int" where
  "elapsed_cycles elapsed period =
     (if period \<ge> ATTOSECONDS_PER_SECOND then elapsed div period
      else let seconds = elapsed div ATTOSECONDS_PER_SECOND; attos = elapsed mod ATTOSECONDS_PER_SECOND;
               cycles = attos div period
           in if seconds \<noteq> 0 then
                let attos1 = attos - cycles * period;
                    cycles_per_second = ATTOSECONDS_PER_SECOND div period;
                    cycles1 = cycles + cycles_per_second * seconds;
                    remainder_per_second = ATTOSECONDS_PER_SECOND - cycles_per_second * period;
                    attos2 = attos1 + seconds * remainder_per_second
                in cycles1 + attos2 div period
              else cycles)"

text \<open>
  The time advances by \<open>elapsed_cycles * m_clock_period\<close>, and the factor of that product is a \<open>u32\<close>: only the low 32 bits of the cycles
  count, while all of them are simulated. A machine's time stays below the 10^9 seconds that \<open>attotime\<close> takes for never.
\<close>

definition update :: "int \<Rightarrow> counter \<Rightarrow> counter option" where
  "update now c =
     (let (n, c1) =
        (if t_clocked c then
           (if now > t_last_updated c then
              let n = elapsed_cycles (now - t_last_updated c) (t_period c)
              in (n, c\<lparr>t_last_updated := t_last_updated c + n mod 2 ^ 32 * t_period c\<rparr>)
            else (0, c))
         else (0, c\<lparr>t_last_updated := now\<rparr>))
      in if n > 0 then simulate (nat n) c1
         else Some (if t_clocked c1 then c1\<lparr>t_next_update := Some (t_last_updated c1 + t_period c1)\<rparr> else c1))"

subsection \<open>Reading\<close>

definition masked_value :: "counter \<Rightarrow> u16" where
  "masked_value c = (if mode_of c = 3 \<and> t_type c \<noteq> FE2010 then t_value c AND 0xfffe else t_value c)"

definition counter_read :: "int \<Rightarrow> counter \<Rightarrow> (u8 \<times> counter) option" where
  "counter_read now c0 =
     do { c \<leftarrow> update now c0;
          let v = masked_value c;
          let acc = CTRL_ACCESS (t_control c);
          Some (if t_latched_status c then (t_status c, c\<lparr>t_latched_status := False\<rparr>)
                else if t_latched_count c \<noteq> 0 then
                  (if t_rmsb c then hi8 (t_latch c) else lo8 (t_latch c),
                   c\<lparr>t_rmsb := \<not> t_rmsb c, t_latched_count := t_latched_count c - 1\<rparr>)
                else if acc = 1 then (lo8 v, c)
                else if acc = 2 then (hi8 v, c)
                else if acc = 3 then
                  (if t_wmsb c then NOT (t_lowcount c) else if t_rmsb c then hi8 v else lo8 v, c\<lparr>t_rmsb := \<not> t_rmsb c\<rparr>)
                else (0, c)) }"

definition readback :: "int \<Rightarrow> u8 \<Rightarrow> counter \<Rightarrow> counter option" where
  "readback now command c0 =
     do { c \<leftarrow> update now c0;
          let c1 = (if \<not> bit command 0 \<and> \<not> t_latched_status c
                    then c\<lparr>t_status := ((t_control c AND 0x3f) OR (if t_output c \<noteq> 0 then 0x80 else 0)) OR (if t_null_count c then 0x40 else 0),
                           t_latched_status := True\<rparr>
                    else c);
          let v = masked_value c1;
          let acc = CTRL_ACCESS (t_control c1);
          Some (if \<not> bit command 1 \<and> \<not> t_rmsb c1 \<and> t_latched_count c1 = 0 then
                  (if acc = 1 then c1\<lparr>t_latch := (push_bit 8 v AND 0xff00) OR (v AND 0xff), t_latched_count := 1\<rparr>
                   else if acc = 2 then c1\<lparr>t_latch := (v AND 0xff00) OR (drop_bit 8 v AND 0xff), t_latched_count := 1\<rparr>
                   else if acc = 3 then c1\<lparr>t_latch := v, t_latched_count := 2\<rparr>
                   else c1)
                else c1) }"

subsection \<open>Writing\<close>

definition load_count :: "u16 \<Rightarrow> counter \<Rightarrow> counter" where
  "load_count newcount c =
     (let n = (if newcount = 1 then (if mode_of c = 2 then 2 else if mode_of c = 3 then 0 else newcount) else newcount);
          c1 = c\<lparr>t_count := n\<rparr>
      in if mode_of c = 2 \<or> mode_of c = 3 then (if t_phase c1 = 0 then c1\<lparr>t_phase := 1\<rparr> else c1)
         else if mode_of c = 0 \<or> mode_of c = 4 then c1\<lparr>t_phase := 1\<rparr> else c1)"

definition control_w :: "int \<Rightarrow> u8 \<Rightarrow> counter \<Rightarrow> counter option" where
  "control_w now data c0 =
     do { c \<leftarrow> update now c0;
          if CTRL_ACCESS data = 0 then readback now 1 c
          else
            let c1 = c\<lparr>t_control := data AND 0x3f, t_null_count := True, t_wmsb := False, t_rmsb := False, t_phase := 0\<rparr>
            in Some (set_output (if mode_of c1 \<noteq> 0 then 1 else 0) c1) }"

text \<open>The part all three access modes share: compensate for the running cycle, load, simulate nothing.\<close>

definition new_count :: "int \<Rightarrow> u16 \<Rightarrow> counter \<Rightarrow> counter option" where
  "new_count now n c =
     (let middle_of_a_cycle = (now > t_last_updated c \<and> t_clocked c);
          c1 = (if middle_of_a_cycle then c\<lparr>t_last_updated := t_last_updated c + t_period c\<rparr> else c);
          c2 = load_count n c1
      in if t_clocked c2 then simulate 0 c2 else Some c2)"

definition count_w :: "int \<Rightarrow> u8 \<Rightarrow> counter \<Rightarrow> counter option" where
  "count_w now data c0 =
     do { c \<leftarrow> update now c0;
          let acc = CTRL_ACCESS (t_control c);
          if acc = 1 then do { c1 \<leftarrow> new_count now (ucast data) c; Some (if mode_of c1 = 0 then set_output 0 c1 else c1) }
          else if acc = 2 then
            do { c1 \<leftarrow> new_count now (push_bit 8 (ucast data)) c; Some (if mode_of c1 = 0 then set_output 0 c1 else c1) }
          else if acc = 3 then
            (if t_wmsb c then
               do { c1 \<leftarrow> new_count now (ucast (t_lowcount c) OR push_bit 8 (ucast data)) c;
                    Some (c1\<lparr>t_wmsb := \<not> t_wmsb c1\<rparr>) }
             else
               (let c1 = c\<lparr>t_lowcount := data\<rparr>;
                    c2 = (if mode_of c1 = 0 then set_output 0 (c1\<lparr>t_phase := 0\<rparr>) else c1)
                in Some (c2\<lparr>t_wmsb := \<not> t_wmsb c2\<rparr>)))
          else Some c }"

definition edge_sensitive_gate :: "counter \<Rightarrow> bool" where
  "edge_sensitive_gate c \<longleftrightarrow>
     mode_of c = 1 \<or> mode_of c = 2 \<or> (mode_of c = 3 \<and> \<not> t_clocked c) \<or> mode_of c = 5"

definition gate_w :: "int \<Rightarrow> bool \<Rightarrow> counter \<Rightarrow> counter option" where
  "gate_w now state c0 =
     do { c \<leftarrow> update now c0;
          if state \<noteq> t_gate_input c then
            do { c1 \<leftarrow> update now c;
                 let c2 = c1\<lparr>t_gate_input := state\<rparr>;
                 let c3 = (if t_clocked c2 then c2\<lparr>t_gate := state\<rparr> else c2);
                 let c4 = (if state \<and> edge_sensitive_gate c3
                           then (if t_clocked c3 then c3\<lparr>t_phase := 1\<rparr> else c3\<lparr>t_gate_rose := True\<rparr>) else c3);
                 let c5 = (if \<not> t_clocked c4 then flush_output c4 else c4);
                 update now c5 }
          else Some c }"

text \<open>\<open>period\<close> is \<open>None\<close> for a frequency of 0, a counter clocked by its pin.\<close>

definition set_clockin :: "int \<Rightarrow> int option \<Rightarrow> counter \<Rightarrow> counter option" where
  "set_clockin now period c0 =
     do { c \<leftarrow> update now c0;
          update now (case period of None \<Rightarrow> c\<lparr>t_clocked := False\<rparr> | Some p \<Rightarrow> c\<lparr>t_clocked := True, t_period := p\<rparr>) }"

definition set_clock_signal :: "bool \<Rightarrow> counter \<Rightarrow> counter option" where
  "set_clock_signal state c =
     (let c1 = (if \<not> t_clock_signal c \<and> state then
                  let c' = c\<lparr>t_gate := t_gate_input c\<rparr>
                  in if t_gate_rose c' then
                       (if edge_sensitive_gate c' then c'\<lparr>t_phase := 1\<rparr> else c')\<lparr>t_gate_rose := False\<rparr>
                     else c'
                else c)
      in do { c2 \<leftarrow> (if t_clock_signal c1 \<and> \<not> state then simulate 1 c1 else Some c1);
              Some (c2\<lparr>t_clock_signal := state\<rparr>) })"

definition counter_start :: "pit_type \<Rightarrow> int option \<Rightarrow> int \<Rightarrow> counter" where
  "counter_start type period now =
     \<lparr>t_type = type, t_clocked = (period \<noteq> None), t_period = (case period of None \<Rightarrow> 0 | Some p \<Rightarrow> p),
      t_clock_signal = False, t_last_updated = now, t_next_update = None,
      t_value = 0, t_latch = 0, t_count = 0, t_control = 0x30, t_status = 0x30, t_lowcount = 0,
      t_rmsb = False, t_wmsb = False, t_output = 0, t_output_pin = 0, t_gate = True, t_gate_input = True,
      t_gate_rose = False, t_latched_count = 0, t_latched_status = False, t_null_count = True, t_phase = 0, t_calls = []\<rparr>"

definition counter_reset :: "int \<Rightarrow> counter \<Rightarrow> counter option" where
  "counter_reset now c =
     update now (c\<lparr>t_control := 0x30, t_status := 0x30, t_rmsb := False, t_wmsb := False, t_count := 0, t_value := 0,
       t_latch := 0, t_lowcount := 0, t_output := 2, t_output_pin := 2, t_latched_count := 0, t_latched_status := False,
       t_null_count := True, t_last_updated := now\<rparr>)"

subsection \<open>The chip\<close>

type_synonym pit = "nat \<Rightarrow> counter"

definition on_counter :: "nat \<Rightarrow> (counter \<Rightarrow> counter option) \<Rightarrow> pit \<Rightarrow> pit option" where
  "on_counter i f p = do { c \<leftarrow> f (p i); Some (p(i := c)) }"

definition pit_read :: "int \<Rightarrow> nat \<Rightarrow> pit \<Rightarrow> (u8 \<times> pit) option" where
  "pit_read now offset p =
     (let i = offset mod 4
      in if i = 3 then Some (0, p) else do { (v, c) \<leftarrow> counter_read now (p i); Some (v, p(i := c)) })"

fun readback_command :: "int \<Rightarrow> u8 \<Rightarrow> nat list \<Rightarrow> pit \<Rightarrow> pit option" where
  "readback_command now data [] p = Some p"
| "readback_command now data (i # is) p =
     do { p1 \<leftarrow> (if t_type (p i) = I8254 \<and> bit data (i + 1)
                then on_counter i (readback now (drop_bit 4 data AND 3)) p else Some p);
          readback_command now data is p1 }"

definition pit_write :: "int \<Rightarrow> nat \<Rightarrow> u8 \<Rightarrow> pit \<Rightarrow> pit option" where
  "pit_write now offset data p =
     (let i = offset mod 4
      in if i = 3 then
           (let timer = unat (drop_bit 6 data AND 3)
            in if timer = 3 then readback_command now data [0, 1, 2] p else on_counter timer (control_w now data) p)
         else on_counter i (count_w now data) p)"

subsection \<open>The elapsed cycles\<close>

lemma elapsed_cycles_exact: "0 < period \<Longrightarrow> 0 \<le> elapsed \<Longrightarrow> elapsed_cycles elapsed period = elapsed div period"
proof -
  assume p: "0 < period" and e: "0 \<le> elapsed"
  define A where "A = ATTOSECONDS_PER_SECOND"
  define s where "s = elapsed div A"
  define a where "a = elapsed mod A"
  have el: "elapsed = s * A + a" by (simp add: s_def a_def)
  have "s * A + a = (a div period + (A div period) * s) * period + (a - a div period * period + s * (A - A div period * period))"
    by (simp add: algebra_simps)
  then have "elapsed div period = a div period + A div period * s + (a - a div period * period + s * (A - A div period * period)) div period"
    using p unfolding el by (metis add.commute div_mult_self3 less_irrefl)
  then show ?thesis
    unfolding elapsed_cycles_def Let_def A_def [symmetric] s_def [symmetric] a_def [symmetric]
    by (auto simp: el)
qed

text \<open>The gaps that the arithmetic of an update can hold: fewer than 2^32 cycles, and no overflow of the remainder.\<close>

definition gap_fits :: "int \<Rightarrow> int \<Rightarrow> bool" where
  "gap_fits P gap \<longleftrightarrow> gap div P < 2 ^ 32 \<and>
     (P < ATTOSECONDS_PER_SECOND \<longrightarrow> gap div ATTOSECONDS_PER_SECOND * (ATTOSECONDS_PER_SECOND mod P) + P < 2 ^ 63)"

subsection \<open>Simulation always returns\<close>

lemma set_output_frame [simp]:
  "t_phase (set_output out c) = t_phase c" "t_value (set_output out c) = t_value c" "t_count (set_output out c) = t_count c"
  "t_control (set_output out c) = t_control c" "t_clocked (set_output out c) = t_clocked c" "t_gate (set_output out c) = t_gate c"
  "t_period (set_output out c) = t_period c" "t_output (set_output out c) = out" "t_type (set_output out c) = t_type c"
  "t_last_updated (set_output out c) = t_last_updated c" "t_gate_input (set_output out c) = t_gate_input c"
  "t_rmsb (set_output out c) = t_rmsb c" "t_wmsb (set_output out c) = t_wmsb c" "t_lowcount (set_output out c) = t_lowcount c"
  "t_latched_status (set_output out c) = t_latched_status c" "t_latched_count (set_output out c) = t_latched_count c"
  "t_null_count (set_output out c) = t_null_count c" "t_gate_rose (set_output out c) = t_gate_rose c"
  "mode_of (set_output out c) = mode_of c"
  by (simp_all add: set_output_def flush_output_def mode_of_def Let_def)

lemma flush_frame [simp]:
  "t_phase (flush_output c) = t_phase c" "t_clocked (flush_output c) = t_clocked c" "t_period (flush_output c) = t_period c"
  by (simp_all add: flush_output_def Let_def)

lemma load_frame [simp]:
  "t_phase (load_counter_value c) = t_phase c" "t_value (load_counter_value c) = t_count c" "t_count (load_counter_value c) = t_count c"
  "t_control (load_counter_value c) = t_control c" "t_clocked (load_counter_value c) = t_clocked c"
  "t_gate (load_counter_value c) = t_gate c" "t_period (load_counter_value c) = t_period c"
  "t_output (load_counter_value c) = t_output c" "t_last_updated (load_counter_value c) = t_last_updated c"
  "mode_of (load_counter_value c) = mode_of c"
  by (simp_all add: load_counter_value_def mode_of_def)

lemma decrease_frame [simp]:
  "t_phase (decrease_counter_value n c) = t_phase c" "t_count (decrease_counter_value n c) = t_count c"
  "t_control (decrease_counter_value n c) = t_control c" "t_clocked (decrease_counter_value n c) = t_clocked c"
  "t_gate (decrease_counter_value n c) = t_gate c" "t_period (decrease_counter_value n c) = t_period c"
  "t_output (decrease_counter_value n c) = t_output c" "t_last_updated (decrease_counter_value n c) = t_last_updated c"
  "mode_of (decrease_counter_value n c) = mode_of c"
  by (simp_all add: decrease_counter_value_def mode_of_def case_prod_unfold Let_def)

lemma nonzero_digit: "v \<noteq> 0 \<Longrightarrow> \<exists>k < 4. digit k v \<noteq> 0" for v :: u16
proof (rule ccontr)
  assume v: "v \<noteq> 0" and "\<not> ?thesis"
  then have d: "digit 0 v = 0" "digit 1 v = 0" "digit 2 v = 0" "digit 3 v = 0" by (auto simp: numeral_eq_Suc)
  define n where "n = unat v"
  have n: "n < 65536" using unsigned_less [of v] by (simp add: n_def)
  have "n = 0" using d n unfolding digit_def n_def [symmetric] by simp
  then show False using v by (simp only: n_def unsigned_eq_0_iff)
qed

lemma adjusted_positive: "0 < adjusted_count c"
proof (cases "CTRL_BCD (t_control c) \<and> t_value c \<noteq> 0")
  case True
  then obtain k where "k < 4" "digit k (t_value c) \<noteq> 0" using nonzero_digit by blast
  then have "0 < digit 0 (t_value c) \<or> 0 < digit 1 (t_value c) \<or> 0 < digit 2 (t_value c) \<or> 0 < digit 3 (t_value c)"
    by (auto simp: numeral_eq_Suc less_Suc_eq)
  then show ?thesis using True by (auto simp: adjusted_count_def Let_def)
next
  case False
  then show ?thesis by (auto simp: adjusted_count_def unat_gt_0 Let_def)
qed

lemma count_frame [simp]:
  "adjusted_count (set_output out c) = adjusted_count c" "adjusted_count (c\<lparr>t_phase := k\<rparr>) = adjusted_count c"
  by (simp_all add: adjusted_count_def)

lemma rate_turn_progress:
  "t_phase c = 2 \<or> t_phase c = 3 \<or> n < adjusted_count c \<Longrightarrow> rate_turn n c = (n', c') \<Longrightarrow>
     (t_phase c \<le> 3 \<longrightarrow> t_phase c' \<le> 3) \<and> (n' < adjusted_count c' \<or> n' < n \<and> t_phase c' = 2)"
  using adjusted_positive [of c] by (auto simp: rate_turn_def Let_def split: if_splits)

lemma rate_loop_returns:
  "t_phase c = 2 \<or> t_phase c = 3 \<or> n < adjusted_count c \<Longrightarrow>
     \<exists>n' c'. rate_loop n c = Some (n', c') \<and> (t_phase c \<le> 3 \<longrightarrow> t_phase c' \<le> 3)"
proof (induction n arbitrary: c rule: less_induct)
  case (less n)
  obtain m d where t: "rate_turn n c = (m, d)" by (cases "rate_turn n c")
  show ?case
  proof (cases "adjusted_count d \<le> m")
    case True
    then have "m < n" "t_phase d = 2" using rate_turn_progress [OF less.prems t] by auto
    then show ?thesis using less.IH [of m d] True by (subst rate_loop.simps) (auto simp: t)
  next
    case False
    then show ?thesis using rate_turn_progress [OF less.prems t] by (subst rate_loop.simps) (simp add: t)
  qed
qed

lemma high_positive: "0 < high_length c"
  using adjusted_positive [of c] by (simp add: high_length_def)

definition square_due :: "nat \<Rightarrow> counter \<Rightarrow> bool" where
  "square_due n c \<longleftrightarrow> (t_phase c = 2 \<and> n \<ge> high_length c) \<or> (t_phase c = 3 \<and> n \<ge> low_length c)"

lemma square_turn_progress:
  "square_turn n c = (n', c') \<Longrightarrow>
     (t_phase c \<le> 3 \<longrightarrow> t_phase c' \<le> 3) \<and>
     ((n', c') = (n, c) \<and> \<not> square_due n c \<or> t_phase c' = 3 \<and> t_phase c = 2 \<and> n' < n \<or>
      t_phase c' = 2 \<and> (n' < n \<or> n' = n \<and> t_phase c = 3))"
  using high_positive [of c] by (auto simp: square_turn_def square_due_def Let_def split: if_splits)

lemma square_loop_returns:
  "\<exists>n' c'. square_loop n c = Some (n', c') \<and> (t_phase c \<le> 3 \<longrightarrow> t_phase c' \<le> 3)"
proof (induction "2 * n + (if t_phase c = 3 then 1 else 0)" arbitrary: n c rule: less_induct)
  case less
  obtain m d where t: "square_turn n c = (m, d)" by (cases "square_turn n c")
  have ph: "t_phase c \<le> 3 \<longrightarrow> t_phase d \<le> 3" using square_turn_progress [OF t] by auto
  show ?case
  proof (cases "square_due m d")
    case True
    have "2 * m + (if t_phase d = 3 then 1 else 0) < 2 * n + (if t_phase c = 3 then 1 else 0)"
      using square_turn_progress [OF t] True by auto
    from less [OF this] show ?thesis using True ph by (subst square_loop.simps) (auto simp: t square_due_def)
  next
    case False
    then show ?thesis using ph by (subst square_loop.simps) (auto simp: t square_due_def)
  qed
qed

lemma load_cycle_phase:
  "load_cycle n c = (n', c') \<Longrightarrow> (t_phase c \<le> 3 \<longrightarrow> t_phase c' \<le> 3) \<and> (t_phase c' = 1 \<longrightarrow> n' = 0) \<and> (t_phase c \<noteq> 0 \<longrightarrow> t_phase c' \<noteq> 0)"
  by (auto simp: load_cycle_def split: if_splits)

lemma simulate_2_returns: "t_phase c \<le> 3 \<Longrightarrow> \<exists>c' k. simulate_2 n c = Some (c', k) \<and> t_phase c' \<le> 3"
proof -
  assume p: "t_phase c \<le> 3"
  obtain n1 c1 where l: "load_cycle n c = (n1, c1)" by (cases "load_cycle n c")
  show ?thesis
  proof (cases "\<not> t_gate c \<or> t_phase c = 0")
    case False
    have p1: "t_phase c1 \<le> 3" using load_cycle_phase [OF l] p by blast
    have "t_phase c1 = 2 \<or> t_phase c1 = 3 \<or> n1 < adjusted_count c1"
    proof (cases "t_phase c1 = 1")
      case True
      then show ?thesis using load_cycle_phase [OF l] adjusted_positive [of c1] by simp
    next
      case no: False
      have "t_phase c1 \<noteq> 0" using load_cycle_phase [OF l] False by blast
      then show ?thesis using p1 no by linarith
    qed
    from rate_loop_returns [OF this] obtain n2 c2 where r: "rate_loop n1 c1 = Some (n2, c2)" "t_phase c2 \<le> 3"
      using p1 by blast
    then show ?thesis using False by (auto simp: simulate_2_def l Let_def)
  qed (auto simp: simulate_2_def p)
qed

lemma simulate_3_returns: "t_phase c \<le> 3 \<Longrightarrow> \<exists>c' k. simulate_3 n c = Some (c', k) \<and> t_phase c' \<le> 3"
proof -
  assume p: "t_phase c \<le> 3"
  obtain n1 c1 where l: "load_cycle n c = (n1, c1)" by (cases "load_cycle n c")
  have p1: "t_phase c1 \<le> 3" using load_cycle_phase [OF l] p by blast
  obtain n2 c2 where r: "square_loop n1 c1 = Some (n2, c2)" "t_phase c2 \<le> 3" using square_loop_returns [of n1 c1] p1 by blast
  then show ?thesis using p p1 by (auto simp: simulate_3_def l Let_def)
qed

lemma simulate_0_phase: "t_phase c \<le> 3 \<Longrightarrow> t_phase (fst (simulate_0 n c)) \<le> 3"
  using load_cycle_phase [of n c] by (auto simp: simulate_0_def Let_def split: prod.splits if_splits)

lemma simulate_1_phase: "t_phase c \<le> 3 \<Longrightarrow> t_phase (fst (simulate_1 n c)) \<le> 3"
  using load_cycle_phase [of n c] by (auto simp: simulate_1_def Let_def split: prod.splits if_splits)

lemma phase_pair: "t_phase (snd a) \<le> 3 \<Longrightarrow> t_phase (snd b) \<le> 3 \<Longrightarrow> t_phase (snd (if P then a else b)) \<le> 3"
  by simp

lemma simulate_45_phase: "t_phase c \<le> 3 \<Longrightarrow> t_phase (fst (simulate_45 n c)) \<le> 3"
proof -
  assume "t_phase c \<le> 3"
  then have "t_phase (snd (load_cycle n c)) \<le> 3" using load_cycle_phase [of n c] by (cases "load_cycle n c") auto
  then show ?thesis
    using \<open>t_phase c \<le> 3\<close> by (simp add: simulate_45_def Let_def case_prod_unfold phase_pair)
qed

lemma simulate_returns: "t_phase c \<le> 3 \<Longrightarrow> \<exists>c'. simulate n c = Some c' \<and> t_phase c' \<le> 3"
proof -
  assume p: "t_phase c \<le> 3"
  have "\<exists>d k. (if mode_of c = 0 then Some (simulate_0 n c)
             else if mode_of c = 1 then Some (simulate_1 n c)
             else if mode_of c = 2 then simulate_2 n c
             else if mode_of c = 3 then simulate_3 n c
             else Some (simulate_45 n c)) = Some (d, k) \<and> t_phase d \<le> 3"
    using simulate_0_phase [OF p, of n] simulate_1_phase [OF p, of n] simulate_45_phase [OF p, of n]
      simulate_2_returns [OF p, of n] simulate_3_returns [OF p, of n]
    by (cases "simulate_0 n c"; cases "simulate_1 n c"; cases "simulate_45 n c") auto
  then show ?thesis by (force simp: simulate_def)
qed

lemma update_returns: "t_phase c \<le> 3 \<Longrightarrow> \<exists>c'. update now c = Some c' \<and> t_phase c' \<le> 3"
  using simulate_returns by (auto simp: update_def Let_def)

lemma bind_phase:
  "\<exists>c. m = Some c \<and> t_phase c \<le> 3 \<Longrightarrow> (\<And>c. t_phase c \<le> 3 \<Longrightarrow> \<exists>c'. f c = Some c' \<and> t_phase c' \<le> 3) \<Longrightarrow>
     \<exists>c'. Option.bind m f = Some c' \<and> t_phase c' \<le> 3"
  by auto

lemma readback_returns: "t_phase c \<le> 3 \<Longrightarrow> \<exists>c'. readback now cmd c = Some c' \<and> t_phase c' \<le> 3"
  unfolding readback_def by (rule bind_phase, erule update_returns) (simp add: Let_def)

lemma control_w_returns: "t_phase c \<le> 3 \<Longrightarrow> \<exists>c'. control_w now data c = Some c' \<and> t_phase c' \<le> 3"
  unfolding control_w_def
  by (rule bind_phase, erule update_returns) (auto simp: Let_def intro: readback_returns)

lemma load_count_phase: "t_phase c \<le> 3 \<Longrightarrow> t_phase (load_count n c) \<le> 3"
  by (simp add: load_count_def Let_def mode_of_def)

lemma new_count_returns: "t_phase c \<le> 3 \<Longrightarrow> \<exists>c'. new_count now n c = Some c' \<and> t_phase c' \<le> 3"
  by (simp add: new_count_def Let_def load_count_phase simulate_returns)

lemma count_w_returns: "t_phase c \<le> 3 \<Longrightarrow> \<exists>c'. count_w now data c = Some c' \<and> t_phase c' \<le> 3"
  unfolding count_w_def Let_def
  by (rule bind_phase, erule update_returns)
    (auto intro!: bind_phase new_count_returns simp: mode_of_def)

lemma gate_w_returns: "t_phase c \<le> 3 \<Longrightarrow> \<exists>c'. gate_w now state c = Some c' \<and> t_phase c' \<le> 3"
  unfolding gate_w_def Let_def
  by (rule bind_phase, erule update_returns) (auto intro!: bind_phase update_returns split: if_splits)

lemma set_clockin_returns: "t_phase c \<le> 3 \<Longrightarrow> \<exists>c'. set_clockin now period c = Some c' \<and> t_phase c' \<le> 3"
  unfolding set_clockin_def
  by (rule bind_phase, erule update_returns) (auto intro!: update_returns split: option.split)

lemma set_clock_signal_returns: "t_phase c \<le> 3 \<Longrightarrow> \<exists>c'. set_clock_signal state c = Some c' \<and> t_phase c' \<le> 3"
  unfolding set_clock_signal_def Let_def by (auto intro!: bind_phase simulate_returns)

lemma counter_read_returns: "t_phase c \<le> 3 \<Longrightarrow> \<exists>v c'. counter_read now c = Some (v, c') \<and> t_phase c' \<le> 3"
  using update_returns [of c now] by (auto simp: counter_read_def Let_def)

text \<open>The programs a chip can be given: everything the three counters are asked to do.\<close>

datatype pit_event = PitRead int nat | PitWrite int nat u8 | PitGate int nat bool | PitClockin int nat "int option"
  | PitClock nat bool | PitUpdate int nat | PitReset int nat

definition pit_event :: "pit_event \<Rightarrow> pit \<Rightarrow> pit option" where
  "pit_event e p = (case e of
     PitRead now offset \<Rightarrow> map_option snd (pit_read now offset p)
   | PitWrite now offset data \<Rightarrow> pit_write now offset data p
   | PitGate now i state \<Rightarrow> on_counter i (gate_w now state) p
   | PitClockin now i period \<Rightarrow> on_counter i (set_clockin now period) p
   | PitClock i state \<Rightarrow> on_counter i (set_clock_signal state) p
   | PitUpdate now i \<Rightarrow> on_counter i (update now) p
   | PitReset now i \<Rightarrow> on_counter i (counter_reset now) p)"

fun pit_run :: "pit_event list \<Rightarrow> pit \<Rightarrow> pit option" where
  "pit_run [] p = Some p"
| "pit_run (e # es) p = do { p1 \<leftarrow> pit_event e p; pit_run es p1 }"

definition pit_ok :: "pit \<Rightarrow> bool" where
  "pit_ok p \<longleftrightarrow> (\<forall>i. t_phase (p i) \<le> 3)"

lemma on_counter_returns:
  "pit_ok p \<Longrightarrow> (\<And>c. t_phase c \<le> 3 \<Longrightarrow> \<exists>c'. f c = Some c' \<and> t_phase c' \<le> 3) \<Longrightarrow> \<exists>p'. on_counter i f p = Some p' \<and> pit_ok p'"
proof -
  assume p: "pit_ok p" and f: "\<And>c. t_phase c \<le> 3 \<Longrightarrow> \<exists>c'. f c = Some c' \<and> t_phase c' \<le> 3"
  obtain c' where "f (p i) = Some c'" "t_phase c' \<le> 3" using f [of "p i"] p by (auto simp: pit_ok_def)
  then show ?thesis using p by (auto simp: on_counter_def pit_ok_def)
qed

lemma readback_command_returns: "pit_ok p \<Longrightarrow> \<exists>p'. readback_command now data is p = Some p' \<and> pit_ok p'"
proof (induction "is" arbitrary: p)
  case (Cons i "is")
  obtain q where "on_counter i (readback now (drop_bit 4 data AND 3)) p = Some q" "pit_ok q"
    using on_counter_returns [OF Cons.prems, of "readback now (drop_bit 4 data AND 3)" i] readback_returns by blast
  then show ?case using Cons by simp
qed simp

lemma pit_event_returns: "pit_ok p \<Longrightarrow> \<exists>p'. pit_event e p = Some p' \<and> pit_ok p'"
proof (cases e)
  case (PitRead now offset)
  assume p: "pit_ok p"
  then obtain v c' where "counter_read now (p (offset mod 4)) = Some (v, c')" "t_phase c' \<le> 3"
    using counter_read_returns [of "p (offset mod 4)" now] by (auto simp: pit_ok_def)
  then show ?thesis using p PitRead by (auto simp: pit_event_def pit_read_def pit_ok_def Let_def)
next
  case (PitReset now i)
  assume "pit_ok p"
  then show ?thesis using PitReset
    by (auto simp: pit_event_def counter_reset_def intro!: on_counter_returns update_returns)
qed (auto simp: pit_event_def pit_write_def Let_def simp del: readback_command.simps intro!: on_counter_returns readback_command_returns
       control_w_returns count_w_returns gate_w_returns set_clockin_returns set_clock_signal_returns update_returns)

text \<open>C32: No sequence of accesses, gate and clock edges and updates makes the interval timer loop for ever: the
  loops of the modes 2 and 3 end whatever count, phase and number of elapsed cycles they are entered with.\<close>

theorem pit_never_hangs: "\<exists>p. pit_run es (\<lambda>i. counter_start type (period i) start) = Some p"
proof -
  have "pit_ok p \<Longrightarrow> \<exists>p'. pit_run es p = Some p'" for p
  proof (induction es arbitrary: p)
    case (Cons e es)
    then obtain q where "pit_event e p = Some q" "pit_ok q" using pit_event_returns by blast
    then show ?case using Cons.IH by simp
  qed simp
  then show ?thesis by (simp add: pit_ok_def counter_start_def)
qed

subsection \<open>The waves of the modes 2 and 3\<close>

text \<open>What simulation leaves alone.\<close>

definition same_setup :: "counter \<Rightarrow> counter \<Rightarrow> bool" where
  "same_setup c c' \<longleftrightarrow> t_control c' = t_control c \<and> t_count c' = t_count c \<and> t_gate c' = t_gate c \<and>
     t_clocked c' = t_clocked c \<and> t_period c' = t_period c \<and> t_last_updated c' = t_last_updated c"

lemma same_setup_refl [simp]: "same_setup c c"
  by (simp add: same_setup_def)

lemma same_setup_trans: "same_setup a b \<Longrightarrow> same_setup b c \<Longrightarrow> same_setup a c"
  by (simp add: same_setup_def)

lemma same_setup_steps [simp]:
  "same_setup a (set_output out c) = same_setup a c" "same_setup a (load_counter_value c) = same_setup a c"
  "same_setup a (decrease_counter_value n c) = same_setup a c" "same_setup a (c\<lparr>t_phase := k\<rparr>) = same_setup a c"
  "same_setup a (c\<lparr>t_next_update := u\<rparr>) = same_setup a c"
  by (simp_all add: same_setup_def)

text \<open>The period \<open>N\<close> of a binary counter and its state \<open>p\<close> cycles into it.\<close>

definition full_count :: "u16 \<Rightarrow> nat" where
  "full_count v = (if v = 0 then 65536 else unat v)"

definition wave_setup :: "u8 \<Rightarrow> nat \<Rightarrow> counter \<Rightarrow> bool" where
  "wave_setup mode N c \<longleftrightarrow> mode_of c = mode \<and> \<not> CTRL_BCD (t_control c) \<and> t_gate c \<and> N = full_count (t_count c) \<and> 2 \<le> N"

definition rate_at :: "nat \<Rightarrow> counter \<Rightarrow> nat \<Rightarrow> bool" where
  "rate_at N c p \<longleftrightarrow> wave_setup 2 N c \<and> p < N \<and> t_value c = of_nat (N - p) \<and>
     t_phase c = (if p = N - 1 then 3 else 2) \<and> t_output c = (if p = N - 1 then 0 else 1)"

definition square_at :: "nat \<Rightarrow> counter \<Rightarrow> nat \<Rightarrow> bool" where
  "square_at N c p \<longleftrightarrow> (let high = (N + 1) div 2 in
     wave_setup 3 N c \<and> p < N \<and> t_value c = of_nat (N - 2 * (if p < high then p else p - high)) \<and>
     t_phase c = (if p < high then 2 else 3) \<and> t_output c = (if p < high then 1 else 0))"

lemma unat_u16: "unat v < 65536" for v :: u16
  using unsigned_less [of v, where ?'a = nat] by simp

lemma full_count_range: "1 \<le> full_count v" "full_count v \<le> 65536"
  using less_imp_le [OF unat_u16 [of v]] by (simp_all add: full_count_def unat_gt_0 Suc_le_eq)

lemma of_full_count: "of_nat (full_count v) = v"
  by (simp add: full_count_def)

lemma wave_range: "wave_setup m N c \<Longrightarrow> 2 \<le> N \<and> N \<le> 65536"
  using full_count_range by (auto simp: wave_setup_def)

lemma wave_same: "same_setup c c' \<Longrightarrow> wave_setup m N c' = wave_setup m N c"
  by (simp add: wave_setup_def same_setup_def mode_of_def)

lemma full_count_of_nat: "1 \<le> v \<Longrightarrow> v \<le> 65536 \<Longrightarrow> full_count (of_nat v) = v"
proof (cases "v = 65536")
  case False
  assume "1 \<le> v" "v \<le> 65536"
  then have "unat (of_nat v :: u16) = v" using False by (simp add: unat_of_nat take_bit_nat_eq_self)
  then show ?thesis using \<open>1 \<le> v\<close> by (auto simp: full_count_def)
qed (simp add: full_count_def)

lemma adjusted_binary: "\<not> CTRL_BCD (t_control c) \<Longrightarrow> adjusted_count c = full_count (t_value c)"
  by (simp add: adjusted_count_def full_count_def Let_def)

lemma decrease_binary: "\<not> CTRL_BCD (t_control c) \<Longrightarrow> t_value c = of_nat v \<Longrightarrow> n \<le> v \<Longrightarrow>
    t_value (decrease_counter_value n c) = of_nat (v - n)"
proof -
  assume b: "\<not> CTRL_BCD (t_control c)" and v: "t_value c = of_nat v" "n \<le> v"
  have "(of_nat (n mod 65536) :: u16) = of_nat n"
    by (simp add: word_unat_eq_iff unat_of_nat take_bit_eq_mod)
  then show ?thesis using b v by (simp add: decrease_counter_value_def of_nat_diff)
qed

lemma wave_adjusted:
  "wave_setup m N c \<Longrightarrow> t_value c = of_nat v \<Longrightarrow> 1 \<le> v \<Longrightarrow> v \<le> N \<Longrightarrow> adjusted_count c = v"
  using wave_range [of m N c] by (simp add: wave_setup_def adjusted_binary full_count_of_nat)

lemma wave_value: "wave_setup m N c \<Longrightarrow> t_count c = of_nat N"
  by (simp add: wave_setup_def of_full_count)

lemma wave_frame [simp]:
  "wave_setup m N (set_output out c) = wave_setup m N c" "wave_setup m N (load_counter_value c) = wave_setup m N c"
  "wave_setup m N (decrease_counter_value n c) = wave_setup m N c" "wave_setup m N (c\<lparr>t_phase := k\<rparr>) = wave_setup m N c"
  "wave_setup m N (c\<lparr>t_next_update := u\<rparr>) = wave_setup m N c" "wave_setup m N (c\<lparr>t_last_updated := x\<rparr>) = wave_setup m N c"
  by (simp_all add: wave_setup_def mode_of_def)

lemma rate_at_facts:
  "rate_at N c p \<Longrightarrow> wave_setup 2 N c \<and> p < N \<and> 2 \<le> N \<and> N \<le> 65536 \<and> adjusted_count c = N - p \<and> (t_phase c = 2 \<or> t_phase c = 3)"
  using wave_range [of 2 N c] wave_adjusted [of 2 N c "N - p"] by (auto simp: rate_at_def)

text \<open>Within the running period a turn of the loop sees the last cycle; past it, the counter is reloaded.\<close>

definition last_cycle :: "nat \<Rightarrow> nat \<Rightarrow> counter \<Rightarrow> counter" where
  "last_cycle N k c = (if t_phase c = 2 \<and> k = N - 1 then set_output 0 (c\<lparr>t_phase := 3\<rparr>) else c)"

lemma rate_turn_within: "rate_at N c p \<Longrightarrow> p + n < N \<Longrightarrow> rate_turn n c = (n, last_cycle N (p + n) c)"
  using rate_at_facts [of N c p] by (auto simp: rate_turn_def last_cycle_def Let_def)

lemma rate_turn_past:
  "rate_at N c p \<Longrightarrow> N \<le> p + n \<Longrightarrow>
     \<exists>d. rate_turn n c = (n - (N - p), d) \<and> rate_at N d 0 \<and> same_setup c d"
proof -
  assume r: "rate_at N c p" and n: "N \<le> p + n"
  define b where "b = (if t_phase c = 2 then set_output 0 (c\<lparr>t_phase := 3\<rparr>) else c)"
  define d where "d = set_output 1 (load_counter_value (b\<lparr>t_phase := 2\<rparr>))"
  note f = rate_at_facts [OF r]
  have t: "rate_turn n c = (n - (N - p), d)"
    using n f by (auto simp: rate_turn_def d_def b_def Let_def)
  have s: "same_setup c b" by (simp add: b_def)
  then have sd: "same_setup c d" by (simp add: d_def)
  have "wave_setup 2 N b" using f wave_same [OF s] by blast
  then have "rate_at N d 0" using f wave_value [of 2 N b] by (simp add: rate_at_def d_def)
  then show ?thesis using t sd by blast
qed

lemma rate_loop_within: "rate_at N c p \<Longrightarrow> p + n < N \<Longrightarrow> rate_loop n c = Some (n, last_cycle N (p + n) c)"
proof -
  assume r: "rate_at N c p" and n: "p + n < N"
  have "\<not> N - p \<le> n" using n by linarith
  then show ?thesis using rate_at_facts [OF r] rate_turn_within [OF r n]
    by (subst rate_loop.simps) (simp add: last_cycle_def)
qed

lemma rate_loop_past:
  "rate_at N c p \<Longrightarrow> N \<le> p + n \<Longrightarrow>
     \<exists>d. rate_loop n c = Some ((p + n) mod N, d) \<and> rate_at N d 0 \<and> same_setup c d"
proof (induction n arbitrary: c p rule: less_induct)
  case (less n)
  obtain d where t: "rate_turn n c = (n - (N - p), d)" and d: "rate_at N d 0" "same_setup c d"
    using rate_turn_past [OF less.prems] by blast
  note f = rate_at_facts [OF less.prems(1)] rate_at_facts [OF d(1)]
  have pos: "(p + n) mod N = (n - (N - p)) mod N"
  proof -
    have "n - (N - p) = p + n - N" using f less.prems(2) by linarith
    then show ?thesis using less.prems(2) by (simp add: le_mod_geq)
  qed
  show ?case
  proof (cases "N \<le> n - (N - p)")
    case True
    have "n - (N - p) < n" using f less.prems(2) by linarith
    from less.IH [OF this d(1)] True obtain e where
      "rate_loop (n - (N - p)) d = Some ((n - (N - p)) mod N, e)" "rate_at N e 0" "same_setup d e" by auto
    then show ?thesis using True t f pos d(2) same_setup_trans
      by (subst rate_loop.simps) auto
  next
    case False
    then show ?thesis using t f pos d by (subst rate_loop.simps) auto
  qed
qed

text \<open>The number of cycles until the output changes next.\<close>

definition rate_due :: "nat \<Rightarrow> nat \<Rightarrow> nat" where
  "rate_due N p = (if p = N - 1 then 1 else N - 1 - p)"

definition wakes :: "nat \<Rightarrow> counter \<Rightarrow> bool" where
  "wakes k c \<longleftrightarrow> t_next_update c = (if t_clocked c then Some (t_last_updated c + int k * t_period c) else None)"

lemma simulate_rate:
  "mode_of c = 2 \<Longrightarrow> t_gate c \<Longrightarrow> t_phase c = 2 \<or> t_phase c = 3 \<Longrightarrow> rate_loop n c = Some (m, d) \<Longrightarrow>
     t_phase d \<noteq> 1 \<Longrightarrow> t_value (decrease_counter_value m d) = of_nat (N - q) \<Longrightarrow> wave_setup 2 N d \<Longrightarrow> q < N \<Longrightarrow>
     \<exists>c'. simulate n c = Some c' \<and> wakes (rate_due N q) c' \<and> t_phase c' = t_phase d \<and> t_output c' = t_output d \<and>
       t_value c' = of_nat (N - q) \<and> same_setup d c'"
proof -
  assume a: "mode_of c = 2" "t_gate c" "t_phase c = 2 \<or> t_phase c = 3" "rate_loop n c = Some (m, d)" "t_phase d \<noteq> 1"
    "t_value (decrease_counter_value m d) = of_nat (N - q)" "wave_setup 2 N d" "q < N"
  let ?e = "decrease_counter_value m d"
  have w: "wave_setup 2 N ?e" using a by simp
  have adj: "adjusted_count ?e = N - q" using wave_adjusted [OF w a(6)] a(8) by simp
  have fc: "full_count (t_value ?e) = N - q" using adj adjusted_binary [of ?e] w by (simp add: wave_setup_def)
  have one: "t_value ?e = 1 \<longleftrightarrow> N - q = 1"
  proof
    assume "N - q = 1"
    then show "t_value ?e = 1" using a(6) by simp
  qed (use fc in \<open>simp add: full_count_def\<close>)
  have l: "load_cycle n c = (n, c)" using a(3) by (auto simp: load_cycle_def)
  have "simulate_2 n c = Some (?e, Some (rate_due N q))"
    using a(2, 3, 4, 5, 8) adj one by (auto simp: simulate_2_def l rate_due_def)
  then show ?thesis using a(1, 6) by (auto simp: simulate_def wakes_def)
qed

lemma rate_wave_within:
  "rate_at N c p \<Longrightarrow> p + n < N \<Longrightarrow>
     \<exists>c'. simulate n c = Some c' \<and> rate_at N c' (p + n) \<and> wakes (rate_due N (p + n)) c' \<and> same_setup c c'"
proof -
  assume r: "rate_at N c p" and n: "p + n < N"
  let ?d = "last_cycle N (p + n) c"
  note f = rate_at_facts [OF r]
  have d: "same_setup c ?d" "t_value ?d = of_nat (N - p)"
    "t_phase ?d = (if p + n = N - 1 then 3 else 2)" "t_output ?d = (if p + n = N - 1 then 0 else 1)"
    using r n by (auto simp: last_cycle_def rate_at_def split: if_splits)
  have w: "wave_setup 2 N ?d" using f wave_same [OF d(1)] by blast
  have v: "t_value (decrease_counter_value n ?d) = of_nat (N - (p + n))"
    using decrease_binary [of ?d "N - p" n] d(2) w n by (simp add: wave_setup_def)
  have m: "mode_of c = 2" "t_gate c" "t_phase c = 2 \<or> t_phase c = 3" using f by (auto simp: wave_setup_def)
  have "t_phase ?d \<noteq> 1" using d(3) by simp
  from simulate_rate [OF m rate_loop_within [OF r n] this v w n] obtain c' where
    c': "simulate n c = Some c'" "wakes (rate_due N (p + n)) c'" "t_phase c' = t_phase ?d" "t_output c' = t_output ?d"
      "t_value c' = of_nat (N - (p + n))" "same_setup ?d c'"
    by blast
  have s: "same_setup c c'" using d(1) c'(6) same_setup_trans by blast
  then have "rate_at N c' (p + n)" using c' d n f wave_same [OF s] by (simp add: rate_at_def)
  then show ?thesis using c'(1, 2) s by blast
qed

lemma rate_wave_past:
  "rate_at N c p \<Longrightarrow> N \<le> p + n \<Longrightarrow> k = (p + n) mod N \<Longrightarrow>
     \<exists>c'. simulate n c = Some c' \<and> wakes (rate_due N k) c' \<and> t_phase c' = 2 \<and> t_output c' = 1 \<and>
       t_value c' = of_nat (N - k) \<and> same_setup c c'"
proof -
  assume r: "rate_at N c p" and n: "N \<le> p + n" and k: "k = (p + n) mod N"
  note f = rate_at_facts [OF r]
  obtain d where l: "rate_loop n c = Some (k, d)" and d: "rate_at N d 0" "same_setup c d"
    using rate_loop_past [OF r n] k by blast
  have kN: "k < N" using k f by simp
  have "0 \<noteq> N - 1" using f by linarith
  then have w: "wave_setup 2 N d" "t_phase d = 2" "t_output d = 1" "t_value d = of_nat N"
    using d(1) by (simp_all add: rate_at_def)
  have b: "\<not> CTRL_BCD (t_control d)" using w(1) by (simp add: wave_setup_def)
  have v: "t_value (decrease_counter_value k d) = of_nat (N - k)"
    by (rule decrease_binary [OF b w(4) less_imp_le [OF kN]])
  have m: "mode_of c = 2" "t_gate c" "t_phase c = 2 \<or> t_phase c = 3" using f by (auto simp: wave_setup_def)
  have "t_phase d \<noteq> 1" using w(2) by simp
  from simulate_rate [OF m l this v w(1) kN] obtain c' where
    c': "simulate n c = Some c'" "wakes (rate_due N k) c'" "t_phase c' = t_phase d" "t_output c' = t_output d"
      "t_value c' = of_nat (N - k)" "same_setup d c'"
    by blast
  show ?thesis
    by (rule exI [of _ c']) (use c' w(2, 3) same_setup_trans [OF d(2) c'(6)] in simp)
qed

lemma rate_wave_step:
  assumes "rate_at N c p" and "p + n < N \<or> (p + n) mod N \<noteq> N - 1"
  shows "\<exists>c'. simulate n c = Some c' \<and> rate_at N c' ((p + n) mod N) \<and> wakes (rate_due N ((p + n) mod N)) c' \<and> same_setup c c'"
proof (cases "p + n < N")
  case True
  then show ?thesis using rate_wave_within [OF assms(1) True] by simp
next
  case False
  then have n: "N \<le> p + n" and k: "(p + n) mod N \<noteq> N - 1" using assms(2) by auto
  note f = rate_at_facts [OF assms(1)]
  obtain c' where c': "simulate n c = Some c'" "wakes (rate_due N ((p + n) mod N)) c'" "t_phase c' = 2" "t_output c' = 1"
    "t_value c' = of_nat (N - (p + n) mod N)" "same_setup c c'"
    using rate_wave_past [OF assms(1) n refl] by blast
  have "rate_at N c' ((p + n) mod N)" using c' k f wave_same [OF c'(6)] by (simp add: rate_at_def)
  then show ?thesis using c' by blast
qed

text \<open>The rate generator of mode 2 divides by its count: any number of elapsed cycles simulated in one go leaves the
  counter, its phase and its output where single cycles would, low in the last cycle of each period of \<open>N\<close> and high
  in the others, and sets the timer for the next change of the output. The exception is a step that
  skips a reload and ends in the last cycle of a later period.\<close>

lemma rate_wave:
  assumes "rate_at N c p" and "p + n < N \<or> (p + n) mod N \<noteq> N - 1"
  shows "\<exists>c'. simulate n c = Some c' \<and> rate_at N c' ((p + n) mod N) \<and> wakes (rate_due N ((p + n) mod N)) c' \<and> same_setup c c'"
  using rate_wave_step [OF assms] .

text \<open>The exception: the output stays high with the counter at 1, where single cycles have it low.\<close>

lemma rate_pulse_lost:
  "rate_at N c p \<Longrightarrow> N \<le> p + n \<Longrightarrow> (p + n) mod N = N - 1 \<Longrightarrow>
     \<exists>c'. simulate n c = Some c' \<and> t_value c' = 1 \<and> t_output c' = 1"
proof -
  assume r: "rate_at N c p" "N \<le> p + n" "(p + n) mod N = N - 1"
  have "N - (N - 1) = 1" using rate_at_facts [OF r(1)] by simp
  then show ?thesis using rate_wave_past [OF r(1, 2) refl] unfolding r(3) by auto
qed

subsection \<open>The square wave\<close>

definition square_due_in :: "nat \<Rightarrow> nat \<Rightarrow> nat" where
  "square_due_in N p = (if p < (N + 1) div 2 then (N + 1) div 2 - p else N - p)"

lemma square_at_facts:
  "square_at N c p \<Longrightarrow> wave_setup 3 N c \<and> p < N \<and> 2 \<le> N \<and> N \<le> 65536 \<and>
     (p < (N + 1) div 2 \<longrightarrow> t_phase c = 2 \<and> t_output c = 1 \<and> adjusted_count c = N - 2 * p \<and> high_length c = (N + 1) div 2 - p) \<and>
     (\<not> p < (N + 1) div 2 \<longrightarrow> t_phase c = 3 \<and> t_output c = 0 \<and> adjusted_count c = N - 2 * (p - (N + 1) div 2) \<and> low_length c = N - p)"
proof -
  assume s: "square_at N c p"
  define h where "h = (N + 1) div 2"
  have s': "t_value c = of_nat (N - 2 * (if p < h then p else p - h))" "t_phase c = (if p < h then 2 else 3)"
    "t_output c = (if p < h then 1 else 0)" and w: "wave_setup 3 N c" "p < N"
    using s unfolding square_at_def Let_def h_def by blast+
  note r = wave_range [OF w(1)]
  have h: "2 * h = N \<or> 2 * h = N + 1" unfolding h_def by presburger
  show ?thesis
  proof (cases "p < h")
    case True
    have v: "t_value c = of_nat (N - 2 * p)" "t_phase c = 2" "t_output c = 1"
      using s' True by simp_all
    have a: "adjusted_count c = N - 2 * p" using True h by (intro wave_adjusted [OF w(1) v(1)]) auto
    have "high_length c = h - p" using True h unfolding high_length_def a h_def by linarith
    then show ?thesis using True w r v a unfolding h_def by blast
  next
    case False
    have v: "t_value c = of_nat (N - 2 * (p - h))" "t_phase c = 3" "t_output c = 0"
      using s' False by simp_all
    have a: "adjusted_count c = N - 2 * (p - h)" using False h w(2) by (intro wave_adjusted [OF w(1) v(1)]) auto
    have "low_length c = N - p" using False h w(2) unfolding low_length_def a by linarith
    then show ?thesis using False w r v a unfolding h_def by blast
  qed
qed

lemma square_at_start: "wave_setup 3 N c \<Longrightarrow> square_at N (set_output 1 (load_counter_value (c\<lparr>t_phase := 2\<rparr>))) 0"
  using wave_range [of 3 N c] wave_value [of 3 N c] by (simp add: square_at_def Let_def)

lemma half_facts: "2 \<le> N \<Longrightarrow> (N + 1) div 2 < N" "N - (N + 1) div 2 = N div 2" for N :: nat
  by presburger+

lemma square_at_middle:
  "wave_setup 3 N c \<Longrightarrow> square_at N (set_output 0 (load_counter_value (c\<lparr>t_phase := 3\<rparr>))) ((N + 1) div 2)"
  using half_facts(1) [of N] wave_range [of 3 N c] wave_value [of 3 N c] by (simp add: square_at_def Let_def)

lemma square_turn_wave:
  "square_at N c p \<Longrightarrow>
     \<exists>m d q. square_turn n c = (m, d) \<and> square_at N d q \<and> (q + m) mod N = (p + n) mod N \<and> same_setup c d"
proof -
  assume s: "square_at N c p"
  define h where "h = (N + 1) div 2"
  note f = square_at_facts [OF s, folded h_def]
  have h: "h < N" "N - h = N div 2" using f half_facts [of N] unfolding h_def by blast+
  let ?a = "set_output 0 (load_counter_value (c\<lparr>t_phase := 3\<rparr>))"
  have a: "square_at N ?a h" unfolding h_def by (rule square_at_middle) (use f in blast)
  note fa = square_at_facts [OF a, folded h_def]
  have low: "t_phase ?a = 3" "low_length ?a = N div 2" using fa h by simp_all
  let ?b = "\<lambda>c. set_output 1 (load_counter_value (c\<lparr>t_phase := 2\<rparr>))"
  have b: "square_at N (?b c) 0" "square_at N (?b ?a) 0" using square_at_start [of N c] square_at_start [of N ?a] f fa by simp_all
  consider (stay) "\<not> square_due n c" | (fall) "p < h" "h - p \<le> n" | (rise) "\<not> p < h" "N - p \<le> n"
  proof -
    have "\<not> square_due n c \<or> (p < h \<and> h - p \<le> n) \<or> (\<not> p < h \<and> N - p \<le> n)"
      using f by (cases "p < h") (simp_all add: square_due_def)
    then show thesis using that by blast
  qed
  then show ?thesis
  proof cases
    case stay
    then have "square_turn n c = (n, c)" by (auto simp: square_turn_def square_due_def Let_def)
    then have "square_turn n c = (n, c) \<and> square_at N (c) (p) \<and> (p + (n)) mod N = (p + n) mod N \<and> same_setup c (c)"
      using s by simp
    then show ?thesis by blast
  next
    case rise
    have "t_phase c = 3" "low_length c = N - p" using f rise(1) by blast+
    then have t: "square_turn n c = (n - (N - p), ?b c)" using rise(2) by (simp add: square_turn_def)
    have "p < N" using f by blast
    then have "p + n = (n - (N - p)) + N" using rise(2) by linarith
    then have "(0 + (n - (N - p))) mod N = (p + n) mod N" by (simp only: add_0 mod_add_self2)
    then have "square_turn n c = (n - (N - p), ?b c) \<and> square_at N (?b c) (0) \<and> (0 + (n - (N - p))) mod N = (p + n) mod N \<and> same_setup c (?b c)"
      using t b(1) by simp
    then show ?thesis by blast
  next
    case fall
    have f': "t_phase c = 2" "high_length c = h - p" using f fall(1) by blast+
    show ?thesis
    proof (cases "N div 2 \<le> n - (h - p)")
      case True
      then have t: "square_turn n c = (n - (h - p) - N div 2, ?b ?a)" using fall(2) f' low by (simp add: square_turn_def)
      have "h + N div 2 = N" using h by simp
      moreover have "x - d + (h + d) = x + h" if "d \<le> x" for x d :: nat using that by simp
      ultimately have "n - (h - p) - N div 2 + N = n - (h - p) + h" using True by metis
      then have "p + n = (n - (h - p) - N div 2) + N" using fall by simp
      then have "(0 + (n - (h - p) - N div 2)) mod N = (p + n) mod N" by (simp only: add_0 mod_add_self2)
      then have "square_turn n c = (n - (h - p) - N div 2, ?b ?a) \<and> square_at N (?b ?a) (0) \<and> (0 + (n - (h - p) - N div 2)) mod N = (p + n) mod N \<and> same_setup c (?b ?a)"
        using t b(2) by simp
      then show ?thesis by blast
    next
      case False
      then have t: "square_turn n c = (n - (h - p), ?a)" using fall(2) f' low by (simp add: square_turn_def)
      have "h + (n - (h - p)) = p + n" using fall by linarith
      then have "square_turn n c = (n - (h - p), ?a) \<and> square_at N (?a) (h) \<and> (h + (n - (h - p))) mod N = (p + n) mod N \<and> same_setup c (?a)"
        using t a by (simp add: add.commute)
      then show ?thesis by blast
    qed
  qed
qed

lemma square_loop_wave:
  "square_at N c p \<Longrightarrow>
     \<exists>m d q. square_loop n c = Some (m, d) \<and> square_at N d q \<and> \<not> square_due m d \<and> (q + m) mod N = (p + n) mod N \<and> same_setup c d"
proof (induction "2 * n + (if t_phase c = 3 then 1 else 0)" arbitrary: n c p rule: less_induct)
  case less
  obtain m d q where t: "square_turn n c = (m, d)" and d: "square_at N d q" "(q + m) mod N = (p + n) mod N" "same_setup c d"
    using square_turn_wave [OF less.prems] by blast
  show ?case
  proof (cases "square_due m d")
    case True
    have "2 * m + (if t_phase d = 3 then 1 else 0) < 2 * n + (if t_phase c = 3 then 1 else 0)"
      using square_turn_progress [OF t] True by auto
    from less.hyps [OF this d(1)] obtain m' d' q' where
      i: "square_loop m d = Some (m', d')" "square_at N d' q'" "\<not> square_due m' d'" "(q' + m') mod N = (q + m) mod N" "same_setup d d'"
      by blast
    have "square_loop n c = Some (m', d')"
      using True i(1) by (subst square_loop.simps) (simp add: t square_due_def)
    then show ?thesis using i d same_setup_trans [OF d(3) i(5)] by metis
  next
    case False
    then have "square_loop n c = Some (m, d)" by (subst square_loop.simps) (auto simp: t square_due_def)
    then show ?thesis using d False by blast
  qed
qed

lemma square_at_next: "square_at N (c\<lparr>t_next_update := u\<rparr>) p = square_at N c p"
  by (simp add: square_at_def Let_def)

lemma square_decrease:
  "square_at N d q \<Longrightarrow> \<not> square_due m d \<Longrightarrow>
     square_at N (decrease_counter_value (m * 2) d) (q + m) \<and> (q + m) mod N = q + m"
proof -
  assume s: "square_at N d q" and n: "\<not> square_due m d"
  define h where "h = (N + 1) div 2"
  note f = square_at_facts [OF s, folded h_def]
  have h: "2 * h \<le> N + 1" "N \<le> 2 * h" "h < N" using half_facts(1) [of N] f by (auto simp: h_def)
  have half: "q < h \<longrightarrow> q + m < h" "\<not> q < h \<longrightarrow> q + m < N"
    using f n by (auto simp: square_due_def)
  let ?x = "if q < h then q else q - h"
  have v: "t_value d = of_nat (N - 2 * ?x)" and b: "\<not> CTRL_BCD (t_control d)"
    using s by (simp_all add: square_at_def wave_setup_def Let_def h_def)
  have le: "m * 2 \<le> N - 2 * ?x" using half h by auto
  have same: "(if q + m < h then q + m else q + m - h) = ?x + m" "q + m < h \<longleftrightarrow> q < h" "q + m < N"
    using half h by auto
  have "N - 2 * ?x - m * 2 = N - 2 * (?x + m)" by (metis diff_diff_left distrib_left mult.commute)
  then have "t_value (decrease_counter_value (m * 2) d) = of_nat (N - 2 * (?x + m))"
    using decrease_binary [OF b v le] by presburger
  then have "square_at N (decrease_counter_value (m * 2) d) (q + m)"
    using s same unfolding square_at_def Let_def h_def [symmetric] by simp
  then show ?thesis using same(3) by simp
qed

lemma square_wave_step:
  assumes "square_at N c p"
  shows "\<exists>c'. simulate n c = Some c' \<and> square_at N c' ((p + n) mod N) \<and> same_setup c c' \<and>
    (0 < n \<longrightarrow> wakes (square_due_in N ((p + n) mod N)) c')"
proof -
  note f = square_at_facts [OF assms]
  have m3: "mode_of c = 3" "t_gate c" "t_phase c = 2 \<or> t_phase c = 3" using f by (auto simp: wave_setup_def)
  have l: "load_cycle n c = (n, c)" using m3(3) by (auto simp: load_cycle_def)
  show ?thesis
  proof (cases "n = 0")
    case True
    then have "simulate_3 n c = Some (c, Some 0)" using m3 l by (auto simp: simulate_3_def)
    then show ?thesis using True m3(1) assms f by (auto simp: simulate_def square_at_next)
  next
    case False
    obtain m d q where s: "square_loop n c = Some (m, d)" "square_at N d q" "\<not> square_due m d"
      "(q + m) mod N = (p + n) mod N" "same_setup c d"
      using square_loop_wave [OF assms] by blast
    let ?e = "decrease_counter_value (m * 2) d"
    have e: "square_at N ?e (q + m)" and pos: "q + m = (p + n) mod N"
      using square_decrease [OF s(2, 3)] s(4) by auto
    note fe = square_at_facts [OF e]
    have "simulate_3 n c = Some (?e, Some (square_due_in N (q + m)))"
      using m3(2, 3) l False s(1) fe by (auto simp: simulate_3_def square_due_in_def Let_def)
    then have sim: "simulate n c = Some (?e\<lparr>t_next_update :=
        (if t_clocked ?e then Some (t_last_updated ?e + int (square_due_in N (q + m)) * t_period ?e) else None)\<rparr>)"
      using m3(1) by (simp add: simulate_def)
    show ?thesis unfolding sim pos [symmetric]
      using e s(5) by (simp add: square_at_next wakes_def)
  qed
qed

subsection \<open>Polling a wave\<close>

text \<open>
  A wave is a family of counter states, one per cycle of its period, through which simulation advances;
  \<open>ok p n\<close> says which steps it advances exactly. Updates at any times then find the counter
  where the clock alone puts it.
\<close>

locale lazy_wave =
  fixes at :: "counter \<Rightarrow> nat \<Rightarrow> bool" and N :: nat and ok :: "nat \<Rightarrow> nat \<Rightarrow> bool"
  assumes advance: "at c p \<Longrightarrow> ok p n \<Longrightarrow> \<exists>c'. simulate n c = Some c' \<and> at c' ((p + n) mod N) \<and> same_setup c c'"
    and position: "at c p \<Longrightarrow> p < N"
    and schedule: "at (c\<lparr>t_next_update := u\<rparr>) p = at c p" "at (c\<lparr>t_last_updated := x\<rparr>) p = at c p"

fun updates :: "int list \<Rightarrow> counter \<Rightarrow> counter option" where
  "updates [] c = Some c"
| "updates (t # ts) c = do { c1 \<leftarrow> update t c; updates ts c1 }"

fun prompt :: "(nat \<Rightarrow> nat \<Rightarrow> bool) \<Rightarrow> nat \<Rightarrow> int \<Rightarrow> nat \<Rightarrow> int \<Rightarrow> int list \<Rightarrow> bool" where
  "prompt ok N P p T [] = True"
| "prompt ok N P p T (t # ts) =
     (let k = (t - T) div P in T \<le> t \<and> gap_fits P (t - T) \<and> ok p (nat k) \<and> prompt ok N P ((p + nat k) mod N) (T + k * P) ts)"

definition clocked_at :: "int \<Rightarrow> int \<Rightarrow> counter \<Rightarrow> bool" where
  "clocked_at P T c \<longleftrightarrow> t_clocked c \<and> t_period c = P \<and> 0 < P \<and> t_last_updated c = T"

lemma clocked_same: "same_setup c c' \<Longrightarrow> clocked_at P T c' = clocked_at P T c"
  by (simp add: clocked_at_def same_setup_def)

text \<open>Times that do not run backwards, as far as the cycles they fall into go.\<close>

lemma prompt_last: "0 < P \<Longrightarrow> prompt ok N P p T ts \<Longrightarrow> T \<le> last (T # ts)"
proof (induction ts arbitrary: p T)
  case (Cons t ts)
  define k where "k = (t - T) div P"
  have a: "T \<le> t" "gap_fits P (t - T)" "prompt ok N P ((p + nat k) mod N) (T + k * P) ts" using Cons.prems by (simp_all add: k_def Let_def)
  have "0 \<le> k * P" using a(1) Cons.prems(1) by (simp add: k_def pos_imp_zdiv_nonneg_iff)
  then show ?case using Cons.IH [OF Cons.prems(1) a(3)] a(1) by (cases ts) auto
qed simp

context lazy_wave
begin

lemma updated:
  "at c p \<Longrightarrow> clocked_at P T c \<Longrightarrow> T \<le> t \<Longrightarrow> k = (t - T) div P \<Longrightarrow> ok p (nat k) \<Longrightarrow> gap_fits P (t - T) \<Longrightarrow>
     \<exists>c'. update t c = Some c' \<and> at c' ((p + nat k) mod N) \<and> clocked_at P (T + k * P) c'"
proof -
  assume a: "at c p" "clocked_at P T c" "T \<le> t" "k = (t - T) div P" "ok p (nat k)" "gap_fits P (t - T)"
  have P: "0 < P" "t_clocked c" "t_period c = P" "t_last_updated c = T" using a(2) by (auto simp: clocked_at_def)
  have k: "0 \<le> k" "T < t \<Longrightarrow> elapsed_cycles (t - T) P = k" "t = T \<Longrightarrow> k = 0"
    using a(3, 4) P(1) by (auto simp: elapsed_cycles_exact pos_imp_zdiv_nonneg_iff)
  have m: "k mod 2 ^ 32 = k" using k(1) a(4, 6) by (simp add: gap_fits_def)
  let ?c = "c\<lparr>t_last_updated := T + k * P\<rparr>"
  have at: "at ?c p" "clocked_at P (T + k * P) ?c" using a(1, 2) by (simp_all add: schedule clocked_at_def)
  show ?thesis
  proof (cases "0 < k")
    case True
    obtain c' where c': "simulate (nat k) ?c = Some c'" "at c' ((p + nat k) mod N)" "same_setup ?c c'"
      using advance [OF at(1) a(5)] by blast
    have "update t c = Some c'"
      using True c'(1) k P a(3) m by (cases "T < t") (auto simp: update_def)
    then show ?thesis using c' at(2) clocked_same [OF c'(3)] by blast
  next
    case False
    then have "k = 0" using k(1) by simp
    moreover have "c\<lparr>t_last_updated := T\<rparr> = c" using P(4) by simp
    ultimately have "update t c = Some (c\<lparr>t_next_update := Some (T + P)\<rparr>)"
      using k P a(3) by (cases "T < t") (auto simp: update_def)
    then show ?thesis using \<open>k = 0\<close> a(1, 2) position [OF a(1)] by (auto simp: schedule clocked_at_def)
  qed
qed

lemma polled:
  "at c p \<Longrightarrow> clocked_at P T c \<Longrightarrow> prompt ok N P p T ts \<Longrightarrow>
     \<exists>c'. updates ts c = Some c' \<and> at c' ((p + nat ((last (T # ts) - T) div P)) mod N)"
proof (induction ts arbitrary: c p T)
  case Nil
  then show ?case using position [of c p] by simp
next
  case (Cons t ts)
  define k where "k = (t - T) div P"
  have P: "0 < P" using Cons.prems(2) by (simp add: clocked_at_def)
  have pr: "T \<le> t" "ok p (nat k)" "prompt ok N P ((p + nat k) mod N) (T + k * P) ts" "gap_fits P (t - T)"
    using Cons.prems(3) by (simp_all add: k_def Let_def)
  obtain d where d: "update t c = Some d" "at d ((p + nat k) mod N)" "clocked_at P (T + k * P) d"
    using updated [OF Cons.prems(1, 2) pr(1) k_def pr(2, 4)] by blast
  obtain c' where c': "updates ts d = Some c'"
    "at c' (((p + nat k) mod N + nat ((last ((T + k * P) # ts) - (T + k * P)) div P)) mod N)"
    using Cons.IH [OF d(2, 3) pr(3)] by blast
  have k0: "0 \<le> k" using pr(1) P by (simp add: k_def pos_imp_zdiv_nonneg_iff)
  have "nat k + nat ((last ((T + k * P) # ts) - (T + k * P)) div P) = nat ((last (T # t # ts) - T) div P)"
  proof (cases ts)
    case Nil
    then show ?thesis by (simp add: k_def)
  next
    case (Cons u us)
    define l where "l = last (T # t # ts)"
    have l: "last ((T + k * P) # ts) = l" "T + k * P \<le> l" using Cons prompt_last [OF P pr(3)] by (auto simp: l_def)
    have "(l - T) div P = k + (l - (T + k * P)) div P"
    proof -
      have "l - T = (l - (T + k * P)) + k * P" by simp
      then show ?thesis using P by (metis add.commute div_mult_self2 less_irrefl mult.commute)
    qed
    moreover have "0 \<le> (l - (T + k * P)) div P" using l(2) P by (simp add: pos_imp_zdiv_nonneg_iff)
    ultimately show ?thesis unfolding l(1) l_def [symmetric] using k0 by (simp add: nat_add_distrib)
  qed
  then show ?case using d(1) c' by (simp add: mod_add_left_eq add.assoc)
qed

end
text \<open>The states of a square wave, and of a rate generator that is not left alone for a whole period.\<close>

definition rate_ok :: "nat \<Rightarrow> nat \<Rightarrow> nat \<Rightarrow> bool" where
  "rate_ok N p n \<longleftrightarrow> p + n < N \<or> (p + n) mod N \<noteq> N - 1"

interpretation square: lazy_wave "square_at N" N "\<lambda>p n. True" for N
proof
  show "square_at N c p \<Longrightarrow> True \<Longrightarrow> \<exists>c'. simulate n c = Some c' \<and> square_at N c' ((p + n) mod N) \<and> same_setup c c'" for c p n
    using square_wave_step [of N c p n] by blast
qed (simp_all add: square_at_def Let_def)

interpretation rate: lazy_wave "rate_at N" N "rate_ok N" for N
proof
  show "rate_at N c p \<Longrightarrow> rate_ok N p n \<Longrightarrow> \<exists>c'. simulate n c = Some c' \<and> rate_at N c' ((p + n) mod N) \<and> same_setup c c'" for c p n
    unfolding rate_ok_def using rate_wave_step [of N c p n] by blast
qed (simp_all add: rate_at_def)

text \<open>
  After a longer gap the time does not advance by as many cycles as were simulated: a gap of exactly 2^32 cycles leaves it where it was, and
  each further update at the same time simulates the whole gap again.
\<close>

lemma long_gap_repeats:
  assumes "square_at N c p" and "clocked_at P T c" and "t = T + 2 ^ 32 * P"
  shows "\<exists>c'. updates [t, t] c = Some c' \<and> square_at N c' ((p + 2 * 2 ^ 32) mod N) \<and> t_last_updated c' = T"
proof -
  have u: "\<exists>d. update t c = Some d \<and> square_at N d ((p + 2 ^ 32) mod N) \<and> clocked_at P T d" if sq: "square_at N c p" and cl: "clocked_at P T c" for c p
  proof -
    have P: "0 < P" "t_clocked c" "t_period c = P" "t_last_updated c = T" using cl by (auto simp: clocked_at_def)
    have "(t - T) div P = 2 ^ 32" "T < t" using P(1) assms(3) by simp_all
    then have e: "elapsed_cycles (t - T) P = 2 ^ 32" using P(1) by (simp add: elapsed_cycles_exact)
    obtain d where d: "simulate (2 ^ 32) c = Some d" "square_at N d ((p + 2 ^ 32) mod N)" "same_setup c d"
      using square.advance [OF sq TrueI, of "2 ^ 32"] by blast
    have same: "c\<lparr>t_last_updated := T\<rparr> = c" using P(4) by simp
    then have "update t c = Some d" using d(1) e P \<open>T < t\<close> by (simp add: update_def same)
    then show ?thesis using d clocked_same [OF d(3)] cl by blast
  qed
  obtain d where d: "update t c = Some d" "square_at N d ((p + 2 ^ 32) mod N)" "clocked_at P T d" using u [OF assms(1,2)] by blast
  obtain c' where c': "update t d = Some c'" "square_at N c' (((p + 2 ^ 32) mod N + 2 ^ 32) mod N)" "clocked_at P T c'"
    using u [OF d(2,3)] by blast
  have "((p + 2 ^ 32) mod N + 2 ^ 32) mod N = (p + 2 * 2 ^ 32) mod N" unfolding mod_add_left_eq by (simp add: add.assoc)
  then show ?thesis using d(1) c' by (auto simp: clocked_at_def)
qed


lemma rate_polled:
  "rate_at N c p \<Longrightarrow> clocked_at P T c \<Longrightarrow> prompt (rate_ok N) N P p T ts \<Longrightarrow>
     \<exists>c'. updates ts c = Some c' \<and> rate_at N c' ((p + nat ((last (T # ts) - T) div P)) mod N)"
  by (rule rate.polled)

subsection \<open>Decimal counting\<close>

definition bcd_digits :: "u16 \<Rightarrow> bool" where
  "bcd_digits v \<longleftrightarrow> digit 3 v < 10 \<and> digit 2 v < 10 \<and> digit 1 v < 10 \<and> digit 0 v < 10"

definition bcd_value :: "u16 \<Rightarrow> nat" where
  "bcd_value v = digit 3 v * 1000 + digit 2 v * 100 + digit 1 v * 10 + digit 0 v"

lemma tens_complement: "(10 - m mod 10) mod 10 < 10 \<and> 10 * ((m + 9) div 10) = m + (10 - m mod 10) mod 10" for m :: nat
proof -
  obtain k r where m: "m = r + k * 10" and r: "r < 10" by (metis mod_div_mult_eq mod_less_divisor zero_less_numeral add.commute)
  have "(m + 9) div 10 = k + (r + 9) div 10" unfolding m by (simp add: ac_simps)
  moreover have "(r + 9) div 10 = (if r = 0 then 0 else 1)" using r by (auto intro!: div_nat_eqI)
  ultimately show ?thesis using r by (auto simp: m)
qed

lemma borrow_exact: "d < n \<Longrightarrow> fst (borrow n d) < 10 \<and> 10 * snd (borrow n d) + d = n + fst (borrow n d)"
  using tens_complement [of "n - d"] by (simp add: borrow_def)

lemma last_borrow: "a < 10 \<Longrightarrow> (10 + a - c mod 10) mod 10 < 10 \<and> (\<exists>k. int ((10 + a - c mod 10) mod 10) = int a - int c + 10 * k)" for a c :: nat
proof -
  assume a: "a < 10"
  define r where "r = c mod 10"
  have c: "int c = 10 * int (c div 10) + int r" unfolding r_def by (metis of_nat_add of_nat_mult of_nat_numeral mult_div_mod_eq)
  have "r < 10" by (simp add: r_def)
  show ?thesis
  proof (cases "r \<le> a")
    case True
    then have "(10 + a - r) mod 10 = a - r" using a by (simp add: mod_if)
    then have "int ((10 + a - r) mod 10) = int a - int c + 10 * int (c div 10)" using True c by simp
    then show ?thesis unfolding r_def by (intro conjI exI) auto
  next
    case False
    then have "(10 + a - r) mod 10 = 10 + a - r" using a \<open>r < 10\<close> by simp
    then have "int ((10 + a - r) mod 10) = int a - int c + 10 * (int (c div 10) + 1)" using \<open>r < 10\<close> c by simp
    then show ?thesis unfolding r_def by (intro conjI exI [of _ "int (c div 10) + 1"]) auto
  qed
qed

lemma bcd_decrease_exact:
  assumes "a < 10" "b < 10" "c < 10" "d < 10"
  shows "case bcd_decrease n (a, b, c, d) of (a', b', c', d') \<Rightarrow> a' < 10 \<and> b' < 10 \<and> c' < 10 \<and> d' < 10 \<and>
    int (a' * 1000 + b' * 100 + c' * 10 + d') = (int (a * 1000 + b * 100 + c * 10 + d) - int n) mod 10000"
proof -
  define d' c1 where "d' = fst (borrow n d)" and "c1 = snd (borrow n d)"
  define c' c2 where "c' = fst (borrow c1 c)" and "c2 = snd (borrow c1 c)"
  define b' c3 where "b' = fst (borrow c2 b)" and "c3 = snd (borrow c2 b)"
  note u = borrow_exact [of d n, folded d'_def c1_def] borrow_exact [of c c1, folded c'_def c2_def]
    borrow_exact [of b c2, folded b'_def c3_def]
  have eq: "borrow n d = (d', c1)" "borrow c1 c = (c', c2)" "borrow c2 b = (b', c3)"
    by (simp_all add: d'_def c1_def c'_def c2_def b'_def c3_def)
  have pick: "int x = y mod 10000" if "int x < 10000" "int x = y + 10000 * k" for x y k
    using that by (metis mod_mult_self2 mod_pos_pos_trivial of_nat_0_le_iff)
  consider "n \<le> d" | "d < n" "c1 \<le> c" | "d < n" "c < c1" "c2 \<le> b" | "d < n" "c < c1" "b < c2" by linarith
  then show ?thesis
  proof cases
    case 1
    then show ?thesis using assms by (auto simp: bcd_decrease_def intro!: pick [of _ _ 0])
  next
    case 2
    then show ?thesis using assms u(1) by (auto simp: bcd_decrease_def eq intro!: pick [of _ _ 0])
  next
    case 3
    then show ?thesis using assms u(1, 2) by (auto simp: bcd_decrease_def eq intro!: pick [of _ _ 0])
  next
    case 4
    obtain k where k: "(10 + a - c3 mod 10) mod 10 < 10" "int ((10 + a - c3 mod 10) mod 10) = int a - int c3 + 10 * k"
      using last_borrow [OF assms(1)] by blast
    have r: "bcd_decrease n (a, b, c, d) = ((10 + a - c3 mod 10) mod 10, b', c', d')"
      using 4 by (simp add: bcd_decrease_def eq)
    define a' where "a' = (10 + a - c3 mod 10) mod 10"
    show ?thesis
      unfolding r prod.case a'_def [symmetric]
      using k [folded a'_def] u 4 by (intro conjI pick [of _ _ k]) (simp_all add: algebra_simps)
  qed
qed

lemma digit_of_nat:
  assumes "a < 16" "b < 16" "c < 16" "d < 16"
  shows "digit 3 (of_nat (a * 4096 + b * 256 + c * 16 + d)) = a" "digit 2 (of_nat (a * 4096 + b * 256 + c * 16 + d)) = b"
    "digit 1 (of_nat (a * 4096 + b * 256 + c * 16 + d)) = c" "digit 0 (of_nat (a * 4096 + b * 256 + c * 16 + d)) = d"
proof -
  let ?v = "a * 4096 + b * 256 + c * 16 + d"
  have "?v < 65536" using assms by linarith
  then have v: "unat (of_nat ?v :: u16) = ?v" unfolding unat_of_nat by simp
  have n: "(x * 16 + y) div 16 = x" "(x * 16 + y) mod 16 = y" if "y < 16" for x y :: nat using that by simp_all
  have h: "?v = ((a * 16 + b) * 16 + c) * 16 + d" by simp
  have q: "?v div 16 = (a * 16 + b) * 16 + c" unfolding h by (rule n(1) [OF assms(4)])
  have "?v div 256 = ?v div 16 div 16" by (simp flip: div_mult2_eq)
  then have q2: "?v div 256 = a * 16 + b" unfolding q by (simp only: n(1) [OF assms(3)])
  have "?v div 4096 = ?v div 256 div 16" by (simp flip: div_mult2_eq)
  then have q3: "?v div 4096 = a" unfolding q2 by (simp only: n(1) [OF assms(2)])
  have p: "(16::nat) ^ 3 = 4096" "(16::nat) ^ 2 = 256" "(16::nat) ^ 1 = 16" "(16::nat) ^ 0 = 1" by simp_all
  show "digit 3 (of_nat ?v) = a" unfolding digit_def v p q3 using assms(1) by simp
  show "digit 2 (of_nat ?v) = b" unfolding digit_def v p q2 by (rule n(2) [OF assms(2)])
  show "digit 1 (of_nat ?v) = c" unfolding digit_def v p q by (rule n(2) [OF assms(3)])
  show "digit 0 (of_nat ?v) = d" unfolding digit_def v p div_by_1 unfolding h by (rule n(2) [OF assms(4)])
qed

text \<open>C33: Decimal counting in one go: decreasing a counter that holds four decimal digits by any number of cycles, as
  the source carries from digit to digit, subtracts that number modulo 10000 and leaves decimal digits.\<close>

theorem bcd_counts_decimal:
  assumes "CTRL_BCD (t_control c)" and "bcd_digits (t_value c)"
  shows "bcd_digits (t_value (decrease_counter_value n c)) \<and>
    int (bcd_value (t_value (decrease_counter_value n c))) = (int (bcd_value (t_value c)) - int n) mod 10000"
proof -
  let ?v = "t_value c"
  obtain a' b' c' d' where r: "bcd_decrease n (digit 3 ?v, digit 2 ?v, digit 1 ?v, digit 0 ?v) = (a', b', c', d')"
    by (metis prod_cases4)
  have dg: "digit 3 ?v < 10" "digit 2 ?v < 10" "digit 1 ?v < 10" "digit 0 ?v < 10" using assms(2) by (auto simp: bcd_digits_def)
  have e: "a' < 10" "b' < 10" "c' < 10" "d' < 10"
    "int (a' * 1000 + b' * 100 + c' * 10 + d') = (int (bcd_value ?v) - int n) mod 10000"
    using bcd_decrease_exact [OF dg, of n] unfolding r bcd_value_def by auto
  have v: "t_value (decrease_counter_value n c) = of_nat (a' * 4096 + b' * 256 + c' * 16 + d')"
    using assms(1) by (simp only: decrease_counter_value_def Let_def r prod.case not_True_eq_False if_False) simp
  have "digit 3 (t_value (decrease_counter_value n c)) = a'" "digit 2 (t_value (decrease_counter_value n c)) = b'"
    "digit 1 (t_value (decrease_counter_value n c)) = c'" "digit 0 (t_value (decrease_counter_value n c)) = d'"
    unfolding v by (rule digit_of_nat; use e in linarith)+
  then show ?thesis using e unfolding bcd_digits_def bcd_value_def by simp
qed

subsection \<open>A strobe without a count\<close>

text \<open>In the modes 4 and 5 a count of 0 is not 65536: the strobe comes in the cycle that loads it.\<close>

lemma strobe_of_zero:
  "mode_of c = 4 \<Longrightarrow> t_gate c \<Longrightarrow> t_phase c = 1 \<Longrightarrow> t_count c = 0 \<Longrightarrow>
     \<exists>c'. simulate 1 c = Some c' \<and> t_phase c' = 3 \<and> t_output c' = 0"
  by (simp add: simulate_def simulate_45_def load_cycle_def Let_def)

subsection \<open>Examples\<close>

text \<open>1 MHz and a count of 5, at the start of a period in mode 2 and of the low half in mode 3.\<close>

definition sample_counter :: "u8 \<Rightarrow> nat \<Rightarrow> counter" where
  "sample_counter control phase = (counter_start I8253 (Some (10 ^ 12)) 0)
     \<lparr>t_control := control, t_count := 5, t_value := 5, t_phase := phase, t_output := 3 - phase, t_null_count := False\<rparr>"

lemma sample_rate: "rate_at 5 (sample_counter 0x34 2) 0" by code_simp

lemma sample_square: "square_at 5 (sample_counter 0x36 3) 3" by code_simp

lemma sample_clocked: "clocked_at (10 ^ 12) 0 (sample_counter control phase)"
  by (simp add: clocked_at_def sample_counter_def counter_start_def)

theorem rate_wave_witness: "\<exists>c. simulate 12 (sample_counter 0x34 2) = Some c \<and> rate_at 5 c 2"
  using rate_wave [OF sample_rate, of 12] by auto


definition sample_decimal :: counter where
  "sample_decimal = (sample_counter 0x35 2)\<lparr>t_value := 0x1003\<rparr>"

lemma sample_decimal_facts:
  "CTRL_BCD (t_control sample_decimal)" "bcd_digits (t_value sample_decimal)" "bcd_value (t_value sample_decimal) = 1003"
  by (simp_all add: sample_decimal_def sample_counter_def bcd_digits_def bcd_value_def digit_def CTRL_BCD_def)

theorem bcd_counts_decimal_witness: "bcd_value (t_value (decrease_counter_value 7 sample_decimal)) = 996"
  using conjunct2 [OF bcd_counts_decimal [OF sample_decimal_facts(1, 2), of 7]] unfolding sample_decimal_facts(3) by simp

end
