(* ===== verification/Diserial.thy ===== *)
theory Diserial
  imports Towns_Prelude
begin

text \<open>
  The shift registers of the serial interface, \<open>src/emu/diserial.cpp\<close>: data frames, the transmit
  register and the receive register with its parity and framing checks. The clocks, which a device
  may also generate itself, are not here: the devices that use the registers call them.
\<close>

unbundle bit_operations_syntax

subsection \<open>Registers\<close>

datatype parity = ParityNone | ParityOdd | ParityEven | ParityMark | ParitySpace

datatype stop_bits = StopBits0 | StopBits1 | StopBits1_5 | StopBits2

text \<open>The data frame (\<open>f_\<close>), the receive register (\<open>r_\<close>, its flags one by one) and the transmit register (\<open>x_\<close>).\<close>

record serif =
  f_start :: nat
  f_word :: nat
  f_parity :: parity
  f_stop :: nat
  f_min_stop :: nat
  r_data :: u16
  r_waiting :: bool
  r_sync :: bool
  r_full :: bool
  r_received :: nat
  r_count :: nat
  r_byte :: u8
  r_framing :: bool
  r_parity :: bool
  x_data :: u16
  x_empty :: bool
  x_sent :: nat
  x_count :: nat

definition serif_start :: serif where
  "serif_start = \<lparr>f_start = 0, f_word = 0, f_parity = ParityNone, f_stop = 0, f_min_stop = 0,
     r_data = 0x8000, r_waiting = False, r_sync = False, r_full = False, r_received = 0, r_count = 0, r_byte = 0,
     r_framing = False, r_parity = False, x_data = 0, x_empty = True, x_sent = 0, x_count = 0\<rparr>"

text \<open>\<open>BIT(population_count_32(d), 0)\<close>\<close>

definition odd_ones :: "u8 \<Rightarrow> bool" where
  "odd_ones d = odd (length (filter (bit d) [0..<8]))"

subsection \<open>Frame and receive register\<close>

definition receive_register_reset :: "serif \<Rightarrow> serif" where
  "receive_register_reset s =
     (let s1 = s\<lparr>r_received := 0, r_full := False\<rparr>
      in if f_start s1 = 0 then s1\<lparr>r_sync := True, r_waiting := False\<rparr> else s1\<lparr>r_sync := False, r_waiting := True\<rparr>)"

definition stop_counts :: "stop_bits \<Rightarrow> nat \<times> nat" where
  "stop_counts b = (case b of StopBits0 \<Rightarrow> (0, 0) | StopBits1 \<Rightarrow> (1, 1) | StopBits1_5 \<Rightarrow> (2, 1) | StopBits2 \<Rightarrow> (2, 1))"

definition set_data_frame :: "nat \<Rightarrow> nat \<Rightarrow> parity \<Rightarrow> stop_bits \<Rightarrow> serif \<Rightarrow> serif" where
  "set_data_frame start_bits data_bits p stop s =
     (let s1 = s\<lparr>f_word := data_bits, f_stop := fst (stop_counts stop), f_min_stop := snd (stop_counts stop)\<rparr>;
          changed = (start_bits \<noteq> f_start s \<or> data_bits \<noteq> f_word s \<or> p \<noteq> f_parity s \<or>
                     f_stop s1 \<noteq> f_stop s \<or> f_min_stop s1 \<noteq> f_min_stop s)
      in if \<not> changed then s1
         else let s2 = s1\<lparr>f_parity := p, f_start := start_bits,
                          r_count := f_word s1 + f_min_stop s1 + (if p \<noteq> ParityNone then 1 else 0)\<rparr>
              in receive_register_reset s2)"

definition receive_register_update_bit :: "bool \<Rightarrow> serif \<Rightarrow> serif" where
  "receive_register_update_bit b s =
     (let previous = bit (r_data s) 15;
          s1 = s\<lparr>r_data := (drop_bit 1 (r_data s) AND 0x7fff) OR push_bit 15 (of_bool b)\<rparr>
      in if r_waiting s1 then
           (if previous \<noteq> b \<and> \<not> b
            then s1\<lparr>r_waiting := False, r_sync := True, r_received := 0, r_framing := False, r_parity := False\<rparr>
            else s1)
         else if r_sync s1 then
           (let s2 = s1\<lparr>r_received := r_received s1 + 1\<rparr>;
                s3 = (if \<not> b \<and> r_received s2 > r_count s2 - f_min_stop s2 then s2\<lparr>r_framing := True\<rparr> else s2)
            in if r_received s3 = r_count s3
               then s3\<lparr>r_received := 0, r_sync := False, r_waiting := True, r_full := True\<rparr> else s3)
         else s1)"

definition parity_fails :: "parity \<Rightarrow> u8 \<Rightarrow> bool \<Rightarrow> bool" where
  "parity_fails p data received = (case p of
     ParityNone \<Rightarrow> False | ParityOdd \<Rightarrow> received = odd_ones data | ParityEven \<Rightarrow> received \<noteq> odd_ones data
   | ParityMark \<Rightarrow> \<not> received | ParitySpace \<Rightarrow> received)"

definition receive_register_extract :: "serif \<Rightarrow> serif" where
  "receive_register_extract s =
     (let s1 = receive_register_reset s;
          data = ucast (drop_bit (16 - r_count s1) (r_data s1)) AND NOT (push_bit (f_word s1) 0xff);
          s2 = s1\<lparr>r_byte := data\<rparr>
      in if f_parity s2 = ParityNone then s2
         else let received = bit (r_data s2) (16 - r_count s2 + f_word s2)
              in if parity_fails (f_parity s2) data received then s2\<lparr>r_parity := True\<rparr> else s2)"

subsection \<open>Transmit register\<close>

definition transmit_register_reset :: "serif \<Rightarrow> serif" where
  "transmit_register_reset s = s\<lparr>x_empty := True\<rparr>"

definition transmit_register_add_bit :: "serif \<Rightarrow> bool \<Rightarrow> serif" where
  "transmit_register_add_bit s b = s\<lparr>x_data := push_bit 1 (x_data s) OR of_bool b, x_count := x_count s + 1\<rparr>"

fun data_bits :: "nat \<Rightarrow> u8 \<Rightarrow> bool list" where
  "data_bits 0 d = []"
| "data_bits (Suc n) d = bit d 0 # data_bits n (drop_bit 1 d)"

definition parity_bits :: "parity \<Rightarrow> u8 \<Rightarrow> bool list" where
  "parity_bits p d = (case p of ParityNone \<Rightarrow> [] | ParityOdd \<Rightarrow> [\<not> odd_ones d] | ParityEven \<Rightarrow> [odd_ones d]
     | ParityMark \<Rightarrow> [True] | ParitySpace \<Rightarrow> [False])"

definition transmit_register_setup :: "u8 \<Rightarrow> serif \<Rightarrow> serif" where
  "transmit_register_setup d s =
     (let s0 = s\<lparr>x_sent := 0, x_count := 0, x_empty := False\<rparr>;
          s1 = foldl transmit_register_add_bit s0 (replicate (f_start s0) False);
          s2 = foldl transmit_register_add_bit s1 (data_bits (f_word s1) d);
          s3 = foldl transmit_register_add_bit s2 (parity_bits (f_parity s2) d)
      in foldl transmit_register_add_bit s3 (replicate (f_stop s3) True))"

definition transmit_register_get_data_bit :: "serif \<Rightarrow> bool \<times> serif" where
  "transmit_register_get_data_bit s =
     (let b = bit (x_data s) (x_count s - 1 - x_sent s);
          s1 = s\<lparr>x_sent := x_sent s + 1\<rparr>
      in (b, if x_sent s1 = x_count s1 then s1\<lparr>x_empty := True\<rparr> else s1))"

subsection \<open>Transmission\<close>

definition frame_bits :: "serif \<Rightarrow> u8 \<Rightarrow> bool list" where
  "frame_bits s d = replicate (f_start s) False @ data_bits (f_word s) d @ parity_bits (f_parity s) d @ replicate (f_stop s) True"

fun transmit :: "nat \<Rightarrow> serif \<Rightarrow> bool list \<times> serif" where
  "transmit 0 s = ([], s)"
| "transmit (Suc n) s =
     (case transmit_register_get_data_bit s of (b, s1) \<Rightarrow> case transmit n s1 of (bs, s2) \<Rightarrow> (b # bs, s2))"

text \<open>The register holds the bits with the last one lowest.\<close>

definition holds :: "u16 \<Rightarrow> bool list \<Rightarrow> bool" where
  "holds w bs \<longleftrightarrow> (\<forall>i < length bs. bit w (length bs - 1 - i) = bs ! i)"

lemma length_data_bits [simp]: "length (data_bits n d) = n"
  by (induction n arbitrary: d) auto

lemma nth_data_bits: "i < n \<Longrightarrow> data_bits n d ! i = bit d i"
proof (induction n arbitrary: i d)
  case (Suc n)
  then show ?case by (cases i) (simp_all add: bit_drop_bit_eq)
qed simp

lemma length_parity_bits: "length (parity_bits p d) = (if p = ParityNone then 0 else 1)"
  by (simp add: parity_bits_def split: parity.split)

lemma add_bit_fields [simp]:
  "f_start (transmit_register_add_bit s b) = f_start s" "f_word (transmit_register_add_bit s b) = f_word s"
  "f_parity (transmit_register_add_bit s b) = f_parity s" "f_stop (transmit_register_add_bit s b) = f_stop s"
  by (simp_all add: transmit_register_add_bit_def)

lemma add_bits_fields [simp]:
  "f_start (foldl transmit_register_add_bit s bs) = f_start s" "f_word (foldl transmit_register_add_bit s bs) = f_word s"
  "f_parity (foldl transmit_register_add_bit s bs) = f_parity s" "f_stop (foldl transmit_register_add_bit s bs) = f_stop s"
  by (induction bs arbitrary: s) simp_all

lemma setup_frame_bits:
  "transmit_register_setup d s =
     foldl transmit_register_add_bit (s\<lparr>x_sent := 0, x_count := 0, x_empty := False\<rparr>) (frame_bits s d)"
  by (simp add: transmit_register_setup_def frame_bits_def Let_def)

lemma pushed_in: "bit (push_bit 1 w OR of_bool b) i \<longleftrightarrow> (if i = 0 then b else i < 16 \<and> bit w (i - 1))" for w :: u16
proof -
  have "bit (push_bit 1 w) i \<longleftrightarrow> 1 \<le> i \<and> i < 16 \<and> bit w (i - 1)" by (simp only: bit_push_bit_iff possible_bit_word) auto
  moreover have "bit (of_bool b :: u16) i \<longleftrightarrow> i = 0 \<and> b" by (auto simp: bit_of_bool_iff)
  ultimately show ?thesis unfolding bit_or_iff by auto
qed

lemma holds_add:
  "holds w bs \<Longrightarrow> length bs < 16 \<Longrightarrow> holds (push_bit 1 w OR of_bool b) (bs @ [b])"
proof -
  assume h: "holds w bs" and l: "length bs < 16"
  have "bit (push_bit 1 w OR of_bool b) (length bs - i) = (bs @ [b]) ! i" if "i \<le> length bs" for i
  proof (cases "i = length bs")
    case False
    then have "i < length bs" "length bs - i - 1 = length bs - 1 - i" using that by linarith+
    then show ?thesis using h l unfolding pushed_in holds_def by (auto simp: nth_append)
  qed (unfold pushed_in, simp)
  then show ?thesis unfolding holds_def by simp
qed

lemma add_bits_holds:
  "holds (x_data s) as \<Longrightarrow> x_count s = length as \<Longrightarrow> length as + length bs \<le> 16 \<Longrightarrow>
     \<exists>w. foldl transmit_register_add_bit s bs = s\<lparr>x_data := w, x_count := length as + length bs\<rparr> \<and> holds w (as @ bs)"
proof (induction bs arbitrary: s as)
  case Nil
  have "s\<lparr>x_data := x_data s, x_count := x_count s\<rparr> = s" by simp
  then show ?case using Nil by (intro exI [of _ "x_data s"]) simp
next
  case (Cons b bs)
  let ?s = "transmit_register_add_bit s b"
  have h: "holds (x_data ?s) (as @ [b])" "x_count ?s = length (as @ [b])"
    using Cons.prems holds_add [of "x_data s" as b] by (simp_all add: transmit_register_add_bit_def)
  have "length (as @ [b]) + length bs \<le> 16" using Cons.prems by simp
  from Cons.IH [OF h this] obtain w where
    w: "foldl transmit_register_add_bit ?s bs = ?s\<lparr>x_data := w, x_count := length (as @ [b]) + length bs\<rparr>" "holds w ((as @ [b]) @ bs)"
    by blast
  have "foldl transmit_register_add_bit s (b # bs) = s\<lparr>x_data := w, x_count := length as + length (b # bs)\<rparr>"
    using w(1) by (simp add: transmit_register_add_bit_def)
  then show ?case using w(2) by auto
qed

lemma setup_holds:
  "length (frame_bits s d) \<le> 16 \<Longrightarrow>
     \<exists>w. transmit_register_setup d s = s\<lparr>x_data := w, x_sent := 0, x_count := length (frame_bits s d), x_empty := False\<rparr> \<and>
       holds w (frame_bits s d)"
proof -
  assume l: "length (frame_bits s d) \<le> 16"
  obtain w where "foldl transmit_register_add_bit (s\<lparr>x_sent := 0, x_count := 0, x_empty := False\<rparr>) (frame_bits s d) =
      (s\<lparr>x_sent := 0, x_count := 0, x_empty := False\<rparr>)\<lparr>x_data := w, x_count := length ([] :: bool list) + length (frame_bits s d)\<rparr>"
    "holds w ([] @ frame_bits s d)"
    using add_bits_holds [of "s\<lparr>x_sent := 0, x_count := 0, x_empty := False\<rparr>" "[]" "frame_bits s d"] l by (auto simp: holds_def)
  then show ?thesis unfolding setup_frame_bits by (intro exI [of _ w]) simp
qed

lemma get_bit_holds:
  "holds (x_data s) bs \<Longrightarrow> x_count s = length bs \<Longrightarrow> x_sent s < length bs \<Longrightarrow>
     transmit_register_get_data_bit s =
       (bs ! x_sent s, s\<lparr>x_sent := x_sent s + 1, x_empty := x_empty s \<or> x_sent s + 1 = length bs\<rparr>)"
proof -
  assume "holds (x_data s) bs" "x_count s = length bs" "x_sent s < length bs"
  moreover have "s\<lparr>x_sent := Suc (x_sent s)\<rparr> = s\<lparr>x_sent := Suc (x_sent s), x_empty := x_empty s\<rparr>" by simp
  ultimately show ?thesis by (auto simp: transmit_register_get_data_bit_def holds_def Let_def)
qed

lemma transmit_holds:
  "holds (x_data s) bs \<Longrightarrow> x_count s = length bs \<Longrightarrow> x_sent s + n \<le> length bs \<Longrightarrow> \<not> x_empty s \<Longrightarrow>
     transmit n s = (take n (drop (x_sent s) bs), s\<lparr>x_sent := x_sent s + n, x_empty := 0 < n \<and> x_sent s + n = length bs\<rparr>)"
proof (induction n arbitrary: s)
  case 0
  have "s = s\<lparr>x_sent := x_sent s, x_empty := x_empty s\<rparr>" by simp
  then show ?case using 0 by simp
next
  case (Suc n)
  let ?s = "s\<lparr>x_sent := x_sent s + 1, x_empty := x_sent s + 1 = length bs\<rparr>"
  have g: "transmit_register_get_data_bit s = (bs ! x_sent s, ?s)"
    using get_bit_holds [OF Suc.prems(1, 2)] Suc.prems by simp
  have d: "drop (x_sent s) bs = bs ! x_sent s # drop (x_sent s + 1) bs"
    using Suc.prems(3) by (simp add: Cons_nth_drop_Suc)
  show ?case
  proof (cases n)
    case 0
    then show ?thesis using Suc.prems g by (simp add: d)
  next
    case (Suc m)
    have "transmit n ?s = (take n (drop (x_sent ?s) bs), ?s\<lparr>x_sent := x_sent ?s + n, x_empty := 0 < n \<and> x_sent ?s + n = length bs\<rparr>)"
      by (rule Suc.IH) (use Suc.prems Suc in auto)
    then show ?thesis using g Suc by (simp add: d)
  qed
qed

text \<open>The transmit register sends a frame bit by bit: the start bits, the data bits from the lowest, the parity bit of
  the frame and the stop bits, and is empty with the last of them and not before.\<close>

lemma transmit_sends_frame:
  assumes "1 \<le> n" "n \<le> length (frame_bits s d)" "length (frame_bits s d) \<le> 16"
  shows "fst (transmit n (transmit_register_setup d s)) = take n (frame_bits s d) \<and>
    (x_empty (snd (transmit n (transmit_register_setup d s))) \<longleftrightarrow> n = length (frame_bits s d))"
proof -
  obtain w where w: "transmit_register_setup d s = s\<lparr>x_data := w, x_sent := 0, x_count := length (frame_bits s d), x_empty := False\<rparr>"
    "holds w (frame_bits s d)" using setup_holds [OF assms(3)] by blast
  show ?thesis
    unfolding w(1) by (subst (1 2) transmit_holds [where bs = "frame_bits s d"]) (use w(2) assms in auto)
qed

subsection \<open>Reception\<close>

definition receive_bits :: "serif \<Rightarrow> bool list \<Rightarrow> serif" where
  "receive_bits s bs = foldl (\<lambda>s b. receive_register_update_bit b s) s bs"

text \<open>A receiver that waits for a start bit on a quiet line.\<close>

definition line_idle :: "serif \<Rightarrow> bool" where
  "line_idle s \<longleftrightarrow> r_waiting s \<and> \<not> r_sync s \<and> \<not> r_full s \<and> bit (r_data s) 15"

text \<open>The register has caught the bits, the last one highest.\<close>

definition caught :: "u16 \<Rightarrow> bool list \<Rightarrow> bool" where
  "caught w bs \<longleftrightarrow> length bs \<le> 16 \<and> (\<forall>i < length bs. bit w (16 - length bs + i) = bs ! i)"

lemma shifted_in: "bit ((drop_bit 1 w AND 0x7fff) OR push_bit 15 (of_bool b)) i \<longleftrightarrow> (i = 15 \<and> b) \<or> (i < 15 \<and> bit w (i + 1))" for w :: u16
proof -
  have "bit (0x7fff :: u16) i \<longleftrightarrow> i < 15"
  proof -
    have "(0x7fff :: u16) = mask 15" by (simp add: mask_eq_exp_minus_1)
    then show ?thesis by (simp only: bit_mask_iff) auto
  qed
  then show ?thesis by (cases "i < 16") (auto simp: bit_simps)
qed

lemma caught_shift:
  "caught w bs \<Longrightarrow> length bs < 16 \<Longrightarrow> caught ((drop_bit 1 w AND 0x7fff) OR push_bit 15 (of_bool b)) (bs @ [b])"
proof -
  assume c: "caught w bs" and l: "length bs < 16"
  have "(i' = 15 \<and> b) \<or> (i' < 15 \<and> bit w (i' + 1)) \<longleftrightarrow> (bs @ [b]) ! i" if i: "i \<le> length bs" "i' = 16 - length (bs @ [b]) + i" for i i'
  proof (cases "i = length bs")
    case False
    then have "i < length bs" "i' + 1 = 16 - length bs + i" "i' < 15" using i l by auto
    then show ?thesis using c by (auto simp: caught_def nth_append)
  qed (use i l in auto)
  then show ?thesis using l unfolding caught_def shifted_in by auto
qed

definition receiving :: "serif \<Rightarrow> bool list \<Rightarrow> bool" where
  "receiving s bs \<longleftrightarrow> r_sync s \<and> \<not> r_waiting s \<and> \<not> r_full s \<and> \<not> r_framing s \<and> \<not> r_parity s \<and>
     r_received s = length bs \<and> caught (r_data s) bs"

definition same_frame :: "serif \<Rightarrow> serif \<Rightarrow> bool" where
  "same_frame s s' \<longleftrightarrow> f_start s' = f_start s \<and> f_word s' = f_word s \<and> f_parity s' = f_parity s \<and> f_stop s' = f_stop s \<and>
     f_min_stop s' = f_min_stop s \<and> r_count s' = r_count s"

lemma same_frame_trans: "same_frame a b \<Longrightarrow> same_frame b c \<Longrightarrow> same_frame a c"
  by (simp add: same_frame_def)

lemma update_same_frame [simp]: "same_frame s (receive_register_update_bit b s)"
  by (simp add: same_frame_def receive_register_update_bit_def Let_def)

lemma start_bit_seen: "line_idle s \<Longrightarrow> receiving (receive_register_update_bit False s) []"
  by (simp add: line_idle_def receive_register_update_bit_def receiving_def caught_def Let_def)

lemma quiet_line: "line_idle s \<Longrightarrow> line_idle (receive_register_update_bit True s)"
  using shifted_in [of "r_data s" True 15] by (simp add: line_idle_def receive_register_update_bit_def Let_def)

lemma bit_received:
  "receiving s bs \<Longrightarrow> length bs < 16 \<Longrightarrow> b \<or> length bs + 1 \<le> r_count s - f_min_stop s \<Longrightarrow> length bs + 1 \<noteq> r_count s \<Longrightarrow>
     receiving (receive_register_update_bit b s) (bs @ [b])"
  using caught_shift [of "r_data s" bs b]
  by (auto simp: receive_register_update_bit_def receiving_def Let_def)

definition frame_caught :: "serif \<Rightarrow> bool list \<Rightarrow> bool" where
  "frame_caught s bs \<longleftrightarrow> r_full s \<and> r_waiting s \<and> \<not> r_sync s \<and> \<not> r_framing s \<and> \<not> r_parity s \<and> r_received s = 0 \<and> caught (r_data s) bs"

lemma last_bit_received:
  "receiving s bs \<Longrightarrow> length bs < 16 \<Longrightarrow> b \<or> length bs + 1 \<le> r_count s - f_min_stop s \<Longrightarrow> length bs + 1 = r_count s \<Longrightarrow>
     frame_caught (receive_register_update_bit b s) (bs @ [b])"
  using caught_shift [of "r_data s" bs b]
  by (auto simp: receive_register_update_bit_def receiving_def frame_caught_def Let_def)

text \<open>What the receiver makes of the data, parity and stop bits it has caught.\<close>

lemma extract_caught:
  assumes c: "frame_caught s (data_bits (f_word s) d @ ps @ replicate (f_min_stop s) True)" and w: "f_word s \<le> 8" and f: "f_start s = 1"
    and n: "r_count s = f_word s + length ps + f_min_stop s" and p: "length ps = (if f_parity s = ParityNone then 0 else 1)"
  shows "receive_register_extract s =
    s\<lparr>r_received := 0, r_full := False, r_sync := False, r_waiting := True, r_byte := d AND mask (f_word s),
      r_parity := parity_fails (f_parity s) (d AND mask (f_word s)) (ps \<noteq> [] \<and> hd ps)\<rparr>"
proof -
  let ?bs = "data_bits (f_word s) d @ ps @ replicate (f_min_stop s) True"
  have l: "length ?bs = r_count s" "r_count s \<le> 16" using n c by (auto simp: frame_caught_def caught_def)
  have at: "bit (r_data s) (16 - r_count s + i) = ?bs ! i" if "i < r_count s" for i
    using c that l by (auto simp: frame_caught_def caught_def)
  have data: "ucast (drop_bit (16 - r_count s) (r_data s)) AND NOT (push_bit (f_word s) 0xff) = d AND mask (f_word s)"
  proof (rule u8_eqI)
    fix i :: nat assume i: "i < 8"
    show "bit (ucast (drop_bit (16 - r_count s) (r_data s)) AND NOT (push_bit (f_word s) (0xff :: u8))) i = bit (d AND mask (f_word s)) i"
    proof (cases "i < f_word s")
      case True
      then have "bit (r_data s) (16 - r_count s + i) = bit d i" using at [of i] n by (simp add: nth_append nth_data_bits)
      then show ?thesis using True i by (auto simp: bit_simps add.commute)
    next
      case False
      then have "bit (push_bit (f_word s) (0xff :: u8)) i" using i by (auto simp: bit_simps bit_int_ff)
      then show ?thesis using False i by (auto simp: bit_simps)
    qed
  qed
  have pb: "bit (r_data s) (16 - r_count s + f_word s) = (ps \<noteq> [] \<and> hd ps)" if "ps \<noteq> []"
    using at [of "f_word s"] that n by (cases ps) (auto simp: nth_append)
  define e where "e = s\<lparr>r_received := 0, r_full := False, r_sync := False, r_waiting := True, r_byte := d AND mask (f_word s)\<rparr>"
  have x: "receive_register_extract s =
      (if f_parity e = ParityNone then e
       else if parity_fails (f_parity e) (d AND mask (f_word s)) (bit (r_data e) (16 - r_count e + f_word e)) then e\<lparr>r_parity := True\<rparr> else e)"
    unfolding receive_register_extract_def Let_def receive_register_reset_def
    using f by (simp add: data e_def)
  have e: "r_parity e = False" "f_parity e = f_parity s" "r_data e = r_data s" "r_count e = r_count s" "f_word e = f_word s"
    using c by (simp_all add: e_def frame_caught_def)
  have upd: "e\<lparr>r_parity := False\<rparr> = e" using e(1) by simp
  show ?thesis
  proof (cases "f_parity s = ParityNone")
    case True
    then have "receive_register_extract s = e" "parity_fails (f_parity s) (d AND mask (f_word s)) (ps \<noteq> [] \<and> hd ps) = False"
      using x e by (simp_all add: parity_fails_def)
    then show ?thesis using upd unfolding e_def by simp
  next
    case False
    then have "ps \<noteq> []" using p by auto
    then have "receive_register_extract s = e\<lparr>r_parity := parity_fails (f_parity s) (d AND mask (f_word s)) (ps \<noteq> [] \<and> hd ps)\<rparr>"
      using x e pb False upd by (cases "parity_fails (f_parity s) (d AND mask (f_word s)) (hd ps)") simp_all
    then show ?thesis unfolding e_def by simp
  qed
qed

end
