(* ===== verification/I8251.thy ===== *)
theory I8251
  imports Diserial
begin

text \<open>
  The serial controller, \<open>src/devices/machine/i8251.cpp\<close>, on the shift registers of \<open>Diserial\<close>: mode,
  sync and command writes, status, transmission and the asynchronous and synchronous receivers.
  \<open>u_calls\<close> records the calls of the output handlers, the latest last.
\<close>

unbundle bit_operations_syntax

subsection \<open>State\<close>

datatype usart_call = Txd bool | Dtr bool | Rts bool | Rxrdy bool | Txrdy bool | Txempty bool | Syndet bool

datatype next_write = NextCommand | NextMode | NextSync1 | NextSync2

record usart =
  u_serial :: serif
  u_next :: next_write
  u_sync_byte_count :: nat
  u_sync1 :: u8
  u_sync2 :: u16
  u_status :: u8
  u_command :: u8
  u_mode :: u8
  u_delayed_tx_en :: bool
  u_cts :: bool
  u_dsr :: bool
  u_rxd :: bool
  u_rxc :: bool
  u_txc :: bool
  u_rxc_count :: int
  u_txc_count :: int
  u_br_factor :: int
  u_rx_data :: u8
  u_tx_data :: u8
  u_sync8 :: u8
  u_sync16 :: u16
  u_tx_sync_shift :: nat
  u_syndet_pin :: bool
  u_hunt_on :: bool
  u_ext_syn_set :: bool
  u_rxd_bits :: nat
  u_data_bits :: nat
  u_calls :: "usart_call list"

abbreviation FRAMING_ERROR :: u8 where "FRAMING_ERROR \<equiv> 0x20"
abbreviation OVERRUN_ERROR :: u8 where "OVERRUN_ERROR \<equiv> 0x10"
abbreviation PARITY_ERROR :: u8 where "PARITY_ERROR \<equiv> 0x08"
abbreviation TX_EMPTY :: u8 where "TX_EMPTY \<equiv> 0x04"
abbreviation RX_READY :: u8 where "RX_READY \<equiv> 0x02"
abbreviation TX_READY :: u8 where "TX_READY \<equiv> 0x01"

definition usart_start :: usart where
  "usart_start = \<lparr>u_serial = serif_start, u_next = NextCommand, u_sync_byte_count = 0, u_sync1 = 0, u_sync2 = 0,
     u_status = 0, u_command = 0, u_mode = 0, u_delayed_tx_en = False, u_cts = True, u_dsr = True, u_rxd = True,
     u_rxc = False, u_txc = False, u_rxc_count = 0, u_txc_count = 0, u_br_factor = 0, u_rx_data = 0, u_tx_data = 0,
     u_sync8 = 0, u_sync16 = 0, u_tx_sync_shift = 0, u_syndet_pin = False, u_hunt_on = False, u_ext_syn_set = False,
     u_rxd_bits = 0, u_data_bits = 0, u_calls = []\<rparr>"

definition call :: "usart_call \<Rightarrow> usart \<Rightarrow> usart" where
  "call out u = u\<lparr>u_calls := u_calls u @ [out]\<rparr>"

definition set_status :: "u8 \<Rightarrow> usart \<Rightarrow> usart" where
  "set_status b u = u\<lparr>u_status := u_status u OR b\<rparr>"

definition clear_status :: "u8 \<Rightarrow> usart \<Rightarrow> usart" where
  "clear_status b u = u\<lparr>u_status := u_status u AND NOT b\<rparr>"

subsection \<open>Outputs\<close>

definition is_tx_enabled :: "usart \<Rightarrow> bool" where
  "is_tx_enabled u \<longleftrightarrow> bit (u_command u) 0 \<and> \<not> u_cts u"

definition txrdy_r :: "usart \<Rightarrow> bool" where
  "txrdy_r u \<longleftrightarrow> is_tx_enabled u \<and> tst (u_status u) TX_READY"

definition rxrdy_r :: "usart \<Rightarrow> bool" where
  "rxrdy_r u \<longleftrightarrow> bit (u_command u) 2 \<and> tst (u_status u) RX_READY"

definition update_rx_ready :: "usart \<Rightarrow> usart" where
  "update_rx_ready u = call (Rxrdy (rxrdy_r u)) u"

definition update_tx_ready :: "usart \<Rightarrow> usart" where
  "update_tx_ready u = call (Txrdy (txrdy_r u)) u"

definition load_transmitter :: "u8 \<Rightarrow> usart \<Rightarrow> usart" where
  "load_transmitter d u = u\<lparr>u_serial := transmit_register_setup d (u_serial u)\<rparr>"

definition update_tx_empty :: "usart \<Rightarrow> usart" where
  "update_tx_empty u =
     (let u1 = (if tst (u_status u) TX_EMPTY then
                  (if u_sync_byte_count u > 0 \<and> is_tx_enabled u then
                     (let u' = (if u_sync_byte_count u = 2
                                then (load_transmitter (ucast (drop_bit (u_tx_sync_shift u) (u_sync16 u))) u)
                                       \<lparr>u_tx_sync_shift := (if u_tx_sync_shift u = 8 then 0 else 8)\<rparr>
                                else load_transmitter (u_sync8 u) u)
                      in clear_status TX_EMPTY u')
                   else call (Txd (\<not> bit (u_command u) 3)) u)
                else u)
      in call (Txempty (tst (u_status u1) TX_EMPTY)) u1)"

definition update_syndet :: "bool \<Rightarrow> usart \<Rightarrow> usart" where
  "update_syndet voltage u =
     (let u1 = (if voltage then set_status 0x40 u else clear_status 0x40 u)
      in if \<not> u_syndet_pin u1 then call (Syndet voltage) u1 else u1)"

subsection \<open>Transmission\<close>

definition start_tx :: "usart \<Rightarrow> usart" where
  "start_tx u = set_status TX_READY (clear_status TX_EMPTY (load_transmitter (u_tx_data u) u))"

definition check_for_tx_start :: "usart \<Rightarrow> usart" where
  "check_for_tx_start u =
     (if is_tx_enabled u \<and> u_status u AND (TX_EMPTY OR TX_READY) = TX_EMPTY then start_tx u else u)"

definition transmit_clock :: "usart \<Rightarrow> usart" where
  "transmit_clock u =
     (let u1 = u\<lparr>u_txc_count := u_txc_count u + 1\<rparr>
      in if u_txc_count u1 \<noteq> u_br_factor u1 then u1
         else let u2 = u1\<lparr>u_txc_count := 0\<rparr>;
                  u3 = (if x_empty (u_serial u2) then
                          (let u' = (if \<not> tst (u_status u2) TX_READY \<and> (is_tx_enabled u2 \<or> u_delayed_tx_en u2)
                                     then start_tx u2 else set_status TX_EMPTY u2)
                           in update_tx_empty (update_tx_ready u'))
                        else u2)
              in if \<not> x_empty (u_serial u3)
                 then let (b, s) = transmit_register_get_data_bit (u_serial u3) in call (Txd b) (u3\<lparr>u_serial := s\<rparr>)
                 else u3)"

definition data_w :: "u8 \<Rightarrow> usart \<Rightarrow> usart" where
  "data_w data u =
     (let u1 = update_tx_ready (clear_status TX_READY (u\<lparr>u_tx_data := data\<rparr>));
          u2 = check_for_tx_start (u1\<lparr>u_delayed_tx_en := is_tx_enabled u1\<rparr>)
      in update_tx_empty (update_tx_ready u2))"

subsection \<open>Reception\<close>

definition receive_character :: "u8 \<Rightarrow> usart \<Rightarrow> usart" where
  "receive_character ch u =
     (let u1 = u\<lparr>u_rx_data := ch\<rparr>;
          u2 = (if tst (u_status u1) RX_READY then set_status OVERRUN_ERROR u1 else u1)
      in update_rx_ready (set_status RX_READY u2))"

definition receive_clock :: "usart \<Rightarrow> usart" where
  "receive_clock u =
     (if bit (u_command u) 2 then
        let sync = r_sync (u_serial u);
            u1 = (if sync then u\<lparr>u_rxc_count := u_rxc_count u - 1\<rparr> else u)
        in if sync \<and> u_rxc_count u1 \<noteq> 0 then u1
           else let u2 = u1\<lparr>u_serial := receive_register_update_bit (u_rxd u1) (u_serial u1)\<rparr>;
                    u3 = (if r_sync (u_serial u2)
                          then u2\<lparr>u_rxc_count := (if sync then u_br_factor u2 else 3 * u_br_factor u2 div 2)\<rparr> else u2)
                in if r_full (u_serial u3) then
                     (let u4 = u3\<lparr>u_serial := receive_register_extract (u_serial u3)\<rparr>;
                          u5 = (if r_parity (u_serial u4) then set_status PARITY_ERROR u4 else u4);
                          u6 = (if r_framing (u_serial u5) then set_status FRAMING_ERROR u5 else u5)
                      in receive_character (r_byte (u_serial u6)) u6)
                   else u3
      else u)"

text \<open>Synchronous reception; the two receivers differ in the shift registers and the pattern they hunt for.\<close>

definition need_parity :: "usart \<Rightarrow> nat" where
  "need_parity u = of_bool (bit (u_mode u) 4)"

definition sync_parity_fails :: "usart \<Rightarrow> bool" where
  "sync_parity_fails u \<longleftrightarrow>
     even (length (filter (bit (u_sync1 u)) [0..<8]) + of_bool (u_rxd u) + of_bool (bit (u_mode u) 5))"

text \<open>What follows when a bit has been taken in: hunting, counting, delivering; \<open>match\<close> tells whether the shift register holds the pattern.\<close>

definition sync_taken :: "(usart \<Rightarrow> bool) \<Rightarrow> (usart \<Rightarrow> usart) \<Rightarrow> usart \<Rightarrow> usart" where
  "sync_taken match clear u =
     (if u_hunt_on u \<and> \<not> match u then u
      else if u_hunt_on u \<and> need_parity u = 1 \<and> u_rxd_bits u < u_data_bits u then u\<lparr>u_rxd_bits := u_data_bits u\<rparr>
      else let was_in_hunt_mode = u_hunt_on u;
               u1 = (if was_in_hunt_mode then u\<lparr>u_rxd_bits := u_data_bits u, u_hunt_on := False\<rparr> else u);
               u2 = u1\<lparr>u_rxd_bits := u_rxd_bits u1 + 1\<rparr>
           in if u_rxd_bits u2 < u_data_bits u2 + need_parity u2 then u2
              else let u3 = (if was_in_hunt_mode then u2 else receive_character (u_sync1 u2) u2);
                       u4 = (if match u3 then update_syndet True u3 else u3)
                   in clear (u4\<lparr>u_rxd_bits := 0\<rparr>))"

definition sync1_rxc :: "usart \<Rightarrow> usart" where
  "sync1_rxc u =
     (if \<not> bit (u_command u) 2 then u
      else if u_syndet_pin u \<and> \<not> u_ext_syn_set u then u
      else let u1 = (if need_parity u = 1 \<and> u_rxd_bits u = u_data_bits u
                     then (if sync_parity_fails u then set_status PARITY_ERROR u else u)
                     else u\<lparr>u_sync1 := drop_bit 1 (u_sync1 u) OR push_bit (u_data_bits u - 1) (of_bool (u_rxd u))\<rparr>)
           in sync_taken (\<lambda>u. u_sync1 u = u_sync8 u) (\<lambda>u. u\<lparr>u_sync1 := 0\<rparr>) u1)"

definition sync2_rxc :: "usart \<Rightarrow> usart" where
  "sync2_rxc u =
     (if \<not> bit (u_command u) 2 then u
      else if u_syndet_pin u \<and> \<not> u_ext_syn_set u then u
      else let u1 = (if need_parity u = 1 \<and> u_rxd_bits u = u_data_bits u
                     then (if sync_parity_fails u then set_status PARITY_ERROR u else u)
                     else u\<lparr>u_sync1 := drop_bit 1 (u_sync1 u) OR push_bit (u_data_bits u - 1) (of_bool (u_rxd u)),
                            u_sync2 := drop_bit 1 (u_sync2 u) OR push_bit (u_data_bits u * 2 - 1) (of_bool (u_rxd u))\<rparr>)
           in sync_taken (\<lambda>u. u_sync2 u = u_sync16 u) (\<lambda>u. u\<lparr>u_sync1 := 0, u_sync2 := 0\<rparr>) u1)"

definition data_r :: "usart \<Rightarrow> u8 \<times> usart" where
  "data_r u = (u_rx_data u, update_rx_ready (clear_status RX_READY u))"

subsection \<open>Control\<close>

definition usart_reset :: "usart \<Rightarrow> usart" where
  "usart_reset u =
     (let u1 = call (Dtr True) (call (Rts True) (call (Txd True) u));
          u2 = u1\<lparr>u_serial := receive_register_reset (transmit_register_reset (u_serial u1)), u_next := NextMode,
                  u_status := TX_EMPTY OR TX_READY, u_mode := 0, u_command := 0, u_rx_data := 0, u_tx_data := 0,
                  u_rxc_count := 0, u_txc_count := 0, u_br_factor := 1\<rparr>
      in update_tx_ready (update_rx_ready (update_tx_empty u2)))"

definition command_w :: "u8 \<Rightarrow> usart \<Rightarrow> usart" where
  "command_w data u =
     (let u1 = call (Dtr (\<not> bit data 1)) (call (Rts (\<not> bit data 5)) (u\<lparr>u_command := data\<rparr>));
          u2 = (if bit data 4 then clear_status (PARITY_ERROR OR OVERRUN_ERROR OR FRAMING_ERROR) u1 else u1);
          u3 = (if bit data 6 then u2\<lparr>u_next := NextMode\<rparr> else u2);
          u4 = update_syndet False (u3\<lparr>u_hunt_on := False\<rparr>);
          u5 = (if u_sync_byte_count u4 \<noteq> 0 then u4\<lparr>u_hunt_on := bit data 7\<rparr> else u4);
          u6 = (if u_hunt_on u5 then u5\<lparr>u_ext_syn_set := False\<rparr> else u5);
          u7 = (if bit data 3 then call (Txd False) u6 else u6)
      in update_tx_empty (update_tx_ready (update_rx_ready (check_for_tx_start u7))))"

definition mode_parity :: "u8 \<Rightarrow> parity" where
  "mode_parity data = (if data AND 0x30 = 0x10 then ParityOdd else if data AND 0x30 = 0x30 then ParityEven else ParityNone)"

definition mode_stop_bits :: "u8 \<Rightarrow> stop_bits" where
  "mode_stop_bits data =
     (if data AND 0xc0 = 0x40 then StopBits1 else if data AND 0xc0 = 0x80 then StopBits1_5
      else if data AND 0xc0 = 0xc0 then StopBits2 else StopBits0)"

definition mode_w :: "u8 \<Rightarrow> usart \<Rightarrow> usart" where
  "mode_w data u =
     (let bits = unat (drop_bit 2 data AND 0x03) + 5;
          u1 = u\<lparr>u_mode := data, u_data_bits := bits, u_br_factor := 1, u_next := NextCommand, u_sync_byte_count := 0, u_syndet_pin := False\<rparr>;
          u2 = (if tst data 0x03 then
                  u1\<lparr>u_serial := set_data_frame 1 bits (mode_parity data) (mode_stop_bits data) (u_serial u1),
                     u_br_factor := (if data AND 0x03 = 2 then 16 else if data AND 0x03 = 3 then 64 else 1)\<rparr>
                else
                  u1\<lparr>u_next := (if bit data 7 then NextSync2 else NextSync1), u_sync_byte_count := (if bit data 7 then 1 else 2),
                     u_serial := set_data_frame 0 bits (mode_parity data) StopBits0 (u_serial u1),
                     u_syndet_pin := bit data 6, u_sync8 := 0, u_sync16 := 0, u_tx_sync_shift := 8, u_rxd_bits := 0, u_sync1 := 0\<rparr>)
      in u2\<lparr>u_serial := receive_register_reset (u_serial u2), u_txc_count := 0\<rparr>)"

definition sync1_w :: "u8 \<Rightarrow> usart \<Rightarrow> usart" where
  "sync1_w data u = u\<lparr>u_sync16 := push_bit 8 (ucast data), u_next := NextSync2\<rparr>"

definition sync2_w :: "u8 \<Rightarrow> usart \<Rightarrow> usart" where
  "sync2_w data u =
     (if u_sync_byte_count u = 2 then u\<lparr>u_sync16 := u_sync16 u OR ucast data\<rparr> else u\<lparr>u_sync8 := data\<rparr>)\<lparr>u_next := NextCommand\<rparr>"

definition usart_control_w :: "u8 \<Rightarrow> usart \<Rightarrow> usart" where
  "usart_control_w data u = (case u_next u of
     NextSync1 \<Rightarrow> sync1_w data u | NextSync2 \<Rightarrow> sync2_w data u | NextMode \<Rightarrow> mode_w data u | NextCommand \<Rightarrow> command_w data u)"

definition usart_status_r :: "usart \<Rightarrow> u8 \<times> usart" where
  "usart_status_r u = ((if u_dsr u then 0x80 else 0) OR u_status u, update_syndet False u)"

definition usart_read :: "nat \<Rightarrow> usart \<Rightarrow> u8 \<times> usart" where
  "usart_read offset u = (if offset \<noteq> 0 then usart_status_r u else data_r u)"

definition usart_write :: "nat \<Rightarrow> u8 \<Rightarrow> usart \<Rightarrow> usart" where
  "usart_write offset data u = (if offset \<noteq> 0 then usart_control_w data u else data_w data u)"

subsection \<open>Pins\<close>

definition write_rxd :: "bool \<Rightarrow> usart \<Rightarrow> usart" where
  "write_rxd state u = u\<lparr>u_rxd := state\<rparr>"

definition write_cts :: "bool \<Rightarrow> usart \<Rightarrow> usart" where
  "write_cts state u = update_tx_empty (update_tx_ready (check_for_tx_start (u\<lparr>u_cts := state\<rparr>)))"

definition write_dsr :: "bool \<Rightarrow> usart \<Rightarrow> usart" where
  "write_dsr state u = u\<lparr>u_dsr := \<not> state\<rparr>"

definition write_rxc :: "bool \<Rightarrow> usart \<Rightarrow> usart" where
  "write_rxc state u =
     (if \<not> u_rxc u \<and> state then
        (if u_sync_byte_count u = 1 then sync1_rxc u else if u_sync_byte_count u = 2 then sync2_rxc u else receive_clock u)
      else u)\<lparr>u_rxc := state\<rparr>"

definition write_txc :: "bool \<Rightarrow> usart \<Rightarrow> usart" where
  "write_txc state u =
     (if u_txc u \<noteq> state then
        let u1 = u\<lparr>u_txc := state\<rparr> in if \<not> u_txc u1 then transmit_clock u1 else u1
      else u)"

definition write_syn :: "bool \<Rightarrow> usart \<Rightarrow> usart" where
  "write_syn state u =
     (if u_syndet_pin u \<and> state then update_syndet True (u\<lparr>u_ext_syn_set := True, u_hunt_on := False\<rparr>) else u)"

subsection \<open>Receiving a character\<close>

lemma call_fields [simp]:
  "u_serial (call x u) = u_serial u" "u_status (call x u) = u_status u" "u_command (call x u) = u_command u"
  "u_rxd (call x u) = u_rxd u" "u_rxc (call x u) = u_rxc u" "u_rxc_count (call x u) = u_rxc_count u"
  "u_br_factor (call x u) = u_br_factor u" "u_rx_data (call x u) = u_rx_data u" "u_cts (call x u) = u_cts u"
  "u_sync_byte_count (call x u) = u_sync_byte_count u" "u_txc (call x u) = u_txc u" "u_txc_count (call x u) = u_txc_count u"
  "u_tx_data (call x u) = u_tx_data u" "u_delayed_tx_en (call x u) = u_delayed_tx_en u"
  by (simp_all add: call_def)

text \<open>One period of the receive clock with a level on the line, and a whole line.\<close>

definition clock_in :: "usart \<Rightarrow> bool \<Rightarrow> usart" where
  "clock_in u b = write_rxc False (write_rxc True (write_rxd b u))"

definition listen :: "bool list \<Rightarrow> usart \<Rightarrow> usart" where
  "listen bs u = foldl clock_in u bs"

lemma listen_simps [simp]:
  "listen [] u = u" "listen (b # bs) u = listen bs (clock_in u b)" "listen (as @ bs) u = listen bs (listen as u)"
  by (simp_all add: listen_def)

text \<open>The asynchronous receiver at work: its shift register, the clocks to the next sample, status and data.\<close>

definition rx_at :: "int \<Rightarrow> serif \<Rightarrow> int \<Rightarrow> u8 \<Rightarrow> u8 \<Rightarrow> usart \<Rightarrow> bool" where
  "rx_at k s c st d u \<longleftrightarrow> u_serial u = s \<and> u_rxc_count u = c \<and> u_status u = st \<and> u_rx_data u = d \<and>
     u_sync_byte_count u = 0 \<and> bit (u_command u) 2 \<and> \<not> u_rxc u \<and> u_br_factor u = k"

lemma clock_in_receive:
  "rx_at k s c st d u \<Longrightarrow> clock_in u b = (receive_clock (u\<lparr>u_rxd := b\<rparr>))\<lparr>u_rxc := False\<rparr>"
  by (simp add: clock_in_def write_rxc_def write_rxd_def rx_at_def)

lemma rx_wait_one: "rx_at k s c st d u \<Longrightarrow> r_sync s \<Longrightarrow> 1 < c \<Longrightarrow> rx_at k s (c - 1) st d (clock_in u b)"
  by (simp add: clock_in_receive receive_clock_def rx_at_def Let_def)

lemma rx_wait:
  "rx_at k s c st d u \<Longrightarrow> r_sync s \<Longrightarrow> int (length bs) < c \<Longrightarrow> rx_at k s (c - int (length bs)) st d (listen bs u)"
proof (induction bs arbitrary: c u)
  case (Cons b bs)
  have "rx_at k s (c - 1) st d (clock_in u b)" using rx_wait_one [OF Cons.prems(1, 2)] Cons.prems(3) by simp
  from Cons.IH [OF this Cons.prems(2)] show ?case using Cons.prems(3) by (simp add: algebra_simps)
qed simp

lemma rx_sample:
  "rx_at k s 1 st d u \<Longrightarrow> r_sync s \<Longrightarrow> s' = receive_register_update_bit b s \<Longrightarrow> r_sync s' \<Longrightarrow> \<not> r_full s' \<Longrightarrow>
     rx_at k s' k st d (clock_in u b)"
  by (simp add: clock_in_receive receive_clock_def rx_at_def Let_def)

text \<open>A sample falls into the middle of each bit: \<open>middle k\<close> clocks after its beginning.\<close>

definition middle :: "nat \<Rightarrow> nat" where
  "middle k = k div 2 + 1"

lemma middle_range: "1 \<le> k \<Longrightarrow> middle k \<le> k" "1 \<le> middle k"
  by (auto simp: middle_def)

lemma split_bit: "1 \<le> k \<Longrightarrow> replicate k b = replicate (middle k - 1) b @ [b] @ replicate (k - middle k) b"
proof -
  assume "1 \<le> k"
  then have "k = (middle k - 1) + (1 + (k - middle k))" using middle_range [of k] by simp
  then show ?thesis by (metis replicate_add replicate_Suc replicate_0 One_nat_def)
qed

lemma rx_bit:
  "1 \<le> k \<Longrightarrow> rx_at (int k) s (int (middle k)) st d u \<Longrightarrow> r_sync s \<Longrightarrow> s' = receive_register_update_bit b s \<Longrightarrow> r_sync s' \<Longrightarrow> \<not> r_full s' \<Longrightarrow>
     rx_at (int k) s' (int (middle k)) st d (listen (replicate k b) u)"
proof -
  assume k: "1 \<le> k" and u: "rx_at (int k) s (int (middle k)) st d u" "r_sync s" and s': "s' = receive_register_update_bit b s" "r_sync s'" "\<not> r_full s'"
  note m = middle_range(1) [OF k] middle_range(2) [of k]
  have a: "rx_at (int k) s 1 st d (listen (replicate (middle k - 1) b) u)"
    using rx_wait [OF u, of "replicate (middle k - 1) b"] m by simp
  have c: "rx_at (int k) s' (int k) st d (clock_in (listen (replicate (middle k - 1) b) u) b)" by (rule rx_sample [OF a u(2) s'])
  show ?thesis
    using rx_wait [OF c s'(2), of "replicate (k - middle k) b"] m
    unfolding split_bit [OF k] by (simp add: of_nat_diff)
qed

lemma rx_start_bit:
  "1 \<le> k \<Longrightarrow> rx_at (int k) s c st d u \<Longrightarrow> line_idle s \<Longrightarrow>
     rx_at (int k) (receive_register_update_bit False s) (int (middle k)) st d (listen (replicate k False) u)"
proof -
  assume k: "1 \<le> k" and u: "rx_at (int k) s c st d u" and l: "line_idle s"
  let ?s = "receive_register_update_bit False s"
  have r: "receiving ?s []" by (rule start_bit_seen [OF l])
  then have s: "r_sync ?s" "\<not> r_full ?s" "\<not> r_sync s" using l by (auto simp: receiving_def line_idle_def)
  have "rx_at (int k) ?s (3 * int k div 2) st d (clock_in u False)"
    using u s by (simp add: clock_in_receive [OF u] receive_clock_def rx_at_def Let_def)
  from rx_wait [OF this s(1), of "replicate (k - 1) False"] have
    "rx_at (int k) ?s (3 * int k div 2 - int (k - 1)) st d (listen (replicate (k - 1) False) (clock_in u False))"
    using k by (simp add: of_nat_diff) 
  moreover have "3 * int k div 2 - int (k - 1) = int (middle k)" using k unfolding middle_def by (simp add: of_nat_diff zdiv_int)
  moreover have "replicate k False = False # replicate (k - 1) False" using k by (metis Suc_pred' less_le_trans zero_less_one replicate_Suc)
  ultimately show ?thesis by simp
qed

lemma rx_quiet:
  "rx_at k s c st d u \<Longrightarrow> line_idle s \<Longrightarrow> \<exists>s'. rx_at k s' c st d (listen (replicate n True) u) \<and> line_idle s' \<and> same_frame s s'"
proof (induction n arbitrary: s u)
  case 0
  then show ?case by (auto simp: same_frame_def)
next
  case (Suc n)
  let ?s = "receive_register_update_bit True s"
  have l: "line_idle ?s" by (rule quiet_line [OF Suc.prems(2)])
  then have "rx_at k ?s c st d (clock_in u True)"
    using Suc.prems by (simp add: clock_in_receive [OF Suc.prems(1)] receive_clock_def rx_at_def line_idle_def Let_def)
  from Suc.IH [OF this l] show ?case using same_frame_trans [OF update_same_frame] by auto
qed

text \<open>The bits of a frame up to the last.\<close>

lemma rx_bits:
  "1 \<le> k \<Longrightarrow> rx_at (int k) s (int (middle k)) st d u \<Longrightarrow> receiving s as \<Longrightarrow> length as + length bs < r_count s \<Longrightarrow> r_count s \<le> 16 \<Longrightarrow>
     length as + length bs \<le> r_count s - f_min_stop s \<Longrightarrow>
     \<exists>s'. rx_at (int k) s' (int (middle k)) st d (listen (concat (map (replicate k) bs)) u) \<and> receiving s' (as @ bs) \<and> same_frame s s'"
proof (induction bs arbitrary: s u as)
  case Nil
  then show ?case by (auto simp: same_frame_def)
next
  case (Cons b bs)
  let ?s = "receive_register_update_bit b s"
  have r: "receiving ?s (as @ [b])" by (rule bit_received) (use Cons.prems in auto)
  have u: "rx_at (int k) ?s (int (middle k)) st d (listen (replicate k b) u)"
    by (rule rx_bit [OF Cons.prems(1, 2)]) (use r Cons.prems(3) in \<open>auto simp: receiving_def\<close>)
  have f: "f_min_stop ?s = f_min_stop s" "r_count ?s = r_count s" using update_same_frame [of s b] by (auto simp: same_frame_def)
  obtain s' where s': "rx_at (int k) s' (int (middle k)) st d (listen (concat (map (replicate k) bs)) (listen (replicate k b) u))"
    "receiving s' ((as @ [b]) @ bs)" "same_frame ?s s'"
    using Cons.IH [OF Cons.prems(1) u r] Cons.prems f by auto
  then show ?case using same_frame_trans [OF update_same_frame s'(3)] by auto
qed

text \<open>The stop bit completes the frame: the character is delivered and the receiver is idle again.\<close>

definition rx_frame :: "nat \<Rightarrow> parity \<Rightarrow> serif \<Rightarrow> bool" where
  "rx_frame w p s \<longleftrightarrow> w \<le> 8 \<and> f_start s = 1 \<and> f_word s = w \<and> f_parity s = p \<and> f_min_stop s = 1 \<and>
     r_count s = w + length (parity_bits p 0) + 1"

lemma rx_frame_same: "same_frame s s' \<Longrightarrow> rx_frame w p s' = rx_frame w p s"
  by (simp add: rx_frame_def same_frame_def)

definition received_status :: "u8 \<Rightarrow> bool \<Rightarrow> u8" where
  "received_status st perr =
     (let st1 = (if perr then st OR PARITY_ERROR else st)
      in (if tst st1 RX_READY then st1 OR OVERRUN_ERROR else st1) OR RX_READY)"

lemma rx_complete:
  assumes u: "rx_at k s 1 st d0 u" and s: "r_sync s" and s': "s' = receive_register_update_bit b s" "r_full s'" "\<not> r_sync s'" "\<not> r_framing s'"
    and e: "e = receive_register_extract s'" "\<not> r_framing e"
  shows "rx_at k e 0 (received_status st (r_parity e)) (r_byte e) (clock_in u b)"
  using u s s' e
  by (simp add: clock_in_receive [OF u] receive_clock_def rx_at_def receive_character_def update_rx_ready_def set_status_def
      received_status_def Let_def)

lemma rx_stop_bit:
  assumes k: "1 \<le> k" and u: "rx_at (int k) s (int (middle k)) st d0 u" and f: "rx_frame w p s"
    and r: "receiving s (data_bits w d @ ps)" and ps: "length ps = length (parity_bits p 0)"
  shows "\<exists>s'. rx_at (int k) s' 0 (received_status st (parity_fails p (d AND mask w) (ps \<noteq> [] \<and> hd ps))) (d AND mask w)
      (listen (replicate k True) u) \<and> line_idle s' \<and> rx_frame w p s'"
proof -
  let ?s = "receive_register_update_bit True s"
  have len: "length (parity_bits p 0) = (if p = ParityNone then 0 else 1)" by (rule length_parity_bits)
  have fr: "rx_frame w p ?s" using rx_frame_same [OF update_same_frame] f by blast
  have c: "frame_caught ?s ((data_bits w d @ ps) @ [True])"
    by (rule last_bit_received [OF r]) (use f ps len in \<open>auto simp: rx_frame_def\<close>)
  have x: "receive_register_extract ?s = ?s\<lparr>r_received := 0, r_full := False, r_sync := False, r_waiting := True,
      r_byte := d AND mask w, r_parity := parity_fails p (d AND mask w) (ps \<noteq> [] \<and> hd ps)\<rparr>"
  proof -
    have fs: "f_word ?s = w" "f_parity ?s = p" "f_start ?s = 1" "f_min_stop ?s = 1" "r_count ?s = w + length ps + 1" "w \<le> 8"
      using fr ps by (simp_all add: rx_frame_def)
    have "frame_caught ?s (data_bits (f_word ?s) d @ ps @ replicate (f_min_stop ?s) True)" using c by (simp add: fs)
    from extract_caught [OF this] show ?thesis unfolding fs using ps len fs(6) by simp
  qed
  let ?e = "receive_register_extract ?s"
  have top: "bit (r_data ?s) 15"
  proof -
    have "bit (r_data ?s) (16 - length ((data_bits w d @ ps) @ [True]) + (w + length ps)) = ((data_bits w d @ ps) @ [True]) ! (w + length ps)"
      using c by (simp only: frame_caught_def caught_def) auto
    moreover have "16 - length ((data_bits w d @ ps) @ [True]) + (w + length ps) = 15" using c by (auto simp: frame_caught_def caught_def)
    moreover have "((data_bits w d @ ps) @ [True]) ! (w + length ps) = True" by (metis length_append length_data_bits nth_append_length)
    ultimately show ?thesis by simp
  qed
  have "\<not> r_framing ?s" using c by (simp add: frame_caught_def)
  then have idle: "line_idle ?e" "rx_frame w p ?e" "\<not> r_framing ?e"
    using top fr unfolding x line_idle_def rx_frame_def by simp_all
  have "rx_at (int k) s 1 st d0 (listen (replicate (middle k - 1) True) u)"
    using rx_wait [OF u, of "replicate (middle k - 1) True"] r middle_range(2) [of k] by (simp add: receiving_def)
  moreover have "r_sync s" "r_full ?s" "\<not> r_sync ?s" "\<not> r_framing ?s" using r c by (simp_all add: receiving_def frame_caught_def)
  ultimately have
    fin: "rx_at (int k) ?e 0 (received_status st (r_parity ?e)) (r_byte ?e) (clock_in (listen (replicate (middle k - 1) True) u) True)"
    by (rule rx_complete [OF _ _ refl _ _ _ refl idle(3)])
  have val: "r_parity ?e = parity_fails p (d AND mask w) (ps \<noteq> [] \<and> hd ps)" "r_byte ?e = d AND mask w" unfolding x by simp_all
  obtain s' where s': "rx_at (int k) s' 0 (received_status st (r_parity ?e)) (r_byte ?e)
      (listen (replicate (k - middle k) True) (clock_in (listen (replicate (middle k - 1) True) u) True))" "line_idle s'" "same_frame ?e s'"
    using rx_quiet [OF fin idle(1)] by blast
  show ?thesis
    unfolding split_bit [OF k] listen_simps
    using s' rx_frame_same [OF s'(3), of w p] idle(2) unfolding val by blast
qed

text \<open>A receiver at rest: enabled, asynchronous, its line quiet.\<close>

definition receiver_idle :: "nat \<Rightarrow> nat \<Rightarrow> parity \<Rightarrow> usart \<Rightarrow> bool" where
  "receiver_idle k w p u \<longleftrightarrow> u_sync_byte_count u = 0 \<and> bit (u_command u) 2 \<and> \<not> u_rxc u \<and> u_br_factor u = int k \<and> 1 \<le> k \<and>
     line_idle (u_serial u) \<and> rx_frame w p (u_serial u)"

definition wire_frame :: "nat \<Rightarrow> parity \<Rightarrow> nat \<Rightarrow> u8 \<Rightarrow> bool list" where
  "wire_frame w p stops d = [False] @ data_bits w d @ parity_bits p d @ replicate stops True"

lemma receiver_at: "receiver_idle k w p u \<Longrightarrow> rx_at (int k) (u_serial u) (u_rxc_count u) (u_status u) (u_rx_data u) u"
  by (simp add: receiver_idle_def rx_at_def)

lemma receiver_quiet:
  "receiver_idle k w p u \<Longrightarrow> receiver_idle k w p (listen (replicate n True) u) \<and>
     u_status (listen (replicate n True) u) = u_status u \<and> u_rx_data (listen (replicate n True) u) = u_rx_data u"
  using rx_quiet [OF receiver_at] rx_frame_same by (fastforce simp: receiver_idle_def rx_at_def)

lemma usart_receives_frame:
  fixes d :: u8
  assumes i: "receiver_idle k w p u" and n: "1 \<le> stops"
  defines "v \<equiv> listen (concat (map (replicate k) (wire_frame w p stops d))) u"
  shows "receiver_idle k w p v" "u_rx_data v = d AND mask w"
    "u_status v = received_status (u_status u) (parity_fails p (d AND mask w) (parity_bits p d \<noteq> [] \<and> hd (parity_bits p d)))"
proof -
  have k: "1 \<le> k" and l: "line_idle (u_serial u)" and f: "rx_frame w p (u_serial u)" using i by (auto simp: receiver_idle_def)
  have ps: "length (parity_bits p d) = length (parity_bits p 0)" by (simp add: length_parity_bits)
  let ?s = "receive_register_update_bit False (u_serial u)"
  have a: "rx_at (int k) ?s (int (middle k)) (u_status u) (u_rx_data u) (listen (replicate k False) u)"
    by (rule rx_start_bit [OF k receiver_at [OF i] l])
  have fs: "rx_frame w p ?s" using rx_frame_same [OF update_same_frame] f by blast
  have "length (data_bits w d @ parity_bits p d) + 1 = r_count ?s" "r_count ?s \<le> 16" "f_min_stop ?s = 1"
    using fs ps by (auto simp: rx_frame_def length_parity_bits)
  then have fit: "length [] + length (data_bits w d @ parity_bits p d) < r_count ?s" "r_count ?s \<le> 16"
    "length [] + length (data_bits w d @ parity_bits p d) \<le> r_count ?s - f_min_stop ?s" by simp_all
  obtain s1 where s1: "rx_at (int k) s1 (int (middle k)) (u_status u) (u_rx_data u)
      (listen (concat (map (replicate k) (data_bits w d @ parity_bits p d))) (listen (replicate k False) u))"
    "receiving s1 ([] @ data_bits w d @ parity_bits p d)" "same_frame ?s s1"
    using rx_bits [OF k a start_bit_seen [OF l] fit] by blast
  have f1: "rx_frame w p s1" using rx_frame_same [OF s1(3)] fs by blast
  obtain s2 where s2: "rx_at (int k) s2 0 (received_status (u_status u) (parity_fails p (d AND mask w) (parity_bits p d \<noteq> [] \<and> hd (parity_bits p d))))
      (d AND mask w) (listen (replicate k True) (listen (concat (map (replicate k) (data_bits w d @ parity_bits p d))) (listen (replicate k False) u)))"
    "line_idle s2" "rx_frame w p s2"
    using rx_stop_bit [OF k s1(1) f1 _ ps] s1(2) by auto
  obtain m where m: "stops = Suc m" using n by (cases stops) auto
  let ?u = "listen (replicate k True) (listen (concat (map (replicate k) (data_bits w d @ parity_bits p d))) (listen (replicate k False) u))"
  have i2: "receiver_idle k w p ?u" using s2 k by (auto simp: receiver_idle_def rx_at_def)
  have "concat (map (replicate k) (replicate m True)) = replicate (m * k) True"
    by (induction m) (simp_all add: replicate_add)
  then have v: "v = listen (replicate (m * k) True) ?u" by (simp add: v_def wire_frame_def m)
  show "receiver_idle k w p v" "u_rx_data v = d AND mask w"
    "u_status v = received_status (u_status u) (parity_fails p (d AND mask w) (parity_bits p d \<noteq> [] \<and> hd (parity_bits p d)))"
    using receiver_quiet [OF i2, of "m * k"] s2(1) unfolding v by (auto simp: rx_at_def)
qed

subsection \<open>Sending a character\<close>

text \<open>The level of the TxD line and one period of the transmit clock.\<close>

definition drives_line :: "bool \<Rightarrow> usart_call \<Rightarrow> bool" where
  "drives_line l c = (case c of Txd b \<Rightarrow> b | _ \<Rightarrow> l)"

definition line_level :: "usart \<Rightarrow> bool" where
  "line_level u = foldl drives_line True (u_calls u)"

definition clock_out :: "usart \<Rightarrow> usart" where
  "clock_out u = write_txc False (write_txc True u)"

fun speak :: "nat \<Rightarrow> usart \<Rightarrow> bool list \<times> usart" where
  "speak 0 u = ([], u)"
| "speak (Suc n) u = (case speak n (clock_out u) of (bs, v) \<Rightarrow> (line_level (clock_out u) # bs, v))"

lemma line_level_call [simp]:
  "line_level (call (Txd b) u) = b" "line_level (call (Txrdy b) u) = line_level u" "line_level (call (Txempty b) u) = line_level u"
  by (simp_all add: line_level_def call_def drives_line_def)

lemma line_level_update [simp]:
  "line_level (u\<lparr>u_serial := s\<rparr>) = line_level u" "line_level (u\<lparr>u_status := x\<rparr>) = line_level u"
  "line_level (u\<lparr>u_txc_count := c\<rparr>) = line_level u" "line_level (u\<lparr>u_txc := b\<rparr>) = line_level u"
  "line_level (u\<lparr>u_tx_data := d\<rparr>) = line_level u" "line_level (u\<lparr>u_delayed_tx_en := b\<rparr>) = line_level u"
  by (simp_all add: line_level_def)

lemma speak_add: "speak (m + n) u = (case speak m u of (as, v) \<Rightarrow> case speak n v of (bs, w) \<Rightarrow> (as @ bs, w))"
  by (induction m arbitrary: u) (simp_all split: prod.split)

lemma clock_out_transmit: "\<not> u_txc u \<Longrightarrow> clock_out u = transmit_clock u"
proof -
  assume "\<not> u_txc u"
  then have e: "u\<lparr>u_txc := False\<rparr> = u" by simp
  have "clock_out u = transmit_clock (u\<lparr>u_txc := False\<rparr>)" using \<open>\<not> u_txc u\<close> by (simp add: clock_out_def write_txc_def Let_def)
  then show ?thesis unfolding e .
qed

text \<open>What stays while a sender sends.\<close>

definition sender :: "nat \<Rightarrow> usart \<Rightarrow> bool" where
  "sender k u \<longleftrightarrow> 1 \<le> k \<and> u_br_factor u = int k \<and> \<not> u_txc u \<and> u_sync_byte_count u = 0 \<and> is_tx_enabled u \<and> \<not> bit (u_command u) 3"

lemma tx_wait:
  "sender k u \<Longrightarrow> u_txc_count u + int n < int k \<Longrightarrow> 0 \<le> u_txc_count u \<Longrightarrow>
     speak n u = (replicate n (line_level u), u\<lparr>u_txc_count := u_txc_count u + int n\<rparr>)"
proof (induction n arbitrary: u)
  case (Suc n)
  let ?u = "u\<lparr>u_txc_count := u_txc_count u + 1\<rparr>"
  have c: "clock_out u = ?u" using Suc.prems by (simp add: clock_out_transmit sender_def transmit_clock_def)
  have "sender k ?u" using Suc.prems(1) by (simp add: sender_def is_tx_enabled_def)
  from Suc.IH [OF this] show ?case using Suc.prems by (simp add: c)
qed simp

text \<open>The transmit clock of the last of \<open>k\<close> clocks.\<close>

definition tick :: "nat \<Rightarrow> usart \<Rightarrow> usart" where
  "tick k u = transmit_clock (u\<lparr>u_txc_count := int k - 1\<rparr>)"

lemma tx_period:
  "sender k u \<Longrightarrow> u_txc_count u = 0 \<Longrightarrow> speak k u = (replicate (k - 1) (line_level u) @ [line_level (tick k u)], tick k u)"
proof -
  assume s: "sender k u" and c: "u_txc_count u = 0"
  have k: "k = (k - 1) + Suc 0" using s by (simp add: sender_def)
  have "speak (k - 1) u = (replicate (k - 1) (line_level u), u\<lparr>u_txc_count := int k - 1\<rparr>)"
    using tx_wait [OF s, of "k - 1"] c s by (simp add: sender_def of_nat_diff)
  moreover have "clock_out (u\<lparr>u_txc_count := int k - 1\<rparr>) = tick k u" using s by (simp add: clock_out_transmit tick_def sender_def)
  ultimately show ?thesis by (subst k, subst speak_add) simp
qed

text \<open>A sender in the middle of a frame: \<open>j\<close> of its bits are out.\<close>

definition tx_at :: "nat \<Rightarrow> bool list \<Rightarrow> nat \<Rightarrow> usart \<Rightarrow> bool" where
  "tx_at k bs j u \<longleftrightarrow> sender k u \<and> u_txc_count u = 0 \<and> holds (x_data (u_serial u)) bs \<and> x_count (u_serial u) = length bs \<and>
     x_sent (u_serial u) = j \<and> x_empty (u_serial u) = (j = length bs)"

definition kept :: "usart \<Rightarrow> usart \<Rightarrow> bool" where
  "kept u v \<longleftrightarrow> u_status v = u_status u \<and> f_start (u_serial v) = f_start (u_serial u) \<and> f_word (u_serial v) = f_word (u_serial u) \<and>
     f_parity (u_serial v) = f_parity (u_serial u) \<and> f_stop (u_serial v) = f_stop (u_serial u)"

lemma kept_trans: "kept a b \<Longrightarrow> kept b c \<Longrightarrow> kept a c"
  by (simp add: kept_def)

lemma tick_sends:
  "tx_at k bs j u \<Longrightarrow> j < length bs \<Longrightarrow> tx_at k bs (Suc j) (tick k u) \<and> line_level (tick k u) = bs ! j \<and> kept u (tick k u)"
proof -
  assume t: "tx_at k bs j u" and j: "j < length bs"
  let ?s = "u_serial u"
  have g: "transmit_register_get_data_bit ?s = (bs ! j, ?s\<lparr>x_sent := j + 1, x_empty := j + 1 = length bs\<rparr>)"
    using get_bit_holds [of ?s bs] t j by (auto simp: tx_at_def)
  have "tick k u = call (Txd (bs ! j)) (u\<lparr>u_txc_count := 0, u_serial := ?s\<lparr>x_sent := j + 1, x_empty := j + 1 = length bs\<rparr>\<rparr>)"
    using t j g by (simp add: tick_def transmit_clock_def tx_at_def sender_def Let_def)
  then show ?thesis using t by (simp add: tx_at_def sender_def is_tx_enabled_def kept_def)
qed

fun held :: "nat \<Rightarrow> bool \<Rightarrow> bool list \<Rightarrow> bool list" where
  "held k l [] = []"
| "held k l (b # bs) = replicate (k - 1) l @ [b] @ held k b bs"

lemma held_last: "1 \<le> k \<Longrightarrow> held k l (bs @ [b]) = replicate (k - 1) l @ concat (map (replicate k) bs) @ [b]"
proof (induction bs arbitrary: l)
  case (Cons c bs)
  have "replicate k c = c # replicate (k - 1) c" using Cons.prems by (cases k) auto
  then show ?case using Cons by simp
qed simp

lemma tx_frame:
  "tx_at k bs j u \<Longrightarrow> j + n = length bs \<Longrightarrow>
     \<exists>v. speak (n * k) u = (held k (line_level u) (drop j bs), v) \<and> tx_at k bs (length bs) v \<and> kept u v \<and>
       line_level v = last (line_level u # drop j bs)"
proof (induction n arbitrary: j u)
  case 0
  then show ?case by (auto simp: kept_def)
next
  case (Suc n)
  have j: "j < length bs" using Suc.prems(2) by simp
  note t = tick_sends [OF Suc.prems(1) j]
  obtain v where v: "speak (n * k) (tick k u) = (held k (bs ! j) (drop (Suc j) bs), v)" "tx_at k bs (length bs) v"
    "kept (tick k u) v" "line_level v = last (bs ! j # drop (Suc j) bs)"
    using Suc.IH [of "Suc j" "tick k u"] t Suc.prems(2) by auto
  have p: "speak k u = (replicate (k - 1) (line_level u) @ [bs ! j], tick k u)"
    using tx_period [of k u] Suc.prems(1) t by (simp add: tx_at_def)
  have d: "drop j bs = bs ! j # drop (Suc j) bs" using j by (simp add: Cons_nth_drop_Suc)
  show ?case
    using v p t kept_trans by (auto simp: speak_add d)
qed

text \<open>A sender at rest, its line at the stop level, and the frame it sends.\<close>

definition sender_idle :: "nat \<Rightarrow> nat \<Rightarrow> parity \<Rightarrow> nat \<Rightarrow> usart \<Rightarrow> bool" where
  "sender_idle k w p stops u \<longleftrightarrow> sender k u \<and> u_txc_count u = 0 \<and> x_empty (u_serial u) \<and> line_level u \<and>
     u_status u AND (TX_EMPTY OR TX_READY) = TX_EMPTY OR TX_READY \<and>
     f_start (u_serial u) = 1 \<and> f_word (u_serial u) = w \<and> f_parity (u_serial u) = p \<and> f_stop (u_serial u) = stops"

lemma wire_frame_bits:
  "f_start s = 1 \<Longrightarrow> f_word s = w \<Longrightarrow> f_parity s = p \<Longrightarrow> f_stop s = stops \<Longrightarrow> frame_bits s d = wire_frame w p stops d"
  by (simp add: frame_bits_def wire_frame_def)

lemma tx_status_bits:
  "st AND (TX_EMPTY OR TX_READY) = TX_EMPTY OR TX_READY \<longleftrightarrow> bit st 0 \<and> bit st 2" for st :: u8
  unfolding u8_eq_bits by (auto simp: bit_simps)

lemma send_status: "((st AND NOT TX_READY) AND NOT TX_EMPTY) OR TX_READY = (st AND NOT TX_EMPTY) OR TX_READY" for st :: u8
  unfolding u8_eq_bits by (auto simp: bit_simps)

lemma status_write:
  "st AND (TX_EMPTY OR TX_READY) = TX_EMPTY OR TX_READY \<Longrightarrow> (st AND NOT TX_READY) AND (TX_EMPTY OR TX_READY) = TX_EMPTY" for st :: u8
  unfolding u8_eq_bits by (auto simp: bit_simps)

lemma status_sent:
  "st AND (TX_EMPTY OR TX_READY) = TX_EMPTY OR TX_READY \<Longrightarrow>
     ((st AND NOT TX_READY) AND NOT TX_EMPTY) OR TX_READY = st AND NOT TX_EMPTY" for st :: u8
  unfolding u8_eq_bits by (auto simp: bit_simps)

lemma data_written:
  assumes i: "sender_idle k w p stops u" and l: "length (wire_frame w p stops d) \<le> 16"
  shows "tx_at k (wire_frame w p stops d) 0 (data_w d u)" "line_level (data_w d u)" "u_status (data_w d u) = u_status u AND NOT TX_EMPTY"
    "f_start (u_serial (data_w d u)) = 1" "f_word (u_serial (data_w d u)) = w" "f_parity (u_serial (data_w d u)) = p"
    "f_stop (u_serial (data_w d u)) = stops"
proof -
  let ?s = "u_serial u"
  have f: "frame_bits ?s d = wire_frame w p stops d" using i by (intro wire_frame_bits) (auto simp: sender_idle_def)
  obtain x where x: "transmit_register_setup d ?s = ?s\<lparr>x_data := x, x_sent := 0, x_count := length (wire_frame w p stops d), x_empty := False\<rparr>"
    "holds x (wire_frame w p stops d)"
    using setup_holds [of ?s d] l unfolding f by blast
  have st: "u_status u AND (TX_EMPTY OR TX_READY) = TX_EMPTY OR TX_READY" and en: "is_tx_enabled u" using i by (auto simp: sender_idle_def sender_def)
  define u1 where "u1 = update_tx_ready (clear_status TX_READY (u\<lparr>u_tx_data := d\<rparr>))"
  have u1: "is_tx_enabled u1" "u_status u1 = u_status u AND NOT TX_READY" "u_serial u1 = ?s" "u_tx_data u1 = d"
    using en by (simp_all add: u1_def update_tx_ready_def clear_status_def is_tx_enabled_def)
  define u2 where "u2 = start_tx (u1\<lparr>u_delayed_tx_en := is_tx_enabled u1\<rparr>)"
  have "check_for_tx_start (u1\<lparr>u_delayed_tx_en := is_tx_enabled u1\<rparr>) = u2"
    using u1(1) status_write [OF st] unfolding check_for_tx_start_def u2_def by (simp add: u1(2) is_tx_enabled_def)
  then have d: "data_w d u = update_tx_empty (update_tx_ready u2)"
    unfolding data_w_def u1_def [symmetric] Let_def by simp
  have s2: "u_status u2 = u_status u AND NOT TX_EMPTY"
    using status_sent [OF st] by (simp add: u2_def start_tx_def set_status_def clear_status_def load_transmitter_def u1(2))
  have "\<not> bit (u_status u2) 2" unfolding s2 by (simp add: bit_simps)
  then have "\<not> tst (u_status u2) TX_EMPTY" by (simp add: tst_exp [of _ 2, simplified])
  then have dw: "data_w d u = call (Txempty False) (call (Txrdy (txrdy_r u2)) u2)"
    unfolding d by (simp add: update_tx_empty_def update_tx_ready_def)
  have u2: "u_serial u2 = transmit_register_setup d ?s" "sender k u2" "u_txc_count u2 = 0" "line_level u2"
    using i u1 by (simp_all add: u2_def start_tx_def set_status_def clear_status_def load_transmitter_def sender_idle_def sender_def
        is_tx_enabled_def u1_def update_tx_ready_def)
  show "tx_at k (wire_frame w p stops d) 0 (data_w d u)" "line_level (data_w d u)" "u_status (data_w d u) = u_status u AND NOT TX_EMPTY"
    "f_start (u_serial (data_w d u)) = 1" "f_word (u_serial (data_w d u)) = w" "f_parity (u_serial (data_w d u)) = p"
    "f_stop (u_serial (data_w d u)) = stops"
    using u2 x s2 i unfolding dw by (simp_all add: tx_at_def sender_def is_tx_enabled_def sender_idle_def wire_frame_def)
qed

lemma tick_rests:
  assumes t: "tx_at k bs (length bs) u" and st: "bit (u_status u) 0"
    and f: "f_start (u_serial u) = 1" "f_word (u_serial u) = w" "f_parity (u_serial u) = p" "f_stop (u_serial u) = stops"
  shows "sender_idle k w p stops (tick k u)" "line_level (tick k u)"
proof -
  define u2 where "u2 = set_status TX_EMPTY (u\<lparr>u_txc_count := 0\<rparr>)"
  have s: "sender k u" "x_empty (u_serial u)" using t by (auto simp: tx_at_def)
  have r: "tst (u_status u) TX_READY" using st by (simp add: tst_exp [of _ 0, simplified])
  have b: "bit (u_status u2) 0" "bit (u_status u2) 2" using st by (simp_all add: u2_def set_status_def bit_simps)
  have u2: "sender k u2" "u_serial u2 = u_serial u" "u_txc_count u2 = 0"
    using s(1) by (simp_all add: u2_def set_status_def sender_def is_tx_enabled_def)
  have e: "tst (u_status u2) TX_EMPTY" using b(2) by (simp add: tst_exp [of _ 2, simplified])
  let ?v = "call (Txempty True) (call (Txd True) (call (Txrdy (txrdy_r u2)) u2))"
  have "update_tx_empty (update_tx_ready u2) = ?v"
    using u2(1) e by (simp add: update_tx_empty_def update_tx_ready_def sender_def)
  then have v: "tick k u = ?v"
    using s r unfolding tick_def transmit_clock_def Let_def by (simp add: sender_def u2_def set_status_def)
  show "sender_idle k w p stops (tick k u)" "line_level (tick k u)"
    unfolding v sender_idle_def tx_status_bits using u2 s b f by (simp_all add: sender_def is_tx_enabled_def)
qed

lemma character_sent:
  assumes i: "sender_idle k w p stops u" and l: "length (wire_frame w p stops d) \<le> 16"
  shows "\<exists>v. speak ((length (wire_frame w p stops d) + 1) * k) (data_w d u) =
    (replicate (k - 1) True @ concat (map (replicate k) (wire_frame w p stops d)) @ [True], v) \<and> sender_idle k w p stops v"
proof -
  let ?bs = "wire_frame w p stops d"
  note dw = data_written [OF i l]
  have k: "1 \<le> k" using i by (simp add: sender_idle_def sender_def)
  obtain v where v: "speak (length ?bs * k) (data_w d u) = (held k True ?bs, v)" "tx_at k ?bs (length ?bs) v" "kept (data_w d u) v"
    "line_level v = last (True # ?bs)"
    using tx_frame [OF dw(1), of "length ?bs"] dw(2) by auto
  have st: "bit (u_status v) 0"
  proof -
    have "bit (u_status u) 0" using i unfolding sender_idle_def tx_status_bits by blast
    then show ?thesis using v(3) dw(3) by (simp add: kept_def bit_simps)
  qed
  have f: "f_start (u_serial v) = 1" "f_word (u_serial v) = w" "f_parity (u_serial v) = p" "f_stop (u_serial v) = stops"
    using v(3) dw(4-7) by (auto simp: kept_def)
  note r = tick_rests [OF v(2) st f]
  have per: "speak k v = (replicate (k - 1) (line_level v) @ [True], tick k v)"
    using tx_period [of k v] v(2) r(2) by (simp add: tx_at_def)
  have cat: "held k l xs @ held k (last (l # xs)) ys = held k l (xs @ ys)" for l xs ys by (induction xs arbitrary: l) auto
  have "held k (line_level v) [True] = replicate (k - 1) (line_level v) @ [True]" by simp
  then have "held k True ?bs @ replicate (k - 1) (line_level v) @ [True] = held k True (?bs @ [True])"
    using cat [of True ?bs "[True]"] unfolding v(4) by simp
  also have "\<dots> = replicate (k - 1) True @ concat (map (replicate k) ?bs) @ [True]" by (rule held_last [OF k])
  finally have "speak (length ?bs * k + k) (data_w d u) = (replicate (k - 1) True @ concat (map (replicate k) ?bs) @ [True], tick k v)"
    unfolding speak_add v(1) prod.case per by simp
  then show ?thesis using r(1) by (simp add: add.commute)
qed

subsection \<open>Two chips on a line\<close>

text \<open>The TxD output of one chip is the RxD input of the other; both run on one clock.\<close>

fun link :: "nat \<Rightarrow> usart \<times> usart \<Rightarrow> usart \<times> usart" where
  "link 0 (t, r) = (t, r)"
| "link (Suc n) (t, r) = link n (clock_out t, clock_in r (line_level (clock_out t)))"

lemma link_speak: "link n (t, r) = (snd (speak n t), listen (fst (speak n t)) r)"
  by (induction n arbitrary: t r) (auto split: prod.split)

text \<open>The processor on one side writes a character, the line runs, the processor on the other side reads.\<close>

definition pass_char :: "nat \<Rightarrow> u8 \<Rightarrow> usart \<times> usart \<Rightarrow> u8 \<times> usart \<times> usart" where
  "pass_char n d tr = (case link n (data_w d (fst tr), snd tr) of (t, r) \<Rightarrow> case data_r r of (c, r') \<Rightarrow> (c, t, r'))"

fun pass_string :: "nat \<Rightarrow> u8 list \<Rightarrow> usart \<times> usart \<Rightarrow> u8 list \<times> usart \<times> usart" where
  "pass_string n [] tr = ([], tr)"
| "pass_string n (d # ds) tr =
     (case pass_char n d tr of (c, tr1) \<Rightarrow> case pass_string n ds tr1 of (cs, tr2) \<Rightarrow> (c # cs, tr2))"

definition errors :: "usart \<Rightarrow> u8" where
  "errors u = u_status u AND (PARITY_ERROR OR OVERRUN_ERROR OR FRAMING_ERROR)"

definition parity_detected :: "parity \<Rightarrow> nat \<Rightarrow> u8 \<Rightarrow> bool" where
  "parity_detected p w d \<longleftrightarrow> (p = ParityOdd \<or> p = ParityEven) \<and> odd_ones (d AND mask w) \<noteq> odd_ones d"

lemma parity_sent_received:
  "parity_fails p (d AND mask w) (parity_bits p d \<noteq> [] \<and> hd (parity_bits p d)) = parity_detected p w d"
  by (auto simp: parity_fails_def parity_bits_def parity_detected_def split: parity.split)

lemma length_wire_frame: "length (wire_frame w p stops d) = w + (if p = ParityNone then 1 else 2) + stops"
  by (simp add: wire_frame_def length_parity_bits)

lemma received_bits:
  "\<not> bit st 1 \<Longrightarrow> received_status st e AND (PARITY_ERROR OR OVERRUN_ERROR OR FRAMING_ERROR) =
     (st OR (if e then PARITY_ERROR else 0)) AND (PARITY_ERROR OR OVERRUN_ERROR OR FRAMING_ERROR) \<and> bit (received_status st e) 1"
proof -
  assume b: "\<not> bit st 1"
  have "\<not> tst (if e then st OR PARITY_ERROR else st) RX_READY" using b by (simp add: tst_exp [of _ 1, simplified] bit_simps)
  then show ?thesis unfolding received_status_def Let_def u8_eq_bits by (auto simp: bit_simps)
qed

lemma character_passed:
  assumes s: "sender_idle k w p stops t" and r: "receiver_idle k w p r" and n: "1 \<le> stops" "stops \<le> 2" and q: "\<not> bit (u_status r) 1"
  shows "\<exists>t' r'. pass_char ((length (wire_frame w p stops 0) + 1) * k) d (t, r) = (d AND mask w, t', r') \<and>
    sender_idle k w p stops t' \<and> receiver_idle k w p r' \<and> \<not> bit (u_status r') 1 \<and>
    errors r' = errors r OR (if parity_detected p w d then PARITY_ERROR else 0)"
proof -
  let ?bs = "wire_frame w p stops d"
  have w8: "w \<le> 8" and k: "1 \<le> k" using r by (auto simp: receiver_idle_def rx_frame_def)
  have l: "length ?bs \<le> 16" "length (wire_frame w p stops 0) = length ?bs" using w8 n by (auto simp: length_wire_frame)
  obtain t' where t': "speak ((length ?bs + 1) * k) (data_w d t) = (replicate (k - 1) True @ concat (map (replicate k) ?bs) @ [True], t')"
    "sender_idle k w p stops t'" using character_sent [OF s l(1)] by blast
  define r0 where "r0 = listen (replicate (k - 1) True) r"
  have r0: "receiver_idle k w p r0" "u_status r0 = u_status r" unfolding r0_def using receiver_quiet [OF r] by blast+
  define r1 where "r1 = listen (concat (map (replicate k) ?bs)) r0"
  note r1 = usart_receives_frame [OF r0(1) n(1), of d, folded r1_def, unfolded r0(2) parity_sent_received]
  define r2 where "r2 = listen (replicate 1 True) r1"
  have r2: "receiver_idle k w p r2" "u_status r2 = u_status r1" "u_rx_data r2 = u_rx_data r1"
    unfolding r2_def using receiver_quiet [OF r1(1), of 1] by auto
  have "link ((length ?bs + 1) * k) (data_w d t, r) = (t', r2)"
    unfolding link_speak t'(1) by (simp add: r2_def r1_def r0_def)
  moreover have "data_r r2 = (d AND mask w, update_rx_ready (clear_status RX_READY r2))"
    using r2(3) r1(2) by (simp add: data_r_def)
  ultimately have p: "pass_char ((length (wire_frame w p stops 0) + 1) * k) d (t, r) = (d AND mask w, t', update_rx_ready (clear_status RX_READY r2))"
    unfolding l(2) pass_char_def by simp
  let ?r = "update_rx_ready (clear_status RX_READY r2)"
  have i: "receiver_idle k w p ?r" using r2(1) by (simp add: receiver_idle_def update_rx_ready_def clear_status_def)
  have st: "u_status ?r = u_status r2 AND NOT RX_READY" by (simp add: update_rx_ready_def clear_status_def)
  have nb: "\<not> bit (u_status ?r) 1" unfolding st by (simp add: bit_simps)
  have "errors ?r = u_status r2 AND (PARITY_ERROR OR OVERRUN_ERROR OR FRAMING_ERROR)"
    unfolding errors_def st u8_eq_bits by (simp add: bit_simps)
  also have "\<dots> = (u_status r OR (if parity_detected p w d then PARITY_ERROR else 0)) AND (PARITY_ERROR OR OVERRUN_ERROR OR FRAMING_ERROR)"
    unfolding r2(2) r1(3) using received_bits [OF q] by blast
  also have "\<dots> = errors r OR (if parity_detected p w d then PARITY_ERROR else 0)"
    unfolding errors_def u8_eq_bits by (auto simp: bit_simps)
  finally show ?thesis using p t'(2) i nb by blast
qed

text \<open>C30: A string written character by character to one serial controller and read at the other end of the line
  arrives complete and in order, for every word length, parity, number of stop bits and clock factor
  that both ends share; no error is flagged as long as the characters fit the word length.\<close>

theorem usart_string_arrives:
  assumes "sender_idle k w p stops t" and "receiver_idle k w p r" and "1 \<le> stops" and "stops \<le> 2" and "\<not> bit (u_status r) 1"
  shows "\<exists>t' r'. pass_string ((length (wire_frame w p stops 0) + 1) * k) ds (t, r) = (map (\<lambda>d. d AND mask w) ds, t', r') \<and>
    ((\<forall>d \<in> set ds. d AND mask w = d) \<longrightarrow> errors r' = errors r)"
  using assms
proof (induction ds arbitrary: t r)
  case (Cons d ds)
  obtain t1 r1 where 1: "pass_char ((length (wire_frame w p stops 0) + 1) * k) d (t, r) = (d AND mask w, t1, r1)"
    "sender_idle k w p stops t1" "receiver_idle k w p r1" "\<not> bit (u_status r1) 1"
    "errors r1 = errors r OR (if parity_detected p w d then PARITY_ERROR else 0)"
    using character_passed [OF Cons.prems, of d] by blast
  obtain t2 r2 where 2: "pass_string ((length (wire_frame w p stops 0) + 1) * k) ds (t1, r1) = (map (\<lambda>d. d AND mask w) ds, t2, r2)"
    "(\<forall>d \<in> set ds. d AND mask w = d) \<longrightarrow> errors r2 = errors r1"
    using Cons.IH [OF 1(2, 3) Cons.prems(3, 4) 1(4)] by blast
  have "pass_string ((length (wire_frame w p stops 0) + 1) * k) (d # ds) (t, r) = (map (\<lambda>d. d AND mask w) (d # ds), t2, r2)"
    using 1(1) 2(1) by simp
  moreover have "errors r2 = errors r" if "\<forall>x \<in> set (d # ds). x AND mask w = x"
    using that 1(5) 2(2) by (simp add: parity_detected_def)
  ultimately show ?case by blast
qed simp

text \<open>The parity of a character that does not fit covers the bits that are not sent: the other end flags an error.\<close>

lemma parity_of_unsent_bits:
  "sender_idle k 7 ParityEven 1 t \<Longrightarrow> receiver_idle k 7 ParityEven r \<Longrightarrow> \<not> bit (u_status r) 1 \<Longrightarrow>
     \<exists>t' r'. pass_char (11 * k) 0x80 (t, r) = (0, t', r') \<and> bit (u_status r') 3"
proof -
  assume a: "sender_idle k 7 ParityEven 1 t" "receiver_idle k 7 ParityEven r" "\<not> bit (u_status r) 1"
  have d: "parity_detected ParityEven 7 0x80" "0x80 AND mask 7 = (0 :: u8)" by code_simp+
  obtain t' r' where p: "pass_char ((length (wire_frame 7 ParityEven 1 0) + 1) * k) 0x80 (t, r) = (0x80 AND mask 7, t', r')"
    "errors r' = errors r OR (if parity_detected ParityEven 7 0x80 then PARITY_ERROR else 0)"
    using character_passed [OF a(1, 2) _ _ a(3), of "0x80"] by auto
  have "bit (errors r') 3" unfolding p(2) by (simp add: d bit_simps)
  then have "bit (u_status r') 3" by (simp add: errors_def bit_simps)
  then show ?thesis using p(1) unfolding d by (simp add: length_wire_frame)
qed

text \<open>Two chips as a program sets them up: reset, mode 8 bits, no parity, 1 stop bit, clock factor 16; transmitter and receiver enabled.\<close>

definition sample_usart :: usart where
  "sample_usart = usart_write 1 0x05 (usart_write 1 0x4e (write_cts False (usart_reset usart_start)))"

lemma sample_sender: "sender_idle 16 8 ParityNone 1 sample_usart" by code_simp

lemma sample_receiver: "receiver_idle 16 8 ParityNone sample_usart" "\<not> bit (u_status sample_usart) 1" by code_simp+

theorem usart_string_arrives_witness:
  "fst (pass_string (11 * 16) [0x41, 0xff] (sample_usart, sample_usart)) = [0x41, 0xff]"
proof -
  have m: "(0x41 AND mask 8, 0xff AND mask 8) = (0x41 :: u8, 0xff :: u8)" by code_simp
  obtain t' r' where "pass_string ((length (wire_frame 8 ParityNone 1 0) + 1) * 16) [0x41, 0xff] (sample_usart, sample_usart) =
      (map (\<lambda>d. d AND mask 8) [0x41, 0xff], t', r')"
    using usart_string_arrives [OF sample_sender sample_receiver(1) _ _ sample_receiver(2), of "[0x41, 0xff]"] by auto
  then show ?thesis using m by (simp add: length_wire_frame)
qed

end
