(* ===== verification/Scsi_Disk.thy ===== *)
theory Scsi_Disk
  imports Byte_Store "HOL-Library.Monad_Syntax"
begin

text \<open>
  A SCSI hard disk: the command set of \<open>src/devices/machine/t10spc.cpp\<close> and \<open>t10sbc.cpp\<close> over a disk
  image, \<open>src/lib/util/harddisk.cpp\<close>. The image is a plain file, a list of bytes; compressed images go through a
  library of their own. Data buffers are functions from indices to bytes, so that writing past the end of the
  caller's array stays visible.
\<close>

unbundle bit_operations_syntax

type_synonym buffer = "nat \<Rightarrow> u8"

definition put_bytes :: "nat \<Rightarrow> u8 list \<Rightarrow> buffer \<Rightarrow> buffer" where
  "put_bytes = (\<lambda>a bs b. poke (\<lambda>m i d. m(i := d)) b a bs)"

definition get_u24be :: "buffer \<Rightarrow> nat \<Rightarrow> u32" where
  "get_u24be b i = push_bit 16 (ucast (b i)) OR push_bit 8 (ucast (b (i + 1))) OR ucast (b (i + 2))"

definition get_u32be :: "buffer \<Rightarrow> nat \<Rightarrow> u32" where
  "get_u32be b i = push_bit 24 (ucast (b i)) OR push_bit 16 (ucast (b (i + 1))) OR push_bit 8 (ucast (b (i + 2))) OR ucast (b (i + 3))"

definition u24be :: "u32 \<Rightarrow> u8 list" where
  "u24be w = [byte32 2 w, byte32 1 w, byte32 0 w]"

definition u32be :: "u32 \<Rightarrow> u8 list" where
  "u32be w = [byte32 3 w, byte32 2 w, byte32 1 w, byte32 0 w]"

subsection \<open>The image\<close>

record image =
  i_exists :: bool
  i_file :: "u8 list"
  i_offset :: u32
  i_cylinders :: u32
  i_heads :: u32
  i_sectors :: u32
  i_sectorbytes :: u32

text \<open>Reading and writing a file at a position; writing beyond the end fills the gap with zeros.\<close>

definition file_read :: "nat \<Rightarrow> nat \<Rightarrow> u8 list \<Rightarrow> u8 list" where
  "file_read pos n file = take n (drop pos file)"

definition file_write :: "nat \<Rightarrow> u8 list \<Rightarrow> u8 list \<Rightarrow> u8 list" where
  "file_write pos bs file = take pos (file @ replicate (pos - length file) 0) @ bs @ drop (pos + length bs) file"

text \<open>The position is computed in 32 bits.\<close>

definition sector_position :: "u32 \<Rightarrow> image \<Rightarrow> nat" where
  "sector_position lba im = unat (i_offset im + lba * i_sectorbytes im)"

definition image_read :: "u32 \<Rightarrow> image \<Rightarrow> u8 list \<times> bool" where
  "image_read lba im =
     (let bs = file_read (sector_position lba im) (unat (i_sectorbytes im)) (i_file im) in (bs, length bs = unat (i_sectorbytes im)))"

definition image_write :: "u32 \<Rightarrow> u8 list \<Rightarrow> image \<Rightarrow> image" where
  "image_write lba bs im = im\<lparr>i_file := file_write (sector_position lba im) bs (i_file im)\<rparr>"

text \<open>
  The guessed geometry: the first total, counting up from the size of the file, that a track length from 63 down to
  2 and a number of heads from 16 down to 2 divide.
\<close>

definition guess_chs :: "nat \<Rightarrow> (nat \<times> nat \<times> nat) option" where
  "guess_chs n =
     (case [(n div s div h, h, s). s \<leftarrow> rev [2..<64], n mod s = 0, h \<leftarrow> rev [2..<17], n div s mod h = 0] of
        [] \<Rightarrow> None | g # _ \<Rightarrow> Some g)"

partial_function (option) guess_geometry :: "nat \<Rightarrow> (nat \<times> nat \<times> nat) option" where
  "guess_geometry n = (case guess_chs n of Some g \<Rightarrow> Some g | None \<Rightarrow> guess_geometry ((n + 1) mod 2 ^ 32))"

definition image_open :: "u8 list \<Rightarrow> u32 \<Rightarrow> image option" where
  "image_open file skip =
     do { (c, h, s) \<leftarrow> guess_geometry (unat (ucast ((of_nat (length file) - ucast skip :: 64 word) div 512) :: u32));
          Some \<lparr>i_exists = True, i_file = file, i_offset = skip, i_cylinders = of_nat c, i_heads = of_nat h,
                i_sectors = of_nat s, i_sectorbytes = 512\<rparr> }"

subsection \<open>The command layer\<close>

abbreviation PHASE_DATAOUT :: nat where "PHASE_DATAOUT \<equiv> 0"
abbreviation PHASE_DATAIN :: nat where "PHASE_DATAIN \<equiv> 1"
abbreviation PHASE_COMMAND :: nat where "PHASE_COMMAND \<equiv> 2"
abbreviation PHASE_STATUS :: nat where "PHASE_STATUS \<equiv> 3"
abbreviation PHASE_MESSAGE_OUT :: nat where "PHASE_MESSAGE_OUT \<equiv> 6"
abbreviation PHASE_MESSAGE_IN :: nat where "PHASE_MESSAGE_IN \<equiv> 7"
abbreviation PHASE_BUS_FREE :: nat where "PHASE_BUS_FREE \<equiv> 8"

record disk =
  t_command :: buffer
  t_command_length :: nat
  t_transfer_length :: int
  t_phase :: nat
  t_status_code :: u8
  t_sense_key :: u8
  t_sense_asc :: u8
  t_sense_ascq :: u8
  t_sense_information :: u32
  t_sector_bytes :: int
  t_lba :: u32
  t_blocks :: u32
  t_image :: image

definition spc_reset :: "disk \<Rightarrow> disk" where
  "spc_reset t = t\<lparr>t_phase := PHASE_BUS_FREE, t_status_code := 0, t_sense_key := 0, t_sense_asc := 0, t_sense_ascq := 0,
     t_sense_information := 0\<rparr>"

definition sbc_reset :: "disk \<Rightarrow> disk" where
  "sbc_reset t =
     (let t1 = (spc_reset t)\<lparr>t_lba := 0, t_blocks := 0, t_sector_bytes := 512\<rparr>
      in if i_exists (t_image t1) then t1\<lparr>t_sector_bytes := sint (i_sectorbytes (t_image t1))\<rparr> else t1)"

definition set_sense :: "u8 \<Rightarrow> u16 \<Rightarrow> disk \<Rightarrow> disk" where
  "set_sense key code t = t\<lparr>t_sense_key := key, t_sense_asc := hi8 code, t_sense_ascq := lo8 code, t_sense_information := 0\<rparr>"

definition set_command :: "buffer \<Rightarrow> nat \<Rightarrow> disk \<Rightarrow> disk" where
  "set_command cmd n t =
     (if n > 32 then t
      else t\<lparr>t_command := (\<lambda>i. if i < n then cmd i else t_command t i), t_command_length := n, t_phase := PHASE_COMMAND\<rparr>)"

definition length_u8 :: "u8 \<Rightarrow> u32" where
  "length_u8 b = (if b = 0 then 256 else ucast b)"

definition length_u16 :: "u8 \<Rightarrow> u8 \<Rightarrow> u32" where
  "length_u16 hi lo = push_bit 8 (ucast hi) OR ucast lo"

definition answer :: "nat \<Rightarrow> int \<Rightarrow> disk \<Rightarrow> disk" where
  "answer phase len t = t\<lparr>t_phase := phase, t_status_code := 0, t_transfer_length := len\<rparr>"

definition spc_exec :: "disk \<Rightarrow> disk" where
  "spc_exec t =
     (let c = t_command t in
      if c 0 = 0x00 \<or> c 0 = 0x01 \<or> c 0 = 0x1b then answer PHASE_STATUS 0 t
      else if c 0 = 0x03 then answer PHASE_DATAIN (if c 4 = 0 then 4 else if c 4 > 18 then 18 else uint (c 4)) t
      else if c 0 = 0x1d then answer PHASE_DATAOUT (uint (length_u16 (c 3) (c 4))) t
      else t\<lparr>t_status_code := 0, t_transfer_length := 0\<rparr>)"

text \<open>\<open>m_blocks * m_sector_bytes\<close>, a 32-bit product.\<close>

definition block_bytes :: "disk \<Rightarrow> int" where
  "block_bytes t = sint (t_blocks t * of_int (t_sector_bytes t) :: u32)"

definition transfer :: "nat \<Rightarrow> u32 \<Rightarrow> u32 \<Rightarrow> disk \<Rightarrow> disk" where
  "transfer phase lba blocks t =
     (let t1 = t\<lparr>t_lba := lba, t_blocks := blocks\<rparr> in answer phase (block_bytes t1) t1)"

definition sbc_exec :: "disk \<Rightarrow> disk" where
  "sbc_exec t =
     (let c = t_command t; lba6 = get_u24be c 1 AND 0x1fffff in
      if c 0 = 0x04 then answer PHASE_STATUS 0 t
      else if c 0 = 0x0b then t\<lparr>t_lba := lba6, t_phase := PHASE_STATUS, t_transfer_length := 0\<rparr>
      else if c 0 = 0x08 then transfer PHASE_DATAIN lba6 (length_u8 (c 4)) t
      else if c 0 = 0x0a then transfer PHASE_DATAOUT lba6 (length_u8 (c 4)) t
      else if c 0 = 0x12 then answer PHASE_DATAIN (uint (length_u8 (c 4))) t
      else if c 0 = 0x15 then answer PHASE_DATAOUT (uint (length_u8 (c 4))) t
      else if c 0 = 0x1a then answer PHASE_DATAIN (uint (length_u8 (c 4))) t
      else if c 0 = 0x25 then answer PHASE_DATAIN 8 t
      else if c 0 = 0x28 then transfer PHASE_DATAIN (get_u32be c 2) (length_u16 (c 7) (c 8)) t
      else if c 0 = 0x2a then transfer PHASE_DATAOUT (get_u32be c 2) (length_u16 (c 7) (c 8)) t
      else if c 0 = 0xa8 then transfer PHASE_DATAIN (get_u32be c 2) (get_u32be c 6) t
      else spc_exec t)"

subsection \<open>Data\<close>

definition spc_read :: "buffer \<Rightarrow> disk \<Rightarrow> buffer \<times> disk" where
  "spc_read b t =
     (if t_command t 0 = 0x03 then
        (if t_command t 4 = 0 then put_bytes 0 ((t_sense_asc t AND 0x7f) # u24be (t_sense_information t AND 0x1fffff)) b
         else put_bytes 0 ([0x70, 0, t_sense_key t AND 0xf] @ u32be (t_sense_information t) @ [10, 0, 0, 0, 0] @
                [t_sense_asc t, t_sense_ascq t, 0, 0, 0, 0]) b,
         set_sense 0 0 t)
      else (b, t))"

definition capacity :: "image \<Rightarrow> u8 list" where
  "capacity im = u32be (i_cylinders im * i_heads im * i_sectors im - 1) @ u32be (i_sectorbytes im)"

definition format_page :: "image \<Rightarrow> u8 list" where
  "format_page im = [0x03, 0x16, 0, 0, 0, 0, 0, 0, 0, 0, byte32 1 (i_sectors im), byte32 0 (i_sectors im),
     byte32 1 (i_sectorbytes im), byte32 0 (i_sectorbytes im), 0, 0, 0, 0, 0, 0, 0x80, 0, 0, 0]"

definition geometry_page :: "image \<Rightarrow> u8 list" where
  "geometry_page im = [0x04, 0x16, byte32 2 (i_cylinders im), byte32 1 (i_cylinders im), byte32 0 (i_cylinders im), byte32 0 (i_heads im)] @
     replicate 14 0 @ [byte32 1 3600, byte32 0 3600, 0, 0]"

definition ascii :: "string \<Rightarrow> u8 list" where
  "ascii s = map of_char s @ [0]"

definition inquiry_data :: "nat \<Rightarrow> buffer \<Rightarrow> buffer" where
  "inquiry_data n b =
     put_bytes 32 (ascii ''1.0'') (put_bytes 16 (ascii ''          ST225N'') (put_bytes 8 (ascii '' SEAGATE'')
       (put_bytes 0 [0, 0, 5, 2] (put_bytes 0 (replicate n 0) b))))"

text \<open>A mode page with its header; \<open>n\<close> is the room the caller gives.\<close>

definition mode_page :: "nat \<Rightarrow> u8 list \<Rightarrow> image \<Rightarrow> buffer \<Rightarrow> buffer" where
  "mode_page n page im b =
     (let full = length page + 12
      in if n < full then b else put_bytes 0 ([of_nat full, 0, 0, 8] @ capacity im @ page) b)"

definition mode_sense :: "nat \<Rightarrow> buffer \<Rightarrow> disk \<Rightarrow> buffer" where
  "mode_sense n b t =
     (let page = t_command t 2 AND 0x3f; subpage = t_command t 3; im = t_image t in
      if page = 0x03 then (if subpage = 0 then mode_page n (format_page im) im b else b)
      else if page = 0x04 then (if subpage = 0 then mode_page n (geometry_page im) im b else b)
      else if page = 0x30 then put_bytes 14 (ascii ''APPLE COMPUTER, INC.'') (put_bytes 0 (0x14 # replicate 39 0) b)
      else if page = 0x3f then (if subpage = 0 then mode_page n (format_page im @ geometry_page im) im b else b)
      else b)"

text \<open>The loops over the sectors of a block; they do not end when the sector size is not positive.\<close>

partial_function (option) read_sectors :: "nat \<Rightarrow> int \<Rightarrow> buffer \<Rightarrow> disk \<Rightarrow> (buffer \<times> disk) option" where
  "read_sectors pos n b t =
     (if n > 0 then
        read_sectors (pos + nat (t_sector_bytes t)) (n - t_sector_bytes t) (put_bytes pos (fst (image_read (t_lba t) (t_image t))) b)
          (t\<lparr>t_lba := t_lba t + 1, t_blocks := t_blocks t - 1\<rparr>)
      else Some (b, t))"

partial_function (option) write_sectors :: "nat \<Rightarrow> int \<Rightarrow> buffer \<Rightarrow> disk \<Rightarrow> disk option" where
  "write_sectors pos n b t =
     (if n > 0 then
        write_sectors (pos + nat (t_sector_bytes t)) (n - t_sector_bytes t) b
          (t\<lparr>t_image := image_write (t_lba t) (map b [pos..<pos + unat (i_sectorbytes (t_image t))]) (t_image t),
             t_lba := t_lba t + 1, t_blocks := t_blocks t - 1\<rparr>)
      else Some t)"

definition sbc_read :: "nat \<Rightarrow> buffer \<Rightarrow> disk \<Rightarrow> (buffer \<times> disk) option" where
  "sbc_read n b t =
     (let c = t_command t in
      if \<not> i_exists (t_image t) then Some (put_bytes 0 (replicate n 0) b, t)
      else if c 0 = 0x12 then Some (inquiry_data n b, t)
      else if c 0 = 0x1a then Some (mode_sense n b t, t)
      else if c 0 = 0x08 \<or> c 0 = 0x28 \<or> c 0 = 0xa8 then (if t_blocks t \<noteq> 0 then read_sectors 0 (int n) b t else Some (b, t))
      else if c 0 = 0x25 then Some (put_bytes 0 (capacity (t_image t)) b, t)
      else Some (spc_read b t))"

definition sbc_write :: "nat \<Rightarrow> buffer \<Rightarrow> disk \<Rightarrow> disk option" where
  "sbc_write n b t =
     (let c = t_command t in
      if \<not> i_exists (t_image t) then Some t
      else if c 0 = 0x0a \<or> c 0 = 0x2a then (if t_blocks t \<noteq> 0 then write_sectors 0 (int n) b t else Some t)
      else Some t)"

subsection \<open>The guessed geometry\<close>

abbreviation chs_candidates :: "nat \<Rightarrow> (nat \<times> nat \<times> nat) list" where
  "chs_candidates n \<equiv> [(n div s div h, h, s). s \<leftarrow> rev [2..<64], n mod s = 0, h \<leftarrow> rev [2..<17], n div s mod h = 0]"

lemma candidate_lists:
  "(c, h, s) \<in> set [(n div s div h, h, s). s \<leftarrow> ss, n mod s = 0, h \<leftarrow> hs, n div s mod h = 0] \<longleftrightarrow>
     s \<in> set ss \<and> s dvd n \<and> h \<in> set hs \<and> h dvd n div s \<and> c = n div s div h" for n :: nat
  by (auto simp: dvd_eq_mod_eq_0)

lemma chs_candidate:
  "(c, h, s) \<in> set (chs_candidates n) \<longleftrightarrow> 2 \<le> s \<and> s < 64 \<and> s dvd n \<and> 2 \<le> h \<and> h < 17 \<and> h dvd n div s \<and> c = n div s div h"
  unfolding candidate_lists set_rev set_upt by auto

lemma case_list_first: "(case xs of [] \<Rightarrow> None | g # _ \<Rightarrow> Some g) = Some y \<Longrightarrow> y \<in> set xs"
  by (cases xs) auto

lemma case_list_none: "(case xs of [] \<Rightarrow> None | g # _ \<Rightarrow> Some g) = None \<Longrightarrow> xs = []"
  by (cases xs) auto

lemma guess_chs_sound: "guess_chs n = Some (c, h, s) \<Longrightarrow> c * h * s = n \<and> 2 \<le> h \<and> h \<le> 16 \<and> 2 \<le> s \<and> s \<le> 63"
proof -
  assume g: "guess_chs n = Some (c, h, s)"
  then have "(c, h, s) \<in> set (chs_candidates n)"
    using case_list_first [OF g [unfolded guess_chs_def]] by blast
  then have "2 \<le> s \<and> s < 64 \<and> s dvd n \<and> 2 \<le> h \<and> h < 17 \<and> h dvd n div s \<and> c = n div s div h" unfolding chs_candidate .
  then show ?thesis by (simp add: dvd_div_mult_self)
qed

lemma guess_chs_none: "guess_chs n = None \<Longrightarrow> \<not> 4 dvd n"
proof
  assume g: "guess_chs n = None" and n: "4 dvd n"
  then obtain q where q: "n = 4 * q" by blast
  then have "n div 2 = 2 * q" by simp
  then have "(n div 2 div 2, 2, 2) \<in> set (chs_candidates n)" unfolding chs_candidate using q by simp
  then show False unfolding case_list_none [OF g [unfolded guess_chs_def]] by simp
qed

lemma guess_geometry_here: "guess_chs n = Some g \<Longrightarrow> guess_geometry n = Some g"
  by (simp add: guess_geometry.simps [of n])

lemma guess_geometry_next: "guess_chs n = None \<Longrightarrow> guess_geometry n = guess_geometry ((n + 1) mod 2 ^ 32)"
  by (simp add: guess_geometry.simps [of n])

lemma geometry_within:
  "4 dvd n + k \<Longrightarrow> n + k < 2 ^ 32 \<Longrightarrow> \<exists>c h s. guess_geometry n = Some (c, h, s) \<and> n \<le> c * h * s \<and> c * h * s \<le> n + k \<and>
     2 \<le> h \<and> h \<le> 16 \<and> 2 \<le> s \<and> s \<le> 63"
proof (induction k arbitrary: n)
  case 0
  then obtain c h s where "guess_chs n = Some (c, h, s)" using guess_chs_none [of n] by (cases "guess_chs n") auto
  then show ?case using guess_geometry_here guess_chs_sound by fastforce
next
  case (Suc k)
  show ?case
  proof (cases "guess_chs n")
    case None
    have "(n + 1) mod 2 ^ 32 = n + 1" using Suc(3) by simp
    then have "guess_geometry n = guess_geometry (n + 1)" using guess_geometry_next [OF None] by metis
    then show ?thesis using Suc(1) [of "n + 1"] Suc(2,3) by fastforce
  next
    case (Some g)
    obtain c h s where "g = (c, h, s)" by (cases g) auto
    then have "guess_chs n = Some (c, h, s)" using Some by simp
    then show ?thesis using guess_geometry_here guess_chs_sound by fastforce
  qed
qed

lemma round_up_4: "\<exists>k\<le>3. 4 dvd n + k" for n :: nat
  by presburger

text \<open>
  Opening a plain file as a disk always ends with a guessed geometry, of two to sixteen heads and two to 63 sectors, whose
  capacity is at least the file's and exceeds it by three sectors at most.
\<close>

lemma image_geometry:
  assumes "length file < 2 ^ 40"
  shows "\<exists>im. image_open file 0 = Some im \<and> i_file im = file \<and>
     length file div 512 \<le> unat (i_cylinders im) * unat (i_heads im) * unat (i_sectors im) \<and>
     unat (i_cylinders im) * unat (i_heads im) * unat (i_sectors im) \<le> length file div 512 + 3 \<and>
     2 \<le> unat (i_heads im) \<and> unat (i_heads im) \<le> 16 \<and> 2 \<le> unat (i_sectors im) \<and> unat (i_sectors im) \<le> 63"
proof -
  let ?n = "length file div 512"
  have n: "?n < 2 ^ 31" using assms by (simp add: div_less_iff_less_mult)
  obtain k where k: "4 dvd ?n + k" "k \<le> 3" using round_up_4 by blast
  have "?n + k < 2 ^ 32" using n k(2) by simp
  then obtain c h s where g: "guess_geometry ?n = Some (c, h, s)" "?n \<le> c * h * s" "c * h * s \<le> ?n + k" "2 \<le> h" "h \<le> 16" "2 \<le> s" "s \<le> 63"
    using geometry_within [OF k(1)] by blast
  have "c * 1 \<le> c * (h * s)" using g by (intro mult_le_mono2) (simp add: Suc_le_eq)
  also have "\<dots> \<le> ?n + k" using g(3) by (simp only: mult.assoc)
  also note \<open>?n + k < 2 ^ 32\<close>
  finally have "c < 2 ^ 32" by simp
  then have u: "unat (of_nat c :: u32) = c" "unat (of_nat h :: u32) = h" "unat (of_nat s :: u32) = s" using g by (simp_all add: unat_of_nat)
  have "unat (of_nat (length file) :: 64 word) = length file" using assms by (simp add: unat_of_nat)
  then have "unat ((of_nat (length file) - ucast (0 :: u32) :: 64 word) div 512) = ?n" by (simp add: unat_div)
  then have "unat (ucast ((of_nat (length file) - ucast (0 :: u32) :: 64 word) div 512) :: u32) = ?n"
    using n by (simp add: unsigned_ucast_eq take_bit_nat_eq_self)
  then show ?thesis using g k(2) u by (simp add: image_open_def)
qed

lemma image_geometry_witness:
  "\<exists>im. image_open (replicate 2600 1) 0 = Some im \<and> i_file im = replicate 2600 1 \<and>
     length (replicate 2600 (1 :: u8)) div 512 \<le> unat (i_cylinders im) * unat (i_heads im) * unat (i_sectors im) \<and>
     unat (i_cylinders im) * unat (i_heads im) * unat (i_sectors im) \<le> length (replicate 2600 (1 :: u8)) div 512 + 3 \<and>
     2 \<le> unat (i_heads im) \<and> unat (i_heads im) \<le> 16 \<and> 2 \<le> unat (i_sectors im) \<and> unat (i_sectors im) \<le> 63"
proof -
  have "length (replicate 2600 (1 :: u8)) < 2 ^ 40" by (simp only: length_replicate) simp
  then show ?thesis by (rule image_geometry)
qed

text \<open>The position of a sector is computed in 32 bits: past four gigabytes the sectors of the start of the file come back.\<close>

lemma sector_position_wraps: "i_sectorbytes im = 512 \<Longrightarrow> sector_position (lba + 0x800000) im = sector_position lba im"
proof -
  assume i: "i_sectorbytes im = 512"
  have z: "(0x800000 * 512 :: u32) = 0" by simp
  show ?thesis unfolding sector_position_def i distrib_right z by simp
qed

text \<open>A disk whose image gives it no geometry reports the largest capacity there is.\<close>

lemma capacity_of_empty: "i_cylinders im = 0 \<Longrightarrow> take 4 (capacity im) = [0xff, 0xff, 0xff, 0xff]"
proof -
  assume c: "i_cylinders im = 0"
  have "u32be (0 - 1) = [0xff, 0xff, 0xff, 0xff]" by code_simp
  then show ?thesis unfolding capacity_def c by simp
qed

end
