(* ===== verification/Fm_Scsi.thy ===== *)
theory Fm_Scsi
  imports Scsi_Disk
begin

text \<open>
  The SCSI controller, \<open>src/devices/machine/fm_scsi.cpp\<close>, with the host adapter it extends
  (\<open>legscsi.cpp\<close>) and the hard disks on its bus. The two timers are a phase that is due and a flag; \<open>s_calls\<close>
  records the calls of the interrupt and the request handler, the latest last.
\<close>

unbundle bit_operations_syntax

subsection \<open>State\<close>

datatype scsi_call = Irq bool | Drq bool

record fmscsi =
  s_command :: buffer
  s_command_index :: nat
  s_result_length :: int
  s_result_index :: u32
  s_input_lines :: u8
  s_output_lines :: u8
  s_data :: u8
  s_last_id :: u8
  s_phase :: nat
  s_target :: nat
  s_buffer :: buffer
  s_transfer_timer :: bool
  s_phase_due :: "nat option"
  s_selected :: nat
  s_devices :: "nat \<Rightarrow> disk option"
  s_calls :: "scsi_call list"

abbreviation LINE_REQ :: u8 where "LINE_REQ \<equiv> 0x80"
abbreviation LINE_IO :: u8 where "LINE_IO \<equiv> 0x40"
abbreviation LINE_MSG :: u8 where "LINE_MSG \<equiv> 0x20"
abbreviation LINE_CD :: u8 where "LINE_CD \<equiv> 0x10"
abbreviation LINE_BSY :: u8 where "LINE_BSY \<equiv> 0x08"
abbreviation LINE_INT :: u8 where "LINE_INT \<equiv> 0x02"

abbreviation LINE_WEN :: u8 where "LINE_WEN \<equiv> 0x80"
abbreviation LINE_IMSK :: u8 where "LINE_IMSK \<equiv> 0x40"
abbreviation LINE_ATN :: u8 where "LINE_ATN \<equiv> 0x10"
abbreviation LINE_SEL :: u8 where "LINE_SEL \<equiv> 0x04"
abbreviation LINE_DMAE :: u8 where "LINE_DMAE \<equiv> 0x02"
abbreviation LINE_RST :: u8 where "LINE_RST \<equiv> 0x01"

definition scsi_call :: "scsi_call \<Rightarrow> fmscsi \<Rightarrow> fmscsi" where
  "scsi_call out s = s\<lparr>s_calls := s_calls s @ [out]\<rparr>"

subsection \<open>The host adapter\<close>

definition device :: "fmscsi \<Rightarrow> disk option" where
  "device s = s_devices s (s_selected s)"

definition set_device :: "disk \<Rightarrow> fmscsi \<Rightarrow> fmscsi" where
  "set_device t s = s\<lparr>s_devices := (s_devices s)(s_selected s := Some t)\<rparr>"

definition select_id :: "nat \<Rightarrow> fmscsi \<Rightarrow> bool \<times> fmscsi" where
  "select_id target s = (let s1 = s\<lparr>s_selected := target\<rparr> in (device s1 \<noteq> None, s1))"

definition send_command :: "buffer \<Rightarrow> nat \<Rightarrow> fmscsi \<Rightarrow> fmscsi" where
  "send_command cmd n s = (case device s of None \<Rightarrow> s | Some t \<Rightarrow> set_device (sbc_exec (set_command cmd n t)) s)"

definition get_length :: "fmscsi \<Rightarrow> int" where
  "get_length s = (case device s of None \<Rightarrow> 0 | Some t \<Rightarrow> t_transfer_length t)"

definition device_phase :: "fmscsi \<Rightarrow> nat" where
  "device_phase s = (case device s of None \<Rightarrow> 0 | Some t \<Rightarrow> t_phase t)"

definition adapter_read :: "nat \<Rightarrow> fmscsi \<Rightarrow> fmscsi option" where
  "adapter_read n s = (case device s of None \<Rightarrow> Some s
     | Some t \<Rightarrow> do { (b, t1) \<leftarrow> sbc_read n (s_buffer s) t; Some ((set_device t1 s)\<lparr>s_buffer := b\<rparr>) })"

definition adapter_write :: "nat \<Rightarrow> fmscsi \<Rightarrow> fmscsi option" where
  "adapter_write n s = (case device s of None \<Rightarrow> Some s
     | Some t \<Rightarrow> do { t1 \<leftarrow> sbc_write n (s_buffer s) t; Some (set_device t1 s) })"

definition get_status :: "fmscsi \<Rightarrow> u8" where
  "get_status s = (case device s of None \<Rightarrow> 0 | Some t \<Rightarrow> if i_exists (t_image t) then 0x00 else 0x02)"

subsection \<open>Lines\<close>

definition data_phase :: "fmscsi \<Rightarrow> bool" where
  "data_phase s \<longleftrightarrow> s_phase s = PHASE_DATAIN \<or> s_phase s = PHASE_DATAOUT"

definition put_line :: "u8 \<Rightarrow> bool \<Rightarrow> fmscsi \<Rightarrow> fmscsi" where
  "put_line line state s = s\<lparr>s_input_lines := (if state then s_input_lines s OR line else s_input_lines s AND NOT line)\<rparr>"

definition set_input_line :: "u8 \<Rightarrow> bool \<Rightarrow> fmscsi \<Rightarrow> fmscsi" where
  "set_input_line line state s =
     (let s1 = (if line = LINE_REQ \<and> state \<noteq> tst (s_input_lines s) LINE_REQ \<and>
                  tst (s_output_lines s) LINE_IMSK \<and> \<not> data_phase s
                then scsi_call (Irq state) (put_line LINE_INT state s) else s)
      in put_line line state s1)"

definition get_input_line :: "u8 \<Rightarrow> fmscsi \<Rightarrow> u8" where
  "get_input_line line s = s_input_lines s AND line"

definition get_output_line :: "u8 \<Rightarrow> fmscsi \<Rightarrow> u8" where
  "get_output_line line s = s_output_lines s AND line"

definition set_lines :: "bool \<Rightarrow> bool \<Rightarrow> bool \<Rightarrow> fmscsi \<Rightarrow> fmscsi" where
  "set_lines cd msg io s = set_input_line LINE_IO io (set_input_line LINE_MSG msg (set_input_line LINE_CD cd s))"

definition drq_if_enabled :: "bool \<Rightarrow> fmscsi \<Rightarrow> fmscsi" where
  "drq_if_enabled state s = (if tst (s_output_lines s) LINE_DMAE then scsi_call (Drq state) s else s)"

definition update_transfer :: "fmscsi \<Rightarrow> fmscsi" where
  "update_transfer s = drq_if_enabled True (set_input_line LINE_REQ True s)"

definition stop_transfer :: "fmscsi \<Rightarrow> fmscsi" where
  "stop_transfer s = drq_if_enabled False (s\<lparr>s_transfer_timer := False, s_phase_due := Some PHASE_STATUS\<rparr>)"

definition fmscsi_reset :: "fmscsi \<Rightarrow> fmscsi" where
  "fmscsi_reset s =
     (let s1 = s\<lparr>s_input_lines := 0, s_output_lines := 0, s_data := 0, s_command_index := 0, s_last_id := 0, s_target := 0,
                 s_result_length := 0, s_result_index := 0\<rparr>;
          s2 = scsi_call (Irq False) (set_input_line LINE_INT False (stop_transfer s1))
      in s2\<lparr>s_phase := PHASE_BUS_FREE\<rparr>)"

text \<open>\<open>None\<close> is the fatal error of an unknown command group.\<close>

definition get_scsi_cmd_len :: "u8 \<Rightarrow> nat option" where
  "get_scsi_cmd_len cbyte =
     (let group = unat (drop_bit 5 cbyte AND 7)
      in if group = 0 then Some 6 else if group = 1 \<or> group = 2 then Some 10 else if group = 5 then Some 12 else None)"

definition transfer_done :: "fmscsi \<Rightarrow> bool" where
  "transfer_done s \<longleftrightarrow> s_result_index s \<ge> of_int (s_result_length s)"

subsection \<open>The phases\<close>

definition enter_phase :: "nat \<Rightarrow> fmscsi \<Rightarrow> fmscsi option" where
  "enter_phase phase s0 =
     (let s = s0\<lparr>s_phase := phase\<rparr> in
      if phase = PHASE_BUS_FREE then Some (set_lines False False False (set_input_line LINE_BSY False s))
      else if phase = PHASE_COMMAND then
        Some (set_input_line LINE_REQ True (set_lines True False False (set_input_line LINE_BSY True s)))
      else if phase = PHASE_STATUS then Some (set_input_line LINE_REQ True (set_lines True False True s))
      else if phase = PHASE_DATAIN then
        do { s1 \<leftarrow> adapter_read 512 ((set_input_line LINE_REQ True (set_lines False False True s))\<lparr>s_transfer_timer := True\<rparr>);
             Some (s1\<lparr>s_result_index := 0\<rparr>) }
      else if phase = PHASE_DATAOUT then
        Some ((set_input_line LINE_REQ True (set_lines False False False s))\<lparr>s_transfer_timer := True, s_result_index := 0\<rparr>)
      else if phase = PHASE_MESSAGE_IN then Some (set_input_line LINE_REQ True (set_lines True True True s))
      else if phase = PHASE_MESSAGE_OUT then Some (set_input_line LINE_REQ True (set_lines True True False s))
      else Some s)"

text \<open>The phase timer fires.\<close>

definition fire_phase :: "fmscsi \<Rightarrow> fmscsi option" where
  "fire_phase s = (case s_phase_due s of None \<Rightarrow> Some s | Some phase \<Rightarrow> enter_phase phase (s\<lparr>s_phase_due := None\<rparr>))"

definition data_slot :: "fmscsi \<Rightarrow> nat" where
  "data_slot s = unat (s_result_index s) mod 512"

definition fmscsi_data_r :: "fmscsi \<Rightarrow> (u8 \<times> fmscsi) option" where
  "fmscsi_data_r s0 =
     (let s = set_input_line LINE_REQ False s0 in
      if s_phase s = PHASE_DATAIN then
        (let s1 = s\<lparr>s_data := s_buffer s (data_slot s), s_result_index := s_result_index s + 1\<rparr>
         in do { s2 \<leftarrow> (if data_slot s1 = 0 then adapter_read 512 s1 else Some s1);
                 let s3 = (if transfer_done s2 then stop_transfer s2 else s2);
                 Some (s_data s3, s3) })
      else if s_phase s = PHASE_MESSAGE_IN then
        Some (0, s\<lparr>s_data := 0, s_phase_due := Some PHASE_BUS_FREE, s_command_index := 0\<rparr>)
      else if s_phase s = PHASE_STATUS then
        (let d = get_status s in Some (d, s\<lparr>s_data := d, s_phase_due := Some PHASE_MESSAGE_IN, s_command_index := 0\<rparr>))
      else Some (s_data s, s))"

definition target_of :: "u8 \<Rightarrow> nat \<Rightarrow> nat" where
  "target_of data old =
     (let d = data AND 0x7f in if d = 0x01 then 0 else if d = 0x02 then 1 else if d = 0x04 then 2
      else if d = 0x08 then 3 else if d = 0x10 then 4 else old)"

definition command_byte :: "u8 \<Rightarrow> fmscsi \<Rightarrow> fmscsi option" where
  "command_byte data s =
     (let s1 = s\<lparr>s_command := (s_command s)(s_command_index s := data), s_command_index := (s_command_index s + 1) mod 256\<rparr>
      in do { n \<leftarrow> get_scsi_cmd_len (s_command s1 0);
              Some (if s_command_index s1 \<ge> n then
                      (let s2 = send_command (s_command s1) (s_command_index s1) s1
                       in s2\<lparr>s_result_length := get_length s2, s_phase_due := Some (device_phase s2)\<rparr>)
                    else s1\<lparr>s_phase_due := Some PHASE_COMMAND\<rparr>) })"

definition fmscsi_data_w :: "u8 \<Rightarrow> fmscsi \<Rightarrow> fmscsi option" where
  "fmscsi_data_w data s0 =
     (let s = set_input_line LINE_REQ False (s0\<lparr>s_data := data\<rparr>) in
      if s_phase s = PHASE_BUS_FREE then Some (s\<lparr>s_target := target_of data (s_target s)\<rparr>)
      else if s_phase s = PHASE_DATAOUT then
        (let s1 = s\<lparr>s_buffer := (s_buffer s)(data_slot s := data), s_result_index := s_result_index s + 1\<rparr>
         in do { s2 \<leftarrow> (if data_slot s1 = 0 then adapter_write 512 s1 else Some s1);
                 Some (if transfer_done s2 then stop_transfer s2 else s2) })
      else if s_phase s = PHASE_COMMAND then command_byte data s
      else if s_phase s = PHASE_MESSAGE_OUT then Some (s\<lparr>s_phase_due := Some PHASE_STATUS\<rparr>)
      else Some s)"

subsection \<open>The ports\<close>

definition put_output :: "u8 \<Rightarrow> bool \<Rightarrow> fmscsi \<Rightarrow> fmscsi" where
  "put_output line state s = s\<lparr>s_output_lines := (if state then s_output_lines s OR line else s_output_lines s AND NOT line)\<rparr>"

definition select_target :: "fmscsi \<Rightarrow> fmscsi" where
  "select_target s = (case select_id (s_target s) s of
     (True, s1) \<Rightarrow> s1\<lparr>s_phase_due := Some PHASE_COMMAND, s_data := 0x08\<rparr> | (False, s1) \<Rightarrow> s1)"

definition set_output_line :: "u8 \<Rightarrow> bool \<Rightarrow> fmscsi \<Rightarrow> fmscsi" where
  "set_output_line line state s =
     (let s1 = (if line = LINE_RST \<and> state then fmscsi_reset s else s);
          s2 = (if line = LINE_SEL \<and> state \<and> \<not> tst (s_output_lines s1) LINE_SEL then select_target s1 else s1);
          s3 = (if line = LINE_ATN \<and> state then s2\<lparr>s_phase_due := Some PHASE_MESSAGE_OUT\<rparr> else s2)
      in put_output line state s3)"

definition fmscsi_status_r :: "fmscsi \<Rightarrow> u8" where
  "fmscsi_status_r s = s_input_lines s"

definition fmscsi_control_w :: "u8 \<Rightarrow> fmscsi \<Rightarrow> fmscsi" where
  "fmscsi_control_w data s =
     foldl (\<lambda>s line. set_output_line line (tst data line) s) s [LINE_RST, LINE_DMAE, LINE_IMSK, LINE_ATN, LINE_WEN, LINE_SEL]"

definition fmscsi_r :: "nat \<Rightarrow> fmscsi \<Rightarrow> (u8 \<times> fmscsi) option" where
  "fmscsi_r offset s =
     (if offset mod 4 = 0 then fmscsi_data_r s
      else if offset mod 4 = 1 then Some (fmscsi_status_r s, s)
      else if offset mod 4 = 2 then Some (0x80, s)
      else Some (0, s))"

definition fmscsi_w :: "nat \<Rightarrow> u8 \<Rightarrow> fmscsi \<Rightarrow> fmscsi option" where
  "fmscsi_w offset data s =
     (if offset mod 4 = 0 then fmscsi_data_w data s
      else if offset mod 4 = 1 then Some (fmscsi_control_w data s)
      else Some s)"

subsection \<open>What the lines leave alone\<close>

text \<open>The part of the state that the lines and handlers do not touch.\<close>

definition core :: "fmscsi \<Rightarrow> fmscsi" where
  "core s = s\<lparr>s_input_lines := 0, s_output_lines := 0, s_calls := []\<rparr>"

lemma core_input_line [simp]: "core (set_input_line line state s) = core s"
  by (simp add: core_def set_input_line_def put_line_def scsi_call_def Let_def)

lemma core_drq [simp]: "core (drq_if_enabled state s) = core s"
  by (simp add: core_def drq_if_enabled_def scsi_call_def)

lemma core_lines [simp]: "core (set_lines cd msg io s) = core s"
  by (simp add: set_lines_def)

lemma core_fields:
  "core s = core s' \<Longrightarrow> s_phase s = s_phase s' \<and> s_buffer s = s_buffer s' \<and> s_result_index s = s_result_index s' \<and>
     s_result_length s = s_result_length s' \<and> s_devices s = s_devices s' \<and> s_selected s = s_selected s' \<and>
     s_command s = s_command s' \<and> s_command_index s = s_command_index s' \<and> s_phase_due s = s_phase_due s' \<and> s_data s = s_data s'"
proof -
  assume c: "core s = core s'"
  have "f (core s) = f (core s')" for f :: "fmscsi \<Rightarrow> 'b" using c by simp
  show ?thesis
    using arg_cong [OF c, of s_phase] arg_cong [OF c, of s_buffer] arg_cong [OF c, of s_result_index] arg_cong [OF c, of s_result_length]
      arg_cong [OF c, of s_devices] arg_cong [OF c, of s_selected] arg_cong [OF c, of s_command] arg_cong [OF c, of s_command_index]
      arg_cong [OF c, of s_phase_due] arg_cong [OF c, of s_data]
    by (simp add: core_def)
qed

lemma input_line_fields [simp]:
  "s_phase (set_input_line l b s) = s_phase s" "s_buffer (set_input_line l b s) = s_buffer s"
  "s_result_index (set_input_line l b s) = s_result_index s" "s_result_length (set_input_line l b s) = s_result_length s"
  "s_devices (set_input_line l b s) = s_devices s" "s_selected (set_input_line l b s) = s_selected s"
  "s_command (set_input_line l b s) = s_command s" "s_command_index (set_input_line l b s) = s_command_index s"
  "s_phase_due (set_input_line l b s) = s_phase_due s" "s_data (set_input_line l b s) = s_data s"
  using core_fields [OF core_input_line [of l b s]] by blast+

lemma lines_fields [simp]:
  "s_phase (set_lines a b c s) = s_phase s" "s_buffer (set_lines a b c s) = s_buffer s"
  "s_result_index (set_lines a b c s) = s_result_index s" "s_result_length (set_lines a b c s) = s_result_length s"
  "s_devices (set_lines a b c s) = s_devices s" "s_selected (set_lines a b c s) = s_selected s"
  "s_command (set_lines a b c s) = s_command s" "s_command_index (set_lines a b c s) = s_command_index s"
  "s_phase_due (set_lines a b c s) = s_phase_due s" "s_data (set_lines a b c s) = s_data s"
  using core_fields [OF core_lines [of a b c s]] by blast+

lemma stop_fields [simp]:
  "s_phase (stop_transfer s) = s_phase s" "s_buffer (stop_transfer s) = s_buffer s"
  "s_devices (stop_transfer s) = s_devices s" "s_selected (stop_transfer s) = s_selected s"
  "s_phase_due (stop_transfer s) = Some PHASE_STATUS" "s_data (stop_transfer s) = s_data s"
  "s_command_index (stop_transfer s) = s_command_index s"
  by (simp_all add: stop_transfer_def drq_if_enabled_def scsi_call_def)

subsection \<open>Sectors\<close>

text \<open>A disk of 512-byte sectors whose file covers a range of blocks that 32 bits can address.\<close>

definition covers :: "image \<Rightarrow> nat \<Rightarrow> nat \<Rightarrow> bool" where
  "covers im lba n \<longleftrightarrow> i_exists im \<and> i_sectorbytes im = 512 \<and> unat (i_offset im) + (lba + n) * 512 \<le> length (i_file im) \<and>
     unat (i_offset im) + (lba + n) * 512 < 2 ^ 32"

definition blocks_of :: "image \<Rightarrow> nat \<Rightarrow> nat \<Rightarrow> u8 list" where
  "blocks_of im lba n = file_read (unat (i_offset im) + lba * 512) (n * 512) (i_file im)"

lemma position_exact: "covers im lba n \<Longrightarrow> k \<le> n \<Longrightarrow> sector_position (of_nat (lba + k)) im = unat (i_offset im) + (lba + k) * 512"
proof -
  assume c: "covers im lba n" and k: "k \<le> n"
  have "(lba + k) * 512 \<le> (lba + n) * 512" using k by simp
  then have b: "unat (i_offset im) + (lba + k) * 512 < 2 ^ 32" using c unfolding covers_def by linarith
  have "i_offset im + of_nat (lba + k) * 512 = of_nat (unat (i_offset im) + (lba + k) * 512)" by simp
  moreover have "unat (of_nat (unat (i_offset im) + (lba + k) * 512) :: u32) = unat (i_offset im) + (lba + k) * 512"
    unfolding unat_of_nat using b by simp
  ultimately show ?thesis using c unfolding sector_position_def covers_def by metis
qed

lemma image_read_sector:
  "covers im lba n \<Longrightarrow> k < n \<Longrightarrow>
     fst (image_read (of_nat (lba + k)) im) = take 512 (drop (k * 512) (blocks_of im lba n)) \<and> length (fst (image_read (of_nat (lba + k)) im)) = 512"
proof -
  assume c: "covers im lba n" and k: "k < n"
  have k1: "(k + 1) * 512 \<le> n * 512" using k by (intro mult_le_mono1) simp
  then have m: "min 512 (n * 512 - k * 512) = 512" by simp
  have p: "sector_position (of_nat (lba + k)) im = unat (i_offset im) + (lba + k) * 512" using position_exact [OF c] k by simp
  have l: "unat (i_offset im) + (lba + k) * 512 + 512 \<le> length (i_file im)" using c k1 by (simp add: covers_def algebra_simps)
  have s: "unat (i_sectorbytes im) = 512" using c by (simp add: covers_def)
  have "drop (k * 512) (blocks_of im lba n) = take (n * 512 - k * 512) (drop (unat (i_offset im) + (lba + k) * 512) (i_file im))"
    by (simp add: blocks_of_def file_read_def drop_take algebra_simps)
  then have "take 512 (drop (k * 512) (blocks_of im lba n)) = take 512 (drop (unat (i_offset im) + (lba + k) * 512) (i_file im))"
    using m by simp
  moreover have "fst (image_read (of_nat (lba + k)) im) = take 512 (drop (unat (i_offset im) + (lba + k) * 512) (i_file im))"
    unfolding image_read_def p s file_read_def Let_def by simp
  moreover have "512 \<le> length (i_file im) - (unat (i_offset im) + (lba + k) * 512)" using l by simp
  ultimately show ?thesis by simp
qed

lemma length_blocks: "covers im lba n \<Longrightarrow> length (blocks_of im lba n) = n * 512"
proof -
  assume "covers im lba n"
  then have "n * 512 \<le> length (i_file im) - (unat (i_offset im) + lba * 512)" by (auto simp: covers_def algebra_simps)
  then show ?thesis by (simp add: blocks_of_def file_read_def)
qed

lemma put_bytes_at: "put_bytes a bs b i = (if a \<le> i \<and> i < a + length bs then bs ! (i - a) else b i)"
  unfolding put_bytes_def
proof (induction bs arbitrary: a b)
  case Nil
  show ?case by auto
next
  case (Cons d bs)
  have "(d # bs) ! (i - a) = bs ! (i - Suc a)" if "Suc a \<le> i"
    using that by (metis Suc_diff_le diff_Suc_Suc nth_Cons_Suc)
  then show ?case using Cons by auto
qed

subsection \<open>One sector at a time\<close>

lemma read_one:
  "t_sector_bytes t = 512 \<Longrightarrow> read_sectors 0 512 b t =
     Some (put_bytes 0 (fst (image_read (t_lba t) (t_image t))) b, t\<lparr>t_lba := t_lba t + 1, t_blocks := t_blocks t - 1\<rparr>)"
  by (simp add: read_sectors.simps [of 0 512] read_sectors.simps [of _ 0])

lemma write_one:
  "t_sector_bytes t = 512 \<Longrightarrow> i_sectorbytes (t_image t) = 512 \<Longrightarrow> write_sectors 0 512 b t =
     Some (t\<lparr>t_image := image_write (t_lba t) (map b [0..<512]) (t_image t), t_lba := t_lba t + 1, t_blocks := t_blocks t - 1\<rparr>)"
  by (simp add: write_sectors.simps [of 0 512] write_sectors.simps [of _ 0])

text \<open>What the program on the bus does: it takes or gives a byte and waits for the phase timer.\<close>

definition take_byte :: "fmscsi \<Rightarrow> (u8 \<times> fmscsi) option" where
  "take_byte s = do { (d, s1) \<leftarrow> fmscsi_data_r s; s2 \<leftarrow> fire_phase s1; Some (d, s2) }"

definition give_byte :: "u8 \<Rightarrow> fmscsi \<Rightarrow> fmscsi option" where
  "give_byte d s = do { s1 \<leftarrow> fmscsi_data_w d s; fire_phase s1 }"

fun take_bytes :: "nat \<Rightarrow> fmscsi \<Rightarrow> (u8 list \<times> fmscsi) option" where
  "take_bytes 0 s = Some ([], s)"
| "take_bytes (Suc n) s = do { (d, s1) \<leftarrow> take_byte s; (ds, s2) \<leftarrow> take_bytes n s1; Some (d # ds, s2) }"

fun give_bytes :: "u8 list \<Rightarrow> fmscsi \<Rightarrow> fmscsi option" where
  "give_bytes [] s = Some s"
| "give_bytes (d # ds) s = do { s1 \<leftarrow> give_byte d s; give_bytes ds s1 }"

text \<open>The disk a transfer works on, and a transfer that has come to sector \<open>k\<close>, byte \<open>j\<close>.\<close>

definition served :: "nat \<Rightarrow> image \<Rightarrow> fmscsi \<Rightarrow> bool" where
  "served x im s \<longleftrightarrow> s_selected s = x \<and> (\<exists>t. s_devices s x = Some t \<and> t_image t = im \<and> t_sector_bytes t = 512)"

definition transferring :: "nat \<Rightarrow> u8 \<Rightarrow> nat \<Rightarrow> image \<Rightarrow> nat \<Rightarrow> nat \<Rightarrow> nat \<Rightarrow> nat \<Rightarrow> nat \<Rightarrow> fmscsi \<Rightarrow> bool" where
  "transferring phase cmd x im lba blocks n k j s \<longleftrightarrow>
     s_phase s = phase \<and> s_phase_due s = None \<and> s_result_length s = int (n * 512) \<and> s_result_index s = of_nat (k * 512 + j) \<and>
     k < n \<and> j < 512 \<and> n * 512 < 2 ^ 31 \<and> s_selected s = x \<and>
     (\<exists>t. s_devices s x = Some t \<and> t_image t = im \<and> t_sector_bytes t = 512 \<and> t_command t 0 = cmd \<and>
          t_lba t = of_nat lba \<and> t_blocks t = of_nat blocks)"

definition at_phase :: "nat \<Rightarrow> nat \<Rightarrow> image \<Rightarrow> fmscsi \<Rightarrow> bool" where
  "at_phase phase x im s \<longleftrightarrow> s_phase s = phase \<and> s_phase_due s = None \<and> served x im s"

lemma unat_of_nat_32: "m < 2 ^ 32 \<Longrightarrow> unat (of_nat m :: u32) = m"
  by (simp add: unat_of_nat)

lemma slot_of_index: "j < 512 \<Longrightarrow> (k * 512 + j) < 2 ^ 32 \<Longrightarrow> unat (of_nat (k * 512 + j) :: u32) mod 512 = j"
  unfolding unat_of_nat by simp

lemma index_less: "a < 2 ^ 32 \<Longrightarrow> b < 2 ^ 32 \<Longrightarrow> (of_int (int b) \<le> (of_nat a :: u32)) = (b \<le> a)"
proof -
  assume a: "a < 2 ^ 32" and b: "b < 2 ^ 32"
  have "unat (of_nat a :: u32) = a" "unat (of_nat b :: u32) = b" using a b by (simp_all add: unat_of_nat)
  then show ?thesis by (simp add: word_le_nat_alt)
qed

lemma fire_none: "s_phase_due s = None \<Longrightarrow> fire_phase s = Some s"
  by (simp add: fire_phase_def)

subsection \<open>Ending a transfer\<close>

lemma status_entered:
  "served x im s \<Longrightarrow> s_phase_due s = Some PHASE_STATUS \<Longrightarrow> \<exists>s'. fire_phase s = Some s' \<and> at_phase PHASE_STATUS x im s'"
  by (simp add: fire_phase_def enter_phase_def at_phase_def served_def)

lemma status_taken:
  "at_phase PHASE_STATUS x im s \<Longrightarrow> \<exists>s'. take_byte s = Some (if i_exists im then 0 else 2, s') \<and> at_phase PHASE_MESSAGE_IN x im s' \<and>
     s_command_index s' = 0"
  by (auto simp: take_byte_def fmscsi_data_r_def at_phase_def served_def fire_phase_def enter_phase_def Let_def get_status_def device_def)

lemma message_taken:
  "at_phase PHASE_MESSAGE_IN x im s \<Longrightarrow> \<exists>s'. take_byte s = Some (0, s') \<and> at_phase PHASE_BUS_FREE x im s' \<and> s_command_index s' = 0"
  by (auto simp: take_byte_def fmscsi_data_r_def at_phase_def served_def fire_phase_def enter_phase_def Let_def)

text \<open>Status and message end every command.\<close>

lemma closing_bytes:
  "at_phase PHASE_STATUS x im s \<Longrightarrow> i_exists im \<Longrightarrow>
     \<exists>s'. take_bytes 2 s = Some ([0, 0], s') \<and> at_phase PHASE_BUS_FREE x im s' \<and> s_command_index s' = 0"
proof -
  assume a: "at_phase PHASE_STATUS x im s" and e: "i_exists im"
  obtain s1 where 1: "take_byte s = Some (0, s1)" "at_phase PHASE_MESSAGE_IN x im s1" using status_taken [OF a] e by auto
  obtain s2 where "take_byte s1 = Some (0, s2)" "at_phase PHASE_BUS_FREE x im s2" "s_command_index s2 = 0"
    using message_taken [OF 1(2)] by blast
  then show ?thesis using 1 by (simp add: numeral_2_eq_2)
qed

subsection \<open>Reading\<close>

definition reading :: "nat \<Rightarrow> image \<Rightarrow> nat \<Rightarrow> nat \<Rightarrow> nat \<Rightarrow> nat \<Rightarrow> fmscsi \<Rightarrow> bool" where
  "reading x im lba n k j s \<longleftrightarrow> transferring PHASE_DATAIN 0x08 x im (lba + k + 1) (n - k - 1) n k j s \<and>
     (\<forall>i<512. s_buffer s i = blocks_of im lba n ! (k * 512 + i))"

text \<open>The state right after a byte has passed, before a sector is fetched or the transfer stops.\<close>

definition took :: "fmscsi \<Rightarrow> fmscsi" where
  "took s = (set_input_line LINE_REQ False s)\<lparr>s_data := s_buffer s (data_slot s), s_result_index := s_result_index s + 1\<rparr>"

lemma took_fields [simp]:
  "s_phase (took s) = s_phase s" "s_buffer (took s) = s_buffer s" "s_result_length (took s) = s_result_length s"
  "s_devices (took s) = s_devices s" "s_selected (took s) = s_selected s" "s_phase_due (took s) = s_phase_due s"
  "s_result_index (took s) = s_result_index s + 1" "s_data (took s) = s_buffer s (data_slot s)"
  by (simp_all add: took_def)

lemma data_in:
  "s_phase s = PHASE_DATAIN \<Longrightarrow> fmscsi_data_r s =
     do { s2 \<leftarrow> (if data_slot (took s) = 0 then adapter_read 512 (took s) else Some (took s));
          let s3 = (if transfer_done s2 then stop_transfer s2 else s2);
          Some (s_data s3, s3) }"
  by (simp add: fmscsi_data_r_def took_def data_slot_def)

text \<open>Where the index stands after the byte.\<close>

lemma transferring_index:
  "transferring phase cmd x im lba blocks n k j s \<Longrightarrow>
     data_slot s = j \<and> s_result_index s + 1 = of_nat (k * 512 + j + 1) \<and> k * 512 + j + 1 \<le> n * 512 \<and> n * 512 < 2 ^ 31 \<and>
     unat (s_result_index s + 1) mod 512 = (j + 1) mod 512 \<and>
     (of_int (s_result_length s) \<le> s_result_index s + 1) = (n * 512 \<le> k * 512 + j + 1)"
proof -
  assume t: "transferring phase cmd x im lba blocks n k j s"
  have k: "k < n" "j < 512" "n * 512 < 2 ^ 31" and i: "s_result_index s = of_nat (k * 512 + j)" "s_result_length s = int (n * 512)"
    using t by (simp_all add: transferring_def)
  have "(k + 1) * 512 \<le> n * 512" using k(1) by (intro mult_le_mono1) simp
  then have b: "k * 512 + j + 1 \<le> n * 512" using k(2) by simp
  have s: "data_slot s = j" unfolding data_slot_def i(1) by (rule slot_of_index) (use b k in simp_all)
  have i1: "s_result_index s + 1 = of_nat (k * 512 + j + 1)" using i(1) by simp
  have "unat (of_nat (k * 512 + j + 1) :: u32) = k * 512 + j + 1" unfolding unat_of_nat using b k(3) by simp
  then have m: "unat (s_result_index s + 1) mod 512 = (j + 1) mod 512" unfolding i1
    by (metis add.assoc mod_mult_self3)
  have "(of_int (int (n * 512)) \<le> (of_nat (k * 512 + j + 1) :: u32)) = (n * 512 \<le> k * 512 + j + 1)"
    using b k(3) by (intro index_less) simp_all
  then have l: "(of_int (s_result_length s) \<le> s_result_index s + 1) = (n * 512 \<le> k * 512 + j + 1)" unfolding i1 i(2) .
  show ?thesis using s i1 b k(3) m l by (intro conjI)
qed

lemma read_within:
  "reading x im lba n k j s \<Longrightarrow> j + 1 < 512 \<Longrightarrow>
     \<exists>s'. take_byte s = Some (blocks_of im lba n ! (k * 512 + j), s') \<and> reading x im lba n k (j + 1) s'"
proof -
  assume r: "reading x im lba n k j s" and j: "j + 1 < 512"
  have t: "transferring PHASE_DATAIN 0x08 x im (lba + k + 1) (n - k - 1) n k j s" using r by (simp add: reading_def)
  note i = transferring_index [OF t]
  have p: "s_phase s = PHASE_DATAIN" "s_phase_due s = None" "k < n" using t by (simp_all add: transferring_def)
  have "(k + 1) * 512 \<le> n * 512" using p(3) by (intro mult_le_mono1) simp
  then have n: "\<not> n * 512 \<le> k * 512 + j + 1" using j by simp
  have d: "\<not> transfer_done (took s)" using i n unfolding transfer_done_def took_fields by blast
  have "unat (s_result_index s + 1) mod 512 = (j + 1) mod 512" using i by blast
  then have z: "data_slot (took s) \<noteq> 0" using j unfolding data_slot_def took_fields by simp
  have "take_byte s = Some (s_data (took s), took s)"
    using d z p unfolding take_byte_def data_in [OF p(1)] by (simp add: fire_none)
  moreover have "s_result_index (took s) = of_nat (k * 512 + (j + 1))" using i by simp
  then have "reading x im lba n k (j + 1) (took s)" using r j by (simp add: reading_def transferring_def del: of_nat_diff)
  moreover have "s_data (took s) = blocks_of im lba n ! (k * 512 + j)" using r j i by (simp add: reading_def)
  ultimately show ?thesis by metis
qed

text \<open>The next sector is fetched when the last byte of the buffer has been taken.\<close>

lemma fetch_sector:
  "s_selected s = x \<Longrightarrow> s_devices s x = Some t \<Longrightarrow> t_command t 0 = 0x08 \<Longrightarrow> i_exists (t_image t) \<Longrightarrow> t_sector_bytes t = 512 \<Longrightarrow>
     t_blocks t \<noteq> 0 \<Longrightarrow> adapter_read 512 s =
       Some (s\<lparr>s_devices := (s_devices s)(x := Some (t\<lparr>t_lba := t_lba t + 1, t_blocks := t_blocks t - 1\<rparr>)),
               s_buffer := put_bytes 0 (fst (image_read (t_lba t) (t_image t))) (s_buffer s)\<rparr>)"
  by (simp add: adapter_read_def device_def sbc_read_def read_one set_device_def)

lemma fetch_none:
  "s_selected s = x \<Longrightarrow> s_devices s x = Some t \<Longrightarrow> t_command t 0 = 0x08 \<Longrightarrow> i_exists (t_image t) \<Longrightarrow> t_blocks t = 0 \<Longrightarrow>
     adapter_read 512 s = Some (s\<lparr>s_devices := (s_devices s)(x := Some t)\<rparr>)"
  by (simp add: adapter_read_def device_def sbc_read_def set_device_def)

lemma sector_in_buffer:
  "covers im lba n \<Longrightarrow> k < n \<Longrightarrow> i < 512 \<Longrightarrow>
     put_bytes 0 (fst (image_read (of_nat (lba + k)) im)) b i = blocks_of im lba n ! (k * 512 + i)"
proof -
  assume c: "covers im lba n" and k: "k < n" and i: "i < 512"
  have "(k + 1) * 512 \<le> n * 512" using k by (intro mult_le_mono1) simp
  then have l: "k * 512 + i < length (blocks_of im lba n)" using i length_blocks [OF c] by simp
  have f: "fst (image_read (of_nat (lba + k)) im) = take 512 (drop (k * 512) (blocks_of im lba n))"
    "length (fst (image_read (of_nat (lba + k)) im)) = 512" using image_read_sector [OF c k] by blast+
  have "fst (image_read (of_nat (lba + k)) im) ! i = blocks_of im lba n ! (k * 512 + i)" unfolding f(1) using i l by simp
  then show ?thesis unfolding put_bytes_at f(2) using i by simp
qed

lemma read_next:
  "reading x im lba n k 511 s \<Longrightarrow> covers im lba n \<Longrightarrow> k + 1 < n \<Longrightarrow>
     \<exists>s'. take_byte s = Some (blocks_of im lba n ! (k * 512 + 511), s') \<and> reading x im lba n (k + 1) 0 s'"
proof -
  assume r: "reading x im lba n k 511 s" and c: "covers im lba n" and k: "k + 1 < n"
  have t: "transferring PHASE_DATAIN 0x08 x im (lba + k + 1) (n - k - 1) n k 511 s" using r by (simp add: reading_def)
  note i = transferring_index [OF t]
  have p: "s_phase s = PHASE_DATAIN" "s_phase_due s = None" "s_selected s = x" using t by (simp_all add: transferring_def)
  obtain t where d: "s_devices s x = Some t" "t_image t = im" "t_sector_bytes t = 512" "t_command t 0 = 0x08"
    "t_lba t = of_nat (lba + (k + 1))" "t_blocks t = of_nat (n - k - 1)" using t by (auto simp: transferring_def add.assoc)
  have "(k + 2) * 512 \<le> n * 512" using k by (intro mult_le_mono1) simp
  then have n: "\<not> n * 512 \<le> k * 512 + 511 + 1" by simp
  have e: "i_exists im" using c by (simp add: covers_def)
  have b: "(of_nat (n - k - 1) :: u32) \<noteq> 0" 
  proof -
    have "n * 512 < 2 ^ 31" using i by blast
    then have "n - k - 1 < 2 ^ 32" by simp
    then have "unat (of_nat (n - k - 1) :: u32) = n - k - 1" by (simp only: unat_of_nat_32)
    then show ?thesis using k by (metis diff_diff_left less_numeral_extra(3) unat_0 zero_less_diff)
  qed
  define s1 where "s1 = (took s)\<lparr>s_devices := (s_devices s)(x := Some (t\<lparr>t_lba := t_lba t + 1, t_blocks := t_blocks t - 1\<rparr>)),
    s_buffer := put_bytes 0 (fst (image_read (of_nat (lba + (k + 1))) im)) (s_buffer s)\<rparr>"
  have "unat (s_result_index s + 1) mod 512 = (511 + 1) mod 512" using i by blast
  then have z: "data_slot (took s) = 0" unfolding data_slot_def took_fields by simp
  have f: "adapter_read 512 (took s) = Some s1"
    using fetch_sector [of "took s" x t] d p e b unfolding s1_def took_fields by simp
  have "\<not> of_int (s_result_length s) \<le> s_result_index s + 1" using i n by blast
  then have nd: "\<not> transfer_done s1" unfolding transfer_done_def s1_def by simp
  have "take_byte s = Some (s_data s1, s1)"
    using nd z f p unfolding take_byte_def data_in [OF p(1)] by (simp add: fire_none s1_def)
  moreover have "s_data s1 = blocks_of im lba n ! (k * 512 + 511)" using r i by (simp add: reading_def s1_def)
  moreover have "s_result_index s1 = of_nat ((k + 1) * 512 + 0)" using i by (simp add: s1_def algebra_simps)
  moreover have "t_blocks t - 1 = of_nat (n - (k + 1) - 1)" using d(6) k by (simp add: of_nat_diff)
  moreover have "t_lba t + 1 = of_nat (lba + (k + 1) + 1)" using d(5) by simp
  ultimately have "transferring PHASE_DATAIN 0x08 x im (lba + (k + 1) + 1) (n - (k + 1) - 1) n (k + 1) 0 s1"
    using t d k p i unfolding transferring_def by (simp add: s1_def)
  moreover have "s_buffer s1 j = blocks_of im lba n ! ((k + 1) * 512 + j)" if "j < 512" for j
    using sector_in_buffer [OF c k that] by (simp add: s1_def)
  ultimately have "reading x im lba n (k + 1) 0 s1" by (simp add: reading_def)
  then show ?thesis using \<open>take_byte s = _\<close> \<open>s_data s1 = _\<close> by metis
qed

lemma read_last:
  "reading x im lba n k 511 s \<Longrightarrow> i_exists im \<Longrightarrow> k + 1 = n \<Longrightarrow>
     \<exists>s'. take_byte s = Some (blocks_of im lba n ! (k * 512 + 511), s') \<and> at_phase PHASE_STATUS x im s'"
proof -
  assume r: "reading x im lba n k 511 s" and e: "i_exists im" and k: "k + 1 = n"
  have t: "transferring PHASE_DATAIN 0x08 x im (lba + k + 1) (n - k - 1) n k 511 s" using r by (simp add: reading_def)
  note i = transferring_index [OF t]
  have p: "s_phase s = PHASE_DATAIN" "s_phase_due s = None" "s_selected s = x" using t by (simp_all add: transferring_def)
  obtain t where d: "s_devices s x = Some t" "t_image t = im" "t_sector_bytes t = 512" "t_command t 0 = 0x08" "t_blocks t = 0"
    using t k by (auto simp: transferring_def)
  have "unat (s_result_index s + 1) mod 512 = (511 + 1) mod 512" using i by blast
  then have z: "data_slot (took s) = 0" unfolding data_slot_def took_fields by simp
  define s1 where "s1 = (took s)\<lparr>s_devices := (s_devices s)(x := Some t)\<rparr>"
  have f: "adapter_read 512 (took s) = Some s1" using fetch_none [of "took s" x t] d p e unfolding s1_def took_fields by simp
  have "n * 512 \<le> k * 512 + 511 + 1" using k by auto
  then have "of_int (s_result_length s) \<le> s_result_index s + 1" using i by blast
  then have nd: "transfer_done s1" unfolding transfer_done_def s1_def by simp
  have v: "served x im (stop_transfer s1)" using p d by (simp add: served_def s1_def)
  obtain s2 where s2: "fire_phase (stop_transfer s1) = Some s2" "at_phase PHASE_STATUS x im s2" using status_entered [OF v] by auto
  have "data_slot s = 511" using i by blast
  then have "s_data s1 = blocks_of im lba n ! (k * 512 + 511)" using r by (simp add: reading_def s1_def)
  then show ?thesis using nd z f p s2 unfolding take_byte_def data_in [OF p(1)] by simp
qed

lemma read_rest:
  "covers im lba n \<Longrightarrow> reading x im lba n k j s \<Longrightarrow> k * 512 + j + m = n * 512 \<Longrightarrow>
     \<exists>s'. take_bytes m s = Some (drop (k * 512 + j) (blocks_of im lba n), s') \<and> at_phase PHASE_STATUS x im s'"
proof (induction m arbitrary: k j s)
  case 0
  then have "k < n" "j < 512" by (auto simp: reading_def transferring_def)
  moreover have "(k + 1) * 512 \<le> n * 512" using \<open>k < n\<close> by (intro mult_le_mono1) simp
  ultimately show ?case using 0(3) by simp
next
  case (Suc m)
  have kj: "k < n" "j < 512" using Suc(3) by (auto simp: reading_def transferring_def)
  have l: "k * 512 + j < length (blocks_of im lba n)" using Suc(4) length_blocks [OF Suc(2)] by simp
  note d = Cons_nth_drop_Suc [OF l, symmetric]
  have e: "i_exists im" using Suc(2) by (simp add: covers_def)
  consider (within) "j + 1 < 512" | (nxt) "j = 511" "k + 1 < n" | (last) "j = 511" "k + 1 = n" using kj by linarith
  then show ?case
  proof cases
    case within
    obtain s1 where s1: "take_byte s = Some (blocks_of im lba n ! (k * 512 + j), s1)" "reading x im lba n k (j + 1) s1"
      using read_within [OF Suc(3) within] by blast
    have "k * 512 + (j + 1) + m = n * 512" using Suc(4) by simp
    then obtain s2 where "take_bytes m s1 = Some (drop (k * 512 + (j + 1)) (blocks_of im lba n), s2)" "at_phase PHASE_STATUS x im s2"
      using Suc(1) [OF Suc(2) s1(2)] by blast
    then show ?thesis using s1(1) by (simp add: d)
  next
    case nxt
    obtain s1 where s1: "take_byte s = Some (blocks_of im lba n ! (k * 512 + j), s1)" "reading x im lba n (k + 1) 0 s1"
      using read_next [OF Suc(3) [unfolded nxt(1)] Suc(2) nxt(2)] nxt(1) by blast
    have "(k + 1) * 512 + 0 + m = n * 512" using Suc(4) nxt(1) by simp
    then obtain s2 where s2: "take_bytes m s1 = Some (drop ((k + 1) * 512 + 0) (blocks_of im lba n), s2)" "at_phase PHASE_STATUS x im s2"
      using Suc(1) [OF Suc(2) s1(2)] by blast
    have "Suc (k * 512 + j) = (k + 1) * 512 + 0" using nxt(1) by simp
    then show ?thesis using s1(1) s2 by (simp only: take_bytes.simps d) simp
  next
    case last
    obtain s1 where s1: "take_byte s = Some (blocks_of im lba n ! (k * 512 + j), s1)" "at_phase PHASE_STATUS x im s1"
      using read_last [OF Suc(3) [unfolded last(1)] e last(2)] last(1) by blast
    have m: "Suc (k * 512 + j) = n * 512" using last by auto
    then have "m = 0" using Suc(4) by simp
    then show ?thesis using s1 m length_blocks [OF Suc(2)] unfolding d by simp
  qed
qed

subsection \<open>Commands\<close>

text \<open>A six-byte read or write, and the disk's own decoding of it.\<close>

definition block_command :: "u8 \<Rightarrow> nat \<Rightarrow> nat \<Rightarrow> u8 list" where
  "block_command cmd lba n = [cmd, byte32 2 (of_nat lba), byte32 1 (of_nat lba), byte32 0 (of_nat lba), of_nat n, 0]"

lemma join_bytes:
  "push_bit 16 (ucast (byte32 2 w)) OR push_bit 8 (ucast (byte32 1 w)) OR ucast (byte32 0 w) = (w AND 0xffffff :: u32)"
proof (rule bit_word_eqI)
  fix i assume "i < LENGTH(32)"
  then have i: "i < 32" by simp
  have f: "(0xffffff :: u32) = mask 24" by (simp add: mask_eq_exp_minus_1)
  consider "i < 8" | "8 \<le> i" "i < 16" | "16 \<le> i" "i < 24" | "24 \<le> i" by linarith
  then show "bit (push_bit 16 (ucast (byte32 2 w)) OR push_bit 8 (ucast (byte32 1 w)) OR ucast (byte32 0 w) :: u32) i = bit (w AND 0xffffff) i"
    using i unfolding f byte32_def by cases (auto simp: bit_simps)
qed

lemma lba_decoded:
  "c 1 = byte32 2 w \<Longrightarrow> c 2 = byte32 1 w \<Longrightarrow> c 3 = byte32 0 w \<Longrightarrow> get_u24be c 1 AND 0x1fffff = w AND 0x1fffff"
proof -
  assume c: "c 1 = byte32 2 w" "c 2 = byte32 1 w" "c 3 = byte32 0 w"
  have "get_u24be c 1 = w AND 0xffffff" using join_bytes [of w] c by (simp add: get_u24be_def numeral_2_eq_2 numeral_3_eq_3)
  moreover have "(0xffffff AND 0x1fffff :: u32) = 0x1fffff" by simp
  ultimately show ?thesis by (simp add: and.assoc)
qed

lemma lba_in_range: "lba < 2 ^ 21 \<Longrightarrow> (of_nat lba AND 0x1fffff :: u32) = of_nat lba"
proof -
  assume l: "lba < 2 ^ 21"
  have f: "(0x1fffff :: u32) = mask 21" by (simp add: mask_eq_exp_minus_1)
  have "take_bit 21 (of_nat lba :: u32) = of_nat (take_bit 21 lba)" by (simp add: take_bit_of_nat)
  then show ?thesis unfolding f take_bit_eq_mask [symmetric] using l by (simp add: take_bit_nat_eq_self)
qed

lemma length_decoded: "0 < n \<Longrightarrow> n \<le> 256 \<Longrightarrow> length_u8 (of_nat n) = of_nat n"
proof -
  assume n: "0 < n" "n \<le> 256"
  show ?thesis
  proof (cases "n = 256")
    case False
    then have "unat (of_nat n :: u8) = n" using n by (simp add: unat_of_nat)
    then have "(of_nat n :: u8) \<noteq> 0" using n by auto
    moreover have "(ucast (of_nat n :: u8) :: u32) = of_nat n"
      using n False by (simp add: unsigned_of_nat take_bit_nat_eq_self)
    ultimately show ?thesis by (simp add: length_u8_def)
  qed (simp add: length_u8_def)
qed

lemma transfer_bytes: "0 < n \<Longrightarrow> n \<le> 256 \<Longrightarrow> t_blocks t = of_nat n \<Longrightarrow> t_sector_bytes t = 512 \<Longrightarrow> block_bytes t = int (n * 512)"
proof -
  assume n: "0 < n" "n \<le> 256" and t: "t_blocks t = of_nat n" "t_sector_bytes t = 512"
  have "of_nat n * of_int 512 = (of_int (int (n * 512)) :: u32)" by simp
  then have "block_bytes t = sint (of_int (int (n * 512)) :: u32)" unfolding block_bytes_def t by (rule arg_cong)
  also have "\<dots> = signed_take_bit 31 (int (n * 512))" unfolding signed_of_int by simp
  also have "\<dots> = int (n * 512)" using n by (intro signed_take_bit_int_eq_self) auto
  finally show ?thesis .
qed

text \<open>What the disk makes of a block command.\<close>

lemma block_command_decoded:
  assumes c: "\<And>i. i < 6 \<Longrightarrow> c i = block_command cmd lba n ! i" and n: "0 < n" "n \<le> 256" "lba < 2 ^ 21"
    and t: "t_sector_bytes t = 512"
  shows "cmd = 0x08 \<Longrightarrow> sbc_exec (set_command c 6 t) =
      (set_command c 6 t)\<lparr>t_lba := of_nat lba, t_blocks := of_nat n, t_phase := PHASE_DATAIN, t_status_code := 0, t_transfer_length := int (n * 512)\<rparr>"
    "cmd = 0x0a \<Longrightarrow> sbc_exec (set_command c 6 t) =
      (set_command c 6 t)\<lparr>t_lba := of_nat lba, t_blocks := of_nat n, t_phase := PHASE_DATAOUT, t_status_code := 0, t_transfer_length := int (n * 512)\<rparr>"
proof -
  let ?t = "set_command c 6 t"
  have b: "c 0 = cmd" "c 1 = byte32 2 (of_nat lba)" "c 2 = byte32 1 (of_nat lba)" "c 3 = byte32 0 (of_nat lba)" "c 4 = of_nat n"
    using c [of 0] c [of 1] c [of 2] c [of 3] c [of 4] by (simp_all add: block_command_def)
  have tc: "t_command ?t i = c i" if "i < 6" for i using that by (simp add: set_command_def)
  have l: "get_u24be (t_command ?t) 1 AND 0x1fffff = of_nat lba"
    using lba_decoded [of "t_command ?t" "of_nat lba"] lba_in_range [OF n(3)] tc b by simp
  have k: "length_u8 (t_command ?t 4) = of_nat n" using tc [of 4] b(5) length_decoded [OF n(1,2)] by simp
  have s: "t_sector_bytes ?t = 512" using t by (simp add: set_command_def)
  have v: "block_bytes (?t\<lparr>t_lba := of_nat lba, t_blocks := of_nat n\<rparr>) = int (n * 512)"
    by (rule transfer_bytes [OF n(1,2)]) (simp_all add: s)
  show "cmd = 0x08 \<Longrightarrow> sbc_exec ?t = ?t\<lparr>t_lba := of_nat lba, t_blocks := of_nat n, t_phase := PHASE_DATAIN, t_status_code := 0, t_transfer_length := int (n * 512)\<rparr>"
    using b(1) tc [of 0] l k v unfolding sbc_exec_def Let_def transfer_def answer_def by simp
  show "cmd = 0x0a \<Longrightarrow> sbc_exec ?t = ?t\<lparr>t_lba := of_nat lba, t_blocks := of_nat n, t_phase := PHASE_DATAOUT, t_status_code := 0, t_transfer_length := int (n * 512)\<rparr>"
    using b(1) tc [of 0] l k v unfolding sbc_exec_def Let_def transfer_def answer_def by simp
qed

subsection \<open>Commands on the bus\<close>

lemma give_bytes_append: "give_bytes (ds @ es) s = do { s1 \<leftarrow> give_bytes ds s; give_bytes es s1 }"
  by (induction ds arbitrary: s) (auto split: Option.bind_splits)

text \<open>The controller has taken the first \<open>i\<close> bytes of a command for the disk it selected.\<close>

definition commanding :: "nat \<Rightarrow> disk \<Rightarrow> u8 list \<Rightarrow> nat \<Rightarrow> fmscsi \<Rightarrow> bool" where
  "commanding x t cs i s \<longleftrightarrow> s_phase s = PHASE_COMMAND \<and> s_phase_due s = None \<and> s_command_index s = i \<and>
     (\<forall>m<i. s_command s m = cs ! m) \<and> s_selected s = x \<and> s_devices s x = Some t"

lemma command_step:
  "commanding x t cs i s \<Longrightarrow> i < 5 \<Longrightarrow> get_scsi_cmd_len (cs ! 0) = Some 6 \<Longrightarrow>
     \<exists>s'. give_byte (cs ! i) s = Some s' \<and> commanding x t cs (i + 1) s'"
proof -
  assume c: "commanding x t cs i s" and i: "i < 5" and g: "get_scsi_cmd_len (cs ! 0) = Some 6"
  have z: "((s_command s)(i := cs ! i)) 0 = cs ! 0" using c by (auto simp: commanding_def)
  show ?thesis
    using c i g z
    by (auto simp: give_byte_def fmscsi_data_w_def command_byte_def commanding_def fire_phase_def enter_phase_def Let_def less_Suc_eq)
qed

lemma command_bytes:
  "commanding x t cs 0 s \<Longrightarrow> i \<le> 5 \<Longrightarrow> length cs = 6 \<Longrightarrow> get_scsi_cmd_len (cs ! 0) = Some 6 \<Longrightarrow>
     \<exists>s'. give_bytes (take i cs) s = Some s' \<and> commanding x t cs i s'"
proof (induction i)
  case (Suc i)
  then obtain s1 where s1: "give_bytes (take i cs) s = Some s1" "commanding x t cs i s1" by auto
  obtain s2 where "give_byte (cs ! i) s1 = Some s2" "commanding x t cs (i + 1) s2"
    using command_step [OF s1(2)] Suc by auto
  moreover have "take (Suc i) cs = take i cs @ [cs ! i]" using Suc by (simp add: take_Suc_conv_app_nth)
  ultimately show ?case using s1 by (simp add: give_bytes_append)
qed simp

text \<open>The sixth byte hands the command to the disk; the phase it asks for is due.\<close>

lemma command_sent:
  assumes c: "commanding x t cs 0 s" and l: "length cs = 6" and g: "get_scsi_cmd_len (cs ! 0) = Some 6"
  shows "\<exists>c s1 t1. give_bytes cs s = fire_phase s1 \<and> (\<forall>i<6. c i = cs ! i) \<and> t1 = sbc_exec (set_command c 6 t) \<and>
     s_selected s1 = x \<and> s_devices s1 x = Some t1 \<and> s_result_length s1 = t_transfer_length t1 \<and> s_phase_due s1 = Some (t_phase t1)"
proof -
  obtain s5 where s5: "give_bytes (take 5 cs) s = Some s5" "commanding x t cs 5 s5"
    using command_bytes [OF c _ l g, of 5] by auto
  have all: "cs = take 5 cs @ [cs ! 5]" using l take_Suc_conv_app_nth [of 5 cs] by simp
  define c where "c = (s_command s5)(5 := cs ! 5)"
  have ci: "c i = cs ! i" if "i < 6" for i using that s5(2) unfolding commanding_def c_def by auto
  define t1 where "t1 = sbc_exec (set_command c 6 t)"
  define b where "b = set_input_line LINE_REQ False (s5\<lparr>s_data := cs ! 5\<rparr>)"
  have bf: "s_phase b = PHASE_COMMAND" "s_command_index b = 5" "s_command b = s_command s5" "s_selected b = x" "s_devices b x = Some t"
    using s5(2) by (simp_all add: b_def commanding_def)
  define b1 where "b1 = b\<lparr>s_command := c, s_command_index := 6\<rparr>"
  define s1 where "s1 = (set_device t1 b1)\<lparr>s_result_length := t_transfer_length t1, s_phase_due := Some (t_phase t1)\<rparr>"
  have d: "device b1 = Some t" using bf by (simp add: b1_def device_def)
  have sc: "send_command c 6 b1 = set_device t1 b1" using d by (simp add: send_command_def t1_def)
  have d1: "device (set_device t1 b1) = Some t1" by (simp add: set_device_def device_def)
  have "command_byte (cs ! 5) b = Some s1"
    using bf g ci [of 0] sc d1 unfolding command_byte_def Let_def s1_def c_def [symmetric]
    by (simp add: b1_def c_def get_length_def device_phase_def)
  then have "give_byte (cs ! 5) s5 = fire_phase s1"
    using bf unfolding give_byte_def fmscsi_data_w_def Let_def b_def by simp
  moreover have "give_bytes [] = Some" by (rule ext) simp
  ultimately have "give_bytes cs s = fire_phase s1"
    using s5(1) by (subst all) (simp add: give_bytes_append)
  moreover have "s_selected s1 = x" "s_devices s1 x = Some t1" "s_result_length s1 = t_transfer_length t1" "s_phase_due s1 = Some (t_phase t1)"
    using bf by (simp_all add: s1_def set_device_def b1_def)
  ultimately show ?thesis using ci t1_def by blast
qed

lemma group_0: "get_scsi_cmd_len 0x08 = Some 6" "get_scsi_cmd_len 0x0a = Some 6"
  by (simp_all add: get_scsi_cmd_len_def)

lemma read_begun:
  assumes c: "commanding x t (block_command 0x08 lba n) 0 s" and t: "t_image t = im" "t_sector_bytes t = 512" "covers im lba n"
    and n: "0 < n" "n \<le> 256" "lba < 2 ^ 21"
  shows "\<exists>s'. give_bytes (block_command 0x08 lba n) s = Some s' \<and> reading x im lba n 0 0 s'"
proof -
  have l: "length (block_command 0x08 lba n) = 6" by (simp add: block_command_def)
  have g: "get_scsi_cmd_len (block_command 0x08 lba n ! 0) = Some 6" by (simp add: block_command_def group_0)
  obtain c s1 t1 where 1: "give_bytes (block_command 0x08 lba n) s = fire_phase s1" "\<And>i. i < 6 \<Longrightarrow> c i = block_command 0x08 lba n ! i"
    "t1 = sbc_exec (set_command c 6 t)" "s_selected s1 = x" "s_devices s1 x = Some t1" "s_result_length s1 = t_transfer_length t1"
    "s_phase_due s1 = Some (t_phase t1)" using command_sent [OF c l g] by blast
  have t1: "t1 = (set_command c 6 t)\<lparr>t_lba := of_nat lba, t_blocks := of_nat n, t_phase := PHASE_DATAIN, t_status_code := 0, t_transfer_length := int (n * 512)\<rparr>"
    unfolding 1(3) by (rule block_command_decoded(1) [OF 1(2) n t(2) refl])
  have c0: "c 0 = 0x08" using 1(2) [of 0] by (simp add: block_command_def)
  have tf: "t_command t1 0 = 0x08" "t_image t1 = im" "t_sector_bytes t1 = 512" "t_lba t1 = of_nat (lba + 0)" "t_blocks t1 = of_nat n"
    "t_phase t1 = PHASE_DATAIN" "t_transfer_length t1 = int (n * 512)" using t c0 unfolding t1 by (simp_all add: set_command_def)
  define e where "e = (set_input_line LINE_REQ True (set_lines False False True (s1\<lparr>s_phase_due := None, s_phase := PHASE_DATAIN\<rparr>)))
    \<lparr>s_transfer_timer := True\<rparr>"
  have ef: "s_phase e = PHASE_DATAIN" "s_phase_due e = None" "s_selected e = x" "s_devices e x = Some t1" "s_result_length e = int (n * 512)"
    using 1 tf by (simp_all add: e_def)
  have ex: "i_exists (t_image t1)" using t tf by (simp add: covers_def)
  have "unat (of_nat n :: u32) = n" using n by (simp add: unat_of_nat_32)
  then have nz: "t_blocks t1 \<noteq> 0" unfolding tf(5) using n(1) by auto
  define t2 where "t2 = t1\<lparr>t_lba := t_lba t1 + 1, t_blocks := t_blocks t1 - 1\<rparr>"
  define s2 where "s2 = e\<lparr>s_devices := (s_devices e)(x := Some t2),
    s_buffer := put_bytes 0 (fst (image_read (of_nat (lba + 0)) im)) (s_buffer e), s_result_index := 0\<rparr>"
  have "adapter_read 512 e = Some (e\<lparr>s_devices := (s_devices e)(x := Some t2),
      s_buffer := put_bytes 0 (fst (image_read (t_lba t1) (t_image t1))) (s_buffer e)\<rparr>)"
    unfolding t2_def by (rule fetch_sector [OF ef(3,4) tf(1) ex tf(3) nz])
  moreover have "fire_phase s1 = do { s \<leftarrow> adapter_read 512 e; Some (s\<lparr>s_result_index := 0\<rparr>) }"
    using 1(7) tf(6) by (simp add: fire_phase_def enter_phase_def e_def Let_def)
  ultimately have "fire_phase s1 = Some s2" using tf(2,4) by (simp add: s2_def)
  moreover have "t_blocks t2 = of_nat (n - 0 - 1)" "t_lba t2 = of_nat (lba + 0 + 1)" using n tf by (simp_all add: t2_def of_nat_diff)
  then have "transferring PHASE_DATAIN 0x08 x im (lba + 0 + 1) (n - 0 - 1) n 0 0 s2"
    using ef tf n unfolding transferring_def by (simp add: s2_def t2_def)
  moreover have "s_buffer s2 i = blocks_of im lba n ! (0 * 512 + i)" if "i < 512" for i
    using sector_in_buffer [OF t(3) n(1) that] by (simp add: s2_def)
  ultimately show ?thesis using 1(1) by (auto simp: reading_def)
qed

text \<open>Reading through the controller returns the blocks of the image, then a good status and the closing message.\<close>

lemma read_blocks:
  assumes c: "commanding x t (block_command 0x08 lba n) 0 s" and t: "t_image t = im" "t_sector_bytes t = 512" "covers im lba n"
    and n: "0 < n" "n \<le> 256" "lba < 2 ^ 21"
  shows "\<exists>s1 s2 s3. give_bytes (block_command 0x08 lba n) s = Some s1 \<and> take_bytes (n * 512) s1 = Some (blocks_of im lba n, s2) \<and>
     take_bytes 2 s2 = Some ([0, 0], s3) \<and> at_phase PHASE_BUS_FREE x im s3 \<and> s_command_index s3 = 0"
proof -
  obtain s1 where s1: "give_bytes (block_command 0x08 lba n) s = Some s1" "reading x im lba n 0 0 s1"
    using read_begun [OF c t n] by blast
  obtain s2 where s2: "take_bytes (n * 512) s1 = Some (blocks_of im lba n, s2)" "at_phase PHASE_STATUS x im s2"
    using read_rest [OF t(3) s1(2), of "n * 512"] by auto
  have "i_exists im" using t(3) by (simp add: covers_def)
  then obtain s3 where "take_bytes 2 s2 = Some ([0, 0], s3)" "at_phase PHASE_BUS_FREE x im s3" "s_command_index s3 = 0"
    using closing_bytes [OF s2(2)] by blast
  then show ?thesis using s1(1) s2(1) by blast
qed

subsection \<open>Writing\<close>

definition written :: "nat \<Rightarrow> u8 list \<Rightarrow> image \<Rightarrow> image" where
  "written lba bs im = im\<lparr>i_file := file_write (unat (i_offset im) + lba * 512) bs (i_file im)\<rparr>"

lemma length_file_write: "p + length bs \<le> length f \<Longrightarrow> length (file_write p bs f) = length f"
  by (simp add: file_write_def)

lemma file_write_inside: "p + length bs \<le> length f \<Longrightarrow> file_write p bs f = take p f @ bs @ drop (p + length bs) f"
  by (simp add: file_write_def)

lemma file_write_append:
  "p + length a + length b \<le> length f \<Longrightarrow> file_write (p + length a) b (file_write p a f) = file_write p (a @ b) f"
proof -
  assume l: "p + length a + length b \<le> length f"
  have e: "length f \<le> p \<Longrightarrow> length a = 0" using l by linarith
  have g: "file_write p a f = take p f @ a @ drop (p + length a) f" using l by (intro file_write_inside) simp
  have "length (file_write p a f) = length f" using l by (intro length_file_write) simp
  then have "file_write (p + length a) b (file_write p a f) =
      take (p + length a) (file_write p a f) @ b @ drop (p + length a + length b) (file_write p a f)"
    using l by (intro file_write_inside) simp
  also have "\<dots> = take p f @ (a @ b) @ drop (p + length (a @ b)) f"
    using l e unfolding g by (simp add: min_def add.commute add.left_commute)
  also have "\<dots> = file_write p (a @ b) f" using l by (intro file_write_inside [symmetric]) simp
  finally show ?thesis .
qed

lemma file_read_written: "p + length bs \<le> length f \<Longrightarrow> file_read p (length bs) (file_write p bs f) = bs"
  by (simp add: file_read_def file_write_inside)

lemma covers_written:
  "covers im lba n \<Longrightarrow> length bs \<le> n * 512 \<Longrightarrow> covers (written lba bs im) lba n"
  using length_file_write [of "unat (i_offset im) + lba * 512" bs "i_file im"]
  by (simp add: covers_def written_def algebra_simps)

lemma blocks_written: "covers im lba n \<Longrightarrow> length bs = n * 512 \<Longrightarrow> blocks_of (written lba bs im) lba n = bs"
  using file_read_written [of "unat (i_offset im) + lba * 512" bs "i_file im"]
  by (simp add: covers_def written_def blocks_of_def algebra_simps)

lemma written_next:
  "covers im lba n \<Longrightarrow> k < n \<Longrightarrow> length a = k * 512 \<Longrightarrow> length b = 512 \<Longrightarrow>
     image_write (of_nat (lba + k)) b (written lba a im) = written lba (a @ b) im"
proof -
  assume c: "covers im lba n" and k: "k < n" and a: "length a = k * 512" and b: "length b = 512"
  have k1: "(k + 1) * 512 \<le> n * 512" using k by (intro mult_le_mono1) simp
  have "covers (written lba a im) lba n" using covers_written [OF c] a k1 by simp
  then have p: "sector_position (of_nat (lba + k)) (written lba a im) = unat (i_offset im) + lba * 512 + length a"
    using position_exact [of "written lba a im" lba n k] k a by (simp add: written_def algebra_simps)
  have "unat (i_offset im) + lba * 512 + length a + length b \<le> length (i_file im)"
    using c k1 a b by (simp add: covers_def algebra_simps)
  note f = file_write_append [OF this]
  show ?thesis unfolding image_write_def p by (simp add: written_def f)
qed

definition writing :: "nat \<Rightarrow> image \<Rightarrow> nat \<Rightarrow> u8 list \<Rightarrow> nat \<Rightarrow> nat \<Rightarrow> fmscsi \<Rightarrow> bool" where
  "writing x im lba ds k j s \<longleftrightarrow>
     transferring PHASE_DATAOUT 0x0a x (written lba (take (k * 512) ds) im) (lba + k) (length ds div 512 - k) (length ds div 512) k j s \<and>
     (\<forall>i<j. s_buffer s i = ds ! (k * 512 + i))"

text \<open>The state right after a byte has been stored.\<close>

definition gave :: "u8 \<Rightarrow> fmscsi \<Rightarrow> fmscsi" where
  "gave d s = (set_input_line LINE_REQ False (s\<lparr>s_data := d\<rparr>))
     \<lparr>s_buffer := (s_buffer s)(data_slot s := d), s_result_index := s_result_index s + 1\<rparr>"

lemma gave_fields [simp]:
  "s_phase (gave d s) = s_phase s" "s_buffer (gave d s) = (s_buffer s)(data_slot s := d)" "s_result_length (gave d s) = s_result_length s"
  "s_devices (gave d s) = s_devices s" "s_selected (gave d s) = s_selected s" "s_phase_due (gave d s) = s_phase_due s"
  "s_result_index (gave d s) = s_result_index s + 1"
  by (simp_all add: gave_def)

lemma data_out:
  "s_phase s = PHASE_DATAOUT \<Longrightarrow> fmscsi_data_w d s =
     do { s2 \<leftarrow> (if data_slot (gave d s) = 0 then adapter_write 512 (gave d s) else Some (gave d s));
          Some (if transfer_done s2 then stop_transfer s2 else s2) }"
  by (simp add: fmscsi_data_w_def gave_def data_slot_def)

lemma store_sector:
  "s_selected s = x \<Longrightarrow> s_devices s x = Some t \<Longrightarrow> t_command t 0 = 0x0a \<Longrightarrow> i_exists (t_image t) \<Longrightarrow> t_sector_bytes t = 512 \<Longrightarrow>
     i_sectorbytes (t_image t) = 512 \<Longrightarrow> t_blocks t \<noteq> 0 \<Longrightarrow> adapter_write 512 s =
       Some (s\<lparr>s_devices := (s_devices s)(x := Some (t\<lparr>t_image := image_write (t_lba t) (map (s_buffer s) [0..<512]) (t_image t),
         t_lba := t_lba t + 1, t_blocks := t_blocks t - 1\<rparr>))\<rparr>)"
  by (simp add: adapter_write_def device_def sbc_write_def write_one set_device_def)

lemma write_within:
  "writing x im lba ds k j s \<Longrightarrow> j + 1 < 512 \<Longrightarrow>
     \<exists>s'. give_byte (ds ! (k * 512 + j)) s = Some s' \<and> writing x im lba ds k (j + 1) s'"
proof -
  let ?n = "length ds div 512" and ?d = "ds ! (k * 512 + j)"
  assume w: "writing x im lba ds k j s" and j: "j + 1 < 512"
  have t: "transferring PHASE_DATAOUT 0x0a x (written lba (take (k * 512) ds) im) (lba + k) (?n - k) ?n k j s"
    using w by (simp add: writing_def)
  note i = transferring_index [OF t]
  have p: "s_phase s = PHASE_DATAOUT" "s_phase_due s = None" "k < ?n" using t by (simp_all add: transferring_def)
  have "(k + 1) * 512 \<le> ?n * 512" using p(3) by (intro mult_le_mono1) simp
  then have n: "\<not> ?n * 512 \<le> k * 512 + j + 1" using j by simp
  have d: "\<not> transfer_done (gave ?d s)" using i n unfolding transfer_done_def gave_fields by blast
  have "unat (s_result_index s + 1) mod 512 = (j + 1) mod 512" using i by blast
  then have z: "data_slot (gave ?d s) \<noteq> 0" using j unfolding data_slot_def gave_fields by simp
  have "give_byte ?d s = Some (gave ?d s)" using d z p unfolding give_byte_def data_out [OF p(1)] by (simp add: fire_none)
  moreover have x: "s_result_index (gave ?d s) = of_nat (k * 512 + (j + 1))" using i by simp
  have "transferring PHASE_DATAOUT 0x0a x (written lba (take (k * 512) ds) im) (lba + k) (?n - k) ?n k (j + 1) (gave ?d s)"
    using t j x unfolding transferring_def gave_fields by blast
  moreover have "data_slot s = j" using i by blast
  then have "s_buffer (gave ?d s) m = ds ! (k * 512 + m)" if "m < j + 1" for m
    using w that by (auto simp: writing_def)
  ultimately show ?thesis by (auto simp: writing_def)
qed

text \<open>The last byte of a sector: the sector goes to the disk.\<close>

lemma sector_stored:
  assumes w: "writing x im lba ds k 511 s" and c: "covers im lba (length ds div 512)" and l: "length ds mod 512 = 0"
  shows "\<exists>t. s_devices s x = Some t \<and> t_sector_bytes t = 512 \<and> t_command t 0 = 0x0a \<and>
     t_lba t + 1 = of_nat (lba + (k + 1)) \<and> t_blocks t - 1 = of_nat (length ds div 512 - (k + 1)) \<and>
     adapter_write 512 (gave (ds ! (k * 512 + 511)) s) = Some ((gave (ds ! (k * 512 + 511)) s)\<lparr>s_devices := (s_devices s)(x :=
       Some (t\<lparr>t_image := written lba (take ((k + 1) * 512) ds) im, t_lba := t_lba t + 1, t_blocks := t_blocks t - 1\<rparr>))\<rparr>)"
proof -
  let ?n = "length ds div 512" and ?d = "ds ! (k * 512 + 511)"
  have t: "transferring PHASE_DATAOUT 0x0a x (written lba (take (k * 512) ds) im) (lba + k) (?n - k) ?n k 511 s"
    using w by (simp add: writing_def)
  have k: "k < ?n" "s_selected s = x" using t by (simp_all add: transferring_def)
  have k1: "(k + 1) * 512 \<le> ?n * 512" using k(1) by (intro mult_le_mono1) simp
  have len: "length ds = ?n * 512" using l by (metis add.right_neutral div_mult_mod_eq)
  obtain t where d: "s_devices s x = Some t" "t_image t = written lba (take (k * 512) ds) im" "t_sector_bytes t = 512" "t_command t 0 = 0x0a"
    "t_lba t = of_nat (lba + k)" "t_blocks t = of_nat (?n - k)" using t by (auto simp: transferring_def)
  have slot: "data_slot s = 511" using transferring_index [OF t] by blast
  have e: "i_exists (t_image t)" "i_sectorbytes (t_image t) = 512" using c unfolding d(2) by (simp_all add: written_def covers_def)
  have "?n * 512 < 2 ^ 31" using transferring_index [OF t] by blast
  then have "?n - k < 2 ^ 32" by simp
  then have nz: "t_blocks t \<noteq> 0" using unat_of_nat_32 [of "?n - k"] k(1) d(6) by fastforce
  have "s_buffer (gave ?d s) i = ds ! (k * 512 + i)" if "i < 512" for i
    using w slot that by (cases "i = 511") (auto simp: writing_def)
  then have "map (s_buffer (gave ?d s)) [0..<512] = take 512 (drop (k * 512) ds)"
    using k1 len by (intro nth_equalityI) simp_all
  moreover have "image_write (of_nat (lba + k)) (take 512 (drop (k * 512) ds)) (written lba (take (k * 512) ds) im) =
      written lba (take (k * 512) ds @ take 512 (drop (k * 512) ds)) im"
    using k1 len by (intro written_next [OF c k(1)]) simp_all
  moreover have "take (k * 512) ds @ take 512 (drop (k * 512) ds) = take ((k + 1) * 512) ds"
    using take_add [of "k * 512" 512 ds] by (simp add: algebra_simps)
  ultimately have im: "image_write (t_lba t) (map (s_buffer (gave ?d s)) [0..<512]) (t_image t) = written lba (take ((k + 1) * 512) ds) im"
    unfolding d(2,5) by metis
  note a = store_sector [of "gave ?d s" x t, unfolded im, unfolded gave_fields, OF k(2) d(1) d(4) e(1) d(3) e(2) nz]
  have "t_lba t + 1 = of_nat (lba + (k + 1))" using d(5) by simp
  moreover have "t_blocks t - 1 = of_nat (?n - (k + 1))" using d(6) k(1) by (simp add: of_nat_diff)
  ultimately show ?thesis using a d(1,3,4) by blast
qed

lemma write_next:
  assumes w: "writing x im lba ds k 511 s" and c: "covers im lba (length ds div 512)" and l: "length ds mod 512 = 0"
    and k: "k + 1 < length ds div 512"
  shows "\<exists>s'. give_byte (ds ! (k * 512 + 511)) s = Some s' \<and> writing x im lba ds (k + 1) 0 s'"
proof -
  let ?n = "length ds div 512" and ?d = "ds ! (k * 512 + 511)"
  have t: "transferring PHASE_DATAOUT 0x0a x (written lba (take (k * 512) ds) im) (lba + k) (?n - k) ?n k 511 s"
    using w by (simp add: writing_def)
  note i = transferring_index [OF t]
  have p: "s_phase s = PHASE_DATAOUT" "s_phase_due s = None" using t by (simp_all add: transferring_def)
  obtain t1 where d: "s_devices s x = Some t1" "t_sector_bytes t1 = 512" "t_command t1 0 = 0x0a"
    "t_lba t1 + 1 = of_nat (lba + (k + 1))" "t_blocks t1 - 1 = of_nat (?n - (k + 1))"
    and a: "adapter_write 512 (gave ?d s) = Some ((gave ?d s)\<lparr>s_devices := (s_devices s)(x :=
       Some (t1\<lparr>t_image := written lba (take ((k + 1) * 512) ds) im, t_lba := t_lba t1 + 1, t_blocks := t_blocks t1 - 1\<rparr>))\<rparr>)"
    using sector_stored [OF w c l] by blast
  define s1 where "s1 = (gave ?d s)\<lparr>s_devices := (s_devices s)(x :=
       Some (t1\<lparr>t_image := written lba (take ((k + 1) * 512) ds) im, t_lba := t_lba t1 + 1, t_blocks := t_blocks t1 - 1\<rparr>))\<rparr>"
  have "(k + 2) * 512 \<le> ?n * 512" using k by (intro mult_le_mono1) simp
  then have "\<not> ?n * 512 \<le> k * 512 + 511 + 1" by simp
  then have "\<not> of_int (s_result_length s) \<le> s_result_index s + 1" using i by blast
  then have nd: "\<not> transfer_done s1" unfolding transfer_done_def s1_def by simp
  have "unat (s_result_index s + 1) mod 512 = (511 + 1) mod 512" using i by blast
  then have z: "data_slot (gave ?d s) = 0" unfolding data_slot_def gave_fields by simp
  have due: "s_phase_due s1 = None" using p by (simp add: s1_def)
  have "give_byte ?d s = Some s1"
    using nd z p a [folded s1_def] unfolding give_byte_def data_out [OF p(1)] by (simp add: fire_none [OF due])
  moreover have "s_result_index s1 = of_nat ((k + 1) * 512 + 0)" using i by (simp add: s1_def algebra_simps)
  then have "transferring PHASE_DATAOUT 0x0a x (written lba (take ((k + 1) * 512) ds) im) (lba + (k + 1)) (?n - (k + 1)) ?n (k + 1) 0 s1"
    using t d k i unfolding transferring_def by (simp add: s1_def)
  then have "writing x im lba ds (k + 1) 0 s1" unfolding writing_def by blast
  ultimately show ?thesis by blast
qed

lemma write_last:
  assumes w: "writing x im lba ds k 511 s" and c: "covers im lba (length ds div 512)" and l: "length ds mod 512 = 0"
    and k: "k + 1 = length ds div 512"
  shows "\<exists>s'. give_byte (ds ! (k * 512 + 511)) s = Some s' \<and> at_phase PHASE_STATUS x (written lba ds im) s'"
proof -
  let ?n = "length ds div 512" and ?d = "ds ! (k * 512 + 511)"
  have t: "transferring PHASE_DATAOUT 0x0a x (written lba (take (k * 512) ds) im) (lba + k) (?n - k) ?n k 511 s"
    using w by (simp add: writing_def)
  note i = transferring_index [OF t]
  have p: "s_phase s = PHASE_DATAOUT" "s_selected s = x" using t by (simp_all add: transferring_def)
  obtain t1 where d: "t_sector_bytes t1 = 512"
    and a: "adapter_write 512 (gave ?d s) = Some ((gave ?d s)\<lparr>s_devices := (s_devices s)(x :=
       Some (t1\<lparr>t_image := written lba (take ((k + 1) * 512) ds) im, t_lba := t_lba t1 + 1, t_blocks := t_blocks t1 - 1\<rparr>))\<rparr>)"
    using sector_stored [OF w c l] by blast
  define s1 where "s1 = (gave ?d s)\<lparr>s_devices := (s_devices s)(x :=
       Some (t1\<lparr>t_image := written lba (take ((k + 1) * 512) ds) im, t_lba := t_lba t1 + 1, t_blocks := t_blocks t1 - 1\<rparr>))\<rparr>"
  have "?n * 512 = (k + 1) * 512" using k by (rule arg_cong [OF sym])
  then have "?n * 512 \<le> k * 512 + 511 + 1" by simp
  then have "of_int (s_result_length s) \<le> s_result_index s + 1" using i by blast
  then have nd: "transfer_done s1" unfolding transfer_done_def s1_def by simp
  have "unat (s_result_index s + 1) mod 512 = (511 + 1) mod 512" using i by blast
  then have z: "data_slot (gave ?d s) = 0" unfolding data_slot_def gave_fields by simp
  have "length ds = (k + 1) * 512" using l unfolding k by (metis add.right_neutral div_mult_mod_eq)
  then have "served x (written lba ds im) (stop_transfer s1)" using p d by (simp add: served_def s1_def)
  then obtain s2 where "fire_phase (stop_transfer s1) = Some s2" "at_phase PHASE_STATUS x (written lba ds im) s2"
    using status_entered [OF _ stop_fields(5)] by blast
  then show ?thesis using nd z p a [folded s1_def] unfolding give_byte_def data_out [OF p(1)] by simp
qed

lemma write_rest:
  "covers im lba (length ds div 512) \<Longrightarrow> length ds mod 512 = 0 \<Longrightarrow> writing x im lba ds k j s \<Longrightarrow> k * 512 + j + m = length ds \<Longrightarrow>
     \<exists>s'. give_bytes (drop (k * 512 + j) ds) s = Some s' \<and> at_phase PHASE_STATUS x (written lba ds im) s'"
proof (induction m arbitrary: k j s)
  case 0
  then have "k < length ds div 512" "j < 512" by (auto simp: writing_def transferring_def)
  moreover have "(k + 1) * 512 \<le> length ds div 512 * 512" using \<open>k < _\<close> by (intro mult_le_mono1) simp
  moreover have "length ds div 512 * 512 \<le> length ds" by (rule div_times_less_eq_dividend)
  ultimately show ?case using 0(4) by simp
next
  case (Suc m)
  have kj: "k < length ds div 512" "j < 512" using Suc(4) by (auto simp: writing_def transferring_def)
  have l: "k * 512 + j < length ds" using Suc(5) by simp
  note d = Cons_nth_drop_Suc [OF l, symmetric]
  consider (within) "j + 1 < 512" | (nxt) "j = 511" "k + 1 < length ds div 512" | (last) "j = 511" "k + 1 = length ds div 512"
    using kj by linarith
  then show ?case
  proof cases
    case within
    obtain s1 where s1: "give_byte (ds ! (k * 512 + j)) s = Some s1" "writing x im lba ds k (j + 1) s1"
      using write_within [OF Suc(4) within] by blast
    have "k * 512 + (j + 1) + m = length ds" using Suc(5) by simp
    then obtain s2 where "give_bytes (drop (k * 512 + (j + 1)) ds) s1 = Some s2" "at_phase PHASE_STATUS x (written lba ds im) s2"
      using Suc(1) [OF Suc(2,3) s1(2)] by blast
    then show ?thesis using s1(1) by (simp add: d)
  next
    case nxt
    obtain s1 where s1: "give_byte (ds ! (k * 512 + j)) s = Some s1" "writing x im lba ds (k + 1) 0 s1"
      using write_next [OF Suc(4) [unfolded nxt(1)] Suc(2,3) nxt(2)] nxt(1) by blast
    have "(k + 1) * 512 + 0 + m = length ds" using Suc(5) nxt(1) by simp
    then obtain s2 where s2: "give_bytes (drop ((k + 1) * 512 + 0) ds) s1 = Some s2" "at_phase PHASE_STATUS x (written lba ds im) s2"
      using Suc(1) [OF Suc(2,3) s1(2)] by blast
    have "Suc (k * 512 + j) = (k + 1) * 512 + 0" using nxt(1) by simp
    then show ?thesis using s1(1) s2 by (simp only: d give_bytes.simps) simp
  next
    case last
    obtain s1 where s1: "give_byte (ds ! (k * 512 + j)) s = Some s1" "at_phase PHASE_STATUS x (written lba ds im) s1"
      using write_last [OF Suc(4) [unfolded last(1)] Suc(2,3) last(2)] last(1) by blast
    have "length ds = (k + 1) * 512" using Suc(3) unfolding last(2) by (metis add.right_neutral div_mult_mod_eq)
    then show ?thesis using s1 last(1) unfolding d by simp
  qed
qed

lemma write_begun:
  assumes c: "commanding x t (block_command 0x0a lba n) 0 s" and t: "t_image t = im" "t_sector_bytes t = 512"
    and n: "0 < n" "n \<le> 256" "lba < 2 ^ 21" and l: "length ds = n * 512" and v: "covers im lba n"
  shows "\<exists>s'. give_bytes (block_command 0x0a lba n) s = Some s' \<and> writing x im lba ds 0 0 s'"
proof -
  have lc: "length (block_command 0x0a lba n) = 6" by (simp add: block_command_def)
  have g: "get_scsi_cmd_len (block_command 0x0a lba n ! 0) = Some 6" by (simp add: block_command_def group_0)
  obtain c s1 t1 where 1: "give_bytes (block_command 0x0a lba n) s = fire_phase s1" "\<And>i. i < 6 \<Longrightarrow> c i = block_command 0x0a lba n ! i"
    "t1 = sbc_exec (set_command c 6 t)" "s_selected s1 = x" "s_devices s1 x = Some t1" "s_result_length s1 = t_transfer_length t1"
    "s_phase_due s1 = Some (t_phase t1)" using command_sent [OF c lc g] by blast
  have t1: "t1 = (set_command c 6 t)\<lparr>t_lba := of_nat lba, t_blocks := of_nat n, t_phase := PHASE_DATAOUT, t_status_code := 0, t_transfer_length := int (n * 512)\<rparr>"
    unfolding 1(3) by (rule block_command_decoded(2) [OF 1(2) n t(2) refl])
  have c0: "c 0 = 0x0a" using 1(2) [of 0] by (simp add: block_command_def)
  have tf: "t_command t1 0 = 0x0a" "t_image t1 = im" "t_sector_bytes t1 = 512" "t_lba t1 = of_nat (lba + 0)" "t_blocks t1 = of_nat n"
    "t_phase t1 = PHASE_DATAOUT" "t_transfer_length t1 = int (n * 512)" using t c0 unfolding t1 by (simp_all add: set_command_def)
  define s2 where "s2 = (set_input_line LINE_REQ True (set_lines False False False (s1\<lparr>s_phase_due := None, s_phase := PHASE_DATAOUT\<rparr>)))
    \<lparr>s_transfer_timer := True, s_result_index := 0\<rparr>"
  have "fire_phase s1 = Some s2" using 1(7) tf(6) by (simp add: fire_phase_def enter_phase_def s2_def)
  moreover have "transferring PHASE_DATAOUT 0x0a x im (lba + 0) (n - 0) n 0 0 s2"
    using 1 tf n unfolding transferring_def by (simp add: s2_def)
  moreover have "file_write p [] f = f" if "p \<le> length f" for p f using that by (simp add: file_write_def)
  then have "written lba [] im = im" using v by (simp add: written_def covers_def)
  ultimately show ?thesis using 1(1) l by (auto simp: writing_def)
qed

lemma write_blocks:
  assumes c: "commanding x t (block_command 0x0a lba n) 0 s" and t: "t_image t = im" "t_sector_bytes t = 512" "covers im lba n"
    and n: "0 < n" "n \<le> 256" "lba < 2 ^ 21" and l: "length ds = n * 512"
  shows "\<exists>s1 s2 s3. give_bytes (block_command 0x0a lba n) s = Some s1 \<and> give_bytes ds s1 = Some s2 \<and>
     take_bytes 2 s2 = Some ([0, 0], s3) \<and> at_phase PHASE_BUS_FREE x (written lba ds im) s3 \<and> s_command_index s3 = 0"
proof -
  obtain s1 where s1: "give_bytes (block_command 0x0a lba n) s = Some s1" "writing x im lba ds 0 0 s1"
    using write_begun [OF c t(1,2) n l t(3)] by blast
  have k: "length ds div 512 = n" "length ds mod 512 = 0" using l by simp_all
  have "covers im lba (length ds div 512)" using t(3) k by simp
  then obtain s2 where s2: "give_bytes (drop (0 * 512 + 0) ds) s1 = Some s2" "at_phase PHASE_STATUS x (written lba ds im) s2"
    using write_rest [OF _ k(2) s1(2), of "length ds"] by auto
  have "i_exists (written lba ds im)" using t(3) by (simp add: covers_def written_def)
  then obtain s3 where "take_bytes 2 s2 = Some ([0, 0], s3)" "at_phase PHASE_BUS_FREE x (written lba ds im) s3" "s_command_index s3 = 0"
    using closing_bytes [OF s2(2)] by blast
  then show ?thesis using s1(1) s2(1) by auto
qed

subsection \<open>Whole transactions\<close>

text \<open>
  Selection: the select line goes low, the target's bit goes on the data bus, the select line goes high, and the
  phase timer fires. The other flags (interrupts, DMA, word access) are the program's choice.
\<close>

definition select_disk :: "u8 \<Rightarrow> nat \<Rightarrow> fmscsi \<Rightarrow> fmscsi option" where
  "select_disk flags x s =
     do { s1 \<leftarrow> fmscsi_w 1 flags s; s2 \<leftarrow> fmscsi_w 0 (2 ^ x) s1; s3 \<leftarrow> fmscsi_w 1 (flags OR LINE_SEL) s2; fire_phase s3 }"

definition write_session :: "u8 \<Rightarrow> nat \<Rightarrow> nat \<Rightarrow> u8 list \<Rightarrow> fmscsi \<Rightarrow> (u8 list \<times> fmscsi) option" where
  "write_session flags x lba ds s =
     do { s1 \<leftarrow> select_disk flags x s; s2 \<leftarrow> give_bytes (block_command 0x0a lba (length ds div 512)) s1;
          s3 \<leftarrow> give_bytes ds s2; take_bytes 2 s3 }"

definition read_session :: "u8 \<Rightarrow> nat \<Rightarrow> nat \<Rightarrow> nat \<Rightarrow> fmscsi \<Rightarrow> (u8 list \<times> u8 list \<times> fmscsi) option" where
  "read_session flags x lba n s =
     do { s1 \<leftarrow> select_disk flags x s; s2 \<leftarrow> give_bytes (block_command 0x08 lba n) s1;
          (ds, s3) \<leftarrow> take_bytes (n * 512) s2; (r, s4) \<leftarrow> take_bytes 2 s3; Some (ds, r, s4) }"

abbreviation free_flags :: "u8 \<Rightarrow> bool" where
  "free_flags flags \<equiv> \<not> tst flags LINE_RST \<and> \<not> tst flags LINE_ATN \<and> \<not> tst flags LINE_SEL"

lemma line_bits:
  "((v :: u8) AND 1 = 0) = (\<not> bit v 0)" "(v AND 4 = 0) = (\<not> bit v 2)" "(v AND 2 = 0) = (\<not> bit v 1)"
  "(v AND 16 = 0) = (\<not> bit v 4)" "(v AND 64 = 0) = (\<not> bit v 6)" "(v AND 128 = 0) = (\<not> bit v 7)"
  using tst_exp [of v 0] tst_exp [of v 1] tst_exp [of v 2] tst_exp [of v 4] tst_exp [of v 6] tst_exp [of v 7] by simp_all

lemma bit_lines:
  "bit (1 :: u8) m = (m = 0)" "bit (2 :: u8) m = (m = 1)" "bit (4 :: u8) m = (m = 2)" "bit (16 :: u8) m = (m = 4)"
  "bit (64 :: u8) m = (m = 6)" "bit (128 :: u8) m = (m = 7)"
proof -
  have "bit ((2 :: u8) ^ k) m = (m = k)" if "k < 8" for k using that by (auto simp: bit_simps)
  from this [of 0] this [of 1] this [of 2] this [of 4] this [of 6] this [of 7]
  show "bit (1 :: u8) m = (m = 0)" "bit (2 :: u8) m = (m = 1)" "bit (4 :: u8) m = (m = 2)" "bit (16 :: u8) m = (m = 4)"
    "bit (64 :: u8) m = (m = 6)" "bit (128 :: u8) m = (m = 7)" by simp_all
qed

text \<open>All lines but the select line, none of which acts on its own when reset and attention stay low.\<close>

definition quiet_part :: "u8 \<Rightarrow> fmscsi \<Rightarrow> fmscsi" where
  "quiet_part flags s = put_output LINE_WEN (tst flags LINE_WEN) (put_output LINE_ATN False (put_output LINE_IMSK (tst flags LINE_IMSK)
     (put_output LINE_DMAE (tst flags LINE_DMAE) (put_output LINE_RST False s))))"

lemma core_put_output [simp]: "core (put_output l b s) = core s"
  by (simp add: core_def put_output_def)

lemma core_quiet [simp]: "core (quiet_part flags s) = core s"
  by (simp add: quiet_part_def)

lemma control_low: "free_flags flags \<Longrightarrow> fmscsi_control_w flags s = put_output LINE_SEL False (quiet_part flags s)"
  by (simp add: fmscsi_control_w_def set_output_line_def quiet_part_def Let_def)

lemma control_high:
  "free_flags flags \<Longrightarrow> fmscsi_control_w (flags OR LINE_SEL) s = put_output LINE_SEL True
     (if \<not> tst (s_output_lines (quiet_part flags s)) LINE_SEL then select_target (quiet_part flags s) else quiet_part flags s)"
  by (simp add: fmscsi_control_w_def set_output_line_def quiet_part_def Let_def line_bits bit_lines bit_simps)

lemma sel_stays_low: "\<not> tst (s_output_lines s) LINE_SEL \<Longrightarrow> \<not> tst (s_output_lines (quiet_part flags s)) LINE_SEL"
  by (simp add: quiet_part_def put_output_def line_bits bit_lines bit_simps)

lemma input_line_output [simp]: "s_output_lines (set_input_line l b s) = s_output_lines s"
  by (simp add: set_input_line_def put_line_def scsi_call_def Let_def)

lemma target_selected: "x < 5 \<Longrightarrow> target_of (2 ^ x) old = x"
proof -
  assume "x < 5"
  then consider "x = 0" | "x = 1" | "x = 2" | "x = 3" | "x = 4" by linarith
  then show ?thesis by cases (simp_all add: target_of_def)
qed

lemma disk_selected:
  assumes f: "at_phase PHASE_BUS_FREE y im s" "s_command_index s = 0" and t: "s_devices s x = Some t" and x: "x < 5" and fl: "free_flags flags"
  shows "\<exists>s'. select_disk flags x s = Some s' \<and> commanding x t cs 0 s'"
proof -
  define s1 where "s1 = put_output LINE_SEL False (quiet_part flags s)"
  have c1: "core s1 = core s" by (simp add: s1_def)
  have o1: "\<not> tst (s_output_lines s1) LINE_SEL" by (simp add: s1_def put_output_def line_bits bit_lines bit_simps)
  note f1 = core_fields [OF c1]
  define s2 where "s2 = (set_input_line LINE_REQ False (s1\<lparr>s_data := 2 ^ x\<rparr>))\<lparr>s_target := x\<rparr>"
  have "s_phase s1 = PHASE_BUS_FREE" using f(1) f1 by (simp add: at_phase_def)
  then have w2: "fmscsi_w 0 (2 ^ x) s1 = Some s2" using target_selected [OF x] by (simp add: fmscsi_w_def fmscsi_data_w_def Let_def s2_def)
  define s3 where "s3 = quiet_part flags s2"
  have c3: "core s3 = core s2" by (simp add: s3_def)
  note f3 = core_fields [OF c3]
  have o3: "\<not> tst (s_output_lines s3) LINE_SEL" unfolding s3_def by (rule sel_stays_low) (use o1 in \<open>simp add: s2_def\<close>)
  have "s_target s3 = x" using arg_cong [OF c3, of s_target] by (simp add: core_def s2_def)
  moreover have d3: "s_devices s3 x = Some t" using f3 f1 t by (simp add: s2_def)
  ultimately have sel: "select_target s3 = s3\<lparr>s_selected := x, s_phase_due := Some PHASE_COMMAND, s_data := 0x08\<rparr>"
    by (simp add: select_target_def select_id_def device_def)
  have w3: "fmscsi_w 1 (flags OR LINE_SEL) s2 = Some (put_output LINE_SEL True (select_target s3))"
    using control_high [OF fl, of s2] o3 unfolding s3_def by (simp add: fmscsi_w_def)
  have w1: "fmscsi_w 1 flags s = Some s1" using control_low [OF fl, of s] by (simp add: fmscsi_w_def s1_def)
  define s4 where "s4 = put_output LINE_SEL True (select_target s3)"
  have f4: "s_phase_due s4 = Some PHASE_COMMAND" "s_selected s4 = x" "s_devices s4 x = Some t" "s_command_index s4 = s_command_index s3"
    using d3 by (simp_all add: s4_def sel put_output_def)
  have "s_command_index s3 = 0" using f3 f1 f(2) by (simp add: s2_def)
  then have "\<exists>s'. fire_phase s4 = Some s' \<and> commanding x t cs 0 s'"
    using f4 by (simp add: fire_phase_def enter_phase_def commanding_def)
  then show ?thesis using w1 w2 w3 unfolding select_disk_def s4_def by simp
qed

lemma written_session:
  assumes f: "at_phase PHASE_BUS_FREE y im s" "s_command_index s = 0" and t: "s_devices s x = Some t" "t_sector_bytes t = 512"
    and x: "x < 5" and fl: "free_flags flags" and c: "covers (t_image t) lba n" and n: "0 < n" "n \<le> 256" "lba < 2 ^ 21" and l: "length ds = n * 512"
  shows "\<exists>s'. write_session flags x lba ds s = Some ([0, 0], s') \<and> at_phase PHASE_BUS_FREE x (written lba ds (t_image t)) s' \<and> s_command_index s' = 0"
proof -
  obtain s1 where s1: "select_disk flags x s = Some s1" "commanding x t (block_command 0x0a lba n) 0 s1"
    using disk_selected [OF f t(1) x fl] by blast
  have k: "length ds div 512 = n" using l by simp
  show ?thesis using write_blocks [OF s1(2) refl t(2) c n l] s1(1) unfolding write_session_def k by auto
qed

lemma read_session_blocks:
  assumes f: "at_phase PHASE_BUS_FREE y im s" "s_command_index s = 0" and t: "s_devices s x = Some t" "t_sector_bytes t = 512"
    and x: "x < 5" and fl: "free_flags flags" and c: "covers (t_image t) lba n" and n: "0 < n" "n \<le> 256" "lba < 2 ^ 21"
  shows "\<exists>s'. read_session flags x lba n s = Some (blocks_of (t_image t) lba n, [0, 0], s') \<and> at_phase PHASE_BUS_FREE x (t_image t) s' \<and>
     s_command_index s' = 0"
proof -
  obtain s1 where s1: "select_disk flags x s = Some s1" "commanding x t (block_command 0x08 lba n) 0 s1"
    using disk_selected [OF f t(1) x fl] by blast
  show ?thesis using read_blocks [OF s1(2) refl t(2) c n] s1(1) unfolding read_session_def by auto
qed

text \<open>
  C29: blocks written to a disk through the controller, byte by byte over the bus, are read back by a read of the same
  blocks; both commands end with good status, the closing message and a free bus, whatever interrupt and DMA flags the
  program has chosen.
\<close>

theorem scsi_blocks_round_trip:
  assumes "at_phase PHASE_BUS_FREE y im s" and "s_command_index s = 0" and "s_devices s x = Some t" and "t_sector_bytes t = 512"
    and "x < 5" and "free_flags flags" and "covers (t_image t) lba (length ds div 512)" and "length ds mod 512 = 0"
    and "ds \<noteq> []" and "length ds \<le> 256 * 512" and "lba < 2 ^ 21"
  shows "\<exists>s1 s2. write_session flags x lba ds s = Some ([0, 0], s1) \<and>
     read_session flags x lba (length ds div 512) s1 = Some (ds, [0, 0], s2) \<and> s_phase s2 = PHASE_BUS_FREE"
proof -
  define n where "n = length ds div 512"
  have l: "length ds = n * 512" using assms(8) unfolding n_def by (metis add.right_neutral div_mult_mod_eq)
  have "0 < length ds" using assms(9) by simp
  then have n: "0 < n" "n \<le> 256" using assms(10) unfolding l by simp_all
  have c: "covers (t_image t) lba n" using assms(7) by (simp add: n_def)
  obtain s1 where s1: "write_session flags x lba ds s = Some ([0, 0], s1)"
    "at_phase PHASE_BUS_FREE x (written lba ds (t_image t)) s1" "s_command_index s1 = 0"
    using written_session [OF assms(1-6) c n assms(11) l] by blast
  obtain t1 where t1: "s_devices s1 x = Some t1" "t_image t1 = written lba ds (t_image t)" "t_sector_bytes t1 = 512"
    using s1(2) by (auto simp: at_phase_def served_def)
  have "covers (t_image t1) lba n" using covers_written [OF c, of ds] l t1(2) by simp
  then obtain s2 where "read_session flags x lba n s1 = Some (blocks_of (t_image t1) lba n, [0, 0], s2)"
    "at_phase PHASE_BUS_FREE x (t_image t1) s2"
    using read_session_blocks [OF s1(2,3) t1(1,3) assms(5,6) _ n assms(11)] by blast
  moreover have "blocks_of (t_image t1) lba n = ds" using blocks_written [OF c l] t1(2) by simp
  ultimately show ?thesis using s1(1) unfolding n_def at_phase_def by auto
qed

definition small_disk :: disk where
  "small_disk = \<lparr>t_command = (\<lambda>i. 0), t_command_length = 0, t_transfer_length = 0, t_phase = PHASE_BUS_FREE, t_status_code = 0,
     t_sense_key = 0, t_sense_asc = 0, t_sense_ascq = 0, t_sense_information = 0, t_sector_bytes = 512, t_lba = 0, t_blocks = 0,
     t_image = \<lparr>i_exists = True, i_file = replicate 2048 0, i_offset = 0, i_cylinders = 1, i_heads = 2, i_sectors = 2, i_sectorbytes = 512\<rparr>\<rparr>"

definition idle_bus :: fmscsi where
  "idle_bus = \<lparr>s_command = (\<lambda>i. 0), s_command_index = 0, s_result_length = 0, s_result_index = 0, s_input_lines = 0, s_output_lines = 0,
     s_data = 0, s_last_id = 0, s_phase = PHASE_BUS_FREE, s_target = 0, s_buffer = (\<lambda>i. 0), s_transfer_timer = False, s_phase_due = None,
     s_selected = 0, s_devices = [0 \<mapsto> small_disk], s_calls = []\<rparr>"

lemma scsi_blocks_round_trip_witness:
  "\<exists>s1 s2. write_session 0xc2 0 1 (replicate 1024 7) idle_bus = Some ([0, 0], s1) \<and>
     read_session 0xc2 0 1 (1024 div 512) s1 = Some (replicate 1024 7, [0, 0], s2) \<and> s_phase s2 = PHASE_BUS_FREE"
proof -
  have "(replicate 1024 7 :: u8 list) \<noteq> []" by (simp only: replicate_empty)
  then show ?thesis
    using scsi_blocks_round_trip [of 0 "t_image small_disk" idle_bus 0 small_disk "0xc2" 1 "replicate 1024 7"]
    by (simp add: idle_bus_def small_disk_def at_phase_def served_def covers_def del: replicate_Suc)
qed

subsection \<open>Other behaviour\<close>

text \<open>A reset frees the bus and lets the pending end of a transfer happen all the same: a status phase follows.\<close>

lemma reset_enters_status:
  "s_phase (fmscsi_reset s) = PHASE_BUS_FREE \<and> (\<exists>s'. fire_phase (fmscsi_reset s) = Some s' \<and> s_phase s' = PHASE_STATUS)"
  by (simp add: fmscsi_reset_def scsi_call_def fire_phase_def enter_phase_def Let_def)

text \<open>
  A command the disk does not know leaves the bus in the command phase with its bytes still counted: whatever is written
  next is stored behind it, and the command is sent again, longer; nothing stops the index at the end of the 32-byte
  command buffer.
\<close>

definition unknown_pending :: "nat \<Rightarrow> nat \<Rightarrow> fmscsi \<Rightarrow> bool" where
  "unknown_pending x i s \<longleftrightarrow> s_phase s = PHASE_COMMAND \<and> s_phase_due s = None \<and> s_command_index s = i \<and> s_selected s = x \<and>
     (0 < i \<longrightarrow> s_command s 0 = 0x02) \<and>
     (\<exists>t. s_devices s x = Some t \<and> (6 \<le> i \<longrightarrow> t_phase t = PHASE_COMMAND \<and> t_command t 0 = 0x02))"

lemma unknown_executed: "t_command t 0 = 0x02 \<Longrightarrow> sbc_exec t = t\<lparr>t_status_code := 0, t_transfer_length := 0\<rparr>"
  by (simp add: sbc_exec_def spc_exec_def)

lemma unknown_step: "unknown_pending x i s \<Longrightarrow> i < 255 \<Longrightarrow> \<exists>s'. give_byte 0x02 s = Some s' \<and> unknown_pending x (i + 1) s'"
proof -
  assume u: "unknown_pending x i s" and i: "i < 255"
  have g: "get_scsi_cmd_len 0x02 = Some 6" by (simp add: get_scsi_cmd_len_def)
  have z: "((s_command s)(i := 0x02)) 0 = 0x02" using u by (auto simp: unknown_pending_def)
  define b where "b = (set_input_line LINE_REQ False (s\<lparr>s_data := 0x02\<rparr>))\<lparr>s_command := (s_command s)(i := 0x02), s_command_index := i + 1\<rparr>"
  obtain t where t: "s_devices s x = Some t" "6 \<le> i \<Longrightarrow> t_phase t = PHASE_COMMAND \<and> t_command t 0 = 0x02"
    using u by (auto simp: unknown_pending_def)
  show ?thesis
  proof (cases "6 \<le> i + 1")
    case False
    then have "give_byte 0x02 s = fire_phase (b\<lparr>s_phase_due := Some PHASE_COMMAND\<rparr>)"
      using u i z g by (simp add: give_byte_def fmscsi_data_w_def command_byte_def unknown_pending_def b_def Let_def)
    moreover have "\<exists>s'. fire_phase (b\<lparr>s_phase_due := Some PHASE_COMMAND\<rparr>) = Some s' \<and> unknown_pending x (i + 1) s'"
      using u z t False by (auto simp: fire_phase_def enter_phase_def unknown_pending_def b_def)
    ultimately show ?thesis by metis
  next
    case True
    define t1 where "t1 = set_command ((s_command s)(i := 0x02)) (i + 1) t"
    have t1: "t_command t1 0 = 0x02" "t_phase t1 = PHASE_COMMAND" using t z True by (auto simp: t1_def set_command_def)
    define s1 where "s1 = (set_device (sbc_exec t1) b)\<lparr>s_result_length := 0, s_phase_due := Some PHASE_COMMAND\<rparr>"
    have d: "device b = Some t" using u t(1) by (simp add: b_def device_def unknown_pending_def)
    have "send_command (s_command b) (i + 1) b = set_device (sbc_exec t1) b" unfolding send_command_def d by (simp add: b_def t1_def)
    moreover have "device (set_device (sbc_exec t1) b) = Some (sbc_exec t1)" by (simp add: set_device_def device_def)
    ultimately have "give_byte 0x02 s = fire_phase s1"
      using u i z g True t1 by (simp add: give_byte_def fmscsi_data_w_def command_byte_def unknown_pending_def b_def Let_def
          get_length_def device_phase_def unknown_executed s1_def)
    moreover have "\<exists>s'. fire_phase s1 = Some s' \<and> unknown_pending x (i + 1) s'"
      using u z t1 True by (auto simp: s1_def b_def set_device_def fire_phase_def enter_phase_def unknown_pending_def unknown_executed)
    ultimately show ?thesis by metis
  qed
qed

lemma unknown_command_overruns:
  "unknown_pending x 0 s \<Longrightarrow> n \<le> 255 \<Longrightarrow> \<exists>s'. give_bytes (replicate n 0x02) s = Some s' \<and> s_command_index s' = n \<and> unknown_pending x n s'"
proof (induction n)
  case (Suc n)
  then obtain s1 where s1: "give_bytes (replicate n 0x02) s = Some s1" "unknown_pending x n s1" by auto
  obtain s2 where "give_byte 0x02 s1 = Some s2" "unknown_pending x (n + 1) s2" using unknown_step [OF s1(2)] Suc(3) by auto
  moreover have "replicate (Suc n) (0x02 :: u8) = replicate n 0x02 @ [0x02]" by (simp add: replicate_append_same)
  ultimately show ?case using s1 unfolding \<open>replicate (Suc n) _ = _\<close> by (simp add: give_bytes_append unknown_pending_def)
qed (simp add: unknown_pending_def)

end
