(* ===== verification/Towns_Layers.thy ===== *)
theory Towns_Layers
  imports Towns_Video "HOL-Library.Log_Nat" "HOL-Library.Monad_Syntax"
begin

text \<open>
  The scan-line renderers of \<open>src/mame/fujitsu/fmtowns_v.cpp\<close>: the three drawing modes of a layer, the layers with
  their vertical zoom, and the composition of the picture. The bitmap is a function of row and column, so that
  pixels outside the screen stay visible. A remainder by a line size of 0 and a conversion of a negative number to an
  unsigned one, both undefined in C++, are \<open>None\<close>.
\<close>

unbundle bit_operations_syntax

type_synonym bitmap32 = "int \<Rightarrow> int \<Rightarrow> u32"

definition plot :: "int \<Rightarrow> int \<Rightarrow> u32 \<Rightarrow> bitmap32 \<Rightarrow> bitmap32" where
  "plot y x c bm = bm(y := (bm y)(x := c))"

definition plot_run :: "nat \<Rightarrow> int \<Rightarrow> int \<Rightarrow> u32 \<Rightarrow> bitmap32 \<Rightarrow> bitmap32" where
  "plot_run n y x c bm = foldl (\<lambda>b p. plot y (x + int p) c b) bm [0..<n]"

definition pen_of :: "rgb \<Rightarrow> u32" where
  "pen_of c = (case c of (r, g, b) \<Rightarrow> push_bit 24 255 OR push_bit 16 (ucast r) OR push_bit 8 (ucast g) OR ucast b)"

subsection \<open>Single precision\<close>

text \<open>
  The start of a high-colour line is computed with \<open>float\<close>: rounding to 24 significant bits, ties to even, for numbers
  from \<open>2 ^ - 29\<close> up.
\<close>

definition half_even :: "rat \<Rightarrow> int" where
  "half_even q = (let f = \<lfloor>q\<rfloor>; r = q - of_int f
     in if r < 1 / 2 then f else if r > 1 / 2 then f + 1 else if even f then f else f + 1)"

definition single :: "rat \<Rightarrow> rat" where
  "single q = (let b = floorlog 2 (nat \<lfloor>\<bar>q\<bar> * 2 ^ 30\<rfloor>)
     in if 54 \<le> b then of_int (half_even (q / 2 ^ (b - 54))) * 2 ^ (b - 54)
        else of_int (half_even (q * 2 ^ (54 - b))) / 2 ^ (54 - b))"

definition to_uint :: "rat \<Rightarrow> u32 option" where
  "to_uint q = (if - 1 < q \<and> q < 2 ^ 32 then Some (of_int (if q < 0 then 0 else \<lfloor>q\<rfloor>)) else None)"

text \<open>\<open>off += (float)d * (2.0f / (float)zoom)\<close>.\<close>

definition float_advance :: "int \<Rightarrow> nat \<Rightarrow> u32 \<Rightarrow> u32 option" where
  "float_advance d zoom off =
     to_uint (single (single (of_int (uint off)) + single (single (of_int d) * single (2 / single (of_nat zoom)))))"

subsection \<open>What the modes share\<close>

definition two_layers :: "vid \<Rightarrow> bool" where
  "two_layers v = tst (v_video_reg v 0) 0x10"

definition sphscroll :: "vid \<Rightarrow> nat \<Rightarrow> bool" where
  "sphscroll v layer = (\<not> tst (v_crtc_reg v 28) (if layer \<noteq> 0 then 0x20 else 0x10))"

definition scroll_offset :: "vid \<Rightarrow> nat \<Rightarrow> u32" where
  "scroll_offset v layer =
     (let r = ucast (v_crtc_reg v (if layer \<noteq> 0 then 21 else 17))
      in if sphscroll v layer then push_bit 2 (r AND 0xfc00) OR push_bit 2 (r AND 0x3ff) else push_bit 2 r)"

definition hzoom :: "vid \<Rightarrow> nat \<Rightarrow> nat" where
  "hzoom v layer = unat (if layer \<noteq> 0 then drop_bit 8 (v_crtc_reg v 27 AND 0x0f00) else v_crtc_reg v 27 AND 0x000f) + 1"

definition start_gap :: "vid \<Rightarrow> nat \<Rightarrow> int" where
  "start_gap v layer = (if layer \<noteq> 0 then uint (v_crtc_reg v 11) - uint (v_crtc_reg v 22)
     else uint (v_crtc_reg v 9) - uint (v_crtc_reg v 18))"

definition page_base :: "vid \<Rightarrow> int" where
  "page_base v = (if v_display_page_sel v \<noteq> 0 then 0x20000 else 0)"

definition is_bottom :: "vid \<Rightarrow> nat \<Rightarrow> bool" where
  "is_bottom v layer \<longleftrightarrow> unat (v_video_reg v 1 AND 0x01) \<noteq> layer"

text \<open>The \<open>for\<close> loop over the columns of a line; \<open>body\<close> gets the memory offset and the column.\<close>

partial_function (option) scan_loop ::
  "('o \<Rightarrow> int \<Rightarrow> bitmap32 \<Rightarrow> ('o \<times> bitmap32) option) \<Rightarrow> int \<Rightarrow> int \<Rightarrow> 'o \<Rightarrow> int \<Rightarrow> bitmap32 \<Rightarrow> bitmap32 option" where
  "scan_loop body step stop off x bm =
     (if x < stop then do { (off1, bm1) \<leftarrow> body off x bm; scan_loop body step stop off1 (x + step) bm1 } else Some bm)"

subsection \<open>32768 colours\<close>

definition hicolour_linesize :: "vid \<Rightarrow> nat \<Rightarrow> u32" where
  "hicolour_linesize v layer =
     (if two_layers v then (if layer = 0 then ucast (v_crtc_reg v 20) * 4 else ucast (v_crtc_reg v 24) * 4)
      else ucast (v_crtc_reg v 20) * 8)"

definition hicolour_start :: "vid \<Rightarrow> nat \<Rightarrow> int \<Rightarrow> u32 option" where
  "hicolour_start v layer line =
     do { off \<leftarrow> float_advance (start_gap v layer) (hzoom v layer) (of_int (page_base v) + scroll_offset v layer);
          Some ((off + of_int line * hicolour_linesize v layer) AND NOT 1) }"

definition hicolour_address :: "vid \<Rightarrow> nat \<Rightarrow> u32 \<Rightarrow> nat" where
  "hicolour_address v layer off =
     (if two_layers v then unat (off AND 0x3ffff) + layer * 0x40000
      else unat (drop_bit 1 (off AND 0x7fff8) OR (off AND 3)) + unat (drop_bit 2 (off AND 4)) * 0x40000)"

definition hicolour_rgb :: "u16 \<Rightarrow> u32" where
  "hicolour_rgb colour = (let c = ucast colour in push_bit 3 (c AND 0x001f) OR push_bit 1 (c AND 0x7c00) OR push_bit 14 (c AND 0x03e0))"

definition hicolour_next :: "vid \<Rightarrow> nat \<Rightarrow> u32 \<Rightarrow> u32 option" where
  "hicolour_next v layer off0 =
     (let off = off0 + 2; linesize = hicolour_linesize v layer
      in if linesize = 0 then None
         else Some (if (off - of_int (page_base v)) mod linesize = 0 \<and> sphscroll v layer then off - linesize else off))"

definition hicolour_body :: "'c tvs \<Rightarrow> nat \<Rightarrow> int \<Rightarrow> u32 \<Rightarrow> int \<Rightarrow> bitmap32 \<Rightarrow> (u32 \<times> bitmap32) option" where
  "hicolour_body s layer scanline off x bm =
     (let v = vid_of s; a = hicolour_address v layer off;
          colour = push_bit 8 (ucast (t_gfxvram (x_mem s) (a + 1))) OR ucast (t_gfxvram (x_mem s) a) :: u16;
          bm1 = (if \<not> two_layers v \<or> is_bottom v layer \<or> colour < 0x8000
                 then plot_run (hzoom v layer) scanline x (hicolour_rgb colour) bm else bm)
      in do { off1 \<leftarrow> hicolour_next v layer off; Some (off1, bm1) })"

definition draw_scan_layer_hicolour :: "'c tvs \<Rightarrow> rect \<Rightarrow> nat \<Rightarrow> int \<Rightarrow> int \<Rightarrow> bitmap32 \<Rightarrow> bitmap32 option" where
  "draw_scan_layer_hicolour s r layer line scanline bm =
     (if layer \<noteq> 0 \<and> \<not> two_layers (vid_of s) then Some bm
      else do { off \<leftarrow> hicolour_start (vid_of s) layer line;
                scan_loop (hicolour_body s layer scanline) (int (hzoom (vid_of s) layer)) (max_x r) off (min_x r) bm })"

subsection \<open>256 colours\<close>

text \<open>The offset and the pixel within a group of eight.\<close>

definition start_256 :: "vid \<Rightarrow> int \<Rightarrow> int \<times> int" where
  "start_256 v line =
     (let subpix = start_gap v 0 sdiv int (hzoom v 0); linesize = uint (v_crtc_reg v 20) * 4
      in (page_base v + uint (scroll_offset v 0) + line * linesize + (drop_bit 1 subpix AND NOT 3), subpix AND 7))"

definition address_256 :: "int \<Rightarrow> int \<Rightarrow> nat" where
  "address_256 off subpix = nat (off + (if subpix \<ge> 4 then (subpix AND 3) + 0x40000 else subpix))"

definition next_256 :: "vid \<Rightarrow> int \<times> int \<Rightarrow> (int \<times> int) option" where
  "next_256 v p =
     (let (off0, subpix0) = p; (off, subpix) = (if subpix0 + 1 = 8 then (off0 + 4, 0) else (off0, subpix0 + 1));
          linesize = uint (v_crtc_reg v 20) * 4
      in if linesize = 0 then None
         else Some (if (off - page_base v) smod linesize = 0 \<and> subpix = 0 \<and> sphscroll v 0 then off - linesize else off, subpix))"

definition body_256 :: "'c tvs \<Rightarrow> int \<Rightarrow> int \<times> int \<Rightarrow> int \<Rightarrow> bitmap32 \<Rightarrow> ((int \<times> int) \<times> bitmap32) option" where
  "body_256 s scanline p x bm =
     (let v = vid_of s; (off0, subpix) = p; off = off0 AND 0x3ffff;
          colour = t_gfxvram (x_mem s) (address_256 off subpix);
          bm1 = plot_run (hzoom v 0) scanline x (pen_of (x_palette s (unat colour))) bm
      in do { p1 \<leftarrow> next_256 v (off, subpix); Some (p1, bm1) })"

definition draw_scan_layer_256 :: "'c tvs \<Rightarrow> rect \<Rightarrow> int \<Rightarrow> int \<Rightarrow> bitmap32 \<Rightarrow> bitmap32 option" where
  "draw_scan_layer_256 s r line scanline bm =
     scan_loop (body_256 s scanline) (int (hzoom (vid_of s) 0)) (max_x r) (start_256 (vid_of s) line) (min_x r) bm"

subsection \<open>16 colours\<close>

definition linesize_16 :: "vid \<Rightarrow> nat \<Rightarrow> int" where
  "linesize_16 v layer = uint (v_crtc_reg v (if layer = 0 then 20 else 24)) * 4"

definition start_16 :: "vid \<Rightarrow> nat \<Rightarrow> int \<Rightarrow> int" where
  "start_16 v layer line = page_base v + uint (scroll_offset v layer) + start_gap v layer sdiv (int (hzoom v layer) * 2) + line * linesize_16 v layer"

definition mask_16 :: "vid \<Rightarrow> int \<Rightarrow> int" where
  "mask_16 v off = off AND (if two_layers v then 0x3ffff else 0x7ffff)"

definition next_16 :: "vid \<Rightarrow> nat \<Rightarrow> int \<Rightarrow> int option" where
  "next_16 v layer off0 =
     (let off = off0 + 1; linesize = linesize_16 v layer
      in if linesize = 0 then None
         else Some (if (off - page_base v) smod linesize = 0 \<and> sphscroll v layer then off - linesize else off))"

definition body_16 :: "'c tvs \<Rightarrow> nat \<Rightarrow> int \<Rightarrow> int \<Rightarrow> int \<Rightarrow> bitmap32 \<Rightarrow> (int \<times> bitmap32) option" where
  "body_16 s layer scanline off0 x bm =
     (let v = vid_of s; off = mask_16 v off0; data = t_gfxvram (x_mem s) (nat off + layer * 0x40000); z = hzoom v layer;
          hi = drop_bit 4 data; lo = data AND 0x0f; pen = \<lambda>c. pen_of (x_palette16 s layer (unat c));
          bm1 = (if hi \<noteq> 0 \<or> is_bottom v layer then plot_run z scanline (x + int z) (pen hi) bm else bm);
          bm2 = (if lo \<noteq> 0 \<or> is_bottom v layer then plot_run z scanline x (pen lo) bm1 else bm1)
      in do { off1 \<leftarrow> next_16 v layer off; Some (off1, bm2) })"

definition draw_scan_layer_16 :: "'c tvs \<Rightarrow> rect \<Rightarrow> nat \<Rightarrow> int \<Rightarrow> int \<Rightarrow> bitmap32 \<Rightarrow> bitmap32 option" where
  "draw_scan_layer_16 s r layer line scanline bm =
     (if layer \<noteq> 0 \<and> \<not> two_layers (vid_of s) then Some bm
      else scan_loop (body_16 s layer scanline) (int (hzoom (vid_of s) layer) * 2) (max_x r) (start_16 (vid_of s) layer line) (min_x r) bm)"

subsection \<open>Layers and the picture\<close>

definition vzoom :: "vid \<Rightarrow> nat \<Rightarrow> u8" where
  "vzoom v layer = ucast (if layer = 0 then drop_bit 4 (v_crtc_reg v 27 AND 0x00f0) else drop_bit 12 (v_crtc_reg v 27 AND 0xf000)) + 1"

text \<open>One line of the layer, drawn again while \<open>count\<close> has not reached the zoom.\<close>

partial_function (option) zoom_lines ::
  "(int \<Rightarrow> bitmap32 \<Rightarrow> bitmap32 option) \<Rightarrow> u8 \<Rightarrow> u8 \<Rightarrow> int \<Rightarrow> bitmap32 \<Rightarrow> (int \<times> bitmap32) option" where
  "zoom_lines draw zoom count scanline bm =
     do { bm1 \<leftarrow> draw scanline bm;
          if count + 1 < zoom then zoom_lines draw zoom (count + 1) (scanline + 1) bm1 else Some (scanline + 1, bm1) }"

partial_function (option) layer_lines ::
  "(int \<Rightarrow> int \<Rightarrow> bitmap32 \<Rightarrow> bitmap32 option) \<Rightarrow> u8 \<Rightarrow> int \<Rightarrow> int \<Rightarrow> u8 \<Rightarrow> int \<Rightarrow> bitmap32 \<Rightarrow> bitmap32 option" where
  "layer_lines draw zoom bottom line count scanline bm =
     (if line \<le> bottom then do { (sl, bm1) \<leftarrow> zoom_lines (draw line) zoom count scanline bm; layer_lines draw zoom bottom (line + 1) 0 sl bm1 }
      else Some bm)"

definition draw_mode :: "'c tvs \<Rightarrow> rect \<Rightarrow> nat \<Rightarrow> (int \<Rightarrow> int \<Rightarrow> bitmap32 \<Rightarrow> bitmap32 option) option" where
  "draw_mode s r layer =
     (let mode = (if layer = 0 then v_video_reg (vid_of s) 0 AND 0x03 else drop_bit 2 (v_video_reg (vid_of s) 0 AND 0x0c))
      in if mode = 1 then Some (draw_scan_layer_16 s r layer)
         else if mode = 2 \<and> layer = 0 then Some (draw_scan_layer_256 s r)
         else if mode = 3 then Some (draw_scan_layer_hicolour s r layer)
         else None)"

definition towns_crtc_draw_layer :: "'c tvs \<Rightarrow> rect \<Rightarrow> nat \<Rightarrow> bitmap32 \<Rightarrow> bitmap32 option" where
  "towns_crtc_draw_layer s r layer bm =
     (let scanline = min_y r; top = scanline - min_y (v_layerscr (vid_of s) layer); bottom = (max_y r - min_y r) + top;
          zoom = vzoom (vid_of s) layer; z = uint zoom
      in case draw_mode s r layer of None \<Rightarrow> Some bm
         | Some draw \<Rightarrow> layer_lines draw zoom (bottom sdiv z) (top sdiv z) (of_int (top smod z)) scanline bm)"

definition clip :: "rect \<Rightarrow> rect \<Rightarrow> rect" where
  "clip r q = \<lparr>min_x = max (min_x r) (min_x q), max_x = min (max_x r) (max_x q), min_y = max (min_y r) (min_y q), max_y = min (max_y r) (max_y q)\<rparr>"

definition clear_bitmap :: "rect \<Rightarrow> bitmap32 \<Rightarrow> bitmap32" where
  "clear_bitmap r bm = (\<lambda>y x. if min_y r \<le> y \<and> y \<le> max_y r \<and> min_x r \<le> x \<and> x \<le> max_x r then 0 else bm y x)"

definition screen_update :: "'c tvs \<Rightarrow> rect \<Rightarrow> bitmap32 \<Rightarrow> bitmap32 option" where
  "screen_update s r bm =
     (let v = vid_of s; bm0 = clear_bitmap r bm; clip0 = clip (v_layerscr v 0) r; clip1 = clip (v_layerscr v 1) r;
          layer1 = (\<lambda>b. if tst (v_layer_ctrl v) 0x03 then towns_crtc_draw_layer s clip1 1 b else Some b);
          layer0 = (\<lambda>b. if tst (v_layer_ctrl v) 0x0c then towns_crtc_draw_layer s clip0 0 b else Some b)
      in if \<not> tst (v_video_reg v 1) 0x01 then do { b \<leftarrow> layer1 bm0; layer0 b } else do { b \<leftarrow> layer0 bm0; layer1 b })"

subsection \<open>Painting a line\<close>

text \<open>A cell of \<open>n\<close> pixels at column \<open>x\<close> of a row; \<open>None\<close> leaves a pixel as it is.\<close>

definition overlay :: "u32 \<Rightarrow> u32 option \<Rightarrow> u32" where
  "overlay old p = (case p of None \<Rightarrow> old | Some c \<Rightarrow> c)"

lemma overlay_simps [simp]: "overlay old None = old" "overlay old (Some c) = c"
  by (simp_all add: overlay_def)

definition paint :: "int \<Rightarrow> int \<Rightarrow> nat \<Rightarrow> (nat \<Rightarrow> u32 option) \<Rightarrow> bitmap32 \<Rightarrow> bitmap32" where
  "paint row x n cell bm =
     bm(row := (\<lambda>x'. if x \<le> x' \<and> x' < x + int n then overlay (bm row x') (cell (nat (x' - x))) else bm row x'))"

lemma plot_run_paint: "plot_run n y x c bm = paint y x n (\<lambda>j. Some c) bm"
proof (induction n)
  case 0
  show ?case by (auto simp: plot_run_def paint_def fun_eq_iff)
next
  case (Suc n)
  have "plot_run (Suc n) y x c bm = plot y (x + int n) c (paint y x n (\<lambda>j. Some c) bm)"
    using Suc by (simp add: plot_run_def)
  then show ?case by (auto simp: plot_def paint_def fun_eq_iff)
qed

text \<open>The offset after a number of cells.\<close>

primrec advance :: "('o \<Rightarrow> 'o option) \<Rightarrow> nat \<Rightarrow> 'o \<Rightarrow> 'o option" where
  "advance nxt 0 off = Some off"
| "advance nxt (Suc n) off = do { off1 \<leftarrow> nxt off; advance nxt n off1 }"

lemma advance_total: "(\<And>off. nxt off \<noteq> None) \<Longrightarrow> \<exists>off'. advance nxt n off = Some off'"
proof (induction n arbitrary: off)
  case (Suc n)
  obtain off1 where "nxt off = Some off1" using Suc(2) [of off] by blast
  then show ?case using Suc by simp
qed simp

text \<open>How many cells of a width begin before a column.\<close>

definition cells :: "int \<Rightarrow> int \<Rightarrow> nat \<Rightarrow> nat" where
  "cells x stop w = nat ((stop - x + int w - 1) div int w)"

lemma cells_none: "\<not> x < stop \<Longrightarrow> 0 < w \<Longrightarrow> cells x stop w = 0"
proof -
  assume "\<not> x < stop" "0 < w"
  then have "(stop - x + int w - 1) div int w \<le> (int w - 1) div int w" by (intro zdiv_mono1) simp_all
  also have "\<dots> = 0" using \<open>0 < w\<close> by (intro div_pos_pos_trivial) simp_all
  finally show ?thesis by (simp add: cells_def)
qed

lemma cells_step: "x < stop \<Longrightarrow> 0 < w \<Longrightarrow> cells x stop w = Suc (cells (x + int w) stop w)"
proof -
  assume x: "x < stop" and w: "0 < w"
  have "stop - x + int w - 1 = (stop - (x + int w) + int w - 1) + 1 * int w" by simp
  then have "(stop - x + int w - 1) div int w = (stop - (x + int w) + int w - 1) div int w + 1"
    using w by (metis div_mult_self3 of_nat_eq_0_iff add.commute less_numeral_extra(3))
  moreover have "0 \<le> (stop - (x + int w) + int w - 1) div int w" using x w by (intro pos_imp_zdiv_nonneg_iff [THEN iffD2]) simp_all
  ultimately show ?thesis by (simp add: cells_def)
qed

locale scan_line =
  fixes body :: "'o \<Rightarrow> int \<Rightarrow> bitmap32 \<Rightarrow> ('o \<times> bitmap32) option"
    and nxt :: "'o \<Rightarrow> 'o option"
    and cell :: "'o \<Rightarrow> nat \<Rightarrow> u32 option"
    and row :: int
    and width :: nat
  assumes width: "0 < width"
    and paints: "body off x bm = map_option (\<lambda>off'. (off', paint row x width (cell off) bm)) (nxt off)"
begin

text \<open>The loop paints whole cells, the last of them beyond the end where it does not fit.\<close>

lemma scanned:
  "(\<And>off. nxt off \<noteq> None) \<Longrightarrow> scan_loop body (int width) stop off x bm =
     Some (paint row x (cells x stop width * width) (\<lambda>j. cell (the (advance nxt (j div width) off)) (j mod width)) bm)"
proof (induction "cells x stop width" arbitrary: off x bm)
  case 0
  have "\<not> x < stop" using 0(1) cells_step [OF _ width] by fastforce
  then have "cells x stop width = 0" by (intro cells_none width)
  then show ?case using \<open>\<not> x < stop\<close> by (auto simp add: scan_loop.simps [of body] paint_def fun_eq_iff)
next
  case (Suc n)
  have x: "x < stop" using Suc(2) cells_none [OF _ width, of x stop] by fastforce
  have n: "n = cells (x + int width) stop width" using Suc(2) cells_step [OF x width] by simp
  obtain off1 where off1: "nxt off = Some off1" using Suc(3) [of off] by blast
  let ?bm1 = "paint row x width (cell off) bm"
  let ?c = "\<lambda>j. cell (the (advance nxt (j div width) off)) (j mod width)"
  have "scan_loop body (int width) stop off x bm = scan_loop body (int width) stop off1 (x + int width) ?bm1"
    using x off1 by (simp add: scan_loop.simps [of body _ _ off] paints)
  also have "\<dots> = Some (paint row (x + int width) (n * width) (\<lambda>j. cell (the (advance nxt (j div width) off1)) (j mod width)) ?bm1)"
    using Suc(1) [OF n Suc(3)] n by simp
  also have "paint row (x + int width) (n * width) (\<lambda>j. cell (the (advance nxt (j div width) off1)) (j mod width)) ?bm1 =
      paint row x (Suc n * width) ?c bm"
  proof (rule ext, rule ext)
    fix y x'
    have d: "?c j = cell (the (advance nxt ((j - width) div width) off1)) ((j - width) mod width)" if "width \<le> j" for j
    proof -
      have "j div width = Suc ((j - width) div width)" using that width by (simp add: le_div_geq)
      moreover have "j mod width = (j - width) mod width" using that by (rule le_mod_geq)
      ultimately show ?thesis using off1 by simp
    qed
    show "paint row (x + int width) (n * width) (\<lambda>j. cell (the (advance nxt (j div width) off1)) (j mod width)) ?bm1 y x' =
        paint row x (Suc n * width) ?c bm y x'"
    proof (cases "x + int width \<le> x'")
      case True
      have "nat (x' - (x + int width)) = nat (x' - x) - width" using True by simp
      moreover have "width \<le> nat (x' - x)" using True by simp
      ultimately show ?thesis using True d [of "nat (x' - x)"] by (auto simp: paint_def)
    next
      case False
      then have "nat (x' - x) < width" if "x \<le> x'" using that by simp
      moreover have "0 \<le> int n * int width" by simp
      then have "x' < x + (int width + int n * int width)" using False by linarith
      ultimately show ?thesis using False by (auto simp: paint_def)
    qed
  qed
  finally show ?case using Suc(2) by metis
qed

text \<open>A body that fails ends the drawing.\<close>

lemma scan_fails: "nxt off = None \<Longrightarrow> x < stop \<Longrightarrow> scan_loop body (int width) stop off x bm = None"
  by (simp add: scan_loop.simps [of body] paints)

end

subsection \<open>The three modes\<close>

text \<open>The pixels of a cell in each mode.\<close>

definition hicolour_cell :: "'c tvs \<Rightarrow> nat \<Rightarrow> u32 \<Rightarrow> nat \<Rightarrow> u32 option" where
  "hicolour_cell s layer off j =
     (let a = hicolour_address (vid_of s) layer off;
          colour = push_bit 8 (ucast (t_gfxvram (x_mem s) (a + 1))) OR ucast (t_gfxvram (x_mem s) a) :: u16
      in if \<not> two_layers (vid_of s) \<or> is_bottom (vid_of s) layer \<or> colour < 0x8000 then Some (hicolour_rgb colour) else None)"

definition cell_256 :: "'c tvs \<Rightarrow> int \<times> int \<Rightarrow> nat \<Rightarrow> u32 option" where
  "cell_256 s p j = Some (pen_of (x_palette s (unat (t_gfxvram (x_mem s) (address_256 (fst p AND 0x3ffff) (snd p))))))"

definition cell_16 :: "'c tvs \<Rightarrow> nat \<Rightarrow> int \<Rightarrow> nat \<Rightarrow> u32 option" where
  "cell_16 s layer off j =
     (let data = t_gfxvram (x_mem s) (nat (mask_16 (vid_of s) off) + layer * 0x40000);
          c = (if j < hzoom (vid_of s) layer then data AND 0x0f else drop_bit 4 data)
      in if c \<noteq> 0 \<or> is_bottom (vid_of s) layer then Some (pen_of (x_palette16 s layer (unat c))) else None)"

lemma hzoom_pos [simp]: "0 < hzoom v layer"
  by (simp add: hzoom_def)

lemma paint_none: "paint row x n (\<lambda>j. None) bm = bm"
  by (auto simp: paint_def fun_eq_iff)

lemma paint_split: "paint row x z (\<lambda>j. lo) (paint row (x + int z) z (\<lambda>j. hi) bm) = paint row x (z * 2) (\<lambda>j. if j < z then lo else hi) bm"
proof (rule ext, rule ext)
  fix y x'
  consider "x' < x" | "x \<le> x'" "x' < x + int z" | "x + int z \<le> x'" "x' < x + int z + int z" | "x + int z + int z \<le> x'" by linarith
  then show "paint row x z (\<lambda>j. lo) (paint row (x + int z) z (\<lambda>j. hi) bm) y x' = paint row x (z * 2) (\<lambda>j. if j < z then lo else hi) bm y x'"
    by cases (auto simp: paint_def)
qed

interpretation hicolour: scan_line "hicolour_body s layer row" "hicolour_next (vid_of s) layer" "hicolour_cell s layer" row "hzoom (vid_of s) layer"
  for s layer row
  by unfold_locales
    (auto simp: hicolour_body_def hicolour_cell_def [abs_def] Let_def plot_run_paint paint_none map_option_case split: option.splits)

interpretation mode_256: scan_line "body_256 s row" "\<lambda>p. next_256 (vid_of s) (fst p AND 0x3ffff, snd p)" "cell_256 s" row "hzoom (vid_of s) 0"
  for s row
  by unfold_locales (auto simp: body_256_def cell_256_def [abs_def] Let_def plot_run_paint map_option_case split: option.splits prod.splits)

interpretation mode_16: scan_line "body_16 s layer row" "\<lambda>off. next_16 (vid_of s) layer (mask_16 (vid_of s) off)" "cell_16 s layer" row
    "hzoom (vid_of s) layer * 2"
  for s layer row
proof
  fix off x bm
  let ?z = "hzoom (vid_of s) layer" and ?data = "t_gfxvram (x_mem s) (nat (mask_16 (vid_of s) off) + layer * 0x40000)"
  let ?p = "\<lambda>c. if c \<noteq> 0 \<or> is_bottom (vid_of s) layer then Some (pen_of (x_palette16 s layer (unat c))) else None"
  have one: "(if c \<noteq> 0 \<or> is_bottom (vid_of s) layer then plot_run ?z row x' (pen_of (x_palette16 s layer (unat c))) b else b) =
      paint row x' ?z (\<lambda>j. ?p c) b" for c x' b
    by (simp add: plot_run_paint paint_none)
  have "cell_16 s layer off = (\<lambda>j. if j < ?z then ?p (?data AND 0x0f) else ?p (drop_bit 4 ?data))"
    by (auto simp: cell_16_def Let_def fun_eq_iff)
  then show "body_16 s layer row off x bm = map_option (\<lambda>off'. (off', paint row x (?z * 2) (cell_16 s layer off) bm))
      (next_16 (vid_of s) layer (mask_16 (vid_of s) off))"
    unfolding body_16_def Let_def one paint_split by (simp add: map_option_case split: option.split)
qed simp

lemma next_16_total: "linesize_16 v layer \<noteq> 0 \<Longrightarrow> next_16 v layer off \<noteq> None"
  by (simp add: next_16_def Let_def)

lemma next_256_total: "v_crtc_reg v 20 \<noteq> 0 \<Longrightarrow> next_256 v p \<noteq> None"
proof -
  assume "v_crtc_reg v 20 \<noteq> 0"
  then have "uint (v_crtc_reg v 20) * 4 \<noteq> 0" by (metis mult_eq_0_iff unsigned_eq_0_iff zero_neq_numeral)
  then show ?thesis by (auto simp add: next_256_def Let_def split: prod.split)
qed

lemma hicolour_next_total: "hicolour_linesize v layer \<noteq> 0 \<Longrightarrow> hicolour_next v layer off \<noteq> None"
  by (simp add: hicolour_next_def Let_def)

subsection \<open>The rows of a layer\<close>

text \<open>A line renderer that returns and changes its row only.\<close>

definition row_drawing :: "(int \<Rightarrow> (int \<Rightarrow> u32) \<Rightarrow> int \<Rightarrow> u32) \<Rightarrow> (int \<Rightarrow> int \<Rightarrow> bitmap32 \<Rightarrow> bitmap32 option) \<Rightarrow> bool" where
  "row_drawing f draw \<longleftrightarrow> (\<forall>line row bm. draw line row bm = Some (bm(row := f line (bm row))))"

definition painted_row :: "int \<Rightarrow> nat \<Rightarrow> (nat \<Rightarrow> u32 option) \<Rightarrow> (int \<Rightarrow> u32) \<Rightarrow> int \<Rightarrow> u32" where
  "painted_row x n cell old = (\<lambda>x'. if x \<le> x' \<and> x' < x + int n then overlay (old x') (cell (nat (x' - x))) else old x')"

lemma paint_row: "paint row x n cell bm = bm(row := painted_row x n cell (bm row))"
  by (simp add: paint_def painted_row_def)

lemma zoomed_line:
  "row_drawing f draw \<Longrightarrow> zoom \<noteq> 0 \<Longrightarrow> unat count + k + 1 = unat zoom \<Longrightarrow> zoom_lines (draw line) zoom count row bm =
     Some (row + int k + 1, \<lambda>y. if row \<le> y \<and> y \<le> row + int k then f line (bm y) else bm y)"
proof (induction k arbitrary: count row bm)
  case 0
  have "unat count + 1 < 256" using 0(3) unat_u8_less [of zoom] by linarith
  then have c: "unat (count + 1) = unat zoom" using 0(3) by (simp add: unat_word_ariths)
  then have "\<not> count + 1 < zoom" by (simp add: word_less_nat_alt)
  then show ?case using 0(1) by (auto simp: zoom_lines.simps [of _ _ count] row_drawing_def fun_eq_iff)
next
  case (Suc k)
  have "unat count + 1 < 256" using Suc(4) unat_u8_less [of zoom] by linarith
  then have c: "unat (count + 1) = unat count + 1" by (simp add: unat_word_ariths)
  then have l: "count + 1 < zoom" using Suc(4) by (simp add: word_less_nat_alt)
  let ?bm1 = "bm(row := f line (bm row))"
  have "zoom_lines (draw line) zoom count row bm = zoom_lines (draw line) zoom (count + 1) (row + 1) ?bm1"
    using l Suc(2) by (simp add: zoom_lines.simps [of _ _ count] row_drawing_def)
  also have "\<dots> = Some (row + 1 + int k + 1, \<lambda>y. if row + 1 \<le> y \<and> y \<le> row + 1 + int k then f line (?bm1 y) else ?bm1 y)"
    using Suc(1) [OF Suc(2,3)] c Suc(4) by simp
  also have "(\<lambda>y. if row + 1 \<le> y \<and> y \<le> row + 1 + int k then f line (?bm1 y) else ?bm1 y) =
      (\<lambda>y. if row \<le> y \<and> y \<le> row + int (Suc k) then f line (bm y) else bm y)" by (auto simp: fun_eq_iff)
  finally show ?case by (simp add: algebra_simps)
qed

lemma uint_pos: "w \<noteq> 0 \<Longrightarrow> 0 < uint w" for w :: "'a::len word"
  using unsigned_eq_0_iff [of w] uint_ge_0 [of w] by (simp add: less_le)

text \<open>From a line on, with \<open>z\<close> rows for each.\<close>

lemma drawn_lines:
  "row_drawing f draw \<Longrightarrow> zoom \<noteq> 0 \<Longrightarrow> z = uint zoom \<Longrightarrow> 0 \<le> line \<Longrightarrow> count = of_int ((row - base) mod z) \<Longrightarrow> (row - base) div z = line \<Longrightarrow>
     base \<le> row \<Longrightarrow> n = nat (bottom + 1 - line) \<Longrightarrow> layer_lines draw zoom bottom line count row bm =
     Some (\<lambda>y. if row \<le> y \<and> (y - base) div z \<le> bottom then f ((y - base) div z) (bm y) else bm y)"
proof (induction n arbitrary: line count row bm)
  case 0
  have "\<not> (row \<le> y \<and> (y - base) div z \<le> bottom)" for y
  proof
    assume y: "row \<le> y \<and> (y - base) div z \<le> bottom"
    have "0 < z" using 0(2,3) by (simp add: uint_pos)
    then have "(row - base) div z \<le> (y - base) div z" using y by (intro zdiv_mono1) simp_all
    then show False using y 0(6,8) by simp
  qed
  then have e: "(\<lambda>y. if row \<le> y \<and> (y - base) div z \<le> bottom then f ((y - base) div z) (bm y) else bm y) = bm"
    by (intro ext if_not_P)
  show ?case using 0(8) unfolding e by (simp add: layer_lines.simps [of draw zoom bottom line])
next
  case (Suc n)
  have z: "0 < z" "z < 256" using Suc(3,4) uint_lt2p [of zoom] by (simp_all add: uint_pos)
  let ?m = "(row - base) mod z"
  have m: "0 \<le> ?m" "?m < z" using z by simp_all
  have "?m < 2 ^ 8" using less_trans [OF m(2) z(2)] by simp
  then have "take_bit 8 ?m = ?m" using m(1) by (intro take_bit_int_eq_self)
  then have u: "unat count = nat ?m" unfolding Suc(6) by (simp add: unat_eq_nat_uint uint_word_of_int_eq)
  have uz: "unat zoom = nat z" unfolding Suc(4) by (rule unat_eq_nat_uint)
  define k where "k = nat (z - ?m - 1)"
  have k2: "int k = z - ?m - 1" using m unfolding k_def by linarith
  have "int (nat ?m) = ?m" "int (nat z) = z" using m(1) z(1) by simp_all
  then have k: "unat count + k + 1 = unat zoom" "int k = z - ?m - 1" using k2 unfolding u uz by linarith+
  have rb: "row - base = z * line + ?m" using Suc(7) by (metis mult_div_mod_eq)
  let ?row1 = "row + int k + 1"
  let ?bm1 = "\<lambda>y. if row \<le> y \<and> y \<le> row + int k then f line (bm y) else bm y"
  have r1: "?row1 - base = z * (line + 1)" using rb k(2) by (simp add: algebra_simps)
  have b: "line \<le> bottom" using Suc(9) by simp
  have "layer_lines draw zoom bottom line count row bm = layer_lines draw zoom bottom (line + 1) 0 ?row1 ?bm1"
    using b zoomed_line [OF Suc(2,3) k(1), of line row bm] by (simp add: layer_lines.simps [of draw zoom bottom line])
  also have "\<dots> = Some (\<lambda>y. if ?row1 \<le> y \<and> (y - base) div z \<le> bottom then f ((y - base) div z) (?bm1 y) else ?bm1 y)"
  proof (rule Suc(1) [OF Suc(2,3,4)])
    show "0 \<le> line + 1" using Suc(5) by simp
    show "0 = of_int ((?row1 - base) mod z)" unfolding r1 by simp
    show "(?row1 - base) div z = line + 1" unfolding r1 using z by simp
    show "base \<le> ?row1" using Suc(8) by simp
    show "n = nat (bottom + 1 - (line + 1))" using Suc(9) by simp
  qed
  also have "(\<lambda>y. if ?row1 \<le> y \<and> (y - base) div z \<le> bottom then f ((y - base) div z) (?bm1 y) else ?bm1 y) =
      (\<lambda>y. if row \<le> y \<and> (y - base) div z \<le> bottom then f ((y - base) div z) (bm y) else bm y)"
  proof (rule ext)
    fix y
    have "(y - base) div z = line" if "row \<le> y" "y < ?row1"
    proof -
      have "y - base < z * (line + 1)" using that(2) r1 by linarith
      moreover have "z * line \<le> y - base" using that(1) rb m(1) by linarith
      ultimately have "0 \<le> y - base - z * line" "y - base - z * line < z" by (simp_all add: algebra_simps)
      then have "(y - base - z * line) div z = 0" by (rule div_pos_pos_trivial)
      moreover have "y - base = (y - base - z * line) + line * z" by (simp add: algebra_simps)
      ultimately show ?thesis using z by (metis div_mult_self1 add_0 add.commute less_irrefl)
    qed
    then show "(if ?row1 \<le> y \<and> (y - base) div z \<le> bottom then f ((y - base) div z) (?bm1 y) else ?bm1 y) =
        (if row \<le> y \<and> (y - base) div z \<le> bottom then f ((y - base) div z) (bm y) else bm y)" using b by auto
  qed
  finally show ?case .
qed

definition layer_line :: "vid \<Rightarrow> nat \<Rightarrow> int \<Rightarrow> int" where
  "layer_line v layer y = (y - min_y (v_layerscr v layer)) div uint (vzoom v layer)"

lemma vzoom_range: "vzoom v layer \<noteq> 0" "0 < uint (vzoom v layer)"
proof -
  have "drop_bit 4 (w AND 0x00f0) < 16" "drop_bit 12 (w AND 0xf000) < 16" for w :: u16
  proof -
    have "unat (x AND 15) \<le> unat (15 :: u16)" for x :: u16 by (rule word_le_nat_alt [THEN iffD1], rule word_and_le1)
    then have "x AND 15 < 16" for x :: u16 unfolding word_less_nat_alt by (rule le_less_trans) simp
    then show "drop_bit 4 (w AND 0x00f0) < 16" "drop_bit 12 (w AND 0xf000) < 16" by simp_all
  qed
  moreover have "(ucast w :: u8) + 1 \<noteq> 0" if "w < 16" for w :: u16
  proof -
    have "unat w < 16" using that by (simp add: word_less_nat_alt)
    then have "take_bit 8 (unat w) = unat w" by (intro take_bit_nat_eq_self) simp
    then have "unat (ucast w :: u8) < 16" using \<open>unat w < 16\<close> by (simp add: unsigned_ucast_eq)
    then have "unat ((ucast w :: u8) + 1) = unat (ucast w :: u8) + 1" by (simp add: unat_word_ariths)
    then show ?thesis by (metis add_is_0 one_neq_zero unat_0)
  qed
  ultimately show "vzoom v layer \<noteq> 0" by (simp add: vzoom_def)
  then show "0 < uint (vzoom v layer)" by (rule uint_pos)
qed

lemma sdiv_smod_nonneg: "0 \<le> a \<Longrightarrow> 0 < b \<Longrightarrow> a sdiv b = a div b \<and> a smod b = a mod (b :: int)"
  by (simp add: signed_divide_int_def signed_modulo_int_def sgn_if minus_mult_div_eq_mod [symmetric] mult.commute)

text \<open>Every row of the clipped layer shows the line that its vertical zoom gives.\<close>

lemma layer_drawn:
  assumes m: "draw_mode s r layer = Some draw" and f: "row_drawing f draw" and y: "min_y (v_layerscr (vid_of s) layer) \<le> min_y r" "min_y r \<le> max_y r"
  shows "towns_crtc_draw_layer s r layer bm = Some (\<lambda>y. if min_y r \<le> y \<and> layer_line (vid_of s) layer y \<le> layer_line (vid_of s) layer (max_y r)
     then f (layer_line (vid_of s) layer y) (bm y) else bm y)"
proof -
  let ?v = "vid_of s"
  let ?base = "min_y (v_layerscr ?v layer)" and ?z = "uint (vzoom ?v layer)"
  let ?top = "min_y r - ?base" and ?bottom = "max_y r - min_y r + (min_y r - ?base)"
  have z: "0 < ?z" by (rule vzoom_range)
  have t: "?top sdiv ?z = ?top div ?z" "?top smod ?z = ?top mod ?z" "?bottom sdiv ?z = (max_y r - ?base) div ?z"
    using sdiv_smod_nonneg [OF _ z, of ?top] sdiv_smod_nonneg [OF _ z, of ?bottom] y by simp_all
  have "towns_crtc_draw_layer s r layer bm =
      layer_lines draw (vzoom ?v layer) ((max_y r - ?base) div ?z) (?top div ?z) (of_int (?top mod ?z)) (min_y r) bm"
    unfolding towns_crtc_draw_layer_def Let_def m t by simp
  also have "\<dots> = Some (\<lambda>y. if min_y r \<le> y \<and> (y - ?base) div ?z \<le> (max_y r - ?base) div ?z then f ((y - ?base) div ?z) (bm y) else bm y)"
    by (rule drawn_lines [OF f vzoom_range(1) refl _ refl refl y(1) refl]) (use z y in \<open>simp add: pos_imp_zdiv_nonneg_iff\<close>)
  finally show ?thesis unfolding layer_line_def .
qed

subsection \<open>A 16-colour layer\<close>

text \<open>
  The address of byte \<open>i\<close> of a line: the line start and the bytes after it, in the video memory modulo its size; with
  spherical scrolling modulo the line.
\<close>

definition address_16 :: "vid \<Rightarrow> nat \<Rightarrow> int \<Rightarrow> nat \<Rightarrow> int" where
  "address_16 v layer line i =
     (let b = page_base v; rel = start_16 v layer line - b; size = linesize_16 v layer
      in if sphscroll v layer then b + rel div size * size + (rel + int i) mod size else mask_16 v (b + rel + int i))"

definition line_fits :: "vid \<Rightarrow> nat \<Rightarrow> int \<Rightarrow> bool" where
  "line_fits v layer line \<longleftrightarrow>
     (let b = page_base v; rel = start_16 v layer line - b; size = linesize_16 v layer
      in 0 \<le> rel \<and> b + (rel div size + 1) * size \<le> (if two_layers v then 0x40000 else 0x80000))"

text \<open>Dot \<open>d\<close> of a line: low nibble first.\<close>

definition dot_16 :: "'c tvs \<Rightarrow> nat \<Rightarrow> int \<Rightarrow> nat \<Rightarrow> u8" where
  "dot_16 s layer line d =
     (let data = t_gfxvram (x_mem s) (nat (address_16 (vid_of s) layer line (d div 2)) + layer * 0x40000)
      in if even d then data AND 0x0f else drop_bit 4 data)"

lemma mask_16_take: "mask_16 v off = take_bit (if two_layers v then 18 else 19) off"
proof -
  have "(0x3ffff :: int) = mask 18" "(0x7ffff :: int) = mask 19" by (simp_all add: mask_eq_exp_minus_1)
  then show ?thesis by (simp add: mask_16_def take_bit_eq_mask)
qed

lemma mask_16_inc: "mask_16 v (mask_16 v a + b) = mask_16 v (a + b)"
  by (simp add: mask_16_take take_bit_eq_mod mod_add_left_eq)

lemma mask_16_id: "0 \<le> a \<Longrightarrow> a < (if two_layers v then 0x40000 else 0x80000) \<Longrightarrow> mask_16 v a = a"
  by (simp add: mask_16_take take_bit_eq_mod split: if_splits)

abbreviation nxt_16 :: "vid \<Rightarrow> nat \<Rightarrow> int \<Rightarrow> int option" where
  "nxt_16 v layer off \<equiv> next_16 v layer (mask_16 v off)"

lemma advance_straight:
  "\<not> sphscroll v layer \<Longrightarrow> linesize_16 v layer \<noteq> 0 \<Longrightarrow> \<exists>off'. advance (nxt_16 v layer) i off = Some off' \<and> mask_16 v off' = mask_16 v (off + int i)"
proof (induction i arbitrary: off)
  case (Suc i)
  have "nxt_16 v layer off = Some (mask_16 v off + 1)" using Suc(2,3) by (simp add: next_16_def Let_def)
  moreover obtain off' where "advance (nxt_16 v layer) i (mask_16 v off + 1) = Some off'"
      "mask_16 v off' = mask_16 v (mask_16 v off + 1 + int i)" using Suc by blast
  moreover have "mask_16 v (mask_16 v off + 1 + int i) = mask_16 v (off + int (Suc i))"
    using mask_16_inc [of v off "1 + int i"] by (simp add: algebra_simps)
  ultimately show ?case by simp
qed simp

text \<open>A line start \<open>b + l\<close> and a place \<open>k\<close> in it, in a memory that holds the whole line.\<close>

lemma advance_spherical:
  "sphscroll v layer \<Longrightarrow> 0 < linesize_16 v layer \<Longrightarrow> 0 \<le> b + l \<Longrightarrow> b + l + linesize_16 v layer \<le> (if two_layers v then 0x40000 else 0x80000) \<Longrightarrow>
     b = page_base v \<Longrightarrow> l mod linesize_16 v layer = 0 \<Longrightarrow> 0 \<le> l \<Longrightarrow> 0 \<le> k \<Longrightarrow> k < linesize_16 v layer \<Longrightarrow>
     advance (nxt_16 v layer) i (b + l + k) = Some (b + l + (k + int i) mod linesize_16 v layer)"
proof (induction i arbitrary: k)
  case 0
  then show ?case by simp
next
  case (Suc i)
  let ?L = "linesize_16 v layer"
  have m: "mask_16 v (b + l + k) = b + l + k" using Suc(4,5,9,10) by (intro mask_16_id) simp_all
  let ?k = "if k + 1 = ?L then 0 else k + 1"
  have d: "(l + k + 1) smod ?L = (k + 1) mod ?L"
    using sdiv_smod_nonneg [of "l + k + 1" ?L] Suc(3,7,8,9) by (metis (no_types) add.assoc add_nonneg_nonneg mod_add_self1 mod_add_left_eq add_0 zero_le_one)
  have km: "((k + 1) mod ?L = 0) = (k + 1 = ?L)"
  proof (cases "k + 1 = ?L")
    case False
    then have "(k + 1) mod ?L = k + 1" using Suc(9,10) by (intro mod_pos_pos_trivial) simp_all
    then show ?thesis using False Suc(9) by simp
  qed simp
  have "nxt_16 v layer (b + l + k) = Some (b + l + ?k)"
    using Suc(2,3) d km unfolding m by (auto simp: next_16_def Let_def Suc(6) [symmetric] algebra_simps)
  moreover have "advance (nxt_16 v layer) i (b + l + ?k) = Some (b + l + (?k + int i) mod ?L)"
    using Suc(3,9,10) by (intro Suc(1) Suc(2-8)) simp_all
  moreover have "(?k + int i) mod ?L = (k + int (Suc i)) mod ?L"
  proof (cases "k + 1 = ?L")
    case True
    have "k + int (Suc i) = ?L + int i" using True by simp
    then have "(k + int (Suc i)) mod ?L = int i mod ?L" by (simp only: mod_add_self1)
    then show ?thesis using True by simp
  qed (simp add: algebra_simps)
  ultimately show ?case by simp
qed

lemma address_advanced:
  assumes l: "0 < linesize_16 v layer" and f: "\<not> sphscroll v layer \<or> line_fits v layer line"
  shows "\<exists>off. advance (nxt_16 v layer) i (start_16 v layer line) = Some off \<and> mask_16 v off = address_16 v layer line i"
proof (cases "sphscroll v layer")
  case False
  then show ?thesis using advance_straight [of v layer i "start_16 v layer line"] l by (simp add: address_16_def Let_def)
next
  case True
  let ?b = "page_base v" and ?L = "linesize_16 v layer"
  let ?rel = "start_16 v layer line - ?b"
  define l' where "l' = ?rel div ?L * ?L"
  define k where "k = ?rel mod ?L"
  have b: "0 \<le> ?b" by (simp add: page_base_def)
  have r: "0 \<le> ?rel" "?b + (?rel div ?L + 1) * ?L \<le> (if two_layers v then 0x40000 else 0x80000)"
    using f True by (simp_all add: line_fits_def Let_def)
  have k: "0 \<le> k" "k < ?L" using l by (simp_all add: k_def)
  have l0: "0 \<le> l'" using r l by (simp add: l'_def pos_imp_zdiv_nonneg_iff)
  have s: "start_16 v layer line = ?b + l' + k" unfolding l'_def k_def using div_mult_mod_eq [of ?rel ?L] by linarith
  have e: "?b + l' + ?L \<le> (if two_layers v then 0x40000 else 0x80000)" using r(2) by (simp add: l'_def algebra_simps)
  have a: "advance (nxt_16 v layer) i (?b + l' + k) = Some (?b + l' + (k + int i) mod ?L)"
    by (rule advance_spherical [OF True l]) (use b l0 k e in \<open>simp_all add: l'_def\<close>)
  have "(k + int i) mod ?L = (?rel + int i) mod ?L" by (simp add: k_def mod_add_left_eq)
  then have "address_16 v layer line i = ?b + l' + (k + int i) mod ?L" using True by (simp add: address_16_def Let_def l'_def)
  moreover have "mask_16 v (?b + l' + (k + int i) mod ?L) = ?b + l' + (k + int i) mod ?L"
  proof (rule mask_16_id)
    have m: "0 \<le> (k + int i) mod ?L" "(k + int i) mod ?L < ?L" using l by simp_all
    show "0 \<le> ?b + l' + (k + int i) mod ?L" using b l0 m by linarith
    show "?b + l' + (k + int i) mod ?L < (if two_layers v then 0x40000 else 0x80000)" using e m by linarith
  qed
  ultimately show ?thesis using a unfolding s [symmetric] by metis
qed

text \<open>A line of the layer, dot by dot.\<close>

definition row_16 :: "'c tvs \<Rightarrow> rect \<Rightarrow> nat \<Rightarrow> int \<Rightarrow> (int \<Rightarrow> u32) \<Rightarrow> int \<Rightarrow> u32" where
  "row_16 s r layer line old = painted_row (min_x r) (cells (min_x r) (max_x r) (hzoom (vid_of s) layer * 2) * (hzoom (vid_of s) layer * 2))
     (\<lambda>j. cell_16 s layer (the (advance (nxt_16 (vid_of s) layer) (j div (hzoom (vid_of s) layer * 2)) (start_16 (vid_of s) layer line)))
       (j mod (hzoom (vid_of s) layer * 2))) old"

lemma rows_16:
  assumes "linesize_16 (vid_of s) layer \<noteq> 0" and "layer = 0 \<or> two_layers (vid_of s)"
  shows "row_drawing (row_16 s r layer) (draw_scan_layer_16 s r layer)"
  unfolding row_drawing_def
proof (intro allI)
  fix line row bm
  have t: "nxt_16 (vid_of s) layer off \<noteq> None" for off by (rule next_16_total [OF assms(1)])
  show "draw_scan_layer_16 s r layer line row bm = Some (bm(row := row_16 s r layer line (bm row)))"
    using assms(2) mode_16.scanned [of s layer, OF t] unfolding draw_scan_layer_16_def paint_row row_16_def by (auto simp: mult.commute)
qed

lemma cell_dot:
  assumes l: "0 < linesize_16 (vid_of s) layer" and f: "\<not> sphscroll (vid_of s) layer \<or> line_fits (vid_of s) layer line"
  shows "cell_16 s layer (the (advance (nxt_16 (vid_of s) layer) (j div (hzoom (vid_of s) layer * 2)) (start_16 (vid_of s) layer line)))
       (j mod (hzoom (vid_of s) layer * 2)) =
     (let c = dot_16 s layer line (j div hzoom (vid_of s) layer)
      in if c \<noteq> 0 \<or> is_bottom (vid_of s) layer then Some (pen_of (x_palette16 s layer (unat c))) else None)"
proof -
  let ?z = "hzoom (vid_of s) layer"
  obtain off where off: "advance (nxt_16 (vid_of s) layer) (j div (?z * 2)) (start_16 (vid_of s) layer line) = Some off"
    "mask_16 (vid_of s) off = address_16 (vid_of s) layer line (j div (?z * 2))" using address_advanced [OF l f] by blast
  have d: "j div (?z * 2) = j div ?z div 2" by (simp add: div_mult2_eq)
  have z: "0 < ?z" by simp
  have "j mod (?z * 2) = ?z * (j div ?z mod 2) + j mod ?z" by (simp add: mod_mult2_eq)
  moreover have "j mod ?z < ?z" using z by simp
  ultimately have "(j mod (?z * 2) < ?z) = even (j div ?z)"
    by (cases "even (j div ?z)") (simp_all add: even_iff_mod_2_eq_zero odd_iff_mod_2_eq_one del: mod_less_divisor)
  then show ?thesis using off by (simp add: cell_16_def dot_16_def Let_def d)
qed

text \<open>The dot a 16-colour layer puts at a row and a column, if any.\<close>

definition layer_pixel_16 :: "'c tvs \<Rightarrow> rect \<Rightarrow> nat \<Rightarrow> int \<Rightarrow> int \<Rightarrow> u32 option" where
  "layer_pixel_16 s r layer y x =
     (let v = vid_of s; z = hzoom v layer
      in if min_y r \<le> y \<and> layer_line v layer y \<le> layer_line v layer (max_y r) \<and>
            min_x r \<le> x \<and> x < min_x r + int (cells (min_x r) (max_x r) (z * 2) * (z * 2))
         then (let c = dot_16 s layer (layer_line v layer y) (nat (x - min_x r) div z)
               in if c \<noteq> 0 \<or> is_bottom v layer then Some (pen_of (x_palette16 s layer (unat c))) else None)
         else None)"

text \<open>A layer in 16-colour mode whose lines have a size and, with spherical scrolling, fit into the memory as far as they show.\<close>

definition shows_16 :: "'c tvs \<Rightarrow> rect \<Rightarrow> nat \<Rightarrow> bool" where
  "shows_16 s r layer \<longleftrightarrow> (let v = vid_of s in
     (layer = 0 \<and> v_video_reg v 0 AND 0x03 = 1 \<or> layer = 1 \<and> v_video_reg v 0 AND 0x0c = 0x04 \<and> two_layers v) \<and>
     linesize_16 v layer \<noteq> 0 \<and> (sphscroll v layer \<longrightarrow> (\<forall>line. 0 \<le> line \<and> line \<le> layer_line v layer (max_y r) \<longrightarrow> line_fits v layer line)))"

lemma drawn_16:
  assumes s: "shows_16 s r layer" and y: "min_y (v_layerscr (vid_of s) layer) \<le> min_y r" "min_y r \<le> max_y r"
  shows "towns_crtc_draw_layer s r layer bm = Some (\<lambda>y x. overlay (bm y x) (layer_pixel_16 s r layer y x))"
proof -
  let ?v = "vid_of s"
  let ?z = "hzoom ?v layer" and ?n = "cells (min_x r) (max_x r) (hzoom ?v layer * 2)"
  have m: "draw_mode s r layer = Some (draw_scan_layer_16 s r layer)"
  proof (cases "layer = 0")
    case False
    then have one: "layer = 1" "v_video_reg ?v 0 AND 0x0c = 0x04" using s by (auto simp: shows_16_def Let_def)
    have e: "drop_bit 2 (v_video_reg ?v 0 AND 0x0c) = 1" unfolding one(2) by simp
    show ?thesis unfolding draw_mode_def Let_def e one(1) by simp
  qed (use s in \<open>auto simp: draw_mode_def shows_16_def Let_def\<close>)
  have l: "linesize_16 ?v layer \<noteq> 0" "layer = 0 \<or> two_layers ?v" using s by (auto simp: shows_16_def Let_def)
  have lp: "0 < linesize_16 ?v layer" using l(1) unfolding linesize_16_def by (simp add: less_le)
  have "(if min_y r \<le> y \<and> layer_line ?v layer y \<le> layer_line ?v layer (max_y r) then row_16 s r layer (layer_line ?v layer y) (bm y) else bm y) x =
      overlay (bm y x) (layer_pixel_16 s r layer y x)" for y x
  proof (cases "min_y r \<le> y \<and> layer_line ?v layer y \<le> layer_line ?v layer (max_y r)")
    case False
    then have "layer_pixel_16 s r layer y x = None" unfolding layer_pixel_16_def Let_def by auto
    then show ?thesis using False by auto
  next
    case True
    let ?line = "layer_line ?v layer y"
    have z: "0 < uint (vzoom ?v layer)" "1 \<le> uint (vzoom ?v layer)" using vzoom_range [of ?v layer] by simp_all
    have "0 \<le> ?line" using True y(1) z unfolding layer_line_def by (intro pos_imp_zdiv_nonneg_iff [THEN iffD2]) simp_all
    then have f: "\<not> sphscroll ?v layer \<or> line_fits ?v layer ?line" using s True unfolding shows_16_def Let_def by blast
    show ?thesis using True unfolding row_16_def painted_row_def cell_dot [OF lp f] layer_pixel_16_def Let_def by (simp add: overlay_def)
  qed
  then show ?thesis unfolding layer_drawn [OF m rows_16 [OF l] y(1,2)] by (intro arg_cong [of _ _ Some] ext)
qed

text \<open>
  C28: with both layers in 16-colour mode the picture is, pixel by pixel, the dot of the layer in front where it is not
  colour 0, else the dot of the layer behind inside its area, else black.
\<close>

theorem screen_16_over_16:
  assumes "\<forall>layer\<in>{0, 1}. shows_16 s (clip (v_layerscr (vid_of s) layer) r) layer \<and>
      min_y (clip (v_layerscr (vid_of s) layer) r) \<le> max_y (clip (v_layerscr (vid_of s) layer) r)"
    and "tst (v_layer_ctrl (vid_of s)) 0x03" and "tst (v_layer_ctrl (vid_of s)) 0x0c"
  shows "screen_update s r bm = Some (\<lambda>y x.
     let front = (if tst (v_video_reg (vid_of s) 1) 0x01 then 1 else 0); layer = (\<lambda>n. layer_pixel_16 s (clip (v_layerscr (vid_of s) n) r) n y x)
     in overlay (overlay (clear_bitmap r bm y x) (layer (1 - front))) (layer front))"
proof -
  let ?c = "\<lambda>n. clip (v_layerscr (vid_of s) n) r"
  have d: "towns_crtc_draw_layer s (?c n) n b = Some (\<lambda>y x. overlay (b y x) (layer_pixel_16 s (?c n) n y x))" if "n \<in> {0, 1}" for n b
  proof (rule drawn_16)
    show "shows_16 s (?c n) n" using that assms(1) by blast
    show "min_y (v_layerscr (vid_of s) n) \<le> min_y (?c n)" by (simp add: clip_def)
    show "min_y (?c n) \<le> max_y (?c n)" using that assms(1) by blast
  qed
  show ?thesis using d [of 0] d [of 1] assms(2,3) by (simp add: screen_update_def Let_def)
qed

text \<open>Two layers of four lines of eight bytes, layer 0 in front.\<close>

definition small_vid :: vid where
  "small_vid = \<lparr>v_wplane = 0, v_rplane = 0, v_page_sel = 0, v_palette_select = 0, v_palette_r = (\<lambda>i. 0), v_palette_g = (\<lambda>i. 0),
     v_palette_b = (\<lambda>i. 0), v_degipal = (\<lambda>i. 0), v_dpmd_flag = False, v_crtc_mix = 0, v_crtc_sel = 0,
     v_crtc_reg = (\<lambda>i. if i = 20 \<or> i = 24 then 2 else 0), v_video_sel = 0, v_video_reg = (\<lambda>i. if i = 0 then 0x15 else 0), v_sprite_sel = 0,
     v_sprite_reg = (\<lambda>i. 0), v_sprite_flag = False, v_sprite_page = 0, v_tvram_enable = False, v_kanji_offset = 0, v_kanji_code_h = 0,
     v_kanji_code_l = 0, v_layerscr = (\<lambda>i. \<lparr>min_x = 0, max_x = 16, min_y = 0, max_y = 3\<rparr>), v_display_plane = 0, v_display_page_sel = 0,
     v_vblank_flag = False, v_layer_ctrl = 0x0f\<rparr>"

definition small_screen :: "unit tvs" where
  "small_screen = \<lparr>x_mem = \<lparr>t_ram = (\<lambda>i. 0), t_rom = (\<lambda>i. 0), t_cmos = Nvram32 (\<lambda>i. 0), t_gfxvram = (\<lambda>i. of_nat i), t_txtvram = (\<lambda>i. 0),
     t_mainmem_enable = False, t_ankcg_enable = False, t_ram_enable = False, t_system_port = 0, t_bank_cb000_r = Ram_at 0,
     t_bank_cb000_w = Ram_at 0, t_bank_f8000_r = Ram_at 0, t_bank_f8000_w = Ram_at 0, t_vram_mask = (\<lambda>i. 0), t_vram_mask_addr = 0,
     t_video = small_vid\<rparr>, x_palette = (\<lambda>i. (0, 0, 0)), x_palette16 = (\<lambda>l i. (of_nat i, of_nat l, 0)), x_screen = None,
     x_sprite_due = False, x_vblank_due = False, x_pic = ()\<rparr>"

lemma small_fits: "0 \<le> line \<Longrightarrow> line \<le> 3 \<Longrightarrow> line_fits small_vid layer line"
  by (simp add: line_fits_def Let_def start_16_def page_base_def scroll_offset_def start_gap_def linesize_16_def small_vid_def
      sphscroll_def two_layers_def hzoom_def)

theorem screen_16_over_16_witness:
  "screen_update small_screen \<lparr>min_x = 0, max_x = 16, min_y = 0, max_y = 3\<rparr> (\<lambda>y x. 0) = Some (\<lambda>y x.
     let front = (if tst (v_video_reg (vid_of small_screen) 1) 0x01 then 1 else 0);
         layer = (\<lambda>n. layer_pixel_16 small_screen (clip (v_layerscr (vid_of small_screen) n) \<lparr>min_x = 0, max_x = 16, min_y = 0, max_y = 3\<rparr>) n y x)
     in overlay (overlay (clear_bitmap \<lparr>min_x = 0, max_x = 16, min_y = 0, max_y = 3\<rparr> (\<lambda>y x. 0) y x) (layer (1 - front))) (layer front))"
proof (rule screen_16_over_16)
  have v: "vid_of small_screen = small_vid" by (simp add: small_screen_def)
  have z: "vzoom small_vid layer = 1" for layer by (simp add: vzoom_def small_vid_def)
  show "\<forall>layer\<in>{0, 1}. shows_16 small_screen (clip (v_layerscr (vid_of small_screen) layer) \<lparr>min_x = 0, max_x = 16, min_y = 0, max_y = 3\<rparr>) layer \<and>
      min_y (clip (v_layerscr (vid_of small_screen) layer) \<lparr>min_x = 0, max_x = 16, min_y = 0, max_y = 3\<rparr>)
        \<le> max_y (clip (v_layerscr (vid_of small_screen) layer) \<lparr>min_x = 0, max_x = 16, min_y = 0, max_y = 3\<rparr>)"
    unfolding shows_16_def Let_def v layer_line_def z using small_fits
    by (simp add: clip_def two_layers_def linesize_16_def) (simp add: small_vid_def)
qed (simp_all add: small_screen_def small_vid_def)

subsection \<open>Bounds\<close>

text \<open>A line of size 0 is a division by zero as soon as a column is drawn.\<close>

lemma zero_line_divides:
  "linesize_16 (vid_of s) layer = 0 \<Longrightarrow> layer = 0 \<or> two_layers (vid_of s) \<Longrightarrow> min_x r < max_x r \<Longrightarrow> draw_scan_layer_16 s r layer line row bm = None"
  "v_crtc_reg (vid_of s) 20 = 0 \<Longrightarrow> min_x r < max_x r \<Longrightarrow> draw_scan_layer_256 s r line row bm = None"
  using mode_16.scan_fails [where s = s and layer = layer and row = row] mode_256.scan_fails [where s = s and row = row]
  by (auto simp: draw_scan_layer_16_def draw_scan_layer_256_def next_16_def next_256_def Let_def mult.commute split: prod.split)

text \<open>The cells of a line reach its end and pass it by less than a cell.\<close>

lemma cells_span: "x < stop \<Longrightarrow> 0 < w \<Longrightarrow> stop - x \<le> int (cells x stop w * w) \<and> int (cells x stop w * w) < stop - x + int w"
proof -
  assume x: "x < stop" and w: "0 < w"
  let ?a = "stop - x + int w - 1"
  have "0 \<le> ?a div int w" using x w by (intro pos_imp_zdiv_nonneg_iff [THEN iffD2]) simp_all
  then have c: "int (cells x stop w * w) = ?a div int w * int w" by (simp add: cells_def)
  have "?a = ?a div int w * int w + ?a mod int w" by simp
  moreover have "0 \<le> ?a mod int w" "?a mod int w < int w" using w by simp_all
  ultimately show ?thesis unfolding c by linarith
qed

text \<open>Every read of the renderers lies in the video memory of 0x80000 bytes.\<close>

lemma reads_16: "layer \<le> 1 \<Longrightarrow> layer = 0 \<or> two_layers v \<Longrightarrow> nat (mask_16 v off) + layer * 0x40000 < 0x80000"
proof -
  assume l: "layer \<le> 1" "layer = 0 \<or> two_layers v"
  have "take_bit 18 off < 2 ^ 18" "take_bit 19 off < 2 ^ 19" by (rule take_bit_int_less_exp)+
  then show ?thesis using l by (cases "layer = 0") (auto simp: mask_16_take)
qed

definition even_offset :: "u32 \<Rightarrow> bool" where
  "even_offset off \<longleftrightarrow> \<not> bit off 0"

lemma hicolour_start_even: "hicolour_start v layer line = Some off \<Longrightarrow> even_offset off"
  by (auto simp: hicolour_start_def even_offset_def bit_simps split: Option.bind_splits)

lemma hicolour_next_even: "even_offset off \<Longrightarrow> hicolour_next v layer off = Some off' \<Longrightarrow> even_offset off'"
proof -
  assume e: "even_offset off" and n: "hicolour_next v layer off = Some off'"
  have "even off" using e by (simp add: even_offset_def bit_0)
  moreover have "even (hicolour_linesize v layer)" by (simp add: hicolour_linesize_def)
  ultimately have "even off'" using n by (auto simp: hicolour_next_def Let_def split: if_splits)
  then show ?thesis by (simp add: even_offset_def bit_0)
qed

lemma reads_hicolour: "even_offset off \<Longrightarrow> layer \<le> 1 \<Longrightarrow> hicolour_address v layer off + 1 < 0x80000"
proof -
  assume e: "even_offset off" and l: "layer \<le> 1"
  have f: "(0x3ffff :: u32) = mask 18" "(0x7fff8 :: u32) = push_bit 3 (mask 16)" "(3 :: u32) = mask 2" "(4 :: u32) = push_bit 2 (mask 1)"
    by (simp_all add: mask_eq_exp_minus_1 push_bit_eq_mult)
  have small: "unat a + 1 < 0x40000" if "\<And>i. bit a i \<Longrightarrow> 0 < i \<and> i < 18" for a :: u32
  proof -
    have "a = take_bit 18 a" by (rule bit_word_eqI) (use that in \<open>auto simp: bit_simps\<close>)
    then have "unat a < 2 ^ 18" by (metis take_bit_nat_less_exp unsigned_take_bit_eq)
    moreover have "even (unat a)"
    proof -
      have "\<not> bit a 0" using that [of 0] by blast
      then have "\<not> bit (unat a) 0" unfolding bit_unsigned_iff by blast
      then show ?thesis by (simp add: bit_0)
    qed
    ultimately show ?thesis by (cases "unat a + 1 = 0x40000") auto
  qed
  have "unat (off AND 0x3ffff) + 1 < 0x40000" unfolding f by (rule small) (use e in \<open>auto simp: even_offset_def bit_simps intro: gr0I\<close>)
  moreover have "unat (drop_bit 1 (off AND 0x7fff8) OR (off AND 3)) + 1 < 0x40000"
    unfolding f by (rule small) (use e in \<open>auto simp: even_offset_def bit_simps intro: gr0I\<close>)
  moreover have "unat (drop_bit 2 (off AND 4)) \<le> 1"
  proof -
    have "drop_bit 2 (off AND 4) = of_bool (bit off 2)" unfolding f by (rule bit_word_eqI) (auto simp: bit_simps numeral_2_eq_2)
    then show ?thesis by simp
  qed
  moreover have "layer * 0x40000 \<le> 0x40000" using l by simp
  ultimately show ?thesis unfolding hicolour_address_def by (cases "two_layers v") (simp_all del: mult_le_cancel2, linarith?)
qed

subsection \<open>Exact single precision\<close>

lemma half_even_int: "half_even (of_int k) = k"
  by (simp add: half_even_def)

lemma single_exact: "n < 2 ^ 24 \<Longrightarrow> single (of_nat n) = of_nat n"
proof -
  assume n: "n < 2 ^ 24"
  show ?thesis
  proof (cases "n = 0")
    case False
    have f: "nat \<lfloor>\<bar>of_nat n :: rat\<bar> * 2 ^ 30\<rfloor> = n * 2 ^ 30"
    proof -
      have "\<bar>of_nat n :: rat\<bar> * 2 ^ 30 = of_int (int (n * 2 ^ 30))" by simp
      then show ?thesis by (simp only: floor_of_int nat_int)
    qed
    have b: "floorlog 2 (n * 2 ^ 30) = floorlog 2 n + 30" using False by (intro floorlog_power) simp_all
    have l: "floorlog 2 n \<le> 24" using n by (simp add: floorlog_leI)
    have h: "half_even (of_nat n * 2 ^ m) = int n * 2 ^ m" for m
      using half_even_int [of "int n * 2 ^ m"] by simp
    show ?thesis
    proof (cases "floorlog 2 n = 24")
      case True
      show ?thesis unfolding single_def Let_def f b True using h [of 0] by simp
    next
      case less: False
      then have m: "\<not> 54 \<le> floorlog 2 n + 30" using l by simp
      show ?thesis unfolding single_def Let_def f b if_not_P [OF m] h by simp
    qed
  qed (simp add: single_def half_even_def Let_def)
qed

text \<open>A layer whose left border agrees with its display start begins at its scroll offset.\<close>

lemma float_advance_zero: "uint off < 2 ^ 24 \<Longrightarrow> float_advance 0 zoom off = Some off"
proof -
  assume o: "uint off < 2 ^ 24"
  have z: "single 0 = 0" using single_exact [of 0] by simp
  have u: "uint off = int (unat off)" by simp
  have "unat off < 2 ^ 24" using o unfolding u by (simp only: of_nat_less_numeral_power_cancel_iff)
  then have "single (of_nat (unat off)) = of_nat (unat off)" by (rule single_exact)
  then have s: "single (of_int (uint off)) = of_int (uint off)" unfolding u of_int_of_nat_eq .
  have t: "to_uint (of_int k) = Some (of_int k)" if "0 \<le> k" "k < 2 ^ 32" for k
  proof -
    have "(of_int k :: rat) < of_int (2 ^ 32)" using that(2) by (simp only: of_int_less_iff)
    then show ?thesis using that(1) by (simp add: to_uint_def)
  qed
  have "uint off < 2 ^ 32" by (rule less_trans [OF o]) simp
  then have "to_uint (of_int (uint off)) = Some (of_int (uint off))" by (intro t uint_ge_0)
  then have "to_uint (of_int (uint off)) = Some off" unfolding word_of_int_uint .
  then show ?thesis by (simp only: float_advance_def z s of_int_0 mult_zero_left add_0_right)
qed

end
