(* ===== verification/I386_Alu.thy ===== *)
theory I386_Alu
  imports Towns_Prelude
begin

text \<open>
  The arithmetic of the processor, \<open>src/devices/cpu/i386\<close>: the flag macros of \<open>i386priv.h\<close>, the additions,
  subtractions and logical operations of \<open>i386.cpp\<close>, the 8-bit shifts and rotates and the decimal adjustments of
  \<open>i386ops.hxx\<close>. Results keep the width the source computes them in. The flags that nothing here reads stay outside. A
  shift by a negative number, undefined in C++, is \<open>None\<close>.
\<close>

unbundle bit_operations_syntax

subsection \<open>Flags\<close>

record flags =
  f_CF :: bool
  f_PF :: bool
  f_AF :: bool
  f_ZF :: bool
  f_SF :: bool
  f_OF :: bool

definition no_flags :: flags where
  "no_flags = \<lparr>f_CF = False, f_PF = False, f_AF = False, f_ZF = False, f_SF = False, f_OF = False\<rparr>"

text \<open>The table that \<open>i386_common_init\<close> fills: an even number of ones.\<close>

definition parity_table :: "u8 \<Rightarrow> bool" where
  "parity_table i = even (foldl (\<lambda>c j. if tst i (push_bit j 1) then c + 1 else c) (0 :: nat) [0..<8])"

definition SetCF8 :: "u16 \<Rightarrow> flags \<Rightarrow> flags" where
  "SetCF8 x f = f\<lparr>f_CF := tst x 0x100\<rparr>"

definition SetCF16 :: "u32 \<Rightarrow> flags \<Rightarrow> flags" where
  "SetCF16 x f = f\<lparr>f_CF := tst x 0x10000\<rparr>"

definition SetCF32 :: "u64 \<Rightarrow> flags \<Rightarrow> flags" where
  "SetCF32 x f = f\<lparr>f_CF := tst x (push_bit 32 1)\<rparr>"

definition SetOF_Add8 :: "u16 \<Rightarrow> u8 \<Rightarrow> u8 \<Rightarrow> flags \<Rightarrow> flags" where
  "SetOF_Add8 r s d f = f\<lparr>f_OF := tst ((r XOR ucast s) AND (r XOR ucast d)) 0x80\<rparr>"

definition SetOF_Add16 :: "u32 \<Rightarrow> u16 \<Rightarrow> u16 \<Rightarrow> flags \<Rightarrow> flags" where
  "SetOF_Add16 r s d f = f\<lparr>f_OF := tst ((r XOR ucast s) AND (r XOR ucast d)) 0x8000\<rparr>"

definition SetOF_Add32 :: "u64 \<Rightarrow> u32 \<Rightarrow> u32 \<Rightarrow> flags \<Rightarrow> flags" where
  "SetOF_Add32 r s d f = f\<lparr>f_OF := tst ((r XOR ucast s) AND (r XOR ucast d)) 0x80000000\<rparr>"

definition SetOF_Sub8 :: "u16 \<Rightarrow> u8 \<Rightarrow> u8 \<Rightarrow> flags \<Rightarrow> flags" where
  "SetOF_Sub8 r s d f = f\<lparr>f_OF := tst ((ucast d XOR ucast s) AND (ucast d XOR r)) 0x80\<rparr>"

definition SetOF_Sub16 :: "u32 \<Rightarrow> u16 \<Rightarrow> u16 \<Rightarrow> flags \<Rightarrow> flags" where
  "SetOF_Sub16 r s d f = f\<lparr>f_OF := tst ((ucast d XOR ucast s) AND (ucast d XOR r)) 0x8000\<rparr>"

definition SetOF_Sub32 :: "u64 \<Rightarrow> u32 \<Rightarrow> u32 \<Rightarrow> flags \<Rightarrow> flags" where
  "SetOF_Sub32 r s d f = f\<lparr>f_OF := tst ((ucast d XOR ucast s) AND (ucast d XOR r)) 0x80000000\<rparr>"

definition SetAF :: "'a::len word \<Rightarrow> 'a word \<Rightarrow> 'a word \<Rightarrow> flags \<Rightarrow> flags" where
  "SetAF x y z f = f\<lparr>f_AF := tst (x XOR (y XOR z)) 0x10\<rparr>"

definition SetSZPF8 :: "u16 \<Rightarrow> flags \<Rightarrow> flags" where
  "SetSZPF8 x f = f\<lparr>f_ZF := (ucast x :: u8) = 0, f_SF := tst x 0x80, f_PF := parity_table (ucast (x AND 0xff))\<rparr>"

definition SetSZPF16 :: "u32 \<Rightarrow> flags \<Rightarrow> flags" where
  "SetSZPF16 x f = f\<lparr>f_ZF := (ucast x :: u16) = 0, f_SF := tst x 0x8000, f_PF := parity_table (ucast (x AND 0xff))\<rparr>"

definition SetSZPF32 :: "u64 \<Rightarrow> flags \<Rightarrow> flags" where
  "SetSZPF32 x f = f\<lparr>f_ZF := (ucast x :: u32) = 0, f_SF := tst x 0x80000000, f_PF := parity_table (ucast (x AND 0xff))\<rparr>"

subsection \<open>Logic\<close>

definition clear_CO :: "flags \<Rightarrow> flags" where
  "clear_CO f = f\<lparr>f_CF := False, f_OF := False\<rparr>"

definition OR8 :: "u8 \<Rightarrow> u8 \<Rightarrow> flags \<Rightarrow> u8 \<times> flags" where
  "OR8 dst src f = (let res = dst OR src in (res, SetSZPF8 (ucast res) (clear_CO f)))"

definition OR16 :: "u16 \<Rightarrow> u16 \<Rightarrow> flags \<Rightarrow> u16 \<times> flags" where
  "OR16 dst src f = (let res = dst OR src in (res, SetSZPF16 (ucast res) (clear_CO f)))"

definition OR32 :: "u32 \<Rightarrow> u32 \<Rightarrow> flags \<Rightarrow> u32 \<times> flags" where
  "OR32 dst src f = (let res = dst OR src in (res, SetSZPF32 (ucast res) (clear_CO f)))"

definition AND8 :: "u8 \<Rightarrow> u8 \<Rightarrow> flags \<Rightarrow> u8 \<times> flags" where
  "AND8 dst src f = (let res = dst AND src in (res, SetSZPF8 (ucast res) (clear_CO f)))"

definition AND16 :: "u16 \<Rightarrow> u16 \<Rightarrow> flags \<Rightarrow> u16 \<times> flags" where
  "AND16 dst src f = (let res = dst AND src in (res, SetSZPF16 (ucast res) (clear_CO f)))"

definition AND32 :: "u32 \<Rightarrow> u32 \<Rightarrow> flags \<Rightarrow> u32 \<times> flags" where
  "AND32 dst src f = (let res = dst AND src in (res, SetSZPF32 (ucast res) (clear_CO f)))"

definition XOR8 :: "u8 \<Rightarrow> u8 \<Rightarrow> flags \<Rightarrow> u8 \<times> flags" where
  "XOR8 dst src f = (let res = dst XOR src in (res, SetSZPF8 (ucast res) (clear_CO f)))"

definition XOR16 :: "u16 \<Rightarrow> u16 \<Rightarrow> flags \<Rightarrow> u16 \<times> flags" where
  "XOR16 dst src f = (let res = dst XOR src in (res, SetSZPF16 (ucast res) (clear_CO f)))"

definition XOR32 :: "u32 \<Rightarrow> u32 \<Rightarrow> flags \<Rightarrow> u32 \<times> flags" where
  "XOR32 dst src f = (let res = dst XOR src in (res, SetSZPF32 (ucast res) (clear_CO f)))"

subsection \<open>Addition and subtraction\<close>

definition SBB8 :: "u8 \<Rightarrow> u8 \<Rightarrow> u8 \<Rightarrow> flags \<Rightarrow> u8 \<times> flags" where
  "SBB8 dst src b f = (let res = ucast dst - ucast src - ucast b :: u16
     in (ucast res, SetSZPF8 res (SetAF res (ucast src) (ucast dst) (SetOF_Sub8 res src dst (SetCF8 res f)))))"

definition SBB16 :: "u16 \<Rightarrow> u16 \<Rightarrow> u16 \<Rightarrow> flags \<Rightarrow> u16 \<times> flags" where
  "SBB16 dst src b f = (let res = ucast dst - ucast src - ucast b :: u32
     in (ucast res, SetSZPF16 res (SetAF res (ucast src) (ucast dst) (SetOF_Sub16 res src dst (SetCF16 res f)))))"

definition SBB32 :: "u32 \<Rightarrow> u32 \<Rightarrow> u32 \<Rightarrow> flags \<Rightarrow> u32 \<times> flags" where
  "SBB32 dst src b f = (let res = ucast dst - ucast src - ucast b :: u64
     in (ucast res, SetSZPF32 res (SetAF res (ucast src) (ucast dst) (SetOF_Sub32 res src dst (SetCF32 res f)))))"

definition ADC8 :: "u8 \<Rightarrow> u8 \<Rightarrow> u8 \<Rightarrow> flags \<Rightarrow> u8 \<times> flags" where
  "ADC8 dst src c f = (let res = ucast dst + ucast src + ucast c :: u16
     in (ucast res, SetSZPF8 res (SetAF res (ucast src) (ucast dst) (SetOF_Add8 res src dst (SetCF8 res f)))))"

definition ADC16 :: "u16 \<Rightarrow> u16 \<Rightarrow> u8 \<Rightarrow> flags \<Rightarrow> u16 \<times> flags" where
  "ADC16 dst src c f = (let res = ucast dst + ucast src + ucast c :: u32
     in (ucast res, SetSZPF16 res (SetAF res (ucast src) (ucast dst) (SetOF_Add16 res src dst (SetCF16 res f)))))"

definition ADC32 :: "u32 \<Rightarrow> u32 \<Rightarrow> u32 \<Rightarrow> flags \<Rightarrow> u32 \<times> flags" where
  "ADC32 dst src c f = (let res = ucast dst + ucast src + ucast c :: u64
     in (ucast res, SetSZPF32 res (SetAF res (ucast src) (ucast dst) (SetOF_Add32 res src dst (SetCF32 res f)))))"

definition INC8 :: "u8 \<Rightarrow> flags \<Rightarrow> u8 \<times> flags" where
  "INC8 dst f = (let res = ucast dst + 1 :: u16 in (ucast res, SetSZPF8 res (SetAF res 1 (ucast dst) (SetOF_Add8 res 1 dst f))))"

definition INC16 :: "u16 \<Rightarrow> flags \<Rightarrow> u16 \<times> flags" where
  "INC16 dst f = (let res = ucast dst + 1 :: u32 in (ucast res, SetSZPF16 res (SetAF res 1 (ucast dst) (SetOF_Add16 res 1 dst f))))"

definition INC32 :: "u32 \<Rightarrow> flags \<Rightarrow> u32 \<times> flags" where
  "INC32 dst f = (let res = ucast dst + 1 :: u64 in (ucast res, SetSZPF32 res (SetAF res 1 (ucast dst) (SetOF_Add32 res 1 dst f))))"

definition DEC8 :: "u8 \<Rightarrow> flags \<Rightarrow> u8 \<times> flags" where
  "DEC8 dst f = (let res = ucast dst - 1 :: u16 in (ucast res, SetSZPF8 res (SetAF res 1 (ucast dst) (SetOF_Sub8 res 1 dst f))))"

definition DEC16 :: "u16 \<Rightarrow> flags \<Rightarrow> u16 \<times> flags" where
  "DEC16 dst f = (let res = ucast dst - 1 :: u32 in (ucast res, SetSZPF16 res (SetAF res 1 (ucast dst) (SetOF_Sub16 res 1 dst f))))"

definition DEC32 :: "u32 \<Rightarrow> flags \<Rightarrow> u32 \<times> flags" where
  "DEC32 dst f = (let res = ucast dst - 1 :: u64 in (ucast res, SetSZPF32 res (SetAF res 1 (ucast dst) (SetOF_Sub32 res 1 dst f))))"

subsection \<open>Shifts and rotates\<close>

text \<open>The operation is bits 3 to 5 of the second opcode byte; shifts by one set the overflow flag in their own way.\<close>

definition shift_op :: "u8 \<Rightarrow> nat" where
  "shift_op modrm = unat (drop_bit 3 modrm AND 0x7)"

definition shift_once8 :: "nat \<Rightarrow> u32 \<Rightarrow> flags \<Rightarrow> u8 \<times> flags" where
  "shift_once8 op src f =
     (let rotate = (\<lambda>dst cf. (dst, f\<lparr>f_CF := cf, f_OF := tst (src XOR ucast dst) 0x80\<rparr>));
          shifted = (\<lambda>dst cf ov. (dst, SetSZPF8 (ucast dst) (f\<lparr>f_CF := cf, f_OF := ov\<rparr>)));
          cf = of_bool (f_CF f) :: u32
      in if op = 0 then rotate (ucast (push_bit 1 src + of_bool (tst src 0x80))) (tst src 0x80)
         else if op = 1 then rotate (ucast (push_bit 7 (of_bool (tst src 0x1)) OR drop_bit 1 src)) (tst src 0x1)
         else if op = 2 then rotate (ucast (push_bit 1 src + cf)) (tst src 0x80)
         else if op = 3 then rotate (ucast (push_bit 7 cf OR drop_bit 1 src)) (tst src 0x1)
         else if op = 5 then (let dst = ucast (drop_bit 1 src) :: u8 in shifted dst (tst src 0x1) (tst dst 0x80))
         else if op = 7 then shifted (word_of_int (drop_bit 1 (sint (ucast src :: u8)))) (tst src 0x1) False
         else (let dst = ucast (push_bit 1 src) :: u8 in shifted dst (tst src 0x80) (tst (push_bit 7 (of_bool (tst src 0x80)) XOR dst) 0x80)))"

definition shift_many8 :: "nat \<Rightarrow> u32 \<Rightarrow> nat \<Rightarrow> u8 \<Rightarrow> flags \<Rightarrow> (u8 \<times> flags) option" where
  "shift_many8 op src shift dst0 f =
     (if op = 0 then
        (if shift mod 8 = 0 then
           Some (dst0, if shift mod 32 div 8 \<noteq> 0 then f\<lparr>f_CF := bit src 0, f_OF := bit src 0 \<noteq> bit src 7\<rparr> else f)
         else (let s = shift mod 8; dst = ucast (push_bit s (src AND drop_bit s 0xff) OR drop_bit (8 - s) (src AND push_bit (8 - s) 0xff)) :: u8
               in Some (dst, f\<lparr>f_CF := bit dst 0, f_OF := bit dst 0 \<noteq> bit dst 7\<rparr>)))
      else if op = 1 then
        (if shift mod 8 = 0 then
           Some (dst0, if shift mod 32 div 8 \<noteq> 0 then f\<lparr>f_CF := bit src 7, f_OF := bit src 7 \<noteq> bit src 6\<rparr> else f)
         else (let s = shift mod 8; dst = ucast (drop_bit s (src AND push_bit s 0xff) OR push_bit (8 - s) (src AND drop_bit (8 - s) 0xff)) :: u8
               in Some (dst, f\<lparr>f_CF := bit dst 7, f_OF := bit dst 7 \<noteq> bit dst 6\<rparr>)))
      else if op = 2 then
        (let s = shift mod 9 in if s = 0 then None
         else let dst = ucast (push_bit s (src AND drop_bit s 0xff) OR drop_bit (9 - s) (src AND push_bit (9 - s) 0xff) OR
                   push_bit (s - 1) (of_bool (f_CF f))) :: u8; cf = bit src (8 - s)
              in Some (dst, f\<lparr>f_CF := cf, f_OF := cf \<noteq> bit dst 7\<rparr>))
      else if op = 3 then
        (let s = shift mod 9;
             dst = ucast (drop_bit s (src AND push_bit s 0xff) OR push_bit (9 - s) (src AND drop_bit (8 - s) 0xff) OR
                   push_bit (8 - s) (of_bool (f_CF f))) :: u8
         in Some (dst, f\<lparr>f_CF := (if s \<noteq> 0 then bit src (s - 1) else f_CF f), f_OF := bit dst 7 \<noteq> bit dst 6\<rparr>))
      else if op = 5 then
        (let s = shift mod 32; dst = ucast (drop_bit s src) :: u8
         in if s = 0 then None else Some (dst, SetSZPF8 (ucast dst) (f\<lparr>f_CF := bit src (s - 1)\<rparr>)))
      else if op = 7 then
        (let s = shift mod 32; dst = word_of_int (drop_bit s (sint (ucast src :: u8))) :: u8
         in if s = 0 then None else Some (dst, SetSZPF8 (ucast dst) (f\<lparr>f_CF := bit src (s - 1)\<rparr>)))
      else
        (let s = shift mod 32; dst = ucast (push_bit s src) :: u8
         in Some (dst, SetSZPF8 (ucast dst) (f\<lparr>f_CF := s \<le> 8 \<and> bit src (8 - s)\<rparr>))))"

definition shift_rotate8 :: "u8 \<Rightarrow> u8 \<Rightarrow> u8 \<Rightarrow> flags \<Rightarrow> (u8 \<times> flags) option" where
  "shift_rotate8 modrm value shift f =
     (let src = ucast value
      in if shift = 0 then Some (value, f)
         else if shift = 1 then Some (shift_once8 (shift_op modrm) src f)
         else shift_many8 (shift_op modrm) src (unat shift) value f)"

subsection \<open>Decimal adjustment\<close>

text \<open>\<open>al\<close> is the register AL before, the result after; \<open>direction\<close> is 1 or -1.\<close>

definition decimal_adjust :: "int \<Rightarrow> u8 \<Rightarrow> flags \<Rightarrow> u8 \<times> flags" where
  "decimal_adjust direction al f =
     (let low = f_AF f \<or> al AND 0xf > 9;
          t = ucast al + of_int (direction * 0x06) :: u16;
          al1 = (if low then ucast t else al);
          f1 = (if low then f\<lparr>f_AF := True, f_CF := f_CF f \<or> tst t 0x100\<rparr> else f);
          tmpAL = (if low \<and> direction > 0 then al1 else al);
          high = f_CF f \<or> tmpAL > 0x99;
          al2 = (if high then al1 + of_int (direction * 0x60) else al1);
          f2 = (if high then f1\<lparr>f_CF := True\<rparr> else f1)
      in (al2, SetSZPF8 (ucast al2) f2))"

text \<open>\<open>ax\<close> is the register AX.\<close>

definition aaa :: "u16 \<Rightarrow> flags \<Rightarrow> u16 \<times> flags" where
  "aaa ax f =
     (if lo8 ax AND 0x0f > 9 \<or> f_AF f
      then (let ax1 = ax + 6; ax2 = set_hi8 ax1 (hi8 ax1 + 1) in (set_lo8 ax2 (lo8 ax2 AND 0x0f), f\<lparr>f_AF := True, f_CF := True\<rparr>))
      else (set_lo8 ax (lo8 ax AND 0x0f), f\<lparr>f_AF := False, f_CF := False\<rparr>))"

definition aas :: "u16 \<Rightarrow> flags \<Rightarrow> u16 \<times> flags" where
  "aas ax f =
     (if f_AF f \<or> lo8 ax AND 0xf > 9
      then (let ax1 = ax - 6; ax2 = set_hi8 ax1 (hi8 ax1 - 1) in (set_lo8 ax2 (lo8 ax2 AND 0x0f), f\<lparr>f_AF := True, f_CF := True\<rparr>))
      else (set_lo8 ax (lo8 ax AND 0x0f), f\<lparr>f_AF := False, f_CF := False\<rparr>))"

definition aad :: "u8 \<Rightarrow> u16 \<Rightarrow> flags \<Rightarrow> u16 \<times> flags" where
  "aad i ax f = (let al = lo8 ax + hi8 ax * i in (set_hi8 (set_lo8 ax al) 0, SetSZPF8 (ucast al) f))"

text \<open>\<open>None\<close> is the divide error.\<close>

definition aam :: "u8 \<Rightarrow> u16 \<Rightarrow> flags \<Rightarrow> (u16 \<times> flags) option" where
  "aam i ax f = (if i = 0 then None
     else let al = lo8 ax mod i in Some (set_lo8 (set_hi8 ax (lo8 ax div i)) al, SetSZPF8 (ucast al) f))"

subsection \<open>Carries and signs as numbers\<close>

lemma div_is: "k * m \<le> v \<Longrightarrow> v < (k + 1) * m \<Longrightarrow> v div m = k" for v m k :: int
proof -
  assume l: "k * m \<le> v" and u: "v < (k + 1) * m"
  have "0 \<le> v - k * m" "v - k * m < m" using l u by (simp_all add: algebra_simps)
  then have "(v - k * m) div m = 0" by (rule div_pos_pos_trivial)
  moreover have "m \<noteq> 0" using l u by auto
  ultimately show ?thesis using div_mult_self1 [of m "v - k * m" k] by (simp add: algebra_simps)
qed

lemma bit_odd: "bit v n = odd (v div 2 ^ n)" for v :: int
  by (simp add: bit_iff_odd)

text \<open>The top bit of a two's complement sum and difference of numbers below \<open>2 * m\<close>, and their signed ranges.\<close>

definition signed_of :: "int \<Rightarrow> int \<Rightarrow> int" where
  "signed_of m a = (if m \<le> a then a - 2 * m else a)"

lemma quarter:
  "0 < m \<Longrightarrow> - 2 * m \<le> v \<Longrightarrow> v < 4 * m \<Longrightarrow> odd (v div m) = (- m \<le> v \<and> v < 0 \<or> m \<le> v \<and> v < 2 * m \<or> 3 * m \<le> v)" for v m :: int
proof -
  assume m: "0 < m" "- 2 * m \<le> v" "v < 4 * m"
  consider "v < - m" | "- m \<le> v" "v < 0" | "0 \<le> v" "v < m" | "m \<le> v" "v < 2 * m" | "2 * m \<le> v" "v < 3 * m" | "3 * m \<le> v" by linarith
  then show ?thesis
  proof cases
    case 1 then have "v div m = - 2" using m by (intro div_is) simp_all
    then show ?thesis using 1 m by simp
  next
    case 2 then have "v div m = - 1" using m by (intro div_is) simp_all
    then show ?thesis using 2 m by simp
  next
    case 3 then have "v div m = 0" using m by (intro div_is) simp_all
    then show ?thesis using 3 m by simp
  next
    case 4 then have "v div m = 1" using m by (intro div_is) simp_all
    then show ?thesis using 4 m by simp
  next
    case 5 then have "v div m = 2" using m by (intro div_is) simp_all
    then show ?thesis using 5 m by simp
  next
    case 6 then have "v div m = 3" using m by (intro div_is) simp_all
    then show ?thesis using 6 m by simp
  qed
qed

lemma overflow_add:
  "0 < m \<Longrightarrow> 0 \<le> a \<Longrightarrow> a < 2 * m \<Longrightarrow> 0 \<le> b \<Longrightarrow> b < 2 * m \<Longrightarrow> 0 \<le> c \<Longrightarrow> c \<le> 1 \<Longrightarrow>
     (odd ((a + b + c) div m) \<noteq> (m \<le> b) \<and> odd ((a + b + c) div m) \<noteq> (m \<le> a)) =
     (\<not> (- m \<le> signed_of m a + signed_of m b + c \<and> signed_of m a + signed_of m b + c < m))"
  using quarter [of m "a + b + c"] unfolding signed_of_def by (cases "m \<le> a"; cases "m \<le> b"; simp; linarith)

lemma overflow_sub:
  "0 < m \<Longrightarrow> 0 \<le> a \<Longrightarrow> a < 2 * m \<Longrightarrow> 0 \<le> b \<Longrightarrow> b < 2 * m \<Longrightarrow> 0 \<le> c \<Longrightarrow> c \<le> 1 \<Longrightarrow>
     ((m \<le> a) \<noteq> (m \<le> b) \<and> (m \<le> a) \<noteq> odd ((a - b - c) div m)) =
     (\<not> (- m \<le> signed_of m a - signed_of m b - c \<and> signed_of m a - signed_of m b - c < m))"
  using quarter [of m "a - b - c"] unfolding signed_of_def by (cases "m \<le> a"; cases "m \<le> b"; simp; linarith)

text \<open>The carry out of the low four bits.\<close>

lemma split16: "a div 16 = A \<Longrightarrow> a mod 16 = x \<Longrightarrow> a = A * 16 + x \<and> 0 \<le> x \<and> x < 16" for a :: int
  by (auto simp: div_mult_mod_eq)

lemma half_carry_add: "0 \<le> c \<Longrightarrow> c \<le> 1 \<Longrightarrow>
  (odd ((a + b + c) div 16) \<noteq> (odd (b div 16) \<noteq> odd (a div 16))) = (16 \<le> a mod 16 + b mod 16 + c)" for a b c :: int
proof -
  assume c: "0 \<le> c" "c \<le> 1"
  obtain A x B y where q: "a div 16 = A" "a mod 16 = x" "b div 16 = B" "b mod 16 = y" by blast
  note d = split16 [OF q(1,2)] split16 [OF q(3,4)]
  have "(a + b + c) div 16 = A + B + of_bool (16 \<le> x + y + c)"
    by (rule div_is) (use d c in \<open>auto simp: algebra_simps\<close>)
  then show ?thesis unfolding q by auto
qed

lemma half_carry_sub: "0 \<le> c \<Longrightarrow> c \<le> 1 \<Longrightarrow>
  (odd ((a - b - c) div 16) \<noteq> (odd (b div 16) \<noteq> odd (a div 16))) = (a mod 16 < b mod 16 + c)" for a b c :: int
proof -
  assume c: "0 \<le> c" "c \<le> 1"
  obtain A x B y where q: "a div 16 = A" "a mod 16 = x" "b div 16 = B" "b mod 16 = y" by blast
  note d = split16 [OF q(1,2)] split16 [OF q(3,4)]
  have "(a - b - c) div 16 = A - B - of_bool (x < y + c)"
    by (rule div_is) (use d c in \<open>auto simp: algebra_simps\<close>)
  then show ?thesis unfolding q by auto
qed

lemma sign_bit: "bit (uint w) (LENGTH('a) - Suc 0) = (2 ^ (LENGTH('a) - Suc 0) \<le> uint w)" for w :: "'a::len word"
proof -
  let ?m = "2 ^ (LENGTH('a) - Suc 0) :: int"
  have u: "uint w < 2 * ?m" using uint_lt2p [of w] by (simp add: power_Suc [symmetric] del: uint_lt2p)
  have p: "0 < ?m" and g: "0 \<le> uint w" by simp_all
  have "- 2 * ?m \<le> uint w" "uint w < 4 * ?m" using u p g by linarith+
  then have "odd (uint w div ?m) = (- ?m \<le> uint w \<and> uint w < 0 \<or> ?m \<le> uint w \<and> uint w < 2 * ?m \<or> 3 * ?m \<le> uint w)"
    by (intro quarter [OF p])
  then show ?thesis unfolding bit_odd using u g by linarith
qed

lemma sint_signed_of: "sint w = signed_of (2 ^ (LENGTH('a) - Suc 0)) (uint w)" for w :: "'a::len word"
proof -
  let ?n = "LENGTH('a) - Suc 0"
  have n: "Suc ?n = LENGTH('a)" by simp
  have t: "take_bit LENGTH('a) (uint w) = uint w" by (rule take_bit_int_eq_self) simp_all
  have "sint w = signed_take_bit ?n (uint w)" by (simp add: sint_uint)
  also have "\<dots> = uint w - 2 ^ Suc ?n * of_bool (bit (uint w) ?n)"
    unfolding signed_take_bit_eq_take_bit_minus n t ..
  finally have "sint w = uint w - 2 ^ Suc ?n * of_bool (2 ^ ?n \<le> uint w)" unfolding sign_bit .
  then show ?thesis unfolding power_Suc by (simp add: signed_of_def del: One_nat_def)
qed

text \<open>The six flags of a sum and of a difference, in numbers.\<close>

definition result_flags :: "'a::len word \<Rightarrow> flags \<Rightarrow> bool" where
  "result_flags r f \<longleftrightarrow> f_ZF f = (r = 0) \<and> f_SF f = (sint r < 0) \<and> f_PF f = parity_table (ucast r)"

definition sum_flags :: "'a::len word \<Rightarrow> 'a word \<Rightarrow> int \<Rightarrow> 'a word \<times> flags \<Rightarrow> bool" where
  "sum_flags d s c p = (case p of (r, f) \<Rightarrow>
     uint r = (uint d + uint s + c) mod 2 ^ LENGTH('a) \<and> f_CF f = (2 ^ LENGTH('a) \<le> uint d + uint s + c) \<and>
     f_OF f = (\<not> (- (2 ^ (LENGTH('a) - 1)) \<le> sint d + sint s + c \<and> sint d + sint s + c < 2 ^ (LENGTH('a) - 1))) \<and>
     f_AF f = (16 \<le> uint d mod 16 + uint s mod 16 + c) \<and> result_flags r f)"

definition difference_flags :: "'a::len word \<Rightarrow> 'a word \<Rightarrow> int \<Rightarrow> 'a word \<times> flags \<Rightarrow> bool" where
  "difference_flags d s c p = (case p of (r, f) \<Rightarrow>
     uint r = (uint d - uint s - c) mod 2 ^ LENGTH('a) \<and> f_CF f = (uint d < uint s + c) \<and>
     f_OF f = (\<not> (- (2 ^ (LENGTH('a) - 1)) \<le> sint d - sint s - c \<and> sint d - sint s - c < 2 ^ (LENGTH('a) - 1))) \<and>
     f_AF f = (uint d mod 16 < uint s mod 16 + c) \<and> result_flags r f)"

text \<open>What the macros test in a wide result that stands for the number \<open>v\<close>.\<close>

definition wide_sum :: "'w::len word \<Rightarrow> 'a::len word \<Rightarrow> 'a word \<Rightarrow> int \<Rightarrow> bool" where
  "wide_sum res d s c \<longleftrightarrow> res = word_of_int (uint d + uint s + c) \<and> 0 \<le> c \<and> c \<le> 1 \<and> LENGTH('a) < LENGTH('w) \<and> 4 < LENGTH('a)"

definition wide_difference :: "'w::len word \<Rightarrow> 'a::len word \<Rightarrow> 'a word \<Rightarrow> int \<Rightarrow> bool" where
  "wide_difference res d s c \<longleftrightarrow> res = word_of_int (uint d - uint s - c) \<and> 0 \<le> c \<and> c \<le> 1 \<and> LENGTH('a) < LENGTH('w) \<and> 4 < LENGTH('a)"

lemma bit_wide: "i < LENGTH('w) \<Longrightarrow> bit (word_of_int v :: 'w::len word) i = bit v i"
  by (simp add: bit_word_of_int_iff)

lemma narrow: "LENGTH('a) \<le> LENGTH('w) \<Longrightarrow> uint (ucast (word_of_int v :: 'w::len word) :: 'a::len word) = v mod 2 ^ LENGTH('a)"
  by (simp add: unsigned_ucast_eq uint_word_of_int_eq take_bit_eq_mod [symmetric] min_def)

lemma negative_sign: "(sint w < 0) = bit w (LENGTH('a) - Suc 0)" for w :: "'a::len word"
proof -
  have "uint w < 2 * 2 ^ (LENGTH('a) - Suc 0)" using uint_lt2p [of w] by (simp add: power_Suc [symmetric] del: uint_lt2p)
  moreover have "bit w (LENGTH('a) - Suc 0) = bit (uint w) (LENGTH('a) - Suc 0)" by (simp add: bit_unsigned_iff)
  ultimately show ?thesis unfolding sign_bit sint_signed_of signed_of_def by simp
qed

lemma narrow_sign:
  "LENGTH('a) < LENGTH('w) \<Longrightarrow> bit (res :: 'w::len word) (LENGTH('a) - Suc 0) = (sint (ucast res :: 'a::len word) < 0)"
  unfolding negative_sign by (simp add: bit_ucast_iff)

lemma wide_sum_bits:
  assumes w: "wide_sum (res :: 'w::len word) (d :: 'a::len word) s c"
  shows "bit res LENGTH('a) = (2 ^ LENGTH('a) \<le> uint d + uint s + c)"
    "bit ((res XOR ucast s) AND (res XOR ucast d)) (LENGTH('a) - 1) =
       (\<not> (- (2 ^ (LENGTH('a) - 1)) \<le> sint d + sint s + c \<and> sint d + sint s + c < 2 ^ (LENGTH('a) - 1)))"
    "bit (res XOR (ucast s XOR ucast d)) 4 = (16 \<le> uint d mod 16 + uint s mod 16 + c)"
    "uint (ucast res :: 'a word) = (uint d + uint s + c) mod 2 ^ LENGTH('a)"
proof -
  let ?n = "LENGTH('a)" and ?v = "uint d + uint s + c"
  have l: "?n < LENGTH('w)" "4 < ?n" "0 \<le> c" "c \<le> 1" and r: "res = word_of_int ?v" using w by (simp_all add: wide_sum_def)
  have p: "2 ^ ?n = 2 * (2 ^ (?n - 1) :: int)" by (simp add: power_Suc [symmetric])
  have u: "0 \<le> uint d" "uint d < 2 ^ ?n" "0 \<le> uint s" "uint s < 2 ^ ?n" by simp_all
  have rb: "bit res i = odd (?v div 2 ^ i)" if "i < LENGTH('w)" for i unfolding r bit_wide [OF that] bit_odd ..
  have ub: "bit (ucast x :: 'w word) i = bit (uint x) i" if "i < ?n" for x :: "'a word" and i
    using that l(1) by (simp add: bit_ucast_iff bit_unsigned_iff)
  show "bit res ?n = (2 ^ ?n \<le> ?v)" unfolding rb [OF l(1)] using quarter [of "2 ^ ?n" ?v] u l(3,4) by simp
  show "bit ((res XOR ucast s) AND (res XOR ucast d)) (?n - 1) =
       (\<not> (- (2 ^ (?n - 1)) \<le> sint d + sint s + c \<and> sint d + sint s + c < 2 ^ (?n - 1)))"
    using overflow_add [of "2 ^ (?n - 1)" "uint d" "uint s" c] u p l
    by (simp add: bit_and_iff bit_xor_iff rb ub sign_bit sint_signed_of)
  show "bit (res XOR (ucast s XOR ucast d)) 4 = (16 \<le> uint d mod 16 + uint s mod 16 + c)"
    using half_carry_add [OF l(3,4), of "uint d" "uint s"] l(1,2) by (simp add: bit_xor_iff rb ub bit_odd)
  show "uint (ucast res :: 'a word) = ?v mod 2 ^ ?n" unfolding r using l(1) by (intro narrow) simp
qed

lemma wide_difference_bits:
  assumes w: "wide_difference (res :: 'w::len word) (d :: 'a::len word) s c"
  shows "bit res LENGTH('a) = (uint d < uint s + c)"
    "bit ((ucast d XOR ucast s) AND (ucast d XOR res)) (LENGTH('a) - 1) =
       (\<not> (- (2 ^ (LENGTH('a) - 1)) \<le> sint d - sint s - c \<and> sint d - sint s - c < 2 ^ (LENGTH('a) - 1)))"
    "bit (res XOR (ucast s XOR ucast d)) 4 = (uint d mod 16 < uint s mod 16 + c)"
    "uint (ucast res :: 'a word) = (uint d - uint s - c) mod 2 ^ LENGTH('a)"
proof -
  let ?n = "LENGTH('a)" and ?v = "uint d - uint s - c"
  have l: "?n < LENGTH('w)" "4 < ?n" "0 \<le> c" "c \<le> 1" and r: "res = word_of_int ?v" using w by (simp_all add: wide_difference_def)
  have p: "2 ^ ?n = 2 * (2 ^ (?n - 1) :: int)" by (simp add: power_Suc [symmetric])
  have u: "0 \<le> uint d" "uint d < 2 ^ ?n" "0 \<le> uint s" "uint s < 2 ^ ?n" by simp_all
  have rb: "bit res i = odd (?v div 2 ^ i)" if "i < LENGTH('w)" for i unfolding r bit_wide [OF that] bit_odd ..
  have ub: "bit (ucast x :: 'w word) i = bit (uint x) i" if "i < ?n" for x :: "'a word" and i
    using that l(1) by (simp add: bit_ucast_iff bit_unsigned_iff)
  have "- (2 ^ ?n) \<le> ?v" "?v < 2 ^ ?n" using u l(3,4) by linarith+
  then show "bit res ?n = (uint d < uint s + c)" unfolding rb [OF l(1)] using quarter [of "2 ^ ?n" ?v] u by auto
  show "bit ((ucast d XOR ucast s) AND (ucast d XOR res)) (?n - 1) =
       (\<not> (- (2 ^ (?n - 1)) \<le> sint d - sint s - c \<and> sint d - sint s - c < 2 ^ (?n - 1)))"
    using overflow_sub [of "2 ^ (?n - 1)" "uint d" "uint s" c] u p l
    by (simp add: bit_and_iff bit_xor_iff rb ub sign_bit sint_signed_of)
  show "bit (res XOR (ucast s XOR ucast d)) 4 = (uint d mod 16 < uint s mod 16 + c)"
    using half_carry_sub [OF l(3,4), of "uint d" "uint s"] l(1,2) by (simp add: bit_xor_iff rb ub bit_odd)
  show "uint (ucast res :: 'a word) = ?v mod 2 ^ ?n" unfolding r using l(1) by (intro narrow) simp
qed

subsection \<open>The flags of additions and subtractions\<close>

lemma mask_bits:
  "(x AND 0x10 = 0) = (\<not> bit x 4)" "(x AND 0x80 = 0) = (\<not> bit x 7)" "(x AND 0x100 = 0) = (\<not> bit x 8)"
  "(x AND 0x8000 = 0) = (\<not> bit x 15)" "(x AND 0x10000 = 0) = (\<not> bit x 16)" "(x AND 0x80000000 = 0) = (\<not> bit x 31)"
  "(x AND 0x100000000 = 0) = (\<not> bit x 32)" for x :: "'a::len word"
  using tst_exp [of x 4] tst_exp [of x 7] tst_exp [of x 8] tst_exp [of x 15] tst_exp [of x 16] tst_exp [of x 31] tst_exp [of x 32]
  by (simp_all add: push_bit_eq_mult)

lemmas set_flags = SetCF8_def SetCF16_def SetCF32_def SetOF_Add8_def SetOF_Add16_def SetOF_Add32_def SetOF_Sub8_def
  SetOF_Sub16_def SetOF_Sub32_def SetAF_def SetSZPF8_def SetSZPF16_def SetSZPF32_def

lemma low_byte_of: "8 \<le> LENGTH('a) \<Longrightarrow> LENGTH('a) \<le> LENGTH('w) \<Longrightarrow>
  (ucast (ucast (res :: 'w::len word) :: 'a::len word) :: u8) = ucast (res AND 0xff)"
proof -
  assume l: "8 \<le> LENGTH('a)" "LENGTH('a) \<le> LENGTH('w)"
  have m: "(0xff :: 'w word) = mask 8" by (simp add: mask_eq_exp_minus_1)
  show ?thesis unfolding m by (rule bit_word_eqI) (use l in \<open>auto simp: bit_ucast_iff bit_and_iff bit_mask_iff\<close>)
qed

lemma wide_sum_flags:
  assumes w: "wide_sum (res :: 'w::len word) (d :: 'a::len word) s c" and l: "8 \<le> LENGTH('a)"
  shows "sum_flags d s c (ucast res, f\<lparr>f_CF := bit res LENGTH('a), f_OF := bit ((res XOR ucast s) AND (res XOR ucast d)) (LENGTH('a) - Suc 0),
    f_AF := bit (res XOR (ucast s XOR ucast d)) 4, f_ZF := (ucast res :: 'a word) = 0, f_SF := bit res (LENGTH('a) - Suc 0),
    f_PF := parity_table (ucast (res AND 0xff))\<rparr>)"
proof -
  have n: "LENGTH('a) < LENGTH('w)" using w by (simp add: wide_sum_def)
  show ?thesis unfolding sum_flags_def result_flags_def
    using wide_sum_bits [OF w] narrow_sign [OF n, of res] low_byte_of [OF l, of res] n by (simp add: less_imp_le)
qed

lemma wide_difference_flags:
  assumes w: "wide_difference (res :: 'w::len word) (d :: 'a::len word) s c" and l: "8 \<le> LENGTH('a)"
  shows "difference_flags d s c (ucast res, f\<lparr>f_CF := bit res LENGTH('a), f_OF := bit ((ucast d XOR ucast s) AND (ucast d XOR res)) (LENGTH('a) - Suc 0),
    f_AF := bit (res XOR (ucast s XOR ucast d)) 4, f_ZF := (ucast res :: 'a word) = 0, f_SF := bit res (LENGTH('a) - Suc 0),
    f_PF := parity_table (ucast (res AND 0xff))\<rparr>)"
proof -
  have n: "LENGTH('a) < LENGTH('w)" using w by (simp add: wide_difference_def)
  show ?thesis unfolding difference_flags_def result_flags_def
    using wide_difference_bits [OF w] narrow_sign [OF n, of res] low_byte_of [OF l, of res] n by (simp add: less_imp_le)
qed

lemma widen_sum: "LENGTH('a) < LENGTH('w) \<Longrightarrow> 4 < LENGTH('a) \<Longrightarrow> LENGTH('c) \<le> LENGTH('a) \<Longrightarrow> uint (c :: 'c::len word) \<le> 1 \<Longrightarrow>
  wide_sum (ucast d + ucast s + ucast c :: 'w::len word) (d :: 'a::len word) s (uint c)"
  by (simp add: wide_sum_def)

lemma widen_difference: "LENGTH('a) < LENGTH('w) \<Longrightarrow> 4 < LENGTH('a) \<Longrightarrow> LENGTH('c) \<le> LENGTH('a) \<Longrightarrow> uint (c :: 'c::len word) \<le> 1 \<Longrightarrow>
  wide_difference (ucast d - ucast s - ucast c :: 'w::len word) (d :: 'a::len word) s (uint c)"
  by (simp add: wide_difference_def)

lemma adc_flags:
  "uint c \<le> 1 \<Longrightarrow> sum_flags d8 s8 (uint c) (ADC8 d8 s8 c f) \<and> sum_flags d16 s16 (uint c) (ADC16 d16 s16 c f) \<and>
    sum_flags d32 s32 (uint c) (ADC32 d32 s32 (ucast c) f)"
proof -
  assume c: "uint c \<le> 1"
  have e: "uint (ucast c :: u32) = uint c" using c by (simp add: unsigned_ucast_eq take_bit_int_eq_self_iff)
  have c32: "uint (ucast c :: u32) \<le> 1" using c e by simp
  have "sum_flags d8 s8 (uint c) (ADC8 d8 s8 c f)"
    using wide_sum_flags [OF widen_sum [where 'w = 16, of c d8 s8], of f] c by (simp add: ADC8_def set_flags mask_bits Let_def)
  moreover have "sum_flags d16 s16 (uint c) (ADC16 d16 s16 c f)"
    using wide_sum_flags [OF widen_sum [where 'w = 32, of c d16 s16], of f] c by (simp add: ADC16_def set_flags mask_bits Let_def)
  moreover have "sum_flags d32 s32 (uint c) (ADC32 d32 s32 (ucast c) f)"
    using wide_sum_flags [OF widen_sum [where 'w = 64, of "ucast c :: u32" d32 s32], of f] c32 e
    by (simp add: ADC32_def set_flags mask_bits Let_def)
  ultimately show ?thesis by blast
qed

lemma sbb_flags:
  "uint c \<le> 1 \<Longrightarrow> difference_flags d8 s8 (uint c) (SBB8 d8 s8 c f) \<and> difference_flags d16 s16 (uint c) (SBB16 d16 s16 (ucast c) f) \<and>
    difference_flags d32 s32 (uint c) (SBB32 d32 s32 (ucast c) f)"
proof -
  assume c: "uint c \<le> 1"
  have e: "uint (ucast c :: u32) = uint c" "uint (ucast c :: u16) = uint c" using c by (simp_all add: unsigned_ucast_eq take_bit_int_eq_self_iff)
  have c2: "uint (ucast c :: u32) \<le> 1" "uint (ucast c :: u16) \<le> 1" using c e by simp_all
  have "difference_flags d8 s8 (uint c) (SBB8 d8 s8 c f)"
    using wide_difference_flags [OF widen_difference [where 'w = 16, of c d8 s8], of f] c by (simp add: SBB8_def set_flags mask_bits Let_def)
  moreover have "difference_flags d16 s16 (uint c) (SBB16 d16 s16 (ucast c) f)"
    using wide_difference_flags [OF widen_difference [where 'w = 32, of "ucast c :: u16" d16 s16], of f] c2 e
    by (simp add: SBB16_def set_flags mask_bits Let_def)
  moreover have "difference_flags d32 s32 (uint c) (SBB32 d32 s32 (ucast c) f)"
    using wide_difference_flags [OF widen_difference [where 'w = 64, of "ucast c :: u32" d32 s32], of f] c2 e
    by (simp add: SBB32_def set_flags mask_bits Let_def)
  ultimately show ?thesis by blast
qed

text \<open>C34: the result and the six flags of an addition with carry and of a subtraction with borrow are those of the numbers,
  at 8, 16 and 32 bits.\<close>

theorem arithmetic_flags:
  "uint c \<le> 1 \<Longrightarrow> sum_flags d8 s8 (uint c) (ADC8 d8 s8 c f) \<and> sum_flags d16 s16 (uint c) (ADC16 d16 s16 c f) \<and>
    sum_flags d32 s32 (uint c) (ADC32 d32 s32 (ucast c) f) \<and> difference_flags d8 s8 (uint c) (SBB8 d8 s8 c f) \<and>
    difference_flags d16 s16 (uint c) (SBB16 d16 s16 (ucast c) f) \<and> difference_flags d32 s32 (uint c) (SBB32 d32 s32 (ucast c) f)"
  using adc_flags [of c d8 s8 f d16 s16 d32 s32] sbb_flags [of c d8 s8 f d16 s16 d32 s32] by blast

lemma arithmetic_flags_witness:
  "sum_flags 0x7f 0 1 (ADC8 0x7f 0 1 no_flags) \<and> sum_flags 0xffff 0 1 (ADC16 0xffff 0 1 no_flags) \<and> difference_flags 0 0xffffffff 1 (SBB32 0 0xffffffff 1 no_flags)"
  using arithmetic_flags [of 1 "0x7f" 0 no_flags "0xffff" 0 0 "0xffffffff"] by simp

text \<open>Increments and decrements keep the carry and change the other flags as an addition or subtraction of one.\<close>

lemma inc_is_add:
  "INC8 d8 f = (case ADC8 d8 1 0 f of (r, g) \<Rightarrow> (r, g\<lparr>f_CF := f_CF f\<rparr>))"
  "INC16 d16 f = (case ADC16 d16 1 0 f of (r, g) \<Rightarrow> (r, g\<lparr>f_CF := f_CF f\<rparr>))"
  "INC32 d32 f = (case ADC32 d32 1 0 f of (r, g) \<Rightarrow> (r, g\<lparr>f_CF := f_CF f\<rparr>))"
  by (simp_all add: INC8_def INC16_def INC32_def ADC8_def ADC16_def ADC32_def set_flags Let_def)

lemma dec_is_subtract:
  "DEC8 d8 f = (case SBB8 d8 1 0 f of (r, g) \<Rightarrow> (r, g\<lparr>f_CF := f_CF f\<rparr>))"
  "DEC16 d16 f = (case SBB16 d16 1 0 f of (r, g) \<Rightarrow> (r, g\<lparr>f_CF := f_CF f\<rparr>))"
  "DEC32 d32 f = (case SBB32 d32 1 0 f of (r, g) \<Rightarrow> (r, g\<lparr>f_CF := f_CF f\<rparr>))"
  by (simp_all add: DEC8_def DEC16_def DEC32_def SBB8_def SBB16_def SBB32_def set_flags Let_def)

subsection \<open>Shifts and rotates as operations on bits\<close>

text \<open>The carry and the byte as one 9-bit number.\<close>

definition nine_bits :: "bool \<Rightarrow> u8 \<Rightarrow> 9 word" where
  "nine_bits cf v = (if cf then push_bit 8 1 else 0) OR ucast v"

lemma bit_nine [simp]: "bit (nine_bits cf v) n = (if n = 8 then cf else bit v n)"
proof -
  have "bit v n \<Longrightarrow> n < 8" using bit_imp_le_length [of v n] by simp
  then show ?thesis unfolding nine_bits_def by (auto simp: bit_or_iff bit_push_bit_iff bit_ucast_iff bit_1_iff simp del: push_bit_of_1)
qed

lemma below8: "(\<forall>n<8. P n) = (P 0 \<and> P 1 \<and> P 2 \<and> P 3 \<and> P 4 \<and> P 5 \<and> P 6 \<and> P (7::nat))"
  by (simp add: numeral_eq_Suc All_less_Suc) blast

lemma byte_eq: "(v = w) = (\<forall>n<8. bit v n = bit w n)" for v w :: u8
  using bit_word_eqI [of v w] by auto

lemma bit_of_double: "bit (x * 2) n = (0 < n \<and> n < LENGTH('a) \<and> bit x (n - 1))" for x :: "'a::len word"
  using bit_push_bit_iff [of 1 x n] by (simp add: push_bit_eq_mult) (use bit_imp_le_length [of x "n - 1"] in auto)

lemmas bits_of_shift = bit_ucast_iff bit_or_iff bit_and_iff bit_push_bit_iff bit_drop_bit_eq bit_word_rotl_iff bit_word_rotr_iff
  bit_of_bool_iff bit_of_double numeral_2_eq_2 [symmetric]

lemma one_to_eight: "0 < s \<Longrightarrow> s < 9 \<Longrightarrow> s = 1 \<or> s = 2 \<or> s = 3 \<or> s = 4 \<or> s = 5 \<or> s = 6 \<or> s = 7 \<or> s = (8 :: nat)"
  by linarith

lemma rol_value: "0 < s \<Longrightarrow> s < 9 \<Longrightarrow> s \<noteq> 8 \<Longrightarrow>
  (ucast (push_bit s (ucast v AND drop_bit s 0xff) OR drop_bit (8 - s) (ucast v AND push_bit (8 - s) 0xff) :: u32) :: u8) = word_rotl s v"
  unfolding byte_eq below8 by (drule (1) one_to_eight, elim disjE; simp add: bits_of_shift)

lemma ror_value: "0 < s \<Longrightarrow> s < 9 \<Longrightarrow> s \<noteq> 8 \<Longrightarrow>
  (ucast (drop_bit s (ucast v AND push_bit s 0xff) OR push_bit (8 - s) (ucast v AND drop_bit (8 - s) 0xff) :: u32) :: u8) = word_rotr s v"
  unfolding byte_eq below8 by (drule (1) one_to_eight, elim disjE; simp add: bits_of_shift)

lemma rcl_value: "0 < s \<Longrightarrow> s < 9 \<Longrightarrow>
  (ucast (push_bit s (ucast v AND drop_bit s 0xff) OR drop_bit (9 - s) (ucast v AND push_bit (9 - s) 0xff) OR
     push_bit (s - 1) (of_bool cf) :: u32) :: u8) = ucast (word_rotl s (nine_bits cf v))"
  unfolding byte_eq below8 by (drule (1) one_to_eight, elim disjE; simp add: bits_of_shift)

lemma rcr_value: "0 < s \<Longrightarrow> s < 9 \<Longrightarrow>
  (ucast (drop_bit s (ucast v AND push_bit s 0xff) OR push_bit (9 - s) (ucast v AND drop_bit (8 - s) 0xff) OR
     push_bit (8 - s) (of_bool cf) :: u32) :: u8) = ucast (word_rotr s (nine_bits cf v))"
  unfolding byte_eq below8 by (drule (1) one_to_eight, elim disjE; simp add: bits_of_shift)

text \<open>What each instruction promises: the result and the bit shifted out last. The bits an arithmetic shift shifts out past
  the byte are copies of its sign.\<close>

definition shifted_value :: "nat \<Rightarrow> nat \<Rightarrow> bool \<Rightarrow> u8 \<Rightarrow> u8 \<Rightarrow> bool \<Rightarrow> bool" where
  "shifted_value op n cf v r cf' \<longleftrightarrow>
     (if op = 0 then r = word_rotl n v \<and> cf' = bit r 0
      else if op = 1 then r = word_rotr n v \<and> cf' = bit r 7
      else if op = 2 then nine_bits cf' r = word_rotl n (nine_bits cf v)
      else if op = 3 then nine_bits cf' r = word_rotr n (nine_bits cf v)
      else if op = 5 then r = drop_bit n v \<and> cf' = bit v (n - 1)
      else if op = 7 then r = signed_drop_bit n v \<and> cf' = bit v (min (n - 1) 7)
      else r = push_bit n v \<and> cf' = (n \<le> 8 \<and> bit v (8 - n)))"

lemma nine_eq: "(nine_bits a v = w) = (v = ucast w \<and> a = bit w 8)"
proof
  assume e: "nine_bits a v = w"
  have "bit v n = bit w n" if "n < 8" for n using that bit_nine [of a v n] e by simp
  moreover have "a = bit w 8" using bit_nine [of a v 8] e by simp
  ultimately show "v = ucast w \<and> a = bit w 8" by (simp add: byte_eq bit_ucast_iff)
next
  assume e: "v = ucast w \<and> a = bit w 8"
  show "nine_bits a v = w"
  proof (rule bit_word_eqI)
    fix n assume "n < LENGTH(9)"
    then have "n < 8 \<or> n = 8" by auto
    then show "bit (nine_bits a v) n = bit w n" using e by (auto simp: bit_ucast_iff)
  qed
qed

lemma rcl_carry: "0 < s \<Longrightarrow> s < 9 \<Longrightarrow> bit (word_rotl s (nine_bits cf v)) 8 = bit (ucast v :: u32) (8 - s)"
  by (drule (1) one_to_eight, elim disjE; simp add: bits_of_shift)

lemma rcr_carry: "0 < s \<Longrightarrow> s < 9 \<Longrightarrow> bit (word_rotr s (nine_bits cf v)) 8 = bit (ucast v :: u32) (s - 1)"
  by (drule (1) one_to_eight, elim disjE; simp add: bits_of_shift)

lemma sar_value: "word_of_int (drop_bit n (sint v)) = signed_drop_bit n v" for v :: u8
proof (rule bit_word_eqI)
  fix i assume "i < LENGTH(8)"
  then show "bit (word_of_int (drop_bit n (sint v)) :: u8) i = bit (signed_drop_bit n v) i"
    by (cases "n + i < 8") (auto simp: bit_word_of_int_iff bit_drop_bit_eq bit_sint_iff bit_signed_drop_bit_iff)
qed

lemma rotl_mod: "word_rotl (n mod LENGTH('a)) w = word_rotl n w" for w :: "'a::len word"
  by (rule bit_word_eqI) (simp add: bit_word_rotl_iff)

lemma rotr_mod: "word_rotr (n mod LENGTH('a)) w = word_rotr n w" for w :: "'a::len word"
  by (rule bit_word_eqI) (simp add: bit_word_rotr_iff mod_add_right_eq)

lemma rot_zero [simp]: "word_rotl 0 w = w" "word_rotr 0 w = w" for w :: "'a::len word"
  by (rule bit_word_eqI, simp add: bit_word_rotl_iff bit_word_rotr_iff)+

lemma bit_double_carry: "bit (x * 2 + of_bool b) n = (if n = 0 then b else bit (x * 2) n)" for x :: u32
proof -
  have "x * 2 + of_bool b = x * 2 OR of_bool b"
    by (rule disjunctive_add) (auto simp: bit_of_double bit_of_bool_iff)
  then show ?thesis by (auto simp: bit_of_double bit_or_iff bit_of_bool_iff)
qed

lemma bit_double_one: "bit (x * 2 + 1) n = (if n = 0 then True else bit (x * 2) n)" for x :: u32
  using bit_double_carry [of x True n] by simp

lemma bit_src: "bit (ucast v :: u32) n = bit v n" for v :: u8
  using bit_imp_le_length [of v n] by (auto simp: bit_ucast_iff)

lemma SetSZPF8_CF [simp]: "f_CF (SetSZPF8 x f) = f_CF f" "f_OF (SetSZPF8 x f) = f_OF f" by (simp_all add: SetSZPF8_def)

lemma one_mask: "(x AND 1 = 0) = (\<not> bit x 0)" for x :: "'a::len word" using tst_exp [of x 0] by simp

lemma shift_once_spec: "op < 8 \<Longrightarrow> shift_once8 op (ucast v) f = (r, g) \<Longrightarrow> shifted_value op 1 (f_CF f) v r (f_CF g)"
  unfolding shift_once8_def shifted_value_def nine_eq byte_eq below8
  by (auto simp: Let_def bits_of_shift bit_double_carry bit_double_one mask_bits one_mask bit_src bit_signed_drop_bit_iff sar_value [symmetric] bit_word_of_int_iff bit_sint_iff split: if_splits)

lemma bit_src32: "bit (ucast v :: u32) (n - Suc 0) = bit v (n - Suc 0)" for v :: u8
  by (rule bit_src)

lemma rol_many: "1 < n \<Longrightarrow> n < 32 \<Longrightarrow> \<exists>r g. shift_many8 0 (ucast v) n v f = Some (r, g) \<and> r = word_rotl n v \<and> f_CF g = bit r 0"
proof (cases "n mod 8 = 0")
  case True
  moreover assume "1 < n" "n < 32"
  ultimately have "n mod 32 div 8 \<noteq> 0" by auto
  then show ?thesis using rotl_mod [of n v] True unfolding shift_many8_def by (simp add: bit_src)
next
  case False
  then show ?thesis using rotl_mod [of n v] rol_value [of "n mod 8" v] unfolding shift_many8_def by (simp add: Let_def bit_src)
qed

lemma ror_many: "1 < n \<Longrightarrow> n < 32 \<Longrightarrow> \<exists>r g. shift_many8 1 (ucast v) n v f = Some (r, g) \<and> r = word_rotr n v \<and> f_CF g = bit r 7"
proof (cases "n mod 8 = 0")
  case True
  moreover assume "1 < n" "n < 32"
  ultimately have "n mod 32 div 8 \<noteq> 0" by auto
  then show ?thesis using rotr_mod [of n v] True unfolding shift_many8_def by (simp add: bit_src)
next
  case False
  then show ?thesis using rotr_mod [of n v] ror_value [of "n mod 8" v] unfolding shift_many8_def by (simp add: Let_def bit_src)
qed

lemma rcl_many: "n mod 9 \<noteq> 0 \<Longrightarrow> \<exists>r g. shift_many8 2 (ucast v) n v f = Some (r, g) \<and> nine_bits (f_CF g) r = word_rotl n (nine_bits (f_CF f) v)"
  using rotl_mod [of n "nine_bits (f_CF f) v"] rcl_value [of "n mod 9" v "f_CF f"] rcl_carry [of "n mod 9" "f_CF f" v]
  unfolding shift_many8_def nine_eq by (simp add: Let_def)

lemma rcr_zero: "(ucast (drop_bit 0 (ucast v AND push_bit 0 0xff) OR push_bit (9 - 0) (ucast v AND drop_bit (8 - 0) 0xff) OR
     push_bit (8 - 0) (of_bool cf) :: u32) :: u8) = v"
  unfolding byte_eq below8 by (simp add: bits_of_shift)

lemma rcr_many: "\<exists>r g. shift_many8 3 (ucast v) n v f = Some (r, g) \<and> nine_bits (f_CF g) r = word_rotr n (nine_bits (f_CF f) v)"
proof (cases "n mod 9 = 0")
  case True
  then have "word_rotr n (nine_bits (f_CF f) v) = nine_bits (f_CF f) v"
    using rotr_mod [of n "nine_bits (f_CF f) v"] by simp
  then show ?thesis using True rcr_zero [of v "f_CF f"] unfolding shift_many8_def by (simp add: Let_def)
next
  case False
  then show ?thesis using rotr_mod [of n "nine_bits (f_CF f) v"] rcr_value [of "n mod 9" v "f_CF f"] rcr_carry [of "n mod 9" "f_CF f" v]
    unfolding shift_many8_def nine_eq by (simp add: Let_def)
qed

lemma shifted_ucast: "(ucast (drop_bit n (ucast v :: u32)) :: u8) = drop_bit n v" "(ucast (push_bit n (ucast v :: u32)) :: u8) = push_bit n v" for v :: u8
  by (rule bit_word_eqI, auto simp: bit_ucast_iff bit_drop_bit_eq bit_push_bit_iff dest: bit_imp_le_length)+

lemma back_and_forth: "(ucast (ucast v :: u32) :: u8) = v" for v :: u8
  by (rule bit_word_eqI) (simp add: bit_ucast_iff)

lemma shift_right_many:
  "1 < n \<Longrightarrow> n < 32 \<Longrightarrow> \<exists>g. shift_many8 5 (ucast v) n v f = Some (drop_bit n v, g) \<and> f_CF g = bit v (n - 1)"
  "1 < n \<Longrightarrow> n < 32 \<Longrightarrow> \<exists>g. shift_many8 7 (ucast v) n v f = Some (signed_drop_bit n v, g) \<and> f_CF g = bit v (n - 1)"
  by (simp_all add: shift_many8_def Let_def bit_src32 shifted_ucast sar_value back_and_forth)

lemma shift_left_many:
  "op \<in> {4, 6} \<Longrightarrow> 1 < n \<Longrightarrow> n < 32 \<Longrightarrow> \<exists>g. shift_many8 op (ucast v) n v f = Some (push_bit n v, g) \<and> f_CF g = (n \<le> 8 \<and> bit v (8 - n))"
  by (elim insertE emptyE; simp add: shift_many8_def Let_def bit_src shifted_ucast)

text \<open>Past the byte the code's carry of an arithmetic shift is 0, not the sign.\<close>

definition sar_past_byte :: "nat \<Rightarrow> nat \<Rightarrow> u8 \<Rightarrow> bool" where
  "sar_past_byte op n v \<longleftrightarrow> op = 7 \<and> 8 < n \<and> bit v 7"

lemma sar_result: "8 < n \<Longrightarrow> bit v 7 \<Longrightarrow> signed_drop_bit n v = - 1" for v :: u8
  by (rule bit_word_eqI) (auto simp: bit_signed_drop_bit_iff)

lemma sar_carry: "\<not> (8 < n \<and> bit v 7) \<Longrightarrow> bit v (n - 1) = bit v (min (n - 1) 7)" for v :: u8
  by (cases "8 < n") (auto simp: min_def dest: bit_imp_le_length)

text \<open>C35: an 8-bit shift or rotate by 1 to 31, other than a rotate left through carry by 9, 18 or 27, does what the
  instruction promises: the rotation of the byte, of carry and byte as nine bits, or the shift, and the carry shifted out.
  The exception is the carry of an arithmetic right shift of a negative byte by 9 to 31: the result is 0xff as promised, but the
  code clears the carry, where the bit shifted out is a copy of the sign.\<close>

theorem shift_rotate8_value:
  "0 < s \<Longrightarrow> s < 32 \<Longrightarrow> shift_op modrm = 2 \<longrightarrow> unat s mod 9 \<noteq> 0 \<Longrightarrow>
    \<exists>r g. shift_rotate8 modrm v s f = Some (r, g) \<and>
      (if sar_past_byte (shift_op modrm) (unat s) v then r = 0xff \<and> \<not> f_CF g
       else shifted_value (shift_op modrm) (unat s) (f_CF f) v r (f_CF g))"
proof -
  assume s: "0 < s" "s < 32" and c: "shift_op modrm = 2 \<longrightarrow> unat s mod 9 \<noteq> 0"
  have "drop_bit 3 modrm AND 0x7 \<le> 7" by (rule word_and_le1)
  then have o: "shift_op modrm < 8" unfolding shift_op_def by (simp add: word_le_nat_alt)
  have n: "unat s < 32" using s(2) by (simp add: word_less_nat_alt)
  have "s \<noteq> 0" using s(1) by auto
  have "0 < unat s" using s(1) by (simp add: word_less_nat_alt)
  moreover have "unat s = 1 \<longleftrightarrow> s = 1" by (metis unsigned_1 unsigned_word_eqI)
  ultimately consider "s = 1" | "s \<noteq> 1" "1 < unat s" by linarith
  then show ?thesis
  proof cases
    case 1
    then have "\<not> sar_past_byte (shift_op modrm) (unat s) v" by (simp add: sar_past_byte_def)
    with 1 show ?thesis using shift_once_spec [OF o, of v f] unfolding shift_rotate8_def
      by (cases "shift_once8 (shift_op modrm) (ucast v) f") simp
  next
    case 2
    consider "shift_op modrm = 0" | "shift_op modrm = 1" | "shift_op modrm = 2" | "shift_op modrm = 3" | "shift_op modrm = 5" |
      "shift_op modrm = 7" | "shift_op modrm \<in> {4, 6}" using o by fastforce
    then have "\<exists>r g. shift_many8 (shift_op modrm) (ucast v) (unat s) v f = Some (r, g) \<and>
      (if sar_past_byte (shift_op modrm) (unat s) v then r = 0xff \<and> \<not> f_CF g
       else shifted_value (shift_op modrm) (unat s) (f_CF f) v r (f_CF g))"
    proof cases
      case 1 then show ?thesis using rol_many [OF 2(2) n, of v f] by (simp add: shifted_value_def sar_past_byte_def)
    next
      case 2 then show ?thesis using ror_many [OF \<open>1 < unat s\<close> n, of v f] by (simp add: shifted_value_def sar_past_byte_def)
    next
      case 3 then show ?thesis using rcl_many [of "unat s" v f] c by (simp add: shifted_value_def sar_past_byte_def)
    next
      case 4 then show ?thesis using rcr_many [of v "unat s" f] by (simp add: shifted_value_def sar_past_byte_def)
    next
      case 5 then show ?thesis using shift_right_many(1) [OF \<open>1 < unat s\<close> n, of v f] by (auto simp: shifted_value_def sar_past_byte_def)
    next
      case 6
      obtain g where g: "shift_many8 7 (ucast v) (unat s) v f = Some (signed_drop_bit (unat s) v, g)" "f_CF g = bit v (unat s - 1)"
        using shift_right_many(2) [OF \<open>1 < unat s\<close> n, of v f] by blast
      have "sar_past_byte 7 (unat s) v \<Longrightarrow> signed_drop_bit (unat s) v = 0xff \<and> \<not> f_CF g"
        unfolding sar_past_byte_def g(2) using sar_result [of "unat s" v] by (auto dest: bit_imp_le_length)
      moreover have "\<not> sar_past_byte 7 (unat s) v \<Longrightarrow> f_CF g = bit v (min (unat s - 1) 7)"
        unfolding sar_past_byte_def g(2) by (rule sar_carry) simp
      ultimately show ?thesis using 6 g(1) unfolding shifted_value_def by simp
    next
      case 7 then show ?thesis using shift_left_many [OF 7 \<open>1 < unat s\<close> n, of v f] by (auto simp: shifted_value_def sar_past_byte_def)
    qed
    then show ?thesis using 2(1) \<open>s \<noteq> 0\<close> unfolding shift_rotate8_def by (simp add: Let_def)
  qed
qed

definition carry_flag :: flags where
  "carry_flag = \<lparr>f_CF = True, f_PF = False, f_AF = False, f_ZF = False, f_SF = False, f_OF = False\<rparr>"

lemma shift_rotate8_value_witness:
  "(\<exists>r g. shift_rotate8 0x10 0x81 4 carry_flag = Some (r, g) \<and> shifted_value (shift_op 0x10) 4 True 0x81 r (f_CF g)) \<and>
   (\<exists>g. shift_rotate8 0x38 0x81 8 carry_flag = Some (0xff, g) \<and> f_CF g)"
proof -
  have o: "shift_op 0x10 = 2" "shift_op 0x38 = 7" by (simp_all add: shift_op_def)
  have "\<exists>r g. shift_rotate8 0x38 0x81 8 carry_flag = Some (r, g) \<and> shifted_value 7 8 True 0x81 r (f_CF g)"
    using shift_rotate8_value [of 8 "0x38" "0x81" carry_flag] by (simp add: o sar_past_byte_def carry_flag_def)
  moreover have "signed_drop_bit 8 (0x81 :: u8) = 0xff" by code_simp
  ultimately have "\<exists>g. shift_rotate8 0x38 0x81 8 carry_flag = Some (0xff, g) \<and> f_CF g" by (auto simp: shifted_value_def)
  then show ?thesis using shift_rotate8_value [of 4 "0x10" "0x81" carry_flag] by (simp add: o sar_past_byte_def carry_flag_def)
qed

text \<open>An instance of the exception: a negative byte shifted right by nine places.\<close>

lemma sar_by_nine_loses_carry: "\<exists>g. shift_rotate8 0x38 0x80 9 f = Some (0xff, g) \<and> \<not> f_CF g"
proof -
  obtain g where "shift_many8 7 (ucast (0x80 :: u8)) 9 0x80 f = Some (signed_drop_bit 9 0x80, g)" "f_CF g = bit (0x80 :: u8) (9 - 1)"
    using shift_right_many(2) [of 9 "0x80" f] by auto
  moreover have "signed_drop_bit 9 (0x80 :: u8) = 0xff" by code_simp
  ultimately show ?thesis by (simp add: shift_rotate8_def shift_op_def)
qed

lemma rcl_by_nine_undefined: "shift_rotate8 0x10 v 9 f = None \<and> shift_rotate8 0x28 v 32 f = None"
  by (simp add: shift_rotate8_def shift_op_def shift_many8_def Let_def)

lemma shr_once_clears_overflow: "shift_rotate8 0x28 v 1 f = Some (r, g) \<Longrightarrow> \<not> f_OF g"
  by (auto simp: shift_rotate8_def shift_op_def shift_once8_def Let_def mask_bits bits_of_shift SetSZPF8_def)

subsection \<open>Decimal arithmetic\<close>

text \<open>Two decimal digits in a byte.\<close>

definition bcd :: "nat \<Rightarrow> u8" where
  "bcd n = of_nat (n div 10 * 16 + n mod 10)"

lemma uint_bcd: "n < 100 \<Longrightarrow> uint (bcd n) = int (n div 10 * 16 + n mod 10)"
proof -
  assume "n < 100"
  then have "n div 10 * 16 + n mod 10 < 2 ^ LENGTH(8)" by simp
  then have "unat (bcd n) = n div 10 * 16 + n mod 10" unfolding bcd_def by (simp only: unsigned_of_nat take_bit_nat_eq_self of_nat_id)
  then show ?thesis unfolding uint_nat by (rule arg_cong)
qed

lemma low_digit: "(9 < (al :: u8) AND 0xf) = (9 < uint al mod 16)"
proof -
  have "al AND 0xf = al AND mask 4" by (simp add: mask_eq_exp_minus_1)
  then have "uint (al AND 0xf) = uint al mod 16"
    unfolding take_bit_eq_mask [symmetric] unsigned_take_bit_eq by (simp add: take_bit_eq_mod uint_mod_distrib)
  then show ?thesis by (simp add: word_less_def)
qed

lemma carry_of_six: "bit (ucast (al :: u8) + 6 :: u16) 8 = (256 \<le> uint al + 6)"
  "uint (ucast (ucast al + 6 :: u16) :: u8) = (uint al + 6) mod 256"
proof -
  have w: "wide_sum (ucast al + 6 :: u16) al 6 0" by (simp add: wide_sum_def)
  show "bit (ucast al + 6 :: u16) 8 = (256 \<le> uint al + 6)" using wide_sum_bits(1) [OF w] by simp
  show "uint (ucast (ucast al + 6 :: u16) :: u8) = (uint al + 6) mod 256" using wide_sum_bits(4) [OF w] by simp
qed

lemma borrow_of_six: "bit (ucast (al :: u8) - 6 :: u16) 8 = (uint al < 6)"
  "uint (ucast (ucast al - 6 :: u16) :: u8) = (uint al - 6) mod 256"
proof -
  have w: "wide_difference (ucast al - 6 :: u16) al 6 0" by (simp add: wide_difference_def)
  show "bit (ucast al - 6 :: u16) 8 = (uint al < 6)" using wide_difference_bits(1) [OF w] by simp
  show "uint (ucast (ucast al - 6 :: u16) :: u8) = (uint al - 6) mod 256" using wide_difference_bits(4) [OF w] by simp
qed

text \<open>The adjustments, in numbers.\<close>

lemma daa_numbers:
  assumes "decimal_adjust 1 al f = (r, g)"
  defines "low \<equiv> f_AF f \<or> 9 < uint al mod 16"
  defines "al1 \<equiv> if low then (uint al + 6) mod 256 else uint al"
  shows "uint r = (if f_CF f \<or> 0x99 < al1 then (al1 + 0x60) mod 256 else al1)"
    "f_CF g = (f_CF f \<or> low \<and> 256 \<le> uint al + 6 \<or> 0x99 < al1)"
  using assms(1) carry_of_six [of al] unfolding decimal_adjust_def low_digit low_def al1_def
  by (auto simp: Let_def mask_bits uint_word_ariths word_less_def split: if_splits)

lemma das_numbers:
  assumes "decimal_adjust (- 1) al f = (r, g)"
  defines "low \<equiv> f_AF f \<or> 9 < uint al mod 16"
  defines "al1 \<equiv> if low then (uint al - 6) mod 256 else uint al"
  shows "uint r = (if f_CF f \<or> 0x99 < uint al then (al1 - 0x60) mod 256 else al1)"
    "f_CF g = (f_CF f \<or> low \<and> uint al < 6 \<or> 0x99 < uint al)"
  using assms(1) borrow_of_six [of al] unfolding decimal_adjust_def low_digit low_def al1_def
  by (auto simp: Let_def mask_bits uint_word_ariths word_less_def split: if_splits)

text \<open>A byte addition followed by the adjustment, on digits: \<open>h\<close> and \<open>l\<close> are the digits of the sum, the low one
  carried over.\<close>

lemma two_digits: "0 \<le> l \<Longrightarrow> l \<le> 9 \<Longrightarrow> 0 \<le> h \<Longrightarrow> h \<le> 19 \<Longrightarrow>
  (h * 10 + l) mod 100 div 10 * 16 + (h * 10 + l) mod 10 = (if h < 10 then h * 16 + l else (h - 10) * 16 + l)" for h l :: int
proof -
  assume r: "0 \<le> l" "l \<le> 9" "0 \<le> h" "h \<le> 19"
  have m: "(h * 10 + l) mod 10 = l" using r by simp
  have "(h * 10 + l) mod 100 = (if h < 10 then h * 10 + l else (h - 10) * 10 + l)"
    using r mod_pos_pos_trivial [of "h * 10 + l" 100] mod_pos_pos_trivial [of "(h - 10) * 10 + l" 100] mod_add_self2 [of "(h - 10) * 10 + l" 100]
    by (auto simp: algebra_simps)
  moreover have "(h * 10 + l) div 10 = h" "((h - 10) * 10 + l) div 10 = h - 10" using r by (simp_all add: div_is)
  ultimately show ?thesis unfolding m by simp
qed

lemma wrap256: "0 \<le> v \<Longrightarrow> v < 512 \<Longrightarrow> v mod 256 = (if v < 256 then v else v - 256)" for v :: int
  by presburger

lemma daa_digits:
  fixes h l t :: int
  assumes d: "0 \<le> h" "h \<le> 19" "0 \<le> l" "l \<le> 9" and t: "t = h * 16 + l \<and> \<not> low \<or> t = h * 16 + l - 6 \<and> low" and "0 \<le> t"
  defines "al1 \<equiv> if low then (t mod 256 + 6) mod 256 else t mod 256"
  shows "(if 256 \<le> t \<or> 0x99 < al1 then (al1 + 0x60) mod 256 else al1) =
      (if 250 \<le> t \<and> t < 256 then h * 16 + l - 256 else if h < 10 then h * 16 + l else (h - 10) * 16 + l)"
    "(256 \<le> t \<or> low \<and> 256 \<le> t mod 256 + 6 \<or> 0x99 < al1) = (10 \<le> h)"
proof -
  have a: "al1 = (if h * 16 + l < 256 then h * 16 + l else h * 16 + l - 256)"
    using t d wrap256 [of "h * 16 + l"] unfolding al1_def by (auto simp: mod_add_left_eq)
  have m: "t mod 256 = (if t < 256 then t else t - 256)" by (rule wrap256) (use t d \<open>0 \<le> t\<close> in auto)
  consider "h < 10" | "10 \<le> h" "h < 16" | "16 \<le> h" by linarith
  note c = this
  have b: "low \<or> \<not> (250 \<le> t \<and> t < 256)" using t d(1,3,4) by presburger
  show "(256 \<le> t \<or> low \<and> 256 \<le> t mod 256 + 6 \<or> 0x99 < al1) = (10 \<le> h)"
    unfolding m a using c by cases (use d t in auto)
  show "(if 256 \<le> t \<or> 0x99 < al1 then (al1 + 0x60) mod 256 else al1) =
      (if 250 \<le> t \<and> t < 256 then h * 16 + l - 256 else if h < 10 then h * 16 + l else (h - 10) * 16 + l)"
    using c wrap256 [of "al1 + 0x60"] b unfolding a by cases (use d t in auto)
qed

lemma adc8_sum: "uint c \<le> 1 \<Longrightarrow> sum_flags d s (uint c) (ADC8 d s c f)"
  using wide_sum_flags [OF widen_sum [where 'w = 16, of c d s], of f] by (simp add: ADC8_def set_flags mask_bits Let_def)

lemma sbb8_difference: "uint c \<le> 1 \<Longrightarrow> difference_flags d s (uint c) (SBB8 d s c f)"
  using wide_difference_flags [OF widen_difference [where 'w = 16, of c d s], of f] by (simp add: SBB8_def set_flags mask_bits Let_def)

lemma digits_of: "n < 100 \<Longrightarrow> \<exists>h l. int n = h * 10 + l \<and> uint (bcd n) = h * 16 + l \<and> 0 \<le> h \<and> h \<le> 9 \<and> 0 \<le> l \<and> l \<le> 9"
proof (intro exI conjI)
  assume n: "n < 100"
  show "int n = int (n div 10) * 10 + int (n mod 10)" by presburger
  show "uint (bcd n) = int (n div 10) * 16 + int (n mod 10)" using uint_bcd [OF n] by simp
qed (auto simp: zdiv_int [symmetric])

lemma das_digits:
  fixes h l t :: int
  assumes d: "- 10 \<le> h" "h \<le> 9" "0 \<le> l" "l \<le> 9" and t: "t = h * 16 + l \<and> \<not> low \<or> t = h * 16 + l + 6 \<and> low" and u: "t \<le> 153"
  defines "al1 \<equiv> if low then (t mod 256 - 6) mod 256 else t mod 256"
  shows "(if t < 0 \<or> 0x99 < t mod 256 then (al1 - 0x60) mod 256 else al1) = (if h < 0 then (h + 10) * 16 + l else h * 16 + l)"
    "(t < 0 \<or> low \<and> t mod 256 < 6 \<or> 0x99 < t mod 256) = (h < 0)"
proof -
  have p: "v mod 256 = (if 0 \<le> v then v else v + 256)" if "- 256 \<le> v" "v < 256" for v :: int using that by presburger
  have a: "al1 = (if 0 \<le> h * 16 + l then h * 16 + l else h * 16 + l + 256)"
    using t d p [of "h * 16 + l"] unfolding al1_def by (auto simp: mod_diff_left_eq)
  have m: "t mod 256 = (if 0 \<le> t then t else t + 256)" by (rule p) (use t d u in auto)
  have b: "(0 \<le> t) = (0 \<le> h)" using t d by (cases "0 \<le> h") auto
  show "(t < 0 \<or> low \<and> t mod 256 < 6 \<or> 0x99 < t mod 256) = (h < 0)"
    unfolding m using b d t u by auto
  show "(if t < 0 \<or> 0x99 < t mod 256 then (al1 - 0x60) mod 256 else al1) = (if h < 0 then (h + 10) * 16 + l else h * 16 + l)"
    unfolding m a using p [of "h * 16 + l + 256 - 0x60"] b d t u by auto
qed

text \<open>C36: after the addition of two numbers of two decimal digits and a carry, the adjustment leaves the decimal carry, and the
  two digits of the decimal sum unless the binary sum lay between \<open>0xFA\<close> and \<open>0xFF\<close>: those six come out \<open>0x60\<close> too low.\<close>

theorem daa_adds_decimal:
  "a < 100 \<Longrightarrow> b < 100 \<Longrightarrow> uint c \<le> 1 \<Longrightarrow> ADC8 (bcd a) (bcd b) c f = (t, g) \<Longrightarrow> decimal_adjust 1 t g = (r, h) \<Longrightarrow>
    r = bcd ((a + b + unat c) mod 100) - (if \<not> f_CF g \<and> 0xFA \<le> t then 0x60 else 0) \<and> f_CF h = (100 \<le> a + b + unat c)"
proof -
  assume l: "a < 100" "b < 100" and c: "uint c \<le> 1" and t: "ADC8 (bcd a) (bcd b) c f = (t, g)" and r: "decimal_adjust 1 t g = (r, h)"
  obtain a1 a0 where a: "int a = a1 * 10 + a0" "uint (bcd a) = a1 * 16 + a0" "0 \<le> a1" "a1 \<le> 9" "0 \<le> a0" "a0 \<le> 9"
    using digits_of [OF l(1)] by blast
  obtain b1 b0 where b: "int b = b1 * 10 + b0" "uint (bcd b) = b1 * 16 + b0" "0 \<le> b1" "b1 \<le> 9" "0 \<le> b0" "b0 \<le> 9"
    using digits_of [OF l(2)] by blast
  define s v where s: "s = a0 + b0 + uint c" and v: "v = (a1 + b1) * 16 + s"
  define low H L where low: "low = (9 < s)" and HL: "H = a1 + b1 + of_bool low" "L = s - 10 * of_bool low"
  have c0: "0 \<le> uint c" by simp
  have rs: "0 \<le> s" "s \<le> 19" using a b c c0 by (simp_all add: s)
  have d: "0 \<le> H" "H \<le> 19" "0 \<le> L" "L \<le> 9" "v = H * 16 + L \<and> \<not> low \<or> v = H * 16 + L - 6 \<and> low" "0 \<le> v"
    using rs a b by (auto simp: HL low v)
  have e: "uint (bcd a) + uint (bcd b) + uint c = v" using a b by (simp add: v s)
  have m: "(a1 * 16 + a0) mod 16 = a0" "(b1 * 16 + b0) mod 16 = b0" using a b by simp_all
  have f: "uint t = v mod 256" "f_CF g = (256 \<le> v)" "f_AF g = (16 \<le> s)"
    using adc8_sum [OF c, of "bcd a" "bcd b" f] unfolding t sum_flags_def e unfolding a(2) b(2) m s by simp_all
  have n: "int (a + b + unat c) = H * 10 + L" using a(1) b(1) by (simp add: HL s)
  have lw: "(f_AF g \<or> 9 < uint t mod 16) = low"
  proof -
    have "v mod 256 mod 16 = v mod 16" by (simp add: mod_mod_cancel)
    moreover have "v mod 16 = s mod 16" unfolding v by (rule mod_mult_self3)
    ultimately show ?thesis unfolding f low using rs by (cases "s < 16") simp_all
  qed
  have B: "uint (bcd ((a + b + unat c) mod 100)) = (if H < 10 then H * 16 + L else (H - 10) * 16 + L)"
    using two_digits [OF d(3,4,1,2)] unfolding n [symmetric] by (subst uint_bcd) (simp_all add: zmod_int zdiv_int mod_mod_cancel)
  have C: "(\<not> f_CF g \<and> 0xFA \<le> t) = (250 \<le> v \<and> v < 256)" unfolding f word_le_def using d(6) by auto
  have R: "uint r = (if 250 \<le> v \<and> v < 256 then H * 16 + L - 256 else if H < 10 then H * 16 + L else (H - 10) * 16 + L)"
    using daa_numbers(1) [OF r] daa_digits(1) [OF d] unfolding lw unfolding f by (rule trans)
  have "f_CF h = (10 \<le> H)" using daa_numbers(2) [OF r] daa_digits(2) [OF d] unfolding lw unfolding f by (rule trans)
  moreover have "(10 \<le> H) = (100 \<le> H * 10 + L)" using d by auto
  moreover have "r = bcd ((a + b + unat c) mod 100) - (if \<not> f_CF g \<and> 0xFA \<le> t then 0x60 else 0)"
  proof (cases "250 \<le> v \<and> v < 256")
    case True
    then have "\<not> H < 10" and "uint r = uint (bcd ((a + b + unat c) mod 100)) - 0x60" using R B d by auto
    then have "uint (bcd ((a + b + unat c) mod 100) - 0x60) = uint r mod 256" by (simp add: uint_word_ariths)
    moreover have "uint r mod 256 = uint r" using uint_lt2p [of r] by (intro mod_pos_pos_trivial) simp_all
    ultimately show ?thesis unfolding C if_P [OF True] word_uint_eq_iff by presburger
  next
    case False
    then show ?thesis using R B unfolding C if_not_P [OF False] word_uint_eq_iff by simp
  qed
  moreover have "(100 \<le> H * 10 + L) = (100 \<le> a + b + unat c)" unfolding n [symmetric] by (metis of_nat_le_iff of_nat_numeral)
  ultimately show ?thesis by blast
qed

lemma sum_88_72: "ADC8 (bcd 88) (bcd 72) 0 no_flags = (0xFA, no_flags\<lparr>f_PF := True, f_SF := True, f_OF := False\<rparr>)"
  by code_simp

text \<open>88 and 72: the adjustment leaves 00 and a carry, not 60.\<close>

lemma daa_adds_decimal_witness:
  "\<exists>r h. decimal_adjust 1 0xFA (no_flags\<lparr>f_PF := True, f_SF := True, f_OF := False\<rparr>) = (r, h) \<and> r = bcd 60 - 0x60 \<and> f_CF h"
proof -
  obtain r h where d: "decimal_adjust 1 0xFA (no_flags\<lparr>f_PF := True, f_SF := True, f_OF := False\<rparr>) = (r, h)" by force
  have "r = bcd ((88 + 72 + unat (0 :: u8)) mod 100) - (if \<not> f_CF (no_flags\<lparr>f_PF := True, f_SF := True, f_OF := False\<rparr>) \<and> 0xFA \<le> (0xFA :: u8) then 0x60 else 0) \<and>
      f_CF h = (100 \<le> 88 + 72 + unat (0 :: u8))"
    by (rule daa_adds_decimal [OF _ _ _ sum_88_72 d]) simp_all
  then show ?thesis using d by (simp add: no_flags_def)
qed

text \<open>The division of AAM undone by AAD.\<close>

lemma aam_aad: "0 < i \<Longrightarrow> aam i ax f = Some (ax', g) \<Longrightarrow> lo8 (fst (aad i ax' g)) = lo8 ax \<and> hi8 (fst (aad i ax' g)) = 0"
  by (auto simp: aam_def aad_def Let_def mod_div_mult_eq add.commute split: if_splits)

end
