(* ===== verification/Vtlb.thy ===== *)
theory Vtlb
  imports Towns_Prelude
begin

text \<open>
  The translation look-aside buffer of \<open>src/emu/divtlb.cpp\<close>: a table of entries by page, and a ring of live slots that
  says which pages have an entry, so that the buffer never holds more than its size and can be emptied quickly. Debug
  prints and debug assertions are left out.
\<close>

unbundle bit_operations_syntax

subsection \<open>State\<close>

abbreviation "FLAGS_MASK \<equiv> 0xff :: u32"
abbreviation "READ_ALLOWED \<equiv> 0x01 :: u32"
abbreviation "WRITE_ALLOWED \<equiv> 0x02 :: u32"
abbreviation "FLAG_VALID \<equiv> 0x08 :: u32"
abbreviation "USER_READ_ALLOWED \<equiv> 0x10 :: u32"
abbreviation "USER_WRITE_ALLOWED \<equiv> 0x20 :: u32"
abbreviation "FLAG_FIXED \<equiv> 0x80 :: u32"

text \<open>\<open>v_live\<close> holds table indices plus one, 0 for none; the entries beyond the table's size are never used.\<close>

record vtlb =
  v_dynamic :: nat
  v_fixed :: nat
  v_dynindex :: nat
  v_pageshift :: nat
  v_live :: "nat \<Rightarrow> u32"
  v_fixedpages :: "nat \<Rightarrow> nat"
  v_table :: "u32 \<Rightarrow> u32"
  v_refcnt :: "u32 \<Rightarrow> u32"

definition vtlb_pre_start :: "nat \<Rightarrow> nat \<Rightarrow> nat \<Rightarrow> vtlb" where
  "vtlb_pre_start dynamic fixed pageshift =
     \<lparr>v_dynamic = dynamic, v_fixed = fixed, v_dynindex = 0, v_pageshift = pageshift, v_live = (\<lambda>_. 0), v_fixedpages = (\<lambda>_. 0),
      v_table = (\<lambda>_. 0), v_refcnt = (\<lambda>_. 0)\<rparr>"

subsection \<open>Filling\<close>

definition page_index :: "u32 \<Rightarrow> vtlb \<Rightarrow> u32" where
  "page_index address t = drop_bit (v_pageshift t) address"

definition page_base :: "u32 \<Rightarrow> vtlb \<Rightarrow> u32" where
  "page_base address t = push_bit (v_pageshift t) (drop_bit (v_pageshift t) address)"

text \<open>The entry that owned the next slot of the ring is dropped, unless other slots refer to its page as well.\<close>

definition free_counted :: "nat \<Rightarrow> vtlb \<Rightarrow> vtlb" where
  "free_counted slot t =
     (if v_live t slot = 0 then t
      else let old = v_live t slot - 1
           in if v_refcnt t old \<le> 1 then t\<lparr>v_table := (v_table t)(old := 0)\<rparr>
              else t\<lparr>v_refcnt := (v_refcnt t)(old := v_refcnt t old - 1)\<rparr>)"

definition vtlb_fill :: "u32 \<Rightarrow> u32 \<Rightarrow> nat \<Rightarrow> vtlb \<Rightarrow> bool \<times> vtlb" where
  "vtlb_fill address taddress intention t =
     (let index = page_index address t; entry = v_table t index
      in if v_dynamic t = 0 then (False, t)
         else let fresh = (entry AND FLAGS_MASK = 0);
                  slot = v_dynindex t;
                  t1 = (if fresh then (free_counted slot (t\<lparr>v_dynindex := (slot + 1) mod v_dynamic t\<rparr>)) else t);
                  t2 = (if fresh then t1\<lparr>v_live := (v_live t1)(slot := index + 1)\<rparr> else t1);
                  e1 = (if fresh then page_base taddress t OR FLAG_VALID else entry)
              in (True, t2\<lparr>v_table := (v_table t2)(index := e1 OR push_bit intention 1)\<rparr>))"

definition clear_pages :: "u32 \<Rightarrow> nat \<Rightarrow> vtlb \<Rightarrow> vtlb" where
  "clear_pages index n t = foldl (\<lambda>t i. t\<lparr>v_table := (v_table t)(index + of_nat i := 0)\<rparr>) t [0..<n]"

definition store_pages :: "u32 \<Rightarrow> nat \<Rightarrow> u32 \<Rightarrow> vtlb \<Rightarrow> vtlb" where
  "store_pages index n val t =
     foldl (\<lambda>t i. t\<lparr>v_table := (v_table t)(index + of_nat i := val + push_bit (v_pageshift t) (of_nat i))\<rparr>) t [0..<n]"

text \<open>An entry number outside the fixed entries is not allowed.\<close>

definition vtlb_load :: "nat \<Rightarrow> nat \<Rightarrow> u32 \<Rightarrow> u32 \<Rightarrow> vtlb \<Rightarrow> vtlb option" where
  "vtlb_load entrynum numpages address val t =
     (if v_fixed t \<le> entrynum then None
      else let index = page_index address t; slot = v_dynamic t + entrynum;
               t1 = (if v_live t slot = 0 then t
                     else let old = v_live t slot - 1;
                              t0 = t\<lparr>v_refcnt := (v_refcnt t)(old := v_refcnt t old - 1)\<rparr>
                          in if v_refcnt t0 old = 0 then clear_pages old (v_fixedpages t0 entrynum) t0 else t0);
               t2 = t1\<lparr>v_live := (v_live t1)(slot := index + 1)\<rparr>;
               t3 = t2\<lparr>v_refcnt := (v_refcnt t2)(index := v_refcnt t2 index + 1)\<rparr>;
               t4 = t3\<lparr>v_fixedpages := (v_fixedpages t3)(entrynum := numpages)\<rparr>
           in Some (store_pages index numpages (val OR FLAG_FIXED) t4))"

text \<open>The ring advances even when the page has an entry already.\<close>

definition vtlb_dynload :: "u32 \<Rightarrow> u32 \<Rightarrow> u32 \<Rightarrow> vtlb \<Rightarrow> vtlb" where
  "vtlb_dynload index address val t =
     (let entry = v_table t index
      in if v_dynamic t = 0 then t
         else let slot = v_dynindex t;
                  t1 = t\<lparr>v_dynindex := (slot + 1) mod v_dynamic t\<rparr>;
                  t2 = (if entry AND FLAG_VALID \<noteq> 0 then t1
                        else let t0 = (if v_live t1 slot \<noteq> 0 then t1\<lparr>v_table := (v_table t1)(v_live t1 slot - 1 := 0)\<rparr> else t1)
                             in t0\<lparr>v_live := (v_live t0)(slot := index + 1)\<rparr>)
              in t2\<lparr>v_table := (v_table t2)(index := page_base address t OR (FLAG_VALID OR val))\<rparr>)"

subsection \<open>Flushing\<close>

definition flush_slot :: "vtlb \<Rightarrow> nat \<Rightarrow> vtlb" where
  "flush_slot t slot = (if v_live t slot \<noteq> 0
     then t\<lparr>v_table := (v_table t)(v_live t slot - 1 := 0), v_live := (v_live t)(slot := 0)\<rparr> else t)"

definition vtlb_flush_dynamic :: "vtlb \<Rightarrow> vtlb" where
  "vtlb_flush_dynamic t = foldl flush_slot t [0..<v_dynamic t]"

definition vtlb_flush_address :: "u32 \<Rightarrow> vtlb \<Rightarrow> vtlb" where
  "vtlb_flush_address address t = t\<lparr>v_table := (v_table t)(page_index address t := 0)\<rparr>"

subsection \<open>Every entry has a live slot\<close>

text \<open>
  The operations on the buffer. The table has an entry for each page of the 32-bit address range; the
  page size is at least 256 (the interface's validity check). Two conditions keep fixed and dynamic entries apart, and neither
  concerns a buffer without fixed entries, as the i386 has it: no two fixed entries start at the same page, and
  \<open>vtlb_dynload\<close> is not used on a page of a fixed entry. The lemmas at the end show what the code does otherwise.
\<close>

inductive vtlb_step :: "vtlb \<Rightarrow> vtlb \<Rightarrow> bool" where
  fill: "vtlb_step t (snd (vtlb_fill address taddress intention t))"
| load: "vtlb_load entrynum numpages address val t = Some t' \<Longrightarrow>
     unat (page_index address t) + numpages \<le> 2 ^ (32 - v_pageshift t) \<Longrightarrow>
     \<forall>e<v_fixed t. e \<noteq> entrynum \<longrightarrow> v_live t (v_dynamic t + e) \<noteq> page_index address t + 1 \<Longrightarrow> vtlb_step t t'"
| dynload: "unat index < 2 ^ (32 - v_pageshift t) \<Longrightarrow> v_fixed t = 0 \<or> v_table t index AND FLAG_FIXED = 0 \<Longrightarrow>
     vtlb_step t (vtlb_dynload index address val t)"
| flush_dynamic: "vtlb_step t (vtlb_flush_dynamic t)"
| flush_address: "vtlb_step t (vtlb_flush_address address t)"

inductive vtlb_reachable :: "nat \<Rightarrow> nat \<Rightarrow> nat \<Rightarrow> vtlb \<Rightarrow> bool" for dynamic fixed pageshift where
  start: "8 \<le> pageshift \<Longrightarrow> vtlb_reachable dynamic fixed pageshift (vtlb_pre_start dynamic fixed pageshift)"
| step: "vtlb_reachable dynamic fixed pageshift t \<Longrightarrow> vtlb_step t t' \<Longrightarrow> vtlb_reachable dynamic fixed pageshift t'"

text \<open>The pages of a fixed entry, and the two ways a page can have an entry.\<close>

definition pages :: "u32 \<Rightarrow> nat \<Rightarrow> u32 set" where
  "pages index n = (\<lambda>k. index + of_nat k) ` {..<n}"

definition fixed_range :: "vtlb \<Rightarrow> nat \<Rightarrow> u32 set" where
  "fixed_range t e = (if v_live t (v_dynamic t + e) = 0 then {} else pages (v_live t (v_dynamic t + e) - 1) (v_fixedpages t e))"

definition dynamic_page :: "vtlb \<Rightarrow> u32 \<Rightarrow> bool" where
  "dynamic_page t i \<longleftrightarrow> v_table t i AND FLAG_VALID \<noteq> 0 \<and> i + 1 \<noteq> 0 \<and> (\<exists>s<v_dynamic t. v_live t s = i + 1)"

definition fixed_page :: "vtlb \<Rightarrow> u32 \<Rightarrow> bool" where
  "fixed_page t i \<longleftrightarrow> v_table t i AND FLAG_FIXED \<noteq> 0 \<and> (\<exists>e<v_fixed t. i \<in> fixed_range t e)"

definition owned :: "vtlb \<Rightarrow> bool" where
  "owned t \<longleftrightarrow> (\<forall>i. v_table t i \<noteq> 0 \<longrightarrow> dynamic_page t i \<or> fixed_page t i)"

text \<open>The reference count of a page is the number of fixed entries that start there, at most one.\<close>

definition counted :: "vtlb \<Rightarrow> bool" where
  "counted t \<longleftrightarrow> (\<forall>j. v_refcnt t j = (if j + 1 \<noteq> 0 \<and> (\<exists>e<v_fixed t. v_live t (v_dynamic t + e) = j + 1) then 1 else 0)) \<and>
     (\<forall>e<v_fixed t. \<forall>e'<v_fixed t. v_live t (v_dynamic t + e) = v_live t (v_dynamic t + e') \<longrightarrow> e = e' \<or> v_live t (v_dynamic t + e) = 0)"

definition vtlb_inv :: "vtlb \<Rightarrow> bool" where
  "vtlb_inv t \<longleftrightarrow> (0 < v_dynamic t \<longrightarrow> v_dynindex t < v_dynamic t) \<and> 8 \<le> v_pageshift t \<and> owned t \<and> counted t"

lemma counted_cong:
  "v_refcnt t' = v_refcnt t \<Longrightarrow> v_fixed t' = v_fixed t \<Longrightarrow> v_dynamic t' = v_dynamic t \<Longrightarrow>
     (\<And>s. v_dynamic t \<le> s \<Longrightarrow> v_live t' s = v_live t s) \<Longrightarrow> counted t' = counted t"
  by (simp add: counted_def)

lemma fixed_range_cong:
  "v_fixedpages t' = v_fixedpages t \<Longrightarrow> v_dynamic t' = v_dynamic t \<Longrightarrow>
     (\<And>s. v_dynamic t \<le> s \<Longrightarrow> v_live t' s = v_live t s) \<Longrightarrow> fixed_range t' e = fixed_range t e"
  by (simp add: fixed_range_def)

lemma vtlb_invD: "vtlb_inv t \<Longrightarrow> v_table t i \<noteq> 0 \<Longrightarrow> dynamic_page t i \<or> fixed_page t i"
  by (simp add: vtlb_inv_def owned_def)

lemma vtlb_inv_start: "8 \<le> pageshift \<Longrightarrow> vtlb_inv (vtlb_pre_start dynamic fixed pageshift)"
  by (auto simp: vtlb_inv_def vtlb_pre_start_def owned_def counted_def)

lemma refcnt_le: "vtlb_inv t \<Longrightarrow> v_refcnt t j \<le> 1"
  by (simp add: vtlb_inv_def counted_def)

lemma valid_or [simp]: "(x OR (FLAG_VALID OR y)) AND FLAG_VALID \<noteq> 0" "((x OR FLAG_VALID) OR y) AND FLAG_VALID \<noteq> 0"
proof -
  have "bit (FLAG_VALID) 3" by simp
  then have "bit ((x OR (FLAG_VALID OR y)) AND FLAG_VALID) 3" "bit (((x OR FLAG_VALID) OR y) AND FLAG_VALID) 3"
    by (simp_all add: bit_and_iff bit_or_iff)
  then show "(x OR (FLAG_VALID OR y)) AND FLAG_VALID \<noteq> 0" "((x OR FLAG_VALID) OR y) AND FLAG_VALID \<noteq> 0"
    by (metis bit_0_eq bot_apply bot_bool_def)+
qed

lemma index_below: "8 \<le> n \<Longrightarrow> unat i < 2 ^ (32 - n) \<Longrightarrow> i + 1 \<noteq> (0 :: u32)"
proof
  assume n: "8 \<le> n" and i: "unat i < 2 ^ (32 - n)" and z: "i + 1 = 0"
  have "(2 :: nat) ^ (32 - n) \<le> 2 ^ 24" using n by (intro power_increasing) simp_all
  moreover have "i = - 1" using z by (simp add: eq_neg_iff_add_eq_0)
  moreover have "unat (- 1 :: u32) = 4294967295" by (simp add: unsigned_minus_1_eq_mask mask_eq_exp_minus_1)
  ultimately show False using i by simp
qed

lemma page_index_below: "8 \<le> v_pageshift t \<Longrightarrow> page_index address t + 1 \<noteq> 0"
proof
  assume n: "8 \<le> v_pageshift t" and z: "page_index address t + 1 = 0"
  then have "page_index address t = - 1" by (simp add: eq_neg_iff_add_eq_0)
  then have "bit (page_index address t) 31" by simp
  then show False using n bit_imp_le_length [of address "v_pageshift t + 31"] by (simp add: page_index_def bit_drop_bit_eq)
qed

text \<open>Claiming a slot for a page that has no entry keeps the invariant, whatever owned the slot.\<close>

lemma vtlb_inv_claim:
  assumes i: "vtlb_inv t" and d: "0 < v_dynamic t" and v: "e AND FLAG_VALID \<noteq> 0" and n: "index + 1 \<noteq> 0"
  shows "vtlb_inv (t\<lparr>v_dynindex := (v_dynindex t + 1) mod v_dynamic t, v_live := (v_live t)(v_dynindex t := index + 1),
      v_table := (if v_live t (v_dynindex t) \<noteq> 0 then (v_table t)(v_live t (v_dynindex t) - 1 := 0) else v_table t)(index := e)\<rparr>)"
    (is "vtlb_inv ?t")
proof -
  have slot: "v_dynindex t < v_dynamic t" using i d by (simp add: vtlb_inv_def)
  have r: "fixed_range ?t e = fixed_range t e" for e by (rule fixed_range_cong) (use slot in auto)
  have c: "counted ?t = counted t" by (rule counted_cong) (use slot in auto)
  have "dynamic_page ?t j \<or> fixed_page ?t j" if j: "v_table ?t j \<noteq> 0" for j
  proof (cases "j = index")
    case True
    then show ?thesis using v n slot unfolding dynamic_page_def by (auto intro!: exI [of _ "v_dynindex t"])
  next
    case False
    then have o: "v_table t j \<noteq> 0" "v_table ?t j = v_table t j" and f: "v_live t (v_dynindex t) = 0 \<or> j \<noteq> v_live t (v_dynindex t) - 1"
      using j by (auto split: if_splits)
    from vtlb_invD [OF i o(1)] show ?thesis
    proof
      assume "dynamic_page t j"
      then obtain s where s: "s < v_dynamic t" "v_live t s = j + 1" "j + 1 \<noteq> 0" "v_table t j AND FLAG_VALID \<noteq> 0"
        by (auto simp: dynamic_page_def)
      have "s \<noteq> v_dynindex t" using f s(2, 3) by auto
      then show ?thesis using s o(2) by (auto simp: dynamic_page_def)
    next
      assume "fixed_page t j"
      then show ?thesis using o(2) unfolding fixed_page_def r by simp
    qed
  qed
  then show ?thesis using i d c unfolding vtlb_inv_def owned_def by simp
qed

lemma vtlb_inv_table:
  assumes i: "vtlb_inv t" and d: "v_dynindex t' < v_dynamic t' \<or> v_dynindex t' = v_dynindex t"
    and e: "t' = t\<lparr>v_dynindex := v_dynindex t', v_table := v_table t'\<rparr>"
    and o: "\<And>j. v_table t' j \<noteq> 0 \<Longrightarrow> v_table t' j = v_table t j \<or>
      v_table t j AND FLAG_VALID \<noteq> 0 \<and> v_table t' j AND FLAG_VALID \<noteq> 0 \<and> (v_table t j AND FLAG_FIXED \<noteq> 0 \<longrightarrow> v_table t' j AND FLAG_FIXED \<noteq> 0) \<or>
      v_table t j AND FLAG_FIXED \<noteq> 0 \<and> v_table t' j AND FLAG_FIXED \<noteq> 0 \<and> (v_table t j AND FLAG_VALID \<noteq> 0 \<longrightarrow> v_table t' j AND FLAG_VALID \<noteq> 0)"
  shows "vtlb_inv t'"
proof -
  have f: "v_live t' = v_live t" "v_dynamic t' = v_dynamic t" "v_fixed t' = v_fixed t" "v_refcnt t' = v_refcnt t"
    "v_fixedpages t' = v_fixedpages t" "v_pageshift t' = v_pageshift t"
    by (subst e, simp)+
  have r: "fixed_range t' k = fixed_range t k" for k by (rule fixed_range_cong) (simp_all add: f)
  have c: "counted t' = counted t" by (rule counted_cong) (simp_all add: f)
  have "dynamic_page t' j \<or> fixed_page t' j" if j: "v_table t' j \<noteq> 0" for j
  proof -
    have "v_table t j \<noteq> 0" using o [OF j] j by auto
    from vtlb_invD [OF i this] show ?thesis using o [OF j] unfolding dynamic_page_def fixed_page_def r f by auto
  qed
  then show ?thesis using i d c unfolding vtlb_inv_def owned_def f by auto
qed

lemma vtlb_inv_clear: "vtlb_inv t \<Longrightarrow> vtlb_inv (t\<lparr>v_table := (v_table t)(index := 0)\<rparr>)"
  by (erule vtlb_inv_table) auto

lemma flush_slot_fields [simp]:
  "v_dynamic (flush_slot t slot) = v_dynamic t" "v_pageshift (flush_slot t slot) = v_pageshift t"
  "v_fixed (flush_slot t slot) = v_fixed t" "v_fixedpages (flush_slot t slot) = v_fixedpages t"
  "v_live (flush_slot t slot) s = (if s = slot then 0 else v_live t s)"
  "v_table (flush_slot t slot) j = (if v_live t slot \<noteq> 0 \<and> j = v_live t slot - 1 then 0 else v_table t j)"
  by (simp_all add: flush_slot_def)

lemma vtlb_inv_flush_slot:
  assumes i: "vtlb_inv t" and s: "slot < v_dynamic t"
  shows "vtlb_inv (flush_slot t slot)" (is "vtlb_inv ?t")
proof -
  have r: "fixed_range ?t k = fixed_range t k" for k by (rule fixed_range_cong) (use s in auto)
  have c: "counted ?t = counted t" by (rule counted_cong) (use s in \<open>auto simp: flush_slot_def\<close>)
  have "dynamic_page ?t j \<or> fixed_page ?t j" if j: "v_table ?t j \<noteq> 0" for j
  proof -
    have o: "v_table t j \<noteq> 0" "v_table ?t j = v_table t j" "\<not> (v_live t slot \<noteq> 0 \<and> j = v_live t slot - 1)"
      using j by (auto split: if_splits)
    from vtlb_invD [OF i o(1)] show ?thesis
    proof
      assume "dynamic_page t j"
      then obtain u where u: "u < v_dynamic t" "v_live t u = j + 1" "j + 1 \<noteq> 0" "v_table t j AND FLAG_VALID \<noteq> 0"
        by (auto simp: dynamic_page_def)
      have "u \<noteq> slot" using o(3) u(2, 3) by auto
      then show ?thesis using u o(2) by (auto simp: dynamic_page_def)
    next
      assume "fixed_page t j"
      then show ?thesis using o(2) unfolding fixed_page_def r by simp
    qed
  qed
  moreover have "v_dynindex ?t = v_dynindex t" by (simp add: flush_slot_def)
  ultimately show ?thesis using i c unfolding vtlb_inv_def owned_def by simp
qed

text \<open>A flush drops the pages that dynamic slots name, and nothing else.\<close>

lemma flush_slots:
  "n \<le> v_dynamic t \<Longrightarrow> vtlb_inv t \<Longrightarrow>
     vtlb_inv (foldl flush_slot t [0..<n]) \<and> v_dynamic (foldl flush_slot t [0..<n]) = v_dynamic t"
  by (induction n) (auto simp: vtlb_inv_flush_slot)

lemma flush_slots_fields:
  "v_dynamic (foldl flush_slot t [0..<n]) = v_dynamic t \<and> v_pageshift (foldl flush_slot t [0..<n]) = v_pageshift t \<and>
     v_fixed (foldl flush_slot t [0..<n]) = v_fixed t \<and> v_fixedpages (foldl flush_slot t [0..<n]) = v_fixedpages t \<and>
     (\<forall>s. v_live (foldl flush_slot t [0..<n]) s = (if s < n then 0 else v_live t s)) \<and>
     (\<forall>j. v_table (foldl flush_slot t [0..<n]) j = (if \<exists>s<n. v_live t s \<noteq> 0 \<and> j = v_live t s - 1 then 0 else v_table t j))"
  by (induction n) (auto simp: less_Suc_eq)

lemma flush_dynamic_fields [simp]:
  "v_dynamic (vtlb_flush_dynamic t) = v_dynamic t" "v_pageshift (vtlb_flush_dynamic t) = v_pageshift t"
  "v_fixed (vtlb_flush_dynamic t) = v_fixed t"
  using flush_slots_fields [of t "v_dynamic t"] by (simp_all add: vtlb_flush_dynamic_def)

lemma vtlb_inv_flush_dynamic: "vtlb_inv t \<Longrightarrow> vtlb_inv (vtlb_flush_dynamic t)"
  using flush_slots [of "v_dynamic t" t] by (simp add: vtlb_flush_dynamic_def)

lemma flush_dynamic_table:
  "v_table (vtlb_flush_dynamic t) i = (if \<exists>s<v_dynamic t. v_live t s \<noteq> 0 \<and> i = v_live t s - 1 then 0 else v_table t i)"
  using flush_slots_fields [of t "v_dynamic t"] by (simp add: vtlb_flush_dynamic_def)

lemma flush_dynamic_fixed:
  assumes i: "vtlb_inv t" and n: "v_table (vtlb_flush_dynamic t) j \<noteq> 0"
  shows "fixed_page t j \<and> v_table (vtlb_flush_dynamic t) j = v_table t j"
proof -
  have f: "\<not> (\<exists>s<v_dynamic t. v_live t s \<noteq> 0 \<and> j = v_live t s - 1)" "v_table (vtlb_flush_dynamic t) j = v_table t j"
    using n unfolding flush_dynamic_table by (auto split: if_splits)
  have "\<not> dynamic_page t j" using f(1) unfolding dynamic_page_def by force
  then show ?thesis using vtlb_invD [OF i, of j] f(2) n by simp
qed

lemma flush_dynamic_empty: "vtlb_inv t \<Longrightarrow> v_fixed t = 0 \<Longrightarrow> v_table (vtlb_flush_dynamic t) i = 0"
  using flush_dynamic_fixed [of t i] by (auto simp: fixed_page_def)

lemma vtlb_inv_flush_address: "vtlb_inv t \<Longrightarrow> vtlb_inv (vtlb_flush_address address t)"
  unfolding vtlb_flush_address_def by (rule vtlb_inv_clear)

subsection \<open>Loading a dynamic page\<close>

lemma dynload_cases:
  "v_dynamic t = 0 \<Longrightarrow> vtlb_dynload index address val t = t"
  "0 < v_dynamic t \<Longrightarrow> v_table t index AND FLAG_VALID \<noteq> 0 \<Longrightarrow> vtlb_dynload index address val t =
     t\<lparr>v_dynindex := (v_dynindex t + 1) mod v_dynamic t, v_table := (v_table t)(index := page_base address t OR (FLAG_VALID OR val))\<rparr>"
  "0 < v_dynamic t \<Longrightarrow> v_table t index AND FLAG_VALID = 0 \<Longrightarrow> vtlb_dynload index address val t =
     t\<lparr>v_dynindex := (v_dynindex t + 1) mod v_dynamic t, v_live := (v_live t)(v_dynindex t := index + 1),
       v_table := (if v_live t (v_dynindex t) \<noteq> 0 then (v_table t)(v_live t (v_dynindex t) - 1 := 0) else v_table t)
         (index := page_base address t OR (FLAG_VALID OR val))\<rparr>"
  by (simp_all add: vtlb_dynload_def Let_def page_base_def)

lemma vtlb_inv_dynload:
  assumes i: "vtlb_inv t" and n: "index + 1 \<noteq> 0" and x: "v_fixed t = 0 \<or> v_table t index AND FLAG_FIXED = 0"
  shows "vtlb_inv (vtlb_dynload index address val t)"
proof (cases "v_dynamic t = 0")
  case False
  show ?thesis
  proof (cases "v_table t index AND FLAG_VALID = 0")
    case True
    then show ?thesis using vtlb_inv_claim [OF i _ valid_or(1) n] False by (simp add: dynload_cases(3) del: fun_upd_apply)
  next
    case v: False
    let ?t = "vtlb_dynload index address val t"
    have e: "?t = t\<lparr>v_dynindex := (v_dynindex t + 1) mod v_dynamic t, v_table := (v_table t)(index := page_base address t OR (FLAG_VALID OR val))\<rparr>"
      using False v by (simp add: dynload_cases(2))
    have r: "fixed_range ?t k = fixed_range t k" for k by (rule fixed_range_cong) (simp_all add: e)
    have c: "counted ?t = counted t" by (rule counted_cong) (simp_all add: e)
    have "v_table t index \<noteq> 0" using v by auto
    then have "dynamic_page t index" using vtlb_invD [OF i] x by (auto simp: fixed_page_def)
    then have "dynamic_page ?t index" by (simp add: dynamic_page_def e)
    moreover have "dynamic_page ?t j \<or> fixed_page ?t j" if "v_table ?t j \<noteq> 0" "j \<noteq> index" for j
      using vtlb_invD [OF i, of j] that unfolding dynamic_page_def fixed_page_def r by (simp add: e)
    ultimately have "owned ?t" unfolding owned_def by metis
    then show ?thesis using i c False unfolding vtlb_inv_def by (simp add: e)
  qed
qed (use i in \<open>simp add: dynload_cases\<close>)

subsection \<open>Filling a page\<close>

lemma fill_cases:
  assumes "0 < v_dynamic t" "\<And>j. v_refcnt t j \<le> 1"
  shows "v_table t (page_index address t) AND FLAGS_MASK \<noteq> 0 \<Longrightarrow> vtlb_fill address taddress intention t =
     (True, t\<lparr>v_table := (v_table t)(page_index address t := v_table t (page_index address t) OR push_bit intention 1)\<rparr>)"
  "v_table t (page_index address t) AND FLAGS_MASK = 0 \<Longrightarrow> vtlb_fill address taddress intention t =
     (True, t\<lparr>v_dynindex := (v_dynindex t + 1) mod v_dynamic t, v_live := (v_live t)(v_dynindex t := page_index address t + 1),
       v_table := (if v_live t (v_dynindex t) \<noteq> 0 then (v_table t)(v_live t (v_dynindex t) - 1 := 0) else v_table t)
         (page_index address t := (page_base taddress t OR FLAG_VALID) OR push_bit intention 1)\<rparr>)"
  using assms by (auto simp: vtlb_fill_def Let_def free_counted_def page_base_def)

lemma or_keeps_bit: "x AND 2 ^ k \<noteq> 0 \<Longrightarrow> (x OR y) AND 2 ^ k \<noteq> 0" for x y :: u32
  using tst_exp [of x k] tst_exp [of "x OR y" k] by (simp add: bit_or_iff)

lemma vtlb_inv_fill: "vtlb_inv t \<Longrightarrow> vtlb_inv (snd (vtlb_fill address taddress intention t))"
proof (cases "v_dynamic t = 0")
  case False
  assume i: "vtlb_inv t"
  then have n: "page_index address t + 1 \<noteq> 0" by (simp add: vtlb_inv_def page_index_below)
  note r = refcnt_le [OF i]
  let ?e = "v_table t (page_index address t)"
  show ?thesis
  proof (cases "?e AND FLAGS_MASK = 0")
    case True
    then show ?thesis using vtlb_inv_claim [OF i _ valid_or(2) n] False by (simp add: fill_cases(2) [OF _ r] del: fun_upd_apply)
  next
    case v: False
    then have t: "?e \<noteq> 0" by auto
    let ?t = "t\<lparr>v_table := (v_table t)(page_index address t := ?e OR push_bit intention 1)\<rparr>"
    have k: "?e AND FLAG_VALID \<noteq> 0 \<Longrightarrow> (?e OR push_bit intention 1) AND FLAG_VALID \<noteq> 0"
      "?e AND FLAG_FIXED \<noteq> 0 \<Longrightarrow> (?e OR push_bit intention 1) AND FLAG_FIXED \<noteq> 0"
      using or_keeps_bit [of ?e 3] or_keeps_bit [of ?e 7] by simp_all
    have s: "?e AND FLAG_VALID \<noteq> 0 \<or> ?e AND FLAG_FIXED \<noteq> 0"
      using vtlb_invD [OF i t] by (auto simp: dynamic_page_def fixed_page_def)
    have "vtlb_inv ?t" by (rule vtlb_inv_table [OF i]) (use k s in auto)
    then show ?thesis using fill_cases(1) [OF _ r v] False by simp
  qed
qed (simp add: vtlb_fill_def Let_def)

subsection \<open>Loading a fixed entry\<close>

lemma pages_Suc: "pages index (Suc n) = insert (index + of_nat n) (pages index n)"
  by (simp add: pages_def lessThan_Suc)

lemma clear_pages_fields:
  "v_dynamic (clear_pages index n t) = v_dynamic t \<and> v_pageshift (clear_pages index n t) = v_pageshift t \<and>
     v_fixed (clear_pages index n t) = v_fixed t \<and> v_fixedpages (clear_pages index n t) = v_fixedpages t \<and>
     v_live (clear_pages index n t) = v_live t \<and> v_refcnt (clear_pages index n t) = v_refcnt t \<and> v_dynindex (clear_pages index n t) = v_dynindex t \<and>
     (\<forall>j. v_table (clear_pages index n t) j = (if j \<in> pages index n then 0 else v_table t j))"
  unfolding clear_pages_def by (induction n) (simp add: pages_def, auto simp: pages_Suc)

lemma store_pages_fields:
  "v_dynamic (store_pages index n val t) = v_dynamic t \<and> v_pageshift (store_pages index n val t) = v_pageshift t \<and>
     v_fixed (store_pages index n val t) = v_fixed t \<and> v_fixedpages (store_pages index n val t) = v_fixedpages t \<and>
     v_live (store_pages index n val t) = v_live t \<and> v_refcnt (store_pages index n val t) = v_refcnt t \<and> v_dynindex (store_pages index n val t) = v_dynindex t \<and>
     (\<forall>j. j \<notin> pages index n \<longrightarrow> v_table (store_pages index n val t) j = v_table t j)"
  unfolding store_pages_def by (induction n) (auto simp: pages_Suc)

lemma of_nat_page: "n \<le> 2 ^ 32 \<Longrightarrow> k < n \<Longrightarrow> k' < n \<Longrightarrow> (of_nat k :: u32) = of_nat k' \<longleftrightarrow> k = k'"
proof -
  assume a: "n \<le> 2 ^ 32" "k < n" "k' < n"
  then have "unat (of_nat k :: u32) = k" "unat (of_nat k' :: u32) = k'" by (simp_all add: unat_of_nat take_bit_nat_eq_self)
  then show ?thesis by metis
qed

lemma store_pages_table:
  assumes "n \<le> 2 ^ 32" "k < n"
  shows "v_table (store_pages index n val t) (index + of_nat k) = val + push_bit (v_pageshift t) (of_nat k)"
  using assms
proof (induction n arbitrary: k)
  case (Suc n)
  let ?t = "store_pages index n val t"
  have e: "store_pages index (Suc n) val t = ?t\<lparr>v_table := (v_table ?t)(index + of_nat n := val + push_bit (v_pageshift ?t) (of_nat n))\<rparr>"
    by (simp add: store_pages_def)
  have p: "v_pageshift ?t = v_pageshift t" using store_pages_fields [of index n val t] by blast
  show ?case
  proof (cases "k = n")
    case True
    then show ?thesis by (simp add: e p)
  next
    case False
    then have "index + of_nat k \<noteq> index + of_nat n" using of_nat_page [OF Suc.prems(1), of k n] Suc.prems(2) by simp
    then show ?thesis using Suc False by (simp add: e)
  qed
qed simp

lemma shifted_keeps: "k < n \<Longrightarrow> n \<le> LENGTH('a) \<Longrightarrow> bit (x + push_bit n y) k = bit x k" for x y :: "'a::len word"
proof -
  assume k: "k < n" "n \<le> LENGTH('a)"
  have u: "uint (push_bit n y) = take_bit LENGTH('a) (push_bit n (uint y))" by (simp add: unsigned_push_bit_eq)
  have "take_bit n (uint x + uint (push_bit n y)) = take_bit n (take_bit n (uint x) + take_bit n (uint (push_bit n y)))"
    by (simp only: take_bit_add)
  also have "take_bit n (uint (push_bit n y)) = 0" unfolding u using k(2) by (simp add: take_bit_push_bit min_def)
  finally have t: "take_bit n (uint x + uint (push_bit n y)) = take_bit n (uint x)" by simp
  have "bit (uint (x + push_bit n y)) k = bit (uint x + uint (push_bit n y)) k"
    using k by (simp add: uint_word_ariths(1) bit_take_bit_iff flip: take_bit_eq_mod)
  also have "\<dots> = bit (uint x) k" using arg_cong [OF t, of "\<lambda>z. bit z k"] k(1) by (simp add: bit_take_bit_iff)
  finally show ?thesis using k by (simp add: bit_uint_iff)
qed

lemma fixed_bit: "8 \<le> n \<Longrightarrow> ((x OR FLAG_FIXED) + push_bit n y) AND FLAG_FIXED \<noteq> 0" for x y :: u32
proof -
  assume n: "8 \<le> n"
  have o: "bit (x OR FLAG_FIXED) 7" by (simp add: bit_or_iff)
  have "bit ((x OR FLAG_FIXED) + push_bit n y) 7"
  proof (cases "n \<le> 32")
    case True
    then have "bit ((x OR FLAG_FIXED) + push_bit n y) 7 = bit (x OR FLAG_FIXED) 7" using n by (intro shifted_keeps) simp_all
    then show ?thesis using o by blast
  next
    case False
    then have "push_bit n y = 0" by (intro bit_word_eqI) (simp add: bit_push_bit_iff)
    then show ?thesis using o by (simp only: add_0_right)
  qed
  then show ?thesis using tst_exp [of "(x OR FLAG_FIXED) + push_bit n y" 7] by simp
qed

text \<open>What a load leaves: the pages the entry had before are cleared, the new ones stored.\<close>

lemma load_state:
  assumes i: "vtlb_inv t" and l: "vtlb_load entrynum numpages address val t = Some t'"
  defines "index \<equiv> page_index address t" and "slot \<equiv> v_dynamic t + entrynum"
  shows "entrynum < v_fixed t" "v_dynamic t' = v_dynamic t" "v_pageshift t' = v_pageshift t" "v_fixed t' = v_fixed t"
    "v_dynindex t' = v_dynindex t" "v_live t' = (v_live t)(slot := index + 1)" "v_fixedpages t' = (v_fixedpages t)(entrynum := numpages)"
    "v_refcnt t' j = (if j + 1 \<noteq> 0 \<and> j + 1 = v_live t slot then 0 else v_refcnt t j) + (if j = index then 1 else 0)"
    "j \<notin> pages index numpages \<Longrightarrow> v_table t' j = (if j \<in> fixed_range t entrynum then 0 else v_table t j)"
    "numpages \<le> 2 ^ 32 \<Longrightarrow> k < numpages \<Longrightarrow> v_table t' (index + of_nat k) = (val OR FLAG_FIXED) + push_bit (v_pageshift t) (of_nat k)"
proof -
  show e: "entrynum < v_fixed t" using l by (auto simp: vtlb_load_def split: if_splits)
  define old where "old = v_live t slot - 1"
  define t1 where "t1 = (if v_live t slot = 0 then t
     else clear_pages old (v_fixedpages t entrynum) (t\<lparr>v_refcnt := (v_refcnt t)(old := 0)\<rparr>))"
  have one: "v_refcnt t old = 1" if "v_live t slot \<noteq> 0"
  proof -
    have "old + 1 = v_live t (v_dynamic t + entrynum)" by (simp add: old_def slot_def)
    then show ?thesis using i e that unfolding vtlb_inv_def counted_def slot_def by metis
  qed
  let ?t4 = "t1\<lparr>v_live := (v_live t1)(slot := index + 1), v_refcnt := (v_refcnt t1)(index := v_refcnt t1 index + 1),
      v_fixedpages := (v_fixedpages t1)(entrynum := numpages)\<rparr>"
  have t': "t' = store_pages index numpages (val OR FLAG_FIXED) ?t4"
    using l e one unfolding vtlb_load_def Let_def slot_def [symmetric] index_def [symmetric]
    by (auto simp: t1_def old_def)
  note c = clear_pages_fields [of old "v_fixedpages t entrynum" "t\<lparr>v_refcnt := (v_refcnt t)(old := 0)\<rparr>"]
  have f1: "v_dynamic t1 = v_dynamic t" "v_pageshift t1 = v_pageshift t" "v_fixed t1 = v_fixed t" "v_dynindex t1 = v_dynindex t"
    "v_live t1 = v_live t" "v_fixedpages t1 = v_fixedpages t"
    "\<And>j. v_refcnt t1 j = (if v_live t slot \<noteq> 0 \<and> j = old then 0 else v_refcnt t j)"
    "\<And>j. v_table t1 j = (if j \<in> fixed_range t entrynum then 0 else v_table t j)"
    unfolding t1_def using c by (simp_all add: fixed_range_def slot_def old_def)
  note st = store_pages_fields [of index numpages "val OR FLAG_FIXED" ?t4, folded t']
  show "v_dynamic t' = v_dynamic t" "v_pageshift t' = v_pageshift t" "v_fixed t' = v_fixed t"
    "v_dynindex t' = v_dynindex t" "v_live t' = (v_live t)(slot := index + 1)" "v_fixedpages t' = (v_fixedpages t)(entrynum := numpages)"
    using st f1(1-6) by simp_all
  have "(v_live t slot \<noteq> 0 \<and> j = old) = (j + 1 \<noteq> 0 \<and> j + 1 = v_live t slot)" for j unfolding old_def by (auto simp: eq_diff_eq)
  then have rf: "v_refcnt t1 j = (if j + 1 \<noteq> 0 \<and> j + 1 = v_live t slot then 0 else v_refcnt t j)" for j unfolding f1(7) by presburger
  have "v_refcnt t' = (v_refcnt t1)(index := v_refcnt t1 index + 1)" using st by simp
  then show "v_refcnt t' j = (if j + 1 \<noteq> 0 \<and> j + 1 = v_live t slot then 0 else v_refcnt t j) + (if j = index then 1 else 0)"
    unfolding rf [symmetric] by simp
  show "j \<notin> pages index numpages \<Longrightarrow> v_table t' j = (if j \<in> fixed_range t entrynum then 0 else v_table t j)"
    using st f1(8) by simp
  show "numpages \<le> 2 ^ 32 \<Longrightarrow> k < numpages \<Longrightarrow> v_table t' (index + of_nat k) = (val OR FLAG_FIXED) + push_bit (v_pageshift t) (of_nat k)"
    using store_pages_table [of numpages k index "val OR FLAG_FIXED" ?t4] f1(2) by (simp add: t')
qed

lemma vtlb_inv_load:
  assumes i: "vtlb_inv t" and l: "vtlb_load entrynum numpages address val t = Some t'" and n: "numpages \<le> 2 ^ 32"
    and d: "\<forall>e<v_fixed t. e \<noteq> entrynum \<longrightarrow> v_live t (v_dynamic t + e) \<noteq> page_index address t + 1"
  shows "vtlb_inv t'"
proof -
  define index slot where "index = page_index address t" and "slot = v_dynamic t + entrynum"
  note L = load_state [OF i l, folded index_def slot_def]
  have s8: "8 \<le> v_pageshift t" using i by (simp add: vtlb_inv_def)
  have i1: "index + 1 \<noteq> 0" unfolding index_def by (rule page_index_below [OF s8])
  have live: "v_live t' (v_dynamic t + e) = (if e = entrynum then index + 1 else v_live t (v_dynamic t + e))" for e
    unfolding L(6) slot_def by simp
  have r: "fixed_range t' e = (if e = entrynum then pages index numpages else fixed_range t e)" for e
    using i1 unfolding fixed_range_def L(2,7) live by simp
  have ct: "v_refcnt t j = (if j + 1 \<noteq> 0 \<and> (\<exists>e<v_fixed t. v_live t (v_dynamic t + e) = j + 1) then 1 else 0)" for j
    using i unfolding vtlb_inv_def counted_def by blast
  have inj: "v_live t (v_dynamic t + e) = v_live t (v_dynamic t + e') \<Longrightarrow> e = e' \<or> v_live t (v_dynamic t + e) = 0"
    if "e < v_fixed t" "e' < v_fixed t" for e e'
    using i that unfolding vtlb_inv_def counted_def by blast
  have rc: "v_refcnt t' j = (if j + 1 \<noteq> 0 \<and> (\<exists>e<v_fixed t'. v_live t' (v_dynamic t' + e) = j + 1) then 1 else 0)" for j
  proof (cases "j = index")
    case True
    have "\<exists>e<v_fixed t'. v_live t' (v_dynamic t' + e) = j + 1" unfolding L(2,4) live using L(1) True by auto
    moreover have "(if j + 1 \<noteq> 0 \<and> j + 1 = v_live t slot then 0 else v_refcnt t j) = 0"
      unfolding ct slot_def using d True unfolding index_def by metis
    ultimately show ?thesis unfolding L(8) using True i1 by simp
  next
    case False
    then have "(\<exists>e<v_fixed t'. v_live t' (v_dynamic t' + e) = j + 1) = (\<exists>e<v_fixed t. e \<noteq> entrynum \<and> v_live t (v_dynamic t + e) = j + 1)"
      unfolding L(2,4) live by auto
    moreover have "j + 1 \<noteq> 0 \<Longrightarrow> j + 1 = v_live t slot \<Longrightarrow> \<not> (\<exists>e<v_fixed t. e \<noteq> entrynum \<and> v_live t (v_dynamic t + e) = j + 1)"
      using inj [OF _ L(1)] unfolding slot_def by metis
    moreover have "j + 1 \<noteq> v_live t slot \<Longrightarrow> (\<exists>e<v_fixed t. e \<noteq> entrynum \<and> v_live t (v_dynamic t + e) = j + 1) = (\<exists>e<v_fixed t. v_live t (v_dynamic t + e) = j + 1)"
      unfolding slot_def by metis
    ultimately show ?thesis unfolding L(8) ct using False by (cases "j + 1 = v_live t slot"; cases "j + 1 = 0") simp_all
  qed
  have di: "\<forall>e<v_fixed t'. \<forall>e'<v_fixed t'. v_live t' (v_dynamic t' + e) = v_live t' (v_dynamic t' + e') \<longrightarrow> e = e' \<or> v_live t' (v_dynamic t' + e) = 0"
    unfolding L(2,4) live using inj d index_def by (metis (no_types, lifting))
  have ow: "dynamic_page t' j \<or> fixed_page t' j" if j: "v_table t' j \<noteq> 0" for j
  proof (cases "j \<in> pages index numpages")
    case True
    then obtain k where k: "k < numpages" "j = index + of_nat k" by (auto simp: pages_def)
    have "v_table t' j AND FLAG_FIXED \<noteq> 0" unfolding k(2) L(10) [OF n k(1)] by (rule fixed_bit [OF s8])
    moreover have "j \<in> fixed_range t' entrynum" using True by (simp add: r)
    ultimately show ?thesis unfolding fixed_page_def L(4) using L(1) by blast
  next
    case False
    then have o: "j \<notin> fixed_range t entrynum" "v_table t' j = v_table t j" using j L(9) [OF False] by (auto split: if_splits)
    then have "dynamic_page t j \<or> fixed_page t j" using vtlb_invD [OF i, of j] j by simp
    then show ?thesis
    proof
      assume "dynamic_page t j"
      moreover have "v_live t' s = v_live t s" if "s < v_dynamic t" for s using that unfolding L(6) slot_def by simp
      ultimately show ?thesis using o(2) unfolding dynamic_page_def L(2) by auto
    next
      assume "fixed_page t j"
      then obtain e where "v_table t j AND FLAG_FIXED \<noteq> 0" "e < v_fixed t" "j \<in> fixed_range t e" by (auto simp: fixed_page_def)
      then show ?thesis using o unfolding fixed_page_def L(4) r by metis
    qed
  qed
  show ?thesis using i rc di ow unfolding vtlb_inv_def owned_def counted_def L(2,3,5) by blast
qed

subsection \<open>Reachable buffers\<close>

lemma fill_fields:
  "v_dynamic (snd (vtlb_fill address taddress intention t)) = v_dynamic t"
  "v_fixed (snd (vtlb_fill address taddress intention t)) = v_fixed t"
  "v_pageshift (snd (vtlb_fill address taddress intention t)) = v_pageshift t"
  by (simp_all add: vtlb_fill_def Let_def free_counted_def)

lemma dynload_keeps:
  "v_dynamic (vtlb_dynload index address val t) = v_dynamic t" "v_fixed (vtlb_dynload index address val t) = v_fixed t"
  "v_pageshift (vtlb_dynload index address val t) = v_pageshift t"
  by (simp_all add: vtlb_dynload_def Let_def)

lemma pages_fit: "m + n \<le> 2 ^ (32 - k) \<Longrightarrow> n \<le> 2 ^ 32" for n :: nat
  using power_increasing [of "32 - k" 32 "2 :: nat"] by linarith

lemma flags_empty: "vtlb_inv t \<Longrightarrow> v_table t i AND FLAGS_MASK = 0 \<longleftrightarrow> v_table t i = 0"
proof
  assume i: "vtlb_inv t" and z: "v_table t i AND FLAGS_MASK = 0"
  have b: "\<not> bit (v_table t i AND FLAGS_MASK) k" for k unfolding z by simp
  have "\<not> bit (v_table t i) 3" "\<not> bit (v_table t i) 7" using b [of 3] b [of 7] unfolding bit_and_iff by simp_all
  then have "v_table t i AND FLAG_VALID = 0" "v_table t i AND FLAG_FIXED = 0"
    using tst_exp [of "v_table t i" 3] tst_exp [of "v_table t i" 7] by simp_all
  then show "v_table t i = 0" using vtlb_invD [OF i, of i] by (auto simp: dynamic_page_def fixed_page_def)
qed simp

lemma fill_entry:
  assumes i: "vtlb_inv t" and d: "0 < v_dynamic t"
  shows "let t' = snd (vtlb_fill a ta k t); e = v_table t (page_index a t) in
       v_table t' (page_index a t) = (if e = 0 then page_base ta t OR FLAG_VALID else e) OR push_bit k 1 \<and>
       (\<forall>i. i \<noteq> page_index a t \<longrightarrow> v_table t' i = 0 \<or> v_table t' i = v_table t i)"
  using fill_cases [OF d refcnt_le [OF i], where address = a] flags_empty [OF i, of "page_index a t"]
  by (cases "v_table t (page_index a t) = 0") (simp_all add: Let_def)

lemma dynload_entry:
  "0 < v_dynamic t \<Longrightarrow> v_table (vtlb_dynload index a v t) index = page_base a t OR (FLAG_VALID OR v) \<and>
     (\<forall>i. i \<noteq> index \<longrightarrow> v_table (vtlb_dynload index a v t) i = 0 \<or> v_table (vtlb_dynload index a v t) i = v_table t i)"
  by (cases "v_table t index AND FLAG_VALID = 0") (simp_all add: dynload_cases(2,3))

lemma vtlb_reachable_inv:
  "vtlb_reachable dynamic fixed pageshift t \<Longrightarrow>
     vtlb_inv t \<and> v_dynamic t = dynamic \<and> v_fixed t = fixed \<and> v_pageshift t = pageshift"
proof (induction rule: vtlb_reachable.induct)
  case start
  then show ?case using vtlb_inv_start by (simp add: vtlb_pre_start_def)
next
  case (step t t')
  then have i: "vtlb_inv t" by blast
  from step(2) show ?case
  proof (cases rule: vtlb_step.cases)
    case (fill address taddress intention)
    then show ?thesis using step(3) vtlb_inv_fill by (simp add: fill_fields)
  next
    case (load entrynum numpages address val)
    then show ?thesis using step(3) vtlb_inv_load [OF i load(1) pages_fit [OF load(2)] load(3)] load_state(2-4) [OF i load(1)] by simp
  next
    case (dynload index address val)
    moreover have "8 \<le> v_pageshift t" using i by (simp add: vtlb_inv_def)
    ultimately show ?thesis using step(3) vtlb_inv_dynload [OF i] index_below by (simp add: dynload_keeps)
  next
    case flush_dynamic
    then show ?thesis using step(3) vtlb_inv_flush_dynamic by simp
  next
    case (flush_address address)
    then show ?thesis using step(3) vtlb_inv_flush_address by (simp add: vtlb_flush_address_def)
  qed
qed

lemma fixed_ranges_card: "finite (\<Union>e<k. fixed_range t e) \<and> card (\<Union>e<k. fixed_range t e) \<le> (\<Sum>e<k. v_fixedpages t e)"
proof (induction k)
  case (Suc k)
  have p: "finite (pages x n) \<and> card (pages x n) \<le> n" for x n
    unfolding pages_def using card_image_le [of "{..<n}"] by (metis card_lessThan finite_imageI finite_lessThan)
  have "finite (fixed_range t k) \<and> card (fixed_range t k) \<le> v_fixedpages t k" using p by (simp add: fixed_range_def)
  then show ?case using Suc card_Un_le [of "\<Union>e<k. fixed_range t e" "fixed_range t k"] by (simp add: lessThan_Suc Un_commute)
qed simp


text \<open>A buffer with one fixed entry of two pages, moved once, and a dynamic page.\<close>

definition loaded_vtlb :: vtlb where
  "loaded_vtlb = vtlb_dynload 5 0x7000 1 (the (vtlb_load 0 2 0x20000 0x90003 (the (vtlb_load 0 2 0x10000 0x80003 (vtlb_pre_start 32 1 12)))))"

lemma loaded_vtlb_reachable: "vtlb_reachable 32 1 12 loaded_vtlb"
proof -
  let ?a = "vtlb_pre_start 32 1 12"
  let ?b = "the (vtlb_load 0 2 0x10000 0x80003 ?a)"
  let ?c = "the (vtlb_load 0 2 0x20000 0x90003 ?b)"
  have f: "v_fixed ?a = 1" "v_fixed ?b = 1" by code_simp+
  have "vtlb_load 0 2 a v t = Some (the (vtlb_load 0 2 a v t))" if "v_fixed t = 1" for a v t
    using that by (simp add: vtlb_load_def Let_def)
  then have "vtlb_load 0 2 0x10000 0x80003 ?a = Some ?b" "vtlb_load 0 2 0x20000 0x90003 ?b = Some ?c" using f by blast+
  moreover have "v_fixed ?a = 1" "v_fixed ?b = 1" "v_pageshift ?a = 12" "v_pageshift ?b = 12" "v_pageshift ?c = 12" by code_simp+
  moreover have "unat (page_index 0x10000 ?a) = 16" "unat (page_index 0x20000 ?b) = 32" "v_table ?c 5 AND FLAG_FIXED = 0" by code_simp+
  ultimately have "vtlb_step ?a ?b" "vtlb_step ?b ?c" "vtlb_step ?c loaded_vtlb"
    unfolding loaded_vtlb_def by (auto intro!: vtlb_step.load vtlb_step.dynload)
  then show ?thesis using vtlb_reachable.start [of 12 32 1] vtlb_reachable.step by simp blast
qed


subsection \<open>Mixing fixed and dynamic entries\<close>

text \<open>\<open>vtlb_dynload\<close> on a valid page of a fixed entry drops the fixed mark and claims no slot: the page survives every flush.\<close>

lemma dynload_over_fixed:
  "let t = vtlb_flush_dynamic (vtlb_dynload 16 0x7000 1 (the (vtlb_load 0 1 0x10000 0x8000b (vtlb_pre_start 32 1 12))))
   in v_table t 16 = 0x7009 \<and> v_table t 16 AND FLAG_FIXED = 0"
  by code_simp

text \<open>Two fixed entries that start at the same page: moving the longer one away leaves its second page behind.\<close>

lemma shared_start_leaves_pages:
  "let t = vtlb_pre_start 32 2 12; load = (\<lambda>e n a t. the (vtlb_load e n a 0x80003 t)) in
   v_table (load 0 1 0x20000 (load 1 1 0x10000 (load 0 2 0x10000 t))) 0x11 \<noteq> 0"
  by code_simp

end
