(* ===== verification/I386_Memory.thy ===== *)
theory I386_Memory
  imports Vtlb I386_Alu
begin

text \<open>
  How the processor of \<open>src/devices/cpu/i386\<close> reaches memory: page tables and their look-aside buffer, the accesses of
  every width and alignment of the 386 and the 386SX, and the fetches. Physical memory is a store of bytes behind
  the little-endian bus of 32 bits; devices in the address map, access times and the debugger's hooks are left out.
  The page tables are translated by the code at \<open>i386_translate_address\<close> on every miss.
\<close>

unbundle bit_operations_syntax

subsection \<open>State\<close>

datatype pm_fault = FAULT_UD | FAULT_NM | FAULT_DF | FAULT_TS | FAULT_NP | FAULT_SS | FAULT_GP | FAULT_PF | FAULT_MF

datatype sreg_name = ES | CS | SS | DS | FS | GS

record sreg =
  s_selector :: u16
  s_flags :: u16
  s_base :: u32
  s_limit :: u32
  s_d :: bool
  s_valid :: bool

record seg_desc =
  d_segment :: u16
  d_flags :: u16
  d_base :: u32
  d_limit :: u32

text \<open>The registers the memory, segment and interrupt functions use; the general registers are numbered EAX to EDI.
  \<open>c_reset_pulse\<close> records a pulse on the processor's own reset line.\<close>

record cpu =
  c_reg :: "nat \<Rightarrow> u32"
  c_sreg :: "sreg_name \<Rightarrow> sreg"
  c_eip :: u32
  c_pc :: u32
  c_prev_eip :: u32
  c_flags :: flags
  c_TF :: bool
  c_IF :: bool
  c_DF :: bool
  c_NT :: bool
  c_RF :: bool
  c_AC :: bool
  c_VIF :: bool
  c_VIP :: bool
  c_ID :: bool
  c_eflags :: u32
  c_eflags_mask :: u32
  c_cr0 :: u32
  c_cr2 :: u32
  c_cr3 :: u32
  c_cr4 :: u32
  c_CPL :: u8
  c_IOP1 :: bool
  c_IOP2 :: bool
  c_VM :: bool
  c_operand_size :: bool
  c_cpu_version :: u32
  c_gdtr_base :: u32
  c_gdtr_limit :: u16
  c_idtr_base :: u32
  c_idtr_limit :: u16
  c_ldtr :: seg_desc
  c_task :: seg_desc
  c_a20_mask :: u32
  c_ext :: u8
  c_opcode :: u8
  c_dr6 :: u32
  c_dr7 :: u32
  c_auto_clear_RF :: bool
  c_reset_pulse :: bool
  c_performed_intersegment_jump :: bool
  c_vtlb :: vtlb
  c_mem :: "u32 \<Rightarrow> u8"

abbreviation "CR0_PG \<equiv> 0x80000000 :: u32"
abbreviation "CR0_WP \<equiv> 0x10000 :: u32"
abbreviation "CR0_PE \<equiv> 0x1 :: u32"
abbreviation "CR4_PSE \<equiv> 0x10 :: u32"
abbreviation "TR_READ \<equiv> 0 :: u32"
abbreviation "TR_WRITE \<equiv> 1 :: u32"
abbreviation "TR_FETCH \<equiv> 2 :: u32"
abbreviation "TR_USER \<equiv> 4 :: u32"
abbreviation "FLAG_DIRTY \<equiv> 0x100 :: u32"

subsection \<open>The bus\<close>

text \<open>The byte lanes of a 32-bit word of memory; a mask selects bits to be written.\<close>

definition lane :: "u32 \<Rightarrow> nat \<Rightarrow> u32" where
  "lane a k = (a AND NOT 3) OR of_nat k"

definition read_dword :: "(u32 \<Rightarrow> u8) \<Rightarrow> u32 \<Rightarrow> u32" where
  "read_dword m a = ucast (m (lane a 0)) OR push_bit 8 (ucast (m (lane a 1))) OR push_bit 16 (ucast (m (lane a 2))) OR
     push_bit 24 (ucast (m (lane a 3)))"

definition read_word :: "(u32 \<Rightarrow> u8) \<Rightarrow> u32 \<Rightarrow> u16" where
  "read_word m a = ucast (m (a AND NOT 1)) OR push_bit 8 (ucast (m (a AND NOT 1 OR 1)))"

definition write_lane :: "u32 \<Rightarrow> u32 \<Rightarrow> u32 \<Rightarrow> nat \<Rightarrow> (u32 \<Rightarrow> u8) \<Rightarrow> u32 \<Rightarrow> u8" where
  "write_lane a v msk k m = m(lane a k := (m (lane a k) AND NOT (byte32 k msk)) OR (byte32 k v AND byte32 k msk))"

definition write_dword :: "u32 \<Rightarrow> u32 \<Rightarrow> u32 \<Rightarrow> (u32 \<Rightarrow> u8) \<Rightarrow> u32 \<Rightarrow> u8" where
  "write_dword a v msk m = write_lane a v msk 3 (write_lane a v msk 2 (write_lane a v msk 1 (write_lane a v msk 0 m)))"

definition write_word :: "u32 \<Rightarrow> u16 \<Rightarrow> (u32 \<Rightarrow> u8) \<Rightarrow> u32 \<Rightarrow> u8" where
  "write_word a v m = m(a AND NOT 1 := lo8 v, a AND NOT 1 OR 1 := hi8 v)"

subsection \<open>Page tables\<close>

definition get_permissions :: "u32 \<Rightarrow> bool \<Rightarrow> u32" where
  "get_permissions pte wp =
     (let ret = READ_ALLOWED OR (if tst pte 4 then USER_READ_ALLOWED else 0);
          ret1 = (if \<not> wp then ret OR WRITE_ALLOWED else ret)
      in if tst pte 2 then ret1 OR (WRITE_ALLOWED OR (if tst pte 4 then USER_WRITE_ALLOWED else 0)) else ret1)"

definition denied :: "u32 \<Rightarrow> bool \<Rightarrow> bool \<Rightarrow> bool" where
  "denied perm write user \<longleftrightarrow> write \<and> (\<not> tst perm WRITE_ALLOWED \<or> user \<and> \<not> tst perm USER_WRITE_ALLOWED) \<or>
     user \<and> \<not> tst perm USER_READ_ALLOWED"

definition poke :: "u32 \<Rightarrow> u32 \<Rightarrow> cpu \<Rightarrow> cpu" where
  "poke a v s = s\<lparr>c_mem := write_dword a v 0xffffffff (c_mem s)\<rparr>"

text \<open>The result is the truth value, the address, and the entry where the code stores one.\<close>

definition i386_translate_address :: "u32 \<Rightarrow> bool \<Rightarrow> u32 \<Rightarrow> cpu \<Rightarrow> (bool \<times> u32 \<times> u32 option) \<times> cpu" where
  "i386_translate_address intention debug address s =
     (let pdbr = c_cr3 s AND 0xfffff000;
          directory = drop_bit 22 address AND 0x3ff;
          table = drop_bit 12 address AND 0x3ff;
          user = tst intention TR_USER;
          write = tst intention TR_WRITE;
          wp = tst (c_cr0 s) CR0_WP
      in if \<not> tst (c_cr0 s) CR0_PG then ((True, address, Some 0x77), s)
         else let page_dir = read_dword (c_mem s) (pdbr + directory * 4)
              in if \<not> tst page_dir 1 then ((False, address, Some 0), s)
                 else if tst page_dir 0x80 \<and> tst (c_cr4 s) CR4_PSE
                 then let a = (page_dir AND 0xffc00000) OR (address AND 0x003fffff)
                      in if debug then ((True, a, None), s)
                         else let perm = get_permissions page_dir wp
                              in if denied perm write user then ((False, address, Some perm), s)
                                 else let s1 = (if \<not> tst page_dir 0x40 \<and> write then poke (pdbr + directory * 4) (page_dir OR 0x60) s
                                                else if \<not> tst page_dir 0x20 then poke (pdbr + directory * 4) (page_dir OR 0x20) s else s)
                                      in ((True, a, Some (if write then perm OR FLAG_DIRTY else perm)), s1)
                 else let page_entry = read_dword (c_mem s) ((page_dir AND 0xfffff000) + table * 4)
                      in if \<not> tst page_entry 1 then ((False, address, Some 0), s)
                         else let a = (page_entry AND 0xfffff000) OR (address AND 0xfff)
                              in if debug then ((True, a, None), s)
                                 else let perm = get_permissions page_entry wp
                                      in if denied perm write user then ((False, address, Some perm), s)
                                         else let s1 = (if \<not> tst page_dir 0x20 then poke (pdbr + directory * 4) (page_dir OR 0x20) s else s);
                                                  s2 = (if \<not> tst page_entry 0x40 \<and> write
                                                        then poke ((page_dir AND 0xfffff000) + table * 4) (page_entry OR 0x60) s1
                                                        else if \<not> tst page_entry 0x20
                                                        then poke ((page_dir AND 0xfffff000) + table * 4) (page_entry OR 0x20) s1 else s1)
                                              in ((True, a, Some (if write then perm OR FLAG_DIRTY else perm)), s2))"

text \<open>A failure carries the error code.\<close>

definition access_error :: "u32 \<Rightarrow> cpu \<Rightarrow> u32" where
  "access_error type s = (if tst type TR_WRITE then 2 else 0) OR (if c_CPL s = 3 then 4 else 0)"

definition access_type :: "u8 \<Rightarrow> u32 \<Rightarrow> u32" where
  "access_type pl type = (let type1 = (if type = TR_FETCH then TR_READ else type) in if pl = 3 then type1 OR TR_USER else type1)"

definition translate_address :: "u8 \<Rightarrow> u32 \<Rightarrow> u32 \<Rightarrow> cpu \<Rightarrow> (u32 + u32) \<times> cpu" where
  "translate_address pl type0 address s =
     (if \<not> tst (c_cr0 s) CR0_PG then (Inr address, s)
      else let index = drop_bit 12 address; entry = v_table (c_vtlb s) index; type = access_type pl type0
           in if \<not> tst entry FLAG_VALID \<or> tst type TR_WRITE \<and> \<not> tst entry FLAG_DIRTY
              then (case i386_translate_address type False address s of ((ok, a, e), s1) \<Rightarrow>
                     (let stored = (case e of None \<Rightarrow> entry | Some e \<Rightarrow> e)
                      in if ok then (Inr a, s1\<lparr>c_vtlb := vtlb_dynload index a stored (c_vtlb s1)\<rparr>)
                         else (Inl (if stored \<noteq> 0 then access_error type s OR 1 else access_error type s), s1)))
              else if \<not> tst entry (push_bit (unat type) 1) then (Inl (access_error type s OR 1), s)
              else (Inr ((entry AND 0xfffff000) OR (address AND 0xfff)), s))"

subsection \<open>Steps that may fault\<close>

type_synonym 'a step = "cpu \<Rightarrow> ((pm_fault \<times> u32) + 'a) \<times> cpu"

definition ret :: "'a \<Rightarrow> 'a step" where
  "ret a s = (Inr a, s)"

definition bnd :: "'a step \<Rightarrow> ('a \<Rightarrow> 'b step) \<Rightarrow> 'b step" where
  "bnd f g s = (case f s of (Inl e, s1) \<Rightarrow> (Inl e, s1) | (Inr a, s1) \<Rightarrow> g a s1)"

definition fault_throw :: "pm_fault \<Rightarrow> u32 \<Rightarrow> 'a step" where
  "fault_throw f e s = (Inl (f, e), s)"

text \<open>The page fault leaves the linear address in CR2. The physical address is masked by the A20 gate.\<close>

definition physical :: "u8 \<Rightarrow> u32 \<Rightarrow> u32 \<Rightarrow> u32 step" where
  "physical pl type address s =
     (case translate_address pl type address s of
        (Inl error, s1) \<Rightarrow> fault_throw FAULT_PF error (s1\<lparr>c_cr2 := address\<rparr>)
      | (Inr a, s1) \<Rightarrow> (Inr (a AND c_a20_mask s1), s1))"

definition peek :: "((u32 \<Rightarrow> u8) \<Rightarrow> 'a) \<Rightarrow> 'a step" where
  "peek f s = (Inr (f (c_mem s)), s)"

definition store :: "((u32 \<Rightarrow> u8) \<Rightarrow> u32 \<Rightarrow> u8) \<Rightarrow> unit step" where
  "store f s = (Inr (), s\<lparr>c_mem := f (c_mem s)\<rparr>)"

subsection \<open>Reads of the 386\<close>

definition READ8PL :: "u32 \<Rightarrow> u8 \<Rightarrow> u8 step" where
  "READ8PL ea privilege = bnd (physical privilege TR_READ ea) (\<lambda>a. peek (\<lambda>m. m a))"

definition READ16PL :: "u32 \<Rightarrow> u8 \<Rightarrow> u16 step" where
  "READ16PL ea privilege =
     (if ea AND 3 = 1
      then bnd (physical privilege TR_READ ea) (\<lambda>a. peek (\<lambda>m. ucast (drop_bit 8 (read_dword m (a - 1)))))
      else if ea AND 3 = 3
      then bnd (READ8PL ea privilege) (\<lambda>v0. bnd (READ8PL (ea + 1) privilege) (\<lambda>v1. ret (ucast v0 OR push_bit 8 (ucast v1))))
      else bnd (physical privilege TR_READ ea) (\<lambda>a. peek (\<lambda>m. read_word m a)))"

definition READ32PL :: "u32 \<Rightarrow> u8 \<Rightarrow> u32 step" where
  "READ32PL ea privilege =
     (if ea AND 3 = 1
      then bnd (bnd (physical privilege TR_READ ea) (\<lambda>a. peek (\<lambda>m. drop_bit 8 (read_dword m (a - 1)))))
        (\<lambda>v. bnd (READ8PL (ea + 3) privilege) (\<lambda>v3. ret (v OR push_bit 24 (ucast v3))))
      else if ea AND 3 = 2
      then bnd (READ16PL ea privilege) (\<lambda>v0. bnd (READ16PL (ea + 2) privilege) (\<lambda>v1. ret (ucast v0 OR push_bit 16 (ucast v1))))
      else if ea AND 3 = 3
      then bnd (READ8PL ea privilege) (\<lambda>v0.
        bnd (bnd (physical privilege TR_READ (ea + 1)) (\<lambda>a. peek (\<lambda>m. push_bit 8 (read_dword m a)))) (\<lambda>v. ret (ucast v0 OR v)))
      else bnd (physical privilege TR_READ ea) (\<lambda>a. peek (\<lambda>m. read_dword m a)))"

definition READ64PL :: "u32 \<Rightarrow> u8 \<Rightarrow> u64 step" where
  "READ64PL ea privilege =
     (if ea AND 3 = 1
      then bnd (bnd (physical privilege TR_READ ea) (\<lambda>a. peek (\<lambda>m. drop_bit 8 (read_dword m (a - 1)))))
        (\<lambda>v. bnd (READ32PL (ea + 3) privilege) (\<lambda>v3. bnd (READ8PL (ea + 7) privilege)
          (\<lambda>v7. ret (ucast v OR push_bit 24 (ucast v3) OR push_bit 56 (ucast v7)))))
      else if ea AND 3 = 2
      then bnd (READ16PL ea privilege) (\<lambda>v0. bnd (READ32PL (ea + 2) privilege) (\<lambda>v2. bnd (READ16PL (ea + 6) privilege)
          (\<lambda>v6. ret (ucast v0 OR push_bit 16 (ucast v2) OR push_bit 48 (ucast v6)))))
      else if ea AND 3 = 3
      then bnd (READ8PL ea privilege) (\<lambda>v0. bnd (READ32PL (ea + 1) privilege) (\<lambda>v1.
        bnd (bnd (physical privilege TR_READ (ea + 5)) (\<lambda>a. peek (\<lambda>m. push_bit 40 (ucast (read_dword m a)))))
          (\<lambda>v. ret (ucast v0 OR push_bit 8 (ucast v1) OR v))))
      else bnd (READ32PL ea privilege) (\<lambda>v0. bnd (READ32PL (ea + 4) privilege) (\<lambda>v4. ret (ucast v0 OR push_bit 32 (ucast v4)))))"

subsection \<open>Reads of the 386SX\<close>

definition sx_READ16PL :: "u32 \<Rightarrow> u8 \<Rightarrow> u16 step" where
  "sx_READ16PL ea privilege =
     (if ea AND 1 = 0 then bnd (physical privilege TR_READ ea) (\<lambda>a. peek (\<lambda>m. read_word m a))
      else bnd (READ8PL ea privilege) (\<lambda>v0. bnd (READ8PL (ea + 1) privilege) (\<lambda>v1. ret (ucast v0 OR push_bit 8 (ucast v1)))))"

definition sx_READ32PL :: "u32 \<Rightarrow> u8 \<Rightarrow> u32 step" where
  "sx_READ32PL ea privilege =
     (if ea AND 1 = 0
      then bnd (sx_READ16PL ea privilege) (\<lambda>v0. bnd (sx_READ16PL (ea + 2) privilege) (\<lambda>v2. ret (ucast v0 OR push_bit 16 (ucast v2))))
      else bnd (READ8PL ea privilege) (\<lambda>v0. bnd (sx_READ16PL (ea + 1) privilege) (\<lambda>v1. bnd (READ8PL (ea + 3) privilege)
        (\<lambda>v3. ret (ucast v0 OR push_bit 8 (ucast v1) OR push_bit 24 (ucast v3))))))"

definition sx_READ64PL :: "u32 \<Rightarrow> u8 \<Rightarrow> u64 step" where
  "sx_READ64PL ea privilege =
     (if ea AND 1 = 0
      then bnd (sx_READ16PL ea privilege) (\<lambda>v0. bnd (sx_READ16PL (ea + 2) privilege) (\<lambda>v2. bnd (sx_READ16PL (ea + 4) privilege)
        (\<lambda>v4. bnd (sx_READ16PL (ea + 6) privilege)
          (\<lambda>v6. ret (ucast v0 OR push_bit 16 (ucast v2) OR push_bit 32 (ucast v4) OR push_bit 48 (ucast v6))))))
      else bnd (READ8PL ea privilege) (\<lambda>v0. bnd (sx_READ16PL (ea + 1) privilege) (\<lambda>v1. bnd (sx_READ16PL (ea + 3) privilege)
        (\<lambda>v3. bnd (sx_READ16PL (ea + 5) privilege) (\<lambda>v5. bnd (READ8PL (ea + 7) privilege)
          (\<lambda>v7. ret (ucast v0 OR push_bit 8 (ucast v1) OR push_bit 24 (ucast v3) OR push_bit 40 (ucast v5) OR push_bit 56 (ucast v7))))))))"

subsection \<open>Writes of the 386\<close>

definition WRITE_TEST :: "u32 \<Rightarrow> unit step" where
  "WRITE_TEST ea s = bnd (physical (c_CPL s) TR_WRITE ea) (\<lambda>_. ret ()) s"

definition WRITE8PL :: "u32 \<Rightarrow> u8 \<Rightarrow> u8 \<Rightarrow> unit step" where
  "WRITE8PL ea privilege val = bnd (physical privilege TR_WRITE ea) (\<lambda>a. store (\<lambda>m. m(a := val)))"

definition WRITE16PL :: "u32 \<Rightarrow> u8 \<Rightarrow> u16 \<Rightarrow> unit step" where
  "WRITE16PL ea privilege val =
     (if ea AND 3 = 1
      then bnd (physical privilege TR_WRITE ea) (\<lambda>a. store (write_dword (a - 1) (push_bit 8 (ucast val)) 0x00ffff00))
      else if ea AND 3 = 3
      then bnd (WRITE8PL ea privilege (ucast (val AND 0xff))) (\<lambda>_. WRITE8PL (ea + 1) privilege (ucast (drop_bit 8 val AND 0xff)))
      else bnd (physical privilege TR_WRITE ea) (\<lambda>a. store (write_word a val)))"

definition WRITE32PL :: "u32 \<Rightarrow> u8 \<Rightarrow> u32 \<Rightarrow> unit step" where
  "WRITE32PL ea privilege val =
     (if ea AND 3 = 1
      then bnd (bnd (physical privilege TR_WRITE ea) (\<lambda>a. store (write_dword (a - 1) (push_bit 8 val AND 0xffffff00) 0xffffff00)))
        (\<lambda>_. WRITE8PL (ea + 3) privilege (ucast (drop_bit 24 val AND 0xff)))
      else if ea AND 3 = 2
      then bnd (WRITE16PL ea privilege (ucast (val AND 0xffff))) (\<lambda>_. WRITE16PL (ea + 2) privilege (ucast (drop_bit 16 val AND 0xffff)))
      else if ea AND 3 = 3
      then bnd (WRITE8PL ea privilege (ucast (val AND 0xff))) (\<lambda>_.
        bnd (physical privilege TR_WRITE (ea + 1)) (\<lambda>a. store (write_dword a (drop_bit 8 val) 0x00ffffff)))
      else bnd (physical privilege TR_WRITE ea) (\<lambda>a. store (write_dword a val 0xffffffff)))"

definition WRITE64PL :: "u32 \<Rightarrow> u8 \<Rightarrow> u64 \<Rightarrow> unit step" where
  "WRITE64PL ea privilege val =
     (if ea AND 3 = 1
      then bnd (bnd (physical privilege TR_WRITE ea) (\<lambda>a. store (write_dword (a - 1) (ucast (push_bit 8 val)) 0xffffff00)))
        (\<lambda>_. bnd (WRITE32PL (ea + 3) privilege (ucast (drop_bit 24 val AND 0xffffffff)))
          (\<lambda>_. WRITE8PL (ea + 7) privilege (ucast (drop_bit 56 val AND 0xff))))
      else if ea AND 3 = 2
      then bnd (WRITE16PL ea privilege (ucast (val AND 0xffff))) (\<lambda>_.
        bnd (WRITE32PL (ea + 2) privilege (ucast (drop_bit 16 val AND 0xffffffff)))
          (\<lambda>_. WRITE16PL (ea + 6) privilege (ucast (drop_bit 48 val AND 0xffff))))
      else if ea AND 3 = 3
      then bnd (WRITE8PL ea privilege (ucast (val AND 0xff))) (\<lambda>_.
        bnd (WRITE32PL (ea + 1) privilege (ucast (drop_bit 8 val AND 0xffffffff)))
          (\<lambda>_. bnd (physical privilege TR_WRITE (ea + 5)) (\<lambda>a. store (write_dword a (ucast (drop_bit 40 val AND 0x00ffffff)) 0x00ffffff))))
      else bnd (WRITE32PL ea privilege (ucast (val AND 0xffffffff))) (\<lambda>_. WRITE32PL (ea + 4) privilege (ucast (drop_bit 32 val AND 0xffffffff))))"

subsection \<open>Writes of the 386SX\<close>

definition sx_WRITE16PL :: "u32 \<Rightarrow> u8 \<Rightarrow> u16 \<Rightarrow> unit step" where
  "sx_WRITE16PL ea privilege val =
     (if ea AND 1 = 0 then bnd (physical privilege TR_WRITE ea) (\<lambda>a. store (write_word a val))
      else bnd (WRITE8PL ea privilege (ucast (val AND 0xff))) (\<lambda>_. WRITE8PL (ea + 1) privilege (ucast (drop_bit 8 val AND 0xff))))"

definition sx_WRITE32PL :: "u32 \<Rightarrow> u8 \<Rightarrow> u32 \<Rightarrow> unit step" where
  "sx_WRITE32PL ea privilege val =
     (if ea AND 1 = 0
      then bnd (sx_WRITE16PL ea privilege (ucast (val AND 0xffff))) (\<lambda>_. sx_WRITE16PL (ea + 2) privilege (ucast (drop_bit 16 val AND 0xffff)))
      else bnd (WRITE8PL ea privilege (ucast (val AND 0xff))) (\<lambda>_. bnd (sx_WRITE16PL (ea + 1) privilege (ucast (drop_bit 8 val AND 0xffff)))
        (\<lambda>_. WRITE8PL (ea + 3) privilege (ucast (drop_bit 24 val AND 0xff)))))"

definition sx_WRITE64PL :: "u32 \<Rightarrow> u8 \<Rightarrow> u64 \<Rightarrow> unit step" where
  "sx_WRITE64PL ea privilege val =
     (if ea AND 1 = 0
      then bnd (sx_WRITE16PL ea privilege (ucast (val AND 0xffff))) (\<lambda>_. bnd (sx_WRITE16PL (ea + 2) privilege (ucast (drop_bit 16 val AND 0xffff)))
        (\<lambda>_. bnd (sx_WRITE16PL (ea + 4) privilege (ucast (drop_bit 32 val AND 0xffff)))
          (\<lambda>_. sx_WRITE16PL (ea + 6) privilege (ucast (drop_bit 48 val AND 0xffff)))))
      else bnd (WRITE8PL ea privilege (ucast (val AND 0xff))) (\<lambda>_. bnd (sx_WRITE16PL (ea + 1) privilege (ucast (drop_bit 8 val AND 0xffff)))
        (\<lambda>_. bnd (sx_WRITE16PL (ea + 3) privilege (ucast (drop_bit 24 val AND 0xffff)))
          (\<lambda>_. bnd (sx_WRITE16PL (ea + 5) privilege (ucast (drop_bit 40 val AND 0xffff)))
            (\<lambda>_. WRITE8PL (ea + 7) privilege (ucast (drop_bit 56 val AND 0xff)))))))"

subsection \<open>Fetches\<close>

definition advance :: "u32 \<Rightarrow> unit step" where
  "advance n s = (Inr (), s\<lparr>c_eip := c_eip s + n, c_pc := c_pc s + n\<rparr>)"

definition FETCH :: "u8 step" where
  "FETCH s = bnd (bnd (physical (c_CPL s) TR_FETCH (c_pc s)) (\<lambda>a. peek (\<lambda>m. m a))) (\<lambda>v. bnd (advance 1) (\<lambda>_. ret v)) s"

definition FETCH16 :: "u16 step" where
  "FETCH16 s =
     (if c_pc s AND 1 \<noteq> 0
      then bnd FETCH (\<lambda>v0. bnd FETCH (\<lambda>v1. ret (ucast v0 OR push_bit 8 (ucast v1)))) s
      else bnd (bnd (physical (c_CPL s) TR_FETCH (c_pc s)) (\<lambda>a. peek (\<lambda>m. read_word m a))) (\<lambda>v. bnd (advance 2) (\<lambda>_. ret v)) s)"

definition FETCH32 :: "u32 step" where
  "FETCH32 s =
     (if c_pc s AND 3 \<noteq> 0
      then bnd FETCH (\<lambda>v0. bnd FETCH (\<lambda>v1. bnd FETCH (\<lambda>v2. bnd FETCH (\<lambda>v3.
        ret (ucast v0 OR push_bit 8 (ucast v1) OR push_bit 16 (ucast v2) OR push_bit 24 (ucast v3)))))) s
      else bnd (bnd (physical (c_CPL s) TR_FETCH (c_pc s)) (\<lambda>a. peek (\<lambda>m. read_dword m a))) (\<lambda>v. bnd (advance 4) (\<lambda>_. ret v)) s)"

subsection \<open>Words of memory and their lanes\<close>

lemma tst_bits:
  "(x AND 1 = 0) = (\<not> bit x 0)" "(x AND 2 = 0) = (\<not> bit x 1)" "(x AND 4 = 0) = (\<not> bit x 2)" "(x AND 8 = 0) = (\<not> bit x 3)"
  "(x AND 0x10 = 0) = (\<not> bit x 4)" "(x AND 0x20 = 0) = (\<not> bit x 5)" "(x AND 0x40 = 0) = (\<not> bit x 6)"
  "(x AND 0x80 = 0) = (\<not> bit x 7)" "(x AND 0x100 = 0) = (\<not> bit x 8)" for x :: "'a::len word"
  using tst_exp [of x 0] tst_exp [of x 1] tst_exp [of x 2] tst_exp [of x 3] tst_exp [of x 4] tst_exp [of x 5] tst_exp [of x 6]
    tst_exp [of x 7] tst_exp [of x 8] by simp_all

lemma three: "(3 :: 'a::len word) = mask 2"
  by (simp add: mask_eq_exp_minus_1)

lemma bit_and_three: "bit (x AND 3) n = (n < 2 \<and> bit x n)" for x :: "'a::len word"
  unfolding three by (auto simp: bit_and_iff bit_mask_iff dest: bit_imp_le_length)

lemma bit_and_not_three: "bit (x AND NOT 3) n = (\<not> n < 2 \<and> bit x n)" for x :: "'a::len word"
  unfolding three by (auto simp: bit_and_iff bit_not_iff bit_mask_iff dest: bit_imp_le_length)

lemma bit_small_nat: "bit k n \<Longrightarrow> k < 4 \<Longrightarrow> n < 2" for k n :: nat
proof (rule ccontr)
  assume b: "bit k n" and k: "k < 4" and n: "\<not> n < 2"
  have "(4 :: nat) = 2 ^ 2" by simp
  also have "\<dots> \<le> 2 ^ n" using n by (intro power_increasing) simp_all
  finally have "k div 2 ^ n = 0" using k by simp
  then show False using b by (simp add: bit_iff_odd)
qed

lemma bit_lane: "k < 4 \<Longrightarrow> bit (lane a k) n = (n < 32 \<and> (if n < 2 then bit k n else bit a n))"
proof -
  have "bit a n \<Longrightarrow> n < 32" using bit_imp_le_length [of a n] by simp
  then show "k < 4 \<Longrightarrow> ?thesis" unfolding lane_def bit_or_iff bit_and_not_three by (auto simp: bit_of_nat_iff dest: bit_small_nat)
qed

lemma lane_lane [simp]: "j < 4 \<Longrightarrow> k < 4 \<Longrightarrow> lane (lane a j) k = lane a k"
  by (rule bit_word_eqI) (simp add: bit_lane)

lemma lane_and: "k < 4 \<Longrightarrow> m AND 3 = 3 \<Longrightarrow> lane a k AND m = lane (a AND m) k"
proof (rule bit_word_eqI)
  fix n assume k: "k < 4" and m: "m AND 3 = 3" and "n < LENGTH(32)"
  have "n < 2 \<Longrightarrow> bit m n" using arg_cong [OF m, of "\<lambda>x. bit x n"] unfolding bit_and_three by (simp add: three bit_mask_iff)
  then show "bit (lane a k AND m) n = bit (lane (a AND m) k) n" using k by (auto simp: bit_lane bit_and_iff)
qed

lemma lane_page: "k < 4 \<Longrightarrow> drop_bit 12 (lane a k) = drop_bit 12 a"
  by (rule bit_word_eqI) (auto simp: bit_drop_bit_eq bit_lane dest: bit_imp_le_length)

lemma lane_plus: "k < 4 \<Longrightarrow> lane a k = (a AND NOT 3) + of_nat k"
proof -
  assume k: "k < 4"
  have "(a AND NOT 3) + of_nat k = (a AND NOT 3) OR of_nat k"
    by (rule disjunctive_add) (use k in \<open>auto simp only: bit_and_not_three bit_of_nat_iff dest: bit_small_nat\<close>)
  then show ?thesis by (simp add: lane_def)
qed

lemma lane_add: "k + j < 4 \<Longrightarrow> lane a k + of_nat j = lane a (k + j)"
  by (simp add: lane_plus)

lemma lane_next: "lane a 0 + 1 = lane a 1" "lane a 1 + 1 = lane a 2" "lane a 2 + 1 = lane a 3" "lane a 1 - 1 = lane a 0"
  "lane a 0 + 2 = lane a 2" "lane a 0 + 3 = lane a 3" "lane a 1 + 2 = lane a 3"
  by (simp_all add: lane_plus)

lemma own_lane: "a AND 3 = of_nat k \<Longrightarrow> k < 4 \<Longrightarrow> lane a k = a"
proof (rule bit_word_eqI)
  fix n assume e: "a AND 3 = of_nat k" and k: "k < 4" and n: "n < LENGTH(32)"
  have "n < 2 \<Longrightarrow> bit a n = bit k n"
    using arg_cong [OF e, of "\<lambda>x. bit x n"] n unfolding bit_and_three by (simp add: bit_of_nat_iff)
  then show "bit (lane a k) n = bit a n" using k n by (simp add: bit_lane)
qed

lemma lane_distinct: "j < 4 \<Longrightarrow> k < 4 \<Longrightarrow> j \<noteq> k \<Longrightarrow> lane a j \<noteq> lane b k"
proof
  assume k: "j < 4" "k < 4" "j \<noteq> k" and e: "lane a j = lane b k"
  have "bit j n = bit k n" for n
    using arg_cong [OF e, of "\<lambda>x. bit x n"] k by (cases "n < 2") (auto simp: bit_lane dest: bit_small_nat)
  then show False using k(3) bit_eq_iff [of j k] by blast
qed

lemma four_lanes: "\<exists>k<4. a AND 3 = (of_nat k :: u32)"
proof (intro exI conjI)
  have t: "a AND 3 = take_bit 2 a" unfolding three by (simp add: take_bit_eq_mask)
  have "unat (a AND 3) = unat a mod 4" unfolding t unsigned_take_bit_eq by (simp add: take_bit_eq_mod)
  then show "unat (a AND 3) < 4" by simp
  show "a AND 3 = of_nat (unat (a AND 3))" by simp
qed

subsection \<open>Translation within a page\<close>

lemma frame_mask: "(0xfffff000 :: u32) = NOT (mask 12)" "(0xfff :: u32) = mask 12" "(0xffc00000 :: u32) = NOT (mask 22)"
  "(0x003fffff :: u32) = mask 22" "(0x3ff :: u32) = mask 10"
  by (simp_all add: mask_eq_exp_minus_1)

lemma bit_frame:
  "bit (x AND 0xfffff000) n = (12 \<le> n \<and> bit x n)" "bit (x AND 0xfff) n = (n < 12 \<and> bit x n)"
  "bit (x AND 0xffc00000) n = (22 \<le> n \<and> bit x n)" "bit (x AND 0x003fffff) n = (n < 22 \<and> bit x n)"
  "bit (x AND 0x3ff) n = (n < 10 \<and> bit x n)" for x :: u32
  unfolding frame_mask by (auto simp: bit_and_iff bit_not_iff bit_mask_iff dest: bit_imp_le_length)

lemma same_page: "drop_bit 12 a = drop_bit 12 b \<Longrightarrow> 12 \<le> n \<Longrightarrow> bit a n = bit b n" for a b :: u32
proof -
  assume e: "drop_bit 12 a = drop_bit 12 b" and n: "12 \<le> n"
  have "bit (drop_bit 12 a) (n - 12) = bit (drop_bit 12 b) (n - 12)" by (simp only: e)
  then show ?thesis using n by (simp add: bit_drop_bit_eq)
qed

lemma bit_permissions:
  "bit (get_permissions e wp) n = (n = 0 \<or> n = 1 \<and> (\<not> wp \<or> bit e 1) \<or> n = 4 \<and> bit e 2 \<or> n = 5 \<and> bit e 1 \<and> bit e 2)"
proof -
  have "bit (1 :: u32) n = (n = 0)" "bit (2 :: u32) n = (n = 1)" "bit (0x10 :: u32) n = (n = 4)" "bit (0x20 :: u32) n = (n = 5)"
    using bit_exp_iff [of 0 n, where 'a = "32 word"] bit_exp_iff [of 1 n, where 'a = "32 word"] bit_exp_iff [of 4 n, where 'a = "32 word"]
      bit_exp_iff [of 5 n, where 'a = "32 word"] by auto
  then show ?thesis unfolding get_permissions_def Let_def tst_bits by (auto simp: bit_or_iff)
qed

text \<open>The processor's configuration that the accesses rely on.\<close>

definition mmu_ok :: "cpu \<Rightarrow> bool" where
  "mmu_ok s \<longleftrightarrow> 0 < v_dynamic (c_vtlb s) \<and> v_pageshift (c_vtlb s) = 12 \<and> c_a20_mask s AND 3 = 3"

definition with_mem :: "cpu \<Rightarrow> (u32 \<Rightarrow> u8) \<Rightarrow> cpu" where
  "with_mem s m = s\<lparr>c_mem := m\<rparr>"

lemma with_mem_fields [simp]:
  "c_cr0 (with_mem s m) = c_cr0 s" "c_CPL (with_mem s m) = c_CPL s" "c_vtlb (with_mem s m) = c_vtlb s" "c_mem (with_mem s m) = m"
  "c_a20_mask (with_mem s m) = c_a20_mask s" "c_cr3 (with_mem s m) = c_cr3 s" "c_cr4 (with_mem s m) = c_cr4 s"
  "with_mem (with_mem s m) m' = with_mem s m'" "with_mem s (c_mem s) = s"
  by (simp_all add: with_mem_def)

lemma poke_with_mem: "poke a v s = with_mem s (write_dword a v 0xffffffff (c_mem s))"
  by (simp add: poke_def with_mem_def)

text \<open>A successful walk.\<close>

lemma walk_success:
  assumes "i386_translate_address type False a s = ((True, p, e), s1)" and pg: "tst (c_cr0 s) CR0_PG"
  obtains m pte where "s1 = with_mem s m" "p AND 0xfff = a AND 0xfff"
    "e = Some (get_permissions pte (tst (c_cr0 s) CR0_WP) OR (if tst type TR_WRITE then FLAG_DIRTY else 0))"
    "\<not> denied (get_permissions pte (tst (c_cr0 s) CR0_WP)) (tst type TR_WRITE) (tst type TR_USER)"
proof -
  have o: "(x OR y) AND 0xfff = y AND 0xfff" if "x AND 0xfff = 0" for x y :: u32
    using that by (simp add: bit.conj_disj_distrib2)
  have z: "(x AND 0xfffff000) AND 0xfff = 0" "(x AND 0xffc00000) AND 0xfff = 0" "(y AND 0x003fffff) AND 0xfff = y AND 0xfff" for x y :: u32
    by (rule bit_word_eqI; auto simp: bit_frame)+
  have "s1 = with_mem s (c_mem s1)"
    using assms unfolding i386_translate_address_def Let_def poke_with_mem by (auto split: if_splits)
  moreover have "p AND 0xfff = a AND 0xfff"
    using assms unfolding i386_translate_address_def Let_def poke_with_mem by (auto simp: o z split: if_splits)
  moreover have "\<exists>pte. e = Some (get_permissions pte (tst (c_cr0 s) CR0_WP) OR (if tst type TR_WRITE then FLAG_DIRTY else 0)) \<and>
     \<not> denied (get_permissions pte (tst (c_cr0 s) CR0_WP)) (tst type TR_WRITE) (tst type TR_USER)"
    using assms unfolding i386_translate_address_def Let_def poke_with_mem by (simp split: if_splits; blast)
  ultimately show thesis using that by blast
qed

lemma join_page: "(p AND 0xfffff000) OR (a AND 0xfff) = p \<longleftrightarrow> p AND 0xfff = a AND 0xfff" for a p :: u32
proof
  assume e: "(p AND 0xfffff000) OR (a AND 0xfff) = p"
  have "n < 12 \<Longrightarrow> bit p n = bit a n" for n using arg_cong [OF e, of "\<lambda>x. bit x n"] unfolding bit_or_iff bit_frame by auto
  then show "p AND 0xfff = a AND 0xfff" by (intro bit_word_eqI) (metis bit_frame(2))
next
  assume "p AND 0xfff = a AND 0xfff"
  then have "n < 12 \<Longrightarrow> bit p n = bit a n" for n by (metis bit_frame(2))
  then show "(p AND 0xfffff000) OR (a AND 0xfff) = p" by (intro bit_word_eqI) (metis bit_or_iff bit_frame(1,2) linorder_not_le)
qed

text \<open>The answer the buffer gives for the page of \<open>a\<close>, whatever is in memory.\<close>

definition cached :: "u8 \<Rightarrow> u32 \<Rightarrow> u32 \<Rightarrow> u32 \<Rightarrow> cpu \<Rightarrow> bool" where
  "cached pl type a p s \<longleftrightarrow> (\<forall>b m. drop_bit 12 b = drop_bit 12 a \<longrightarrow>
     translate_address pl type b (with_mem s m) = (Inr ((p AND 0xfffff000) OR (b AND 0xfff)), with_mem s m))"

lemma page_base_12: "v_pageshift t = 12 \<Longrightarrow> page_base a t = a AND 0xfffff000"
  by (rule bit_word_eqI) (auto simp: page_base_def bit_push_bit_iff bit_drop_bit_eq bit_frame)

definition entry_of :: "u32 \<Rightarrow> u32 \<Rightarrow> bool \<Rightarrow> bool \<Rightarrow> u32" where
  "entry_of p pte wp write = (p AND 0xfffff000) OR (FLAG_VALID OR (get_permissions pte wp OR (if write then FLAG_DIRTY else 0)))"

lemma bit_eight: "bit (8 :: u32) n = (n = 3)" "bit (0x100 :: u32) n = (n = 8)"
  using bit_exp_iff [of 3 n, where 'a = "32 word"] bit_exp_iff [of 8 n, where 'a = "32 word"] by auto

lemma bit_entry_of:
  "bit (entry_of p pte wp write) n = (12 \<le> n \<and> bit p n \<or> n = 3 \<or> n = 0 \<or> n = 1 \<and> (\<not> wp \<or> bit pte 1) \<or> n = 4 \<and> bit pte 2 \<or>
     n = 5 \<and> bit pte 1 \<and> bit pte 2 \<or> n = 8 \<and> write)"
proof -
  have "bit (if write then FLAG_DIRTY else 0) n = (write \<and> n = 8)" by (cases "write") (simp_all only: bit_eight if_True if_False bit_0_eq bot_apply bot_bool_def, simp_all)
  then show ?thesis unfolding entry_of_def bit_or_iff bit_frame bit_permissions bit_eight by blast
qed

lemma entry_frame: "entry_of p pte wp write AND 0xfffff000 = p AND 0xfffff000"
  by (rule bit_word_eqI) (auto simp: bit_frame bit_entry_of)

lemma access_type_bits: "t \<in> {TR_READ, TR_WRITE, TR_FETCH} \<Longrightarrow>
   tst (access_type pl t) TR_WRITE = (t = TR_WRITE) \<and> tst (access_type pl t) TR_USER = (pl = 3) \<and>
   unat (access_type pl t) = of_bool (t = TR_WRITE) + (if pl = 3 then 4 else 0)"
  by (auto simp: access_type_def)

lemma translate_hit:
  assumes pg: "tst (c_cr0 s) CR0_PG"
    and c: "\<not> (\<not> tst (v_table (c_vtlb s) (drop_bit 12 b)) FLAG_VALID \<or> tst (access_type pl t) TR_WRITE \<and> \<not> tst (v_table (c_vtlb s) (drop_bit 12 b)) FLAG_DIRTY)"
    and h: "tst (v_table (c_vtlb s) (drop_bit 12 b)) (push_bit (unat (access_type pl t)) 1)"
  shows "translate_address pl t b s = (Inr ((v_table (c_vtlb s) (drop_bit 12 b) AND 0xfffff000) OR (b AND 0xfff)), s)"
proof -
  have "\<not> \<not> tst (c_cr0 s) CR0_PG" "\<not> \<not> tst (v_table (c_vtlb s) (drop_bit 12 b)) (push_bit (unat (access_type pl t)) 1)" using pg h by simp_all
  then show ?thesis unfolding translate_address_def Let_def by (simp only: if_not_P if_not_P [OF c] if_False)
qed

definition missed :: "u8 \<Rightarrow> u32 \<Rightarrow> u32 \<Rightarrow> cpu \<Rightarrow> bool" where
  "missed pl t a s \<longleftrightarrow> \<not> tst (v_table (c_vtlb s) (drop_bit 12 a)) FLAG_VALID \<or>
     tst (access_type pl t) TR_WRITE \<and> \<not> tst (v_table (c_vtlb s) (drop_bit 12 a)) FLAG_DIRTY"

definition translated :: "u8 \<Rightarrow> u32 \<Rightarrow> u32 \<Rightarrow> cpu \<Rightarrow> u32 \<Rightarrow> cpu \<Rightarrow> bool" where
  "translated pl t a s p s1 \<longleftrightarrow> cached pl t a p s1 \<and> mmu_ok s1 \<and> p AND 0xfff = a AND 0xfff \<and> c_CPL s1 = c_CPL s \<and> c_a20_mask s1 = c_a20_mask s"

lemma translate_unpaged:
  assumes pg: "\<not> tst (c_cr0 s) CR0_PG" and ok: "mmu_ok s" and r: "translate_address pl t a s = (Inr p, s1)"
  shows "translated pl t a s p s1"
proof -
  have e: "p = a" "s1 = s" using r pg by (auto simp: translate_address_def)
  have "(a AND 0xfffff000) OR (b AND 0xfff) = b" if "drop_bit 12 b = drop_bit 12 a" for b
    by (rule bit_word_eqI) (use same_page [OF that] in \<open>auto simp: bit_or_iff bit_frame\<close>)
  then have "cached pl t a a s" using pg unfolding cached_def translate_address_def by simp
  then show ?thesis using ok unfolding translated_def e by simp
qed

lemma translate_by_entry:
  assumes pg: "tst (c_cr0 s) CR0_PG" and c: "\<not> missed pl t a s" and ok: "mmu_ok s" and r: "translate_address pl t a s = (Inr p, s1)"
  shows "translated pl t a s p s1"
proof -
  let ?e = "v_table (c_vtlb s) (drop_bit 12 a)"
  have h: "tst ?e (push_bit (unat (access_type pl t)) 1)" "p = (?e AND 0xfffff000) OR (a AND 0xfff)" "s1 = s"
    using r pg c unfolding translate_address_def Let_def missed_def by (auto split: if_splits)
  have f: "p AND 0xfffff000 = ?e AND 0xfffff000" "p AND 0xfff = a AND 0xfff" unfolding h(2)
    by (rule bit_word_eqI; auto simp: bit_frame bit_or_iff)+
  have "translate_address pl t b (with_mem s m) = (Inr ((p AND 0xfffff000) OR (b AND 0xfff)), with_mem s m)"
    if "drop_bit 12 b = drop_bit 12 a" for b m
    unfolding f(1) using translate_hit [of "with_mem s m" b pl t] c h(1) pg that unfolding missed_def by simp
  then show ?thesis using h(3) ok f(2) unfolding cached_def translated_def by simp
qed

lemma translate_by_walk:
  assumes t: "t \<in> {TR_READ, TR_WRITE, TR_FETCH}" and pg: "tst (c_cr0 s) CR0_PG" and miss: "missed pl t a s"
    and r: "translate_address pl t a s = (Inr p, s1)"
  obtains m pte where "s1 = with_mem (s\<lparr>c_vtlb := vtlb_dynload (drop_bit 12 a) p
      (get_permissions pte (tst (c_cr0 s) CR0_WP) OR (if t = TR_WRITE then FLAG_DIRTY else 0)) (c_vtlb s)\<rparr>) m"
    "p AND 0xfff = a AND 0xfff" "\<not> denied (get_permissions pte (tst (c_cr0 s) CR0_WP)) (t = TR_WRITE) (pl = 3)"
proof -
  let ?t = "access_type pl t"
  note bits = access_type_bits [OF t, of pl]
  obtain ok a' e s0 where w: "i386_translate_address ?t False a s = ((ok, a', e), s0)" by (metis prod.exhaust_sel)
  have b: ok "a' = p" "s1 = s0\<lparr>c_vtlb := vtlb_dynload (drop_bit 12 a) p (case e of None \<Rightarrow> v_table (c_vtlb s) (drop_bit 12 a) | Some x \<Rightarrow> x) (c_vtlb s0)\<rparr>"
    using r pg miss unfolding translate_address_def Let_def missed_def by (auto simp: w split: if_splits)
  have w': "i386_translate_address ?t False a s = ((True, p, e), s0)" using w b(1,2) by simp
  obtain m pte where m: "s0 = with_mem s m" "p AND 0xfff = a AND 0xfff"
    "e = Some (get_permissions pte (tst (c_cr0 s) CR0_WP) OR (if tst ?t TR_WRITE then FLAG_DIRTY else 0))"
    "\<not> denied (get_permissions pte (tst (c_cr0 s) CR0_WP)) (tst ?t TR_WRITE) (tst ?t TR_USER)"
    by (rule walk_success [OF w' pg])
  have tt: "tst ?t TR_WRITE = (t = TR_WRITE)" "tst ?t TR_USER = (pl = 3)" using bits by blast+
  have "s1 = with_mem (s\<lparr>c_vtlb := vtlb_dynload (drop_bit 12 a) p
      (get_permissions pte (tst (c_cr0 s) CR0_WP) OR (if t = TR_WRITE then FLAG_DIRTY else 0)) (c_vtlb s)\<rparr>) m"
    unfolding b(3) m(1,3) tt by (simp add: with_mem_def)
  then show thesis using that m(2,4) unfolding tt by blast
qed

lemma translate_loads:
  assumes t: "t \<in> {TR_READ, TR_WRITE, TR_FETCH}" and pg: "tst (c_cr0 s) CR0_PG" and miss: "missed pl t a s" and ok: "mmu_ok s"
    and r: "translate_address pl t a s = (Inr p, s1)"
  shows "translated pl t a s p s1"
proof -
  note bits = access_type_bits [OF t, of pl]
  let ?wp = "tst (c_cr0 s) CR0_WP" and ?t = "access_type pl t"
  obtain m pte where m: "s1 = with_mem (s\<lparr>c_vtlb := vtlb_dynload (drop_bit 12 a) p
      (get_permissions pte ?wp OR (if t = TR_WRITE then FLAG_DIRTY else 0)) (c_vtlb s)\<rparr>) m"
    "p AND 0xfff = a AND 0xfff" "\<not> denied (get_permissions pte ?wp) (t = TR_WRITE) (pl = 3)"
    by (rule translate_by_walk [OF t pg miss r])
  let ?n = "entry_of p pte ?wp (t = TR_WRITE)"
  have d: "0 < v_dynamic (c_vtlb s)" "v_pageshift (c_vtlb s) = 12" using ok by (simp_all add: mmu_ok_def)
  have tb: "v_table (c_vtlb s1) (drop_bit 12 a) = ?n" "v_dynamic (c_vtlb s1) = v_dynamic (c_vtlb s)" "v_pageshift (c_vtlb s1) = 12"
    unfolding m(1) using d by (simp_all add: vtlb_dynload_def Let_def entry_of_def page_base_12)
  have fields: "c_cr0 s1 = c_cr0 s" "c_CPL s1 = c_CPL s" "c_a20_mask s1 = c_a20_mask s" unfolding m(1) by simp_all
  have pm: "bit ?n (unat ?t)" using m(3) bits unfolding bit_entry_of denied_def tst_bits bit_permissions by auto
  have v: "tst ?n FLAG_VALID" "t = TR_WRITE \<Longrightarrow> tst ?n FLAG_DIRTY" "tst ?n (push_bit (unat ?t) 1)"
    using pm sel_bit_iff [of ?n "unat ?t"] unfolding tst_bits sel_bit_def by (simp_all add: bit_entry_of)
  have "\<not> (\<not> tst ?n FLAG_VALID \<or> tst ?t TR_WRITE \<and> \<not> tst ?n FLAG_DIRTY)" using v(1,2) bits by blast
  then have "translate_address pl t b (with_mem s1 m) = (Inr ((p AND 0xfffff000) OR (b AND 0xfff)), with_mem s1 m)"
    if "drop_bit 12 b = drop_bit 12 a" for b m
    using translate_hit [of "with_mem s1 m" b pl t] v(3) pg that unfolding with_mem_fields fields that tb(1) entry_frame by blast
  then show ?thesis using ok m(2) tb d fields unfolding cached_def translated_def mmu_ok_def by simp
qed

lemma translate_cached:
  assumes t: "t \<in> {TR_READ, TR_WRITE, TR_FETCH}" and ok: "mmu_ok s" and r: "translate_address pl t a s = (Inr p, s1)"
  shows "translated pl t a s p s1"
  using translate_unpaged [OF _ ok r] translate_by_entry [OF _ _ ok r] translate_loads [OF t _ _ ok r] by blast

subsection \<open>Byte by byte\<close>

text \<open>The reference for every access: one byte after the other, the lowest first.\<close>

primrec read_bytes :: "nat \<Rightarrow> u32 \<Rightarrow> u8 \<Rightarrow> u8 list step" where
  "read_bytes 0 ea pl = ret []"
| "read_bytes (Suc n) ea pl = bnd (READ8PL ea pl) (\<lambda>b. bnd (read_bytes n (ea + 1) pl) (\<lambda>bs. ret (b # bs)))"

primrec write_bytes :: "u8 list \<Rightarrow> u32 \<Rightarrow> u8 \<Rightarrow> unit step" where
  "write_bytes [] ea pl = ret ()"
| "write_bytes (b # bs) ea pl = bnd (WRITE8PL ea pl b) (\<lambda>_. write_bytes bs (ea + 1) pl)"

primrec le :: "u8 list \<Rightarrow> 'a::len word" where
  "le [] = 0"
| "le (b # bs) = ucast b OR push_bit 8 (le bs)"

definition bytes_of :: "nat \<Rightarrow> 'a::len word \<Rightarrow> u8 list" where
  "bytes_of n v = map (\<lambda>i. ucast (drop_bit (8 * i) v)) [0..<n]"

lemma bit_le: "bit (le bs :: 'a::len word) n = (n < LENGTH('a) \<and> n div 8 < length bs \<and> bit (bs ! (n div 8)) (n mod 8))"
proof (induction bs arbitrary: n)
  case (Cons b bs)
  have b: "bit b n \<Longrightarrow> n < 8" using bit_imp_le_length [of b n] by simp
  show ?case
  proof (cases "n < 8")
    case True
    then show ?thesis by (auto simp: bit_or_iff bit_ucast_iff bit_push_bit_iff)
  next
    case False
    then have "n div 8 = Suc ((n - 8) div 8)" "(n - 8) mod 8 = n mod 8" by (simp_all add: le_div_geq le_mod_geq)
    moreover have "\<not> bit b n" using b False by blast
    ultimately show ?thesis using False Cons.IH [of "n - 8"] by (auto simp: bit_or_iff bit_ucast_iff bit_push_bit_iff)
  qed
qed simp

lemma le_append: "le (bs @ cs) = le bs OR push_bit (8 * length bs) (le cs)"
proof (induction bs)
  case (Cons b bs)
  have "push_bit 8 (le bs OR push_bit (8 * length bs) (le cs)) = push_bit 8 (le bs) OR push_bit (8 + 8 * length bs) (le cs :: 'a word)"
    by (rule bit_word_eqI) (auto simp: bit_push_bit_iff bit_or_iff dest: bit_imp_le_length)
  then show ?case using Cons by (simp add: or.assoc)
qed simp

lemma ucast_le: "8 * length bs \<le> LENGTH('a) \<Longrightarrow> (ucast (le bs :: 'a::len word) :: 'b::len word) = le bs"
proof (rule bit_word_eqI)
  fix n assume l: "8 * length bs \<le> LENGTH('a)" "n < LENGTH('b)"
  have "n div 8 < length bs \<Longrightarrow> n < LENGTH('a)" using l(1) by linarith
  then show "bit (ucast (le bs :: 'a word) :: 'b word) n = bit (le bs :: 'b word) n" using l by (auto simp: bit_ucast_iff bit_le)
qed

lemma bnd_assoc [simp]: "bnd (bnd m f) g = bnd m (\<lambda>x. bnd (f x) g)"
  by (rule ext) (simp add: bnd_def split: prod.splits sum.splits)

lemma bnd_ret [simp]: "bnd (ret a) f = f a" "bnd m ret = m"
  by (rule ext, simp add: bnd_def ret_def split: prod.splits sum.splits)+

lemma read_bytes_append: "bnd (read_bytes (n + k) ea pl) g = bnd (read_bytes n ea pl) (\<lambda>bs. bnd (read_bytes k (ea + of_nat n) pl) (\<lambda>cs. g (bs @ cs)))"
  by (induction n arbitrary: ea g) (simp_all add: algebra_simps)

lemma write_bytes_append: "write_bytes (bs @ cs) ea pl = bnd (write_bytes bs ea pl) (\<lambda>_. write_bytes cs (ea + of_nat (length bs)) pl)"
  by (induction bs arbitrary: ea) (simp_all add: algebra_simps)

text \<open>Steps that agree on every configured processor, and what they keep.\<close>

definition agree :: "'a step \<Rightarrow> 'a step \<Rightarrow> bool" where
  "agree f g \<longleftrightarrow> (\<forall>s. mmu_ok s \<longrightarrow> f s = g s)"

definition keeps :: "('a \<Rightarrow> bool) \<Rightarrow> 'a step \<Rightarrow> bool" where
  "keeps P f \<longleftrightarrow> (\<forall>s r s1. mmu_ok s \<longrightarrow> f s = (r, s1) \<longrightarrow> mmu_ok s1 \<and> (\<forall>x. r = Inr x \<longrightarrow> P x))"

lemma agree_refl [simp]: "agree f f" by (simp add: agree_def)
lemma agree_sym: "agree f g \<Longrightarrow> agree g f" by (simp add: agree_def)
lemma agree_trans: "agree f g \<Longrightarrow> agree g h \<Longrightarrow> agree f h" by (simp add: agree_def)

lemma agree_bnd: "agree m m' \<Longrightarrow> keeps P m' \<Longrightarrow> (\<And>x. P x \<Longrightarrow> agree (f x) (f' x)) \<Longrightarrow> agree (bnd m f) (bnd m' f')"
  by (auto simp: agree_def keeps_def bnd_def split: prod.splits sum.splits)

lemma keepsD: "keeps P f \<Longrightarrow> mmu_ok s \<Longrightarrow> f s = (r, s1) \<Longrightarrow> mmu_ok s1" "keeps P f \<Longrightarrow> mmu_ok s \<Longrightarrow> f s = (Inr x, s1) \<Longrightarrow> P x"
  by (auto simp: keeps_def)

lemma keeps_bnd: "keeps P m \<Longrightarrow> (\<And>x. P x \<Longrightarrow> keeps Q (f x)) \<Longrightarrow> keeps Q (bnd m f)"
proof -
  assume m: "keeps P m" and f: "\<And>x. P x \<Longrightarrow> keeps Q (f x)"
  have "mmu_ok s2 \<and> (\<forall>y. r = Inr y \<longrightarrow> Q y)" if s: "mmu_ok s" "bnd m f s = (r, s2)" for s r s2
  proof (cases "m s")
    case (Pair r1 s1)
    note ok = keepsD(1) [OF m s(1) Pair]
    show ?thesis
    proof (cases r1)
      case (Inl e)
      then show ?thesis using s(2) Pair ok by (auto simp: bnd_def)
    next
      case (Inr x)
      then have "f x s1 = (r, s2)" "P x" using s Pair keepsD(2) [OF m s(1)] by (auto simp: bnd_def)
      then show ?thesis using f ok unfolding keeps_def by blast
    qed
  qed
  then show ?thesis unfolding keeps_def by blast
qed

lemma keeps_ret: "P x \<Longrightarrow> keeps P (ret x)" by (simp add: keeps_def ret_def)

lemma keeps_agree: "agree m m' \<Longrightarrow> keeps P m' \<Longrightarrow> keeps P m" by (simp add: agree_def keeps_def)

lemma keeps_peek: "keeps (\<lambda>_. True) (peek f)" by (simp add: keeps_def peek_def)
lemma keeps_store: "keeps (\<lambda>_. True) (store f)" by (auto simp: keeps_def store_def mmu_ok_def)

lemma walk_failure: "i386_translate_address type False a s = ((False, b, e), s1) \<Longrightarrow> s1 = s"
  unfolding i386_translate_address_def Let_def by (simp split: if_splits)

lemma translate_failure: "translate_address pl t a s = (Inl e, s1) \<Longrightarrow> s1 = s"
proof -
  assume r: "translate_address pl t a s = (Inl e, s1)"
  obtain ok b f s0 where w: "i386_translate_address (access_type pl t) False a s = ((ok, b, f), s0)" by (metis prod.exhaust_sel)
  show ?thesis using r walk_failure [of "access_type pl t" a s b f s0] w unfolding translate_address_def Let_def
    by (cases ok) (simp_all add: w split: if_splits)
qed

lemma translate_ok: "t \<in> {TR_READ, TR_WRITE, TR_FETCH} \<Longrightarrow> mmu_ok s \<Longrightarrow> translate_address pl t ea s = (r, s1) \<Longrightarrow> mmu_ok s1"
  using translate_cached [of t s pl ea _ s1] translate_failure [of pl t ea s _ s1] by (cases r) (simp_all add: translated_def)

lemma keeps_physical: "t \<in> {TR_READ, TR_WRITE, TR_FETCH} \<Longrightarrow> keeps (\<lambda>_. True) (physical pl t ea)"
proof -
  assume t: "t \<in> {TR_READ, TR_WRITE, TR_FETCH}"
  have "mmu_ok s2" if s: "mmu_ok s" "physical pl t ea s = (r, s2)" for s r s2
  proof -
    obtain q s1 where q: "translate_address pl t ea s = (q, s1)" by fastforce
    then show ?thesis using translate_ok [OF t s(1) q] s(2) unfolding physical_def fault_throw_def
      by (cases q) (auto simp: mmu_ok_def)
  qed
  then show ?thesis unfolding keeps_def by blast
qed

lemma keeps_READ8PL: "keeps (\<lambda>_. True) (READ8PL ea pl)"
  unfolding READ8PL_def by (rule keeps_bnd [OF keeps_physical]) (simp_all add: keeps_peek)

lemma keeps_WRITE8PL: "keeps (\<lambda>_. True) (WRITE8PL ea pl b)"
  unfolding WRITE8PL_def by (rule keeps_bnd [OF keeps_physical]) (simp_all add: keeps_store)

lemma keeps_read_bytes: "keeps (\<lambda>bs. length bs = n) (read_bytes n ea pl)"
proof (induction n arbitrary: ea)
  case (Suc n)
  show ?case by (simp, rule keeps_bnd [OF keeps_READ8PL], rule keeps_bnd [OF Suc]) (rule keeps_ret, simp)
qed (simp add: keeps_ret)

lemma keeps_write_bytes: "keeps (\<lambda>_. True) (write_bytes bs ea pl)"
  by (induction bs arbitrary: ea) (auto intro!: keeps_ret keeps_bnd [OF keeps_WRITE8PL])

subsection \<open>Accesses within one word of the bus\<close>

definition phys_lane :: "u32 \<Rightarrow> u32 \<Rightarrow> cpu \<Rightarrow> u32" where
  "phys_lane p a s = ((p AND 0xfffff000) OR (a AND 0xfff)) AND c_a20_mask s"

lemma phys_lane_lane: "k < 4 \<Longrightarrow> c_a20_mask s AND 3 = 3 \<Longrightarrow> phys_lane p (lane a k) s = lane (phys_lane p a s) k"
proof -
  assume k: "k < 4" and m: "c_a20_mask s AND 3 = 3"
  have "(p AND 0xfffff000) OR (lane a k AND 0xfff) = lane ((p AND 0xfffff000) OR (a AND 0xfff)) k"
    by (rule bit_word_eqI) (use k in \<open>auto simp: bit_lane bit_or_iff bit_frame dest: bit_small_nat bit_imp_le_length\<close>)
  then show ?thesis unfolding phys_lane_def using lane_and [OF k m] by simp
qed

lemma physical_cached: "cached pl t a p s \<Longrightarrow> drop_bit 12 b = drop_bit 12 a \<Longrightarrow> physical pl t b (with_mem s m) = (Inr (phys_lane p b s), with_mem s m)"
  unfolding cached_def physical_def phys_lane_def by simp

lemma cached_with_mem [simp]: "cached pl t a p (with_mem s m) = cached pl t a p s"
  by (simp add: cached_def)

lemma read_byte_cached: "cached pl TR_READ a p s \<Longrightarrow> drop_bit 12 b = drop_bit 12 a \<Longrightarrow> READ8PL b pl s = (Inr (c_mem s (phys_lane p b s)), s)"
  using physical_cached [of pl TR_READ a p s b "c_mem s"] by (simp add: READ8PL_def bnd_def peek_def)

lemma write_byte_cached: "cached pl TR_WRITE a p s \<Longrightarrow> drop_bit 12 b = drop_bit 12 a \<Longrightarrow>
  WRITE8PL b pl v s = (Inr (), with_mem s ((c_mem s)(phys_lane p b s := v)))"
  using physical_cached [of pl TR_WRITE a p s b "c_mem s"] by (simp add: WRITE8PL_def bnd_def store_def with_mem_def)

lemma read_bytes_cached:
  "cached pl TR_READ a p s \<Longrightarrow> c_a20_mask s AND 3 = 3 \<Longrightarrow> k + n \<le> 4 \<Longrightarrow>
    read_bytes n ((a AND NOT 3) + of_nat k) pl s = (Inr (map (\<lambda>i. c_mem s (lane (phys_lane p a s) (k + i))) [0..<n]), s)"
proof (induction n arbitrary: k)
  case (Suc n)
  then have k: "k < 4" by simp
  have r: "READ8PL ((a AND NOT 3) + of_nat k) pl s = (Inr (c_mem s (lane (phys_lane p a s) k)), s)"
    using read_byte_cached [OF Suc.prems(1) lane_page [OF k]] phys_lane_lane [OF k Suc.prems(2)] by (simp add: lane_plus [OF k])
  have "read_bytes n ((a AND NOT 3) + of_nat (Suc k)) pl s = (Inr (map (\<lambda>i. c_mem s (lane (phys_lane p a s) (Suc k + i))) [0..<n]), s)"
    using Suc.prems by (intro Suc.IH) simp_all
  moreover have "[0..<Suc n] = 0 # map Suc [0..<n]" using map_Suc_upt [of 0 n] upt_conv_Cons [of 0 "Suc n"] by simp
  ultimately show ?case using r by (simp add: bnd_def ret_def algebra_simps del: upt_Suc)
qed (simp add: ret_def)

text \<open>\<open>put\<close> writes bytes to neighbouring lanes.\<close>

primrec put :: "u8 list \<Rightarrow> u32 \<Rightarrow> nat \<Rightarrow> (u32 \<Rightarrow> u8) \<Rightarrow> u32 \<Rightarrow> u8" where
  "put [] q k m = m"
| "put (b # bs) q k m = put bs q (Suc k) (m(lane q k := b))"

lemma write_bytes_cached:
  "cached pl TR_WRITE a p s \<Longrightarrow> c_a20_mask s AND 3 = 3 \<Longrightarrow> k + length bs \<le> 4 \<Longrightarrow>
    write_bytes bs ((a AND NOT 3) + of_nat k) pl s = (Inr (), with_mem s (put bs (phys_lane p a s) k (c_mem s)))"
proof (induction bs arbitrary: k s)
  case (Cons b bs)
  then have k: "k < 4" by simp
  let ?s = "with_mem s ((c_mem s)(lane (phys_lane p a s) k := b))"
  have r: "WRITE8PL ((a AND NOT 3) + of_nat k) pl b s = (Inr (), ?s)"
    using write_byte_cached [OF Cons.prems(1) lane_page [OF k]] phys_lane_lane [OF k Cons.prems(2)] by (simp add: lane_plus [OF k])
  have e: "phys_lane p a ?s = phys_lane p a s" by (simp add: phys_lane_def)
  have "write_bytes bs ((a AND NOT 3) + of_nat (Suc k)) pl ?s = (Inr (), with_mem ?s (put bs (phys_lane p a ?s) (Suc k) (c_mem ?s)))"
    using Cons.prems by (intro Cons.IH) simp_all
  then show ?case using r unfolding e by (simp add: bnd_def algebra_simps)
qed (simp add: ret_def)

lemma physical_outcome:
  assumes "t \<in> {TR_READ, TR_WRITE, TR_FETCH}" "mmu_ok s"
  obtains (fault) e where "physical pl t a s = (Inl (FAULT_PF, e), s\<lparr>c_cr2 := a\<rparr>)"
  | (hit) p s1 where "physical pl t a s = (Inr (phys_lane p a s1), s1)" "cached pl t a p s1" "c_a20_mask s1 AND 3 = 3"
proof (cases "translate_address pl t a s")
  case (Pair r s1)
  show thesis
  proof (cases r)
    case (Inl e)
    then have "s1 = s" using translate_failure Pair by blast
    then show thesis using fault [of e] Pair Inl by (simp add: physical_def fault_throw_def)
  next
    case (Inr p)
    then have t: "translated pl t a s p s1" using translate_cached [OF assms] Pair by blast
    then have p: "p = (p AND 0xfffff000) OR (a AND 0xfff)" using join_page [of p a] by (simp add: translated_def)
    have "phys_lane p a s1 = p AND c_a20_mask s1" unfolding phys_lane_def p [symmetric] ..
    then have "physical pl t a s = (Inr (phys_lane p a s1), s1)" using Pair Inr by (simp add: physical_def)
    moreover have "cached pl t a p s1" "c_a20_mask s1 AND 3 = 3" using t unfolding translated_def mmu_ok_def by blast+
    ultimately show thesis by (rule hit)
  qed
qed

lemma dword_read:
  assumes k: "a AND 3 = of_nat k" "k + n \<le> 4" "0 < n"
    and f: "\<And>m q. f m (lane q k) = g (map (\<lambda>i. m (lane q (k + i))) [0..<n])"
  shows "agree (bnd (physical pl TR_READ a) (\<lambda>b. peek (\<lambda>m. f m b))) (bnd (read_bytes n a pl) (\<lambda>bs. ret (g bs)))"
  unfolding agree_def
proof (intro allI impI)
  fix s assume s: "mmu_ok s"
  have k4: "k < 4" using k by simp
  have a: "lane a k = a" using own_lane [OF k(1) k4] .
  obtain n' where n: "n = Suc n'" using k(3) by (cases n) auto
  have "TR_READ \<in> {TR_READ, TR_WRITE, TR_FETCH}" by simp
  from this s show "bnd (physical pl TR_READ a) (\<lambda>b. peek (\<lambda>m. f m b)) s = bnd (read_bytes n a pl) (\<lambda>bs. ret (g bs)) s"
  proof (cases rule: physical_outcome [of TR_READ s pl a])
    case (fault e)
    then show ?thesis by (simp add: n bnd_def READ8PL_def)
  next
    case (hit p s1)
    have "READ8PL a pl s1 = (Inr (c_mem s1 (phys_lane p a s1)), s1)" using read_byte_cached [OF hit(2)] by simp
    moreover have "READ8PL a pl s = (Inr (c_mem s1 (phys_lane p a s1)), s1)" using hit(1) by (simp add: READ8PL_def bnd_def peek_def)
    ultimately have "read_bytes n a pl s = read_bytes n a pl s1" by (simp add: n bnd_def)
    also have "\<dots> = (Inr (map (\<lambda>i. c_mem s1 (lane (phys_lane p a s1) (k + i))) [0..<n]), s1)"
      using read_bytes_cached [OF hit(2,3) k(2)] unfolding lane_plus [OF k4, symmetric] a .
    moreover have "phys_lane p a s1 = lane (phys_lane p a s1) k" using phys_lane_lane [OF k4 hit(3), of p a] a by simp
    ultimately show ?thesis using f [of "c_mem s1" "phys_lane p a s1"] hit(1) by (simp add: bnd_def peek_def ret_def)
  qed
qed

lemma dword_write:
  assumes k: "a AND 3 = of_nat k" "k + length bs \<le> 4" "bs \<noteq> []"
    and f: "\<And>m q. f (lane q k) m = put bs q k m"
  shows "agree (bnd (physical pl TR_WRITE a) (\<lambda>b. store (f b))) (write_bytes bs a pl)"
  unfolding agree_def
proof (intro allI impI)
  fix s assume s: "mmu_ok s"
  have k4: "k < 4" using k by (cases bs) simp_all
  have a: "lane a k = a" using own_lane [OF k(1) k4] .
  obtain b bs' where n: "bs = b # bs'" using k(3) by (cases bs) auto
  have "TR_WRITE \<in> {TR_READ, TR_WRITE, TR_FETCH}" by simp
  from this s show "bnd (physical pl TR_WRITE a) (\<lambda>b. store (f b)) s = write_bytes bs a pl s"
  proof (cases rule: physical_outcome [of TR_WRITE s pl a])
    case (fault e)
    then show ?thesis by (simp add: n bnd_def WRITE8PL_def)
  next
    case (hit p s1)
    have "WRITE8PL a pl b s1 = WRITE8PL a pl b s"
      using hit(1) write_byte_cached [OF hit(2), of a b] by (simp add: WRITE8PL_def bnd_def store_def with_mem_def)
    then have "write_bytes bs a pl s = write_bytes bs a pl s1" by (simp add: n bnd_def)
    also have "\<dots> = (Inr (), with_mem s1 (put bs (phys_lane p a s1) k (c_mem s1)))"
      using write_bytes_cached [OF hit(2,3) k(2)] unfolding lane_plus [OF k4, symmetric] a .
    moreover have "phys_lane p a s1 = lane (phys_lane p a s1) k" using phys_lane_lane [OF k4 hit(3), of p a] a by simp
    ultimately show ?thesis using f [of "phys_lane p a s1" "c_mem s1"] hit(1) by (simp add: bnd_def store_def with_mem_def)
  qed
qed

subsection \<open>Every access is its bytes\<close>

definition read_le :: "nat \<Rightarrow> u32 \<Rightarrow> u8 \<Rightarrow> 'a::len word step" where
  "read_le n ea pl = bnd (read_bytes n ea pl) (\<lambda>bs. ret (le bs))"

lemma bit_even_mask: "bit (x AND NOT 1) n = (0 < n \<and> bit x n)" for x :: "'a::len word"
  by (auto simp: bit_and_iff bit_not_iff bit_1_iff dest: bit_imp_le_length)

lemma even_lane: "k = 0 \<or> k = 2 \<Longrightarrow> lane q k AND NOT 1 = lane q k \<and> (lane q k AND NOT 1) OR 1 = lane q (k + 1)"
proof (intro conjI bit_word_eqI; unfold bit_or_iff bit_even_mask)
  fix n assume k: "k = 0 \<or> k = 2" and n: "n < LENGTH(32)"
  then have b: "bit k n = (k = 2 \<and> n = 1)" "bit (k + 1) n = (n = 0 \<or> k = 2 \<and> n = 1)" if "n < 2"
    using that by (auto simp: less_2_cases_iff bit_Suc bit_0)
  have l: "bit (lane q k) n = (if n < 2 then bit k n else bit q n)" "bit (lane q (k + 1)) n = (if n < 2 then bit (k + 1) n else bit q n)"
    using k n by (auto simp: bit_lane)
  show "(0 < n \<and> bit (lane q k) n) = bit (lane q k) n" using l b by auto
  show "(0 < n \<and> bit (lane q k) n \<or> bit 1 n) = bit (lane q (k + 1)) n" using l b by (auto simp: bit_1_iff)
qed

lemma upt_small: "[0..<2] = [0, 1]" "[0..<3] = [0, 1, 2]" "[0..<4] = [0, 1, 2, 3]" "[0..<8] = [0, 1, 2, 3, 4, 5, 6, 7::nat]"
  by (simp_all add: upt_rec)

lemma read_word_le: "k = 0 \<or> k = 2 \<Longrightarrow> read_word m (lane q k) = le (map (\<lambda>i. m (lane q (k + i))) [0..<2])"
proof -
  assume "k = 0 \<or> k = 2"
  then have e: "lane q k AND NOT 1 = lane q k" "lane q k OR 1 = lane q (k + 1)" using even_lane [of k q] by metis+
  show ?thesis unfolding read_word_def e upt_small by simp
qed

lemma read_dword_le: "read_dword m q = le (map (\<lambda>i. m (lane q i)) [0..<4])"
  by (simp add: read_dword_def upt_small push_bit_or push_bit_push_bit or.assoc)

text \<open>The bytes of a word of the bus that a shifted read keeps.\<close>

lemma bit_read_dword: "bit (read_dword m q) n = (n < 32 \<and> bit (m (lane q (n div 8))) (n mod 8))"
  unfolding read_dword_le bit_le by (cases "n < 32") (auto simp: nth_append)

lemma dword_high: "drop_bit 8 (read_dword m (lane q 1 - 1)) = le (map (\<lambda>i. m (lane q (1 + i))) [0..<3])"
proof (rule bit_word_eqI)
  fix n assume "n < LENGTH(32)"
  have "(8 + n) div 8 = 1 + n div 8" "(8 + n) mod 8 = n mod 8" by simp_all
  then show "bit (drop_bit 8 (read_dword m (lane q 1 - 1))) n = bit (le (map (\<lambda>i. m (lane q (1 + i))) [0..<3]) :: u32) n"
    unfolding lane_next bit_drop_bit_eq comp_apply bit_read_dword bit_le by (cases "n div 8 < 3") (auto simp: nth_append)
qed

lemma dword_middle: "ucast (drop_bit 8 (read_dword m (lane q 1 - 1))) = (le (map (\<lambda>i. m (lane q (1 + i))) [0..<2]) :: u16)"
  unfolding dword_high by (rule bit_word_eqI) (auto simp: bit_ucast_iff bit_le nth_append)

lemma dword_low: "push_bit 8 (read_dword m (lane q 0)) = push_bit 8 (le (map (\<lambda>i. m (lane q (0 + i))) [0..<3]) :: u32)"
proof (rule bit_word_eqI)
  fix n assume n: "n < LENGTH(32)"
  then have "(n - 8) div 8 < 3" if "8 \<le> n" using that by simp
  then show "bit (push_bit 8 (read_dword m (lane q 0))) n = bit (push_bit 8 (le (map (\<lambda>i. m (lane q (0 + i))) [0..<3]) :: u32)) n"
    unfolding bit_push_bit_iff bit_read_dword bit_le using n by (auto simp: nth_append)
qed

lemma dword_low64: "push_bit 40 (ucast (read_dword m (lane q 0)) :: u64) = push_bit 40 (le (map (\<lambda>i. m (lane q (0 + i))) [0..<3]) :: u64)"
proof (rule bit_word_eqI)
  fix n assume n: "n < LENGTH(64)"
  then have "(n - 40) div 8 < 3" "n - 40 < 32" if "40 \<le> n" using that by simp_all
  then show "bit (push_bit 40 (ucast (read_dword m (lane q 0)) :: u64)) n = bit (push_bit 40 (le (map (\<lambda>i. m (lane q (0 + i))) [0..<3]) :: u64)) n"
    unfolding bit_push_bit_iff bit_ucast_iff bit_read_dword bit_le using n by (auto simp: nth_append)
qed

lemma k_cases: "(ea :: u32) AND 3 = 0 \<or> ea AND 3 = 1 \<or> ea AND 3 = 2 \<or> ea AND 3 = 3"
proof -
  obtain k where "k < 4" "ea AND 3 = of_nat k" using four_lanes by blast
  then show ?thesis using less_4_cases [of k] by auto
qed

text \<open>Reads of one word of the bus, by the lane of the first byte.\<close>

lemma agree_READ8: "agree (READ8PL ea pl) (bnd (read_bytes 1 ea pl) (\<lambda>bs. ret (hd bs)))"
  by simp

lemma agree_word: "ea AND 3 = 0 \<or> ea AND 3 = 2 \<Longrightarrow> agree (bnd (physical pl TR_READ ea) (\<lambda>a. peek (\<lambda>m. read_word m a))) (read_le 2 ea pl)"
  unfolding read_le_def
  using dword_read [of ea 0 2 read_word le pl] dword_read [of ea 2 2 read_word le pl] read_word_le [of 0] read_word_le [of 2] by auto

lemma agree_dword: "ea AND 3 = 0 \<Longrightarrow> agree (bnd (physical pl TR_READ ea) (\<lambda>a. peek (\<lambda>m. read_dword m a))) (read_le 4 ea pl)"
proof -
  have r: "read_dword m (lane q 0) = le (map (\<lambda>i. m (lane q (0 + i))) [0..<4])" for m q
    unfolding read_dword_le upt_small by simp
  show "ea AND 3 = 0 \<Longrightarrow> ?thesis" unfolding read_le_def by (rule dword_read [where k = 0]) (simp_all only: r, simp_all)
qed

lemma agree_high: "ea AND 3 = 1 \<Longrightarrow> agree (bnd (physical pl TR_READ ea) (\<lambda>a. peek (\<lambda>m. drop_bit 8 (read_dword m (a - 1))))) (read_le 3 ea pl)"
  unfolding read_le_def using dword_read [of ea 1 3 "\<lambda>m a. drop_bit 8 (read_dword m (a - 1))" le pl] dword_high by simp

lemma agree_middle: "ea AND 3 = 1 \<Longrightarrow>
  agree (bnd (physical pl TR_READ ea) (\<lambda>a. peek (\<lambda>m. ucast (drop_bit 8 (read_dword m (a - 1)))))) (read_le 2 ea pl :: u16 step)"
  unfolding read_le_def using dword_read [of ea 1 2 "\<lambda>m a. ucast (drop_bit 8 (read_dword m (a - 1)))" "le :: u8 list \<Rightarrow> u16" pl] dword_middle by simp

lemma agree_low: "ea AND 3 = 0 \<Longrightarrow> agree (bnd (physical pl TR_READ ea) (\<lambda>a. peek (\<lambda>m. push_bit 8 (read_dword m a))))
    (bnd (read_bytes 3 ea pl) (\<lambda>bs. ret (push_bit 8 (le bs))))"
  using dword_read [of ea 0 3 "\<lambda>m a. push_bit 8 (read_dword m a)" "\<lambda>bs. push_bit 8 (le bs)" pl] dword_low by simp

lemma agree_low64: "ea AND 3 = 0 \<Longrightarrow> agree (bnd (physical pl TR_READ ea) (\<lambda>a. peek (\<lambda>m. push_bit 40 (ucast (read_dword m a) :: u64))))
    (bnd (read_bytes 3 ea pl) (\<lambda>bs. ret (push_bit 40 (le bs))))"
  using dword_read [of ea 0 3 "\<lambda>m a. push_bit 40 (ucast (read_dword m a) :: u64)" "\<lambda>bs. push_bit 40 (le bs)" pl] dword_low64 by simp

lemma bnd_read_le: "bnd (read_le n ea pl) f = bnd (read_bytes n ea pl) (\<lambda>bs. f (le bs))"
  by (simp add: read_le_def)

lemma keeps_read_le: "keeps (\<lambda>_. True) (read_le n ea pl)"
  unfolding read_le_def by (rule keeps_bnd [OF keeps_read_bytes]) (simp add: keeps_ret)

lemma agree_byte: "agree (READ8PL ea pl) (read_le 1 ea pl)"
  by (simp add: read_le_def)

lemma agree_ret: "x = y \<Longrightarrow> agree (ret x) (ret y)" by simp

lemma agree_then: "agree m m' \<Longrightarrow> keeps (\<lambda>_. True) m' \<Longrightarrow> (\<And>x. agree (f x) (f' x)) \<Longrightarrow> agree (bnd m f) (bnd m' f')"
  by (rule agree_bnd)

lemmas agree_read = agree_then [OF _ keeps_read_le]

text \<open>Consecutive reads joined.\<close>

lemma join2: "8 * n \<le> LENGTH('b) \<Longrightarrow> 8 * k \<le> LENGTH('c) \<Longrightarrow> ea' = ea + of_nat n \<Longrightarrow> i = 8 * n \<Longrightarrow> j = n + k \<Longrightarrow>
  agree (bnd (read_le n ea pl :: 'b::len word step) (\<lambda>v. bnd (read_le k ea' pl :: 'c::len word step)
    (\<lambda>w. ret (ucast v OR push_bit i (ucast w))))) (read_le j ea pl :: 'a::len word step)"
  unfolding bnd_read_le by (simp only: read_le_def read_bytes_append)
    (intro agree_bnd [OF agree_refl keeps_read_bytes] agree_ret, simp add: le_append ucast_le)

lemma join3: "8 * n \<le> LENGTH('b) \<Longrightarrow> 8 * k \<le> LENGTH('c) \<Longrightarrow> 8 * l \<le> LENGTH('d) \<Longrightarrow> ea' = ea + of_nat n \<Longrightarrow> ea'' = ea' + of_nat k \<Longrightarrow>
  i = 8 * n \<Longrightarrow> i' = 8 * (n + k) \<Longrightarrow> j = n + (k + l) \<Longrightarrow>
  agree (bnd (read_le n ea pl :: 'b::len word step) (\<lambda>v. bnd (read_le k ea' pl :: 'c::len word step) (\<lambda>w. bnd (read_le l ea'' pl :: 'd::len word step)
    (\<lambda>x. ret (ucast v OR push_bit i (ucast w) OR push_bit i' (ucast x)))))) (read_le j ea pl :: 'a::len word step)"
  unfolding bnd_read_le by (simp only: read_le_def read_bytes_append)
    (intro agree_bnd [OF agree_refl keeps_read_bytes] agree_ret, simp add: le_append ucast_le push_bit_or add.commute or.assoc)

lemma next_word: "ea AND 3 = 3 \<Longrightarrow> (ea + 1) AND 3 = (0 :: u32)" "ea AND 3 = 3 \<Longrightarrow> (ea + 5) AND 3 = (0 :: u32)"
proof -
  have m: "(push_bit 2 y) AND 3 = 0" for y :: u32
    by (rule bit_word_eqI) (simp add: bit_and_three bit_push_bit_iff)
  have n: "ea AND NOT 3 = push_bit 2 (drop_bit 2 ea)"
  proof (rule bit_word_eqI, unfold bit_and_not_three)
    fix n assume n: "n < LENGTH(32)"
    have "2 + (n - 2) = n" if "\<not> n < 2" using that by simp
    then show "(\<not> n < 2 \<and> bit ea n) = bit (push_bit 2 (drop_bit 2 ea)) n"
      using n unfolding bit_push_bit_iff bit_drop_bit_eq comp_apply by auto
  qed
  assume "ea AND 3 = 3"
  then have "ea = (ea AND NOT 3) + 3" using own_lane [of ea 3] lane_plus [of 3 ea] by simp
  then have "ea + 1 = push_bit 2 (drop_bit 2 ea + 1)" "ea + 5 = push_bit 2 (drop_bit 2 ea + 2)"
    unfolding n by (simp_all add: push_bit_eq_mult algebra_simps)
  then show "(ea + 1) AND 3 = 0" "(ea + 5) AND 3 = 0" using m by metis+
qed

lemma agree_READ16PL: "agree (READ16PL ea pl) (read_le 2 ea pl)"
proof -
  have j: "agree (bnd (READ8PL ea pl) (\<lambda>v0. bnd (READ8PL (ea + 1) pl) (\<lambda>v1. ret (ucast v0 OR push_bit 8 (ucast v1))))) (read_le 2 ea pl :: u16 step)"
    by (rule agree_trans [OF agree_read [OF agree_byte agree_read [OF agree_byte agree_refl]] join2]) simp_all
  show ?thesis using k_cases [of ea] agree_word [of ea pl] agree_middle [of ea pl] j unfolding READ16PL_def by auto
qed

lemma agree_READ32PL: "agree (READ32PL ea pl) (read_le 4 ea pl)"
  using k_cases [of ea]
proof (elim disjE)
  assume "ea AND 3 = 0"
  then show ?thesis using agree_dword [of ea pl] by (simp add: READ32PL_def)
next
  assume k: "ea AND 3 = 1"
  have "agree (bnd (bnd (physical pl TR_READ ea) (\<lambda>a. peek (\<lambda>m. drop_bit 8 (read_dword m (a - 1)))))
      (\<lambda>v. bnd (READ8PL (ea + 3) pl) (\<lambda>v3. ret (v OR push_bit 24 (ucast v3))))) (read_le 4 ea pl)"
    by (rule agree_trans [OF agree_read [OF agree_high [OF k] agree_read [OF agree_byte agree_refl]]], subst ucast_id [symmetric], rule join2) simp_all
  then show ?thesis using k by (simp only: READ32PL_def if_True simp_thms)
next
  assume k: "ea AND 3 = 2"
  have "agree (bnd (READ16PL ea pl) (\<lambda>v0. bnd (READ16PL (ea + 2) pl) (\<lambda>v1. ret (ucast v0 OR push_bit 16 (ucast v1))))) (read_le 4 ea pl :: u32 step)"
    by (rule agree_trans [OF agree_read [OF agree_READ16PL agree_read [OF agree_READ16PL agree_refl]] join2]) simp_all
  then show ?thesis using k by (simp add: READ32PL_def)
next
  assume k: "ea AND 3 = 3"
  have "agree (bnd (READ8PL ea pl) (\<lambda>v0. bnd (bnd (physical pl TR_READ (ea + 1)) (\<lambda>a. peek (\<lambda>m. push_bit 8 (read_dword m a)))) (\<lambda>v. ret (ucast v0 OR v))))
      (bnd (read_le 1 ea pl :: u8 step) (\<lambda>v0. bnd (bnd (read_bytes 3 (ea + 1) pl) (\<lambda>bs. ret (push_bit 8 (le bs :: u32)))) (\<lambda>v. ret (ucast v0 OR v))))"
    by (intro agree_read agree_byte agree_bnd [OF agree_low [OF next_word(1) [OF k]]] agree_refl)
      (rule keeps_bnd [OF keeps_read_bytes], rule keeps_ret, rule TrueI)
  moreover have "agree (bnd (read_le 1 ea pl :: u8 step) (\<lambda>v. bnd (read_le 3 (ea + 1) pl :: u32 step) (\<lambda>w. ret (ucast v OR push_bit 8 (ucast w)))))
      (read_le 4 ea pl :: u32 step)" by (rule join2) simp_all
  then have "agree (bnd (read_le 1 ea pl :: u8 step) (\<lambda>v0. bnd (bnd (read_bytes 3 (ea + 1) pl) (\<lambda>bs. ret (push_bit 8 (le bs :: u32)))) (\<lambda>v. ret (ucast v0 OR v))))
      (read_le 4 ea pl)"
    by (simp only: bnd_read_le bnd_assoc bnd_ret ucast_id)
  ultimately have "agree (bnd (READ8PL ea pl) (\<lambda>v0. bnd (bnd (physical pl TR_READ (ea + 1)) (\<lambda>a. peek (\<lambda>m. push_bit 8 (read_dword m a)))) (\<lambda>v. ret (ucast v0 OR v))))
      (read_le 4 ea pl)" by (rule agree_trans)
  then show ?thesis using k by (simp add: READ32PL_def)
qed

lemma agree_read_bytes:
  "agree (bnd (read_le n ea pl :: 'b::len word step) f) (bnd (read_bytes n ea pl) g)" if "\<And>bs. length bs = n \<Longrightarrow> agree (f (le bs)) (g bs)"
  unfolding bnd_read_le by (rule agree_bnd [OF agree_refl keeps_read_bytes that])

lemma agree_READ64PL: "agree (READ64PL ea pl) (read_le 8 ea pl)"
  using k_cases [of ea]
proof (elim disjE)
  assume k: "ea AND 3 = 0"
  have "agree (bnd (READ32PL ea pl) (\<lambda>v0. bnd (READ32PL (ea + 4) pl) (\<lambda>v4. ret (ucast v0 OR push_bit 32 (ucast v4))))) (read_le 8 ea pl :: u64 step)"
    by (rule agree_trans [OF agree_read [OF agree_READ32PL agree_read [OF agree_READ32PL agree_refl]] join2]) simp_all
  then show ?thesis using k by (simp add: READ64PL_def)
next
  assume k: "ea AND 3 = 1"
  have "agree (bnd (bnd (physical pl TR_READ ea) (\<lambda>a. peek (\<lambda>m. drop_bit 8 (read_dword m (a - 1)))))
      (\<lambda>v. bnd (READ32PL (ea + 3) pl) (\<lambda>v3. bnd (READ8PL (ea + 7) pl) (\<lambda>v7. ret (ucast v OR push_bit 24 (ucast v3) OR push_bit 56 (ucast v7))))))
      (read_le 8 ea pl :: u64 step)"
    by (rule agree_trans [OF agree_read [OF agree_high [OF k] agree_read [OF agree_READ32PL agree_read [OF agree_byte agree_refl]]] join3]) simp_all
  then show ?thesis using k by (simp only: READ64PL_def if_True simp_thms)
next
  assume k: "ea AND 3 = 2"
  have "agree (bnd (READ16PL ea pl) (\<lambda>v0. bnd (READ32PL (ea + 2) pl) (\<lambda>v2. bnd (READ16PL (ea + 6) pl)
      (\<lambda>v6. ret (ucast v0 OR push_bit 16 (ucast v2) OR push_bit 48 (ucast v6)))))) (read_le 8 ea pl :: u64 step)"
    by (rule agree_trans [OF agree_read [OF agree_READ16PL agree_read [OF agree_READ32PL agree_read [OF agree_READ16PL agree_refl]]] join3]) simp_all
  then show ?thesis using k by (simp add: READ64PL_def)
next
  assume k: "ea AND 3 = 3"
  have "agree (bnd (READ8PL ea pl) (\<lambda>v0. bnd (READ32PL (ea + 1) pl) (\<lambda>v1. bnd (bnd (physical pl TR_READ (ea + 5)) (\<lambda>a. peek (\<lambda>m. push_bit 40 (ucast (read_dword m a) :: u64))))
        (\<lambda>v. ret (ucast v0 OR push_bit 8 (ucast v1) OR v)))))
      (bnd (read_le 1 ea pl :: u8 step) (\<lambda>v0. bnd (read_le 4 (ea + 1) pl :: u32 step) (\<lambda>v1. bnd (bnd (read_bytes 3 (ea + 5) pl) (\<lambda>bs. ret (push_bit 40 (le bs :: u64))))
        (\<lambda>v. ret (ucast v0 OR push_bit 8 (ucast v1) OR v)))))"
    by (intro agree_read agree_byte agree_READ32PL agree_bnd [OF agree_low64 [OF next_word(2) [OF k]]] agree_refl)
      (rule keeps_bnd [OF keeps_read_bytes], rule keeps_ret, rule TrueI)
  moreover have "agree (bnd (read_le 1 ea pl :: u8 step) (\<lambda>v0. bnd (read_le 4 (ea + 1) pl :: u32 step) (\<lambda>v1. bnd (read_le 3 (ea + 5) pl :: u64 step)
        (\<lambda>v. ret (ucast v0 OR push_bit 8 (ucast v1) OR push_bit 40 (ucast v)))))) (read_le 8 ea pl :: u64 step)"
    by (rule join3) simp_all
  then have "agree (bnd (read_le 1 ea pl :: u8 step) (\<lambda>v0. bnd (read_le 4 (ea + 1) pl :: u32 step) (\<lambda>v1. bnd (bnd (read_bytes 3 (ea + 5) pl) (\<lambda>bs. ret (push_bit 40 (le bs :: u64))))
        (\<lambda>v. ret (ucast v0 OR push_bit 8 (ucast v1) OR v))))) (read_le 8 ea pl :: u64 step)"
    by (simp only: bnd_read_le bnd_assoc bnd_ret ucast_id)
  ultimately have "agree (bnd (READ8PL ea pl) (\<lambda>v0. bnd (READ32PL (ea + 1) pl) (\<lambda>v1. bnd (bnd (physical pl TR_READ (ea + 5)) (\<lambda>a. peek (\<lambda>m. push_bit 40 (ucast (read_dword m a) :: u64))))
        (\<lambda>v. ret (ucast v0 OR push_bit 8 (ucast v1) OR v))))) (read_le 8 ea pl :: u64 step)" by (rule agree_trans)
  then show ?thesis using k by (simp add: READ64PL_def)
qed

lemma even_cases: "ea AND 1 = 0 \<Longrightarrow> ea AND 3 = 0 \<or> ea AND 3 = (2 :: u32)"
proof -
  assume e: "ea AND 1 = 0"
  have "(ea AND 3) AND 1 = ea AND 1" by (rule bit_word_eqI) (auto simp: bit_and_three bit_and_iff bit_1_iff)
  then have "(ea AND 3) AND 1 = 0" using e by simp
  then show ?thesis using k_cases [of ea] by auto
qed

lemma agree_sx_READ16PL: "agree (sx_READ16PL ea pl) (read_le 2 ea pl)"
proof -
  have "agree (bnd (READ8PL ea pl) (\<lambda>v0. bnd (READ8PL (ea + 1) pl) (\<lambda>v1. ret (ucast v0 OR push_bit 8 (ucast v1))))) (read_le 2 ea pl :: u16 step)"
    by (rule agree_trans [OF agree_read [OF agree_byte agree_read [OF agree_byte agree_refl]] join2]) simp_all
  then show ?thesis using even_cases [of ea] agree_word [of ea pl] unfolding sx_READ16PL_def by simp
qed

lemma agree_sx_READ32PL: "agree (sx_READ32PL ea pl) (read_le 4 ea pl)"
proof -
  have "agree (bnd (sx_READ16PL ea pl) (\<lambda>v0. bnd (sx_READ16PL (ea + 2) pl) (\<lambda>v2. ret (ucast v0 OR push_bit 16 (ucast v2))))) (read_le 4 ea pl :: u32 step)"
    by (rule agree_trans [OF agree_read [OF agree_sx_READ16PL agree_read [OF agree_sx_READ16PL agree_refl]] join2]) simp_all
  moreover have "agree (bnd (READ8PL ea pl) (\<lambda>v0. bnd (sx_READ16PL (ea + 1) pl) (\<lambda>v1. bnd (READ8PL (ea + 3) pl)
        (\<lambda>v3. ret (ucast v0 OR push_bit 8 (ucast v1) OR push_bit 24 (ucast v3)))))) (read_le 4 ea pl :: u32 step)"
    by (rule agree_trans [OF agree_read [OF agree_byte agree_read [OF agree_sx_READ16PL agree_read [OF agree_byte agree_refl]]] join3]) simp_all
  ultimately show ?thesis unfolding sx_READ32PL_def by simp
qed

lemma agree_sx_READ64PL: "agree (sx_READ64PL ea pl) (read_le 8 ea pl)"
proof -
  have r8: "(read_le 8 ea pl :: u64 step) = bnd (read_bytes 2 ea pl) (\<lambda>a. bnd (read_bytes 2 (ea + 2) pl) (\<lambda>b. bnd (read_bytes 2 (ea + 4) pl)
      (\<lambda>c. bnd (read_bytes 2 (ea + 6) pl) (\<lambda>d. ret (le (a @ b @ c @ d))))))"
  proof -
    have e: "bnd (read_bytes 8 ea pl) g = bnd (read_bytes 2 ea pl) (\<lambda>bs. bnd (read_bytes 6 (ea + 2) pl) (\<lambda>cs. g (bs @ cs)))"
      "bnd (read_bytes 6 (ea + 2) pl) g = bnd (read_bytes 2 (ea + 2) pl) (\<lambda>bs. bnd (read_bytes 4 (ea + 4) pl) (\<lambda>cs. g (bs @ cs)))"
      "bnd (read_bytes 4 (ea + 4) pl) g = bnd (read_bytes 2 (ea + 4) pl) (\<lambda>bs. bnd (read_bytes 2 (ea + 6) pl) (\<lambda>cs. g (bs @ cs)))" for g :: "u8 list \<Rightarrow> u64 step"
      using read_bytes_append [of 2 6 ea pl g] read_bytes_append [of 2 4 "ea + 2" pl g] read_bytes_append [of 2 2 "ea + 4" pl g]
      by (simp_all add: add.commute)
    show ?thesis unfolding read_le_def e ..
  qed
  have r8': "(read_le 8 ea pl :: u64 step) = bnd (read_bytes 1 ea pl) (\<lambda>a. bnd (read_bytes 2 (ea + 1) pl) (\<lambda>b. bnd (read_bytes 2 (ea + 3) pl)
      (\<lambda>c. bnd (read_bytes 2 (ea + 5) pl) (\<lambda>d. bnd (read_bytes 1 (ea + 7) pl) (\<lambda>e. ret (le (a @ b @ c @ d @ e)))))))"
  proof -
    have e: "bnd (read_bytes 8 ea pl) g = bnd (read_bytes 1 ea pl) (\<lambda>bs. bnd (read_bytes 7 (ea + 1) pl) (\<lambda>cs. g (bs @ cs)))"
      "bnd (read_bytes 7 (ea + 1) pl) g = bnd (read_bytes 2 (ea + 1) pl) (\<lambda>bs. bnd (read_bytes 5 (ea + 3) pl) (\<lambda>cs. g (bs @ cs)))"
      "bnd (read_bytes 5 (ea + 3) pl) g = bnd (read_bytes 2 (ea + 3) pl) (\<lambda>bs. bnd (read_bytes 3 (ea + 5) pl) (\<lambda>cs. g (bs @ cs)))"
      for g :: "u8 list \<Rightarrow> u64 step"
      using read_bytes_append [of 1 7 ea pl g] read_bytes_append [of 2 5 "ea + 1" pl g] read_bytes_append [of 2 3 "ea + 3" pl g]
      by (simp_all del: read_bytes.simps add: add.commute)
    have e4: "bnd (read_bytes 3 (ea + 5) pl) g = bnd (read_bytes 2 (ea + 5) pl) (\<lambda>bs. bnd (read_bytes 1 (ea + 7) pl) (\<lambda>cs. g (bs @ cs)))" for g :: "u8 list \<Rightarrow> u64 step"
      using read_bytes_append [of 2 1 "ea + 5" pl g] by (simp del: read_bytes.simps add: add.commute numeral_3_eq_3)
    show ?thesis unfolding read_le_def e e4 ..
  qed
  have "agree (bnd (sx_READ16PL ea pl) (\<lambda>v0. bnd (sx_READ16PL (ea + 2) pl) (\<lambda>v2. bnd (sx_READ16PL (ea + 4) pl)
        (\<lambda>v4. bnd (sx_READ16PL (ea + 6) pl)
          (\<lambda>v6. ret (ucast v0 OR push_bit 16 (ucast v2) OR push_bit 32 (ucast v4) OR push_bit 48 (ucast v6))))))) (read_le 8 ea pl :: u64 step)"
    unfolding r8 by (rule agree_trans [OF agree_read [OF agree_sx_READ16PL agree_read [OF agree_sx_READ16PL agree_read [OF agree_sx_READ16PL
          agree_read [OF agree_sx_READ16PL agree_refl]]]]], intro agree_read_bytes)
      (simp add: le_append ucast_le push_bit_or or.assoc)
  moreover have "agree (bnd (READ8PL ea pl) (\<lambda>v0. bnd (sx_READ16PL (ea + 1) pl) (\<lambda>v1. bnd (sx_READ16PL (ea + 3) pl)
        (\<lambda>v3. bnd (sx_READ16PL (ea + 5) pl) (\<lambda>v5. bnd (READ8PL (ea + 7) pl)
          (\<lambda>v7. ret (ucast v0 OR push_bit 8 (ucast v1) OR push_bit 24 (ucast v3) OR push_bit 40 (ucast v5) OR push_bit 56 (ucast v7)))))))) (read_le 8 ea pl :: u64 step)"
    unfolding r8' by (rule agree_trans [OF agree_read [OF agree_byte agree_read [OF agree_sx_READ16PL agree_read [OF agree_sx_READ16PL
          agree_read [OF agree_sx_READ16PL agree_read [OF agree_byte agree_refl]]]]]], intro agree_read_bytes)
      (simp add: le_append ucast_le push_bit_or or.assoc)
  ultimately show ?thesis unfolding sx_READ64PL_def by simp
qed

text \<open>The writes.\<close>

definition write_le :: "nat \<Rightarrow> 'a::len word \<Rightarrow> u32 \<Rightarrow> u8 \<Rightarrow> unit step" where
  "write_le n v ea pl = write_bytes (bytes_of n v) ea pl"

lemma keeps_write_le: "keeps (\<lambda>_. True) (write_le n v ea pl)"
  unfolding write_le_def by (rule keeps_write_bytes)

lemma length_bytes_of [simp]: "length (bytes_of n v) = n"
  by (simp add: bytes_of_def)

lemma bytes_of_append: "bytes_of (n + k) v = bytes_of n v @ bytes_of k (drop_bit (8 * n) v)"
proof (rule nth_equalityI)
  fix i assume "i < length (bytes_of (n + k) v)"
  then show "bytes_of (n + k) v ! i = (bytes_of n v @ bytes_of k (drop_bit (8 * n) v)) ! i"
    by (auto simp: bytes_of_def nth_append drop_bit_drop_bit algebra_simps)
qed simp

lemma bytes_of_mask: "8 * n \<le> k \<Longrightarrow> 8 * n \<le> LENGTH('b) \<Longrightarrow> bytes_of n (ucast (v AND mask k) :: 'b::len word) = bytes_of n (v :: 'a::len word)"
proof (rule nth_equalityI)
  fix i assume l: "8 * n \<le> k" "8 * n \<le> LENGTH('b)" and "i < length (bytes_of n (ucast (v AND mask k) :: 'b word))"
  then have i: "i < n" by simp
  have "bit (ucast (drop_bit (8 * i) (ucast (v AND mask k) :: 'b word)) :: u8) j = bit (ucast (drop_bit (8 * i) v) :: u8) j" if "j < 8" for j
  proof -
    have "8 * i + j < k" "8 * i + j < LENGTH('b)" using i l that by linarith+
    then show ?thesis using that by (auto simp: bit_ucast_iff bit_drop_bit_eq bit_and_iff bit_mask_iff dest: bit_imp_le_length)
  qed
  then show "bytes_of n (ucast (v AND mask k) :: 'b word) ! i = bytes_of n v ! i" using i
    by (auto simp: bytes_of_def intro!: u8_eqI)
qed simp

lemma value_masks: "(0xff :: 'a::len word) = mask 8" "(0xffff :: 'a word) = mask 16" "(0xffffff :: 'a word) = mask 24" "(0xffffffff :: 'a word) = mask 32"
  by (simp_all add: mask_eq_exp_minus_1)

text \<open>Consecutive writes joined.\<close>

lemma agree_write: "agree m (write_le n v ea pl) \<Longrightarrow> agree f f' \<Longrightarrow> agree (bnd m (\<lambda>_. f)) (bnd (write_le n v ea pl) (\<lambda>_. f'))"
  by (rule agree_then [OF _ keeps_write_le])

lemma write_join: "bytes_of k w = bytes_of k (drop_bit (8 * n) v) \<Longrightarrow> bytes_of n u = bytes_of n v \<Longrightarrow> ea' = ea + of_nat n \<Longrightarrow> j = n + k \<Longrightarrow>
    bnd (write_le n u ea pl) (\<lambda>_. write_le k w ea' pl) = write_le j v ea pl"
  unfolding write_le_def by (simp only: bytes_of_append write_bytes_append length_bytes_of)

lemma write_byte: "agree (WRITE8PL ea pl v) (write_le 1 v ea pl)"
  by (simp add: write_le_def bytes_of_def)

lemma put_two: "put (bytes_of 2 v) q k m = m(lane q k := ucast v, lane q (Suc k) := ucast (drop_bit 8 v))"
  by (simp add: bytes_of_def upt_small)

lemma put_three: "put (bytes_of 3 v) q k m = m(lane q k := ucast v, lane q (Suc k) := ucast (drop_bit 8 v), lane q (Suc (Suc k)) := ucast (drop_bit 16 v))"
  by (simp add: bytes_of_def upt_small)

lemma put_four: "put (bytes_of 4 v) q k m = m(lane q k := ucast v, lane q (Suc k) := ucast (drop_bit 8 v),
    lane q (Suc (Suc k)) := ucast (drop_bit 16 v), lane q (Suc (Suc (Suc k))) := ucast (drop_bit 24 v))"
  by (simp add: bytes_of_def upt_small)

lemma byte_and_ff [simp]: "x AND 0xff = x" "x AND NOT 0xff = 0" for x :: u8
  unfolding value_masks by (rule u8_eqI, simp add: bit_and_iff bit_not_iff bit_mask_iff)+

lemma write_lane_mask:
  "byte32 k msk = 0xff \<Longrightarrow> write_lane a v msk k m = m(lane a k := byte32 k v)" "byte32 k msk = 0 \<Longrightarrow> write_lane a v msk k m = m"
  by (simp_all only: write_lane_def byte_and_ff) simp_all

lemma mask_bytes:
  "byte32 0 0xffffffff = 0xff" "byte32 (Suc 0) 0xffffffff = 0xff" "byte32 2 0xffffffff = 0xff" "byte32 3 0xffffffff = 0xff"
  "byte32 0 0xffffff00 = 0" "byte32 (Suc 0) 0xffffff00 = 0xff" "byte32 2 0xffffff00 = 0xff" "byte32 3 0xffffff00 = 0xff"
  "byte32 0 0x00ffffff = 0xff" "byte32 (Suc 0) 0x00ffffff = 0xff" "byte32 2 0x00ffffff = 0xff" "byte32 3 0x00ffffff = 0"
  "byte32 0 0x00ffff00 = 0" "byte32 (Suc 0) 0x00ffff00 = 0xff" "byte32 2 0x00ffff00 = 0xff" "byte32 3 0x00ffff00 = 0"
  by (simp_all add: byte32_def)

lemmas write_lanes = write_dword_def One_nat_def write_lane_mask(1) [OF mask_bytes(1)] write_lane_mask(1) [OF mask_bytes(2)]
  write_lane_mask(1) [OF mask_bytes(3)] write_lane_mask(1) [OF mask_bytes(4)] write_lane_mask(2) [OF mask_bytes(5)]
  write_lane_mask(1) [OF mask_bytes(6)] write_lane_mask(1) [OF mask_bytes(7)] write_lane_mask(1) [OF mask_bytes(8)]
  write_lane_mask(1) [OF mask_bytes(9)] write_lane_mask(1) [OF mask_bytes(10)] write_lane_mask(1) [OF mask_bytes(11)]
  write_lane_mask(2) [OF mask_bytes(12)] write_lane_mask(2) [OF mask_bytes(13)] write_lane_mask(1) [OF mask_bytes(14)]
  write_lane_mask(1) [OF mask_bytes(15)] write_lane_mask(2) [OF mask_bytes(16)]

lemma write_dword_all: "write_dword (lane q 0) v 0xffffffff m = put (bytes_of 4 v) q 0 m"
  unfolding put_four write_lanes by (simp add: byte32_def numeral_2_eq_2 [symmetric])

lemma write_dword_low: "write_dword (lane q 0) v 0x00ffffff m = put (bytes_of 3 v) q 0 m"
  unfolding put_three write_lanes by (simp add: byte32_def numeral_2_eq_2 [symmetric])

lemma write_dword_high: "write_dword (lane q 1 - 1) v 0xffffff00 m = put (bytes_of 3 (drop_bit 8 v)) q 1 m"
  unfolding put_three lane_next unfolding write_lanes by (simp add: byte32_def drop_bit_drop_bit numeral_2_eq_2 [symmetric])

lemma write_dword_middle: "write_dword (lane q 1 - 1) v 0x00ffff00 m = put (bytes_of 2 (drop_bit 8 v)) q 1 m"
  unfolding put_two lane_next unfolding write_lanes by (simp add: byte32_def drop_bit_drop_bit numeral_2_eq_2 [symmetric])

lemma write_word_put: "k = 0 \<or> k = 2 \<Longrightarrow> write_word (lane q k) v m = put (bytes_of 2 v) q k m"
proof -
  assume "k = 0 \<or> k = 2"
  then have e: "lane q k AND NOT 1 = lane q k" "lane q k OR 1 = lane q (k + 1)" using even_lane [of k q] by metis+
  show ?thesis unfolding write_word_def e put_two by (simp add: lo8_def hi8_def)
qed

lemma bytes_of_pos: "0 < n \<Longrightarrow> bytes_of n v \<noteq> []"
  using length_bytes_of [of n v] by (metis list.size(3) less_irrefl)

lemma agree_write_dword: "ea AND 3 = 0 \<Longrightarrow> agree (bnd (physical pl TR_WRITE ea) (\<lambda>a. store (write_dword a v 0xffffffff))) (write_le 4 v ea pl)"
  unfolding write_le_def by (rule dword_write [of ea 0]) (simp_all only: write_dword_all bytes_of_pos, simp_all)

lemma agree_write_low: "ea AND 3 = 0 \<Longrightarrow> agree (bnd (physical pl TR_WRITE ea) (\<lambda>a. store (write_dword a v 0x00ffffff))) (write_le 3 v ea pl)"
  unfolding write_le_def by (rule dword_write [of ea 0]) (simp_all only: write_dword_low bytes_of_pos, simp_all)

lemma agree_write_high: "ea AND 3 = 1 \<Longrightarrow>
  agree (bnd (physical pl TR_WRITE ea) (\<lambda>a. store (write_dword (a - 1) v 0xffffff00))) (write_le 3 (drop_bit 8 v) ea pl)"
  unfolding write_le_def by (rule dword_write [of ea 1]) (simp_all only: write_dword_high bytes_of_pos, simp_all)

lemma agree_write_middle: "ea AND 3 = 1 \<Longrightarrow>
  agree (bnd (physical pl TR_WRITE ea) (\<lambda>a. store (write_dword (a - 1) v 0x00ffff00))) (write_le 2 (drop_bit 8 v) ea pl)"
  unfolding write_le_def by (rule dword_write [of ea 1]) (simp_all only: write_dword_middle bytes_of_pos, simp_all)

lemma agree_write_word: "ea AND 3 = 0 \<or> ea AND 3 = 2 \<Longrightarrow> agree (bnd (physical pl TR_WRITE ea) (\<lambda>a. store (write_word a v))) (write_le 2 v ea pl)"
proof (elim disjE)
  show "ea AND 3 = 0 \<Longrightarrow> ?thesis" unfolding write_le_def
    by (rule dword_write [of ea 0]) (simp_all only: write_word_put [OF disjI1 [OF refl]] bytes_of_pos, simp_all)
  show "ea AND 3 = 2 \<Longrightarrow> ?thesis" unfolding write_le_def
    by (rule dword_write [of ea 2]) (simp_all only: write_word_put [OF disjI2 [OF refl]] bytes_of_pos, simp_all)
qed

text \<open>The byte list of a value depends on its low bits only.\<close>

lemma bytes_of_eqI: "(\<And>i. i < 8 * n \<Longrightarrow> bit u i = bit v i) \<Longrightarrow> bytes_of n u = bytes_of n v"
proof (rule nth_equalityI)
  fix i assume e: "\<And>i. i < 8 * n \<Longrightarrow> bit u i = bit v i" and "i < length (bytes_of n u)"
  then have i: "i < n" by simp
  have "bit (ucast (drop_bit (8 * i) u) :: u8) j = bit (ucast (drop_bit (8 * i) v) :: u8) j" if "j < 8" for j
    using e [of "8 * i + j"] i that by (simp add: bit_ucast_iff bit_drop_bit_eq)
  then show "bytes_of n u ! i = bytes_of n v ! i" using i by (auto simp: bytes_of_def intro!: u8_eqI)
qed simp

lemma bit_low_mask: "bit (ucast (v AND mask k) :: 'b::len word) i = (i < LENGTH('b) \<and> i < k \<and> bit v i)" for v :: "'a::len word"
  by (auto simp: bit_ucast_iff bit_and_iff bit_mask_iff dest: bit_imp_le_length)

lemma agree_WRITE16PL: "agree (WRITE16PL ea pl v) (write_le 2 v ea pl)"
proof -
  have "bnd (write_le 1 (ucast (v AND 0xff) :: u8) ea pl) (\<lambda>_. write_le 1 (ucast (drop_bit 8 v AND 0xff) :: u8) (ea + 1) pl) = write_le 2 v ea pl"
    unfolding value_masks by (rule write_join [where n = 1 and k = 1]) (auto intro!: bytes_of_eqI simp: bit_low_mask bit_drop_bit_eq)
  then have b: "agree (bnd (WRITE8PL ea pl (ucast (v AND 0xff))) (\<lambda>_. WRITE8PL (ea + 1) pl (ucast (drop_bit 8 v AND 0xff)))) (write_le 2 v ea pl)"
    using agree_write [OF write_byte write_byte] by metis
  have "write_le 2 (drop_bit 8 (push_bit 8 (ucast v) :: u32)) ea pl = write_le 2 v ea pl"
    unfolding write_le_def by (rule arg_cong [where f = "\<lambda>bs. write_bytes bs ea pl"], rule bytes_of_eqI)
      (auto simp: bit_drop_bit_eq bit_push_bit_iff bit_ucast_iff dest: bit_imp_le_length)
  then show ?thesis using k_cases [of ea] agree_write_word [of ea pl v] agree_write_middle [of ea pl "push_bit 8 (ucast v)"] b
    unfolding WRITE16PL_def by auto
qed

lemma bit_top_mask: "bit (0xffffff00 :: u32) i = (8 \<le> i \<and> i < 32)"
proof -
  have "(0xffffff00 :: u32) = NOT (mask 8)" by (simp add: mask_eq_exp_minus_1)
  then show ?thesis by (simp only: bit_not_iff bit_mask_iff) auto
qed

lemma write_le_eqI: "(\<And>i. i < 8 * n \<Longrightarrow> bit u i = bit v i) \<Longrightarrow> write_le n u ea pl = write_le n v ea pl"
  unfolding write_le_def by (rule arg_cong [where f = "\<lambda>bs. write_bytes bs ea pl"]) (rule bytes_of_eqI)

lemma write_split2:
  assumes "\<And>i. i < 8 * n \<Longrightarrow> bit u i = bit v i" "\<And>i. i < 8 * k \<Longrightarrow> bit w i = bit v (8 * n + i)" "ea' = ea + of_nat n" "j = n + k"
  shows "bnd (write_le n u ea pl) (\<lambda>_. write_le k w ea' pl) = write_le j v ea pl"
  using assms by (intro write_join bytes_of_eqI) (simp_all add: bit_drop_bit_eq)

lemma bit_and_mask: "bit (v AND mask k) i = (i < k \<and> bit v i)" for v :: "'a::len word"
  by (auto simp: bit_and_iff bit_mask_iff dest: bit_imp_le_length)

lemmas bit_parts = bit_and_mask bit_low_mask bit_drop_bit_eq bit_push_bit_iff bit_ucast_iff

lemma agree_WRITE32PL: "agree (WRITE32PL ea pl v) (write_le 4 v ea pl)"
  using k_cases [of ea]
proof (elim disjE)
  assume "ea AND 3 = 0"
  then show ?thesis using agree_write_dword [of ea pl v] by (simp add: WRITE32PL_def)
next
  assume k: "ea AND 3 = 1"
  have "bnd (write_le 3 (drop_bit 8 (push_bit 8 v AND 0xffffff00)) ea pl) (\<lambda>_. write_le 1 (ucast (drop_bit 24 v AND 0xff) :: u8) (ea + 3) pl) = write_le 4 v ea pl"
  proof (rule write_split2)
    show "bit (drop_bit 8 (push_bit 8 v AND 0xffffff00)) i = bit v i" if "i < 8 * 3" for i
      using that unfolding bit_drop_bit_eq comp_apply bit_and_iff bit_top_mask bit_push_bit_iff by simp
    show "bit (ucast (drop_bit 24 v AND 0xff) :: u8) i = bit v (8 * 3 + i)" if "i < 8 * 1" for i
      using that unfolding value_masks by (simp add: bit_parts)
  qed simp_all
  then have "agree (bnd (bnd (physical pl TR_WRITE ea) (\<lambda>a. store (write_dword (a - 1) (push_bit 8 v AND 0xffffff00) 0xffffff00)))
        (\<lambda>_. WRITE8PL (ea + 3) pl (ucast (drop_bit 24 v AND 0xff)))) (write_le 4 v ea pl)"
    using agree_write [OF agree_write_high [OF k] write_byte] by metis
  then show ?thesis using k by (simp only: WRITE32PL_def if_True simp_thms)
next
  assume k: "ea AND 3 = 2"
  have "bnd (write_le 2 (ucast (v AND 0xffff) :: u16) ea pl) (\<lambda>_. write_le 2 (ucast (drop_bit 16 v AND 0xffff) :: u16) (ea + 2) pl) = write_le 4 v ea pl"
    unfolding value_masks by (rule write_split2) (auto simp: bit_parts)
  then have "agree (bnd (WRITE16PL ea pl (ucast (v AND 0xffff))) (\<lambda>_. WRITE16PL (ea + 2) pl (ucast (drop_bit 16 v AND 0xffff)))) (write_le 4 v ea pl)"
    using agree_write [OF agree_WRITE16PL agree_WRITE16PL] by metis
  then show ?thesis using k by (simp add: WRITE32PL_def)
next
  assume k: "ea AND 3 = 3"
  have "bnd (write_le 1 (ucast (v AND 0xff) :: u8) ea pl) (\<lambda>_. write_le 3 (drop_bit 8 v) (ea + 1) pl) = write_le 4 v ea pl"
    unfolding value_masks by (rule write_split2) (auto simp: bit_parts)
  then have "agree (bnd (WRITE8PL ea pl (ucast (v AND 0xff))) (\<lambda>_. bnd (physical pl TR_WRITE (ea + 1)) (\<lambda>a. store (write_dword a (drop_bit 8 v) 0x00ffffff))))
      (write_le 4 v ea pl)"
    using agree_write [OF write_byte agree_write_low [OF next_word(1) [OF k]]] by metis
  then show ?thesis using k by (simp add: WRITE32PL_def)
qed

lemma agree_WRITE64PL: "agree (WRITE64PL ea pl v) (write_le 8 v ea pl)"
  using k_cases [of ea]
proof (elim disjE)
  assume k: "ea AND 3 = 0"
  have "bnd (write_le 4 (ucast (v AND 0xffffffff) :: u32) ea pl) (\<lambda>_. write_le 4 (ucast (drop_bit 32 v AND 0xffffffff) :: u32) (ea + 4) pl) = write_le 8 v ea pl"
    unfolding value_masks by (rule write_split2) (auto simp: bit_parts)
  then have "agree (bnd (WRITE32PL ea pl (ucast (v AND 0xffffffff))) (\<lambda>_. WRITE32PL (ea + 4) pl (ucast (drop_bit 32 v AND 0xffffffff)))) (write_le 8 v ea pl)"
    using agree_write [OF agree_WRITE32PL agree_WRITE32PL] by metis
  then show ?thesis using k by (simp add: WRITE64PL_def)
next
  assume k: "ea AND 3 = 1"
  have "bnd (write_le 4 (ucast (drop_bit 24 v AND 0xffffffff) :: u32) (ea + 3) pl) (\<lambda>_. write_le 1 (ucast (drop_bit 56 v AND 0xff) :: u8) (ea + 7) pl) =
      write_le 5 (drop_bit 24 v) (ea + 3) pl"
    unfolding value_masks by (rule write_split2) (auto simp: bit_parts)
  moreover have "bnd (write_le 3 (drop_bit 8 (ucast (push_bit 8 v) :: u32)) ea pl) (\<lambda>_. write_le 5 (drop_bit 24 v) (ea + 3) pl) = write_le 8 v ea pl"
    by (rule write_split2) (auto simp: bit_parts)
  ultimately have "agree (bnd (bnd (physical pl TR_WRITE ea) (\<lambda>a. store (write_dword (a - 1) (ucast (push_bit 8 v)) 0xffffff00)))
        (\<lambda>_. bnd (WRITE32PL (ea + 3) pl (ucast (drop_bit 24 v AND 0xffffffff)))
          (\<lambda>_. WRITE8PL (ea + 7) pl (ucast (drop_bit 56 v AND 0xff))))) (write_le 8 v ea pl)"
    using agree_write [OF agree_write_high [OF k] agree_write [OF agree_WRITE32PL write_byte]] by metis
  then show ?thesis using k by (simp only: WRITE64PL_def if_True simp_thms)
next
  assume k: "ea AND 3 = 2"
  have "bnd (write_le 4 (ucast (drop_bit 16 v AND 0xffffffff) :: u32) (ea + 2) pl) (\<lambda>_. write_le 2 (ucast (drop_bit 48 v AND 0xffff) :: u16) (ea + 6) pl) =
      write_le 6 (drop_bit 16 v) (ea + 2) pl"
    unfolding value_masks by (rule write_split2) (auto simp: bit_parts)
  moreover have "bnd (write_le 2 (ucast (v AND 0xffff) :: u16) ea pl) (\<lambda>_. write_le 6 (drop_bit 16 v) (ea + 2) pl) = write_le 8 v ea pl"
    unfolding value_masks by (rule write_split2) (auto simp: bit_parts)
  ultimately have "agree (bnd (WRITE16PL ea pl (ucast (v AND 0xffff))) (\<lambda>_. bnd (WRITE32PL (ea + 2) pl (ucast (drop_bit 16 v AND 0xffffffff)))
          (\<lambda>_. WRITE16PL (ea + 6) pl (ucast (drop_bit 48 v AND 0xffff))))) (write_le 8 v ea pl)"
    using agree_write [OF agree_WRITE16PL agree_write [OF agree_WRITE32PL agree_WRITE16PL]] by metis
  then show ?thesis using k by (simp add: WRITE64PL_def)
next
  assume k: "ea AND 3 = 3"
  have "bnd (write_le 4 (ucast (drop_bit 8 v AND 0xffffffff) :: u32) (ea + 1) pl) (\<lambda>_. write_le 3 (ucast (drop_bit 40 v AND 0x00ffffff) :: u32) (ea + 5) pl) =
      write_le 7 (drop_bit 8 v) (ea + 1) pl"
    unfolding value_masks by (rule write_split2) (auto simp: bit_parts)
  moreover have "bnd (write_le 1 (ucast (v AND 0xff) :: u8) ea pl) (\<lambda>_. write_le 7 (drop_bit 8 v) (ea + 1) pl) = write_le 8 v ea pl"
    unfolding value_masks by (rule write_split2) (auto simp: bit_parts)
  ultimately have "agree (bnd (WRITE8PL ea pl (ucast (v AND 0xff))) (\<lambda>_. bnd (WRITE32PL (ea + 1) pl (ucast (drop_bit 8 v AND 0xffffffff)))
          (\<lambda>_. bnd (physical pl TR_WRITE (ea + 5)) (\<lambda>a. store (write_dword a (ucast (drop_bit 40 v AND 0x00ffffff)) 0x00ffffff))))) (write_le 8 v ea pl)"
    using agree_write [OF write_byte agree_write [OF agree_WRITE32PL agree_write_low [OF next_word(2) [OF k]]]] by metis
  then show ?thesis using k by (simp add: WRITE64PL_def)
qed

lemma agree_sx_WRITE16PL: "agree (sx_WRITE16PL ea pl v) (write_le 2 v ea pl)"
proof -
  have "bnd (write_le 1 (ucast (v AND 0xff) :: u8) ea pl) (\<lambda>_. write_le 1 (ucast (drop_bit 8 v AND 0xff) :: u8) (ea + 1) pl) = write_le 2 v ea pl"
    unfolding value_masks by (rule write_split2) (auto simp: bit_parts)
  then have "agree (bnd (WRITE8PL ea pl (ucast (v AND 0xff))) (\<lambda>_. WRITE8PL (ea + 1) pl (ucast (drop_bit 8 v AND 0xff)))) (write_le 2 v ea pl)"
    using agree_write [OF write_byte write_byte] by metis
  then show ?thesis using even_cases [of ea] agree_write_word [of ea pl v] unfolding sx_WRITE16PL_def by simp
qed

lemma agree_sx_WRITE32PL: "agree (sx_WRITE32PL ea pl v) (write_le 4 v ea pl)"
proof -
  have "bnd (write_le 2 (ucast (v AND 0xffff) :: u16) ea pl) (\<lambda>_. write_le 2 (ucast (drop_bit 16 v AND 0xffff) :: u16) (ea + 2) pl) = write_le 4 v ea pl"
    unfolding value_masks by (rule write_split2) (auto simp: bit_parts)
  then have "agree (bnd (sx_WRITE16PL ea pl (ucast (v AND 0xffff))) (\<lambda>_. sx_WRITE16PL (ea + 2) pl (ucast (drop_bit 16 v AND 0xffff)))) (write_le 4 v ea pl)"
    using agree_write [OF agree_sx_WRITE16PL agree_sx_WRITE16PL] by metis
  moreover have "bnd (write_le 2 (ucast (drop_bit 8 v AND 0xffff) :: u16) (ea + 1) pl) (\<lambda>_. write_le 1 (ucast (drop_bit 24 v AND 0xff) :: u8) (ea + 3) pl) =
      write_le 3 (drop_bit 8 v) (ea + 1) pl"
    unfolding value_masks by (rule write_split2) (auto simp: bit_parts)
  moreover have "bnd (write_le 1 (ucast (v AND 0xff) :: u8) ea pl) (\<lambda>_. write_le 3 (drop_bit 8 v) (ea + 1) pl) = write_le 4 v ea pl"
    unfolding value_masks by (rule write_split2) (auto simp: bit_parts)
  ultimately have "agree (bnd (sx_WRITE16PL ea pl (ucast (v AND 0xffff))) (\<lambda>_. sx_WRITE16PL (ea + 2) pl (ucast (drop_bit 16 v AND 0xffff)))) (write_le 4 v ea pl) \<and>
    agree (bnd (WRITE8PL ea pl (ucast (v AND 0xff))) (\<lambda>_. bnd (sx_WRITE16PL (ea + 1) pl (ucast (drop_bit 8 v AND 0xffff)))
        (\<lambda>_. WRITE8PL (ea + 3) pl (ucast (drop_bit 24 v AND 0xff))))) (write_le 4 v ea pl)"
    using agree_write [OF write_byte agree_write [OF agree_sx_WRITE16PL write_byte]] by metis
  then show ?thesis unfolding sx_WRITE32PL_def by simp
qed

lemma agree_sx_WRITE64PL: "agree (sx_WRITE64PL ea pl v) (write_le 8 v ea pl)"
proof -
  have w: "bnd (write_le 2 (ucast (drop_bit i v AND 0xffff) :: u16) e pl) (\<lambda>_. write_le n (drop_bit (i + 16) v) (e + 2) pl) = write_le (2 + n) (drop_bit i v) e pl" for i e n
    unfolding value_masks by (rule write_split2) (auto simp: bit_parts add_ac)
  have l2: "write_le 2 (ucast (drop_bit i v AND 0xffff) :: u16) e pl = write_le 2 (drop_bit i v) e pl" for i e
    unfolding value_masks by (rule write_le_eqI) (simp add: bit_parts)
  have l1: "write_le 1 (ucast (drop_bit i v AND 0xff) :: u8) e pl = write_le 1 (drop_bit i v) e pl" for i e
    unfolding value_masks by (rule write_le_eqI) (simp add: bit_parts)
  have f: "bnd (write_le 1 (ucast (v AND 0xff) :: u8) ea pl) (\<lambda>_. write_le 7 (drop_bit 8 v) (ea + 1) pl) = write_le 8 v ea pl"
    unfolding value_masks by (rule write_split2) (auto simp: bit_parts)
  have g: "bnd (write_le 2 (ucast (v AND 0xffff) :: u16) ea pl) (\<lambda>_. write_le 6 (drop_bit 16 v) (ea + 2) pl) = write_le 8 v ea pl"
    unfolding value_masks by (rule write_split2) (auto simp: bit_parts)
  have "agree (bnd (sx_WRITE16PL ea pl (ucast (v AND 0xffff))) (\<lambda>_. bnd (sx_WRITE16PL (ea + 2) pl (ucast (drop_bit 16 v AND 0xffff)))
      (\<lambda>_. bnd (sx_WRITE16PL (ea + 4) pl (ucast (drop_bit 32 v AND 0xffff))) (\<lambda>_. sx_WRITE16PL (ea + 6) pl (ucast (drop_bit 48 v AND 0xffff))))))
      (write_le 8 v ea pl)"
    using agree_write [OF agree_sx_WRITE16PL agree_write [OF agree_sx_WRITE16PL agree_write [OF agree_sx_WRITE16PL agree_sx_WRITE16PL]],
        of ea pl "ucast (v AND 0xffff)" "ea + 2" pl "ucast (drop_bit 16 v AND 0xffff)" "ea + 4" pl "ucast (drop_bit 32 v AND 0xffff)" "ea + 6" pl
          "ucast (drop_bit 48 v AND 0xffff)"] w [of 32 "ea + 4" 2] w [of 16 "ea + 2" 4] g l2 [of 48 "ea + 6"] by (simp add: add.assoc)
  moreover have "agree (bnd (WRITE8PL ea pl (ucast (v AND 0xff))) (\<lambda>_. bnd (sx_WRITE16PL (ea + 1) pl (ucast (drop_bit 8 v AND 0xffff)))
      (\<lambda>_. bnd (sx_WRITE16PL (ea + 3) pl (ucast (drop_bit 24 v AND 0xffff))) (\<lambda>_. bnd (sx_WRITE16PL (ea + 5) pl (ucast (drop_bit 40 v AND 0xffff)))
        (\<lambda>_. WRITE8PL (ea + 7) pl (ucast (drop_bit 56 v AND 0xff))))))) (write_le 8 v ea pl)"
    using agree_write [OF write_byte agree_write [OF agree_sx_WRITE16PL agree_write [OF agree_sx_WRITE16PL agree_write [OF agree_sx_WRITE16PL write_byte]]],
        of ea pl "ucast (v AND 0xff)" "ea + 1" pl "ucast (drop_bit 8 v AND 0xffff)" "ea + 3" pl "ucast (drop_bit 24 v AND 0xffff)" "ea + 5" pl
          "ucast (drop_bit 40 v AND 0xffff)" "ea + 7" pl "ucast (drop_bit 56 v AND 0xff)"]
      w [of 40 "ea + 5" 1] w [of 24 "ea + 3" 3] w [of 8 "ea + 1" 5] f l1 [of 56 "ea + 7"] by (simp add: add.assoc)
  ultimately show ?thesis unfolding sx_WRITE64PL_def by simp
qed

subsection \<open>Reset and the A20 gate\<close>

definition null_sreg :: sreg where
  "null_sreg = \<lparr>s_selector = 0, s_flags = 0, s_base = 0, s_limit = 0, s_d = False, s_valid = False\<rparr>"

definition null_desc :: seg_desc where
  "null_desc = \<lparr>d_segment = 0, d_flags = 0, d_base = 0, d_limit = 0\<rparr>"

definition zero_state :: "cpu \<Rightarrow> cpu" where
  "zero_state s = s\<lparr>c_reg := (\<lambda>_. 0), c_sreg := (\<lambda>_. null_sreg), c_eip := 0, c_pc := 0, c_prev_eip := 0, c_flags := no_flags,
     c_TF := False, c_IF := False, c_DF := False, c_NT := False, c_RF := False, c_AC := False, c_VIF := False, c_VIP := False, c_ID := False,
     c_eflags := 0, c_eflags_mask := 0, c_cr0 := 0, c_cr2 := 0, c_cr3 := 0, c_cr4 := 0, c_CPL := 0,
     c_IOP1 := False, c_IOP2 := False, c_VM := False, c_operand_size := False, c_cpu_version := 0, c_gdtr_base := 0, c_gdtr_limit := 0,
     c_idtr_base := 0, c_idtr_limit := 0, c_ldtr := null_desc, c_task := null_desc, c_a20_mask := 0, c_ext := 0, c_opcode := 0,
     c_dr6 := 0, c_dr7 := 0, c_performed_intersegment_jump := False\<rparr>"

definition reset_sreg :: "sreg_name \<Rightarrow> sreg" where
  "reset_sreg r = (if r = CS
     then \<lparr>s_selector = 0xf000, s_flags = 0x93, s_base = 0xffff0000, s_limit = 0xffff, s_d = False, s_valid = True\<rparr>
     else \<lparr>s_selector = 0, s_flags = 0x93, s_base = 0, s_limit = 0xffff, s_d = False, s_valid = True\<rparr>)"

definition i386_reset :: "cpu \<Rightarrow> cpu" where
  "i386_reset s = (zero_state s)\<lparr>c_sreg := reset_sreg, c_idtr_limit := 0x3ff, c_a20_mask := 0xffffffff, c_cr0 := 0x7fffffe0,
     c_eflags_mask := 0x00037fd7, c_eip := 0xfff0, c_reg := (\<lambda>_. 0)(2 := 0x308), c_cpu_version := 0x308,
     c_auto_clear_RF := True, c_pc := 0xffff0000 + 0xfff0\<rparr>"

definition i386_set_a20_line :: "bool \<Rightarrow> cpu \<Rightarrow> cpu" where
  "i386_set_a20_line state s = s\<lparr>c_a20_mask := (if state then 0xffffffff else 0xffefffff), c_vtlb := vtlb_flush_dynamic (c_vtlb s)\<rparr>"

lemma mmu_ok_a20: "0 < v_dynamic (c_vtlb s) \<Longrightarrow> v_pageshift (c_vtlb s) = 12 \<Longrightarrow> mmu_ok (i386_set_a20_line state s)"
  by (simp add: mmu_ok_def i386_set_a20_line_def)

lemma mmu_ok_reset: "0 < v_dynamic (c_vtlb s) \<Longrightarrow> v_pageshift (c_vtlb s) = 12 \<Longrightarrow> mmu_ok (i386_reset s)"
  by (simp add: mmu_ok_def i386_reset_def zero_state_def)

subsection \<open>Accesses of any width are made of bytes\<close>

lemma agreeD: "agree f g \<Longrightarrow> mmu_ok s \<Longrightarrow> f s = g s"
  by (simp add: agree_def)

text \<open>C38: at every address, aligned or across pages, the accesses of 16, 32 and 64 bits of the 386 and of the 386SX are the
  accesses to the bytes in little-endian order: the same values, the same memory, and the same faults at the same
  point, with the same error code, CR2, accessed and dirty bits and look-aside buffer.\<close>

theorem accesses_are_bytewise:
  assumes "0 < v_dynamic (c_vtlb s)" "v_pageshift (c_vtlb s) = 12" "c_a20_mask s AND 3 = 3"
  shows "READ16PL ea pl s = read_le 2 ea pl s \<and> READ32PL ea pl s = read_le 4 ea pl s \<and> READ64PL ea pl s = read_le 8 ea pl s \<and>
    sx_READ16PL ea pl s = READ16PL ea pl s \<and> sx_READ32PL ea pl s = READ32PL ea pl s \<and> sx_READ64PL ea pl s = READ64PL ea pl s \<and>
    WRITE16PL ea pl v16 s = write_le 2 v16 ea pl s \<and> WRITE32PL ea pl v32 s = write_le 4 v32 ea pl s \<and>
    WRITE64PL ea pl v64 s = write_le 8 v64 ea pl s \<and> sx_WRITE16PL ea pl v16 s = WRITE16PL ea pl v16 s \<and>
    sx_WRITE32PL ea pl v32 s = WRITE32PL ea pl v32 s \<and> sx_WRITE64PL ea pl v64 s = WRITE64PL ea pl v64 s"
proof -
  have ok: "mmu_ok s" using assms by (simp add: mmu_ok_def)
  note a = agreeD [OF _ ok]
  show ?thesis
    by (simp only: a [OF agree_READ16PL] a [OF agree_READ32PL] a [OF agree_READ64PL] a [OF agree_sx_READ16PL] a [OF agree_sx_READ32PL]
        a [OF agree_sx_READ64PL] a [OF agree_WRITE16PL] a [OF agree_WRITE32PL] a [OF agree_WRITE64PL] a [OF agree_sx_WRITE16PL]
        a [OF agree_sx_WRITE32PL] a [OF agree_sx_WRITE64PL])
qed

text \<open>A processor after reset, with a byte of memory at every address.\<close>

definition reset_cpu :: cpu where
  "reset_cpu = \<lparr>c_reg = (\<lambda>_. 0)(2 := 0x308), c_sreg = reset_sreg, c_eip = 0xfff0, c_pc = 0xfffffff0, c_prev_eip = 0, c_flags = no_flags,
     c_TF = False, c_IF = False, c_DF = False, c_NT = False, c_RF = False, c_AC = False, c_VIF = False, c_VIP = False, c_ID = False,
     c_eflags = 0, c_eflags_mask = 0x00037fd7, c_cr0 = 0x7fffffe0, c_cr2 = 0, c_cr3 = 0, c_cr4 = 0,
     c_CPL = 0, c_IOP1 = False, c_IOP2 = False, c_VM = False, c_operand_size = False, c_cpu_version = 0x308, c_gdtr_base = 0, c_gdtr_limit = 0,
     c_idtr_base = 0, c_idtr_limit = 0x3ff, c_ldtr = null_desc, c_task = null_desc, c_a20_mask = 0xffffffff, c_ext = 0, c_opcode = 0,
     c_dr6 = 0, c_dr7 = 0, c_auto_clear_RF = True, c_reset_pulse = False, c_performed_intersegment_jump = False,
     c_vtlb = vtlb_pre_start 32 0 12, c_mem = (\<lambda>a. ucast a)\<rparr>"

lemma reset_cpu: "i386_reset reset_cpu = reset_cpu"
  by (simp add: reset_cpu_def i386_reset_def zero_state_def)

lemma accesses_are_bytewise_witness:
  "READ32PL 0x1003 3 reset_cpu = read_le 4 0x1003 3 reset_cpu \<and> sx_WRITE64PL 0xffd 0 0x1122334455667788 reset_cpu = WRITE64PL 0xffd 0 0x1122334455667788 reset_cpu \<and>
     fst (READ32PL 0x1003 3 reset_cpu) = Inr 0x06050403"
proof -
  have h: "0 < v_dynamic (c_vtlb reset_cpu)" "v_pageshift (c_vtlb reset_cpu) = 12" "c_a20_mask reset_cpu AND 3 = 3"
    by (simp_all add: reset_cpu_def vtlb_pre_start_def)
  have "fst (READ32PL 0x1003 3 reset_cpu) = Inr 0x06050403" by code_simp
  then show ?thesis using accesses_are_bytewise [OF h, of "0x1003" 3 0 0 0] accesses_are_bytewise [OF h, of "0xffd" 0 0 0 "0x1122334455667788"] by simp
qed

end
