(* ===== verification/I386_Paging.thy ===== *)
theory I386_Paging
  imports I386_Memory
begin

text \<open>
  The look-aside buffer of the i386 against the page tables: a specification of the page walk, the states in which the
  buffer repeats what the tables say, and the proof that an access through the buffer has the outcome of a walk. The
  instructions that load the control registers end the theory.
\<close>

unbundle bit_operations_syntax

subsection \<open>The page walk\<close>

text \<open>What the page tables say of an address: the entry that maps it and the physical address.\<close>

definition page_lookup :: "cpu \<Rightarrow> u32 \<Rightarrow> (u32 \<times> u32) option" where
  "page_lookup s a =
     (let page_dir = read_dword (c_mem s) ((c_cr3 s AND 0xfffff000) + (drop_bit 22 a AND 0x3ff) * 4)
      in if \<not> bit page_dir 0 then None
         else if bit page_dir 7 \<and> bit (c_cr4 s) 4 then Some (page_dir, (page_dir AND 0xffc00000) OR (a AND 0x003fffff))
         else let page_entry = read_dword (c_mem s) ((page_dir AND 0xfffff000) + (drop_bit 12 a AND 0x3ff) * 4)
              in if \<not> bit page_entry 0 then None else Some (page_entry, (page_entry AND 0xfffff000) OR (a AND 0xfff)))"

text \<open>Bit 2 of an entry is user, bit 1 writable; a supervisor may write anywhere unless CR0.WP is set.\<close>

definition allowed :: "bool \<Rightarrow> bool \<Rightarrow> bool \<Rightarrow> u32 \<Rightarrow> bool" where
  "allowed wp user write e \<longleftrightarrow> (user \<longrightarrow> bit e 2) \<and> (write \<longrightarrow> bit e 1 \<or> \<not> user \<and> \<not> wp)"

definition page_outcome :: "u8 \<Rightarrow> u32 \<Rightarrow> u32 \<Rightarrow> cpu \<Rightarrow> u32 + u32" where
  "page_outcome pl t a s =
     (let error = (if t = TR_WRITE then 2 else 0) OR (if c_CPL s = 3 then 4 else 0)
      in case page_lookup s a of
           None \<Rightarrow> Inl error
         | Some (e, p) \<Rightarrow> if allowed (bit (c_cr0 s) 16) (pl = 3) (t = TR_WRITE) e then Inr p else Inl (error OR 1))"

text \<open>Memories that differ in accessed and dirty bits, which have only been set.\<close>

definition marked :: "(u32 \<Rightarrow> u8) \<Rightarrow> (u32 \<Rightarrow> u8) \<Rightarrow> bool" where
  "marked m m' \<longleftrightarrow> (\<forall>a n. (bit (read_dword m a) n \<longrightarrow> bit (read_dword m' a) n) \<and>
     (n \<noteq> 5 \<and> n \<noteq> 6 \<longrightarrow> bit (read_dword m' a) n = bit (read_dword m a) n))"

lemma marked_refl [simp]: "marked m m" by (simp add: marked_def)

lemma markedD: "marked m m' \<Longrightarrow> n \<noteq> 5 \<Longrightarrow> n \<noteq> 6 \<Longrightarrow> bit (read_dword m' a) n = bit (read_dword m a) n"
  "marked m m' \<Longrightarrow> bit (read_dword m a) n \<Longrightarrow> bit (read_dword m' a) n"
  by (simp_all add: marked_def)

lemma marked_trans: "marked m m' \<Longrightarrow> marked m' m'' \<Longrightarrow> marked m m''"
  by (simp add: marked_def)

lemma lane_eq_iff: "k < 4 \<Longrightarrow> lane a k = lane b k \<longleftrightarrow> a AND NOT 3 = b AND NOT 3"
  by (simp add: lane_plus)

lemma lane_upd: "i < 4 \<Longrightarrow> j < 4 \<Longrightarrow> (lane b j = lane a i) = (j = i \<and> b AND NOT 3 = a AND NOT 3)"
  using lane_distinct [of j i b a] lane_eq_iff [of j b a] by blast

lemma write_dword_lane: "j < 4 \<Longrightarrow> write_dword a v 0xffffffff m (lane b j) = (if b AND NOT 3 = a AND NOT 3 then byte32 j v else m (lane b j))"
proof -
  assume j: "j < 4"
  have "write_dword a v 0xffffffff m = m(lane a 0 := byte32 0 v, lane a (Suc 0) := byte32 (Suc 0) v, lane a 2 := byte32 2 v, lane a 3 := byte32 3 v)"
    unfolding write_lanes ..
  then show ?thesis using less_4_cases [OF j] by (auto simp: lane_upd)
qed

lemma read_write_dword:
  "bit (read_dword (write_dword a v 0xffffffff m) b) n = (if b AND NOT 3 = a AND NOT 3 then bit v n else bit (read_dword m b) n)"
proof (cases "n < 32")
  case True
  then have k: "n div 8 < 4" by simp
  have e: "8 * (n div 8) + n mod 8 = n" by simp
  show ?thesis using True unfolding bit_read_dword write_dword_lane [OF k] by (simp add: bit_byte32 e)
next
  case False
  then have "\<not> bit v n" using bit_imp_le_length [of v n] by auto
  then show ?thesis using False by (simp add: bit_read_dword)
qed

lemma read_dword_same: "a AND NOT 3 = b AND NOT 3 \<Longrightarrow> read_dword m a = read_dword m b"
proof (rule bit_word_eqI)
  fix n assume e: "a AND NOT 3 = b AND NOT 3" and n: "n < LENGTH(32)"
  then have "lane a (n div 8) = lane b (n div 8)" using lane_eq_iff [of "n div 8" a b] by simp
  then show "bit (read_dword m a) n = bit (read_dword m b) n" by (simp add: bit_read_dword)
qed

lemma bit_marks: "bit (v OR 0x20) n = (bit v n \<or> n = 5)" "bit (v OR 0x60) n = (bit v n \<or> n = 5 \<or> n = 6)" for v :: u32
proof -
  have "(0x60 :: u32) = 0x20 OR 0x40" by simp
  moreover have "bit (0x20 :: u32) n = (n = 5)" "bit (0x40 :: u32) n = (n = 6)"
    using bit_exp_iff [of 5 n, where 'a = "32 word"] bit_exp_iff [of 6 n, where 'a = "32 word"] by auto
  ultimately show "bit (v OR 0x20) n = (bit v n \<or> n = 5)" "bit (v OR 0x60) n = (bit v n \<or> n = 5 \<or> n = 6)"
    by (simp_all only: bit_or_iff)
qed

lemma marked_write:
  assumes m: "\<And>b n. bit (read_dword m b) n \<Longrightarrow> bit (read_dword m0 b) n \<or> n = 5" and m0: "marked m0 m" and x: "x = 0x20 \<or> x = 0x60"
  shows "marked m (write_dword a (read_dword m0 a OR x) 0xffffffff m)"
  unfolding marked_def read_write_dword
proof (intro allI conjI impI)
  fix b n
  have x5: "bit (read_dword m0 a OR x) n = (bit (read_dword m0 a) n \<or> n = 5 \<or> x = 0x60 \<and> n = 6)" using x by (elim disjE) (simp_all add: bit_marks)
  show "bit (read_dword m b) n \<Longrightarrow> if b AND NOT 3 = a AND NOT 3 then bit (read_dword m0 a OR x) n else bit (read_dword m b) n"
    using m [of a n] read_dword_same [of b a m] unfolding x5 by (cases "b AND NOT 3 = a AND NOT 3") auto
  assume n: "n \<noteq> 5 \<and> n \<noteq> 6"
  then show "(if b AND NOT 3 = a AND NOT 3 then bit (read_dword m0 a OR x) n else bit (read_dword m b) n) = bit (read_dword m b) n"
    using markedD(1) [OF m0, of n a] read_dword_same [of b a m] unfolding x5 by auto
qed

text \<open>Setting accessed and dirty bits changes no translation.\<close>

lemma marked_lookup:
  assumes "marked (c_mem s) m"
  shows "page_lookup s a = None \<Longrightarrow> page_lookup (with_mem s m) a = None"
    "page_lookup s a = Some (e, p) \<Longrightarrow> \<exists>e'. page_lookup (with_mem s m) a = Some (e', p) \<and> (\<forall>n. n \<noteq> 5 \<and> n \<noteq> 6 \<longrightarrow> bit e' n = bit e n) \<and>
       (\<forall>n. bit e n \<longrightarrow> bit e' n)"
proof -
  note b = markedD(1) [OF assms]
  have f: "read_dword m q AND 0xfffff000 = read_dword (c_mem s) q AND 0xfffff000" "read_dword m q AND 0xffc00000 = read_dword (c_mem s) q AND 0xffc00000" for q
    by (rule bit_word_eqI, unfold bit_frame, use b in force)+
  have l: "bit (read_dword m q) 0 = bit (read_dword (c_mem s) q) 0" "bit (read_dword m q) 7 = bit (read_dword (c_mem s) q) 7" for q
    by (simp_all add: b)
  show "page_lookup s a = None \<Longrightarrow> page_lookup (with_mem s m) a = None"
    by (simp add: page_lookup_def Let_def f l split: if_splits)
  assume "page_lookup s a = Some (e, p)"
  then obtain q where q: "e = read_dword (c_mem s) q" "page_lookup (with_mem s m) a = Some (read_dword m q, p)"
    unfolding page_lookup_def Let_def with_mem_fields f l by (simp split: if_splits; blast)
  then show "\<exists>e'. page_lookup (with_mem s m) a = Some (e', p) \<and> (\<forall>n. n \<noteq> 5 \<and> n \<noteq> 6 \<longrightarrow> bit e' n = bit e n) \<and> (\<forall>n. bit e n \<longrightarrow> bit e' n)"
    using b markedD(2) [OF assms] by blast
qed

lemma denied_allowed: "denied (get_permissions e wp) write user = (\<not> allowed wp user write e)"
  unfolding denied_def tst_bits bit_permissions allowed_def by auto

lemma allowed_cong: "bit e' 1 = bit e 1 \<Longrightarrow> bit e' 2 = bit e 2 \<Longrightarrow> allowed wp user write e' = allowed wp user write e"
  by (simp add: allowed_def)

lemma outcome_marked: "marked (c_mem s) m \<Longrightarrow> page_outcome pl t a (with_mem s m) = page_outcome pl t a s"
proof (cases "page_lookup s a")
  case None
  assume "marked (c_mem s) m"
  then show ?thesis using marked_lookup(1) [OF _ None] None by (simp add: page_outcome_def)
next
  case (Some ep)
  assume m: "marked (c_mem s) m"
  obtain e p where ep: "page_lookup s a = Some (e, p)" using Some by (cases ep) simp
  from marked_lookup(2) [OF m ep] obtain e' where e: "page_lookup (with_mem s m) a = Some (e', p)" and n: "\<forall>n. n \<noteq> 5 \<and> n \<noteq> 6 \<longrightarrow> bit e' n = bit e n"
    by blast
  have "bit e' 1 = bit e 1" "bit e' 2 = bit e 2" using n by simp_all
  note c = allowed_cong [OF this]
  show ?thesis using ep e unfolding page_outcome_def Let_def by (simp add: c)
qed

text \<open>The walk of the code by the specification.\<close>

lemma tst_wp: "(x AND 0x10000 = 0) = (\<not> bit x 16)" for x :: u32
  using tst_exp [of x 16] by simp

lemma walk_none:
  "tst (c_cr0 s) CR0_PG \<Longrightarrow> page_lookup s a = None \<Longrightarrow> i386_translate_address type False a s = ((False, a, Some 0), s)"
  unfolding page_lookup_def i386_translate_address_def Let_def tst_bits by (auto split: if_splits)

lemma walk_denied:
  "tst (c_cr0 s) CR0_PG \<Longrightarrow> page_lookup s a = Some (e, p) \<Longrightarrow> \<not> allowed (bit (c_cr0 s) 16) (tst type TR_USER) (tst type TR_WRITE) e \<Longrightarrow>
    i386_translate_address type False a s = ((False, a, Some (get_permissions e (bit (c_cr0 s) 16))), s)"
  unfolding page_lookup_def i386_translate_address_def Let_def denied_allowed tst_wp unfolding tst_bits by (auto split: if_splits)

text \<open>The writes of the walk, by the locations of the directory entry and of the table entry.\<close>

definition mark :: "u32 \<Rightarrow> (u32 \<Rightarrow> u8) \<Rightarrow> bool \<Rightarrow> (u32 \<Rightarrow> u8) \<Rightarrow> u32 \<Rightarrow> u8" where
  "mark q m0 write m = (if \<not> bit (read_dword m0 q) 6 \<and> write then write_dword q (read_dword m0 q OR 0x60) 0xffffffff m
     else if \<not> bit (read_dword m0 q) 5 then write_dword q (read_dword m0 q OR 0x20) 0xffffffff m else m)"

lemma marked_mark:
  assumes m: "\<And>b n. bit (read_dword m b) n \<Longrightarrow> bit (read_dword m0 b) n \<or> n = 5" and m0: "marked m0 m"
  shows "marked m (mark q m0 write m)"
  unfolding mark_def using marked_write [OF m m0] by simp

lemma mark_bits: "marked m0 m \<Longrightarrow> bit (read_dword (mark q m0 write m) q) 5 \<and> (write \<longrightarrow> bit (read_dword (mark q m0 write m) q) 6)"
  using markedD(2) [of m0 m q 5] markedD(2) [of m0 m q 6] by (auto simp: mark_def read_write_dword bit_marks)

lemma mark_accessed: "bit (read_dword (mark q m False m) b) n \<Longrightarrow> bit (read_dword m b) n \<or> n = 5"
  using read_dword_same [of b q m] by (auto simp: mark_def read_write_dword bit_marks split: if_splits)

lemma marked_frame:
  assumes "marked m0 m"
  shows "read_dword m q AND 0xfffff000 = read_dword m0 q AND 0xfffff000" "read_dword m q AND 0xffc00000 = read_dword m0 q AND 0xffc00000"
    "bit (read_dword m q) 0 = bit (read_dword m0 q) 0" "bit (read_dword m q) 7 = bit (read_dword m0 q) 7"
proof -
  note b = markedD(1) [OF assms]
  show "read_dword m q AND 0xfffff000 = read_dword m0 q AND 0xfffff000" "read_dword m q AND 0xffc00000 = read_dword m0 q AND 0xffc00000"
    by (rule bit_word_eqI, unfold bit_frame, use b in force)+
  show "bit (read_dword m q) 0 = bit (read_dword m0 q) 0" "bit (read_dword m q) 7 = bit (read_dword m0 q) 7"
    by (simp_all add: b)
qed

lemma lookup_large:
  "marked (c_mem s) m \<Longrightarrow> d = (c_cr3 s AND 0xfffff000) + (drop_bit 22 a AND 0x3ff) * 4 \<Longrightarrow> bit (read_dword (c_mem s) d) 7 \<and> bit (c_cr4 s) 4 \<Longrightarrow>
    page_lookup s a = Some (e, p) \<Longrightarrow> e = read_dword (c_mem s) d \<and> bit (read_dword (c_mem s) d) 0 \<and> p = (read_dword (c_mem s) d AND 0xffc00000) OR (a AND 0x003fffff) \<and>
      page_lookup (with_mem s m) a = Some (read_dword m d, p)"
  unfolding page_lookup_def Let_def with_mem_fields by (auto simp: marked_frame split: if_splits)

lemma lookup_small:
  "marked (c_mem s) m \<Longrightarrow> d = (c_cr3 s AND 0xfffff000) + (drop_bit 22 a AND 0x3ff) * 4 \<Longrightarrow> \<not> (bit (read_dword (c_mem s) d) 7 \<and> bit (c_cr4 s) 4) \<Longrightarrow>
    r = (read_dword (c_mem s) d AND 0xfffff000) + (drop_bit 12 a AND 0x3ff) * 4 \<Longrightarrow>
    page_lookup s a = Some (e, p) \<Longrightarrow> e = read_dword (c_mem s) r \<and> bit (read_dword (c_mem s) d) 0 \<and> bit (read_dword (c_mem s) r) 0 \<and>
      p = (read_dword (c_mem s) r AND 0xfffff000) OR (a AND 0xfff) \<and> page_lookup (with_mem s m) a = Some (read_dword m r, p)"
  unfolding page_lookup_def Let_def with_mem_fields by (auto simp: marked_frame split: if_splits)

lemma walk_small:
  assumes "tst (c_cr0 s) CR0_PG" and d: "d = (c_cr3 s AND 0xfffff000) + (drop_bit 22 a AND 0x3ff) * 4"
    and r: "r = (read_dword (c_mem s) d AND 0xfffff000) + (drop_bit 12 a AND 0x3ff) * 4"
    and "\<not> (bit (read_dword (c_mem s) d) 7 \<and> bit (c_cr4 s) 4)" "bit (read_dword (c_mem s) d) 0" "bit (read_dword (c_mem s) r) 0"
    "allowed (bit (c_cr0 s) 16) (tst type TR_USER) (tst type TR_WRITE) (read_dword (c_mem s) r)"
  shows "i386_translate_address type False a s =
     ((True, (read_dword (c_mem s) r AND 0xfffff000) OR (a AND 0xfff),
       Some (get_permissions (read_dword (c_mem s) r) (bit (c_cr0 s) 16) OR (if tst type TR_WRITE then FLAG_DIRTY else 0))),
      with_mem s (mark r (c_mem s) (tst type TR_WRITE) (mark d (c_mem s) False (c_mem s))))"
proof -
  have n: "(bit (read_dword (c_mem s) d) 7 \<and> bit (c_cr4 s) 4) = False" using assms(4) by blast
  show ?thesis using assms(1,5-) unfolding i386_translate_address_def Let_def tst_bits tst_wp d [symmetric] r [symmetric] not_not n if_False
  by (cases "bit (read_dword (c_mem s) d) 5") (simp_all add: denied_allowed mark_def poke_with_mem)
qed

lemma walk_marks:
  assumes pg: "tst (c_cr0 s) CR0_PG" and l: "page_lookup s a = Some (e, p)"
    and ok: "allowed (bit (c_cr0 s) 16) (tst type TR_USER) (tst type TR_WRITE) e"
  obtains m q where "i386_translate_address type False a s =
      ((True, p, Some (get_permissions e (bit (c_cr0 s) 16) OR (if tst type TR_WRITE then FLAG_DIRTY else 0))), with_mem s m)"
    "marked (c_mem s) m" "e = read_dword (c_mem s) q" "page_lookup (with_mem s m) a = Some (read_dword m q, p)"
    "bit (read_dword m q) 5" "tst type TR_WRITE \<longrightarrow> bit (read_dword m q) 6"
proof -
  let ?w = "tst type TR_WRITE" and ?m = "c_mem s"
  let ?q = "(c_cr3 s AND 0xfffff000) + (drop_bit 22 a AND 0x3ff) * 4"
  let ?d = "read_dword ?m ?q"
  let ?r = "(?d AND 0xfffff000) + (drop_bit 12 a AND 0x3ff) * 4"
  show thesis
  proof (cases "bit ?d 7 \<and> bit (c_cr4 s) 4")
    case True
    have m: "marked ?m (mark ?q ?m ?w ?m)" by (rule marked_mark) simp_all
    note f = lookup_large [OF m refl True l]
    have "i386_translate_address type False a s =
      ((True, p, Some (get_permissions e (bit (c_cr0 s) 16) OR (if ?w then FLAG_DIRTY else 0))), with_mem s (mark ?q ?m ?w ?m))"
      using f pg ok True unfolding i386_translate_address_def Let_def tst_bits tst_wp by (simp add: denied_allowed mark_def poke_with_mem)
    then show thesis using that m mark_bits [of ?m ?m ?q ?w] f by simp
  next
    case False
    let ?m1 = "mark ?q ?m False ?m"
    let ?m2 = "mark ?r ?m ?w ?m1"
    have m1: "marked ?m ?m1" by (rule marked_mark) simp_all
    have m2: "marked ?m1 ?m2" by (rule marked_mark [OF mark_accessed m1])
    note f = lookup_small [OF marked_trans [OF m1 m2] refl False refl l]
    have "i386_translate_address type False a s =
      ((True, p, Some (get_permissions e (bit (c_cr0 s) 16) OR (if ?w then FLAG_DIRTY else 0))), with_mem s ?m2)"
      using walk_small [OF pg refl refl False, of type] f ok by simp
    then show thesis using that marked_trans [OF m1 m2] mark_bits [OF m1, of ?r ?w] f by blast
  qed
qed

subsection \<open>The buffer against the page tables\<close>

text \<open>Every entry of the buffer repeats what the tables say of its page, and the marks of the page are set.\<close>

definition agrees :: "cpu \<Rightarrow> u32 \<Rightarrow> u32 \<Rightarrow> bool" where
  "agrees s a v \<longleftrightarrow> (\<exists>e p d. page_lookup s a = Some (e, p) \<and> v = entry_of p e (bit (c_cr0 s) 16) d \<and> bit e 5 \<and> (d \<longrightarrow> bit e 6))"

definition coherent :: "cpu \<Rightarrow> bool" where
  "coherent s \<longleftrightarrow> 0 < v_dynamic (c_vtlb s) \<and> v_pageshift (c_vtlb s) = 12 \<and>
     (\<forall>a. v_table (c_vtlb s) (drop_bit 12 a) \<noteq> 0 \<longrightarrow> agrees s a (v_table (c_vtlb s) (drop_bit 12 a)))"

lemma page_parts:
  "((x AND 0xfffff000) OR (a AND 0xfff)) AND 0xfff = a AND 0xfff" "((x AND 0xffc00000) OR (a AND 0x003fffff)) AND 0xfff = a AND 0xfff" for x a :: u32
  by (rule bit_word_eqI, unfold bit_frame bit_or_iff, force)+

lemma lookup_offset: "page_lookup s a = Some (e, p) \<Longrightarrow> p AND 0xfff = a AND 0xfff"
  by (auto simp: page_lookup_def Let_def page_parts split: if_splits)

lemma lookup_same_page:
  assumes e: "drop_bit 12 b = drop_bit 12 a" and l: "page_lookup s a = Some (e, p)"
  shows "page_lookup s b = Some (e, (p AND 0xfffff000) OR (b AND 0xfff))"
proof -
  have s: "12 \<le> n \<Longrightarrow> bit b n = bit a n" for n using same_page [OF e] .
  have d: "drop_bit 22 b = drop_bit 22 a" by (rule bit_word_eqI) (simp add: bit_drop_bit_eq s)
  have "(((x AND 0xfffff000) OR (a AND 0xfff)) AND 0xfffff000) OR (b AND 0xfff) = (x AND 0xfffff000) OR (b AND 0xfff)" for x
    by (rule bit_word_eqI) (auto simp: bit_frame bit_or_iff)
  moreover have "(((x AND 0xffc00000) OR (a AND 0x003fffff)) AND 0xfffff000) OR (b AND 0xfff) = (x AND 0xffc00000) OR (b AND 0x003fffff)" for x
    by (rule bit_word_eqI) (auto simp: bit_frame bit_or_iff s)
  ultimately show ?thesis using l unfolding page_lookup_def Let_def d e by (auto split: if_splits)
qed

lemma entry_of_cong: "bit e' 1 = bit e 1 \<Longrightarrow> bit e' 2 = bit e 2 \<Longrightarrow> p' AND 0xfffff000 = p AND 0xfffff000 \<Longrightarrow> entry_of p' e' wp d = entry_of p e wp d"
proof (rule bit_word_eqI)
  fix n assume "bit e' 1 = bit e 1" "bit e' 2 = bit e 2" and f: "p' AND 0xfffff000 = p AND 0xfffff000"
  moreover have "12 \<le> n \<Longrightarrow> bit p' n = bit p n" using arg_cong [OF f, of "\<lambda>x. bit x n"] unfolding bit_frame by simp
  ultimately show "bit (entry_of p' e' wp d) n = bit (entry_of p e wp d) n" unfolding bit_entry_of by blast
qed

lemma agrees_same_page: "drop_bit 12 b = drop_bit 12 a \<Longrightarrow> agrees s a v \<Longrightarrow> agrees s b v"
proof -
  assume e: "drop_bit 12 b = drop_bit 12 a" and a: "agrees s a v"
  have f: "((p AND 0xfffff000) OR (b AND 0xfff)) AND 0xfffff000 = p AND 0xfffff000" for p
    by (rule bit_word_eqI) (auto simp: bit_frame bit_or_iff)
  obtain x p d where l: "page_lookup s a = Some (x, p)" "v = entry_of p x (bit (c_cr0 s) 16) d" "bit x 5" "d \<longrightarrow> bit x 6"
    using a unfolding agrees_def by blast
  show ?thesis unfolding agrees_def lookup_same_page [OF e l(1)]
    using l(2-) entry_of_cong [OF refl refl f, of p x "bit (c_cr0 s) 16" d]
    by (intro exI [of _ x] exI [of _ "(p AND 0xfffff000) OR (b AND 0xfff)"] exI [of _ d]) simp
qed

lemma agrees_marked: "marked (c_mem s) m \<Longrightarrow> agrees s a v \<Longrightarrow> agrees (with_mem s m) a v"
proof -
  assume m: "marked (c_mem s) m" and a: "agrees s a v"
  obtain x p d where l: "page_lookup s a = Some (x, p)" "v = entry_of p x (bit (c_cr0 s) 16) d" "bit x 5" "d \<longrightarrow> bit x 6"
    using a unfolding agrees_def by blast
  from marked_lookup(2) [OF m l(1)] obtain x' where x: "page_lookup (with_mem s m) a = Some (x', p)"
    "\<forall>n. n \<noteq> 5 \<and> n \<noteq> 6 \<longrightarrow> bit x' n = bit x n" "\<forall>n. bit x n \<longrightarrow> bit x' n" by blast
  have "bit x' 1 = bit x 1" "bit x' 2 = bit x 2" using x(2) by simp_all
  then have "v = entry_of p x' (bit (c_cr0 s) 16) d" using l(2) entry_of_cong by metis
  then show ?thesis unfolding agrees_def x(1) with_mem_fields using l(3,4) x(3) by blast
qed

lemma lookup_vtlb [simp]: "page_lookup (s\<lparr>c_vtlb := t\<rparr>) = page_lookup s" "page_outcome pl ty a (s\<lparr>c_vtlb := t\<rparr>) = page_outcome pl ty a s"
proof -
  show l: "page_lookup (s\<lparr>c_vtlb := t\<rparr>) = page_lookup s" by (rule ext) (simp add: page_lookup_def Let_def)
  show "page_outcome pl ty a (s\<lparr>c_vtlb := t\<rparr>) = page_outcome pl ty a s" 
  proof -
    have "c_CPL (s\<lparr>c_vtlb := t\<rparr>) = c_CPL s" "c_cr0 (s\<lparr>c_vtlb := t\<rparr>) = c_cr0 s" by simp_all
    then show ?thesis by (simp only: page_outcome_def l)
  qed
qed

lemma agrees_vtlb [simp]: "agrees (s\<lparr>c_vtlb := t\<rparr>) a v = agrees s a v"
  by (simp add: agrees_def)

lemma entry_nonzero: "entry_of p e wp d \<noteq> 0"
proof
  assume "entry_of p e wp d = 0"
  then have "\<not> bit (entry_of p e wp d) 3" by simp
  then show False by (simp add: bit_entry_of)
qed

lemma dynload_table:
  "0 < v_dynamic t \<Longrightarrow> v_table (vtlb_dynload i p val t) j = (if j = i then page_base p t OR (FLAG_VALID OR val) else v_table t j) \<or>
    j \<noteq> i \<and> v_table (vtlb_dynload i p val t) j = 0"
  by (auto simp: vtlb_dynload_def Let_def)

lemma dynload_fields: "v_dynamic (vtlb_dynload i p val t) = v_dynamic t" "v_pageshift (vtlb_dynload i p val t) = v_pageshift t"
  by (simp_all add: vtlb_dynload_def Let_def)

text \<open>A hit.\<close>

lemma hit_outcome:
  assumes t: "t \<in> {TR_READ, TR_WRITE, TR_FETCH}" and pg: "tst (c_cr0 s) CR0_PG" and c: "coherent s" and h: "\<not> missed pl t a s"
  obtains e p where "page_lookup s a = Some (e, p)" "bit e 5" "t = TR_WRITE \<longrightarrow> bit e 6" "translate_address pl t a s = (page_outcome pl t a s, s)"
proof -
  let ?v = "v_table (c_vtlb s) (drop_bit 12 a)" and ?t = "access_type pl t" and ?wp = "bit (c_cr0 s) 16"
  note b = access_type_bits [OF t, of pl]
  have v: "bit ?v 3" "t = TR_WRITE \<longrightarrow> bit ?v 8" using h b unfolding missed_def tst_bits by auto
  then have "?v \<noteq> 0" by auto
  then obtain e p d where e: "page_lookup s a = Some (e, p)" "?v = entry_of p e ?wp d" "bit e 5" "d \<longrightarrow> bit e 6"
    using c unfolding coherent_def agrees_def by blast
  have d: "t = TR_WRITE \<longrightarrow> bit e 6" using v(2) e(4) unfolding e(2) bit_entry_of by auto
  have o: "bit ?v (unat ?t) = allowed ?wp (pl = 3) (t = TR_WRITE) e" using b unfolding e(2) bit_entry_of allowed_def by auto
  have p: "(?v AND 0xfffff000) OR (a AND 0xfff) = p" unfolding e(2) entry_frame using join_page lookup_offset [OF e(1)] by blast
  have tt: "tst ?t TR_WRITE = (t = TR_WRITE)" using b by blast
  have "translate_address pl t a s = (page_outcome pl t a s, s)"
  proof (cases "allowed ?wp (pl = 3) (t = TR_WRITE) e")
    case True
    then have "tst ?v (push_bit (unat ?t) 1)" using o sel_bit_iff [of ?v "unat ?t"] by (simp add: sel_bit_def)
    then show ?thesis using translate_hit [OF pg, of a pl t] h True e(1) unfolding missed_def page_outcome_def p by (simp add: Let_def)
  next
    case False
    then have n: "\<not> tst ?v (push_bit (unat ?t) 1)" using o sel_bit_iff [of ?v "unat ?t"] by (simp add: sel_bit_def)
    have "translate_address pl t a s = (Inl (access_error ?t s OR 1), s)"
    proof -
      have "\<not> \<not> tst (c_cr0 s) CR0_PG" using pg by simp
      then show ?thesis unfolding translate_address_def Let_def by (simp only: if_not_P if_not_P [OF h [unfolded missed_def]] if_P [OF n] if_False)
    qed
    then show ?thesis using False e(1) unfolding page_outcome_def access_error_def tt by (simp add: Let_def)
  qed
  then show thesis using that e(1,3) d by blast
qed

text \<open>A miss.\<close>

lemma page_base_frame: "page_base p t AND 0xfffff000 = p AND 0xfffff000" if "v_pageshift t = 12"
  unfolding page_base_12 [OF that] by (rule bit_word_eqI) (auto simp: bit_frame)

lemma coherent_load:
  assumes c: "coherent s" and m: "marked (c_mem s) m" and l: "page_lookup s a = Some (e, p)"
    and l': "page_lookup (with_mem s m) a = Some (e', p)" "bit e' 5" "d \<longrightarrow> bit e' 6" and bits: "bit e' 1 = bit e 1" "bit e' 2 = bit e 2"
    and val: "val = get_permissions e (bit (c_cr0 s) 16) OR (if d then FLAG_DIRTY else 0)"
  shows "coherent ((with_mem s m)\<lparr>c_vtlb := vtlb_dynload (drop_bit 12 a) p val (c_vtlb s)\<rparr>)"
proof -
  let ?t = "vtlb_dynload (drop_bit 12 a) p val (c_vtlb s)" and ?wp = "bit (c_cr0 s) 16"
  have dyn: "0 < v_dynamic (c_vtlb s)" "v_pageshift (c_vtlb s) = 12" using c by (simp_all add: coherent_def)
  have new: "page_base p (c_vtlb s) OR (FLAG_VALID OR val) = entry_of p e' ?wp d"
    unfolding val page_base_12 [OF dyn(2)] entry_of_cong [OF bits refl] by (simp add: entry_of_def)
  have "agrees (with_mem s m) b (v_table ?t (drop_bit 12 b))" if n: "v_table ?t (drop_bit 12 b) \<noteq> 0" for b
  proof (cases "drop_bit 12 b = drop_bit 12 a")
    case True
    then have "v_table ?t (drop_bit 12 b) = entry_of p e' ?wp d" using dynload_table [OF dyn(1), of "drop_bit 12 a" p val "drop_bit 12 b"] new by simp
    moreover have "agrees (with_mem s m) a (entry_of p e' ?wp d)" unfolding agrees_def l'(1) using l'(2,3) by auto
    ultimately show ?thesis using agrees_same_page [OF True] by simp
  next
    case False
    then have o: "v_table ?t (drop_bit 12 b) = v_table (c_vtlb s) (drop_bit 12 b)"
      using dynload_table [OF dyn(1), of "drop_bit 12 a" p val "drop_bit 12 b"] n by auto
    then have "agrees s b (v_table ?t (drop_bit 12 b))" using c n unfolding coherent_def by simp
    then show ?thesis by (rule agrees_marked [OF m])
  qed
  then show ?thesis using dyn by (simp add: coherent_def dynload_fields)
qed

lemma miss_outcome:
  assumes t: "t \<in> {TR_READ, TR_WRITE, TR_FETCH}" and pg: "tst (c_cr0 s) CR0_PG" and c: "coherent s" and h: "missed pl t a s"
  shows "fst (translate_address pl t a s) = page_outcome pl t a s \<and> coherent (snd (translate_address pl t a s)) \<and>
    (\<exists>m v. marked (c_mem s) m \<and> snd (translate_address pl t a s) = (with_mem s m)\<lparr>c_vtlb := v\<rparr>) \<and>
    (\<forall>p. page_outcome pl t a s = Inr p \<longrightarrow>
      (\<exists>e. page_lookup (snd (translate_address pl t a s)) a = Some (e, p) \<and> bit e 5 \<and> (t = TR_WRITE \<longrightarrow> bit e 6)))"
proof -
  let ?t = "access_type pl t" and ?wp = "bit (c_cr0 s) 16"
  note b = access_type_bits [OF t, of pl]
  have tt: "tst ?t TR_WRITE = (t = TR_WRITE)" "tst ?t TR_USER = (pl = 3)" using b by blast+
  have self: "\<exists>m v. marked (c_mem s) m \<and> s = (with_mem s m)\<lparr>c_vtlb := v\<rparr>"
    by (intro exI [of _ "c_mem s"] exI [of _ "c_vtlb s"]) simp
  have w: "translate_address pl t a s = (case i386_translate_address ?t False a s of ((ok, a1, e), s1) \<Rightarrow>
      (let stored = (case e of None \<Rightarrow> v_table (c_vtlb s) (drop_bit 12 a) | Some e \<Rightarrow> e)
       in if ok then (Inr a1, s1\<lparr>c_vtlb := vtlb_dynload (drop_bit 12 a) a1 stored (c_vtlb s1)\<rparr>)
          else (Inl (if stored \<noteq> 0 then access_error ?t s OR 1 else access_error ?t s), s1)))"
  proof -
    have "\<not> \<not> tst (c_cr0 s) CR0_PG" using pg by simp
    then show ?thesis unfolding translate_address_def Let_def by (simp only: if_not_P if_P [OF h [unfolded missed_def]] if_False)
  qed
  show ?thesis
  proof (cases "page_lookup s a")
    case None
    then have "translate_address pl t a s = (page_outcome pl t a s, s)"
      unfolding w walk_none [OF pg None] by (simp add: page_outcome_def access_error_def tt)
    then show ?thesis using c self None by (simp add: page_outcome_def Let_def)
  next
    case (Some ep)
    obtain e p where l: "page_lookup s a = Some (e, p)" using Some by (cases ep) simp
    show ?thesis
    proof (cases "allowed ?wp (pl = 3) (t = TR_WRITE) e")
      case False
      then have d: "\<not> allowed ?wp (tst ?t TR_USER) (tst ?t TR_WRITE) e" unfolding tt .
      have "bit (get_permissions e ?wp) 0" by (simp add: bit_permissions)
      then have "get_permissions e ?wp \<noteq> 0" by auto
      then have "translate_address pl t a s = (page_outcome pl t a s, s)"
        unfolding w walk_denied [OF pg l d] using l False by (simp add: page_outcome_def access_error_def tt Let_def)
      then show ?thesis using c self l False by (simp add: page_outcome_def Let_def)
    next
      case True
      then have d: "allowed ?wp (tst ?t TR_USER) (tst ?t TR_WRITE) e" unfolding tt .
      obtain m q where m: "i386_translate_address ?t False a s = ((True, p, Some (get_permissions e ?wp OR (if tst ?t TR_WRITE then FLAG_DIRTY else 0))), with_mem s m)"
        "marked (c_mem s) m" "e = read_dword (c_mem s) q" "page_lookup (with_mem s m) a = Some (read_dword m q, p)"
        "bit (read_dword m q) 5" "tst ?t TR_WRITE \<longrightarrow> bit (read_dword m q) 6" by (rule walk_marks [OF pg l d])
      let ?s = "(with_mem s m)\<lparr>c_vtlb := vtlb_dynload (drop_bit 12 a) p (get_permissions e ?wp OR (if t = TR_WRITE then FLAG_DIRTY else 0)) (c_vtlb s)\<rparr>"
      have o: "page_outcome pl t a s = Inr p" using l True by (simp add: page_outcome_def)
      have r: "translate_address pl t a s = (Inr p, ?s)" unfolding w m(1) tt by (simp add: Let_def)
      have "bit (read_dword m q) 1 = bit e 1" "bit (read_dword m q) 2 = bit e 2" using markedD(1) [OF m(2)] m(3) by simp_all
      then have "coherent ?s" using m(6) unfolding tt by (intro coherent_load [OF c m(2) l m(4,5)]) simp_all
      then show ?thesis using r o m(2,4,5,6) unfolding tt by auto
    qed
  qed
qed

text \<open>C37: with paging enabled, as long as the look-aside buffer repeats the page tables, translating an address through it has
  the outcome the tables prescribe: the physical address for an access that the entry allows, and otherwise the error code of a missing
  or a forbidden page. The buffer still repeats the tables afterwards, no translation of any address has changed, and
  the accessed bit of the page, and the dirty bit after a write, are set.\<close>

theorem translation_is_the_page_walk:
  assumes "coherent s" "bit (c_cr0 s) 31" "t \<in> {TR_READ, TR_WRITE, TR_FETCH}" "translate_address pl t a s = (r, s')"
  shows "r = page_outcome pl t a s \<and> coherent s' \<and> (\<forall>pl' t' b. page_outcome pl' t' b s' = page_outcome pl' t' b s) \<and>
    (\<forall>p. r = Inr p \<longrightarrow> (\<exists>e. page_lookup s' a = Some (e, p) \<and> bit e 5 \<and> (t = TR_WRITE \<longrightarrow> bit e 6)))"
proof (cases "missed pl t a s")
  case True
  have pg: "tst (c_cr0 s) CR0_PG" using assms(2) tst_exp [of "c_cr0 s" 31] by simp
  note m = miss_outcome [OF assms(3) pg assms(1) True, unfolded assms(4) fst_conv snd_conv]
  then obtain k v where "marked (c_mem s) k" "s' = (with_mem s k)\<lparr>c_vtlb := v\<rparr>" by blast
  then have "\<forall>pl' t' b. page_outcome pl' t' b s' = page_outcome pl' t' b s" by (simp add: outcome_marked)
  then show ?thesis using m by simp
next
  case False
  have pg: "tst (c_cr0 s) CR0_PG" using assms(2) tst_exp [of "c_cr0 s" 31] by simp
  obtain e p where "page_lookup s a = Some (e, p)" "bit e 5" "t = TR_WRITE \<longrightarrow> bit e 6" "translate_address pl t a s = (page_outcome pl t a s, s)"
    by (rule hit_outcome [OF assms(3) pg assms(1) False])
  then show ?thesis using assms(1,4) by (auto simp: page_outcome_def Let_def split: if_splits)
qed

lemma coherent_flush:
  "vtlb_reachable dynamic 0 12 (c_vtlb s) \<Longrightarrow> 0 < dynamic \<Longrightarrow> coherent (s\<lparr>c_vtlb := vtlb_flush_dynamic (c_vtlb s)\<rparr>)"
  using vtlb_reachable_inv [of dynamic 0 12 "c_vtlb s"] by (simp add: coherent_def flush_dynamic_empty)

text \<open>Two tables of one entry each: the directory at 0x1000, the table at 0x2000, the page at 0x5000.\<close>

definition paged_cpu :: "u32 \<Rightarrow> cpu" where
  "paged_cpu flags = reset_cpu\<lparr>c_cr0 := 0x80000001, c_cr3 := 0x1000,
     c_mem := write_dword 0x2000 (0x5000 OR flags) 0xffffffff (write_dword 0x1004 0x2007 0xffffffff (\<lambda>_. 0))\<rparr>"

lemma coherent_paged_cpu: "coherent (paged_cpu flags)"
  by (simp add: coherent_def paged_cpu_def reset_cpu_def vtlb_pre_start_def)

lemma translation_is_the_page_walk_witness:
  "fst (translate_address 3 TR_WRITE 0x400123 (paged_cpu 7)) = Inr 0x5123 \<and> coherent (snd (translate_address 3 TR_WRITE 0x400123 (paged_cpu 7))) \<and>
    fst (translate_address 3 TR_WRITE 0x400123 (paged_cpu 5)) = Inl 3"
proof -
  have c: "bit (c_cr0 (paged_cpu 7)) 31" "bit (c_cr0 (paged_cpu 5)) 31" by (simp_all add: paged_cpu_def)
  have t: "TR_WRITE \<in> {TR_READ, TR_WRITE, TR_FETCH}" by simp
  have o: "page_outcome 3 TR_WRITE 0x400123 (paged_cpu 7) = Inr 0x5123" "page_outcome 3 TR_WRITE 0x400123 (paged_cpu 5) = Inl 3"
    by code_simp+
  note w = translation_is_the_page_walk [OF coherent_paged_cpu c(1) t, of 3 "0x400123" "fst (translate_address 3 TR_WRITE 0x400123 (paged_cpu 7))"
      "snd (translate_address 3 TR_WRITE 0x400123 (paged_cpu 7))"]
    translation_is_the_page_walk [OF coherent_paged_cpu c(2) t, of 3 "0x400123" "fst (translate_address 3 TR_WRITE 0x400123 (paged_cpu 5))"
      "snd (translate_address 3 TR_WRITE 0x400123 (paged_cpu 5))"]
  show ?thesis using w o by simp
qed

subsection \<open>Loading the control registers\<close>

text \<open>The 386 has no write protection of supervisors. On the 486 the test compares the register with itself before the new
  value is stored.\<close>

definition i386_mov_cr_r32 :: "nat \<Rightarrow> u32 \<Rightarrow> cpu \<Rightarrow> cpu" where
  "i386_mov_cr_r32 cr data s =
     (if cr = 0 then s\<lparr>c_cr0 := data AND 0xfffeffff\<rparr>
      else if cr = 2 then s\<lparr>c_cr2 := data\<rparr>
      else if cr = 3 then s\<lparr>c_vtlb := vtlb_flush_dynamic (c_vtlb s), c_cr3 := data\<rparr>
      else if cr = 4 then s\<lparr>c_cr4 := data\<rparr>
      else s)"

definition i486_mov_cr_r32 :: "nat \<Rightarrow> u32 \<Rightarrow> cpu \<Rightarrow> cpu" where
  "i486_mov_cr_r32 cr data s =
     (let oldcr = c_cr0 s
      in if cr = 0 then (if (oldcr XOR c_cr0 s) AND (CR0_PG OR CR0_WP) \<noteq> 0 then s\<lparr>c_vtlb := vtlb_flush_dynamic (c_vtlb s)\<rparr> else s)\<lparr>c_cr0 := data\<rparr>
      else if cr = 2 then s\<lparr>c_cr2 := data\<rparr>
      else if cr = 3 then s\<lparr>c_vtlb := vtlb_flush_dynamic (c_vtlb s), c_cr3 := data\<rparr>
      else if cr = 4 then s\<lparr>c_cr4 := data\<rparr>
      else s)"

text \<open>Loading CR3 makes the buffer repeat the new tables.\<close>

lemma coherent_cr3:
  assumes "vtlb_reachable dynamic 0 12 (c_vtlb s)" "0 < dynamic"
  shows "coherent (i386_mov_cr_r32 3 data s)" "coherent (i486_mov_cr_r32 3 data s)"
proof -
  have e: "s\<lparr>c_vtlb := v, c_cr3 := data\<rparr> = s\<lparr>c_cr3 := data, c_vtlb := v\<rparr>" for v by simp
  show "coherent (i386_mov_cr_r32 3 data s)" "coherent (i486_mov_cr_r32 3 data s)"
    using coherent_flush [of dynamic "s\<lparr>c_cr3 := data\<rparr>"] assms unfolding i386_mov_cr_r32_def i486_mov_cr_r32_def e by simp_all
qed

text \<open>Loading CR0 never flushes: after a supervisor has written to a read-only page, setting the write protection does not
  stop the next write.\<close>

lemma cr0_never_flushes: "c_vtlb (i486_mov_cr_r32 0 data s) = c_vtlb s"
  by (simp add: i486_mov_cr_r32_def)

lemma stale_write_permission:
  "let s = i486_mov_cr_r32 0 0x80010001 (snd (translate_address 0 TR_WRITE 0x400123 (paged_cpu 1)))
   in fst (translate_address 0 TR_WRITE 0x400123 s) = Inr 0x5123 \<and> page_outcome 0 TR_WRITE 0x400123 s = Inl 3"
  by code_simp

end
