(* ===== verification/I386_Segments.thy ===== *)
theory I386_Segments
  imports I386_Paging
begin

text \<open>
  Segments and the stack of the i386: the flag word, descriptors and their loading into segment registers, the
  checks on every address, pushes and pops (\<open>i386segs.hxx\<close>, \<open>i386.cpp\<close>), and the permission map of ports.
\<close>

unbundle bit_operations_syntax

subsection \<open>Steps\<close>

definition seq :: "unit step \<Rightarrow> 'a step \<Rightarrow> 'a step" where
  "seq f g = bnd f (\<lambda>_. g)"

definition modify :: "(cpu \<Rightarrow> cpu) \<Rightarrow> unit step" where
  "modify f s = (Inr (), f s)"

definition only_if :: "bool \<Rightarrow> unit step \<Rightarrow> unit step" where
  "only_if c f = (if c then f else ret ())"

primrec steps :: "unit step list \<Rightarrow> unit step" where
  "steps [] = ret ()"
| "steps (f # fs) = seq f (steps fs)"

text \<open>The first condition that holds names the fault.\<close>

primrec first_fault :: "(bool \<times> pm_fault \<times> u32) list \<Rightarrow> (pm_fault \<times> u32) option" where
  "first_fault [] = None"
| "first_fault (c # cs) = (if fst c then Some (snd c) else first_fault cs)"

definition PROTECTED_MODE :: "cpu \<Rightarrow> bool" where
  "PROTECTED_MODE s \<longleftrightarrow> tst (c_cr0 s) CR0_PE"

definition set_sreg :: "sreg_name \<Rightarrow> sreg \<Rightarrow> cpu \<Rightarrow> cpu" where
  "set_sreg r g s = s\<lparr>c_sreg := (c_sreg s)(r := g)\<rparr>"

definition set_selector :: "sreg_name \<Rightarrow> u16 \<Rightarrow> cpu \<Rightarrow> cpu" where
  "set_selector r v s = set_sreg r ((c_sreg s r)\<lparr>s_selector := v\<rparr>) s"

abbreviation "ESP \<equiv> 4 :: nat"

definition set_reg32 :: "nat \<Rightarrow> u32 \<Rightarrow> cpu \<Rightarrow> cpu" where
  "set_reg32 r v s = s\<lparr>c_reg := (c_reg s)(r := v)\<rparr>"

definition set_reg16 :: "nat \<Rightarrow> u16 \<Rightarrow> cpu \<Rightarrow> cpu" where
  "set_reg16 r v s = set_reg32 r ((c_reg s r AND 0xffff0000) OR ucast v) s"

definition reg16 :: "nat \<Rightarrow> cpu \<Rightarrow> u16" where
  "reg16 r s = ucast (c_reg s r)"

definition READ8 :: "u32 \<Rightarrow> u8 step" where "READ8 ea s = READ8PL ea (c_CPL s) s"
definition READ16 :: "u32 \<Rightarrow> u16 step" where "READ16 ea s = READ16PL ea (c_CPL s) s"
definition READ32 :: "u32 \<Rightarrow> u32 step" where "READ32 ea s = READ32PL ea (c_CPL s) s"
definition WRITE8 :: "u32 \<Rightarrow> u8 \<Rightarrow> unit step" where "WRITE8 ea v s = WRITE8PL ea (c_CPL s) v s"
definition WRITE16 :: "u32 \<Rightarrow> u16 \<Rightarrow> unit step" where "WRITE16 ea v s = WRITE16PL ea (c_CPL s) v s"
definition WRITE32 :: "u32 \<Rightarrow> u32 \<Rightarrow> unit step" where "WRITE32 ea v s = WRITE32PL ea (c_CPL s) v s"

subsection \<open>The flag word\<close>

definition flag_bit :: "nat \<Rightarrow> bool \<Rightarrow> u32" where
  "flag_bit n b = (if b then push_bit n 1 else 0)"

definition get_flags :: "cpu \<Rightarrow> u32" where
  "get_flags s =
     (let f = 2 OR flag_bit 0 (f_CF (c_flags s)) OR flag_bit 2 (f_PF (c_flags s)) OR flag_bit 4 (f_AF (c_flags s)) OR
          flag_bit 6 (f_ZF (c_flags s)) OR flag_bit 7 (f_SF (c_flags s)) OR flag_bit 8 (c_TF s) OR flag_bit 9 (c_IF s) OR
          flag_bit 10 (c_DF s) OR flag_bit 11 (f_OF (c_flags s)) OR flag_bit 12 (c_IOP1 s) OR flag_bit 13 (c_IOP2 s) OR
          flag_bit 14 (c_NT s) OR flag_bit 16 (c_RF s) OR flag_bit 17 (c_VM s) OR flag_bit 18 (c_AC s) OR flag_bit 19 (c_VIF s) OR
          flag_bit 20 (c_VIP s) OR flag_bit 21 (c_ID s)
      in (c_eflags s AND NOT (c_eflags_mask s)) OR (f AND c_eflags_mask s))"

definition set_flags :: "u32 \<Rightarrow> cpu \<Rightarrow> cpu" where
  "set_flags w s =
     (let f = w AND c_eflags_mask s
      in s\<lparr>c_flags := \<lparr>f_CF = tst f 0x1, f_PF = tst f 0x4, f_AF = tst f 0x10, f_ZF = tst f 0x40, f_SF = tst f 0x80, f_OF = tst f 0x800\<rparr>,
           c_TF := tst f 0x100, c_IF := tst f 0x200, c_DF := tst f 0x400, c_IOP1 := tst f 0x1000, c_IOP2 := tst f 0x2000,
           c_NT := tst f 0x4000, c_RF := tst f 0x10000, c_VM := tst f 0x20000, c_AC := tst f 0x40000, c_VIF := tst f 0x80000,
           c_VIP := tst f 0x100000, c_ID := tst f 0x200000, c_eflags := f\<rparr>)"

subsection \<open>Descriptors\<close>

definition table_of :: "u16 \<Rightarrow> cpu \<Rightarrow> u32 \<times> u32" where
  "table_of selector s = (if tst selector 4 then (d_base (c_ldtr s), d_limit (c_ldtr s)) else (c_gdtr_base s, ucast (c_gdtr_limit s)))"

text \<open>The contents of a segment register from the two words of a descriptor.\<close>

definition decode_descriptor :: "u32 \<Rightarrow> u32 \<Rightarrow> sreg \<Rightarrow> sreg" where
  "decode_descriptor v1 v2 seg =
     (let flags = ucast (drop_bit 8 v2) AND 0xf0ff; limit = (v2 AND 0xf0000) OR (v1 AND 0xffff)
      in seg\<lparr>s_flags := flags,
             s_base := (v2 AND 0xff000000) OR push_bit 16 (v2 AND 0xff) OR (drop_bit 16 v1 AND 0xffff),
             s_limit := (if tst flags 0x8000 then push_bit 12 limit OR 0xfff else limit),
             s_d := tst flags 0x4000, s_valid := True\<rparr>)"

text \<open>A selector beyond the table leaves the segment as it is.\<close>

definition i386_load_protected_mode_segment :: "sreg \<Rightarrow> (sreg \<times> u64 option) step" where
  "i386_load_protected_mode_segment seg s =
     (if s_selector seg = 0 then ret (null_sreg, None) s
      else let base = fst (table_of (s_selector seg) s); limit = snd (table_of (s_selector seg) s);
               entry = ucast (s_selector seg AND NOT 7)
           in if limit = 0 \<or> limit < entry + 7 then ret (seg, None) s
              else bnd (READ32PL (base + entry) 0) (\<lambda>v1. bnd (READ32PL (base + entry + 4) 0) (\<lambda>v2.
                     ret (decode_descriptor v1 v2 seg, Some (push_bit 32 (ucast v2) OR ucast v1)))) s)"

text \<open>A descriptor read into a scratch segment.\<close>

definition load_scratch :: "u16 \<Rightarrow> sreg step" where
  "load_scratch selector = bnd (i386_load_protected_mode_segment (null_sreg\<lparr>s_selector := selector\<rparr>)) (\<lambda>r. ret (fst r))"

text \<open>The address is translated without the gate A20, and a failing translation is ignored.\<close>

definition i386_set_descriptor_accessed :: "u16 \<Rightarrow> unit step" where
  "i386_set_descriptor_accessed selector s =
     (if selector AND NOT 3 = 0 then ret () s
      else case i386_translate_address TR_READ False (fst (table_of selector s) + ucast (selector AND NOT 7) + 5) s of
             ((ok, a, e), s1) \<Rightarrow> store (\<lambda>m. m(a := m a OR 1)) s1)"

definition i386_load_segment_descriptor :: "sreg_name \<Rightarrow> unit step" where
  "i386_load_segment_descriptor segment s =
     (let g = c_sreg s segment
      in if PROTECTED_MODE s
         then if \<not> c_VM s
              then bnd (i386_load_protected_mode_segment g) (\<lambda>r. seq (modify (set_sreg segment (fst r)))
                     (only_if (s_selector (fst r) \<noteq> 0)
                       (seq (i386_set_descriptor_accessed (s_selector (fst r)))
                         (modify (\<lambda>s. set_sreg segment ((c_sreg s segment)\<lparr>s_flags := s_flags (c_sreg s segment) OR 1\<rparr>) s))))) s
              else modify (set_sreg segment (g\<lparr>s_base := push_bit 4 (ucast (s_selector g)), s_limit := 0xffff, s_flags := 0xf3,
                     s_d := False, s_valid := True\<rparr>)) s
         else let base = push_bit 4 (ucast (s_selector g))
              in modify (set_sreg segment (g\<lparr>s_base := (if segment = CS \<and> \<not> c_performed_intersegment_jump s then base OR 0xfff00000 else base),
                     s_d := False, s_valid := True,
                     s_flags := (if segment = CS \<and> c_cpu_version s < 0x500 then 0x93 else s_flags g)\<rparr>)) s)"

text \<open>The selector and the pointer of a stack in the current task state segment.\<close>

definition i386_get_stack_segment :: "u8 \<Rightarrow> u32 step" where
  "i386_get_stack_segment privilege s =
     (if 3 \<le> privilege then ret 0 s
      else if tst (d_flags (c_task s)) 8 then READ32PL (d_base (c_task s) + 8 + 8 * ucast privilege) 0 s
      else bnd (READ16PL (d_base (c_task s) + 4 + 4 * ucast privilege) 0) (\<lambda>v. ret (ucast v)) s)"

definition i386_get_stack_ptr :: "u8 \<Rightarrow> u32 step" where
  "i386_get_stack_ptr privilege s =
     (if 3 \<le> privilege then ret 0 s
      else if tst (d_flags (c_task s)) 8 then READ32PL (d_base (c_task s) + 4 + 8 * ucast privilege) 0 s
      else bnd (READ16PL (d_base (c_task s) + 2 + 4 * ucast privilege) 0) (\<lambda>v. ret (ucast v)) s)"

definition dpl_of :: "u16 \<Rightarrow> u8" where
  "dpl_of flags = ucast (drop_bit 5 flags) AND 3"

text \<open>The result of the first check, the limit of the table, is overwritten by the second.\<close>

definition i386_check_sreg_validity :: "sreg_name \<Rightarrow> unit step" where
  "i386_check_sreg_validity reg s =
     (let selector = s_selector (c_sreg s reg); CPL = c_CPL s
      in bnd (load_scratch selector) (\<lambda>desc.
           let DPL = dpl_of (s_flags desc); RPL = ucast selector AND 3; f = s_flags desc;
               usable = (f AND 0x18 = 0x18 \<and> tst f 2 \<or> f AND 0x18 = 0x10);
               private = (f AND 0x18 = 0x18 \<and> \<not> tst f 4 \<or> f AND 0x18 = 0x10);
               invalid = (\<not> usable \<or> private \<and> (DPL < CPL \<or> DPL < RPL))
           in only_if invalid (seq (modify (set_selector reg 0)) (i386_load_segment_descriptor reg))) s)"

subsection \<open>Addresses\<close>

definition i386_limit_check :: "sreg_name \<Rightarrow> u32 \<Rightarrow> u32 \<Rightarrow> cpu \<Rightarrow> bool" where
  "i386_limit_check seg offset sz s =
     (let g = c_sreg s seg
      in if PROTECTED_MODE s \<and> \<not> c_VM s
         then if s_flags g AND 0x18 = 0x10 \<and> tst (s_flags g) 4
              then offset \<le> s_limit g \<or> (if s_d g then False else 0xffff < offset)
              else s_limit g < offset + sz - 1
         else False)"

text \<open>\<open>rwn\<close>: 0 reads, 1 writes, -1 computes the address only.\<close>

definition i386_translate :: "sreg_name \<Rightarrow> u32 \<Rightarrow> int \<Rightarrow> u32 \<Rightarrow> u32 step" where
  "i386_translate segment ip rwn sz s =
     (let g = c_sreg s segment; fault = (if segment = SS then FAULT_SS else FAULT_GP)
      in case (if PROTECTED_MODE s \<and> \<not> c_VM s \<and> rwn \<noteq> -1
               then first_fault
                 [(\<not> s_valid g, fault, 0), (i386_limit_check segment ip sz s, fault, 0),
                  (rwn = 0 \<and> tst (s_flags g) 8 \<and> \<not> tst (s_flags g) 2, FAULT_GP, 0),
                  (rwn = 1 \<and> (tst (s_flags g) 8 \<or> \<not> tst (s_flags g) 2), FAULT_GP, 0)]
               else None)
         of Some f \<Rightarrow> fault_throw (fst f) (snd f) s
          | None \<Rightarrow> ret (s_base g + ip) s)"

text \<open>The address computed without checks is that of the next instruction.\<close>

definition CHANGE_PC :: "u32 \<Rightarrow> unit step" where
  "CHANGE_PC pc = bnd (i386_translate CS pc (-1) 1) (\<lambda>a. modify (\<lambda>s. s\<lparr>c_pc := a\<rparr>))"

definition NEAR_BRANCH :: "u32 \<Rightarrow> cpu \<Rightarrow> cpu" where
  "NEAR_BRANCH offs s = s\<lparr>c_eip := c_eip s + offs, c_pc := c_pc s + offs\<rparr>"

subsection \<open>The stack\<close>

definition push :: "u32 \<Rightarrow> (u32 \<Rightarrow> unit step) \<Rightarrow> unit step" where
  "push n wr s =
     (if s_d (c_sreg s SS)
      then let new_esp = c_reg s ESP - n
           in bnd (i386_translate SS new_esp 1 1) (\<lambda>ea. seq (wr ea) (modify (set_reg32 ESP new_esp))) s
      else let new_esp = (ucast (reg16 ESP s) - n) AND 0xffff
           in bnd (i386_translate SS new_esp 1 1) (\<lambda>ea. seq (wr ea) (modify (set_reg16 ESP (ucast new_esp)))) s)"

definition PUSH16 :: "u16 \<Rightarrow> unit step" where
  "PUSH16 val = push 2 (\<lambda>ea. WRITE16 ea val)"

definition PUSH32 :: "u32 \<Rightarrow> unit step" where
  "PUSH32 val = push 4 (\<lambda>ea. WRITE32 ea val)"

text \<open>A 386 writes the lower half only.\<close>

definition PUSH32SEG :: "u32 \<Rightarrow> unit step" where
  "PUSH32SEG val s = push 4 (\<lambda>ea. if c_cpu_version s AND 0xf00 = 0x300 then WRITE16 ea (ucast val) else WRITE32 ea val) s"

definition PUSH8 :: "u8 \<Rightarrow> unit step" where
  "PUSH8 val s = (if c_operand_size s then PUSH32 (scast val) s else PUSH16 (scast val) s)"

definition pop :: "u32 \<Rightarrow> (u32 \<Rightarrow> 'a step) \<Rightarrow> 'a step" where
  "pop n rd s =
     (if s_d (c_sreg s SS)
      then let new_esp = c_reg s ESP + n
           in bnd (i386_translate SS (new_esp - n) 0 1) (\<lambda>ea. bnd (rd ea) (\<lambda>v. seq (modify (set_reg32 ESP new_esp)) (ret v))) s
      else let new_esp = ucast (reg16 ESP s) + n
           in bnd (i386_translate SS ((new_esp - n) AND 0xffff) 0 1)
                (\<lambda>ea. bnd (rd ea) (\<lambda>v. seq (modify (set_reg16 ESP (ucast new_esp))) (ret v))) s)"

definition POP8 :: "u8 step" where "POP8 = pop 1 READ8"
definition POP16 :: "u16 step" where "POP16 = pop 2 READ16"
definition POP32 :: "u32 step" where "POP32 = pop 4 READ32"

subsection \<open>Ports\<close>

text \<open>The map of permissions in the task state segment; a port's bit and those of the following ports of a wider access are
  taken from one byte.\<close>

definition iopl :: "cpu \<Rightarrow> u8" where
  "iopl s = of_bool (c_IOP1 s) OR push_bit 1 (of_bool (c_IOP2 s))"

definition check_ioperm :: "u32 \<Rightarrow> u8 \<Rightarrow> unit step" where
  "check_ioperm port msk s =
     (if \<not> PROTECTED_MODE s then ret () s
      else if \<not> c_VM s \<and> c_CPL s \<le> iopl s then ret () s
      else if d_limit (c_task s) < 0x67 \<or> d_flags (c_task s) AND 0xd \<noteq> 9 then fault_throw FAULT_GP 0 s
      else bnd (READ16PL (d_base (c_task s) + 0x66) 0) (\<lambda>IOPB s1.
             if d_limit (c_task s1) < ucast IOPB + port div 8 then fault_throw FAULT_GP 0 s1
             else bnd (READ8PL (d_base (c_task s) + ucast IOPB + port div 8) 0)
               (\<lambda>map. if tst (drop_bit (unat (port mod 8)) map) msk then fault_throw FAULT_GP 0 else ret ()) s1) s)"

subsection \<open>What an access changes\<close>

text \<open>Memory accesses change memory, the look-aside buffer and CR2 only.\<close>

definition core :: "cpu \<Rightarrow> cpu" where
  "core s = s\<lparr>c_mem := (\<lambda>_. 0), c_vtlb := vtlb_pre_start 0 0 0, c_cr2 := 0\<rparr>"

definition same_but_memory :: "cpu \<Rightarrow> cpu \<Rightarrow> bool" where
  "same_but_memory s s1 \<longleftrightarrow> core s1 = core s"

definition memory_only :: "'a step \<Rightarrow> bool" where
  "memory_only f \<longleftrightarrow> (\<forall>s. same_but_memory s (snd (f s)))"

named_theorems memory_only

lemma same_refl [simp]: "same_but_memory s s"
  by (simp add: same_but_memory_def)

lemma same_trans: "same_but_memory s s1 \<Longrightarrow> same_but_memory s1 s2 \<Longrightarrow> same_but_memory s s2"
  by (simp add: same_but_memory_def)

lemma core_updates [simp]:
  "core (s\<lparr>c_mem := m\<rparr>) = core s" "core (s\<lparr>c_vtlb := v\<rparr>) = core s" "core (s\<lparr>c_cr2 := a\<rparr>) = core s" "core (with_mem s m) = core s"
  by (simp_all add: core_def with_mem_def)

lemma core_eq: "core s1 = core s \<Longrightarrow>
   c_reg s1 = c_reg s \<and> c_sreg s1 = c_sreg s \<and> c_eip s1 = c_eip s \<and> c_pc s1 = c_pc s \<and> c_prev_eip s1 = c_prev_eip s \<and>
   c_cr0 s1 = c_cr0 s \<and> c_CPL s1 = c_CPL s \<and> c_VM s1 = c_VM s \<and> c_IOP1 s1 = c_IOP1 s \<and> c_IOP2 s1 = c_IOP2 s \<and> c_ext s1 = c_ext s \<and>
   c_gdtr_base s1 = c_gdtr_base s \<and> c_gdtr_limit s1 = c_gdtr_limit s \<and> c_idtr_base s1 = c_idtr_base s \<and> c_idtr_limit s1 = c_idtr_limit s \<and>
   c_ldtr s1 = c_ldtr s \<and> c_task s1 = c_task s \<and> c_a20_mask s1 = c_a20_mask s \<and> c_opcode s1 = c_opcode s \<and> c_cpu_version s1 = c_cpu_version s \<and>
   c_performed_intersegment_jump s1 = c_performed_intersegment_jump s \<and> get_flags s1 = get_flags s"
proof (intro conjI)
  assume e: "core s1 = core s"
  show "get_flags s1 = get_flags s"
  proof -
    have "get_flags (core t) = get_flags t" for t by (simp add: get_flags_def core_def)
    then show ?thesis using e by metis
  qed
qed (drule arg_cong [of _ _ c_reg] arg_cong [of _ _ c_sreg] arg_cong [of _ _ c_eip] arg_cong [of _ _ c_pc] arg_cong [of _ _ c_prev_eip]
    arg_cong [of _ _ c_cr0] arg_cong [of _ _ c_CPL] arg_cong [of _ _ c_VM] arg_cong [of _ _ c_IOP1] arg_cong [of _ _ c_IOP2] arg_cong [of _ _ c_ext]
    arg_cong [of _ _ c_gdtr_base] arg_cong [of _ _ c_gdtr_limit] arg_cong [of _ _ c_idtr_base] arg_cong [of _ _ c_idtr_limit]
    arg_cong [of _ _ c_ldtr] arg_cong [of _ _ c_task] arg_cong [of _ _ c_a20_mask] arg_cong [of _ _ c_opcode] arg_cong [of _ _ c_cpu_version]
    arg_cong [of _ _ c_performed_intersegment_jump], simp add: core_def)+

lemma memory_only_ret [memory_only]: "memory_only (ret v)"
  by (simp add: memory_only_def ret_def)

lemma memory_only_peek [memory_only]: "memory_only (peek f)"
  by (simp add: memory_only_def peek_def)

lemma memory_only_throw [memory_only]: "memory_only (fault_throw f e)"
  by (simp add: memory_only_def fault_throw_def)

lemma memory_only_store [memory_only]: "memory_only (store f)"
  by (simp add: memory_only_def store_def same_but_memory_def)

lemma memory_only_bnd [memory_only]: "memory_only f \<Longrightarrow> (\<And>v. memory_only (g v)) \<Longrightarrow> memory_only (bnd f g)"
proof -
  assume f: "memory_only f" and g: "\<And>v. memory_only (g v)"
  have "same_but_memory s (snd (bnd f g s))" for s
  proof (cases "f s")
    case (Pair r s1)
    then have "same_but_memory s s1" using f unfolding memory_only_def by (metis snd_conv)
    then show ?thesis using Pair g same_trans unfolding memory_only_def bnd_def by (cases r) auto
  qed
  then show ?thesis unfolding memory_only_def by blast
qed

lemma memory_only_if [memory_only]: "memory_only f \<Longrightarrow> memory_only g \<Longrightarrow> memory_only (if b then f else g)"
  by simp

lemma memory_only_state: "(\<And>s0. memory_only (f s0)) \<Longrightarrow> memory_only (\<lambda>s. f s s)"
  by (simp add: memory_only_def)

lemma core_at: "memory_only f \<Longrightarrow> core (snd (f s)) = core s"
  by (simp add: memory_only_def same_but_memory_def)

lemma memory_onlyI: "(\<And>s. core (snd (f s)) = core s) \<Longrightarrow> memory_only f"
  by (simp add: memory_only_def same_but_memory_def)

lemma core_if: "core (snd (f s)) = core s \<Longrightarrow> core (snd (g s)) = core s \<Longrightarrow> core (snd (if b then f s else g s)) = core s"
  by simp

lemma walk_core: "i386_translate_address type False a s = (r, s1) \<Longrightarrow> core s1 = core s"
  unfolding i386_translate_address_def Let_def poke_with_mem by (auto split: if_splits)

lemma translate_core: "core (snd (translate_address pl t a s)) = core s"
proof -
  obtain ok b e s0 where w: "i386_translate_address (access_type pl t) False a s = ((ok, b, e), s0)" by (metis prod.exhaust_sel)
  show ?thesis using walk_core [OF w] unfolding translate_address_def Let_def by (simp add: w)
qed

lemma memory_only_physical [memory_only]: "memory_only (physical pl t a)"
proof -
  have "core (snd (physical pl t a s)) = core s" for s
    using translate_core [of pl t a s] by (auto simp: physical_def fault_throw_def split: prod.splits sum.splits)
  then show ?thesis by (simp add: memory_only_def same_but_memory_def)
qed

lemma memory_only_reads [memory_only]:
  "memory_only (READ8PL ea pl)" "memory_only (READ16PL ea pl)" "memory_only (READ32PL ea pl)" "memory_only (READ64PL ea pl)"
proof -
  show r8: "memory_only (READ8PL a pl)" for a unfolding READ8PL_def by (intro memory_only)
  show r16: "memory_only (READ16PL a pl)" for a unfolding READ16PL_def by (intro memory_only r8)
  show r32: "memory_only (READ32PL a pl)" for a unfolding READ32PL_def by (intro memory_only r8 r16)
  show "memory_only (READ64PL ea pl)" unfolding READ64PL_def by (intro memory_only r8 r16 r32)
qed

lemma memory_only_writes [memory_only]:
  "memory_only (WRITE8PL ea pl b)" "memory_only (WRITE16PL ea pl w)" "memory_only (WRITE32PL ea pl d)"
proof -
  show w8: "memory_only (WRITE8PL a pl v)" for a v unfolding WRITE8PL_def by (intro memory_only)
  show w16: "memory_only (WRITE16PL a pl v)" for a v unfolding WRITE16PL_def by (intro memory_only w8)
  show "memory_only (WRITE32PL ea pl d)" unfolding WRITE32PL_def by (intro memory_only w8 w16)
qed

lemma memory_only_accesses [memory_only]:
  "memory_only (READ8 ea)" "memory_only (READ16 ea)" "memory_only (READ32 ea)"
  "memory_only (WRITE8 ea b)" "memory_only (WRITE16 ea w)" "memory_only (WRITE32 ea d)" "memory_only (WRITE_TEST ea)"
  unfolding READ8_def READ16_def READ32_def WRITE8_def WRITE16_def WRITE32_def WRITE_TEST_def
  by (rule memory_only_state, intro memory_only)+

lemma memory_only_translate [memory_only]: "memory_only (i386_translate r ip rwn sz)"
proof -
  have "core (snd (i386_translate r ip rwn sz s)) = core s" for s
    unfolding i386_translate_def Let_def by (auto simp: fault_throw_def ret_def split: option.splits)
  then show ?thesis by (simp add: memory_only_def same_but_memory_def)
qed

lemma memory_only_load_pm [memory_only]: "memory_only (i386_load_protected_mode_segment g)"
  unfolding i386_load_protected_mode_segment_def Let_def by (rule memory_onlyI, intro core_if; rule core_at; intro memory_only)

lemma memory_only_scratch [memory_only]: "memory_only (load_scratch sel)"
  unfolding load_scratch_def by (intro memory_only)

lemma memory_only_accessed [memory_only]: "memory_only (i386_set_descriptor_accessed sel)"
proof -
  have "core (snd (i386_set_descriptor_accessed sel s)) = core s" for s
  proof (cases "i386_translate_address TR_READ False (fst (table_of sel s) + ucast (sel AND NOT 7) + 5) s")
    case (Pair r s1)
    obtain ok a e where r: "r = (ok, a, e)" by (cases r) blast
    show ?thesis using walk_core [OF Pair] unfolding i386_set_descriptor_accessed_def Pair r by (simp add: ret_def store_def)
  qed
  then show ?thesis by (simp add: memory_only_def same_but_memory_def)
qed

lemma memory_only_stack [memory_only]: "memory_only (i386_get_stack_segment d)" "memory_only (i386_get_stack_ptr d)"
  unfolding i386_get_stack_segment_def i386_get_stack_ptr_def by (rule memory_onlyI, intro core_if; rule core_at; intro memory_only)+

lemma memory_onlyD: "memory_only f \<Longrightarrow> f s = (r, s1) \<Longrightarrow> core s1 = core s"
  unfolding memory_only_def same_but_memory_def by (metis snd_conv)

lemma bnd_core_cong: "memory_only f \<Longrightarrow> (\<And>v s1. core s1 = core s \<Longrightarrow> g v s1 = g' v s1) \<Longrightarrow> bnd f g s = bnd f g' s"
  using memory_onlyD [of f s] by (cases "f s") (auto simp: bnd_def split: sum.splits)

end
