(* ===== verification/I386_Traps.thy ===== *)
theory I386_Traps
  imports I386_Segments
begin

text \<open>
  Task switches, interrupts, exceptions and the return from them: \<open>i386segs.hxx\<close> of the i386, with the checks in the
  order of the source. Debugger hooks, log messages, the bus lock and cycle counts are left out.
\<close>

unbundle bit_operations_syntax

subsection \<open>Faults\<close>

primrec fault_code :: "pm_fault \<Rightarrow> nat" where
  "fault_code FAULT_UD = 6"
| "fault_code FAULT_NM = 7"
| "fault_code FAULT_DF = 8"
| "fault_code FAULT_TS = 10"
| "fault_code FAULT_NP = 11"
| "fault_code FAULT_SS = 12"
| "fault_code FAULT_GP = 13"
| "fault_code FAULT_PF = 14"
| "fault_code FAULT_MF = 16"

text \<open>Every fault raised by a check sets EXT, before its error code is computed.\<close>

definition set_ext :: "cpu \<Rightarrow> cpu" where
  "set_ext s = s\<lparr>c_ext := 1\<rparr>"

definition fault_exp :: "pm_fault \<Rightarrow> u32 \<Rightarrow> 'a step" where
  "fault_exp f e s = fault_throw f e (set_ext s)"

definition checked :: "(bool \<times> pm_fault \<times> u32) list \<Rightarrow> 'a step \<Rightarrow> 'a step" where
  "checked cs body = (case first_fault cs of None \<Rightarrow> body | Some f \<Rightarrow> fault_exp (fst f) (snd f))"

text \<open>A selector beyond its table, by the limit of the table.\<close>

definition past_limit :: "u16 \<Rightarrow> cpu \<Rightarrow> bool" where
  "past_limit selector s \<longleftrightarrow> snd (table_of selector s) < ucast (selector AND NOT 7)"

definition rpl0 :: "u16 \<Rightarrow> u32" where
  "rpl0 selector = ucast (selector AND NOT 3)"

subsection \<open>Task switches\<close>

text \<open>The access rights of a descriptor rewritten, to mark a task busy or available.\<close>

definition descriptor_rights :: "u16 \<Rightarrow> (u8 \<Rightarrow> u8) \<Rightarrow> unit step" where
  "descriptor_rights selector f s =
     (let a = fst (table_of selector s) + ucast (selector AND NOT 7) + 5 in bnd (READ8 a) (\<lambda>b. WRITE8 a (f b)) s)"

definition load_task_register :: "u16 \<Rightarrow> sreg step" where
  "load_task_register selector =
     seq (modify (\<lambda>s. s\<lparr>c_task := (c_task s)\<lparr>d_segment := selector\<rparr>\<rparr>))
       (bnd (load_scratch selector) (\<lambda>seg. seq (modify (\<lambda>s. s\<lparr>c_task := (c_task s)\<lparr>d_limit := s_limit seg, d_base := s_base seg, d_flags := s_flags seg\<rparr>,
          c_cr0 := c_cr0 s OR 8\<rparr>)) (ret seg)))"

text \<open>The scratch segment still holds the descriptor of the task when the LDT's is read into it.\<close>

definition load_ldtr :: "sreg \<Rightarrow> u16 \<Rightarrow> unit step" where
  "load_ldtr seg selector =
     seq (modify (\<lambda>s. s\<lparr>c_ldtr := (c_ldtr s)\<lparr>d_segment := selector\<rparr>\<rparr>))
       (bnd (i386_load_protected_mode_segment (seg\<lparr>s_selector := selector\<rparr>)) (\<lambda>r.
          modify (\<lambda>s. s\<lparr>c_ldtr := (c_ldtr s)\<lparr>d_limit := s_limit (fst r), d_base := s_base (fst r), d_flags := s_flags (fst r)\<rparr>\<rparr>)))"

definition load_reg16 :: "nat \<Rightarrow> u32 \<Rightarrow> unit step" where
  "load_reg16 r a = bnd (READ16 a) (\<lambda>v. modify (set_reg16 r v))"

definition load_reg32 :: "nat \<Rightarrow> u32 \<Rightarrow> unit step" where
  "load_reg32 r a = bnd (READ32 a) (\<lambda>v. modify (set_reg32 r v))"

definition load_sreg16 :: "sreg_name \<Rightarrow> u32 \<Rightarrow> unit step" where
  "load_sreg16 r a = bnd (READ16 a) (\<lambda>v. seq (modify (set_selector r v)) (i386_load_segment_descriptor r))"

definition load_sreg32 :: "sreg_name \<Rightarrow> u32 \<Rightarrow> unit step" where
  "load_sreg32 r a = bnd (READ32 a) (\<lambda>v. seq (modify (set_selector r (ucast v))) (i386_load_segment_descriptor r))"

definition jump_eip :: "unit step" where
  "jump_eip s = CHANGE_PC (c_eip s) s"

definition cpl_from_stack :: "cpu \<Rightarrow> cpu" where
  "cpl_from_stack s = s\<lparr>c_CPL := dpl_of (s_flags (c_sreg s SS)), c_auto_clear_RF := False\<rparr>"

definition save_task16 :: "u32 \<Rightarrow> unit step" where
  "save_task16 tss s = steps
     [WRITE16 (tss + 0x0e) (ucast (c_eip s)), WRITE16 (tss + 0x10) (ucast (get_flags s)),
      WRITE16 (tss + 0x12) (reg16 0 s), WRITE16 (tss + 0x14) (reg16 1 s), WRITE16 (tss + 0x16) (reg16 2 s), WRITE16 (tss + 0x18) (reg16 3 s),
      WRITE16 (tss + 0x1a) (reg16 4 s), WRITE16 (tss + 0x1c) (reg16 5 s), WRITE16 (tss + 0x1e) (reg16 6 s), WRITE16 (tss + 0x20) (reg16 7 s),
      WRITE16 (tss + 0x22) (s_selector (c_sreg s ES)), WRITE16 (tss + 0x24) (s_selector (c_sreg s CS)),
      WRITE16 (tss + 0x26) (s_selector (c_sreg s SS)), WRITE16 (tss + 0x28) (s_selector (c_sreg s DS))] s"

definition load_task16 :: "u32 \<Rightarrow> sreg \<Rightarrow> unit step" where
  "load_task16 tss seg = steps
     [bnd (READ16 (tss + 0x2a)) (load_ldtr seg),
      bnd (READ16 (tss + 0x0e)) (\<lambda>v. modify (\<lambda>s. s\<lparr>c_eip := ucast v\<rparr>)),
      bnd (READ16 (tss + 0x10)) (\<lambda>v. modify (set_flags (ucast v))),
      load_reg16 0 (tss + 0x12), load_reg16 1 (tss + 0x14), load_reg16 2 (tss + 0x16), load_reg16 3 (tss + 0x18),
      load_reg16 4 (tss + 0x1a), load_reg16 5 (tss + 0x1c), load_reg16 6 (tss + 0x1e), load_reg16 7 (tss + 0x20),
      load_sreg16 ES (tss + 0x22), load_sreg16 CS (tss + 0x24), load_sreg16 SS (tss + 0x26), load_sreg16 DS (tss + 0x28)]"

definition i286_task_switch :: "u16 \<Rightarrow> bool \<Rightarrow> unit step" where
  "i286_task_switch selector nested s =
     (let old_task = d_segment (c_task s)
      in seq (only_if (\<not> nested) (descriptor_rights old_task (\<lambda>b. b AND NOT 2)))
        (seq (\<lambda>s. save_task16 (d_base (c_task s)) s)
          (bnd (load_task_register selector) (\<lambda>seg s. let tss = d_base (c_task s) in
            seq (load_task16 tss seg) (steps
              [descriptor_rights selector (\<lambda>b. b OR 2),
               only_if nested (seq (WRITE16 tss old_task) (modify (\<lambda>s. s\<lparr>c_NT := True\<rparr>))),
               jump_eip, modify cpl_from_stack]) s))) s)"

definition save_task32 :: "u32 \<Rightarrow> unit step" where
  "save_task32 tss s = steps
     [WRITE32 (tss + 0x1c) (c_cr3 s), WRITE32 (tss + 0x20) (c_eip s), WRITE32 (tss + 0x24) (get_flags s),
      WRITE32 (tss + 0x28) (c_reg s 0), WRITE32 (tss + 0x2c) (c_reg s 1), WRITE32 (tss + 0x30) (c_reg s 2), WRITE32 (tss + 0x34) (c_reg s 3),
      WRITE32 (tss + 0x38) (c_reg s 4), WRITE32 (tss + 0x3c) (c_reg s 5), WRITE32 (tss + 0x40) (c_reg s 6), WRITE32 (tss + 0x44) (c_reg s 7),
      WRITE32 (tss + 0x48) (ucast (s_selector (c_sreg s ES))), WRITE32 (tss + 0x4c) (ucast (s_selector (c_sreg s CS))),
      WRITE32 (tss + 0x50) (ucast (s_selector (c_sreg s SS))), WRITE32 (tss + 0x54) (ucast (s_selector (c_sreg s DS))),
      WRITE32 (tss + 0x58) (ucast (s_selector (c_sreg s FS))), WRITE32 (tss + 0x5c) (ucast (s_selector (c_sreg s GS)))] s"

definition load_task32 :: "u32 \<Rightarrow> sreg \<Rightarrow> unit step" where
  "load_task32 tss seg = steps
     [bnd (READ32 (tss + 0x60)) (\<lambda>v. load_ldtr seg (ucast v)),
      bnd (READ32 (tss + 0x20)) (\<lambda>v. modify (\<lambda>s. s\<lparr>c_eip := v\<rparr>)),
      bnd (READ32 (tss + 0x24)) (\<lambda>v. modify (set_flags v)),
      load_reg32 0 (tss + 0x28), load_reg32 1 (tss + 0x2c), load_reg32 2 (tss + 0x30), load_reg32 3 (tss + 0x34),
      load_reg32 4 (tss + 0x38), load_reg32 5 (tss + 0x3c), load_reg32 6 (tss + 0x40), load_reg32 7 (tss + 0x44),
      load_sreg32 ES (tss + 0x48), load_sreg32 CS (tss + 0x4c), load_sreg32 SS (tss + 0x50), load_sreg32 DS (tss + 0x54),
      load_sreg32 FS (tss + 0x58), load_sreg32 GS (tss + 0x5c)]"

text \<open>The tables of the new task replace those of the old one; a change of CR3 empties the look-aside buffer.\<close>

definition load_cr3 :: "u32 \<Rightarrow> u32 \<Rightarrow> cpu \<Rightarrow> cpu" where
  "load_cr3 oldcr3 v s = (if oldcr3 \<noteq> v then s\<lparr>c_cr3 := v, c_vtlb := vtlb_flush_dynamic (c_vtlb s)\<rparr> else s\<lparr>c_cr3 := v\<rparr>)"

definition i386_task_switch :: "u16 \<Rightarrow> bool \<Rightarrow> unit step" where
  "i386_task_switch selector nested s =
     (let old_task = d_segment (c_task s); oldcr3 = c_cr3 s
      in seq (only_if (\<not> nested) (descriptor_rights old_task (\<lambda>b. b AND NOT 2)))
        (seq (\<lambda>s. save_task32 (d_base (c_task s)) s)
          (bnd (load_task_register selector) (\<lambda>seg s. let tss = d_base (c_task s) in
            seq (load_task32 tss seg) (steps
              [only_if nested (seq (WRITE32 tss (ucast old_task)) (modify (\<lambda>s. s\<lparr>c_NT := True\<rparr>))),
               bnd (READ32 (tss + 0x1c)) (\<lambda>v. modify (load_cr3 oldcr3 v)),
               descriptor_rights selector (\<lambda>b. b OR 2),
               jump_eip,
               bnd (READ32 (tss + 0x64)) (\<lambda>v. only_if (tst v 1) (modify (\<lambda>s. s\<lparr>c_dr6 := c_dr6 s OR 0x8000\<rparr>))),
               modify cpl_from_stack, modify (\<lambda>s. s\<lparr>c_dr7 := c_dr7 s AND NOT 0x155\<rparr>)]) s))) s)"

subsection \<open>Interrupts and exceptions\<close>

definition saved_eip :: "nat \<Rightarrow> bool \<Rightarrow> cpu \<Rightarrow> u32" where
  "saved_eip irq irq_gate s = (if irq = 3 \<or> irq = 4 \<or> irq = 9 \<or> irq_gate then c_eip s else c_prev_eip s)"

definition trap_real :: "nat \<Rightarrow> bool \<Rightarrow> unit step" where
  "trap_real irq irq_gate s =
     (let entry = of_nat (irq * 4)
      in steps
        [PUSH16 (ucast (get_flags s)), PUSH16 (s_selector (c_sreg s CS)), PUSH16 (ucast (saved_eip irq irq_gate s)),
         bnd (READ16 (c_idtr_base s + entry + 2)) (\<lambda>v. modify (set_selector CS v)),
         bnd (READ16 (c_idtr_base s + entry)) (\<lambda>v. modify (\<lambda>s. s\<lparr>c_eip := ucast v\<rparr>)),
         modify (\<lambda>s. s\<lparr>c_TF := False, c_IF := False\<rparr>)] s)"

definition finish_jump :: "unit step" where
  "finish_jump = seq (i386_load_segment_descriptor CS) jump_eip"

definition trap_task_gate :: "nat \<Rightarrow> bool \<Rightarrow> u16 \<Rightarrow> unit step" where
  "trap_task_gate irq irq_gate segment =
     bnd (load_scratch segment) (\<lambda>desc s.
       checked [(tst segment 4, FAULT_TS, rpl0 segment),
                (ucast (c_gdtr_limit s) < (ucast segment :: u32), FAULT_TS, rpl0 segment),
                (s_flags desc AND 0xf \<noteq> 9 \<and> s_flags desc AND 0xf \<noteq> 1, FAULT_TS, rpl0 segment),
                (\<not> tst (s_flags desc) 0x80, FAULT_NP, rpl0 segment)]
         (seq (modify (\<lambda>s. s\<lparr>c_eip := saved_eip irq irq_gate s\<rparr>))
           (if tst (s_flags desc) 8 then i386_task_switch (s_selector desc) True else i286_task_switch (s_selector desc) True)) s)"

text \<open>The stack limits of the inner privilege are compared with the bases of the tables. \<open>space\<close> is the room a frame needs.\<close>

definition no_space :: "sreg \<Rightarrow> u32 \<Rightarrow> u32 \<Rightarrow> bool" where
  "no_space stack newESP space \<longleftrightarrow> newESP < space \<and> \<not> tst (s_flags stack) 4 \<or>
     NOT (s_limit stack) < NOT (newESP - 1) + space \<and> tst (s_flags stack) 4"

definition clear_data_selectors :: "cpu \<Rightarrow> cpu" where
  "clear_data_selectors s = (set_selector ES 0 (set_selector DS 0 (set_selector FS 0 (set_selector GS 0 s))))\<lparr>c_VM := False\<rparr>"

definition leave_v86 :: "bool \<Rightarrow> unit step" where
  "leave_v86 gate32 s =
     (let sel = (\<lambda>r. s_selector (c_sreg s r)); p = (\<lambda>r. if gate32 then PUSH32SEG (ucast (sel r)) else PUSH16 (sel r))
      in steps [p GS, p FS, p DS, p ES, modify clear_data_selectors, i386_load_segment_descriptor GS, i386_load_segment_descriptor FS,
           i386_load_segment_descriptor DS, i386_load_segment_descriptor ES] s)"

definition trap_new_stack :: "bool \<Rightarrow> u8 \<Rightarrow> sreg \<Rightarrow> u32 \<Rightarrow> u16 \<Rightarrow> u32 \<Rightarrow> unit step" where
  "trap_new_stack gate32 DPL stack newESP oldSS oldESP =
     seq (modify (\<lambda>s. s\<lparr>c_CPL := DPL\<rparr>))
       (seq (WRITE_TEST (s_base stack + newESP - 1))
         (seq (modify (set_selector SS (s_selector stack)))
           (bnd (\<lambda>s. i386_load_protected_mode_segment (c_sreg s SS) s) (\<lambda>r. steps
             [modify (set_sreg SS (fst r)), i386_set_descriptor_accessed (s_selector stack), modify (set_reg32 ESP newESP),
              (\<lambda>s. only_if (c_VM s) (leave_v86 gate32) s),
              if gate32 then seq (PUSH32SEG (ucast oldSS)) (PUSH32 oldESP) else seq (PUSH16 oldSS) (PUSH16 (ucast oldESP))]))))"

definition trap_inner :: "u16 \<Rightarrow> sreg \<Rightarrow> u32 \<Rightarrow> u16 \<Rightarrow> u32 \<Rightarrow> unit step" where
  "trap_inner segment desc type flags offset s =
     (let DPL = dpl_of (s_flags desc); gate32 = tst type 8
      in checked [(c_VM s \<and> DPL \<noteq> 0, FAULT_GP, rpl0 segment)]
        (bnd (i386_get_stack_segment DPL) (\<lambda>sel. bnd (load_scratch (ucast sel)) (\<lambda>stack s.
          let oldSS = s_selector (c_sreg s SS); oldESP = (if tst flags 8 then c_reg s ESP else ucast (reg16 ESP s));
              selector = s_selector stack; below = (fst (table_of selector s) < ucast (selector AND NOT 7))
          in checked [(selector AND NOT 3 = 0, FAULT_GP, 1), (below, FAULT_TS, rpl0 selector + 1),
               (ucast selector AND 3 \<noteq> DPL, FAULT_TS, rpl0 selector + 1), (dpl_of (s_flags stack) \<noteq> DPL, FAULT_TS, rpl0 selector + 1),
               (s_flags stack AND 0x18 \<noteq> 0x10 \<and> tst (s_flags stack) 2, FAULT_TS, rpl0 selector + 1),
               (\<not> tst (s_flags stack) 0x80, FAULT_SS, rpl0 selector + 1)]
             (bnd (i386_get_stack_ptr DPL) (\<lambda>ptr s.
               let newESP = (if gate32 then ptr else ptr AND 0xffff);
                   space = (if gate32 then if c_VM s then 36 else 20 else if c_VM s then 18 else 10)
               in checked [(no_space stack newESP space, FAULT_SS, 0), (s_limit desc < offset, FAULT_GP, 0)]
                    (trap_new_stack gate32 DPL stack newESP oldSS oldESP) s)) s))) s)"

definition trap_same :: "u16 \<Rightarrow> sreg \<Rightarrow> u32 \<Rightarrow> u32 \<Rightarrow> unit step" where
  "trap_same segment desc type offset s =
     (if tst (s_flags desc) 4 \<or> dpl_of (s_flags desc) = c_CPL s
      then checked [(c_VM s \<and> c_ext s = 0, FAULT_GP, rpl0 segment),
             (c_reg s ESP < (if type = 0xe \<or> type = 0xf then 10 else 6), FAULT_SS, 0), (s_limit desc < offset, FAULT_GP, 0)] (ret ()) s
      else fault_exp FAULT_GP (ucast segment) s)"

text \<open>A fault while the frame is pushed leaves the stack pointer where it was.\<close>

definition restoring_esp :: "unit step \<Rightarrow> unit step" where
  "restoring_esp f s = (case f s of (Inl e, s1) \<Rightarrow> (Inl e, set_reg32 ESP (c_reg s ESP) s1) | (Inr u, s1) \<Rightarrow> (Inr u, s1))"

definition push_frame :: "nat \<Rightarrow> bool \<Rightarrow> u32 \<Rightarrow> u32 \<Rightarrow> unit step" where
  "push_frame irq irq_gate type oldflags s =
     restoring_esp
       (if type \<noteq> 0xe \<and> type \<noteq> 0xf
        then steps [PUSH16 (ucast oldflags), PUSH16 (s_selector (c_sreg s CS)), PUSH16 (ucast (saved_eip irq irq_gate s))]
        else steps [PUSH32 (oldflags AND 0x00ffffff OR 0x10000), PUSH32SEG (ucast (s_selector (c_sreg s CS))), PUSH32 (saved_eip irq irq_gate s)]) s"

definition enter_handler :: "u16 \<Rightarrow> u32 \<Rightarrow> u32 \<Rightarrow> cpu \<Rightarrow> cpu" where
  "enter_handler segment type offset s =
     (let s1 = (set_selector CS ((segment AND NOT 3) OR ucast (c_CPL s)) s)\<lparr>c_eip := offset\<rparr>
      in (if type = 0xe \<or> type = 0x6 then s1\<lparr>c_IF := False\<rparr> else s1)\<lparr>c_TF := False, c_NT := False\<rparr>)"

definition trap_gate :: "nat \<Rightarrow> bool \<Rightarrow> u16 \<Rightarrow> u32 \<Rightarrow> u16 \<Rightarrow> u32 \<Rightarrow> u32 \<Rightarrow> unit step" where
  "trap_gate irq irq_gate segment type flags offset oldflags =
     bnd (load_scratch segment) (\<lambda>desc s.
       checked [(segment AND NOT 3 = 0, FAULT_GP, 1), (past_limit segment s, FAULT_GP, ucast (segment AND 3) + 1),
                (s_flags desc AND 0x18 \<noteq> 0x18, FAULT_GP, ucast (segment AND 3) + 1),
                (\<not> tst (s_flags desc) 0x80, FAULT_NP, ucast (segment AND 3) + 1)]
         (seq (if \<not> tst (s_flags desc) 4 \<and> dpl_of (s_flags desc) < c_CPL s
               then trap_inner segment desc type flags offset else trap_same segment desc type offset)
           (seq (push_frame irq irq_gate type oldflags) (modify (enter_handler segment type offset)))) s)"

text \<open>The gate of the interrupt. \<open>again\<close> is what the one check that does not throw calls instead: the delivery of a general
  protection fault, after which the function returns.\<close>

definition gate_type :: "u32 \<Rightarrow> u32" where
  "gate_type v2 = drop_bit 8 v2 AND 0x1f"

definition trap_protected :: "nat \<Rightarrow> bool \<Rightarrow> unit step \<Rightarrow> unit step" where
  "trap_protected irq irq_gate again s0 =
     (let entry = of_nat (irq * 8); oldflags = get_flags s0
      in bnd (READ32PL (c_idtr_base s0 + entry) 0) (\<lambda>v1. bnd (READ32PL (c_idtr_base s0 + entry + 4) 0) (\<lambda>v2 s.
           let offset = (v2 AND 0xffff0000) OR (v1 AND 0xffff); segment = ucast (drop_bit 16 v1); type = gate_type v2;
               flags = ucast (drop_bit 8 v2) AND 0xf0ff; software = (c_ext s = 0)
           in checked [(ucast (c_idtr_limit s) \<le> entry, FAULT_GP, entry + 2),
                       (type \<notin> {5, 6, 7, 0xe, 0xf}, FAULT_GP, entry + 2),
                       (software \<and> dpl_of flags < c_CPL s, FAULT_GP, entry + 2)]
             (if software \<and> c_VM s \<and> (\<not> c_IOP1 s \<or> \<not> c_IOP2 s) \<and> c_opcode s \<noteq> 0xcc then seq (modify set_ext) again
              else checked [(\<not> tst flags 0x80, FAULT_NP, entry + 2)]
                (if type = 5 then trap_task_gate irq irq_gate segment
                 else seq (trap_gate irq irq_gate segment type flags offset oldflags) finish_jump)) s)) s0)"

definition trap_body :: "nat \<Rightarrow> bool \<Rightarrow> unit step \<Rightarrow> unit step" where
  "trap_body irq irq_gate again s =
     (if PROTECTED_MODE s then trap_protected irq irq_gate again s else seq (trap_real irq irq_gate) finish_jump s)"

subsection \<open>Error codes, double and triple faults\<close>

definition push_error :: "nat \<Rightarrow> u32 \<Rightarrow> unit step" where
  "push_error irq error s =
     (if irq \<in> {8, 10, 11, 12, 13, 14}
      then if PROTECTED_MODE s
           then bnd (READ32PL (c_idtr_base s + of_nat (irq * 8) + 4) 0) (\<lambda>v2.
                  bnd (if gate_type v2 = 5
                       then bnd (\<lambda>s. READ32PL (c_idtr_base s + of_nat (irq * 8)) 0 s) (\<lambda>w.
                              bnd (\<lambda>s. READ32PL (c_gdtr_base s + (drop_bit 16 w AND 0xfff8) + 4) 0 s) (\<lambda>x. ret (gate_type x)))
                       else ret (gate_type v2))
                    (\<lambda>type. if 9 \<le> type then PUSH32 error else PUSH16 (ucast error))) s
           else PUSH16 (ucast error) s
      else ret () s)"

definition catching :: "unit step \<Rightarrow> unit step \<Rightarrow> unit step" where
  "catching f handler s = (case f s of (Inl e, s1) \<Rightarrow> handler s1 | (Inr u, s1) \<Rightarrow> (Inr u, s1))"

definition deliver :: "nat \<Rightarrow> bool \<Rightarrow> unit step \<Rightarrow> u32 \<Rightarrow> unit step" where
  "deliver irq irq_gate again error = seq (trap_body irq irq_gate again) (push_error irq error)"

text \<open>A fault in the delivery of a double fault pulses the reset line.\<close>

definition triple_fault :: "unit step" where
  "triple_fault = modify (\<lambda>s. s\<lparr>c_reset_pulse := True\<rparr>)"

definition double_fault :: "unit step \<Rightarrow> unit step" where
  "double_fault again = catching (deliver 8 False again 0) triple_fault"

definition trap_levels :: "nat \<Rightarrow> bool \<Rightarrow> unit step \<Rightarrow> u32 \<Rightarrow> unit step" where
  "trap_levels irq irq_gate again error = catching (deliver irq irq_gate again error) (seq (modify set_ext) (double_fault again))"

text \<open>The general protection fault raised inside a delivery is delivered with EXT set, where the check that raised it is
  skipped, so its own \<open>again\<close> is never used.\<close>

definition nested_fault :: "unit step" where
  "nested_fault = trap_levels 13 False (ret ()) 0"

definition i386_trap :: "nat \<Rightarrow> bool \<Rightarrow> unit step" where
  "i386_trap irq irq_gate = trap_body irq irq_gate nested_fault"

definition i386_trap_with_error :: "nat \<Rightarrow> bool \<Rightarrow> u32 \<Rightarrow> unit step" where
  "i386_trap_with_error irq irq_gate error = trap_levels irq irq_gate nested_fault error"

definition FAULT :: "pm_fault \<Rightarrow> u32 \<Rightarrow> unit step" where
  "FAULT f error = seq (modify set_ext) (i386_trap_with_error (fault_code f) False error)"

lemma again_unused: "c_ext s \<noteq> 0 \<Longrightarrow> trap_body irq irq_gate again s = trap_body irq irq_gate again' s"
proof -
  assume "c_ext s \<noteq> 0"
  then have e: "\<not> (c_ext s2 = 0 \<and> P)" if "core s1 = core s" "core s2 = core s1" for s1 s2 P using core_eq [of s2 s] that by simp
  have "trap_protected irq irq_gate again s = trap_protected irq irq_gate again' s"
    unfolding trap_protected_def Let_def
    by (rule bnd_core_cong [OF memory_only_reads(3)], rule bnd_core_cong [OF memory_only_reads(3)]) (simp only: if_not_P [OF e])
  then show ?thesis by (simp add: trap_body_def)
qed

subsection \<open>The return from an interrupt\<close>

text \<open>Here a failing check delivers its fault at once, and the instruction ends.\<close>

definition guarded :: "(bool \<times> pm_fault \<times> u32) list \<Rightarrow> unit step \<Rightarrow> unit step" where
  "guarded cs body = (case first_fault cs of None \<Rightarrow> body | Some f \<Rightarrow> FAULT (fst f) (snd f))"

definition stack_offset :: "cpu \<Rightarrow> u32" where
  "stack_offset s = (if s_d (c_sreg s SS) then c_reg s ESP else ucast (reg16 ESP s))"

definition pop_bytes :: "bool \<Rightarrow> u32 \<Rightarrow> cpu \<Rightarrow> cpu" where
  "pop_bytes operand32 n s = (if operand32 then set_reg32 ESP (c_reg s ESP + n) s else set_reg16 ESP (reg16 ESP s + ucast n) s)"

definition read_operand :: "bool \<Rightarrow> u32 \<Rightarrow> u32 step" where
  "read_operand operand32 ea = (if operand32 then READ32 ea else bnd (READ16 ea) (\<lambda>v. ret (ucast v)))"

text \<open>IOPL can change at privilege 0 only, IF if the privilege is at least IOPL.\<close>

definition returned_flags :: "u32 \<Rightarrow> cpu \<Rightarrow> u32" where
  "returned_flags newflags s =
     (if c_CPL s = 0 then newflags
      else let f = (newflags AND NOT 0x3000) OR (get_flags s AND 0x3000)
           in if iopl s < c_CPL s then (f AND NOT 0x200) OR (get_flags s AND 0x200) else f)"

definition iret_v86 :: "bool \<Rightarrow> u32 \<Rightarrow> u16 \<Rightarrow> u32 \<Rightarrow> unit step" where
  "iret_v86 operand32 newEIP newCS newflags s =
     guarded [(iopl s \<noteq> 3, FAULT_GP, 0)]
       (let keep = push_bit 12 (drop_bit 12 (get_flags s) AND 3);
            f = (if operand32 then (newflags AND NOT 0x3000) OR (0x20000 OR keep)
                 else ((newflags AND NOT 0x3000) OR keep) AND 0xffff OR (get_flags s AND NOT 0xffff))
        in seq (modify (\<lambda>s. pop_bytes operand32 (if operand32 then 12 else 6) (set_flags f
                 ((set_selector CS newCS s)\<lparr>c_eip := (if operand32 then newEIP else newEIP AND 0xffff)\<rparr>))))
             finish_jump) s"

definition iret_task :: "unit step" where
  "iret_task s =
     bnd (READ32 (d_base (c_task s))) (\<lambda>task. guarded
       [(tst task 4, FAULT_TS, task AND NOT 3), (ucast (c_gdtr_limit s) \<le> task AND NOT 7, FAULT_TS, task AND NOT 3)]
       (bnd (load_scratch (ucast task)) (\<lambda>desc. guarded
          [(s_flags desc AND 0x1f \<noteq> 0xb, FAULT_TS, task AND NOT 3), (\<not> tst (s_flags desc) 0x80, FAULT_NP, task AND NOT 3)]
          (if tst (s_flags desc) 8 then i386_task_switch (s_selector desc) False else i286_task_switch (s_selector desc) False)))) s"

definition pop_selector :: "sreg_name \<Rightarrow> unit step" where
  "pop_selector r = bnd POP32 (\<lambda>v. modify (set_selector r (ucast v)))"

definition iret_to_v86 :: "u32 \<Rightarrow> u32 \<Rightarrow> unit step" where
  "iret_to_v86 ea newflags =
     bnd (READ32 (ea + 12)) (\<lambda>_. bnd (READ32 (ea + 16)) (\<lambda>_ s. steps
       [modify (set_flags (returned_flags newflags s)),
        bnd POP32 (\<lambda>v. modify (\<lambda>s. s\<lparr>c_eip := v AND 0xffff\<rparr>)), pop_selector CS, bnd POP32 (\<lambda>_. ret ()),
        bnd POP32 (\<lambda>newESP. bnd POP32 (\<lambda>newSS. steps
          [pop_selector ES, pop_selector DS, pop_selector FS, pop_selector GS,
           modify (set_reg32 ESP newESP), modify (set_selector SS (ucast newSS))])),
        i386_load_segment_descriptor ES, i386_load_segment_descriptor DS, i386_load_segment_descriptor FS, i386_load_segment_descriptor GS,
        i386_load_segment_descriptor SS, modify (\<lambda>s. s\<lparr>c_CPL := 3\<rparr>), finish_jump] s))"

definition at_or_past_limit :: "u16 \<Rightarrow> cpu \<Rightarrow> bool" where
  "at_or_past_limit selector s \<longleftrightarrow> snd (table_of selector s) \<le> ucast (selector AND NOT 7)"

definition code_checks :: "u16 \<Rightarrow> sreg \<Rightarrow> (bool \<times> pm_fault \<times> u32) list" where
  "code_checks newCS desc =
     (let DPL = dpl_of (s_flags desc); RPL = ucast newCS AND 3
      in [(tst (s_flags desc) 4 \<and> RPL < DPL, FAULT_GP, rpl0 newCS), (\<not> tst (s_flags desc) 4 \<and> DPL \<noteq> RPL, FAULT_GP, rpl0 newCS),
          (\<not> tst (s_flags desc) 0x80, FAULT_NP, rpl0 newCS)])"

definition iret_same :: "bool \<Rightarrow> u32 \<Rightarrow> u16 \<Rightarrow> u32 \<Rightarrow> unit step" where
  "iret_same operand32 newEIP newCS newflags s =
     guarded [(i386_limit_check SS (stack_offset s + (if operand32 then 11 else 5)) 1 s, FAULT_SS, 0),
              (newCS AND NOT 3 = 0, FAULT_GP, 0), (at_or_past_limit newCS s, FAULT_GP, rpl0 newCS)]
       (bnd (load_scratch newCS) (\<lambda>desc s. guarded
          ((s_flags desc AND 0x18 \<noteq> 0x18, FAULT_GP, ucast (newCS AND NOT 7)) # code_checks newCS desc @ [(s_limit desc < newEIP, FAULT_GP, 0)])
          (seq (modify (\<lambda>s. pop_bytes operand32 (if operand32 then 12 else 6) (set_flags (returned_flags newflags s)
                 ((set_selector CS newCS s)\<lparr>c_eip := newEIP\<rparr>)))) finish_jump) s)) s"

definition outer_stack_checks :: "u16 \<Rightarrow> u16 \<Rightarrow> sreg \<Rightarrow> cpu \<Rightarrow> (bool \<times> pm_fault \<times> u32) list" where
  "outer_stack_checks newCS newSS stack s =
     [(newSS AND NOT 3 = 0, FAULT_GP, 0), (at_or_past_limit newSS s, FAULT_GP, rpl0 newSS),
      (newSS AND 3 \<noteq> newCS AND 3, FAULT_GP, rpl0 newSS), (s_flags stack AND 0x18 \<noteq> 0x10, FAULT_GP, rpl0 newSS),
      (\<not> tst (s_flags stack) 2, FAULT_GP, rpl0 newSS), (dpl_of (s_flags stack) \<noteq> ucast newCS AND 3, FAULT_GP, rpl0 newSS),
      (\<not> tst (s_flags stack) 0x80, FAULT_NP, rpl0 newSS)]"

definition enter_outer :: "bool \<Rightarrow> u32 \<Rightarrow> u16 \<Rightarrow> u32 \<Rightarrow> u32 \<Rightarrow> u16 \<Rightarrow> cpu \<Rightarrow> cpu" where
  "enter_outer operand32 newEIP newCS newflags newESP newSS s =
     (let s1 = set_flags (returned_flags newflags s) ((set_selector CS newCS s)\<lparr>c_eip := (if operand32 then newEIP else newEIP AND 0xffff)\<rparr>);
          s2 = (if operand32 then set_reg32 ESP newESP s1 else set_reg16 ESP (ucast newESP) s1)
      in (set_selector SS newSS s2)\<lparr>c_CPL := ucast newCS AND 3\<rparr>)"

definition iret_outer :: "bool \<Rightarrow> u32 \<Rightarrow> u32 \<Rightarrow> u16 \<Rightarrow> u32 \<Rightarrow> unit step" where
  "iret_outer operand32 ea newEIP newCS newflags =
     bnd (load_scratch newCS) (\<lambda>desc s. guarded
       ([(i386_limit_check SS (stack_offset s + (if operand32 then 19 else 9)) 1 s, FAULT_SS, 0),
         (newCS AND NOT 3 = 0, FAULT_GP, 0), (at_or_past_limit newCS s, FAULT_GP, rpl0 newCS),
         (s_flags desc AND 0x18 \<noteq> 0x18, FAULT_GP, rpl0 newCS)] @ code_checks newCS desc)
       (bnd (read_operand operand32 (ea + (if operand32 then 12 else 6))) (\<lambda>newESP.
         bnd (read_operand operand32 (ea + (if operand32 then 16 else 8))) (\<lambda>v. let newSS = ucast v in
         bnd (load_scratch newSS) (\<lambda>stack s. guarded (outer_stack_checks newCS newSS stack s @ [(s_limit desc < newEIP, FAULT_GP, 0)])
           (steps [modify (enter_outer operand32 newEIP newCS newflags newESP newSS), i386_load_segment_descriptor SS,
              i386_check_sreg_validity DS, i386_check_sreg_validity ES, i386_check_sreg_validity FS, i386_check_sreg_validity GS,
              finish_jump]) s)))) s)"

definition i386_protected_mode_iret :: "bool \<Rightarrow> unit step" where
  "i386_protected_mode_iret operand32 s =
     bnd (i386_translate SS (stack_offset s) 0 1) (\<lambda>ea. let w = (if operand32 then 4 else 2) in
       bnd (read_operand operand32 ea) (\<lambda>newEIP. bnd (read_operand operand32 (ea + w)) (\<lambda>cs.
       bnd (read_operand operand32 (ea + 2 * w)) (\<lambda>newflags s. let newCS = ucast cs; RPL = ucast newCS AND 3 in
         if c_VM s then iret_v86 operand32 newEIP newCS newflags s
         else if c_NT s then iret_task s
         else if tst newflags 0x20000 then iret_to_v86 ea newflags s
         else guarded [(i386_limit_check SS (stack_offset s + (if operand32 then 7 else 3)) 1 s, FAULT_SS, 0),
                       (RPL < c_CPL s, FAULT_GP, rpl0 newCS)]
           (if RPL = c_CPL s then iret_same operand32 newEIP newCS newflags else iret_outer operand32 ea newEIP newCS newflags) s)))) s"

definition i386_iret16 :: "unit step" where
  "i386_iret16 s =
     seq (if PROTECTED_MODE s then i386_protected_mode_iret False
          else steps [bnd POP16 (\<lambda>v. modify (\<lambda>s. s\<lparr>c_eip := ucast v\<rparr>)), bnd POP16 (\<lambda>v. modify (set_selector CS v)),
            bnd POP16 (\<lambda>v. modify (set_flags (ucast v))), finish_jump])
       (modify (\<lambda>s. s\<lparr>c_auto_clear_RF := False\<rparr>)) s"

definition i386_iret32 :: "unit step" where
  "i386_iret32 s =
     seq (if PROTECTED_MODE s then i386_protected_mode_iret True
          else steps [bnd POP32 (\<lambda>v. modify (\<lambda>s. s\<lparr>c_eip := v\<rparr>)), pop_selector CS,
            bnd POP32 (\<lambda>v. modify (set_flags v)), finish_jump])
       (modify (\<lambda>s. s\<lparr>c_auto_clear_RF := False\<rparr>)) s"

subsection \<open>Loading a segment register\<close>

text \<open>The test for a writable data segment rejects what is no data segment and writable, so a read-only data segment and
  a system descriptor without its bit 1 pass.\<close>

definition stack_segment_checks :: "u16 \<Rightarrow> sreg \<Rightarrow> cpu \<Rightarrow> (bool \<times> pm_fault \<times> u32) list" where
  "stack_segment_checks selector desc s =
     [(selector AND NOT 3 = 0, FAULT_GP, 0), (past_limit selector s, FAULT_GP, rpl0 selector),
      (ucast (selector AND 3) \<noteq> c_CPL s, FAULT_GP, rpl0 selector),
      (s_flags desc AND 0x18 \<noteq> 0x10 \<and> tst (s_flags desc) 2, FAULT_GP, rpl0 selector),
      (dpl_of (s_flags desc) \<noteq> c_CPL s, FAULT_GP, rpl0 selector), (\<not> tst (s_flags desc) 0x80, FAULT_SS, rpl0 selector)]"

definition data_segment_checks :: "u16 \<Rightarrow> sreg \<Rightarrow> cpu \<Rightarrow> (bool \<times> pm_fault \<times> u32) list" where
  "data_segment_checks selector desc s =
     (let f = s_flags desc; RPL = ucast (selector AND 3); DPL = dpl_of f
      in [(past_limit selector s, FAULT_GP, rpl0 selector),
          (f AND 0x18 \<noteq> 0x10 \<and> (tst f 2 \<and> f AND 0x18 \<noteq> 0x18 \<or> \<not> tst f 0x10), FAULT_GP, rpl0 selector),
          ((f AND 0x18 = 0x10 \<or> \<not> tst f 4 \<and> f AND 0x18 = 0x18) \<and> (DPL < RPL \<or> DPL < c_CPL s), FAULT_GP, rpl0 selector),
          (\<not> tst f 0x80, FAULT_NP, rpl0 selector)])"

text \<open>The result says whether a fault was delivered instead.\<close>

definition i386_sreg_load :: "u16 \<Rightarrow> sreg_name \<Rightarrow> bool step" where
  "i386_sreg_load selector reg s =
     (let load = seq (modify (set_selector reg selector)) (seq (i386_load_segment_descriptor reg) (ret False));
          attempt = (\<lambda>cs. case first_fault cs of None \<Rightarrow> load | Some f \<Rightarrow> seq (FAULT (fst f) (snd f)) (ret True))
      in if \<not> PROTECTED_MODE s \<or> c_VM s then load s
         else if reg = SS then bnd (load_scratch selector) (\<lambda>desc s. attempt (stack_segment_checks selector desc s) s) s
         else if reg \<noteq> CS
         then if selector AND NOT 3 = 0 then load s
              else bnd (load_scratch selector) (\<lambda>desc s. attempt (data_segment_checks selector desc s) s) s
         else load s)"

end
