(* ===== verification/I386_Interrupts.thy ===== *)
theory I386_Interrupts
  imports I386_Traps
begin

text \<open>
  What the interrupts of the i386 promise in real mode: a handler that leaves its stack frame alone returns to the
  interrupted instruction with the flags as they were. The flag word and the stack in real mode come first.
\<close>

unbundle bit_operations_syntax

subsection \<open>The flag word\<close>

lemma bit_flag_bit: "bit (flag_bit n b) i = (b \<and> i = n \<and> n < 32)"
  by (auto simp: flag_bit_def bit_exp_iff)

abbreviation "known_flags \<equiv> 0x003f7fd7 :: u32"

text \<open>What the flag word holds of the flags under the mask.\<close>

lemma get_flags_bits:
  assumes "bit (c_eflags_mask s) n"
  shows "bit (get_flags s) n = (n = 1 \<or> f_CF (c_flags s) \<and> n = 0 \<or> f_PF (c_flags s) \<and> n = 2 \<or> f_AF (c_flags s) \<and> n = 4 \<or>
    f_ZF (c_flags s) \<and> n = 6 \<or> f_SF (c_flags s) \<and> n = 7 \<or> c_TF s \<and> n = 8 \<or> c_IF s \<and> n = 9 \<or> c_DF s \<and> n = 10 \<or> f_OF (c_flags s) \<and> n = 11 \<or>
    c_IOP1 s \<and> n = 12 \<or> c_IOP2 s \<and> n = 13 \<or> c_NT s \<and> n = 14 \<or> c_RF s \<and> n = 16 \<or> c_VM s \<and> n = 17 \<or> c_AC s \<and> n = 18 \<or> c_VIF s \<and> n = 19 \<or>
    c_VIP s \<and> n = 20 \<or> c_ID s \<and> n = 21)"
proof -
  have two: "bit (2 :: u32) n = (n = 1)" using bit_exp_iff [of 1 n, where 'a = "32 word"] by auto
  show ?thesis using assms unfolding get_flags_def Let_def bit_or_iff bit_and_iff bit_not_iff bit_flag_bit two by simp
qed

lemma flag_masks:
  "tst x 0x1 = bit x 0" "tst x 0x4 = bit x 2" "tst x 0x10 = bit x 4" "tst x 0x40 = bit x 6" "tst x 0x80 = bit x 7" "tst x 0x800 = bit x 11"
  "tst x 0x100 = bit x 8" "tst x 0x200 = bit x 9" "tst x 0x400 = bit x 10" "tst x 0x1000 = bit x 12" "tst x 0x2000 = bit x 13"
  "tst x 0x4000 = bit x 14" "tst x 0x10000 = bit x 16" "tst x 0x20000 = bit x 17" "tst x 0x40000 = bit x 18" "tst x 0x80000 = bit x 19"
  "tst x 0x100000 = bit x 20" "tst x 0x200000 = bit x 21" for x :: u32
  using tst_exp [of x 0] tst_exp [of x 2] tst_exp [of x 4] tst_exp [of x 6] tst_exp [of x 7] tst_exp [of x 11] tst_exp [of x 8] tst_exp [of x 9]
    tst_exp [of x 10] tst_exp [of x 12] tst_exp [of x 13] tst_exp [of x 14] tst_exp [of x 16] tst_exp [of x 17] tst_exp [of x 18] tst_exp [of x 19]
    tst_exp [of x 20] tst_exp [of x 21] by simp_all

text \<open>A flag word loaded and read back, for a mask of implemented flags.\<close>

lemma known_bits: "filter (bit known_flags) [0..<32] = [0, 1, 2, 4, 6, 7, 8, 9, 10, 11, 12, 13, 14, 16, 17, 18, 19, 20, 21]"
  by code_simp

lemma get_set_flags: "c_eflags_mask s AND NOT known_flags = 0 \<Longrightarrow> get_flags (set_flags w s) = ((w OR 2) AND c_eflags_mask s)"
proof (rule bit_word_eqI)
  fix n assume k: "c_eflags_mask s AND NOT known_flags = 0" and n: "n < LENGTH(32)"
  let ?m = "c_eflags_mask s"
  have two: "bit (2 :: u32) n = (n = 1)" using bit_exp_iff [of 1 n, where 'a = "32 word"] by auto
  have fields: "c_eflags_mask (set_flags w s) = ?m" "c_eflags (set_flags w s) = w AND ?m" by (simp_all add: set_flags_def Let_def)
  show "bit (get_flags (set_flags w s)) n = bit ((w OR 2) AND ?m) n"
  proof (cases "bit ?m n")
    case True
    have "bit known_flags n" using True arg_cong [OF k, of "\<lambda>x. bit x n"] n by (simp only: bit_and_iff bit_not_iff bit_0_eq bot_apply bot_bool_def) auto
    then have "n \<in> set (filter (bit known_flags) [0..<32])" using n by simp
    then have "n \<in> {0, 1, 2, 4, 6, 7, 8, 9, 10, 11, 12, 13, 14, 16, 17, 18, 19, 20, 21}" unfolding known_bits by simp
    moreover have "bit (get_flags (set_flags w s)) n = (n = 1 \<or> n \<noteq> 1 \<and> bit w n)" if "n \<in> {0, 1, 2, 4, 6, 7, 8, 9, 10, 11, 12, 13, 14, 16, 17, 18, 19, 20, 21}"
      using that True unfolding get_flags_bits [of "set_flags w s" n, unfolded fields(1), OF True] unfolding set_flags_def Let_def flag_masks
      by (elim insertE emptyE) (simp_all add: bit_and_iff)
    ultimately show ?thesis using True two by (auto simp: bit_and_iff bit_or_iff)
  next
    case False
    then show ?thesis unfolding get_flags_def Let_def fields by (simp add: bit_and_iff bit_or_iff bit_not_iff)
  qed
qed

subsection \<open>The stack in real mode\<close>

definition real_mode :: "cpu \<Rightarrow> bool" where
  "real_mode s \<longleftrightarrow> \<not> PROTECTED_MODE s \<and> \<not> tst (c_cr0 s) CR0_PG \<and> c_a20_mask s = 0xffffffff \<and> 0 < v_dynamic (c_vtlb s) \<and>
     v_pageshift (c_vtlb s) = 12 \<and> \<not> s_d (c_sreg s SS)"

definition put2 :: "u32 \<Rightarrow> u16 \<Rightarrow> (u32 \<Rightarrow> u8) \<Rightarrow> u32 \<Rightarrow> u8" where
  "put2 a v m = m(a := ucast v, a + 1 := ucast (drop_bit 8 v))"

definition get2 :: "u32 \<Rightarrow> (u32 \<Rightarrow> u8) \<Rightarrow> u16" where
  "get2 a m = le [m a, m (a + 1)]"

definition stack_addr :: "cpu \<Rightarrow> u16 \<Rightarrow> u32" where
  "stack_addr s off = s_base (c_sreg s SS) + ucast off"

lemma get_put2: "get2 a (put2 a v m) = v"
proof (rule bit_word_eqI)
  fix n assume n: "n < LENGTH(16)"
  have "bit (le [ucast v, ucast (drop_bit 8 v)] :: u16) n = bit v n"
    using n by (cases "n < 8") (auto simp: bit_or_iff bit_push_bit_iff bit_ucast_iff bit_drop_bit_eq)
  moreover have "a + 1 \<noteq> a" by simp
  ultimately show "bit (get2 a (put2 a v m)) n = bit v n" unfolding get2_def put2_def by simp
qed

lemma real_mmu: "real_mode s \<Longrightarrow> mmu_ok s"
  by (simp add: real_mode_def mmu_ok_def)

lemma real_mem [simp]: "real_mode (with_mem s m) = real_mode s" "real_mode (set_reg16 r v s) = real_mode s"
  by (simp_all add: real_mode_def with_mem_def PROTECTED_MODE_def set_reg16_def set_reg32_def)

lemma full_mask: "a AND 0xffffffff = (a :: u32)"
  unfolding value_masks by (rule bit_word_eqI) (auto simp: bit_and_iff bit_mask_iff)

lemma flat_physical: "real_mode s \<Longrightarrow> physical pl t a s = (Inr a, s)"
  by (simp add: real_mode_def physical_def translate_address_def full_mask)

lemma flat_WRITE8: "real_mode s \<Longrightarrow> WRITE8PL a pl v s = (Inr (), with_mem s ((c_mem s)(a := v)))"
  by (simp add: WRITE8PL_def bnd_def flat_physical store_def with_mem_def)

lemma flat_READ8: "real_mode s \<Longrightarrow> READ8PL a pl s = (Inr (c_mem s a), s)"
  by (simp add: READ8PL_def bnd_def flat_physical peek_def)

lemma flat_WRITE16: "real_mode s \<Longrightarrow> WRITE16 a v s = (Inr (), with_mem s (put2 a v (c_mem s)))"
proof -
  assume r: "real_mode s"
  have b: "bytes_of 2 v = [ucast v, ucast (drop_bit 8 v)]" by (simp add: bytes_of_def upt_small)
  show ?thesis using r agreeD [OF agree_WRITE16PL real_mmu [OF r], of a "c_CPL s" v]
    by (simp add: WRITE16_def write_le_def b bnd_def flat_WRITE8 ret_def put2_def)
qed

lemma flat_READ16: "real_mode s \<Longrightarrow> READ16 a s = (Inr (get2 a (c_mem s)), s)"
proof -
  assume r: "real_mode s"
  have b: "read_bytes 2 a pl s = (Inr [c_mem s a, c_mem s (a + 1)], s)" for pl
    using r by (simp add: numeral_2_eq_2 bnd_def flat_READ8 ret_def)
  show ?thesis using agreeD [OF agree_READ16PL real_mmu [OF r], of a "c_CPL s"]
    by (simp add: READ16_def read_le_def b bnd_def ret_def get2_def)
qed

lemma widen_narrow [simp]: "ucast (ucast x :: u32) = (x :: u16)"
  by (rule bit_word_eqI) (simp add: bit_ucast_iff)

lemma low16: "(ucast x - 2) AND 0xffff = (ucast (x - 2) :: u32)" "((ucast x + 2) - 2) AND 0xffff = (ucast x :: u32)" for x :: u16
proof -
  have m: "w AND 0xffff = ucast (ucast w :: u16)" for w :: u32
    unfolding value_masks by (rule bit_word_eqI) (auto simp: bit_and_iff bit_mask_iff bit_ucast_iff dest: bit_imp_le_length)
  have d: "(ucast (a - b :: u32) :: u16) = ucast a - ucast b" for a b :: u32
    by (simp add: word_uint_eq_iff uint_word_ariths unsigned_ucast_eq take_bit_eq_mod mod_simps mod_mod_cancel)
  have "(ucast (ucast x - 2 :: u32) :: u16) = x - 2" unfolding d by simp
  then show "(ucast x - 2) AND 0xffff = (ucast (x - 2) :: u32)" "((ucast x + 2) - 2) AND 0xffff = (ucast x :: u32)"
    unfolding m by simp_all
qed

lemma real_translate: "real_mode s \<Longrightarrow> i386_translate r ip rwn sz s = (Inr (s_base (c_sreg s r) + ip), s)"
  by (simp add: i386_translate_def real_mode_def ret_def)

lemma real_PUSH16:
  assumes "real_mode s"
  shows "PUSH16 v s = (Inr (), set_reg16 ESP (reg16 ESP s - 2) (with_mem s (put2 (stack_addr s (reg16 ESP s - 2)) v (c_mem s))))"
proof -
  have "\<not> s_d (c_sreg s SS)" using assms by (simp add: real_mode_def)
  then show ?thesis unfolding PUSH16_def push_def Let_def low16
    by (simp add: bnd_def real_translate [OF assms] seq_def flat_WRITE16 [OF assms] modify_def stack_addr_def)
qed

lemma real_POP16:
  assumes "real_mode s"
  shows "POP16 s = (Inr (get2 (stack_addr s (reg16 ESP s)) (c_mem s)), set_reg16 ESP (reg16 ESP s + 2) s)"
proof -
  have d: "\<not> s_d (c_sreg s SS)" using assms by (simp add: real_mode_def)
  have u: "ucast (ucast x + 2 :: u32) = x + 2" for x :: u16
    by (simp add: word_uint_eq_iff uint_word_ariths unsigned_ucast_eq take_bit_eq_mod mod_simps mod_mod_cancel)
  show ?thesis using d unfolding POP16_def pop_def Let_def low16 u
    by (simp add: bnd_def real_translate [OF assms] seq_def flat_READ16 [OF assms] modify_def ret_def stack_addr_def)
qed

text \<open>Three words on the stack do not overlap, wherever the pointer wraps.\<close>

lemma unat16: "unat x \<le> 65535" for x :: u16
  by (rule less_Suc_eq_le [THEN iffD1], rule order.strict_trans2 [OF unsigned_less]) simp

lemma stack_words:
  "ucast (x + 2) \<noteq> (ucast x :: u32)" "ucast (x + 2) \<noteq> (ucast x :: u32) + 1" "ucast x \<noteq> (ucast (x + 2) :: u32) + 1"
  "ucast (x + 4) \<noteq> (ucast x :: u32)" "ucast (x + 4) \<noteq> (ucast x :: u32) + 1" "ucast x \<noteq> (ucast (x + 4) :: u32) + 1" for x :: u16
proof -
  have u: "unat (ucast y :: u32) = unat y" for y :: u16
  proof -
    have "unat y < 4294967296" using unat16 [of y] by linarith
    then show ?thesis by (simp add: unsigned_ucast_eq take_bit_nat_eq_self_iff)
  qed
  have s: "unat ((ucast y :: u32) + 1) = unat y + 1" for y :: u16
  proof -
    have "unat y \<le> 65535" by (rule unat16)
    then show ?thesis by (simp add: unat_word_ariths u)
  qed
  have p: "unat (x + 2) = (if unat x < 65534 then unat x + 2 else unat x - 65534)" "unat (x + 4) = (if unat x < 65532 then unat x + 4 else unat x - 65532)"
  proof -
    have "unat x \<le> 65535" by (rule unat16)
    then show "unat (x + 2) = (if unat x < 65534 then unat x + 2 else unat x - 65534)" "unat (x + 4) = (if unat x < 65532 then unat x + 4 else unat x - 65532)"
      by (auto simp: unat_word_ariths mod_if)
  qed
  show "ucast (x + 2) \<noteq> (ucast x :: u32)" "ucast (x + 2) \<noteq> (ucast x :: u32) + 1" "ucast x \<noteq> (ucast (x + 2) :: u32) + 1"
    "ucast (x + 4) \<noteq> (ucast x :: u32)" "ucast (x + 4) \<noteq> (ucast x :: u32) + 1" "ucast x \<noteq> (ucast (x + 4) :: u32) + 1"
    unfolding word_unat_eq_iff u s p by (auto split: if_splits)
qed

subsection \<open>Interrupts in real mode\<close>

text \<open>The base a real-mode load of CS computes: sixteen times the selector, in the top megabyte until the first far jump.\<close>

definition real_cs_base :: "cpu \<Rightarrow> u16 \<Rightarrow> u32" where
  "real_cs_base s sel =
     (if c_performed_intersegment_jump s then push_bit 4 (ucast sel) else push_bit 4 (ucast sel) OR 0xfff00000)"

definition real_cs :: "cpu \<Rightarrow> u16 \<Rightarrow> sreg" where
  "real_cs s sel = (c_sreg s CS)\<lparr>s_selector := sel, s_base := real_cs_base s sel, s_d := False, s_valid := True,
     s_flags := (if c_cpu_version s < 0x500 then 0x93 else s_flags (c_sreg s CS))\<rparr>"

lemma real_cs_fields [simp]: "s_selector (real_cs s sel) = sel" "s_base (real_cs s sel) = real_cs_base s sel"
  by (simp_all add: real_cs_def)

lemma real_cs_cong:
  "c_sreg t CS = (c_sreg s CS)\<lparr>s_selector := v\<rparr> \<Longrightarrow> c_cpu_version t = c_cpu_version s \<Longrightarrow>
     c_performed_intersegment_jump t = c_performed_intersegment_jump s \<Longrightarrow> real_cs t sel = real_cs s sel"
  by (simp add: real_cs_def real_cs_base_def)

lemma real_finish_jump:
  fixes s :: cpu
  assumes "real_mode s"
  defines "g \<equiv> real_cs s (s_selector (c_sreg s CS))"
  shows "finish_jump s = (Inr (), (set_sreg CS g s)\<lparr>c_pc := s_base g + c_eip s\<rparr>)"
proof -
  have p: "\<not> PROTECTED_MODE s" using assms(1) by (simp add: real_mode_def)
  have g: "i386_load_segment_descriptor CS s = (Inr (), set_sreg CS g s)"
    using p by (simp add: i386_load_segment_descriptor_def Let_def modify_def g_def real_cs_def real_cs_base_def)
  have "CHANGE_PC pc t = (Inr (), t\<lparr>c_pc := s_base (c_sreg t CS) + pc\<rparr>)" for pc t
    by (simp add: CHANGE_PC_def i386_translate_def bnd_def ret_def modify_def)
  then show ?thesis using g by (simp add: finish_jump_def seq_def bnd_def jump_eip_def set_sreg_def)
qed

lemma bit_high16: "bit (w AND 0xffff0000) n = (16 \<le> n \<and> bit w n)" for w :: u32
proof -
  have e: "(0xffff0000 :: u32) = NOT (mask 16)" by (simp add: mask_eq_exp_minus_1)
  show ?thesis unfolding e by (auto simp: bit_and_iff bit_not_iff bit_mask_iff dest: bit_imp_le_length)
qed

lemma set_reg16_reads [simp]:
  "reg16 r (set_reg16 r v s) = v" "c_mem (set_reg16 r v s) = c_mem s" "c_sreg (set_reg16 r v s) = c_sreg s"
  "c_idtr_base (set_reg16 r v s) = c_idtr_base s" "with_mem (set_reg16 r v s) m = set_reg16 r v (with_mem s m)"
  "c_eflags_mask (set_reg16 r v s) = c_eflags_mask s" "stack_addr (set_reg16 r v s) = stack_addr s"
proof -
  show "reg16 r (set_reg16 r v s) = v"
    unfolding reg16_def set_reg16_def set_reg32_def
    by (rule bit_word_eqI) (auto simp: bit_ucast_iff bit_or_iff bit_high16)
qed (simp_all add: set_reg16_def set_reg32_def with_mem_def stack_addr_def fun_eq_iff)

lemma more_with_mem [simp]: "reg16 r (with_mem s m) = reg16 r s" "c_sreg (with_mem s m) = c_sreg s" "c_idtr_base (with_mem s m) = c_idtr_base s"
  "stack_addr (with_mem s m) = stack_addr s" "c_eflags_mask (with_mem s m) = c_eflags_mask s"
  by (simp_all add: with_mem_def reg16_def stack_addr_def fun_eq_iff)

lemma set_reg16_twice [simp]: "set_reg16 r v (set_reg16 r w s) = set_reg16 r v s"
proof -
  have "((c_reg s r AND 0xffff0000 OR ucast w) AND 0xffff0000) OR ucast v = (c_reg s r AND 0xffff0000) OR ucast v"
    by (rule bit_word_eqI, unfold bit_or_iff bit_high16) (auto simp: bit_ucast_iff bit_or_iff bit_high16 dest: bit_imp_le_length)
  then show ?thesis by (simp add: set_reg16_def set_reg32_def)
qed

lemma set_reg16_flags [simp]: "get_flags (set_reg16 r v s) = get_flags s" "get_flags (with_mem s m) = get_flags s"
  "saved_eip irq g (set_reg16 r v s) = saved_eip irq g s" "saved_eip irq g (with_mem s m) = saved_eip irq g s"
  by (simp_all add: get_flags_def set_reg16_def set_reg32_def with_mem_def saved_eip_def)

lemma more_performed [simp]:
  "c_performed_intersegment_jump (set_reg16 r v s) = c_performed_intersegment_jump s"
  "c_performed_intersegment_jump (with_mem s m) = c_performed_intersegment_jump s"
  "c_cpu_version (set_reg16 r v s) = c_cpu_version s" "c_cpu_version (with_mem s m) = c_cpu_version s"
  by (simp_all add: set_reg16_def set_reg32_def with_mem_def)

text \<open>The frame: instruction pointer, code segment and flags, from the top of the stack.\<close>

definition frame_mem :: "nat \<Rightarrow> bool \<Rightarrow> cpu \<Rightarrow> u32 \<Rightarrow> u8" where
  "frame_mem irq irq_gate s =
     (let x = reg16 ESP s - 6
      in put2 (stack_addr s x) (ucast (saved_eip irq irq_gate s)) (put2 (stack_addr s (x + 2)) (s_selector (c_sreg s CS))
           (put2 (stack_addr s (x + 4)) (ucast (get_flags s)) (c_mem s))))"

lemma steps_append: "steps (fs @ gs) = seq (steps fs) (steps gs)"
  by (induction fs) (simp_all add: seq_def)

lemma real_trap:
  assumes "real_mode s"
  shows "trap_real irq irq_gate s = (Inr (), (set_selector CS (get2 (c_idtr_base s + of_nat (irq * 4) + 2) (frame_mem irq irq_gate s))
    (set_reg16 ESP (reg16 ESP s - 6) (with_mem s (frame_mem irq irq_gate s))))
      \<lparr>c_eip := ucast (get2 (c_idtr_base s + of_nat (irq * 4)) (frame_mem irq irq_gate s)), c_TF := False, c_IF := False\<rparr>)"
proof -
  have sub: "reg16 ESP s - 2 - 2 = reg16 ESP s - 4" "reg16 ESP s - 4 - 2 = reg16 ESP s - 6" by simp_all
  have m: "reg16 ESP s - 6 + 2 = reg16 ESP s - 4" "reg16 ESP s - 6 + 4 = reg16 ESP s - 2" by simp_all
  let ?t = "set_reg16 ESP (reg16 ESP s - 6) (with_mem s (frame_mem irq irq_gate s))"
  have sel: "real_mode (set_selector CS v t) = real_mode t" "c_mem (set_selector CS v t) = c_mem t" for v t
    by (simp_all add: real_mode_def set_selector_def set_sreg_def PROTECTED_MODE_def)
  have t: "real_mode ?t" using assms by simp
  have "steps [PUSH16 (ucast (get_flags s)), PUSH16 (s_selector (c_sreg s CS)), PUSH16 (ucast (saved_eip irq irq_gate s))] s = (Inr (), ?t)"
    using assms by (simp add: seq_def bnd_def ret_def real_PUSH16 frame_mem_def Let_def sub m)
  moreover have "steps [bnd (READ16 a) (\<lambda>v. modify (set_selector CS v)), bnd (READ16 b) (\<lambda>v. modify (\<lambda>s. s\<lparr>c_eip := ucast v\<rparr>)),
      modify (\<lambda>s. s\<lparr>c_TF := False, c_IF := False\<rparr>)] ?t = (Inr (), (set_selector CS (get2 a (c_mem ?t)) ?t)
        \<lparr>c_eip := ucast (get2 b (c_mem ?t)), c_TF := False, c_IF := False\<rparr>)" for a b
    using t by (simp add: seq_def bnd_def ret_def flat_READ16 modify_def sel)
  ultimately have "steps ([PUSH16 (ucast (get_flags s)), PUSH16 (s_selector (c_sreg s CS)), PUSH16 (ucast (saved_eip irq irq_gate s))] @
      [bnd (READ16 a) (\<lambda>v. modify (set_selector CS v)), bnd (READ16 b) (\<lambda>v. modify (\<lambda>s. s\<lparr>c_eip := ucast v\<rparr>)),
       modify (\<lambda>s. s\<lparr>c_TF := False, c_IF := False\<rparr>)]) s = (Inr (), (set_selector CS (get2 a (c_mem ?t)) ?t)
        \<lparr>c_eip := ucast (get2 b (c_mem ?t)), c_TF := False, c_IF := False\<rparr>)" for a b
    unfolding steps_append by (simp only: seq_def bnd_def prod.case sum.case)
  then show ?thesis unfolding trap_real_def Let_def append_Cons append_Nil by simp
qed

text \<open>The words of the frame.\<close>

lemma get2_other: "a \<noteq> b \<Longrightarrow> a + 1 \<noteq> b \<Longrightarrow> a \<noteq> b + 1 \<Longrightarrow> get2 a (put2 b v m) = get2 a m"
  by (simp add: get2_def put2_def)

lemma frame_words:
  "get2 (stack_addr s (reg16 ESP s - 6)) (frame_mem irq irq_gate s) = ucast (saved_eip irq irq_gate s)"
  "get2 (stack_addr s (reg16 ESP s - 6 + 2)) (frame_mem irq irq_gate s) = s_selector (c_sreg s CS)"
  "get2 (stack_addr s (reg16 ESP s - 6 + 4)) (frame_mem irq irq_gate s) = ucast (get_flags s)"
proof -
  have n: "stack_addr s (x + 2) \<noteq> stack_addr s x" "stack_addr s (x + 2) \<noteq> stack_addr s x + 1" "stack_addr s x \<noteq> stack_addr s (x + 2) + 1"
    "stack_addr s (x + 4) \<noteq> stack_addr s x" "stack_addr s (x + 4) \<noteq> stack_addr s x + 1" "stack_addr s x \<noteq> stack_addr s (x + 4) + 1" for x
    using stack_words [of x] unfolding stack_addr_def add.assoc add_left_cancel by simp_all
  have f: "x + 2 + 2 = x + 4" for x :: u16 by simp
  let ?x = "reg16 ESP s - 6"
  have d: "get2 (stack_addr s (?x + 2)) (put2 (stack_addr s ?x) v m) = get2 (stack_addr s (?x + 2)) m"
    "get2 (stack_addr s (?x + 4)) (put2 (stack_addr s ?x) v m) = get2 (stack_addr s (?x + 4)) m"
    "get2 (stack_addr s (?x + 4)) (put2 (stack_addr s (?x + 2)) v m) = get2 (stack_addr s (?x + 4)) m" for v m
    using n [of ?x] n [of "?x + 2", unfolded f] by (intro get2_other; metis)+
  show "get2 (stack_addr s ?x) (frame_mem irq irq_gate s) = ucast (saved_eip irq irq_gate s)"
    "get2 (stack_addr s (?x + 2)) (frame_mem irq irq_gate s) = s_selector (c_sreg s CS)"
    "get2 (stack_addr s (?x + 4)) (frame_mem irq irq_gate s) = ucast (get_flags s)"
    unfolding frame_mem_def Let_def by (simp_all only: d get_put2)
qed

text \<open>The flags of the lower half of the flag word survive.\<close>

lemma flags_restored:
  assumes "c_eflags_mask s = 0x00037fd7" "c_eflags_mask t = 0x00037fd7"
  defines "t' \<equiv> set_flags (ucast (ucast (get_flags s) :: u16)) t"
  shows "c_flags t' = c_flags s \<and> c_TF t' = c_TF s \<and> c_IF t' = c_IF s \<and> c_DF t' = c_DF s \<and> c_NT t' = c_NT s \<and> c_IOP1 t' = c_IOP1 s \<and>
    c_IOP2 t' = c_IOP2 s"
proof -
  have m: "filter (bit (0x00037fd7 :: u32)) [0..<16] = [0, 1, 2, 4, 6, 7, 8, 9, 10, 11, 12, 13, 14]" by code_simp
  have b: "bit (ucast (ucast (get_flags s) :: u16) AND 0x00037fd7 :: u32) n = bit (get_flags s) n" "bit (c_eflags_mask s) n"
    if "n \<in> {0, 2, 4, 6, 7, 8, 9, 10, 11, 12, 13, 14}" for n
  proof -
    have "n \<in> set (filter (bit (0x00037fd7 :: u32)) [0..<16])" using that unfolding m by auto
    then have "n < 16" "bit (0x00037fd7 :: u32) n" by simp_all
    then show "bit (ucast (ucast (get_flags s) :: u16) AND 0x00037fd7 :: u32) n = bit (get_flags s) n" "bit (c_eflags_mask s) n"
      unfolding assms(1) by (simp_all only: bit_and_iff bit_ucast_iff) simp_all
  qed
  show ?thesis unfolding t'_def set_flags_def Let_def assms(2) flag_masks
    by (simp add: b(1) get_flags_bits [OF b(2)])
qed

lemma bnd_step: "f s = (Inr v, s1) \<Longrightarrow> bnd f g s = g v s1"
  by (simp add: bnd_def)

lemma real_iret:
  assumes r: "real_mode s"
  defines "x \<equiv> reg16 ESP s" and "w \<equiv> \<lambda>k. get2 (stack_addr s (reg16 ESP s + k)) (c_mem s)"
  obtains s3 t where "i386_iret16 s = (Inr (), s3)" "c_eip s3 = ucast (w 0)" "reg16 ESP s3 = x + 6"
    "c_flags s3 = c_flags (set_flags (ucast (w 4)) t)" "c_TF s3 = c_TF (set_flags (ucast (w 4)) t)" "c_IF s3 = c_IF (set_flags (ucast (w 4)) t)"
    "c_DF s3 = c_DF (set_flags (ucast (w 4)) t)" "c_NT s3 = c_NT (set_flags (ucast (w 4)) t)" "c_IOP1 s3 = c_IOP1 (set_flags (ucast (w 4)) t)"
    "c_IOP2 s3 = c_IOP2 (set_flags (ucast (w 4)) t)" "c_mem s3 = c_mem s" "c_eflags_mask t = c_eflags_mask s"
    "c_sreg s3 CS = real_cs s (w 2)" "c_pc s3 = s_base (c_sreg s3 CS) + c_eip s3"
proof -
  let ?a = "(set_reg16 ESP (x + 2) s)\<lparr>c_eip := ucast (w 0)\<rparr>"
  let ?b = "set_selector CS (w 2) (set_reg16 ESP (x + 4) ?a)"
  let ?fa = "bnd POP16 (\<lambda>v. modify (\<lambda>s. s\<lparr>c_eip := ucast v\<rparr>))" and ?fb = "bnd POP16 (\<lambda>v. modify (set_selector CS v))"
    and ?fc = "bnd POP16 (\<lambda>v. modify (set_flags (ucast v)))"
  let ?c = "set_flags (ucast (w 4)) (set_reg16 ESP (x + 6) ?b)"
  have f: "x + 2 + 2 = x + 4" "x + 4 + 2 = x + 6" by simp_all
  have keep: "real_mode (t\<lparr>c_eip := v\<rparr>) = real_mode t" "reg16 ESP (t\<lparr>c_eip := v\<rparr>) = reg16 ESP t" "stack_addr (t\<lparr>c_eip := v\<rparr>) = stack_addr t"
    "real_mode (set_selector CS u t) = real_mode t" "reg16 ESP (set_selector CS u t) = reg16 ESP t" "stack_addr (set_selector CS u t) = stack_addr t"
    "c_mem (set_selector CS u t) = c_mem t" "real_mode (set_flags z t) = real_mode t" "reg16 ESP (set_flags z t) = reg16 ESP t" for t u v z
    by (simp_all add: real_mode_def PROTECTED_MODE_def reg16_def stack_addr_def fun_eq_iff set_selector_def set_sreg_def set_flags_def Let_def)
  have ra: "real_mode ?a" "real_mode ?b" "real_mode ?c" using r by (simp_all add: keep)
  have w: "get2 (stack_addr s x) (c_mem s) = w 0" "get2 (stack_addr s (x + 2)) (c_mem s) = w 2" "get2 (stack_addr s (x + 4)) (c_mem s) = w 4"
    by (simp_all add: w_def x_def)
  have a: "?fa s = (Inr (), ?a)"
    using real_POP16 [OF r] unfolding x_def [symmetric] w(1) by (simp add: bnd_def modify_def)
  have b: "?fb ?a = (Inr (), ?b)"
    using real_POP16 [OF ra(1)] w(2) by (simp add: bnd_def modify_def keep f)
  have c: "?fc ?b = (Inr (), ?c)"
    using real_POP16 [OF ra(2)] w(3) by (simp add: bnd_def modify_def keep f)
  obtain g where g_def: "g = real_cs ?c (s_selector (c_sreg ?c CS))" by simp
  obtain p where p_def: "p = s_base g + c_eip ?c" by simp
  have d: "finish_jump ?c = (Inr (), (set_sreg CS g ?c)\<lparr>c_pc := p\<rparr>)" unfolding p_def g_def by (rule real_finish_jump [OF ra(3)])
  have "\<not> PROTECTED_MODE s" using r by (simp add: real_mode_def)
  note steps_eq = steps.simps seq_def bnd_step [of ?fa s, OF a] bnd_step [of ?fb ?a, OF b] bnd_step [of ?fc ?b, OF c]
    bnd_step [of finish_jump ?c, OF d]
  have e: "steps [?fa, ?fb, ?fc, finish_jump] s = (Inr (), (set_sreg CS g ?c)\<lparr>c_pc := p\<rparr>)"
    unfolding steps_eq ret_def ..
  have i: "i386_iret16 s = (Inr (), (set_sreg CS g ?c)\<lparr>c_pc := p, c_auto_clear_RF := False\<rparr>)"
    unfolding i386_iret16_def if_not_P [OF \<open>\<not> PROTECTED_MODE s\<close>] seq_def bnd_step [of "steps [?fa, ?fb, ?fc, finish_jump]" s, OF e] modify_def by simp
  let ?d = "(set_sreg CS g ?c)\<lparr>c_pc := p, c_auto_clear_RF := False\<rparr>"
  have fl: "c_flags ?d = c_flags ?c" "c_TF ?d = c_TF ?c" "c_IF ?d = c_IF ?c" "c_DF ?d = c_DF ?c" "c_NT ?d = c_NT ?c" "c_IOP1 ?d = c_IOP1 ?c"
    "c_IOP2 ?d = c_IOP2 ?c"
    by (simp_all add: set_sreg_def)
  have d2: "reg16 ESP ?d = reg16 ESP ?c" "c_eip ?d = c_eip ?c" "c_mem ?d = c_mem ?c" "c_sreg ?d CS = g" "c_pc ?d = p"
    by (simp_all add: set_sreg_def reg16_def)
  have c4: "c_eip ?c = ucast (w 0)" "s_selector (c_sreg ?c CS) = w 2" "c_mem ?c = c_mem s"
    by (simp_all add: set_flags_def Let_def set_selector_def set_sreg_def reg16_def set_reg16_def set_reg32_def)
  have sp: "reg16 ESP ?c = x + 6" by (simp only: keep(9) set_reg16_reads(1))
  have k: "c_eflags_mask (set_reg16 ESP (x + 6) ?b) = c_eflags_mask s" by (simp add: set_selector_def set_sreg_def)
  have cs: "c_sreg ?c CS = (c_sreg s CS)\<lparr>s_selector := w 2\<rparr>" "c_cpu_version ?c = c_cpu_version s"
    "c_performed_intersegment_jump ?c = c_performed_intersegment_jump s"
    by (simp_all add: set_flags_def Let_def set_selector_def set_sreg_def)
  have g: "g = real_cs s (w 2)" unfolding g_def c4 by (rule real_cs_cong [OF cs])
  have pc: "c_pc ?d = s_base (c_sreg ?d CS) + c_eip ?d" unfolding d2 by (rule p_def)
  show thesis
    by (rule that [OF i trans [OF d2(2) c4(1)] trans [OF d2(1) sp] fl trans [OF d2(3) c4(3)] k trans [OF d2(4) g] pc])
qed

text \<open>The state in which the handler starts.\<close>

definition handler_start :: "nat \<Rightarrow> bool \<Rightarrow> cpu \<Rightarrow> cpu" where
  "handler_start irq irq_gate s =
     (let m = frame_mem irq irq_gate s; i = c_idtr_base s + of_nat (irq * 4)
      in (set_selector CS (get2 (i + 2) m) (set_reg16 ESP (reg16 ESP s - 6) (with_mem s m)))\<lparr>c_eip := ucast (get2 i m), c_TF := False, c_IF := False\<rparr>)"

lemma real_i386_trap:
  fixes s :: cpu and irq :: nat and irq_gate :: bool
  assumes "real_mode s"
  defines "g \<equiv> real_cs s (get2 (c_idtr_base s + of_nat (irq * 4) + 2) (frame_mem irq irq_gate s))"
  shows "i386_trap irq irq_gate s =
    (Inr (), (set_sreg CS g (handler_start irq irq_gate s))\<lparr>c_pc := s_base g + c_eip (handler_start irq irq_gate s)\<rparr>)"
proof -
  let ?t = "handler_start irq irq_gate s" and ?v = "get2 (c_idtr_base s + of_nat (irq * 4) + 2) (frame_mem irq irq_gate s)"
  note tr = real_trap [OF assms(1), of irq irq_gate, folded handler_start_def [unfolded Let_def]]
  have "real_mode (set_reg16 ESP (reg16 ESP s - 6) (with_mem s (frame_mem irq irq_gate s)))" using assms(1) by simp
  then have rt: "real_mode ?t" by (simp add: handler_start_def Let_def real_mode_def set_selector_def set_sreg_def PROTECTED_MODE_def)
  have t: "c_sreg ?t CS = (c_sreg s CS)\<lparr>s_selector := ?v\<rparr>" "c_cpu_version ?t = c_cpu_version s"
    "c_performed_intersegment_jump ?t = c_performed_intersegment_jump s"
    by (simp_all add: handler_start_def Let_def set_selector_def set_sreg_def)
  have sel: "s_selector (c_sreg ?t CS) = ?v" by (simp add: t(1))
  have g: "real_cs ?t ?v = g" unfolding g_def by (rule real_cs_cong [OF t])
  have "\<not> PROTECTED_MODE s" using assms(1) by (simp add: real_mode_def)
  then show ?thesis
    unfolding i386_trap_def trap_body_def seq_def
    by (simp only: if_False bnd_step [of "trap_real irq irq_gate" s, OF tr] real_finish_jump [OF rt] sel g)
qed

lemma real_trap_keeps: "real_mode s \<Longrightarrow> real_mode (snd (i386_trap irq irq_gate s)) \<and>
   c_eflags_mask (snd (i386_trap irq irq_gate s)) = c_eflags_mask s \<and> stack_addr (snd (i386_trap irq irq_gate s)) = stack_addr s \<and>
   c_performed_intersegment_jump (snd (i386_trap irq irq_gate s)) = c_performed_intersegment_jump s"
proof -
  assume r: "real_mode s"
  note real_i386_trap [OF r, of irq irq_gate]
  moreover have "real_mode (set_reg16 ESP (reg16 ESP s - 6) (with_mem s (frame_mem irq irq_gate s)))" using r by simp
  ultimately show ?thesis
    by (simp add: handler_start_def Let_def real_mode_def set_selector_def set_sreg_def PROTECTED_MODE_def stack_addr_def fun_eq_iff)
qed

text \<open>C40: an interrupt in real mode saves flags, code segment and instruction pointer, clears the interrupt and trap flags and
  starts the handler its vector names: CS is loaded with the vector's selector as a real-mode load does (\<open>real_cs\<close>), and fetching goes
  on at its base plus the vector's offset. When the handler ends in IRET with its stack pointer and the three saved words as it found
  them, whatever else it did, the interrupted program goes on: fetching at the old code segment's base plus the saved
  instruction pointer, with the same code segment, stack pointer and flags. This holds for
  every stack pointer, also where the frame wraps around the segment, and where it overlaps the vector table. The base of CS is taken
  to be what a real-mode load of the selector gives, and the handler not to make the first far jump since the reset.\<close>

theorem interrupt_returns:
  assumes "real_mode s" "c_eflags_mask s = 0x00037fd7" "s_base (c_sreg s CS) = real_cs_base s (s_selector (c_sreg s CS))"
    and "i386_trap irq irq_gate s = (r, s1)"
    and "real_mode s2" "c_eflags_mask s2 = 0x00037fd7" "c_performed_intersegment_jump s2 = c_performed_intersegment_jump s"
    and "reg16 ESP s2 = reg16 ESP s1"
    and "\<forall>k\<in>{0, 2, 4}. get2 (stack_addr s2 (reg16 ESP s1 + k)) (c_mem s2) = get2 (stack_addr s (reg16 ESP s1 + k)) (c_mem s1)"
  shows "r = Inr () \<and> \<not> c_IF s1 \<and> \<not> c_TF s1 \<and> reg16 ESP s1 = reg16 ESP s - 6 \<and>
    c_eip s1 = ucast (get2 (c_idtr_base s + of_nat (irq * 4)) (c_mem s1)) \<and>
    c_sreg s1 CS = real_cs s (get2 (c_idtr_base s + of_nat (irq * 4) + 2) (c_mem s1)) \<and>
    c_pc s1 = s_base (c_sreg s1 CS) + c_eip s1 \<and>
    (\<exists>s3. i386_iret16 s2 = (Inr (), s3) \<and> c_eip s3 = ucast (ucast (saved_eip irq irq_gate s) :: u16) \<and>
       c_sreg s3 CS = real_cs s2 (s_selector (c_sreg s CS)) \<and> s_base (c_sreg s3 CS) = s_base (c_sreg s CS) \<and>
       c_pc s3 = s_base (c_sreg s CS) + c_eip s3 \<and> reg16 ESP s3 = reg16 ESP s \<and> c_flags s3 = c_flags s \<and> c_IF s3 = c_IF s \<and>
       c_TF s3 = c_TF s \<and> c_DF s3 = c_DF s \<and> c_NT s3 = c_NT s \<and> c_IOP1 s3 = c_IOP1 s \<and> c_IOP2 s3 = c_IOP2 s \<and> c_mem s3 = c_mem s2)"
proof -
  let ?x = "reg16 ESP s - 6" and ?m = "frame_mem irq irq_gate s" and ?i = "c_idtr_base s + of_nat (irq * 4)"
  let ?h = "handler_start irq irq_gate s" and ?g = "real_cs s (get2 (?i + 2) ?m)"
  have s1: "r = Inr ()" "s1 = (set_sreg CS ?g ?h)\<lparr>c_pc := s_base ?g + c_eip ?h\<rparr>"
    using assms(4) unfolding real_i386_trap [OF assms(1)] by simp_all
  have t: "c_mem s1 = ?m" "c_eip s1 = ucast (get2 ?i ?m)" "\<not> c_IF s1" "\<not> c_TF s1" "reg16 ESP s1 = ?x"
    "c_sreg s1 CS = ?g" "c_pc s1 = s_base ?g + c_eip s1"
    using set_reg16_reads(1) [of ESP ?x "with_mem s ?m"] unfolding s1(2)
    by (simp_all add: handler_start_def Let_def set_selector_def set_sreg_def reg16_def)
  have w: "get2 (stack_addr s2 (reg16 ESP s2 + k)) (c_mem s2) = get2 (stack_addr s (?x + k)) ?m" if "k \<in> {0, 2, 4}" for k
    using assms(8,9) that t(1,5) by auto
  have f: "get2 (stack_addr s2 (reg16 ESP s2 + 0)) (c_mem s2) = ucast (saved_eip irq irq_gate s)"
    "get2 (stack_addr s2 (reg16 ESP s2 + 2)) (c_mem s2) = s_selector (c_sreg s CS)"
    "get2 (stack_addr s2 (reg16 ESP s2 + 4)) (c_mem s2) = ucast (get_flags s)"
    using w [of 0] w [of 2] w [of 4] frame_words [of s irq irq_gate] by (simp_all only: insert_iff simp_thms add_0_right)
  obtain s3 u where "i386_iret16 s2 = (Inr (), s3)" "c_eip s3 = ucast (ucast (saved_eip irq irq_gate s) :: u16)"
    "reg16 ESP s3 = reg16 ESP s2 + 6"
    "c_flags s3 = c_flags (set_flags (ucast (ucast (get_flags s) :: u16)) u)" "c_TF s3 = c_TF (set_flags (ucast (ucast (get_flags s) :: u16)) u)"
    "c_IF s3 = c_IF (set_flags (ucast (ucast (get_flags s) :: u16)) u)" "c_DF s3 = c_DF (set_flags (ucast (ucast (get_flags s) :: u16)) u)"
    "c_NT s3 = c_NT (set_flags (ucast (ucast (get_flags s) :: u16)) u)" "c_IOP1 s3 = c_IOP1 (set_flags (ucast (ucast (get_flags s) :: u16)) u)"
    "c_IOP2 s3 = c_IOP2 (set_flags (ucast (ucast (get_flags s) :: u16)) u)" "c_mem s3 = c_mem s2" "c_eflags_mask u = c_eflags_mask s2"
    "c_sreg s3 CS = real_cs s2 (s_selector (c_sreg s CS))" "c_pc s3 = s_base (c_sreg s3 CS) + c_eip s3"
    by (rule real_iret [OF assms(5), unfolded f])
  moreover have "real_cs_base s2 (s_selector (c_sreg s CS)) = s_base (c_sreg s CS)" using assms(3,7) by (simp add: real_cs_base_def)
  ultimately show ?thesis using flags_restored [OF assms(2), of u] s1(1) t assms(6,8) by auto
qed

text \<open>Vector 8 with the stack pointer at 3, so that the frame wraps around the segment.\<close>

definition wrapping_cpu :: cpu where
  "wrapping_cpu = set_reg16 ESP 3 reset_cpu"

lemma interrupt_returns_witness:
  "\<exists>s3. i386_iret16 (snd (i386_trap 8 True wrapping_cpu)) = (Inr (), s3) \<and> c_eip s3 = 0xfff0 \<and> s_selector (c_sreg s3 CS) = 0xf000 \<and> reg16 ESP s3 = 3 \<and>
     c_pc s3 = 0xfffffff0"
proof -
  let ?s1 = "snd (i386_trap 8 True wrapping_cpu)"
  have a: "real_mode wrapping_cpu" "c_eflags_mask wrapping_cpu = 0x00037fd7"
    "s_base (c_sreg wrapping_cpu CS) = real_cs_base wrapping_cpu (s_selector (c_sreg wrapping_cpu CS))"
    "s_selector (c_sreg wrapping_cpu CS) = 0xf000" "reg16 ESP wrapping_cpu = 3"
    "ucast (ucast (saved_eip 8 True wrapping_cpu) :: u16) = (0xfff0 :: u32)" "s_base (c_sreg wrapping_cpu CS) = 0xffff0000"
    by code_simp+
  note b = real_trap_keeps [OF a(1), of 8 True]
  then have c: "\<forall>k\<in>{0, 2, 4}. get2 (stack_addr ?s1 (reg16 ESP ?s1 + k)) (c_mem ?s1) = get2 (stack_addr wrapping_cpu (reg16 ESP ?s1 + k)) (c_mem ?s1)"
    by simp
  have b2: "real_mode ?s1" "c_eflags_mask ?s1 = 0x00037fd7" "c_performed_intersegment_jump ?s1 = c_performed_intersegment_jump wrapping_cpu"
    using b a(2) by simp_all
  show ?thesis using interrupt_returns [OF a(1-3) prod.collapse [symmetric] b2 refl c] a(4-7) by auto
qed

end
