(* ===== verification/Spec2Isabelle.thy ===== *)
theory Spec2Isabelle
  imports Byte_Store Pic8259 Towns_Cd Towns_Keyboard Towns_Lines Msm58321 Towns_Video Towns_Sprite Towns_Irq
    Towns_Ports Rf5c68 Fmt_Icmem Pit8253 I8251 Fm_Scsi Towns_Layers I386_Alu I386_Interrupts
begin

text \<open>
  A verification library for the FM Towns driver of the emulator: the machine's own chips and ports as
  \<open>src/mame/fujitsu\<close> implements them, and the standard devices it is built from
  (\<open>src/devices\<close>, \<open>src/lib/util/cdrom.cpp\<close>, \<open>src/emu/dirtc.cpp\<close>).

  \<^bold>\<open>How the program is put together.\<close> \<open>towns_state\<close> is one object that owns the processor, two 8259
  interrupt controllers in cascade, two uPD71071 DMA controllers, the CD-ROM controller with its drive and
  the CD audio player, the keyboard controller, a real-time clock, two timers, serial ports, a PCM and an FM
  sound chip, a memory card, a floppy and a SCSI controller, and the video hardware with its sprite engine.
  The parts talk through ports the processor reads and writes, interrupt lines into the two controllers,
  DMA requests, and timer callbacks. Each theory models one part as a record of its state and one definition
  per handler, in the order of the source; what a part calls outside itself (an interrupt line, a DMA
  channel, a device on a connector, the disc image) is an argument of its definitions.

  \<^bold>\<open>The theories.\<close>
  \<^item> \<open>Towns_Prelude\<close>: machine words, masks, byte lanes, and the lemmas on them that all parts share.
  \<^item> \<open>Irq_Line\<close>: the interface of an interrupt input (locale \<open>irq_input\<close>: drive, level, edge latch);
    \<open>Byte_Store\<close>: the interface of byte memories (locales \<open>byte_store\<close>, \<open>masked_store\<close>, \<open>open_store\<close>)
    with block reads and writes.
  \<^item> \<open>Pic8259\<close> (\<open>pic8259.cpp\<close>): one interrupt controller, its resolver against an abstract priority
    specification, the life of an interrupt, initialisation, and the invariant of every reachable state. It
    interprets \<open>irq_input\<close> for its inputs. \<open>Towns_Irq\<close> (\<open>fmtowns.cpp\<close>, wiring and \<open>get_slave_ack\<close>): the two
    controllers in cascade; the cascade line mirrors the slave's output, and a processor that answers
    interrupts receives every request of both.
  \<^item> \<open>Upd71071\<close> (\<open>upd71071.cpp\<close>): the DMA controller, its register round trips and request invariant.
  \<^item> \<open>Cd_Image\<close> (\<open>cdrom.cpp\<close>, \<open>cdromimg.cpp\<close>), \<open>Cdda\<close> (\<open>cdda.cpp\<close>), \<open>Towns_Cd\<close> (\<open>fmtowns.cpp\<close>): the table of
    contents and sectors of a disc, the CD audio player with its sector cache, and the CD controller with its
    commands, status sequences and both transfer modes, composed with DMA channel 3 and slave input 1.
  \<^item> \<open>Towns_Keyboard\<close>, \<open>Towns_Lines\<close>, \<open>Towns_Ports\<close> (\<open>fmtowns.cpp\<close>): keyboard controller; sound, timer and
    serial interrupt glue; system ports with the serial ROM, interval timer 2, wait, volume and pad ports,
    floppy and SCSI glue.
  \<^item> \<open>Msm58321\<close> (\<open>msm58321.cpp\<close>, \<open>dirtc.cpp\<close>): the calendar and the clock chip behind its port pair, for any
    year 0 of the chip (the Towns sets 2000).
  \<^item> \<open>Towns_Memory\<close>, \<open>Towns_Video\<close>, \<open>Towns_Sprite\<close> (\<open>fmtowns_v.cpp\<close>): CMOS RAM, video memory windows and banks
    (interpreting the memory interfaces); the CRTC, palette and kanji ports and the vertical blank; the sprite
    engine with both pixel formats against a reference drawing. \<open>Towns_Layers\<close>: the scan-line renderers (locale
    \<open>scan_line\<close>, interpreted on the three colour modes), the layers and the picture.
  \<^item> \<open>Rf5c68\<close> (\<open>rf5c68.cpp\<close>): the PCM chip. \<open>Fmt_Icmem\<close> (\<open>fmt_icmem.cpp\<close>): the memory card, again a
    \<open>byte_store\<close>.
  \<^item> \<open>Pit8253\<close> (\<open>pit8253.cpp\<close>): the interval timer, whose lazily updated counters run as their own step by step
    versions do (locale \<open>lazy_wave\<close>, interpreted on the square wave and on the rate generator), as long as the
    cycles between two updates fit the arithmetic of the source (\<open>gap_fits\<close>: fewer than 2^32).
  \<^item> \<open>Diserial\<close> (\<open>diserial.cpp\<close>), \<open>I8251\<close> (\<open>i8251.cpp\<close>): the shift registers of a serial line and the serial
    controller; two of them on one line transmit a string.
  \<^item> \<open>Scsi_Disk\<close> (\<open>t10spc.cpp\<close>, \<open>t10sbc.cpp\<close>, \<open>harddisk.cpp\<close>), \<open>Fm_Scsi\<close> (\<open>fm_scsi.cpp\<close>, \<open>legscsi.cpp\<close>): the command set
    of a disk over its image, and the SCSI controller with its phases; whole write and read transactions over the
    bus.
  \<^item> \<open>I386_Alu\<close> (\<open>i386.cpp\<close>, \<open>i386ops.hxx\<close>): the processor's arithmetic, its flags as facts about numbers, shifts and
    rotates as operations on bits, decimal adjustment as decimal addition.
  \<^item> \<open>Vtlb\<close> (\<open>divtlb.cpp\<close>): the look-aside buffer with fixed and dynamic entries: who owns each
    page of its table, its bound and its flush. \<open>I386_Memory\<close> (\<open>i386.cpp\<close>): the
    translation of addresses, the reads, writes and fetches of every width, each shown to be the accesses to its
    bytes, on the 386 and on the 386SX. \<open>I386_Paging\<close>: a specification of the page walk that translation through the
    buffer refines, and the loads of the control registers.
  \<^item> \<open>I386_Segments\<close> (\<open>i386segs.hxx\<close>, \<open>i386.cpp\<close>): flag word, descriptors, segment registers, address checks, the stack,
    and what a memory access leaves alone. \<open>I386_Traps\<close> (\<open>i386segs.hxx\<close>): task switches, interrupts and exceptions
    in every mode, double and triple faults, the return from an interrupt. \<open>I386_Interrupts\<close>: an interrupt in real mode starts
    its handler, and the handler returns to the interrupted instruction.

  \<^bold>\<open>State and time.\<close> Fields keep the name of the source behind a letter per part. Registers keep their width as
  machine words; fields the source uses as truth values are booleans; arrays are functions from indices, and
  an index that the source does not limit is either shown to be in range or makes the operation \<open>None\<close>.
  A timer is a flag that says it is due; the step relations and the composed properties let it fire. The
  delays themselves are not modelled.

  \<^bold>\<open>Loops, bounds and fuel.\<close> The loops of the sources are structural recursions where a counter bounds them
  (the resolver's eight inputs, the sixteen rows of a sprite, the samples of a stream). The sample feed of the
  CD audio player runs with \<open>2 * n + 2\<close> turns for \<open>n\<close> samples: each turn delivers samples or refills the cache,
  and two refills in a row do not happen. The sprite engine's loops have no bound in the source; they are
  partial functions with \<open>None\<close> for not ending, and it is proved that the drawing loops always end and that
  the clearing loop ends exactly when the line size is not 0.

  \<^bold>\<open>What the groups of lemmas show.\<close> Each part has its invariant and the preservation lemmas (collected in
  named theorems or shown by rule induction over its step relation), the effect of its handlers, and one or
  more properties over whole protocols: interrupt cycles, sector transfers, port sequences, block round trips.
  Properties of kind error state what the code does where that is not what the hardware or a comment says.

  \<^bold>\<open>Not modelled.\<close> The MB8877 and
  the drives (a parameter of the floppy glue); compressed disk images; the FM chip (a wrapper of a library); of the
  processors the instruction decoder, far jumps, calls and returns in protected mode, floating point and cycle counts (physical memory is a store of bytes, without the address map's devices); address
  maps and machine configurations, which are tables the emulator core interprets, except for the interrupt
  wiring; the formats of disc image files (the image is a function from sectors to bytes); saving of state,
  logging and the front ends. Other machines' drivers and devices in the repository are not part of this one.
\<close>

end
